(* ===== verification/Prelude.thy ===== *)
theory Prelude
  imports Main "HOL-Library.Word"
begin

text \<open>
  Shared vocabulary of the development: machine integers, results, byte strings and their
  slices.

  The firmware is Rust for a 32-bit part, built with \<open>overflow-checks = false\<close>: a plain
  \<open>+\<close> on \<open>u32\<close> or \<open>usize\<close> wraps silently. Quantities used as offsets,
  lengths, counters and indices are \<open>nat\<close> with the wrap-around written out
  (\<open>u32_add\<close>, \<open>u32_mul\<close>, and the checked and saturating forms the code calls by
  name); register values and bytes are words.
\<close>

unbundle bit_operations_syntax

named_theorems frame_simps \<open>what an operation leaves unchanged\<close>
named_theorems bounds_intros \<open>bounds of arithmetic results\<close>

type_synonym u8 = "8 word"
type_synonym u32 = "32 word"
type_synonym u64 = "64 word"
type_synonym bytes = "u8 list"

subsection \<open>Thirty-two bit arithmetic on naturals\<close>

definition u32_lim :: nat where
  "u32_lim = 4294967296"

definition u32_max :: nat where
  "u32_max = 4294967295"

definition u32_add :: "nat \<Rightarrow> nat \<Rightarrow> nat" where
  "u32_add a b = (a + b) mod u32_lim"

definition u32_mul :: "nat \<Rightarrow> nat \<Rightarrow> nat" where
  "u32_mul a b = (a * b) mod u32_lim"

definition u32_sat_add :: "nat \<Rightarrow> nat \<Rightarrow> nat" where
  "u32_sat_add a b = min u32_max (a + b)"

definition u32_checked_add :: "nat \<Rightarrow> nat \<Rightarrow> nat option" where
  "u32_checked_add a b = (if a + b < u32_lim then Some (a + b) else None)"

definition checked_sub :: "nat \<Rightarrow> nat \<Rightarrow> nat option" where
  "checked_sub a b = (if b \<le> a then Some (a - b) else None)"

lemma u32_add_exact: "a + b < u32_lim \<Longrightarrow> u32_add a b = a + b"
  by (simp add: u32_add_def)

lemma u32_mul_exact: "a * b < u32_lim \<Longrightarrow> u32_mul a b = a * b"
  by (simp add: u32_mul_def)

lemma u32_add_bound [bounds_intros]: "u32_add a b < u32_lim"
  by (simp add: u32_add_def u32_lim_def)

lemma u32_checked_add_Some [simp]:
  "u32_checked_add a b = Some c \<longleftrightarrow> c = a + b \<and> a + b < u32_lim"
  by (auto simp: u32_checked_add_def)

lemma u32_checked_add_None [simp]:
  "u32_checked_add a b = None \<longleftrightarrow> u32_lim \<le> a + b"
  by (auto simp: u32_checked_add_def)

lemma checked_sub_Some [simp]: "checked_sub a b = Some c \<longleftrightarrow> b \<le> a \<and> c = a - b"
  by (auto simp: checked_sub_def)

lemma checked_sub_None [simp]: "checked_sub a b = None \<longleftrightarrow> a < b"
  by (auto simp: checked_sub_def)

subsection \<open>Results\<close>

text \<open>\<open>Result<T, E>\<close> is \<open>'e + 'a\<close>, the error on the left.\<close>

definition is_ok :: "'e + 'a \<Rightarrow> bool" where
  "is_ok r = (case r of Inl _ \<Rightarrow> False | Inr _ \<Rightarrow> True)"

lemma is_ok_simps [simp]: "is_ok (Inr x)" "\<not> is_ok (Inl e)"
  by (simp_all add: is_ok_def)

lemma is_ok_unit: "is_ok r \<longleftrightarrow> r = Inr ()"
  by (cases r) auto

subsection \<open>Slices of byte strings\<close>

definition window :: "'a list \<Rightarrow> nat \<Rightarrow> nat \<Rightarrow> 'a list" where
  "window xs off len = take len (drop off xs)"

definition patch :: "'a list \<Rightarrow> nat \<Rightarrow> 'a list \<Rightarrow> 'a list" where
  "patch xs off ys = take off xs @ ys @ drop (off + length ys) xs"

lemma length_window: "off + len \<le> length xs \<Longrightarrow> length (window xs off len) = len"
  by (simp add: window_def)

lemma nth_window: "off + len \<le> length xs \<Longrightarrow> i < len \<Longrightarrow> window xs off len ! i = xs ! (off + i)"
  by (simp add: window_def)

lemma window_0 [simp]: "window xs off 0 = []"
  by (simp add: window_def)

lemma window_all [simp]: "window xs 0 (length xs) = xs"
  by (simp add: window_def)

lemma window_eqI:
  assumes "length xs = length ys" "off + len \<le> length xs"
    and "\<And>i. off \<le> i \<Longrightarrow> i < off + len \<Longrightarrow> xs ! i = ys ! i"
  shows "window xs off len = window ys off len"
  using assms by (intro nth_equalityI) (auto simp: length_window nth_window)

lemma window_eqD:
  "window xs off len = window ys off len \<Longrightarrow> off + len \<le> length xs \<Longrightarrow> off + len \<le> length ys \<Longrightarrow>
   off \<le> i \<Longrightarrow> i < off + len \<Longrightarrow> xs ! i = ys ! i"
  using nth_window[of off len xs "i - off"] nth_window[of off len ys "i - off"] by simp

lemma window_window:
  "a + b \<le> len \<Longrightarrow> window (window xs off len) a b = window xs (off + a) b"
  by (simp add: window_def take_drop drop_drop ac_simps min_absorb1)

lemma window_append_left: "off + len \<le> length xs \<Longrightarrow> window (xs @ ys) off len = window xs off len"
  by (simp add: window_def)

lemma window_append_right:
  "length xs \<le> off \<Longrightarrow> window (xs @ ys) off len = window ys (off - length xs) len"
  by (simp add: window_def)

lemma window_concat: "window xs off a @ window xs (off + a) b = window xs off (a + b)"
  by (simp add: window_def take_add add.commute)

lemma length_patch [simp]: "off + length ys \<le> length xs \<Longrightarrow> length (patch xs off ys) = length xs"
  by (simp add: patch_def)

lemma nth_patch:
  assumes "off + length ys \<le> length xs" "i < length xs"
  shows "patch xs off ys ! i =
    (if off \<le> i \<and> i < off + length ys then ys ! (i - off) else xs ! i)"
  using assms by (auto simp: patch_def nth_append)

lemma window_patch_same:
  "off + length ys \<le> length xs \<Longrightarrow> window (patch xs off ys) off (length ys) = ys"
  by (simp add: window_def patch_def)

lemma window_patch_other:
  "off + length ys \<le> length xs \<Longrightarrow> a + len \<le> length xs \<Longrightarrow> a + len \<le> off \<or> off + length ys \<le> a \<Longrightarrow>
   window (patch xs off ys) a len = window xs a len"
  by (intro window_eqI) (auto simp: nth_patch)

lemma window_patch_inner:
  "off + length ys \<le> length xs \<Longrightarrow> a + len \<le> length ys \<Longrightarrow>
   window (patch xs off ys) (off + a) len = window ys a len"
  by (metis window_patch_same window_window)

lemma patch_patch_inner:
  assumes "off + length zs \<le> length ys" "b + length ys \<le> length xs"
  shows "patch (patch xs b ys) (b + off) zs = patch xs b (patch ys off zs)"
  using assms by (intro nth_equalityI) (auto simp: nth_patch)

lemma patch_append:
  "length zs \<le> k \<Longrightarrow> patch (ys @ replicate k x) (length ys) zs = ys @ zs @ replicate (k - length zs) x"
  by (simp add: patch_def)

lemma patch_Nil [simp]: "patch xs off [] = xs"
  by (simp add: patch_def)

subsection \<open>Little-endian integers\<close>

primrec le_bytes :: "nat \<Rightarrow> nat \<Rightarrow> bytes" where
  "le_bytes 0 v = []"
| "le_bytes (Suc n) v = word_of_nat (v mod 256) # le_bytes n (v div 256)"

primrec of_le :: "bytes \<Rightarrow> nat" where
  "of_le [] = 0"
| "of_le (b # bs) = unat b + 256 * of_le bs"

lemma length_le_bytes [simp]: "length (le_bytes n v) = n"
  by (induction n arbitrary: v) auto

lemma of_le_bytes: "v < 256 ^ n \<Longrightarrow> of_le (le_bytes n v) = v"
proof (induction n arbitrary: v)
  case (Suc n)
  have "v div 256 < 256 ^ n"
    using Suc.prems by (simp add: less_mult_imp_div_less)
  then have "of_le (le_bytes n (v div 256)) = v div 256"
    by (rule Suc.IH)
  moreover have "unat (word_of_nat (v mod 256) :: u8) = v mod 256"
    by (simp add: unat_of_nat)
  ultimately show ?case by simp
qed simp

lemma le_bytes_of_le: "le_bytes (length bs) (of_le bs) = bs"
proof (induction bs)
  case (Cons b bs)
  have b: "unat b < 256" using unsigned_less[of b] by simp
  then have "(unat b + 256 * of_le bs) mod 256 = unat b"
    and "(unat b + 256 * of_le bs) div 256 = of_le bs" by auto
  with Cons show ?case by simp
qed simp

lemma of_le_bound: "of_le bs < 256 ^ length bs"
proof (induction bs)
  case (Cons b bs)
  have "unat b < 256" using unsigned_less[of b] by simp
  moreover have "Suc (of_le bs) \<le> 256 ^ length bs" using Cons by simp
  then have "256 * Suc (of_le bs) \<le> 256 * 256 ^ length bs" by (rule mult_le_mono2)
  ultimately show ?case by simp
qed simp

lemma of_le_inject:
  "length xs = length ys \<Longrightarrow> of_le xs = of_le ys \<longleftrightarrow> xs = ys"
  by (metis le_bytes_of_le)

lemma le_bytes_inject:
  "v < 256 ^ n \<Longrightarrow> w < 256 ^ n \<Longrightarrow> le_bytes n v = le_bytes n w \<longleftrightarrow> v = w"
  by (metis of_le_bytes)

abbreviation ff :: u8 where "ff \<equiv> 255"

lemma of_le_replicate_ff: "Suc (of_le (replicate n ff)) = 256 ^ n"
  by (induction n) auto

lemma of_le_ff4: "of_le [ff, ff, ff, ff] = u32_max"
  by (simp add: u32_max_def)

subsection \<open>Single bits of a register\<close>

text \<open>\<open>1 << n\<close> on \<open>u32\<close>.\<close>

definition bitv :: "nat \<Rightarrow> u32" where
  "bitv n = push_bit n 1"

lemma bit_bitv [simp]: "bit (bitv n) i \<longleftrightarrow> n < 32 \<and> i = n"
  by (auto simp: bitv_def bit_simps)

lemma and_bitv: "w AND bitv n = (if bit w n then bitv n else 0)"
  by (rule bit_eqI) (auto simp: bit_and_iff)

lemma bitv_eq_0 [simp]: "bitv n = 0 \<longleftrightarrow> 32 \<le> n"
proof
  assume "bitv n = 0"
  then have "\<not> bit (bitv n) n" by simp
  then show "32 \<le> n" by (simp add: not_less)
qed (simp add: bit_eq_iff[of "bitv n" 0])

lemma and_bitv_eq_0: "n < 32 \<Longrightarrow> w AND bitv n = 0 \<longleftrightarrow> \<not> bit w n"
  by (simp add: and_bitv)

lemma mask_8: "(255 :: u32) = mask 8"
  by (simp add: mask_eq_exp_minus_1)

lemma unat_and_255: "unat (w AND 255 :: u32) = unat w mod 256"
proof -
  have "w AND 255 = take_bit 8 w" by (simp only: mask_8 take_bit_eq_mask)
  then have "unat (w AND 255) = take_bit 8 (unat w)" by (simp only: unsigned_take_bit_eq)
  then show ?thesis by (simp add: take_bit_eq_mod)
qed

subsection \<open>Lists\<close>

lemma replicate_eq_iff_all: "xs = replicate n x \<longleftrightarrow> length xs = n \<and> (\<forall>y \<in> set xs. y = x)"
  by (auto simp: replicate_eqI)

lemma window_replicate: "off + len \<le> n \<Longrightarrow> window (replicate n x) off len = replicate len x"
  by (simp add: window_def)

lemma find_Some_mem: "List.find P xs = Some x \<Longrightarrow> x \<in> set xs \<and> P x"
  by (auto simp: find_Some_iff in_set_conv_nth)

subsection \<open>The standard library's slices and iterators\<close>

text \<open>\<open>slice::swap\<close> inside the slice, and \<open>Iterator::position\<close>.\<close>

definition swap_at :: "nat \<Rightarrow> nat \<Rightarrow> 'a list \<Rightarrow> 'a list" where
  "swap_at i j xs = xs[i := xs ! j, j := xs ! i]"

lemma swap_at_length [simp]: "length (swap_at i j xs) = length xs"
  unfolding swap_at_def by (simp only: length_list_update)

lemma swap_at_set [simp]: "i < length xs \<Longrightarrow> j < length xs \<Longrightarrow> set (swap_at i j xs) = set xs"
  unfolding swap_at_def by (rule set_swap)

lemma swap_at_distinct [simp]:
  "i < length xs \<Longrightarrow> j < length xs \<Longrightarrow> distinct (swap_at i j xs) = distinct xs"
  unfolding swap_at_def by (rule distinct_swap)

fun iter_position :: "('a \<Rightarrow> bool) \<Rightarrow> 'a list \<Rightarrow> nat option" where
  "iter_position P [] = None"
| "iter_position P (x # xs) = (if P x then Some 0 else map_option Suc (iter_position P xs))"

lemma position_Some: "iter_position P xs = Some i \<longleftrightarrow> i < length xs \<and> P (xs ! i) \<and> (\<forall>j < i. \<not> P (xs ! j))"
proof (induction xs arbitrary: i)
  case (Cons x xs)
  then show ?case by (cases i) (auto simp: less_Suc_eq_0_disj nth_Cons')
qed simp

lemma position_None: "iter_position P xs = None \<longleftrightarrow> (\<forall>x \<in> set xs. \<not> P x)"
  by (induction xs) auto

end
