(* ===== verification/Nonces.thy ===== *)
theory Nonces
  imports Prelude
begin

text \<open>
  \<open>frostsnap_core/src/device_nonces.rs\<close>: the ratcheted secret nonces of a stream, the
  jobs that publish them in batches, signing with the advance committed before a share leaves,
  and the pool of slots. The keyed derivation, ChaCha20's keystream and the public image of a
  secret nonce are parameters, and a signing session is its function from a secret nonce to a
  signature share. A slot's backing storage is a record of a read and a write over some world.
\<close>

type_synonym stream_id = bytes
type_synonym session_id = bytes
type_synonym signature_share = bytes

record 'n nonce_env =
  ne_derive :: "stream_id \<Rightarrow> nat \<Rightarrow> bytes \<Rightarrow> bytes"
  ne_keystream :: "bytes \<Rightarrow> bytes \<Rightarrow> nat \<Rightarrow> bytes"
  ne_public :: "bytes \<Rightarrow> 'n"

record signing_state =
  sst_session_id :: session_id
  sst_signature_shares :: "signature_share list"

record secret_nonce_slot =
  sn_index :: nat
  sn_stream_id :: stream_id
  sn_seed :: bytes
  sn_last_used :: nat
  sn_signing_state :: "signing_state option"

record coord_nonce_state =
  cn_stream_id :: stream_id
  cn_index :: nat
  cn_remaining :: nat

datatype nonces_unavailable =
    IndexUsed nat nat
  | NOverflow
  | SlotUnreadable
  | WriteVerifyFailed
  | SkipTooLarge nat nat

definition MAX_NONCE_SKIP_BATCHES :: nat where "MAX_NONCE_SKIP_BATCHES = 64"
definition NONCE_BATCH_SIZE :: nat where "NONCE_BATCH_SIZE = 30"

definition u32_sat_mul :: "nat \<Rightarrow> nat \<Rightarrow> nat" where
  "u32_sat_mul a b = min u32_max (a * b)"

subsection \<open>The ratchet\<close>

text \<open>One step: the secret nonce at an index, and the seed material of the next index.\<close>

definition ratchet :: "'n nonce_env \<Rightarrow> stream_id \<Rightarrow> nat \<Rightarrow> bytes \<Rightarrow> bytes \<times> bytes" where
  "ratchet E sid index seed =
     (let actual_seed = ne_derive E sid index seed;
          chacha_nonce = le_bytes 4 index @ replicate 8 0;
          ks = ne_keystream E actual_seed chacha_nonce 96 in
      (window ks 32 64, window ks 0 32))"

definition iter_next ::
  "'n nonce_env \<Rightarrow> stream_id \<Rightarrow> nat \<times> bytes \<Rightarrow> ((nat \<times> bytes \<times> bytes) \<times> nat \<times> bytes) option" where
  "iter_next E sid st =
     (case st of (index, seed) \<Rightarrow>
        if index = u32_max then None
        else (case ratchet E sid index seed of
                (secret, next_seed) \<Rightarrow> Some ((index, secret, next_seed), index + 1, next_seed)))"

fun iter_skip :: "'n nonce_env \<Rightarrow> stream_id \<Rightarrow> nat \<Rightarrow> nat \<times> bytes \<Rightarrow> (nat \<times> bytes) option" where
  "iter_skip E sid 0 st = Some st"
| "iter_skip E sid (Suc n) st =
     (case iter_next E sid st of None \<Rightarrow> None | Some (_, st') \<Rightarrow> iter_skip E sid n st')"

subsection \<open>Jobs\<close>

record 'n nonce_job =
  nj_stream_id :: stream_id
  nj_seed :: bytes
  nj_index :: nat
  nj_target_index :: nat
  nj_nonces :: "'n list"
  nj_skip_to :: nat

definition do_work :: "'n nonce_env \<Rightarrow> 'n nonce_job \<Rightarrow> bool \<times> 'n nonce_job" where
  "do_work E job =
     (if nj_target_index job \<le> nj_index job then (True, job)
      else (let current_index = nj_index job in
            case ratchet E (nj_stream_id job) current_index (nj_seed job) of
              (secret, next_seed) \<Rightarrow>
                (let job' = job\<lparr>nj_seed := next_seed, nj_index := current_index + 1,
                       nj_nonces := (if nj_skip_to job \<le> current_index
                                     then nj_nonces job @ [ne_public E secret] else nj_nonces job)\<rparr> in
                 (nj_target_index job' \<le> nj_index job', job'))))"

lemma do_work_progress:
  "do_work E job = (False, job') \<Longrightarrow>
   nj_target_index job' = nj_target_index job \<and> nj_index job' = nj_index job + 1 \<and>
   nj_index job < nj_target_index job"
  by (auto simp: do_work_def Let_def split: if_splits prod.splits)

function run_until_finished :: "'n nonce_env \<Rightarrow> 'n nonce_job \<Rightarrow> 'n nonce_job" where
  "run_until_finished E job =
     (case do_work E job of (finished, job') \<Rightarrow> if finished then job' else run_until_finished E job')"
  by pat_completeness auto
termination
  by (relation "measure (\<lambda>(E, job). nj_target_index job - nj_index job)")
    (auto dest!: sym[of "(_, _)" "do_work _ _"] do_work_progress)

declare run_until_finished.simps [simp del]

record 'n nonce_segment =
  ns_stream_id :: stream_id
  ns_nonces :: "'n list"
  ns_index :: nat

text \<open>\<open>into_segment\<close> asserts that the job is finished.\<close>

definition into_segment :: "'n nonce_job \<Rightarrow> 'n nonce_segment option" where
  "into_segment job =
     (if nj_target_index job \<le> nj_index job
      then Some \<lparr>ns_stream_id = nj_stream_id job, ns_nonces = nj_nonces job, ns_index = nj_skip_to job\<rparr>
      else None)"

definition n_nonces_to_generate :: "'n nonce_job \<Rightarrow> nat" where
  "n_nonces_to_generate job = nj_target_index job - nj_skip_to job"

definition n_derivations_remaining :: "'n nonce_job \<Rightarrow> nat" where
  "n_derivations_remaining job = nj_target_index job - nj_index job"

record 'n job_batch =
  jb_tasks :: "'n nonce_job list"
  jb_current :: nat

definition job_batch_new :: "'n nonce_job list \<Rightarrow> 'n job_batch" where
  "job_batch_new tasks = \<lparr>jb_tasks = tasks, jb_current = 0\<rparr>"

definition batch_do_work :: "'n nonce_env \<Rightarrow> 'n job_batch \<Rightarrow> bool \<times> 'n job_batch" where
  "batch_do_work E b =
     (let b' = (if jb_current b < length (jb_tasks b)
                then (case do_work E (jb_tasks b ! jb_current b) of
                        (finished, job) \<Rightarrow>
                          b\<lparr>jb_tasks := (jb_tasks b)[jb_current b := job],
                            jb_current := (if finished then jb_current b + 1 else jb_current b)\<rparr>)
                else b) in
      (length (jb_tasks b') \<le> jb_current b', b'))"

definition into_segments :: "'n job_batch \<Rightarrow> 'n nonce_segment list option" where
  "into_segments b =
     (if length (jb_tasks b) \<le> jb_current b
      then those (map into_segment (jb_tasks b)) else None)"

subsection \<open>Planning work from what the coordinator claims\<close>

definition try_nonce_task ::
  "secret_nonce_slot \<Rightarrow> nat option \<Rightarrow> nat \<Rightarrow> nonces_unavailable + 'n nonce_job" where
  "try_nonce_task v start0 len =
     (let start = (case start0 of None \<Rightarrow> sn_index v | Some x \<Rightarrow> x) in
      if start < sn_index v then Inl (IndexUsed (sn_index v) start)
      else if u32_lim \<le> len then Inl NOverflow
      else (let last = u32_sat_add start len in
            if last = u32_max then Inl NOverflow
            else Inr \<lparr>nj_stream_id = sn_stream_id v, nj_seed = sn_seed v, nj_index = sn_index v,
                      nj_target_index = last, nj_nonces = [], nj_skip_to = start\<rparr>))"

definition reconcile_length :: "nat \<Rightarrow> coord_nonce_state \<Rightarrow> nat \<Rightarrow> nat option" where
  "reconcile_length our_index st batch =
     (if cn_index st < our_index \<or> cn_remaining st < batch then Some batch
      else if our_index = cn_index st then None
      else Some (min (cn_index st - our_index) batch))"

definition reconcile ::
  "secret_nonce_slot option \<Rightarrow> coord_nonce_state \<Rightarrow> nat \<Rightarrow> 'n nonce_job option" where
  "reconcile slot st batch =
     (case slot of
        None \<Rightarrow> None
      | Some v \<Rightarrow>
         (case reconcile_length (sn_index v) st batch of
            None \<Rightarrow> None
          | Some len \<Rightarrow> (case try_nonce_task v None len of Inl _ \<Rightarrow> None | Inr job \<Rightarrow> Some job)))"

definition are_nonces_available :: "secret_nonce_slot \<Rightarrow> nat \<Rightarrow> nat \<Rightarrow> nonces_unavailable + unit" where
  "are_nonces_available v index n =
     (if index < sn_index v then Inl (IndexUsed (sn_index v) index)
      else if u32_sat_add index n = u32_max then Inl NOverflow else Inr ())"

subsection \<open>Signing\<close>

text \<open>Each session takes the next nonce; the last index and seed are what gets stored.\<close>

fun sign_loop ::
  "'n nonce_env \<Rightarrow> stream_id \<Rightarrow> (bytes \<Rightarrow> signature_share) list \<Rightarrow> nat \<times> bytes \<Rightarrow>
   signature_share list \<Rightarrow> (nat \<times> bytes) option \<Rightarrow>
   nonces_unavailable + signature_share list \<times> (nat \<times> bytes) option" where
  "sign_loop E sid [] st shares next_prg = Inr (shares, next_prg)"
| "sign_loop E sid (sign # sessions) st shares next_prg =
     (case iter_next E sid st of
        None \<Rightarrow> Inl NOverflow
      | Some ((current_index, secret, next_seed), st') \<Rightarrow>
          sign_loop E sid sessions st' (shares @ [sign secret]) (Some (current_index + 1, next_seed)))"

text \<open>
  The branch taken when the session is not the cached one. The iterator is advanced over the
  skipped indices only when its first item is asked for; with no session either way leads to
  the same refusal.
\<close>

definition fresh_signing ::
  "'n nonce_env \<Rightarrow> secret_nonce_slot \<Rightarrow> session_id \<Rightarrow> coord_nonce_state \<Rightarrow> nat \<Rightarrow>
   (bytes \<Rightarrow> signature_share) list \<Rightarrow> nat \<Rightarrow> nonces_unavailable + secret_nonce_slot" where
  "fresh_signing E v session_id st last_used sessions batch =
     (if cn_index st < sn_index v then Inl (IndexUsed (sn_index v) (cn_index st))
      else (let skip = cn_index st - sn_index v;
                max_skip = u32_sat_mul batch MAX_NONCE_SKIP_BATCHES in
            if max_skip < skip then Inl (SkipTooLarge skip max_skip)
            else (case iter_skip E (sn_stream_id v) skip (sn_index v, sn_seed v) of
                    None \<Rightarrow> Inl NOverflow
                  | Some it \<Rightarrow>
                     (case sign_loop E (sn_stream_id v) sessions it [] None of
                        Inl e \<Rightarrow> Inl e
                      | Inr (shares, None) \<Rightarrow> Inl NOverflow
                      | Inr (shares, Some (next_index, next_seed)) \<Rightarrow>
                          Inr \<lparr>sn_index = next_index, sn_stream_id = sn_stream_id v,
                               sn_seed = next_seed, sn_last_used = last_used,
                               sn_signing_state = Some \<lparr>sst_session_id = session_id,
                                 sst_signature_shares = shares\<rparr>\<rparr>))))"

text \<open>What goes to flash: the stored state again for a cached session, else a fresh one.\<close>

definition with_signatures ::
  "'n nonce_env \<Rightarrow> secret_nonce_slot \<Rightarrow> session_id \<Rightarrow> coord_nonce_state \<Rightarrow> nat \<Rightarrow>
   (bytes \<Rightarrow> signature_share) list \<Rightarrow> nat \<Rightarrow> nonces_unavailable + secret_nonce_slot" where
  "with_signatures E v session_id st last_used sessions batch =
     (case sn_signing_state v of
        Some sst \<Rightarrow> if sst_session_id sst = session_id then Inr v
                    else fresh_signing E v session_id st last_used sessions batch
      | None \<Rightarrow> fresh_signing E v session_id st last_used sessions batch)"

record 'w slot_ops =
  sl_read :: "'w \<Rightarrow> nat \<Rightarrow> secret_nonce_slot option"
  sl_write :: "nat \<Rightarrow> secret_nonce_slot \<Rightarrow> 'w \<Rightarrow> 'w"

definition slot_initialize ::
  "'w slot_ops \<Rightarrow> ('r \<Rightarrow> bytes \<times> 'r) \<Rightarrow> nat \<Rightarrow> stream_id \<Rightarrow> nat \<Rightarrow> 'w \<times> 'r \<Rightarrow> 'w \<times> 'r" where
  "slot_initialize S fill i sid last_used wr =
     (case fill (snd wr) of (seed, r') \<Rightarrow>
        (sl_write S i \<lparr>sn_index = 0, sn_stream_id = sid, sn_seed = seed, sn_last_used = last_used,
                       sn_signing_state = None\<rparr> (fst wr), r'))"

text \<open>The outer \<open>None\<close> is the \<open>assert_eq!\<close> on the stream id.\<close>

definition slot_sign ::
  "'w slot_ops \<Rightarrow> 'n nonce_env \<Rightarrow> nat \<Rightarrow> session_id \<Rightarrow> coord_nonce_state \<Rightarrow> nat \<Rightarrow>
   (bytes \<Rightarrow> signature_share) list \<Rightarrow> nat \<Rightarrow> 'w \<Rightarrow>
   ((nonces_unavailable + signature_share list \<times> 'n nonce_job option) \<times> 'w) option" where
  "slot_sign S E i session_id st last_used sessions batch w =
     (case sl_read S w i of
        None \<Rightarrow> Some (Inl SlotUnreadable, w)
      | Some v \<Rightarrow>
         (if cn_stream_id st \<noteq> sn_stream_id v then None
          else (case with_signatures E v session_id st last_used sessions batch of
                  Inl e \<Rightarrow> Some (Inl e, w)
                | Inr ws \<Rightarrow>
                   (let w' = sl_write S i ws w in
                    Some ((case sl_read S w' i of
                             None \<Rightarrow> Inl WriteVerifyFailed
                           | Some back \<Rightarrow>
                              (if back \<noteq> ws then Inl WriteVerifyFailed
                               else (case sn_signing_state back of
                                       None \<Rightarrow> Inl WriteVerifyFailed
                                     | Some sst \<Rightarrow> Inr (sst_signature_shares sst,
                                         reconcile (sl_read S w' i) st batch)))), w')))))"

subsection \<open>The pool\<close>

record 'w ab_slots =
  as_slots :: 'w
  as_count :: nat
  as_last_used :: nat

definition ab_slots_new :: "'w slot_ops \<Rightarrow> nat \<Rightarrow> 'w \<Rightarrow> 'w ab_slots" where
  "ab_slots_new S n w =
     \<lparr>as_slots = w, as_count = n,
      as_last_used = foldr max (List.map_filter (\<lambda>i. map_option sn_last_used (sl_read S w i)) [0 ..< n]) 0\<rparr>"

definition slots_get :: "'w slot_ops \<Rightarrow> stream_id \<Rightarrow> 'w ab_slots \<Rightarrow> nat option" where
  "slots_get S sid P =
     List.find (\<lambda>i. map_option sn_stream_id (sl_read S (as_slots P) i) = Some sid) [0 ..< as_count P]"

definition slots_sign ::
  "'w slot_ops \<Rightarrow> 'n nonce_env \<Rightarrow> session_id \<Rightarrow> coord_nonce_state \<Rightarrow>
   (bytes \<Rightarrow> signature_share) list \<Rightarrow> nat \<Rightarrow> 'w ab_slots \<Rightarrow>
   ((nonces_unavailable + signature_share list \<times> 'n nonce_job option) \<times> 'w ab_slots) option" where
  "slots_sign S E session_id st sessions batch P =
     (let last_used = u32_add (as_last_used P) 1 in
      case slots_get S (cn_stream_id st) P of
        None \<Rightarrow> Some (Inl NOverflow, P)
      | Some i \<Rightarrow>
         (case slot_sign S E i session_id st last_used sessions batch (as_slots P) of
            None \<Rightarrow> None
          | Some (Inl e, w') \<Rightarrow> Some (Inl e, P\<lparr>as_slots := w'\<rparr>)
          | Some (Inr out, w') \<Rightarrow> Some (Inr out, P\<lparr>as_slots := w', as_last_used := last_used\<rparr>)))"

datatype slot_choice = Held nat | Blank nat | Evict nat

fun scan_slots ::
  "'w slot_ops \<Rightarrow> stream_id \<Rightarrow> 'w \<Rightarrow> nat list \<Rightarrow> nat \<Rightarrow> nat \<Rightarrow> slot_choice" where
  "scan_slots S sid w [] lowest idx_lowest = Evict idx_lowest"
| "scan_slots S sid w (i # is) lowest idx_lowest =
     (case sl_read S w i of
        None \<Rightarrow> Blank i
      | Some v \<Rightarrow>
         (if sn_stream_id v = sid then Held i
          else if sn_last_used v < lowest then scan_slots S sid w is (sn_last_used v) i
          else scan_slots S sid w is lowest idx_lowest))"

text \<open>\<open>None\<close>: indexing an empty vector of slots.\<close>

definition get_or_create ::
  "'w slot_ops \<Rightarrow> ('r \<Rightarrow> bytes \<times> 'r) \<Rightarrow> stream_id \<Rightarrow> 'w ab_slots \<times> 'r \<Rightarrow>
     (nat \<times> 'w ab_slots \<times> 'r) option" where
  "get_or_create S fill sid Pr =
     (case Pr of (P, r) \<Rightarrow>
        let last_used = u32_add (as_last_used P) 1;
            init = (\<lambda>i. case slot_initialize S fill i sid last_used (as_slots P, r) of
                          (w', r') \<Rightarrow> Some (i, P\<lparr>as_slots := w', as_last_used := last_used\<rparr>, r')) in
        case scan_slots S sid (as_slots P) [0 ..< as_count P] u32_max 0 of
          Held i \<Rightarrow> Some (i, P\<lparr>as_last_used := last_used\<rparr>, r)
        | Blank i \<Rightarrow> init i
        | Evict i \<Rightarrow> if as_count P = 0 then None else init i)"

subsection \<open>The \<open>OpenNonceStreams\<close> handler\<close>

fun open_streams ::
  "'w slot_ops \<Rightarrow> ('r \<Rightarrow> bytes \<times> 'r) \<Rightarrow> nat \<Rightarrow> coord_nonce_state list \<Rightarrow> 'w ab_slots \<times> 'r \<Rightarrow>
     'n nonce_job list \<Rightarrow> ('n nonce_job list \<times> 'w ab_slots \<times> 'r) option" where
  "open_streams S fill batch [] Pr tasks = Some (tasks, Pr)"
| "open_streams S fill batch (st # sts) Pr tasks =
     (case get_or_create S fill (cn_stream_id st) Pr of
        None \<Rightarrow> None
      | Some (i, P', r') \<Rightarrow>
          open_streams S fill batch sts (P', r')
            (case reconcile (sl_read S (as_slots P') i) st batch of
               None \<Rightarrow> tasks | Some job \<Rightarrow> tasks @ [job]))"

definition ordered_streams :: "'w slot_ops \<Rightarrow> 'w ab_slots \<Rightarrow> coord_nonce_state list \<Rightarrow> coord_nonce_state list" where
  "ordered_streams S P sts =
     take (as_count P)
       (filter (\<lambda>st. slots_get S (cn_stream_id st) P \<noteq> None) sts @
        filter (\<lambda>st. slots_get S (cn_stream_id st) P = None) sts)"

definition open_nonce_streams ::
  "'w slot_ops \<Rightarrow> ('r \<Rightarrow> bytes \<times> 'r) \<Rightarrow> nat \<Rightarrow> coord_nonce_state list \<Rightarrow> 'w ab_slots \<times> 'r \<Rightarrow>
     ('n nonce_job list \<times> 'w ab_slots \<times> 'r) option" where
  "open_nonce_streams S fill batch sts Pr =
     open_streams S fill batch (ordered_streams S (fst Pr) sts) Pr []"

end
