(* ===== verification/NonceCorrect.thy ===== *)
theory NonceCorrect
  imports Nonces
begin

text \<open>
  What \<open>Nonces\<close> guarantees: signing uses the nonces the jobs publish, coordinator-claimed
  state bounds the work it can cause, and over any storage that reads back the new value, the
  old one or nothing, no nonce index of a slot signs twice.
\<close>

subsection \<open>The ratchet, closed form\<close>

primrec seed_at :: "'n nonce_env \<Rightarrow> stream_id \<Rightarrow> nat \<Rightarrow> bytes \<Rightarrow> nat \<Rightarrow> bytes" where
  "seed_at E sid i seed 0 = seed"
| "seed_at E sid i seed (Suc k) = snd (ratchet E sid (i + k) (seed_at E sid i seed k))"

text \<open>The secret nonce of a slot at an absolute index.\<close>

definition secret_at :: "'n nonce_env \<Rightarrow> secret_nonce_slot \<Rightarrow> nat \<Rightarrow> bytes" where
  "secret_at E v j =
     fst (ratchet E (sn_stream_id v) j (seed_at E (sn_stream_id v) (sn_index v) (sn_seed v) (j - sn_index v)))"

lemma seed_at_1: "seed_at E sid i seed (Suc 0) = snd (ratchet E sid i seed)"
  by simp

lemma seed_at_Suc_shift:
  "seed_at E sid (Suc i) (snd (ratchet E sid i seed)) k = seed_at E sid i seed (Suc k)"
  by (induction k) simp_all

lemma seed_at_add:
  "seed_at E sid (i + a) (seed_at E sid i seed a) b = seed_at E sid i seed (a + b)"
  by (induction b) (simp_all add: add.assoc)

lemma iter_next_eq:
  "i < u32_max \<Longrightarrow> iter_next E sid (i, seed) =
     Some ((i, fst (ratchet E sid i seed), snd (ratchet E sid i seed)), Suc i, snd (ratchet E sid i seed))"
  by (simp add: iter_next_def split: prod.split)

lemma iter_skip_eq:
  "i \<le> u32_max \<Longrightarrow> iter_skip E sid n (i, seed) =
     (if i + n \<le> u32_max then Some (i + n, seed_at E sid i seed n) else None)"
proof (induction n arbitrary: i seed)
  case (Suc n)
  show ?case
  proof (cases "i = u32_max")
    case False
    then have "i < u32_max" using Suc.prems by simp
    then show ?thesis
      using Suc.IH[of "Suc i" "snd (ratchet E sid i seed)"] by (simp add: iter_next_eq seed_at_Suc_shift)
  qed (simp add: iter_next_def)
qed simp

definition shares_from ::
  "'n nonce_env \<Rightarrow> stream_id \<Rightarrow> nat \<Rightarrow> bytes \<Rightarrow> (bytes \<Rightarrow> signature_share) list \<Rightarrow> signature_share list" where
  "shares_from E sid i seed fs =
     map (\<lambda>k. (fs ! k) (fst (ratchet E sid (i + k) (seed_at E sid i seed k)))) [0 ..< length fs]"

lemma shares_from_Cons:
  "shares_from E sid i seed (f # fs) =
     f (fst (ratchet E sid i seed)) # shares_from E sid (Suc i) (snd (ratchet E sid i seed)) fs"
proof -
  have "[0 ..< length (f # fs)] = 0 # map Suc [0 ..< length fs]"
    by (simp add: map_Suc_upt upt_conv_Cons del: upt_Suc)
  then show ?thesis
    by (simp add: shares_from_def seed_at_Suc_shift del: upt_Suc seed_at.simps(2))
qed

lemma sign_loop_eq:
  "i \<le> u32_max \<Longrightarrow> sign_loop E sid fs (i, seed) acc nxt =
     (if i + length fs \<le> u32_max
      then Inr (acc @ shares_from E sid i seed fs,
                if fs = [] then nxt else Some (i + length fs, seed_at E sid i seed (length fs)))
      else Inl NOverflow)"
proof (induction fs arbitrary: i seed acc nxt)
  case Nil
  then show ?case by (simp add: shares_from_def)
next
  case (Cons f fs)
  show ?case
  proof (cases "i = u32_max")
    case False
    then have "i < u32_max" using Cons.prems by simp
    then show ?thesis
      using Cons.IH[of "Suc i" "snd (ratchet E sid i seed)"]
      by (simp add: iter_next_eq seed_at_Suc_shift shares_from_Cons case_prod_beta seed_at_1
        del: seed_at.simps(2))
  qed (simp add: iter_next_def)
qed

text \<open>Exactly when a fresh signing succeeds, and with what.\<close>

definition signed_slot ::
  "'n nonce_env \<Rightarrow> secret_nonce_slot \<Rightarrow> session_id \<Rightarrow> nat \<Rightarrow> nat \<Rightarrow> (bytes \<Rightarrow> signature_share) list \<Rightarrow>
     secret_nonce_slot" where
  "signed_slot E v session_id index last_used fs =
     \<lparr>sn_index = index + length fs, sn_stream_id = sn_stream_id v,
      sn_seed = seed_at E (sn_stream_id v) (sn_index v) (sn_seed v) (index - sn_index v + length fs),
      sn_last_used = last_used,
      sn_signing_state = Some \<lparr>sst_session_id = session_id,
        sst_signature_shares = map (\<lambda>k. (fs ! k) (secret_at E v (index + k))) [0 ..< length fs]\<rparr>\<rparr>"

lemma fresh_signing_iff:
  assumes "sn_index v \<le> u32_max"
  shows "fresh_signing E v session_id st last_used fs batch = Inr ws \<longleftrightarrow>
    sn_index v \<le> cn_index st \<and> cn_index st - sn_index v \<le> u32_sat_mul batch MAX_NONCE_SKIP_BATCHES \<and>
    fs \<noteq> [] \<and> cn_index st + length fs \<le> u32_max \<and>
    ws = signed_slot E v session_id (cn_index st) last_used fs"
proof (cases "sn_index v \<le> cn_index st \<and> cn_index st \<le> u32_max")
  case True
  then obtain d where d: "cn_index st = sn_index v + d" using le_Suc_ex[of "sn_index v" "cn_index st"] by blast
  have sh: "shares_from E (sn_stream_id v) (sn_index v + d)
      (seed_at E (sn_stream_id v) (sn_index v) (sn_seed v) d) fs =
    map (\<lambda>k. (fs ! k) (secret_at E v (sn_index v + d + k))) [0 ..< length fs]"
    by (simp add: shares_from_def secret_at_def seed_at_add add.assoc)
  show ?thesis
    using True unfolding d
    by (auto simp: fresh_signing_def d Let_def iter_skip_eq[OF assms] sign_loop_eq seed_at_add
        signed_slot_def sh)
next
  case False
  then show ?thesis
    by (auto simp: fresh_signing_def Let_def iter_skip_eq[OF assms] sign_loop_eq)
qed

subsection \<open>Jobs publish the nonces signing will use\<close>

lemma do_work_step:
  assumes "nj_index job < nj_target_index job"
  shows "do_work E job = (nj_target_index job \<le> Suc (nj_index job),
    job\<lparr>nj_seed := snd (ratchet E (nj_stream_id job) (nj_index job) (nj_seed job)),
        nj_index := Suc (nj_index job),
        nj_nonces := nj_nonces job @
          (if nj_skip_to job \<le> nj_index job
           then [ne_public E (fst (ratchet E (nj_stream_id job) (nj_index job) (nj_seed job)))] else [])\<rparr>)"
  using assms by (simp add: do_work_def Let_def split: prod.split)

definition job_secret :: "'n nonce_env \<Rightarrow> 'n nonce_job \<Rightarrow> nat \<Rightarrow> bytes" where
  "job_secret E job j =
     fst (ratchet E (nj_stream_id job) j
           (seed_at E (nj_stream_id job) (nj_index job) (nj_seed job) (j - nj_index job)))"

lemma run_until_finished_eq:
  "nj_index job \<le> nj_target_index job \<Longrightarrow>
   (let job' = run_until_finished E job in
    nj_index job' = nj_target_index job \<and> nj_target_index job' = nj_target_index job \<and>
    nj_stream_id job' = nj_stream_id job \<and> nj_skip_to job' = nj_skip_to job \<and>
    nj_nonces job' = nj_nonces job @
      map (\<lambda>j. ne_public E (job_secret E job j))
        [max (nj_skip_to job) (nj_index job) ..< nj_target_index job])"
proof (induction E job rule: run_until_finished.induct)
  case (1 E job)
  show ?case
  proof (cases "nj_index job < nj_target_index job")
    case False
    then show ?thesis using "1.prems"
      by (subst run_until_finished.simps) (simp add: do_work_def Let_def)
  next
    case True
    define job1 where "job1 = snd (do_work E job)"
    have dw: "do_work E job = (nj_target_index job \<le> Suc (nj_index job), job1)"
      using do_work_step[OF True, of E] by (simp add: job1_def)
    have j1: "nj_index job1 = Suc (nj_index job)" "nj_target_index job1 = nj_target_index job"
      "nj_stream_id job1 = nj_stream_id job" "nj_skip_to job1 = nj_skip_to job"
      "nj_seed job1 = snd (ratchet E (nj_stream_id job) (nj_index job) (nj_seed job))"
      "nj_nonces job1 = nj_nonces job @ (if nj_skip_to job \<le> nj_index job
           then [ne_public E (job_secret E job (nj_index job))] else [])"
      using do_work_step[OF True, of E] by (simp_all add: job1_def job_secret_def)
    have sec: "job_secret E job1 j = job_secret E job j" if le: "Suc (nj_index job) \<le> j" for j
    proof -
      obtain d where "j = Suc (nj_index job) + d" using le_Suc_ex[OF le] by blast
      then show ?thesis by (simp add: job_secret_def j1 seed_at_Suc_shift del: seed_at.simps(2))
    qed
    have cons: "[max (nj_skip_to job) (nj_index job) ..< nj_target_index job] =
        (if nj_skip_to job \<le> nj_index job then [nj_index job] else []) @
        [max (nj_skip_to job) (Suc (nj_index job)) ..< nj_target_index job]"
      using True by (cases "nj_skip_to job = Suc (nj_index job)") (auto simp: max_def upt_conv_Cons)
    have mp: "map (\<lambda>j. ne_public E (job_secret E job1 j))
          [max (nj_skip_to job) (Suc (nj_index job)) ..< nj_target_index job] =
        map (\<lambda>j. ne_public E (job_secret E job j))
          [max (nj_skip_to job) (Suc (nj_index job)) ..< nj_target_index job]"
      using sec by (intro map_cong) auto
    show ?thesis
    proof (cases "nj_target_index job \<le> Suc (nj_index job)")
      case True
      then have "run_until_finished E job = job1"
        by (subst run_until_finished.simps) (simp add: dw)
      moreover have "nj_target_index job = Suc (nj_index job)"
        using True \<open>nj_index job < nj_target_index job\<close> by simp
      ultimately show ?thesis by (simp add: j1 cons)
    next
      case False
      then have r: "run_until_finished E job = run_until_finished E job1"
        by (subst run_until_finished.simps) (simp add: dw)
      have "nj_index job1 \<le> nj_target_index job1" using False by (simp add: j1)
      from "1.IH"[OF dw[symmetric] False this] show ?thesis
        by (simp add: Let_def r j1 cons mp)
    qed
  qed
qed

lemma try_nonce_task_Inr:
  assumes "try_nonce_task v start len = Inr job"
  shows "nj_stream_id job = sn_stream_id v" "nj_seed job = sn_seed v" "nj_index job = sn_index v"
    "nj_nonces job = []" "sn_index v \<le> nj_skip_to job"
    "nj_skip_to job = (case start of None \<Rightarrow> sn_index v | Some x \<Rightarrow> x)"
    "nj_target_index job = nj_skip_to job + len" "nj_target_index job < u32_max"
  using assms by (auto simp: try_nonce_task_def Let_def u32_sat_add_def min_def
      split: if_splits option.splits)

text \<open>A finished job's segment holds, at each index, the public image of the signing nonce.\<close>

lemma job_publishes_signing_nonces:
  assumes "try_nonce_task v start len = Inr job"
  shows "into_segment (run_until_finished E job) = Some
    \<lparr>ns_stream_id = sn_stream_id v,
     ns_nonces = map (\<lambda>k. ne_public E (secret_at E v (nj_skip_to job + k))) [0 ..< len],
     ns_index = nj_skip_to job\<rparr>"
proof -
  note t = try_nonce_task_Inr[OF assms]
  have "nj_index job \<le> nj_target_index job" using t by simp
  note r = run_until_finished_eq[OF this, of E, unfolded Let_def]
  have js: "job_secret E job j = secret_at E v j" for j
    by (simp add: job_secret_def secret_at_def t)
  have up: "[nj_skip_to job ..< nj_skip_to job + len] = map (\<lambda>k. nj_skip_to job + k) [0 ..< len]"
    by (simp add: map_add_upt add.commute)
  show ?thesis
    using r t(3,5,7) by (simp add: into_segment_def t(1,4) js up max_def)
qed

text \<open>A claimed coordinator state costs at most one batch of derivations.\<close>

lemma reconcile_bounded:
  assumes "reconcile slot st batch = Some job"
  shows "n_derivations_remaining job \<le> batch" "n_nonces_to_generate job \<le> batch"
    "\<exists>v. slot = Some v \<and> nj_skip_to job = sn_index v \<and> nj_index job = sn_index v"
proof -
  from assms obtain v len where v: "slot = Some v" and l: "reconcile_length (sn_index v) st batch = Some len"
    and j: "try_nonce_task v None len = Inr job"
    by (auto simp: reconcile_def split: option.splits sum.splits)
  note t = try_nonce_task_Inr[OF j]
  have "len \<le> batch" using l by (auto simp: reconcile_length_def split: if_splits)
  then show "n_derivations_remaining job \<le> batch" "n_nonces_to_generate job \<le> batch"
    using t by (simp_all add: n_derivations_remaining_def n_nonces_to_generate_def)
  show "\<exists>v. slot = Some v \<and> nj_skip_to job = sn_index v \<and> nj_index job = sn_index v"
    using v t by auto
qed

text \<open>The skip a signing request may force is bounded, so the derivations before signing are.\<close>

lemma fresh_signing_work:
  assumes "fresh_signing E v session_id st last_used fs batch = Inr ws" "sn_index v \<le> u32_max"
  shows "sn_index ws - sn_index v \<le> batch * MAX_NONCE_SKIP_BATCHES + length fs"
  using assms(1) unfolding fresh_signing_iff[OF assms(2)]
  by (auto simp: signed_slot_def u32_sat_mul_def)

subsection \<open>One slot over unreliable storage\<close>

text \<open>
  What the storage under a slot promises: a write leaves the new value, the old one, or
  something that does not read at all. A failed or interrupted write is one of the last two.
\<close>

locale slot_store =
  fixes S :: "'w slot_ops" and good :: "'w \<Rightarrow> bool" and count :: nat
    and storable :: "secret_nonce_slot \<Rightarrow> bool"
  assumes write_good: "good w \<Longrightarrow> i < count \<Longrightarrow> sn_index v \<le> u32_max \<Longrightarrow> good (sl_write S i v w)"
    and write_reads: "good w \<Longrightarrow> i < count \<Longrightarrow> storable v \<Longrightarrow>
      sl_read S (sl_write S i v w) i \<in> {Some v, sl_read S w i, None}"
    and write_other: "good w \<Longrightarrow> i < count \<Longrightarrow> j < count \<Longrightarrow> j \<noteq> i \<Longrightarrow>
      sl_read S (sl_write S i v w) j = sl_read S w j"
    and read_bound: "good w \<Longrightarrow> i < count \<Longrightarrow> sl_read S w i = Some v \<Longrightarrow> sn_index v \<le> u32_max"

text \<open>Storage that never fails.\<close>

locale slot_store_reliable = slot_store +
  assumes write_read: "good w \<Longrightarrow> i < count \<Longrightarrow> storable v \<Longrightarrow> sl_read S (sl_write S i v w) i = Some v"

definition cached :: "secret_nonce_slot \<Rightarrow> session_id \<Rightarrow> bool" where
  "cached v session_id \<longleftrightarrow> (\<exists>sst. sn_signing_state v = Some sst \<and> sst_session_id sst = session_id)"

lemma with_signatures_cached:
  "cached v session_id \<Longrightarrow> with_signatures E v session_id st last_used fs batch = Inr v"
  by (auto simp: with_signatures_def cached_def)

lemma with_signatures_fresh:
  "\<not> cached v session_id \<Longrightarrow> with_signatures E v session_id st last_used fs batch =
     fresh_signing E v session_id st last_used fs batch"
  by (auto simp: with_signatures_def cached_def split: option.split)

lemma signed_slot_shares:
  "sn_signing_state (signed_slot E v session_id index last_used fs) =
     Some \<lparr>sst_session_id = session_id,
           sst_signature_shares = map (\<lambda>k. (fs ! k) (secret_at E v (index + k))) [0 ..< length fs]\<rparr>"
  "sn_index (signed_slot E v session_id index last_used fs) = index + length fs"
  "sn_stream_id (signed_slot E v session_id index last_used fs) = sn_stream_id v"
  by (simp_all add: signed_slot_def)

text \<open>
  A successful call, in full: the shares are the stored ones for a cached session, and
  otherwise those of the nonces from the requested index on, with the advance read back.
\<close>

lemma slot_sign_success:
  assumes "slot_sign S E i session_id st last_used fs batch w = Some (Inr (shares, job), w')"
    and "\<And>v. sl_read S w i = Some v \<Longrightarrow> sn_index v \<le> u32_max"
  obtains (again) v sst where "sl_read S w i = Some v" "sn_signing_state v = Some sst"
      "sst_session_id sst = session_id" "shares = sst_signature_shares sst"
      "w' = sl_write S i v w" "sl_read S w' i = Some v"
  | (first) v where "sl_read S w i = Some v" "\<not> cached v session_id" "cn_stream_id st = sn_stream_id v"
      "sn_index v \<le> cn_index st" "fs \<noteq> []"
      "shares = map (\<lambda>k. (fs ! k) (secret_at E v (cn_index st + k))) [0 ..< length fs]"
      "sl_read S w' i = Some (signed_slot E v session_id (cn_index st) last_used fs)"
      "w' = sl_write S i (signed_slot E v session_id (cn_index st) last_used fs) w"
proof -
  from assms(1) obtain v where v: "sl_read S w i = Some v"
    by (auto simp: slot_sign_def split: option.splits)
  with assms(1) have sid: "cn_stream_id st = sn_stream_id v"
    by (auto simp: slot_sign_def split: if_splits)
  from assms(1) v sid obtain ws where ws: "with_signatures E v session_id st last_used fs batch = Inr ws"
    by (auto simp: slot_sign_def split: sum.splits)
  with assms(1) v sid have w': "w' = sl_write S i ws w" by (simp add: slot_sign_def Let_def)
  with assms(1) v sid ws have rd: "sl_read S w' i = Some ws"
    by (auto simp: slot_sign_def Let_def split: option.splits if_splits)
  with assms(1) v sid ws w' obtain sst where sst: "sn_signing_state ws = Some sst"
    "shares = sst_signature_shares sst"
    by (auto simp: slot_sign_def Let_def split: option.splits)
  show thesis
  proof (cases "cached v session_id")
    case True
    then have "ws = v" using ws by (simp add: with_signatures_cached)
    then show thesis using again v sst rd w' True by (auto simp: cached_def)
  next
    case False
    then have "fresh_signing E v session_id st last_used fs batch = Inr ws"
      using ws by (simp add: with_signatures_fresh)
    note f = this[unfolded fresh_signing_iff[OF assms(2)[OF v]]]
    then show thesis using first[OF v False sid] sst rd w' by (auto simp: signed_slot_shares)
  qed
qed

text \<open>What any call leaves in the slot it touches.\<close>

lemma slot_sign_world:
  assumes "slot_sign S E i session_id st last_used fs batch w = Some (res, w')"
    and "\<And>v. sl_read S w i = Some v \<Longrightarrow> sn_index v \<le> u32_max"
  obtains "w' = w"
  | v where "sl_read S w i = Some v" "w' = sl_write S i v w"
  | v where "sl_read S w i = Some v" "sn_index v \<le> cn_index st" "cn_index st + length fs \<le> u32_max"
      "w' = sl_write S i (signed_slot E v session_id (cn_index st) last_used fs) w"
proof (cases "sl_read S w i")
  case None
  then show thesis using assms(1) that(1) by (auto simp: slot_sign_def)
next
  case (Some v)
  show thesis
  proof (cases "with_signatures E v session_id st last_used fs batch")
    case (Inl e)
    then show thesis using assms(1) Some that(1) by (auto simp: slot_sign_def split: if_splits)
  next
    case (Inr ws)
    then have w': "w' = sl_write S i ws w"
      using assms(1) Some by (auto simp: slot_sign_def Let_def split: if_splits)
    show thesis
    proof (cases "cached v session_id")
      case True
      then show thesis using Inr w' Some that(2) by (simp add: with_signatures_cached)
    next
      case False
      then have "fresh_signing E v session_id st last_used fs batch = Inr ws"
        using Inr by (simp add: with_signatures_fresh)
      note f = this[unfolded fresh_signing_iff[OF assms(2)[OF Some]]]
      show thesis by (rule that(3)[OF Some]) (use f w' in auto)
    qed
  qed
qed

subsection \<open>Histories\<close>

text \<open>
  A history of one slot: signing calls, successful or not, and anything that happens
  elsewhere (other slots, resets) and leaves what this slot reads alone. The log holds, for
  each call that signed afresh, the session, the first nonce index and the number of nonces.
\<close>

type_synonym sign_log = "(session_id \<times> nat \<times> nat) list"

inductive nonce_step ::
  "'w slot_ops \<Rightarrow> 'n nonce_env \<Rightarrow> ('w \<Rightarrow> bool) \<Rightarrow> (secret_nonce_slot \<Rightarrow> bool) \<Rightarrow> nat \<Rightarrow>
   'w \<times> sign_log \<Rightarrow> 'w \<times> sign_log \<Rightarrow> bool"
  for S E good storable i
where
  refused: "slot_sign S E i session_id st last_used fs batch w = Some (Inl e, w') \<Longrightarrow>
     (\<And>v. sl_read S w i = Some v \<Longrightarrow> storable v \<and>
        storable (signed_slot E v session_id (cn_index st) last_used fs)) \<Longrightarrow>
     nonce_step S E good storable i (w, log) (w', log)"
| signed: "slot_sign S E i session_id st last_used fs batch w = Some (Inr (shares, job), w') \<Longrightarrow>
     sl_read S w i = Some v \<Longrightarrow> \<not> cached v session_id \<Longrightarrow>
     nonce_step S E good storable i (w, log) (w', log @ [(session_id, cn_index st, length fs)])"
| repeated: "slot_sign S E i session_id st last_used fs batch w = Some (Inr (shares, job), w') \<Longrightarrow>
     sl_read S w i = Some v \<Longrightarrow> cached v session_id \<Longrightarrow>
     nonce_step S E good storable i (w, log) (w', log)"
| elsewhere: "sl_read S w' i = sl_read S w i \<Longrightarrow> good w' \<Longrightarrow>
     nonce_step S E good storable i (w, log) (w', log)"

inductive_cases nonce_step_cases: "nonce_step S E good storable i (w, log) (w', log')"

definition log_sorted :: "sign_log \<Rightarrow> bool" where
  "log_sorted log \<longleftrightarrow> sorted_wrt (\<lambda>(_, a, n) (_, b, _). a + n \<le> b) log"

definition log_below :: "sign_log \<Rightarrow> secret_nonce_slot option \<Rightarrow> bool" where
  "log_below log slot \<longleftrightarrow>
     (\<forall>v. slot = Some v \<longrightarrow> (\<forall>(_, a, n) \<in> set log. a + n \<le> sn_index v))"

lemma log_sorted_snoc:
  "log_sorted log \<Longrightarrow> log_below log (Some v) \<Longrightarrow> sn_index v \<le> a \<Longrightarrow> log_sorted (log @ [(s, a, n)])"
  by (fastforce simp: log_sorted_def log_below_def sorted_wrt_append)

context slot_store
begin

definition inv :: "nat \<Rightarrow> 'w \<times> sign_log \<Rightarrow> bool" where
  "inv i = (\<lambda>(w, log). good w \<and> log_sorted log \<and> log_below log (sl_read S w i))"

lemma good_sign:
  assumes "good w" "i < count" "slot_sign S E i session_id st last_used fs batch w = Some (res, w')"
  shows "good w'"
  using assms(3)
  by (rule slot_sign_world)
    (use read_bound[OF assms(1,2)] write_good[OF assms(1,2)] assms in \<open>auto simp: signed_slot_shares\<close>)

lemma inv_step:
  assumes "nonce_step S E good storable i c c'" "inv i c" "i < count"
  shows "inv i c'"
  using assms
proof (cases rule: nonce_step.cases)
  case (refused session_id st last_used fs batch w e w' log)
  have g: "good w" "log_sorted log" "log_below log (sl_read S w i)"
    using assms(2) refused(1) by (simp_all add: inv_def)
  have g': "good w'" using good_sign[OF g(1) assms(3) refused(3)] .
  have "log_below log (sl_read S w' i)"
    using refused(3)
  proof (rule slot_sign_world)
    fix v assume "sl_read S w i = Some v" "w' = sl_write S i v w"
    then show ?thesis using write_reads[OF g(1) assms(3), of v] refused(4) g(3)
      by (auto simp: log_below_def)
  next
    fix v assume v: "sl_read S w i = Some v" "sn_index v \<le> cn_index st"
      "w' = sl_write S i (signed_slot E v session_id (cn_index st) last_used fs) w"
    then have "log_below log (Some (signed_slot E v session_id (cn_index st) last_used fs))"
      using g(3) by (fastforce simp: log_below_def signed_slot_shares)
    then show ?thesis using write_reads[OF g(1) assms(3), of "signed_slot E v session_id (cn_index st) last_used fs"]
        refused(4) v g(3) by (auto simp: log_below_def)
  qed (use g read_bound[OF g(1) assms(3)] in auto)
  then show ?thesis using g g' refused(2) by (simp add: inv_def)
next
  case (signed session_id st last_used fs batch w shares job w' v log)
  have g: "good w" "log_sorted log" "log_below log (sl_read S w i)"
    using assms(2) signed(1) by (simp_all add: inv_def)
  have g': "good w'" using good_sign[OF g(1) assms(3) signed(3)] .
  have "sn_index v \<le> cn_index st \<and> log_below (log @ [(session_id, cn_index st, length fs)]) (sl_read S w' i)"
    using signed(3)
  proof (rule slot_sign_success)
    fix v1 assume "sl_read S w i = Some v1" "sn_index v1 \<le> cn_index st"
      "sl_read S w' i = Some (signed_slot E v1 session_id (cn_index st) last_used fs)"
    then show ?thesis using signed(4) g(3) by (fastforce simp: log_below_def signed_slot_shares)
  next
    fix v1 sst assume "sl_read S w i = Some v1" "sn_signing_state v1 = Some sst" "sst_session_id sst = session_id"
    then show ?thesis using signed(4,5) by (auto simp: cached_def)
  qed (use read_bound[OF g(1) assms(3)] in auto)
  then show ?thesis using g g' signed(2,4) log_sorted_snoc by (simp add: inv_def)
next
  case (repeated session_id st last_used fs batch w shares job w' v log)
  have g: "good w" "log_sorted log" "log_below log (sl_read S w i)"
    using assms(2) repeated(1) by (simp_all add: inv_def)
  have g': "good w'" using good_sign[OF g(1) assms(3) repeated(3)] .
  have "sl_read S w' i = sl_read S w i"
    using repeated(3) by (rule slot_sign_success) (use read_bound[OF g(1) assms(3)] repeated(4,5) in auto)
  then show ?thesis using g g' repeated(2) by (simp add: inv_def)
next
  case (elsewhere w' w log)
  then show ?thesis using assms(2) by (simp add: inv_def)
qed

lemma inv_reachable:
  assumes "(nonce_step S E good storable i)\<^sup>*\<^sup>* c c'" "inv i c" "i < count"
  shows "inv i c'"
  using assms(1,2) by (induction rule: rtranclp_induct) (use inv_step assms(3) in blast)+

text \<open>No nonce index signs twice, whatever fails along the way.\<close>

lemma no_nonce_reuse:
  assumes "(nonce_step S E good storable i)\<^sup>*\<^sup>* (w, []) (w', log)" "good w" "i < count"
  shows "log_sorted log"
proof -
  have "inv i (w, [])" using assms(2) by (simp add: inv_def log_sorted_def log_below_def)
  from inv_reachable[OF assms(1) this assms(3)] show ?thesis by (simp add: inv_def)
qed

end

context slot_store_reliable
begin

text \<open>A well-formed request is served, and repeating it gives the same shares.\<close>

lemma sign_serves:
  assumes "good w" "i < count" "sl_read S w i = Some v" "\<not> cached v session_id"
    and "cn_stream_id st = sn_stream_id v" "sn_index v \<le> cn_index st"
    and "cn_index st - sn_index v \<le> u32_sat_mul batch MAX_NONCE_SKIP_BATCHES"
    and "fs \<noteq> []" "cn_index st + length fs \<le> u32_max"
    and "storable (signed_slot E v session_id (cn_index st) last_used fs)"
  shows "\<exists>job w'. slot_sign S E i session_id st last_used fs batch w =
      Some (Inr (map (\<lambda>k. (fs ! k) (secret_at E v (cn_index st + k))) [0 ..< length fs], job), w') \<and>
    sl_read S w' i = Some (signed_slot E v session_id (cn_index st) last_used fs) \<and> good w'"
proof -
  let ?ws = "signed_slot E v session_id (cn_index st) last_used fs"
  have "with_signatures E v session_id st last_used fs batch = Inr ?ws"
    using assms by (simp add: with_signatures_fresh fresh_signing_iff[OF read_bound[OF assms(1,2,3)]])
  moreover have "sl_read S (sl_write S i ?ws w) i = Some ?ws"
    using write_read[OF assms(1,2,10)] .
  moreover have "good (sl_write S i ?ws w)"
    using write_good[OF assms(1,2)] assms(9) by (simp add: signed_slot_shares)
  ultimately show ?thesis
    using assms(3,5)
    by (simp add: slot_sign_def Let_def signed_slot_shares)
qed

lemma sign_repeats:
  assumes "good w" "i < count" "sl_read S w i = Some v" "storable v"
    and "sn_signing_state v = Some sst" "sst_session_id sst = session_id" "cn_stream_id st = sn_stream_id v"
  shows "\<exists>job w'. slot_sign S E i session_id st last_used fs batch w =
      Some (Inr (sst_signature_shares sst, job), w') \<and> sl_read S w' i = Some v"
proof -
  have "with_signatures E v session_id st last_used fs batch = Inr v"
    using assms by (intro with_signatures_cached) (simp add: cached_def)
  then show ?thesis using assms write_read[OF assms(1,2,4)] by (simp add: slot_sign_def Let_def)
qed

end

end
