(* ===== verification/Flash.thy ===== *)
theory Flash
  imports Prelude
begin

text \<open>
  \<open>hal/src/flash.rs\<close> and the \<open>memmap\<close> module of \<open>hal/src/lib.rs\<close>: the
  region constants, the bounds check every access goes through, the \<open>FLASH_SR\<close>
  wait/clear logic over its port trait, the page geometry, the STM32 driver's register
  sequences over an arbitrary bus, and the RAM-backed double at the same geometry.
\<close>

subsection \<open>Memory map\<close>

definition FLASH_ERASE_FLOOR :: nat where "FLASH_ERASE_FLOOR = 0x08000000 + 0x1c000 + 0x4000"
definition FLASH_TEXT_BASE :: nat where "FLASH_TEXT_BASE = 0x08024000"
definition FLASH_TEXT_LEN :: nat where "FLASH_TEXT_LEN = 1392 * 1024"
definition FLASH_FS_BASE :: nat where "FLASH_FS_BASE = 0x08180000"
definition FLASH_FS_LEN :: nat where "FLASH_FS_LEN = 512 * 1024"
definition FS_IDENTITY_OFFSET :: nat where "FS_IDENTITY_OFFSET = 0"
definition FS_IDENTITY_LEN :: nat where "FS_IDENTITY_LEN = 8 * 1024"
definition FS_NONCE_OFFSET :: nat where "FS_NONCE_OFFSET = FS_IDENTITY_OFFSET + FS_IDENTITY_LEN"
definition FS_NONCE_LEN :: nat where "FS_NONCE_LEN = 32 * 1024"
definition FS_SHARE_OFFSET :: nat where "FS_SHARE_OFFSET = FS_NONCE_OFFSET + FS_NONCE_LEN"
definition FS_SHARE_LEN :: nat where "FS_SHARE_LEN = 16 * 1024"
definition FS_NAME_OFFSET :: nat where "FS_NAME_OFFSET = FS_SHARE_OFFSET + FS_SHARE_LEN"
definition FS_NAME_LEN :: nat where "FS_NAME_LEN = 16 * 1024"
definition FS_FREE_OFFSET :: nat where "FS_FREE_OFFSET = FS_NAME_OFFSET + FS_NAME_LEN"
definition BANK2_BASE :: nat where "BANK2_BASE = 0x08000000 + 256 * 4096"

lemmas memmap_defs = FLASH_ERASE_FLOOR_def FLASH_TEXT_BASE_def FLASH_TEXT_LEN_def
  FLASH_FS_BASE_def FLASH_FS_LEN_def FS_IDENTITY_OFFSET_def FS_IDENTITY_LEN_def
  FS_NONCE_OFFSET_def FS_NONCE_LEN_def FS_SHARE_OFFSET_def FS_SHARE_LEN_def
  FS_NAME_OFFSET_def FS_NAME_LEN_def FS_FREE_OFFSET_def BANK2_BASE_def

definition ERASE_SIZE :: nat where "ERASE_SIZE = 4096"
definition WRITE_SIZE :: nat where "WRITE_SIZE = 8"

subsection \<open>Faults\<close>

datatype nor_kind = KNotAligned | KOutOfBounds | KOther

datatype flash_error =
    NotAligned | OutOfBounds | Hardware u32 | UnlockFailed | DbankMismatch
  | VerifyFailed | NotOnThisTarget

fun kind :: "flash_error \<Rightarrow> nor_kind" where
  "kind NotAligned = KNotAligned"
| "kind OutOfBounds = KOutOfBounds"
| "kind _ = KOther"

subsection \<open>Bounds\<close>

text \<open>
  Offsets are relative to \<open>FLASH_FS\<close>. \<open>usize\<close> is 32 bits on the part, so the
  checked addition fails at \<open>2^32\<close>.
\<close>

definition check_bounds :: "nat \<Rightarrow> nat \<Rightarrow> nat \<Rightarrow> flash_error + unit" where
  "check_bounds offset len align =
     (if 1 < align \<and> (offset mod align \<noteq> 0 \<or> len mod align \<noteq> 0) then Inl NotAligned
      else (case u32_checked_add offset len of
              None \<Rightarrow> Inl OutOfBounds
            | Some e \<Rightarrow> if FLASH_FS_LEN < e then Inl OutOfBounds else Inr ()))"

lemma check_bounds_ok_iff:
  "check_bounds off len align = Inr () \<longleftrightarrow>
     off + len \<le> FLASH_FS_LEN \<and> (1 < align \<longrightarrow> align dvd off \<and> align dvd len)"
  by (auto simp: check_bounds_def FLASH_FS_LEN_def u32_lim_def dvd_eq_mod_eq_0
      split: option.splits)

definition abs_addr :: "nat \<Rightarrow> flash_error + nat" where
  "abs_addr offset =
     (case check_bounds offset 1 1 of
        Inl e \<Rightarrow> Inl e
      | Inr _ \<Rightarrow> (case u32_checked_add FLASH_FS_BASE offset of
                    None \<Rightarrow> Inl OutOfBounds | Some a \<Rightarrow> Inr a))"

lemma abs_addr_ok: "abs_addr off = Inr a \<longleftrightarrow> off < FLASH_FS_LEN \<and> a = FLASH_FS_BASE + off"
  by (auto simp: abs_addr_def check_bounds_def FLASH_FS_LEN_def FLASH_FS_BASE_def u32_lim_def
      split: option.splits if_splits)

subsection \<open>Page geometry and option bytes\<close>

text \<open>\<open>FLASH_CR.PNB\<close> is bits 3..10; the address mask is 27 bits.\<close>

definition FLASH_CR_PNB :: u32 where "FLASH_CR_PNB = push_bit 3 0xFF"

definition pnb_bits :: "u32 \<Rightarrow> u32" where
  "pnb_bits page = push_bit 3 page AND FLASH_CR_PNB"

definition erase_page_of :: "nat \<Rightarrow> flash_error + (nat \<times> bool)" where
  "erase_page_of addr =
     (if addr < FLASH_ERASE_FLOOR then Inl OutOfBounds
      else (let page = (addr mod 2 ^ 27) div ERASE_SIZE in Inr (page mod 256, 256 \<le> page)))"

definition flash_text_bytes_in_bank2 :: nat where
  "flash_text_bytes_in_bank2 = (FLASH_TEXT_BASE + FLASH_TEXT_LEN) - BANK2_BASE"

definition bank1_margin_at :: "nat \<Rightarrow> nat option" where
  "bank1_margin_at image_size =
     (let bank1_bytes = BANK2_BASE - FLASH_TEXT_BASE in
      if bank1_bytes < image_size then None else Some (bank1_bytes - image_size))"

definition text_and_fs_share_bank_two :: bool where
  "text_and_fs_share_bank_two \<longleftrightarrow> 0 < flash_text_bytes_in_bank2 \<and> BANK2_BASE \<le> FLASH_FS_BASE"

definition ab_copies_would_share_one_page_at_dbank_zero :: bool where
  "ab_copies_would_share_one_page_at_dbank_zero \<longleftrightarrow> 2 * ERASE_SIZE \<le> 8192"

definition FLASH_OPTR_DBANK :: u32 where "FLASH_OPTR_DBANK = bitv 22"

definition dbank_ok :: "u32 \<Rightarrow> bool" where
  "dbank_ok optr \<longleftrightarrow> optr AND FLASH_OPTR_DBANK \<noteq> 0"

lemma dbank_ok_bit: "dbank_ok optr \<longleftrightarrow> bit optr 22"
  by (simp add: dbank_ok_def FLASH_OPTR_DBANK_def and_bitv_eq_0)

lemma pnb_bits_field: "drop_bit 3 (pnb_bits page) = page AND 0xFF"
proof (rule bit_eqI)
  fix i assume "possible_bit TYPE(u32) i"
  then have "i < 32" by simp
  then show "bit (drop_bit 3 (pnb_bits page)) i \<longleftrightarrow> bit (page AND 0xFF) i"
    unfolding pnb_bits_def FLASH_CR_PNB_def bit_drop_bit_eq o_def bit_and_iff bit_push_bit_iff
      mask_8
    by (auto simp: bit_mask_iff)
qed

lemma pnb_bits_inject:
  assumes "p < 256" "q < 256" "pnb_bits (word_of_nat p) = pnb_bits (word_of_nat q)"
  shows "p = q"
proof -
  have "(word_of_nat p :: u32) AND 0xFF = word_of_nat q AND 0xFF"
    using assms(3) pnb_bits_field by metis
  then have "unat (word_of_nat p :: u32) mod 256 = unat (word_of_nat q :: u32) mod 256"
    by (metis unat_and_255)
  then show ?thesis using assms(1,2)
    by (simp add: unat_of_nat)
qed

lemma fs_page_range:
  assumes "off < FLASH_FS_LEN"
  shows "erase_page_of (FLASH_FS_BASE + off) = Inr ((FLASH_FS_BASE + off) mod 2 ^ 27 div 4096 - 256, True)
    \<and> 384 \<le> (FLASH_FS_BASE + off) mod 2 ^ 27 div 4096 \<and> (FLASH_FS_BASE + off) mod 2 ^ 27 div 4096 < 512"
proof -
  have m: "(FLASH_FS_BASE + off) mod 2 ^ 27 = 0x180000 + off"
    using assms mod_add_self1[of "2 ^ 27" "0x180000 + off"] by (simp add: memmap_defs)
  have r: "384 \<le> (0x180000 + off) div 4096 \<and> (0x180000 + off) div 4096 < 512"
    using assms by (auto simp: FLASH_FS_LEN_def less_mult_imp_div_less intro: div_le_mono[of "0x180000" _ 4096, simplified])
  then show ?thesis
    using assms unfolding m erase_page_of_def
    by (simp add: memmap_defs ERASE_SIZE_def mod_if m[unfolded memmap_defs] Let_def)
qed

end
