(* ===== verification/NorFlash.thy ===== *)
theory NorFlash
  imports Flash
begin

text \<open>
  The \<open>NorFlash\<close> interface the storage code is generic over, as a record of operations
  with its contract as a locale, and \<open>FakeFlash\<close> (\<open>hal/src/flash.rs\<close>, module
  \<open>fake\<close>), the RAM-backed implementation at the shipped geometry with its fault
  schedule, as the interpretation.
\<close>

subsection \<open>The interface\<close>

record 's nor_ops =
  nf_read :: "'s \<Rightarrow> nat \<Rightarrow> nat \<Rightarrow> flash_error + bytes"
  nf_erase :: "nat \<Rightarrow> nat \<Rightarrow> 's \<Rightarrow> (flash_error + unit) \<times> 's"
  nf_write :: "nat \<Rightarrow> bytes \<Rightarrow> 's \<Rightarrow> (flash_error + unit) \<times> 's"

text \<open>
  The contract: a read returns the cells; a successful erase leaves \<open>0xff\<close>; a successful
  write leaves the bytes; and no operation, failed ones included, changes a cell outside its
  range. Nothing is promised about the cells inside the range of an operation that failed.
\<close>

locale nor_flash =
  fixes F :: "'s nor_ops" and mem :: "'s \<Rightarrow> bytes"
  assumes read_in: "off + len \<le> length (mem s) \<Longrightarrow> nf_read F s off len = Inr (window (mem s) off len)"
    and erase_length: "length (mem (snd (nf_erase F a b s))) = length (mem s)"
    and write_length: "length (mem (snd (nf_write F off bs s))) = length (mem s)"
    and erase_frame: "i < length (mem s) \<Longrightarrow> i < a \<or> b \<le> i \<Longrightarrow>
      mem (snd (nf_erase F a b s)) ! i = mem s ! i"
    and write_frame: "i < length (mem s) \<Longrightarrow> i < off \<or> off + length bs \<le> i \<Longrightarrow>
      mem (snd (nf_write F off bs s)) ! i = mem s ! i"
    and erase_ok: "nf_erase F a b s = (Inr (), s') \<Longrightarrow>
      a \<le> b \<and> b \<le> length (mem s) \<and> window (mem s') a (b - a) = replicate (b - a) ff"
    and write_ok: "nf_write F off bs s = (Inr (), s') \<Longrightarrow>
      off + length bs \<le> length (mem s) \<and> window (mem s') off (length bs) = bs"

text \<open>An implementation whose refused operations touch nothing.\<close>

locale nor_flash_atomic = nor_flash +
  assumes erase_err: "nf_erase F a b s = (Inl e, s') \<Longrightarrow> mem s' = mem s"
    and write_err: "nf_write F off bs s = (Inl e, s') \<Longrightarrow> mem s' = mem s"

subsection \<open>FakeFlash\<close>

record fake_flash =
  cells :: bytes
  programs :: nat
  erases :: nat
  refuse_programs_from :: "nat option"
  refuse_erases_from :: "nat option"

definition fake_new :: "nat \<Rightarrow> fake_flash option" where
  "fake_new sectors =
     (if 0 < sectors
      then Some \<lparr>cells = replicate (sectors * ERASE_SIZE) ff, programs = 0, erases = 0,
                 refuse_programs_from = None, refuse_erases_from = None\<rparr>
      else None)"

definition refuse_programs_after :: "nat \<Rightarrow> fake_flash \<Rightarrow> fake_flash" where
  "refuse_programs_after n f = f\<lparr>refuse_programs_from := Some n\<rparr>"

definition refuse_programs_now :: "fake_flash \<Rightarrow> fake_flash" where
  "refuse_programs_now f = refuse_programs_after (programs f) f"

definition refuse_erases_after :: "nat \<Rightarrow> fake_flash \<Rightarrow> fake_flash" where
  "refuse_erases_after n f = f\<lparr>refuse_erases_from := Some n\<rparr>"

definition refuse_erases_now :: "fake_flash \<Rightarrow> fake_flash" where
  "refuse_erases_now f = refuse_erases_after (erases f) f"

definition heal :: "fake_flash \<Rightarrow> fake_flash" where
  "heal f = f\<lparr>refuse_programs_from := None, refuse_erases_from := None\<rparr>"

definition scheduled :: "nat option \<Rightarrow> nat \<Rightarrow> bool" where
  "scheduled limit count = (case limit of None \<Rightarrow> False | Some n \<Rightarrow> n \<le> count)"

definition fake_read :: "fake_flash \<Rightarrow> nat \<Rightarrow> nat \<Rightarrow> flash_error + bytes" where
  "fake_read f off len =
     (if off + len \<le> length (cells f) then Inr (window (cells f) off len) else Inl OutOfBounds)"

definition fake_erase :: "nat \<Rightarrow> nat \<Rightarrow> fake_flash \<Rightarrow> (flash_error + unit) \<times> fake_flash" where
  "fake_erase from to f =
     (case checked_sub to from of
        None \<Rightarrow> (Inl OutOfBounds, f)
      | Some len \<Rightarrow>
         (case check_bounds from len ERASE_SIZE of
            Inl e \<Rightarrow> (Inl e, f)
          | Inr _ \<Rightarrow>
             if scheduled (refuse_erases_from f) (erases f) then (Inl (Hardware (bitv 4)), f)
             else if length (cells f) < from + len then (Inl OutOfBounds, f)
             else (Inr (), f\<lparr>cells := patch (cells f) from (replicate len ff),
                             erases := u32_sat_add (erases f) (len div ERASE_SIZE)\<rparr>)))"

definition fake_write :: "nat \<Rightarrow> bytes \<Rightarrow> fake_flash \<Rightarrow> (flash_error + unit) \<times> fake_flash" where
  "fake_write off bs f =
     (case check_bounds off (length bs) WRITE_SIZE of
        Inl e \<Rightarrow> (Inl e, f)
      | Inr _ \<Rightarrow>
         if length (cells f) < off + length bs then (Inl OutOfBounds, f)
         else if scheduled (refuse_programs_from f) (programs f) then (Inl (Hardware (bitv 3)), f)
         else if list_all2 (\<lambda>old b. old AND b = b) (window (cells f) off (length bs)) bs
         then (Inr (), f\<lparr>cells := patch (cells f) off bs,
                         programs := u32_sat_add (programs f) (length bs div WRITE_SIZE)\<rparr>)
         else (Inl (Hardware (bitv 3)), f))"

definition fake_scribble :: "nat \<Rightarrow> nat \<Rightarrow> u8 \<Rightarrow> fake_flash \<Rightarrow> fake_flash" where
  "fake_scribble off len value f =
     (let end = min (off + len) (length (cells f)) in
      if off < end then f\<lparr>cells := patch (cells f) off (replicate (end - off) value)\<rparr> else f)"

definition fake_ops :: "fake_flash nor_ops" where
  "fake_ops = \<lparr>nf_read = fake_read, nf_erase = fake_erase, nf_write = fake_write\<rparr>"

lemma fake_ops_simps [simp]:
  "nf_read fake_ops = fake_read" "nf_erase fake_ops = fake_erase" "nf_write fake_ops = fake_write"
  by (simp_all add: fake_ops_def)

lemma fake_erase_disj:
  "(\<exists>e. fake_erase a b f = (Inl e, f)) \<or>
   (a \<le> b \<and> b \<le> length (cells f) \<and>
    fake_erase a b f = (Inr (), f\<lparr>cells := patch (cells f) a (replicate (b - a) ff),
         erases := u32_sat_add (erases f) ((b - a) div ERASE_SIZE)\<rparr>))"
  by (auto simp: fake_erase_def split: option.splits sum.splits if_splits)

lemma fake_write_disj:
  "(\<exists>e. fake_write off bs f = (Inl e, f)) \<or>
   (off + length bs \<le> length (cells f) \<and>
    list_all2 (\<lambda>old b. old AND b = b) (window (cells f) off (length bs)) bs \<and>
    fake_write off bs f = (Inr (), f\<lparr>cells := patch (cells f) off bs,
         programs := u32_sat_add (programs f) (length bs div WRITE_SIZE)\<rparr>))"
  by (auto simp: fake_write_def split: option.splits sum.splits if_splits)

interpretation fake: nor_flash_atomic fake_ops cells
proof unfold_locales
  fix off len and s :: fake_flash
  assume "off + len \<le> length (cells s)"
  then show "nf_read fake_ops s off len = Inr (window (cells s) off len)"
    by (simp add: fake_read_def)
next
  fix a b and s :: fake_flash
  show "length (cells (snd (nf_erase fake_ops a b s))) = length (cells s)"
    using fake_erase_disj[of a b s] by auto
next
  fix off bs and s :: fake_flash
  show "length (cells (snd (nf_write fake_ops off bs s))) = length (cells s)"
    using fake_write_disj[of off bs s] by auto
next
  fix i a b and s :: fake_flash
  assume "i < length (cells s)" "i < a \<or> b \<le> i"
  then show "cells (snd (nf_erase fake_ops a b s)) ! i = cells s ! i"
    using fake_erase_disj[of a b s] by (auto simp: nth_patch)
next
  fix i off and bs :: bytes and s :: fake_flash
  assume "i < length (cells s)" "i < off \<or> off + length bs \<le> i"
  then show "cells (snd (nf_write fake_ops off bs s)) ! i = cells s ! i"
    using fake_write_disj[of off bs s] by (auto simp: nth_patch)
next
  fix a b and s s' :: fake_flash
  assume "nf_erase fake_ops a b s = (Inr (), s')"
  then show "a \<le> b \<and> b \<le> length (cells s) \<and> window (cells s') a (b - a) = replicate (b - a) ff"
    using fake_erase_disj[of a b s] window_patch_same[of a "replicate (b - a) ff" "cells s"] by auto
next
  fix off and bs :: bytes and s s' :: fake_flash
  assume "nf_write fake_ops off bs s = (Inr (), s')"
  then show "off + length bs \<le> length (cells s) \<and> window (cells s') off (length bs) = bs"
    using fake_write_disj[of off bs s] by (auto simp: window_patch_same)
next
  fix a b e and s s' :: fake_flash
  assume "nf_erase fake_ops a b s = (Inl e, s')"
  then show "cells s' = cells s" using fake_erase_disj[of a b s] by auto
next
  fix off bs e and s s' :: fake_flash
  assume "nf_write fake_ops off bs s = (Inl e, s')"
  then show "cells s' = cells s" using fake_write_disj[of off bs s] by auto
qed

subsection \<open>Programming after an erase\<close>

lemma and_ff [simp]: "ff AND b = b" for b :: u8
proof -
  have "ff = mask LENGTH(8)" by (simp add: mask_eq_exp_minus_1)
  then show ?thesis by (metis and.commute take_bit_eq_mask take_bit_length_eq)
qed

text \<open>On erased cells a program is refused only by alignment, bounds or the schedule.\<close>

lemma fake_write_blank:
  assumes "window (cells f) off (length bs) = replicate (length bs) ff"
    and "off + length bs \<le> length (cells f)" "off + length bs \<le> FLASH_FS_LEN"
    and "8 dvd off" "8 dvd length bs"
  shows "fake_write off bs f =
    (if scheduled (refuse_programs_from f) (programs f) then (Inl (Hardware (bitv 3)), f)
     else (Inr (), f\<lparr>cells := patch (cells f) off bs,
                     programs := u32_sat_add (programs f) (length bs div 8)\<rparr>))"
proof -
  have "check_bounds off (length bs) WRITE_SIZE = Inr ()"
    using assms by (simp add: check_bounds_ok_iff WRITE_SIZE_def)
  moreover have "list_all2 (\<lambda>old b. old AND b = b) (replicate (length bs) ff) bs"
    by (simp add: list_all2_conv_all_nth)
  ultimately show ?thesis
    using assms by (simp add: fake_write_def WRITE_SIZE_def)
qed

end
