(* ===== verification/Partition.thy ===== *)
theory Partition
  imports NorFlash
begin

text \<open>
  \<open>frostsnap_embedded/src/partition.rs\<close>: a run of sectors of a \<open>NorFlash\<close>, its
  bounds-checked accesses, the splits, and the buffered writer the encoder streams into.
  Asserts that panic are \<open>None\<close>. \<open>usize\<close> is 32 bits on the part, so the
  \<open>as u32\<close> casts of lengths are the identity.
\<close>

record partition =
  offset_sector :: nat
  n_sectors :: nat

definition SECTOR_SIZE :: nat where "SECTOR_SIZE = 4096"

definition part_base :: "partition \<Rightarrow> nat" where
  "part_base P = offset_sector P * 4096"

definition part_size :: "partition \<Rightarrow> nat" where
  "part_size P = n_sectors P * 4096"

definition nor_write ::
  "'s nor_ops \<Rightarrow> partition \<Rightarrow> nat \<Rightarrow> bytes \<Rightarrow> 's \<Rightarrow> (nor_kind + unit) \<times> 's" where
  "nor_write F P off bs s =
     (if u32_mul (n_sectors P) SECTOR_SIZE < u32_sat_add off (length bs)
      then (Inl KOutOfBounds, s)
      else (case nf_write F (u32_add off (u32_mul (offset_sector P) SECTOR_SIZE)) bs s of
              (r, s') \<Rightarrow> (map_sum kind id r, s')))"

definition part_read :: "'s nor_ops \<Rightarrow> partition \<Rightarrow> 's \<Rightarrow> nat \<Rightarrow> nat \<Rightarrow> nor_kind + bytes" where
  "part_read F P s off len =
     (if u32_mul (n_sectors P) SECTOR_SIZE < u32_sat_add off len
      then Inl KOutOfBounds
      else map_sum kind id
             (nf_read F s (u32_add off (u32_mul (offset_sector P) SECTOR_SIZE)) len))"

definition read_sector :: "'s nor_ops \<Rightarrow> partition \<Rightarrow> 's \<Rightarrow> nat \<Rightarrow> nor_kind + bytes" where
  "read_sector F P s sector = part_read F P s (u32_mul sector SECTOR_SIZE) SECTOR_SIZE"

definition split_off_end :: "nat \<Rightarrow> partition \<Rightarrow> (partition \<times> partition) option" where
  "split_off_end n P =
     (if n \<le> n_sectors P
      then (let P' = P\<lparr>n_sectors := n_sectors P - n\<rparr> in
            Some (P', \<lparr>offset_sector = u32_add (offset_sector P) (n_sectors P'), n_sectors = n\<rparr>))
      else None)"

text \<open>The remainder comes first in the result, the split-off part second, as in \<open>split_off_end\<close>.\<close>

definition split_off_front :: "nat \<Rightarrow> partition \<Rightarrow> (partition \<times> partition) option" where
  "split_off_front n P =
     (if n \<le> n_sectors P
      then (case split_off_end (n_sectors P - n) P of
              None \<Rightarrow> None | Some (front, back) \<Rightarrow> Some (back, front))
      else None)"

definition erase_sector :: "'s nor_ops \<Rightarrow> partition \<Rightarrow> nat \<Rightarrow> 's \<Rightarrow> (nor_kind + unit) \<times> 's" where
  "erase_sector F P sector s =
     (if n_sectors P \<le> sector then (Inl KOutOfBounds, s)
      else (let sec = u32_add (offset_sector P) sector in
            case nf_erase F (u32_mul sec SECTOR_SIZE) (u32_mul (u32_add sec 1) SECTOR_SIZE) s of
              (r, s') \<Rightarrow> (map_sum kind id r, s')))"

definition erase_sectors ::
  "'s nor_ops \<Rightarrow> partition \<Rightarrow> nat \<Rightarrow> nat \<Rightarrow> 's \<Rightarrow> (nor_kind + unit) \<times> 's" where
  "erase_sectors F P start count s =
     (let end_sector = u32_add start count in
      if n_sectors P < end_sector then (Inl KOutOfBounds, s)
      else (case nf_erase F (u32_mul (u32_add (offset_sector P) start) SECTOR_SIZE)
                            (u32_mul (u32_add (offset_sector P) end_sector) SECTOR_SIZE) s of
              (r, s') \<Rightarrow> (map_sum kind id r, s')))"

definition erase_all :: "'s nor_ops \<Rightarrow> partition \<Rightarrow> 's \<Rightarrow> (nor_kind + unit) \<times> 's" where
  "erase_all F P s =
     (let start = u32_mul (offset_sector P) SECTOR_SIZE in
      case nf_erase F start (u32_add start (u32_mul (n_sectors P) SECTOR_SIZE)) s of
        (r, s') \<Rightarrow> (map_sum kind id r, s'))"

fun sectors_empty :: "'s nor_ops \<Rightarrow> partition \<Rightarrow> 's \<Rightarrow> nat list \<Rightarrow> nor_kind + bool" where
  "sectors_empty F P s [] = Inr True"
| "sectors_empty F P s (k # ks) =
     (case read_sector F P s k of
        Inl e \<Rightarrow> Inl e
      | Inr data \<Rightarrow> if list_ex (\<lambda>b. b \<noteq> ff) data then Inr False else sectors_empty F P s ks)"

definition is_empty :: "'s nor_ops \<Rightarrow> partition \<Rightarrow> 's \<Rightarrow> nor_kind + bool" where
  "is_empty F P s = sectors_empty F P s [0 ..< n_sectors P]"

subsection \<open>The buffered writer\<close>

text \<open>
  \<open>BincodeFlashWriter\<close>: \<open>w_buf\<close> is \<open>buf[..buf_index]\<close>. A chunk that fails
  to program stays in the buffer.
\<close>

record flash_writer =
  w_buf :: bytes
  w_word :: nat

definition writer_new :: flash_writer where
  "writer_new = \<lparr>w_buf = [], w_word = 0\<rparr>"

fun writer_write ::
  "'s nor_ops \<Rightarrow> partition \<Rightarrow> nat \<Rightarrow> bytes \<Rightarrow> flash_writer \<Rightarrow> 's \<Rightarrow>
     (nor_kind + unit) \<times> flash_writer \<times> 's" where
  "writer_write F P N [] w s = (Inr (), w, s)"
| "writer_write F P N (b # bs) w s =
     (let buf = w_buf w @ [b] in
      if length buf = N
      then (case nor_write F P (u32_mul (w_word w) WRITE_SIZE) buf s of
              (Inl e, s') \<Rightarrow> (Inl e, w\<lparr>w_buf := buf\<rparr>, s')
            | (Inr _, s') \<Rightarrow>
                writer_write F P N bs \<lparr>w_buf = [], w_word = u32_add (w_word w) (N div WRITE_SIZE)\<rparr> s')
      else writer_write F P N bs (w\<lparr>w_buf := buf\<rparr>) s)"

definition pad_len :: "nat \<Rightarrow> nat" where
  "pad_len n = (WRITE_SIZE - n mod WRITE_SIZE) mod WRITE_SIZE"

definition writer_flush ::
  "'s nor_ops \<Rightarrow> partition \<Rightarrow> flash_writer \<Rightarrow> 's \<Rightarrow> (nor_kind + nat) \<times> 's" where
  "writer_flush F P w s =
     (if w_buf w = [] then (Inr (w_word w), s)
      else (let chunk = w_buf w @ replicate (pad_len (length (w_buf w))) ff in
            case nor_write F P (u32_mul (w_word w) WRITE_SIZE) chunk s of
              (Inl e, s') \<Rightarrow> (Inl e, s')
            | (Inr _, s') \<Rightarrow> (Inr (u32_add (w_word w) (length chunk div WRITE_SIZE)), s')))"

text \<open>
  An encode error here drops the writer while it still holds the chunk that failed, and the
  destructor asserts an empty buffer: the panic is \<open>None\<close>.
\<close>

definition erase_and_write_this ::
  "'s nor_ops \<Rightarrow> partition \<Rightarrow> nat \<Rightarrow> bytes \<Rightarrow> 's \<Rightarrow> (nor_kind + nat) option \<times> 's" where
  "erase_and_write_this F P N blob s =
     (case erase_all F P s of
        (Inl e, s1) \<Rightarrow> (Some (Inl e), s1)
      | (Inr _, s1) \<Rightarrow>
         (case writer_write F P N blob writer_new s1 of
            (Inl _, w, s2) \<Rightarrow> (if w_buf w = [] then Some (Inl KOther) else None, s2)
          | (Inr _, w, s2) \<Rightarrow> (case writer_flush F P w s2 of (r, s3) \<Rightarrow> (Some r, s3))))"

subsection \<open>Geometry\<close>

text \<open>A partition that lies inside the array, with offsets that do not wrap.\<close>

definition part_ok :: "nat \<Rightarrow> partition \<Rightarrow> bool" where
  "part_ok cap P \<longleftrightarrow> 0 < n_sectors P \<and> part_base P + part_size P \<le> cap \<and>
     part_base P + part_size P < u32_max"

lemma part_okD:
  "part_ok cap P \<Longrightarrow> part_base P + part_size P \<le> cap"
  "part_ok cap P \<Longrightarrow> part_base P + part_size P < u32_max"
  "part_ok cap P \<Longrightarrow> part_base P + part_size P < u32_lim"
  by (auto simp: part_ok_def u32_max_def u32_lim_def)

definition disjoint_parts :: "partition \<Rightarrow> partition \<Rightarrow> bool" where
  "disjoint_parts P Q \<longleftrightarrow> part_base P + part_size P \<le> part_base Q \<or>
     part_base Q + part_size Q \<le> part_base P"

lemma disjoint_parts_sym: "disjoint_parts P Q \<Longrightarrow> disjoint_parts Q P"
  by (auto simp: disjoint_parts_def)

lemma part_ok_arith:
  assumes "part_ok cap P"
  shows "u32_mul (n_sectors P) SECTOR_SIZE = part_size P"
    and "u32_mul (offset_sector P) SECTOR_SIZE = part_base P"
    and "u32_add (part_base P) (part_size P) = part_base P + part_size P"
  using part_okD(3)[OF assms] by (auto simp: part_base_def part_size_def SECTOR_SIZE_def
      u32_mul_def u32_add_def)

lemma split_off_end_tiles:
  assumes "split_off_end n P = Some (P', Q)" "part_base P + part_size P < u32_lim"
  shows "part_base P' = part_base P \<and> part_base Q = part_base P + part_size P' \<and>
    part_size P' + part_size Q = part_size P \<and> n_sectors Q = n"
proof -
  have n: "n \<le> n_sectors P" and P': "P' = P\<lparr>n_sectors := n_sectors P - n\<rparr>"
    and Q: "Q = \<lparr>offset_sector = u32_add (offset_sector P) (n_sectors P - n), n_sectors = n\<rparr>"
    using assms(1) by (auto simp: split_off_end_def Let_def split: if_splits)
  have "offset_sector P + (n_sectors P - n) < u32_lim"
    using assms(2) by (simp add: part_base_def part_size_def u32_lim_def)
  then show ?thesis
    using n by (simp add: P' Q part_base_def part_size_def u32_add_exact flip: add_mult_distrib)
qed

lemma pad_len_props: "8 dvd n + pad_len n" "pad_len n < 8"
proof -
  have "n mod 8 < 8" by simp
  then consider "n mod 8 = 0" | "n mod 8 \<noteq> 0" "pad_len n = 8 - n mod 8"
    by (cases "n mod 8 = 0") (auto simp: pad_len_def WRITE_SIZE_def)
  then show "8 dvd n + pad_len n"
  proof cases
    case 1 then show ?thesis by (auto simp: pad_len_def WRITE_SIZE_def)
  next
    case 2
    have "n + pad_len n = 8 * (n div 8) + 8"
      using 2 mult_div_mod_eq[of 8 n] \<open>n mod 8 < 8\<close> by linarith
    then show ?thesis by simp
  qed
  show "pad_len n < 8" by (simp add: pad_len_def WRITE_SIZE_def)
qed

end
