(* ===== verification/AbSlot.thy ===== *)
theory AbSlot
  imports Partition
begin

text \<open>
  \<open>frostsnap_embedded/src/ab_write.rs\<close>: two copies of one value, each prefixed by a
  generation index, the higher index current. The value's \<open>bincode\<close> encoding is a
  parameter (a codec); the fixed-width little-endian index in front of it is written out.
\<close>

subsection \<open>Codecs\<close>

type_synonym reader = "nat \<Rightarrow> nat \<Rightarrow> bytes option"

record 'v codec =
  enc :: "'v \<Rightarrow> bytes"
  dec :: "reader \<Rightarrow> nat \<Rightarrow> 'v option"

text \<open>Decoding at a position where the encoding can be read gives the value back.\<close>

locale codec_ok =
  fixes C :: "'v codec" and valid :: "'v \<Rightarrow> bool"
  assumes dec_enc: "valid v \<Longrightarrow>
    (\<And>off len. off + len \<le> length (enc C v) \<Longrightarrow> rd (pos + off) len = Some (window (enc C v) off len)) \<Longrightarrow>
    dec C rd pos = Some v"

text \<open>\<open>[u8; n]\<close>: the bytes themselves.\<close>

definition array_codec :: "nat \<Rightarrow> bytes codec" where
  "array_codec n = \<lparr>enc = (\<lambda>bs. bs), dec = (\<lambda>rd pos. rd pos n)\<rparr>"

lemma array_codec_simps [simp]:
  "enc (array_codec n) bs = bs" "dec (array_codec n) rd pos = rd pos n"
  by (simp_all add: array_codec_def)

subsection \<open>One slot\<close>

definition slot_encode :: "'v codec \<Rightarrow> nat \<Rightarrow> 'v \<Rightarrow> bytes" where
  "slot_encode C index v = le_bytes 4 index @ enc C v"

definition slot_reader :: "'s nor_ops \<Rightarrow> partition \<Rightarrow> 's \<Rightarrow> reader" where
  "slot_reader F P s = (\<lambda>pos len. case part_read F P s pos len of Inl _ \<Rightarrow> None | Inr bs \<Rightarrow> Some bs)"

definition slot_read :: "'s nor_ops \<Rightarrow> 'v codec \<Rightarrow> partition \<Rightarrow> 's \<Rightarrow> (nat \<times> 'v) option" where
  "slot_read F C P s =
     (case slot_reader F P s 0 4 of
        None \<Rightarrow> None
      | Some ib \<Rightarrow>
         (case dec C (slot_reader F P s) 4 of
            None \<Rightarrow> None
          | Some v \<Rightarrow> if of_le ib = u32_max then None else Some (of_le ib, v)))"

definition slot_read_index :: "'s nor_ops \<Rightarrow> partition \<Rightarrow> 's \<Rightarrow> nat option" where
  "slot_read_index F P s =
     (case slot_reader F P s 0 4 of
        None \<Rightarrow> None
      | Some ib \<Rightarrow> if of_le ib = u32_max then None else Some (of_le ib))"

text \<open>The flush is tried whatever the encoder returned, and its error wins.\<close>

definition slot_try_write ::
  "'s nor_ops \<Rightarrow> 'v codec \<Rightarrow> partition \<Rightarrow> nat \<Rightarrow> 'v \<Rightarrow> 's \<Rightarrow> (nor_kind + unit) \<times> 's" where
  "slot_try_write F C P index v s =
     (case erase_all F P s of
        (Inl e, s1) \<Rightarrow> (Inl e, s1)
      | (Inr _, s1) \<Rightarrow>
         (case writer_write F P 256 (slot_encode C index v) writer_new s1 of
            (encode_result, w, s2) \<Rightarrow>
              (case writer_flush F P w s2 of
                 (Inl e, s3) \<Rightarrow> (Inl e, s3)
               | (Inr _, s3) \<Rightarrow>
                  (case encode_result of Inl _ \<Rightarrow> (Inl KOther, s3) | Inr _ \<Rightarrow> (Inr (), s3)))))"

subsection \<open>The pair\<close>

record ab_slot =
  slot_a :: partition
  slot_b :: partition

definition ab_new :: "partition \<Rightarrow> ab_slot option" where
  "ab_new P =
     (if 2 \<le> n_sectors P \<and> n_sectors P mod 2 = 0
      then (case split_off_end (n_sectors P div 2) P of
              None \<Rightarrow> None
            | Some (A, B) \<Rightarrow> Some \<lparr>slot_a = A, slot_b = B\<rparr>)
      else None)"

definition slot_at :: "ab_slot \<Rightarrow> nat \<Rightarrow> partition" where
  "slot_at ab k = (if k = 0 then slot_a ab else slot_b ab)"

text \<open>\<open>Option\<close>'s order: \<open>None\<close> below every \<open>Some\<close>.\<close>

fun opt_less :: "nat option \<Rightarrow> nat option \<Rightarrow> bool" where
  "opt_less None (Some _) = True"
| "opt_less (Some x) (Some y) = (x < y)"
| "opt_less _ None = False"

definition current_slot_and_index :: "'s nor_ops \<Rightarrow> ab_slot \<Rightarrow> 's \<Rightarrow> (nat \<times> nat) option" where
  "current_slot_and_index F ab s =
     (let a_index = slot_read_index F (slot_at ab 0) s;
          b_index = slot_read_index F (slot_at ab 1) s in
      if opt_less a_index b_index
      then (case b_index of None \<Rightarrow> None | Some i \<Rightarrow> Some (1, i))
      else (case a_index of None \<Rightarrow> None | Some i \<Rightarrow> Some (0, i)))"

datatype ab_outcome = Committed | CommittedSingleCopy nor_kind | NotCommitted nor_kind

fun is_committed :: "ab_outcome \<Rightarrow> bool" where
  "is_committed Committed = True"
| "is_committed (CommittedSingleCopy _) = True"
| "is_committed (NotCommitted _) = False"

definition next_slot_and_index :: "(nat \<times> nat) option \<Rightarrow> (nat \<times> nat) option" where
  "next_slot_and_index cur =
     (case cur of
        None \<Rightarrow> Some (0, 0)
      | Some (k, i) \<Rightarrow>
         (case u32_checked_add i 1 of
            None \<Rightarrow> None
          | Some j \<Rightarrow> if j \<noteq> u32_max then Some ((k + 1) mod 2, j) else None))"

definition ab_try_write ::
  "'s nor_ops \<Rightarrow> 'v codec \<Rightarrow> ab_slot \<Rightarrow> 'v \<Rightarrow> 's \<Rightarrow> ab_outcome \<times> 's" where
  "ab_try_write F C ab v s =
     (case next_slot_and_index (current_slot_and_index F ab s) of
        None \<Rightarrow> (NotCommitted KOutOfBounds, s)
      | Some (next_slot, next_index) \<Rightarrow>
         (case slot_try_write F C (slot_at ab next_slot) next_index v s of
            (Inl e, s1) \<Rightarrow> (NotCommitted e, s1)
          | (Inr _, s1) \<Rightarrow>
             (case slot_try_write F C (slot_at ab ((next_slot + 1) mod 2)) next_index v s1 of
                (Inl e, s2) \<Rightarrow> (CommittedSingleCopy e, s2)
              | (Inr _, s2) \<Rightarrow> (Committed, s2))))"

text \<open>\<open>AbSlot::write\<close> panics on anything but two good copies.\<close>

definition ab_write :: "'s nor_ops \<Rightarrow> 'v codec \<Rightarrow> ab_slot \<Rightarrow> 'v \<Rightarrow> 's \<Rightarrow> 's option" where
  "ab_write F C ab v s =
     (case ab_try_write F C ab v s of (Committed, s') \<Rightarrow> Some s' | _ \<Rightarrow> None)"

definition ab_read :: "'s nor_ops \<Rightarrow> 'v codec \<Rightarrow> ab_slot \<Rightarrow> 's \<Rightarrow> 'v option" where
  "ab_read F C ab s =
     (let k = (case current_slot_and_index F ab s of None \<Rightarrow> 0 | Some (k, _) \<Rightarrow> k) in
      map_option snd (slot_read F C (slot_at ab k) s))"

definition ab_ok :: "nat \<Rightarrow> ab_slot \<Rightarrow> bool" where
  "ab_ok cap ab \<longleftrightarrow> part_ok cap (slot_a ab) \<and> part_ok cap (slot_b ab) \<and>
     disjoint_parts (slot_a ab) (slot_b ab)"

lemma ab_new_ok:
  assumes "part_ok cap P" "ab_new P = Some ab"
  shows "ab_ok cap ab \<and> part_base (slot_a ab) = part_base P \<and>
    part_size (slot_a ab) = part_size P div 2 \<and> part_size (slot_b ab) = part_size P div 2"
proof -
  note cap = part_okD(1)[OF assms(1)] and sz' = part_okD(2)[OF assms(1)] and sz = part_okD(3)[OF assms(1)]
  from assms(2) obtain A B where sp: "split_off_end (n_sectors P div 2) P = Some (A, B)"
    and ab: "ab = \<lparr>slot_a = A, slot_b = B\<rparr>" and n: "2 \<le> n_sectors P" "n_sectors P mod 2 = 0"
    by (auto simp: ab_new_def split: if_splits option.splits)
  note t = split_off_end_tiles[OF sp sz]
  have "n_sectors P = 2 * (n_sectors P div 2)" using n(2) by auto
  then have B: "2 * part_size B = part_size P" using t by (simp add: part_size_def)
  moreover have "part_size A = part_size B" using t B by linarith
  moreover have "0 < n_sectors A" "0 < n_sectors B"
    using n t calculation by (auto simp: part_size_def)
  ultimately show ?thesis
    using t sz' cap by (auto simp: ab part_ok_def ab_ok_def disjoint_parts_def)
qed

end
