(* ===== verification/AbCorrect.thy ===== *)
theory AbCorrect
  imports AbSlot
begin

text \<open>
  What the A/B slot promises, proved from the \<open>NorFlash\<close> contract: the frame and
  content of a partition write, what one slot write leaves, and the outcomes of
  \<open>ab_try_write\<close>. Instantiated on \<open>FakeFlash\<close> and on byte-array values at the end.
\<close>

subsection \<open>Partition accesses under the contract\<close>

context nor_flash
begin

lemma part_read_in:
  assumes "part_ok (length (mem s)) P" "off + len \<le> part_size P"
  shows "part_read F P s off len = Inr (window (mem s) (part_base P + off) len)"
proof -
  note ar = part_ok_arith[OF assms(1)]
  note cap = part_okD(1)[OF assms(1)] and lim = part_okD(3)[OF assms(1)]
  have "u32_sat_add off len \<le> part_size P"
    using assms(2) lim by (simp add: u32_sat_add_def)
  moreover have "u32_add off (part_base P) = part_base P + off"
    using assms(2) lim by (simp add: u32_add_exact)
  ultimately show ?thesis
    using assms(2) cap by (simp add: part_read_def ar read_in)
qed

lemma slot_reader_in:
  assumes "part_ok (length (mem s)) P" "off + len \<le> part_size P"
  shows "slot_reader F P s off len = Some (window (mem s) (part_base P + off) len)"
  using part_read_in[OF assms] by (simp add: slot_reader_def)

lemma nor_write_cases:
  assumes "part_ok (length (mem s)) P" "nor_write F P off bs s = (r, s')"
  shows "(r = Inl KOutOfBounds \<and> s' = s) \<or>
    (off + length bs \<le> part_size P \<and>
     (\<exists>r0. nf_write F (part_base P + off) bs s = (r0, s') \<and> r = map_sum kind id r0))"
proof -
  note ar = part_ok_arith[OF assms(1)]
  note lim = part_okD(2,3)[OF assms(1)]
  show ?thesis
  proof (cases "part_size P < u32_sat_add off (length bs)")
    case True
    then show ?thesis using assms(2) by (simp add: nor_write_def ar)
  next
    case False
    then have fit: "off + length bs \<le> part_size P"
      using lim by (simp add: u32_sat_add_def u32_lim_def u32_max_def split: if_splits)
    then have "u32_add off (part_base P) = part_base P + off"
      using lim by (simp add: u32_add_exact)
    then show ?thesis
      using False fit assms(2) by (auto simp: nor_write_def ar split: prod.splits)
  qed
qed

lemma nor_write_preserves:
  assumes "part_ok (length (mem s)) P" "nor_write F P off bs s = (r, s')"
  shows "length (mem s') = length (mem s)"
    and "i < length (mem s) \<Longrightarrow> i < part_base P + off \<or> part_base P + off + length bs \<le> i \<Longrightarrow>
      mem s' ! i = mem s ! i"
  using nor_write_cases[OF assms] write_length[of "part_base P + off" bs s]
    write_frame[of i s "part_base P + off" bs] by auto

lemma nor_write_frame:
  assumes "part_ok (length (mem s)) P" "nor_write F P off bs s = (r, s')"
    and "i < length (mem s)" "i < part_base P \<or> part_base P + part_size P \<le> i"
  shows "mem s' ! i = mem s ! i"
  using nor_write_cases[OF assms(1-2)] write_frame[of i s "part_base P + off" bs] assms(3,4) by auto

lemma nor_write_ok:
  assumes "part_ok (length (mem s)) P" "nor_write F P off bs s = (Inr (), s')"
  shows "off + length bs \<le> part_size P"
    and "window (mem s') (part_base P + off) (length bs) = bs"
proof -
  from nor_write_cases[OF assms] obtain r0 where f: "off + length bs \<le> part_size P"
    and w: "nf_write F (part_base P + off) bs s = (r0, s')" and r: "Inr () = map_sum kind id r0"
    by auto
  from r have "r0 = Inr ()" by (cases r0) auto
  then show "off + length bs \<le> part_size P"
    and "window (mem s') (part_base P + off) (length bs) = bs"
    using f write_ok w by auto
qed

lemma erase_all_eq:
  assumes "part_ok cap P"
  shows "erase_all F P s = (case nf_erase F (part_base P) (part_base P + part_size P) s of
    (r, s') \<Rightarrow> (map_sum kind id r, s'))"
  by (simp add: erase_all_def part_ok_arith[OF assms] Let_def)

lemma erase_all_preserves:
  assumes "part_ok (length (mem s)) P" "erase_all F P s = (r, s')"
  shows "length (mem s') = length (mem s)"
    and "i < length (mem s) \<Longrightarrow> i < part_base P \<or> part_base P + part_size P \<le> i \<Longrightarrow>
      mem s' ! i = mem s ! i"
  using assms(2) erase_length[of "part_base P" "part_base P + part_size P" s]
    erase_frame[of i s "part_base P" "part_base P + part_size P"]
  by (auto simp: erase_all_eq[OF assms(1)] split: prod.splits)

lemma erase_all_ok:
  assumes "part_ok (length (mem s)) P" "erase_all F P s = (Inr (), s')"
  shows "window (mem s') (part_base P) (part_size P) = replicate (part_size P) ff"
proof -
  obtain r0 where e: "nf_erase F (part_base P) (part_base P + part_size P) s = (r0, s')"
    and r: "Inr () = map_sum kind id r0"
    using assms by (auto simp: erase_all_eq[OF assms(1)] split: prod.splits)
  from r have "r0 = Inr ()" by (cases r0) auto
  then show ?thesis using e erase_ok by fastforce
qed

text \<open>The writer, in one statement for every outcome and one for success.\<close>

lemma writer_write_preserves:
  assumes "writer_write F P N bs w s = (r, w', s')" "part_ok (length (mem s)) P"
    "0 < N" "N < u32_lim" "length (w_buf w) < N"
  shows "length (mem s') = length (mem s) \<and> length (w_buf w') \<le> N \<and>
    (r = Inr () \<longrightarrow> length (w_buf w') < N) \<and>
    (\<forall>i < length (mem s). i < part_base P \<or> part_base P + part_size P \<le> i \<longrightarrow>
      mem s' ! i = mem s ! i)"
  using assms
proof (induction bs arbitrary: w s)
  case Nil then show ?case by auto
next
  case (Cons b bs)
  let ?buf = "w_buf w @ [b]"
  show ?case
  proof (cases "length ?buf = N")
    case False
    then show ?thesis using Cons.IH[of "w\<lparr>w_buf := ?buf\<rparr>" s] Cons.prems by auto
  next
    case True
    obtain q s1 where nw: "nor_write F P (u32_mul (w_word w) WRITE_SIZE) ?buf s = (q, s1)"
      by fastforce
    note fr = nor_write_preserves(1)[OF Cons.prems(2) nw] nor_write_frame[OF Cons.prems(2) nw]
    show ?thesis
    proof (cases q)
      case (Inl e)
      then show ?thesis using Cons.prems True nw fr by auto
    next
      case (Inr u)
      have "part_ok (length (mem s1)) P" using fr(1) Cons.prems True by simp
      then show ?thesis
        using Cons.IH[of "\<lparr>w_buf = [], w_word = u32_add (w_word w) (N div WRITE_SIZE)\<rparr>" s1]
          Cons.prems True nw fr Inr by auto
    qed
  qed
qed

lemma writer_write_ok:
  assumes "writer_write F P N bs w s = (Inr (), w', s')" "part_ok (length (mem s)) P"
    "8 dvd N" "0 < N" "N < u32_lim" "length (w_buf w) < N"
    "w_word w * 8 + length (w_buf w) + length bs \<le> part_size P"
  shows "w_word w' * 8 + length (w_buf w') = w_word w * 8 + length (w_buf w) + length bs \<and>
    window (mem s') (part_base P) (w_word w' * 8) @ w_buf w' =
    window (mem s) (part_base P) (w_word w * 8) @ w_buf w @ bs"
  using assms
proof (induction bs arbitrary: w s)
  case Nil then show ?case by auto
next
  case (Cons b bs)
  let ?buf = "w_buf w @ [b]"
  note cap = part_okD(1)[OF Cons.prems(2)] and lim = part_okD(3)[OF Cons.prems(2)]
  show ?case
  proof (cases "length ?buf = N")
    case False
    then show ?thesis using Cons.IH[of "w\<lparr>w_buf := ?buf\<rparr>" s] Cons.prems by auto
  next
    case True
    let ?w1 = "\<lparr>w_buf = [], w_word = u32_add (w_word w) (N div WRITE_SIZE)\<rparr>"
    have wm: "u32_mul (w_word w) WRITE_SIZE = w_word w * 8"
      using Cons.prems(7) lim by (simp add: u32_mul_def WRITE_SIZE_def)
    have fit: "w_word w * 8 + N \<le> part_size P" using Cons.prems(7) True by auto
    have N8: "N div 8 * 8 = N" using Cons.prems(3) by auto
    have "w_word w + N div 8 < u32_lim" using fit lim N8 by linarith
    then have wa: "w_word ?w1 * 8 = w_word w * 8 + N"
      using N8 by (simp add: WRITE_SIZE_def u32_add_exact add_mult_distrib)
    obtain s1 where nw: "nor_write F P (w_word w * 8) ?buf s = (Inr (), s1)"
      and rest: "writer_write F P N bs ?w1 s1 = (Inr (), w', s')"
      using Cons.prems(1) True by (auto simp: wm Let_def split: prod.splits sum.splits)
    note pres = nor_write_preserves[OF Cons.prems(2) nw]
    have len1: "length (mem s1) = length (mem s)" using pres(1) Cons.prems True by simp
    have new: "window (mem s1) (part_base P + w_word w * 8) N = ?buf"
      using nor_write_ok(2)[OF Cons.prems(2) nw] Cons.prems True by simp
    have "window (mem s1) (part_base P) (w_word w * 8) = window (mem s) (part_base P) (w_word w * 8)"
      using fit cap len1 pres(2) Cons.prems True by (intro window_eqI) auto
    then have acc: "window (mem s1) (part_base P) (w_word w * 8 + N) =
        window (mem s) (part_base P) (w_word w * 8) @ ?buf"
      using new by (simp flip: window_concat)
    have "part_ok (length (mem s1)) P" using len1 Cons.prems(2) by simp
    from Cons.IH[OF rest this Cons.prems(3-5)] show ?thesis
      using wa acc Cons.prems(4,7) True by (auto simp del: writer_write.simps)
  qed
qed

end


subsection \<open>One slot under the contract\<close>

definition mem_index :: "partition \<Rightarrow> bytes \<Rightarrow> nat option" where
  "mem_index P m =
     (let i = of_le (window m (part_base P) 4) in if i = u32_max then None else Some i)"

text \<open>A slot that nothing touched reads as before.\<close>

definition same_region :: "partition \<Rightarrow> bytes \<Rightarrow> bytes \<Rightarrow> bool" where
  "same_region P m m' \<longleftrightarrow> length m' = length m \<and>
     (\<forall>i. part_base P \<le> i \<longrightarrow> i < part_base P + part_size P \<longrightarrow> m' ! i = m ! i)"

lemma same_region_refl [simp]: "same_region P m m"
  by (simp add: same_region_def)

lemma same_region_trans: "same_region P m m' \<Longrightarrow> same_region P m' m'' \<Longrightarrow> same_region P m m''"
  by (simp add: same_region_def)

lemma same_region_window:
  assumes "same_region P m m'" "part_ok (length m) P" "off + len \<le> part_size P"
  shows "window m' (part_base P + off) len = window m (part_base P + off) len"
  using assms part_okD(1)[OF assms(2)] by (intro window_eqI) (auto simp: same_region_def)

lemma part_size_ge: "part_ok cap P \<Longrightarrow> 4096 \<le> part_size P"
  by (auto simp: part_ok_def part_size_def)

lemma same_region_index:
  assumes "same_region P m m'" "part_ok (length m) P"
  shows "mem_index P m' = mem_index P m"
  using same_region_window[OF assms, of 0 4] part_size_ge[OF assms(2)] by (simp add: mem_index_def)

context nor_flash
begin

lemma frame_same_region:
  assumes "disjoint_parts P Q" "part_ok (length (mem s)) Q" "length (mem s') = length (mem s)"
    and "\<And>i. i < length (mem s) \<Longrightarrow> i < part_base P \<or> part_base P + part_size P \<le> i \<Longrightarrow>
      mem s' ! i = mem s ! i"
  shows "same_region Q (mem s) (mem s')"
  unfolding same_region_def
proof (intro conjI allI impI)
  fix i assume i: "part_base Q \<le> i" "i < part_base Q + part_size Q"
  then have "i < length (mem s)" using part_okD(1)[OF assms(2)] by simp
  moreover have "i < part_base P \<or> part_base P + part_size P \<le> i"
    using assms(1) i by (auto simp: disjoint_parts_def)
  ultimately show "mem s' ! i = mem s ! i" by (rule assms(4))
qed (use assms(3) in simp)

lemma writer_flush_preserves:
  assumes "writer_flush F P w s = (r, s')" "part_ok (length (mem s)) P" "length (w_buf w) \<le> 256"
  shows "length (mem s') = length (mem s) \<and>
    (\<forall>i < length (mem s). i < part_base P \<or> part_base P + part_size P \<le> i \<longrightarrow>
      mem s' ! i = mem s ! i)"
proof (cases "w_buf w = []")
  case True
  then show ?thesis using assms(1) by (simp add: writer_flush_def)
next
  case False
  let ?chunk = "w_buf w @ replicate (pad_len (length (w_buf w))) ff"
  obtain q s1 where nw: "nor_write F P (u32_mul (w_word w) WRITE_SIZE) ?chunk s = (q, s1)"
    by fastforce
  note fr = nor_write_preserves(1)[OF assms(2) nw] nor_write_frame[OF assms(2) nw]
  have "s' = s1"
    using assms(1) False nw by (auto simp: writer_flush_def Let_def split: sum.splits)
  then show ?thesis using fr by auto
qed

lemma writer_flush_ok:
  assumes "writer_flush F P w s = (Inr n, s')" "part_ok (length (mem s)) P"
    "length (w_buf w) \<le> 256" "w_word w * 8 + length (w_buf w) \<le> part_size P"
  shows "window (mem s') (part_base P) (w_word w * 8 + length (w_buf w)) =
    window (mem s) (part_base P) (w_word w * 8) @ w_buf w"
proof (cases "w_buf w = []")
  case True
  then show ?thesis using assms(1) by (simp add: writer_flush_def)
next
  case False
  let ?k = "w_word w * 8" and ?b = "w_buf w"
  let ?chunk = "?b @ replicate (pad_len (length ?b)) ff"
  have wm: "u32_mul (w_word w) WRITE_SIZE = ?k"
    using assms(4) part_okD(3)[OF assms(2)] by (simp add: u32_mul_def WRITE_SIZE_def)
  have nw: "nor_write F P ?k ?chunk s = (Inr (), s')"
    using assms(1) False wm by (auto simp: writer_flush_def Let_def split: prod.splits sum.splits)
  note fit = nor_write_ok(1)[OF assms(2) nw]
  note pres = nor_write_preserves[OF assms(2) nw]
  have "window (mem s') (part_base P + ?k) (length ?b) = ?b"
    using nor_write_ok(2)[OF assms(2) nw]
      window_window[of 0 "length ?b" "length ?chunk" "mem s'" "part_base P + ?k"]
    by (simp add: window_def)
  moreover have "window (mem s') (part_base P) ?k = window (mem s) (part_base P) ?k"
    using fit part_okD(1)[OF assms(2)] pres by (intro window_eqI) auto
  ultimately show ?thesis by (simp flip: window_concat)
qed

lemma slot_try_write_preserves:
  assumes "slot_try_write F C P idx v s = (r, s')" "part_ok (length (mem s)) P"
  shows "length (mem s') = length (mem s) \<and>
    (\<forall>i < length (mem s). i < part_base P \<or> part_base P + part_size P \<le> i \<longrightarrow>
      mem s' ! i = mem s ! i)"
proof -
  obtain r1 s1 where e: "erase_all F P s = (r1, s1)" by fastforce
  note pe = erase_all_preserves[OF assms(2) e]
  show ?thesis
  proof (cases r1)
    case (Inl x)
    then show ?thesis using assms(1) e pe by (simp add: slot_try_write_def)
  next
    case (Inr u)
    obtain r2 w s2 where w: "writer_write F P 256 (slot_encode C idx v) writer_new s1 = (r2, w, s2)"
      using prod_cases3 by blast
    obtain r3 s3 where f: "writer_flush F P w s2 = (r3, s3)" by fastforce
    have "s' = s3"
      using assms(1) e Inr w f by (auto simp: slot_try_write_def split: sum.splits)
    moreover have ok1: "part_ok (length (mem s1)) P" using pe assms(2) by simp
    note pw = writer_write_preserves[OF w ok1, simplified writer_new_def u32_lim_def, simplified]
    have ok2: "part_ok (length (mem s2)) P" using pw ok1 by simp
    moreover note pf = writer_flush_preserves[OF f ok2]
    ultimately show ?thesis using pe pw by auto
  qed
qed

lemma slot_try_write_ok:
  assumes "slot_try_write F C P idx v s = (Inr (), s')" "part_ok (length (mem s)) P"
    "length (slot_encode C idx v) \<le> part_size P"
  shows "window (mem s') (part_base P) (length (slot_encode C idx v)) = slot_encode C idx v"
proof -
  let ?e = "slot_encode C idx v"
  obtain s1 w s2 n where e: "erase_all F P s = (Inr (), s1)"
    and w: "writer_write F P 256 ?e writer_new s1 = (Inr (), w, s2)"
    and f: "writer_flush F P w s2 = (Inr n, s')"
    using assms(1) by (auto simp: slot_try_write_def split: prod.splits sum.splits)
  have ok1: "part_ok (length (mem s1)) P" using erase_all_preserves(1)[OF assms(2) e] assms(2) by simp
  note pw = writer_write_preserves[OF w ok1, simplified writer_new_def u32_lim_def, simplified]
  note kw = writer_write_ok[OF w ok1, simplified writer_new_def u32_lim_def, simplified, OF assms(3)]
  have ok2: "part_ok (length (mem s2)) P" using pw ok1 by simp
  have "window (mem s') (part_base P) (w_word w * 8 + length (w_buf w)) =
    window (mem s2) (part_base P) (w_word w * 8) @ w_buf w"
    using writer_flush_ok[OF f ok2] pw kw assms(3) by simp
  then show ?thesis using kw by simp
qed

lemma slot_read_index_mem:
  assumes "part_ok (length (mem s)) P"
  shows "slot_read_index F P s = mem_index P (mem s)"
  using slot_reader_in[OF assms, of 0 4] part_size_ge[OF assms]
  by (simp add: slot_read_index_def mem_index_def Let_def)

lemma slot_index_written:
  assumes "slot_try_write F C P idx v s = (Inr (), s')" "part_ok (length (mem s)) P"
    "length (slot_encode C idx v) \<le> part_size P" "idx < u32_max"
  shows "mem_index P (mem s') = Some idx"
proof -
  have "window (mem s') (part_base P) 4 = window (slot_encode C idx v) 0 4"
    using window_window[of 0 4 "length (slot_encode C idx v)" "mem s'" "part_base P"]
    by (simp add: slot_try_write_ok[OF assms(1-3)]) (simp add: slot_encode_def)
  then have "of_le (window (mem s') (part_base P) 4) = idx"
    using assms(4) by (simp add: slot_encode_def window_def of_le_bytes u32_max_def)
  then show ?thesis using assms(4) by (simp add: mem_index_def)
qed

lemma slot_reader_cong:
  assumes "same_region P (mem s) (mem s')" "part_ok (length (mem s)) P"
  shows "slot_reader F P s' = slot_reader F P s"
proof (intro ext)
  fix off len
  show "slot_reader F P s' off len = slot_reader F P s off len"
  proof (cases "off + len \<le> part_size P")
    case True
    have "part_ok (length (mem s')) P" using assms by (simp add: same_region_def)
    then show ?thesis
      using slot_reader_in[OF _ True] assms(2) same_region_window[OF assms True] by simp
  next
    case False
    then show ?thesis
      using part_okD(2)[OF assms(2)]
      by (simp add: slot_reader_def part_read_def part_ok_arith[OF assms(2)] u32_sat_add_def
          u32_max_def)
  qed
qed

lemma slot_read_cong:
  assumes "same_region P (mem s) (mem s')" "part_ok (length (mem s)) P"
  shows "slot_read F C P s' = slot_read F C P s"
  unfolding slot_read_def slot_reader_cong[OF assms] ..

end


subsection \<open>The pair under the contract\<close>

lemma slot_at_ok:
  assumes "ab_ok cap ab"
  shows "part_ok cap (slot_at ab k)"
    and "k < 2 \<Longrightarrow> disjoint_parts (slot_at ab k) (slot_at ab ((k + 1) mod 2))"
  using assms by (auto simp: ab_ok_def slot_at_def less_2_cases_iff dest: disjoint_parts_sym)

lemma next_slot_and_index_Some:
  "next_slot_and_index cur = Some (k, j) \<Longrightarrow>
   j < u32_max \<and> (\<forall>k0 i. cur = Some (k0, i) \<longrightarrow> k = (k0 + 1) mod 2 \<and> j = Suc i) \<and>
   (cur = None \<longrightarrow> k = 0 \<and> j = 0) \<and> k < 2"
  by (auto simp: next_slot_and_index_def u32_max_def u32_lim_def split: option.splits if_splits prod.splits)

text \<open>Selection as a function of the two indices alone.\<close>

definition pick :: "nat option \<Rightarrow> nat option \<Rightarrow> (nat \<times> nat) option" where
  "pick a b = (if opt_less a b then map_option (Pair 1) b else map_option (Pair 0) a)"

lemma opt_less_Some: "opt_less a (Some y) \<longleftrightarrow> a = None \<or> (\<exists>x. a = Some x \<and> x < y)"
  by (cases a) auto

lemma opt_less_None [simp]: "\<not> opt_less a None"
  by (cases a) auto

lemma pick_max: "a = Some x \<or> b = Some x \<Longrightarrow> \<exists>k j. pick a b = Some (k, j) \<and> x \<le> j"
  by (cases a; cases b) (auto simp: pick_def)

lemma pick_Some: "pick a b = Some (k, i) \<Longrightarrow> (k = 0 \<and> a = Some i) \<or> (k = 1 \<and> b = Some i)"
  by (auto simp: pick_def split: if_splits)

lemma pick_newer:
  "b = None \<or> (\<exists>i. b = Some i \<and> i < j) \<Longrightarrow> pick (Some j) b = Some (0, j)"
  "b = None \<or> (\<exists>i. b = Some i \<and> i < j) \<Longrightarrow> pick b (Some j) = Some (1, j)"
  by (auto simp: pick_def)

context nor_flash
begin

lemma current_pick:
  assumes "ab_ok (length (mem s)) ab"
  shows "current_slot_and_index F ab s =
    pick (mem_index (slot_a ab) (mem s)) (mem_index (slot_b ab) (mem s))"
  using slot_read_index_mem[of s "slot_a ab"] slot_read_index_mem[of s "slot_b ab"] assms
  by (auto simp: current_slot_and_index_def pick_def ab_ok_def slot_at_def Let_def split: option.splits)

text \<open>
  The four ways a write can go, with what each slot write left alone. \<open>k\<close> is the slot
  written first, the one that is not current.
\<close>

lemma ab_try_write_cases:
  assumes "ab_ok (length (mem s)) ab" "ab_try_write F C ab v s = (out, s')"
  obtains (exhausted) "out = NotCommitted KOutOfBounds" "s' = s"
      "next_slot_and_index (current_slot_and_index F ab s) = None"
  | (first_failed) k j e where "out = NotCommitted e"
      "next_slot_and_index (current_slot_and_index F ab s) = Some (k, j)"
      "slot_try_write F C (slot_at ab k) j v s = (Inl e, s')"
      "same_region (slot_at ab ((k + 1) mod 2)) (mem s) (mem s')" "length (mem s') = length (mem s)"
  | (second_failed) k j e s1 where "out = CommittedSingleCopy e"
      "next_slot_and_index (current_slot_and_index F ab s) = Some (k, j)"
      "slot_try_write F C (slot_at ab k) j v s = (Inr (), s1)"
      "slot_try_write F C (slot_at ab ((k + 1) mod 2)) j v s1 = (Inl e, s')"
      "same_region (slot_at ab ((k + 1) mod 2)) (mem s) (mem s1)"
      "same_region (slot_at ab k) (mem s1) (mem s')"
      "length (mem s1) = length (mem s)" "length (mem s') = length (mem s)"
  | (both) k j s1 where "out = Committed"
      "next_slot_and_index (current_slot_and_index F ab s) = Some (k, j)"
      "slot_try_write F C (slot_at ab k) j v s = (Inr (), s1)"
      "slot_try_write F C (slot_at ab ((k + 1) mod 2)) j v s1 = (Inr (), s')"
      "same_region (slot_at ab k) (mem s1) (mem s')"
      "length (mem s1) = length (mem s)" "length (mem s') = length (mem s)"
proof (cases "next_slot_and_index (current_slot_and_index F ab s)")
  case None
  then show ?thesis using assms(2) exhausted by (simp add: ab_try_write_def)
next
  case (Some kj)
  obtain k j where kj: "kj = (k, j)" by fastforce
  have k2: "k < 2" using next_slot_and_index_Some Some kj by metis
  note dis = slot_at_ok(2)[OF assms(1) k2] and pk = slot_at_ok(1)[OF assms(1)]
  obtain r1 s1 where w1: "slot_try_write F C (slot_at ab k) j v s = (r1, s1)" by fastforce
  note p1 = slot_try_write_preserves[OF w1 pk]
  have sr1: "same_region (slot_at ab ((k + 1) mod 2)) (mem s) (mem s1)"
    using frame_same_region[OF dis pk] p1 by blast
  show ?thesis
  proof (cases r1)
    case (Inl e)
    then have "out = NotCommitted e" "s' = s1"
      using assms(2) Some kj w1 by (simp_all add: ab_try_write_def)
    moreover have "slot_try_write F C (slot_at ab k) j v s = (Inl e, s1)" using w1 Inl by simp
    ultimately show ?thesis
      using first_failed[of e k j] Some kj sr1 p1 by simp
  next
    case (Inr u)
    obtain r2 s2 where w2: "slot_try_write F C (slot_at ab ((k + 1) mod 2)) j v s1 = (r2, s2)"
      by fastforce
    have ok1: "ab_ok (length (mem s1)) ab" using assms(1) p1 by simp
    note pk1 = slot_at_ok(1)[OF ok1]
    note p2 = slot_try_write_preserves[OF w2 pk1]
    have sr2: "same_region (slot_at ab k) (mem s1) (mem s2)"
      using frame_same_region[OF disjoint_parts_sym[OF dis] pk1] p2 by blast
    show ?thesis
      using assms(2) Some kj w1 w2 sr1 sr2 p1 p2 Inr second_failed both
      by (cases r2) (auto simp: ab_try_write_def)
  qed
qed

end


subsection \<open>Reading back\<close>

text \<open>The value behind its index fits either slot.\<close>

definition fits :: "'v codec \<Rightarrow> ab_slot \<Rightarrow> 'v \<Rightarrow> bool" where
  "fits C ab v \<longleftrightarrow> 4 + length (enc C v) \<le> part_size (slot_a ab) \<and>
     4 + length (enc C v) \<le> part_size (slot_b ab)"

locale ab_store = nor_flash F mem + codec_ok C valid
  for F :: "'s nor_ops" and mem :: "'s \<Rightarrow> bytes" and C :: "'v codec" and valid :: "'v \<Rightarrow> bool"
begin

lemma slot_read_written:
  assumes "window (mem s) (part_base P) (length (slot_encode C j v)) = slot_encode C j v"
    and "part_ok (length (mem s)) P" "length (slot_encode C j v) \<le> part_size P" "valid v" "j < u32_max"
  shows "slot_read F C P s = Some (j, v)"
proof -
  let ?e = "slot_encode C j v"
  have rd: "slot_reader F P s off len = Some (window ?e off len)" if "off + len \<le> length ?e" for off len
    using slot_reader_in[OF assms(2), of off len] assms(3) that
      window_window[OF that, of "mem s" "part_base P"] assms(1) by simp
  have "dec C (slot_reader F P s) 4 = Some v"
    using assms(4) by (rule dec_enc)
      (simp add: rd slot_encode_def window_append_right)
  moreover have "slot_reader F P s 0 4 = Some (le_bytes 4 j)"
    using rd[of 0 4] by (simp add: slot_encode_def window_def)
  ultimately show ?thesis
    using assms(5) by (simp add: slot_read_def of_le_bytes u32_max_def)
qed

lemma fits_slot: "fits C ab v \<Longrightarrow> length (slot_encode C j v) \<le> part_size (slot_at ab k)"
  by (auto simp: fits_def slot_encode_def slot_at_def)

lemma written_stays:
  assumes "slot_try_write F C P j v s = (Inr (), s1)" "part_ok (length (mem s)) P"
    "length (mem s1) = length (mem s)"
    "length (slot_encode C j v) \<le> part_size P" "same_region P (mem s1) (mem s')"
  shows "window (mem s') (part_base P) (length (slot_encode C j v)) = slot_encode C j v"
    and "j < u32_max \<Longrightarrow> mem_index P (mem s') = Some j"
proof -
  have ok1: "part_ok (length (mem s1)) P" using assms by simp
  show "window (mem s') (part_base P) (length (slot_encode C j v)) = slot_encode C j v"
    using same_region_window[OF assms(5) ok1, of 0] assms(4) slot_try_write_ok[OF assms(1,2,4)] by simp
  show "mem_index P (mem s') = Some j" if "j < u32_max"
    using slot_index_written[OF assms(1,2,4) that] same_region_index[OF assms(5) ok1] by simp
qed

lemma read_at:
  assumes "ab_ok (length (mem s)) ab"
    "pick (mem_index (slot_a ab) (mem s)) (mem_index (slot_b ab) (mem s)) = Some (k, j)"
    "window (mem s) (part_base (slot_at ab k)) (length (slot_encode C j v)) = slot_encode C j v"
    "fits C ab v" "valid v" "j < u32_max"
  shows "ab_read F C ab s = Some v \<and> current_slot_and_index F ab s = Some (k, j)"
  using slot_read_written[OF assms(3) slot_at_ok(1)[OF assms(1)] fits_slot[OF assms(4)] assms(5,6)]
    current_pick[OF assms(1)] assms(2) by (simp add: ab_read_def)

text \<open>Two good copies: the value is read back, at the next index.\<close>

lemma committed_reads:
  assumes "ab_ok (length (mem s)) ab" "fits C ab v" "valid v"
    "ab_try_write F C ab v s = (Committed, s')"
  shows "\<exists>k j. next_slot_and_index (current_slot_and_index F ab s) = Some (k, j) \<and>
    ab_read F C ab s' = Some v \<and> current_slot_and_index F ab s' = Some (0, j)"
  using assms(1,4)
proof (cases rule: ab_try_write_cases)
  case (both k j s1)
  note n = next_slot_and_index_Some[OF both(2)]
  have ok1: "ab_ok (length (mem s1)) ab" and ok': "ab_ok (length (mem s')) ab"
    using assms(1) both(6,7) by simp_all
  note fk = fits_slot[OF assms(2)]
  note A = written_stays[OF both(3) slot_at_ok(1)[OF assms(1)] both(6) fk both(5)]
  have len': "length (mem s') = length (mem s1)" using both(6,7) by simp
  note B = written_stays[OF both(4) slot_at_ok(1)[OF ok1] len' fk same_region_refl]
  have all: "mem_index (slot_at ab i) (mem s') = Some j \<and>
      window (mem s') (part_base (slot_at ab i)) (length (slot_encode C j v)) = slot_encode C j v"
    if "i < 2" for i
    using A B n that by (cases "i = k") (auto simp: less_2_cases_iff)
  have "pick (mem_index (slot_a ab) (mem s')) (mem_index (slot_b ab) (mem s')) = Some (0, j)"
    using all[of 0] all[of 1] by (simp add: slot_at_def pick_def)
  from read_at[OF ok' this _ assms(2,3)] all[of 0] both(2) n show ?thesis
    by simp
qed auto

text \<open>The index a reader sees never goes back, whatever the flash did to the write.\<close>

lemma index_never_rewinds:
  assumes "ab_ok (length (mem s)) ab" "fits C ab v" "ab_try_write F C ab v s = (out, s')"
    "current_slot_and_index F ab s = Some (k, i)"
  shows "\<exists>k' i'. current_slot_and_index F ab s' = Some (k', i') \<and> i \<le> i' \<and> (is_committed out \<longrightarrow> i < i')"
  using assms(1,3)
proof (cases rule: ab_try_write_cases)
  case exhausted
  then show ?thesis using assms(4) by auto
next
  case (first_failed k1 j e)
  have ok': "ab_ok (length (mem s')) ab" using assms(1) first_failed(5) by simp
  have k1: "k1 = (k + 1) mod 2" using next_slot_and_index_Some[OF first_failed(2)] assms(4) by auto
  note cp = current_pick[OF assms(1), unfolded assms(4), symmetric]
  have k: "k < 2" "mem_index (slot_at ab k) (mem s) = Some i"
    using pick_Some[OF cp] by (auto simp: slot_at_def)
  then have "(k1 + 1) mod 2 = k" using k1 by (auto simp: less_2_cases_iff)
  then have "mem_index (slot_at ab k) (mem s') = Some i"
    using same_region_index[OF first_failed(4) slot_at_ok(1)[OF assms(1)]] k(2) by simp
  then have "mem_index (slot_a ab) (mem s') = Some i \<or> mem_index (slot_b ab) (mem s') = Some i"
    by (auto simp: slot_at_def split: if_splits)
  from pick_max[OF this] show ?thesis
    using current_pick[OF ok'] first_failed(1) by simp
next
  case (second_failed k1 j e s1)
  have ok': "ab_ok (length (mem s')) ab" using assms(1) second_failed(8) by simp
  have j: "j = Suc i" "j < u32_max" using next_slot_and_index_Some[OF second_failed(2)] assms(4) by auto
  have "mem_index (slot_at ab k1) (mem s') = Some j"
    using written_stays(2)[OF second_failed(3) slot_at_ok(1)[OF assms(1)] second_failed(7)
        fits_slot[OF assms(2)] second_failed(6) j(2)] .
  then have "mem_index (slot_a ab) (mem s') = Some j \<or> mem_index (slot_b ab) (mem s') = Some j"
    by (auto simp: slot_at_def split: if_splits)
  from pick_max[OF this] show ?thesis using current_pick[OF ok'] j(1) by auto
next
  case (both k1 j s1)
  have ok': "ab_ok (length (mem s')) ab" using assms(1) both(7) by simp
  have j: "j = Suc i" "j < u32_max" using next_slot_and_index_Some[OF both(2)] assms(4) by auto
  have "mem_index (slot_at ab k1) (mem s') = Some j"
    using written_stays(2)[OF both(3) slot_at_ok(1)[OF assms(1)] both(6)
        fits_slot[OF assms(2)] both(5) j(2)] .
  then have "mem_index (slot_a ab) (mem s') = Some j \<or> mem_index (slot_b ab) (mem s') = Some j"
    by (auto simp: slot_at_def split: if_splits)
  from pick_max[OF this] show ?thesis using current_pick[OF ok'] j(1) by auto
qed

end


subsection \<open>Values that fit one write buffer, on flash whose refusals touch nothing\<close>

lemma writer_write_short:
  "length (w_buf w) + length bs < N \<Longrightarrow>
   writer_write F P N bs w s = (Inr (), w\<lparr>w_buf := w_buf w @ bs\<rparr>, s)"
  by (induction bs arbitrary: w) (auto simp: Let_def)

definition blank_region :: "partition \<Rightarrow> bytes \<Rightarrow> bool" where
  "blank_region P m \<longleftrightarrow> window m (part_base P) (part_size P) = replicate (part_size P) ff"

lemma blank_region_index:
  assumes "blank_region P m" "part_ok (length m) P"
  shows "mem_index P m = None"
proof -
  have "window m (part_base P) 4 = window (window m (part_base P) (part_size P)) 0 4"
    using window_window[of 0 4 "part_size P" m "part_base P"] part_size_ge[OF assms(2)] by simp
  also have "\<dots> = replicate 4 ff"
    using assms part_size_ge[OF assms(2)] by (simp add: blank_region_def window_replicate)
  also have "\<dots> = [ff, ff, ff, ff]"
    by (simp add: numeral_eq_Suc)
  finally show ?thesis by (simp add: mem_index_def u32_max_def)
qed

locale ab_store_atomic = ab_store F mem C valid + nor_flash_atomic F mem
  for F :: "'s nor_ops" and mem :: "'s \<Rightarrow> bytes" and C :: "'v codec" and valid :: "'v \<Rightarrow> bool"
begin

lemma nor_write_err:
  assumes "part_ok (length (mem s)) P" "nor_write F P off bs s = (Inl e, s')"
  shows "mem s' = mem s"
  using nor_write_cases[OF assms]
proof (elim disjE conjE exE)
  fix r0 assume "nf_write F (part_base P + off) bs s = (r0, s')" "Inl e = map_sum kind id r0"
  then show ?thesis using write_err by (cases r0) auto
qed simp

lemma erase_all_err:
  assumes "part_ok (length (mem s)) P" "erase_all F P s = (Inl e, s')"
  shows "mem s' = mem s"
proof -
  obtain r0 where "nf_erase F (part_base P) (part_base P + part_size P) s = (r0, s')"
    and "Inl e = map_sum kind id r0"
    using assms by (auto simp: erase_all_eq[OF assms(1)] split: prod.splits)
  then show ?thesis using erase_err by (cases r0) auto
qed

lemma short_write_refused:
  assumes "slot_try_write F C P j v s = (Inl e, s')" "part_ok (length (mem s)) P"
    "length (slot_encode C j v) < 256"
  shows "mem s' = mem s \<or> blank_region P (mem s')"
proof -
  obtain r1 s1 where e: "erase_all F P s = (r1, s1)" by fastforce
  show ?thesis
  proof (cases r1)
    case (Inl x)
    then show ?thesis using assms e erase_all_err by (auto simp: slot_try_write_def)
  next
    case (Inr u)
    let ?w = "\<lparr>w_buf = slot_encode C j v, w_word = 0\<rparr>"
    have ok1: "part_ok (length (mem s1)) P" using erase_all_preserves(1)[OF assms(2) e] assms(2) by simp
    have blank: "blank_region P (mem s1)"
      using erase_all_ok[OF assms(2)] e Inr by (simp add: blank_region_def)
    have "writer_write F P 256 (slot_encode C j v) writer_new s1 = (Inr (), ?w, s1)"
      using assms(3) by (simp add: writer_write_short writer_new_def)
    then obtain x where f: "writer_flush F P ?w s1 = (Inl x, s')"
      using assms(1) e Inr by (auto simp: slot_try_write_def split: prod.splits sum.splits)
    then obtain off bs where "nor_write F P off bs s1 = (Inl x, s')"
      by (auto simp: writer_flush_def Let_def split: if_splits prod.splits sum.splits)
    from nor_write_err[OF ok1 this] blank show ?thesis by simp
  qed
qed

lemma not_committed_keeps:
  assumes "ab_ok (length (mem s)) ab" "4 + length (enc C v) < 256"
    "ab_try_write F C ab v s = (NotCommitted e, s')"
  shows "current_slot_and_index F ab s' = current_slot_and_index F ab s \<and>
    ab_read F C ab s' = ab_read F C ab s"
  using assms(1,3)
proof (cases rule: ab_try_write_cases)
  case (first_failed k j e1)
  have short: "length (slot_encode C j v) < 256" using assms(2) by (simp add: slot_encode_def)
  from short_write_refused[OF first_failed(3) slot_at_ok(1)[OF assms(1)] short]
  consider "mem s' = mem s" | (blank) "blank_region (slot_at ab k) (mem s')" by blast
  then show ?thesis
  proof cases
    case 1
    then have sr: "same_region P (mem s) (mem s')" for P by simp
    have pk: "part_ok (length (mem s)) (slot_at ab i)" for i using slot_at_ok(1)[OF assms(1)] .
    have ok': "ab_ok (length (mem s')) ab" using assms(1) 1 by simp
    show ?thesis
      using current_pick[OF assms(1)] current_pick[OF ok'] 1
      by (simp add: ab_read_def slot_read_cong[OF sr pk])
  next
    case blank
    have ok': "ab_ok (length (mem s')) ab" using assms(1) first_failed(5) by simp
    note pk = slot_at_ok(1)[OF assms(1)] and pk' = slot_at_ok(1)[OF ok']
    note n = next_slot_and_index_Some[OF first_failed(2)]
    let ?o = "(k + 1) mod 2"
    have bi: "mem_index (slot_at ab k) (mem s') = None"
      using blank_region_index[OF blank pk'] .
    have oi: "mem_index (slot_at ab ?o) (mem s') = mem_index (slot_at ab ?o) (mem s)"
      using same_region_index[OF first_failed(4) pk] .
    have rd: "slot_read F C (slot_at ab ?o) s' = slot_read F C (slot_at ab ?o) s"
      using slot_read_cong[OF first_failed(4) pk] .
    have cur: "current_slot_and_index F ab s' = current_slot_and_index F ab s \<and>
      (current_slot_and_index F ab s = None \<or> fst (the (current_slot_and_index F ab s)) = ?o)"
    proof (cases "current_slot_and_index F ab s")
      case None
      then have "mem_index (slot_at ab i) (mem s) = None" if "i < 2" for i
        using current_pick[OF assms(1)] that
        by (auto simp: pick_def slot_at_def less_2_cases_iff opt_less_Some split: if_splits)
          (metis option.exhaust opt_less.simps(1))
      then have "mem_index (slot_at ab i) (mem s') = None" if "i < 2" for i
        using that bi oi n by (cases "i = k") (auto simp: less_2_cases_iff)
      from this[of 0] this[of 1] None show ?thesis
        using current_pick[OF ok'] by (simp add: slot_at_def pick_def)
    next
      case (Some p)
      obtain k0 i where p: "p = (k0, i)" by fastforce
      have k: "k = (k0 + 1) mod 2" using n Some p by simp
      from Some p current_pick[OF assms(1)]
      have pk0: "pick (mem_index (slot_a ab) (mem s)) (mem_index (slot_b ab) (mem s)) = Some (k0, i)"
        by simp
      from pick_Some[OF this] have k0: "k0 < 2" "mem_index (slot_at ab k0) (mem s) = Some i"
        by (auto simp: slot_at_def)
      then have o: "?o = k0" using k by (auto simp: less_2_cases_iff)
      have "pick (mem_index (slot_a ab) (mem s')) (mem_index (slot_b ab) (mem s')) = Some (k0, i)"
        using bi oi o k k0 by (auto simp: less_2_cases_iff slot_at_def pick_def)
      then show ?thesis using current_pick[OF ok'] Some p o by simp
    qed
    show ?thesis
    proof (cases "current_slot_and_index F ab s")
      case None
      have noread: "slot_read F C (slot_at ab 0) t = None"
        if "ab_ok (length (mem t)) ab" "current_slot_and_index F ab t = None" for t
      proof -
        have "mem_index (slot_a ab) (mem t) = None"
          using current_pick[OF that(1)] that(2)
          by (auto simp: pick_def opt_less_Some split: if_splits)
        then have "slot_read_index F (slot_at ab 0) t = None"
          using slot_read_index_mem[OF slot_at_ok(1)[OF that(1)], of 0] by (simp add: slot_at_def)
        then show ?thesis
          by (auto simp: slot_read_def slot_read_index_def split: option.splits if_splits)
      qed
      then show ?thesis using None cur assms(1) ok' by (simp add: ab_read_def)
    next
      case (Some p)
      then show ?thesis using cur rd by (cases p) (simp add: ab_read_def)
    qed
  qed
qed auto

text \<open>One good copy: for a value that fits one buffer the new value is what is read.\<close>

lemma single_copy_reads:
  assumes "ab_ok (length (mem s)) ab" "4 + length (enc C v) < 256" "valid v"
    "ab_try_write F C ab v s = (CommittedSingleCopy e, s')"
  shows "ab_read F C ab s' = Some v"
  using assms(1,4)
proof (cases rule: ab_try_write_cases)
  case (second_failed k j e1 s1)
  let ?o = "(k + 1) mod 2"
  have short: "length (slot_encode C j v) < 256" using assms(2) by (simp add: slot_encode_def)
  note n = next_slot_and_index_Some[OF second_failed(2)]
  have ok1: "ab_ok (length (mem s1)) ab" and ok': "ab_ok (length (mem s')) ab"
    using assms(1) second_failed(7,8) by simp_all
  note pk = slot_at_ok(1)[OF assms(1)] and pk1 = slot_at_ok(1)[OF ok1] and pk' = slot_at_ok(1)[OF ok']
  have fits: "fits C ab v"
    using assms(2) part_size_ge[OF pk, of 0] part_size_ge[OF pk, of 1] by (simp add: fits_def slot_at_def)
  note A = written_stays[OF second_failed(3) pk second_failed(7) fits_slot[OF fits] second_failed(6)]
  have "mem_index (slot_at ab ?o) (mem s') = None \<or>
      mem_index (slot_at ab ?o) (mem s') = mem_index (slot_at ab ?o) (mem s)"
    using short_write_refused[OF second_failed(4) pk1 short]
      same_region_index[OF second_failed(5) pk] blank_region_index[OF _ pk'] by auto
  moreover have "mem_index (slot_at ab ?o) (mem s) = None \<or>
      (\<exists>i. mem_index (slot_at ab ?o) (mem s) = Some i \<and> i < j)"
  proof (cases "mem_index (slot_at ab ?o) (mem s)")
    case (Some i)
    then have "mem_index (slot_a ab) (mem s) = Some i \<or> mem_index (slot_b ab) (mem s) = Some i"
      by (auto simp: slot_at_def split: if_splits)
    from pick_max[OF this] current_pick[OF assms(1)] n Some show ?thesis by auto
  qed simp
  ultimately have older: "mem_index (slot_at ab ?o) (mem s') = None \<or>
      (\<exists>i. mem_index (slot_at ab ?o) (mem s') = Some i \<and> i < j)"
    by metis
  have "k = 0 \<or> k = 1" using n by auto
  then have "pick (mem_index (slot_a ab) (mem s')) (mem_index (slot_b ab) (mem s')) = Some (k, j)"
    using A(2) n pick_newer[OF older] by (auto simp: slot_at_def)
  from read_at[OF ok' this A(1) fits assms(3)] n show ?thesis by simp
qed auto

lemma one_buffer_atomic:
  assumes "ab_ok (length (mem s)) ab" "4 + length (enc C v) < 256" "valid v"
    "ab_try_write F C ab v s = (out, s')"
  shows "ab_read F C ab s' = (if is_committed out then Some v else ab_read F C ab s)"
proof (cases out)
  case Committed
  have "fits C ab v"
    using assms(2) part_size_ge[OF slot_at_ok(1)[OF assms(1)], of 0]
      part_size_ge[OF slot_at_ok(1)[OF assms(1)], of 1] by (simp add: fits_def slot_at_def)
  from committed_reads[OF assms(1) this assms(3)] assms(4) Committed show ?thesis by auto
next
  case (CommittedSingleCopy e)
  then show ?thesis using single_copy_reads[OF assms(1-3)] assms(4) by simp
next
  case (NotCommitted e)
  then show ?thesis using not_committed_keeps[OF assms(1,2)] assms(4) by simp
qed

end

subsection \<open>On FakeFlash, for byte arrays\<close>

interpretation bytes_ok: codec_ok "array_codec n" "\<lambda>bs. length bs = n" for n :: nat
proof
  fix bs :: bytes and rd pos
  assume "length bs = n"
    and rd: "\<And>off len. off + len \<le> length (enc (array_codec n) bs) \<Longrightarrow>
      rd (pos + off) len = Some (window (enc (array_codec n) bs) off len)"
  then show "dec (array_codec n) rd pos = Some bs"
    using rd[of 0 n] by (simp add: window_def)
qed

interpretation fake_ab: ab_store_atomic fake_ops cells "array_codec n" "\<lambda>bs. length bs = n" for n :: nat
  by unfold_locales

end
