(* ===== verification/AbFake.thy ===== *)
theory AbFake
  imports AbCorrect
begin

text \<open>
  The A/B slot on \<open>FakeFlash\<close>, program by program. With no fault scheduled every write
  commits both copies. A value longer than one write buffer can be torn between buffers: the
  generation index sits in the first, so a copy torn after it carries the newest index over a
  partial body; that is followed here for the 512-byte record the share store writes.
\<close>

definition fs_part :: "partition \<Rightarrow> bool" where
  "fs_part P \<longleftrightarrow> part_base P + part_size P \<le> FLASH_FS_LEN"

lemma part_size_dvd: "8 dvd part_base P" "8 dvd part_size P" "4096 dvd part_base P" "4096 dvd part_size P"
proof -
  have "(8::nat) dvd 4096" by simp
  then show "8 dvd part_base P" "8 dvd part_size P"
    unfolding part_base_def part_size_def by (metis dvd_mult)+
qed (auto simp: part_base_def part_size_def)

text \<open>One chunk of the encoder's stream is one program.\<close>

lemma writer_write_chunk:
  assumes "bs1 \<noteq> []" "length (w_buf w) + length bs1 = N"
  shows "writer_write F P N (bs1 @ bs2) w s =
    (case nor_write F P (u32_mul (w_word w) WRITE_SIZE) (w_buf w @ bs1) s of
       (Inl e, s') \<Rightarrow> (Inl e, w\<lparr>w_buf := w_buf w @ bs1\<rparr>, s')
     | (Inr _, s') \<Rightarrow>
         writer_write F P N bs2 \<lparr>w_buf = [], w_word = u32_add (w_word w) (N div WRITE_SIZE)\<rparr> s')"
  using assms
proof (induction bs1 arbitrary: w)
  case (Cons b bs1)
  show ?case
  proof (cases "bs1 = []")
    case True
    then show ?thesis using Cons.prems by (simp add: Let_def split: prod.splits sum.splits)
  next
    case False
    then have "length (w_buf w @ [b]) \<noteq> N" using Cons.prems by auto
    then show ?thesis using Cons.IH[of "w\<lparr>w_buf := w_buf w @ [b]\<rparr>"] Cons.prems False
      by (simp add: Let_def split: prod.split sum.split)
  qed
qed simp

text \<open>Erase and program of a partition, on the double.\<close>

lemma fake_erase_all:
  assumes "part_ok (length (cells s)) P" "fs_part P" "refuse_erases_from s = None"
  shows "erase_all fake_ops P s = (Inr (), s\<lparr>cells := patch (cells s) (part_base P) (replicate (part_size P) ff),
    erases := u32_sat_add (erases s) (part_size P div ERASE_SIZE)\<rparr>)"
proof -
  have "check_bounds (part_base P) (part_size P) ERASE_SIZE = Inr ()"
    using assms(2) by (simp add: check_bounds_ok_iff ERASE_SIZE_def fs_part_def part_size_dvd)
  then show ?thesis
    using part_okD(1)[OF assms(1)] assms(3)
    by (simp add: fake.erase_all_eq[OF assms(1)] fake_erase_def checked_sub_def scheduled_def)
qed

text \<open>
  \<open>s\<close> with the partition holding \<open>body\<close> and blank after it, \<open>n\<close> more
  doublewords programmed.
\<close>

definition with_body :: "partition \<Rightarrow> bytes \<Rightarrow> nat \<Rightarrow> fake_flash \<Rightarrow> fake_flash" where
  "with_body P body n s = s\<lparr>cells := patch (cells s) (part_base P)
       (body @ replicate (part_size P - length body) ff),
     erases := u32_sat_add (erases s) (part_size P div ERASE_SIZE),
     programs := programs s + n\<rparr>"

lemma with_body_window:
  assumes "part_ok (length (cells s)) P" "length body \<le> part_size P" "off + len \<le> part_size P"
  shows "window (cells (with_body P body n s)) (part_base P + off) len =
    window (body @ replicate (part_size P - length body) ff) off len"
  using part_okD(1)[OF assms(1)] assms(2,3) by (simp add: with_body_def window_patch_inner)

lemma with_body_length:
  assumes "part_ok (length (cells s)) P" "length body \<le> part_size P"
  shows "length (cells (with_body P body n s)) = length (cells s)"
  using part_okD(1)[OF assms(1)] assms(2) by (simp add: with_body_def)

lemma fake_program:
  assumes "part_ok (length (cells s)) P" "fs_part P" "8 dvd length body" "8 dvd length chunk"
    "length body + length chunk \<le> part_size P" "programs s + n + length chunk div 8 \<le> u32_max"
  shows "nor_write fake_ops P (length body) chunk (with_body P body n s) =
    (if scheduled (refuse_programs_from s) (programs s + n) then (Inl KOther, with_body P body n s)
     else (Inr (), with_body P (body @ chunk) (n + length chunk div 8) s))"
proof -
  let ?t = "with_body P body n s" and ?off = "part_base P + length body"
  note cap = part_okD(1)[OF assms(1)]
  have len: "length (cells ?t) = length (cells s)"
    using cap assms(5) by (simp add: with_body_def)
  have ok: "part_ok (length (cells ?t)) P" using assms(1) len by simp
  have "window (cells ?t) ?off (length chunk) = replicate (length chunk) ff"
    using window_patch_inner[of "part_base P" "body @ replicate (part_size P - length body) ff" "cells s"
        "length body" "length chunk"] cap assms(5)
    by (simp add: with_body_def window_append_right window_replicate)
  moreover have "?off + length chunk \<le> FLASH_FS_LEN" using assms(2,5) by (simp add: fs_part_def)
  ultimately have fw: "fake_write ?off chunk ?t =
    (if scheduled (refuse_programs_from ?t) (programs ?t) then (Inl (Hardware (bitv 3)), ?t)
     else (Inr (), ?t\<lparr>cells := patch (cells ?t) ?off chunk,
                      programs := u32_sat_add (programs ?t) (length chunk div 8)\<rparr>))"
    using fake_write_blank[of ?t ?off chunk] cap assms(3-5) len part_size_dvd(1)[of P] by simp
  have cells': "patch (cells ?t) ?off chunk =
      patch (cells s) (part_base P) ((body @ chunk) @ replicate (part_size P - length (body @ chunk)) ff)"
    using patch_patch_inner[of "length body" chunk "body @ replicate (part_size P - length body) ff"
        "part_base P" "cells s"] cap assms(5) patch_append[of chunk "part_size P - length body" body ff]
    by (simp add: with_body_def)
  have "u32_sat_add (length body) (length chunk) \<le> part_size P"
    using assms(5) by (simp add: u32_sat_add_def)
  moreover have "u32_add (length body) (part_base P) = ?off"
    using assms(5) part_okD(3)[OF assms(1)] by (simp add: u32_add_exact)
  ultimately have "nor_write fake_ops P (length body) chunk ?t =
      (case fake_write ?off chunk ?t of (r, s') \<Rightarrow> (map_sum kind id r, s'))"
    by (simp add: nor_write_def part_ok_arith[OF ok])
  then show ?thesis
    using fw cells' assms(6) by (simp add: with_body_def u32_sat_add_def)
qed

subsection \<open>No fault scheduled\<close>

lemma writer_write_fake:
  assumes "part_ok (length (cells s)) P" "fs_part P" "refuse_programs_from s = None"
    "8 dvd length body" "length b < 256" "length body + length b + length bs \<le> part_size P"
    "programs s + part_size P \<le> u32_max"
  shows "\<exists>body' b'. writer_write fake_ops P 256 bs \<lparr>w_buf = b, w_word = length body div 8\<rparr>
      (with_body P body (length body div 8) s) =
      (Inr (), \<lparr>w_buf = b', w_word = length body' div 8\<rparr>, with_body P body' (length body' div 8) s) \<and>
    body' @ b' = body @ b @ bs \<and> length b' < 256 \<and> 8 dvd length body'"
  using assms(4-6)
proof (induction bs arbitrary: body b)
  case (Cons x bs)
  show ?case
  proof (cases "length (b @ [x]) = 256")
    case False
    then show ?thesis using Cons.IH[of body "b @ [x]"] Cons.prems by (simp add: Let_def)
  next
    case True
    let ?c = "b @ [x]"
    have c: "length ?c = 256" using True .
    have k: "length body div 8 * 8 = length body" using Cons.prems(1) by simp
    have lim: "length body div 8 + 32 \<le> part_size P" "part_size P < u32_lim"
      using Cons.prems(3) c part_okD(3)[OF assms(1)] by simp_all
    have "nor_write fake_ops P (length body) ?c (with_body P body (length body div 8) s) =
        (Inr (), with_body P (body @ ?c) (length body div 8 + 32) s)"
      using fake_program[OF assms(1,2) Cons.prems(1), of ?c "length body div 8"] c Cons.prems(3)
        assms(3,7) lim(1) by (simp add: scheduled_def)
    moreover have "length body div 8 + 32 = length (body @ ?c) div 8"
      using c Cons.prems(1) by simp
    moreover have "u32_mul (length body div 8) WRITE_SIZE = length body"
      using k lim(2) Cons.prems(3) by (simp add: u32_mul_def WRITE_SIZE_def)
    moreover have "u32_add (length body div 8) (256 div WRITE_SIZE) = length body div 8 + 32"
      using lim by (simp add: u32_add_def WRITE_SIZE_def)
    ultimately have "writer_write fake_ops P 256 (x # bs) \<lparr>w_buf = b, w_word = length body div 8\<rparr>
        (with_body P body (length body div 8) s) =
        writer_write fake_ops P 256 bs \<lparr>w_buf = [], w_word = length (body @ ?c) div 8\<rparr>
          (with_body P (body @ ?c) (length (body @ ?c) div 8) s)"
      using c by (simp add: Let_def add.commute)
    then show ?thesis
      using Cons.IH[of "body @ ?c" "[]"] Cons.prems c by simp
  qed
qed auto

lemma slot_write_fake:
  assumes "part_ok (length (cells s)) P" "fs_part P" "refuse_programs_from s = None"
    "refuse_erases_from s = None" "length (slot_encode C j v) \<le> part_size P"
    "programs s + part_size P \<le> u32_max"
  shows "\<exists>body. slot_try_write fake_ops C P j v s = (Inr (), with_body P body (length body div 8) s) \<and>
    length body \<le> part_size P"
proof -
  let ?e = "slot_encode C j v"
  have er: "erase_all fake_ops P s = (Inr (), with_body P [] 0 s)"
    using fake_erase_all[OF assms(1,2,4)] by (simp add: with_body_def)
  obtain body b where w: "writer_write fake_ops P 256 ?e writer_new (with_body P [] 0 s) =
      (Inr (), \<lparr>w_buf = b, w_word = length body div 8\<rparr>, with_body P body (length body div 8) s)"
    and bb: "body @ b = ?e" "length b < 256" "8 dvd length body"
    using writer_write_fake[OF assms(1-3), of "[]" "[]" ?e] assms(5,6) by (auto simp: writer_new_def)
  show ?thesis
  proof (cases "b = []")
    case True
    then show ?thesis using er w bb assms(5) by (auto simp: slot_try_write_def writer_flush_def)
  next
    case False
    let ?c = "b @ replicate (pad_len (length b)) ff"
    have fit: "length body + length b \<le> part_size P" using bb(1) assms(5) by (metis length_append)
    note pad = pad_len_props[of "length b"]
    have "length body + length ?c \<le> part_size P"
    proof -
      obtain q where q: "part_size P = 8 * q" using part_size_dvd(2)[of P] by (elim dvdE)
      have "8 dvd length body + length ?c" using bb(3) pad(1) by simp
      then obtain r where r: "length body + length ?c = 8 * r" by (elim dvdE)
      show ?thesis using fit pad(2) q r by simp
    qed
    note fit' = this
    have "u32_mul (length body div 8) WRITE_SIZE = length body"
      using bb(3) fit part_okD(3)[OF assms(1)] by (simp add: u32_mul_def WRITE_SIZE_def)
    moreover have "nor_write fake_ops P (length body) ?c (with_body P body (length body div 8) s) =
        (Inr (), with_body P (body @ ?c) (length body div 8 + length ?c div 8) s)"
    proof -
      have "length body div 8 + length ?c div 8 \<le> part_size P" using fit' by simp
      then show ?thesis
        using fake_program[OF assms(1,2) bb(3), of ?c "length body div 8"] pad(1) fit' assms(3,6)
        by (simp add: scheduled_def)
    qed
    moreover have "length body div 8 + length ?c div 8 = length (body @ ?c) div 8"
      using bb(3) by (auto elim!: dvdE)
    ultimately show ?thesis
      using er w False fit'
      by (intro exI[of _ "body @ ?c"]) (simp add: slot_try_write_def writer_flush_def Let_def)
  qed
qed

text \<open>A write on healthy flash commits, unless the generation index is exhausted.\<close>

lemma ab_write_fake:
  assumes "ab_ok (length (cells s)) ab" "fs_part (slot_a ab)" "fs_part (slot_b ab)"
    "refuse_programs_from s = None" "refuse_erases_from s = None"
    "\<And>j k. length (slot_encode C j v) \<le> part_size (slot_at ab k)"
    "programs s + part_size (slot_a ab) + part_size (slot_b ab) \<le> u32_max"
    "next_slot_and_index (current_slot_and_index fake_ops ab s) = Some (k, j)"
  shows "\<exists>s'. ab_try_write fake_ops C ab v s = (Committed, s') \<and>
    length (cells s') = length (cells s) \<and>
    refuse_programs_from s' = None \<and> refuse_erases_from s' = None \<and>
    programs s' \<le> programs s + part_size (slot_a ab) + part_size (slot_b ab)"
proof -
  let ?k = "slot_at ab k" and ?o = "slot_at ab ((k + 1) mod 2)"
  have k2: "k < 2" using next_slot_and_index_Some[OF assms(8)] by simp
  have fs: "fs_part (slot_at ab i)" for i using assms(2,3) by (simp add: slot_at_def)
  have sum: "part_size ?k + part_size ?o = part_size (slot_a ab) + part_size (slot_b ab)"
    using k2 by (auto simp: slot_at_def less_2_cases_iff)
  have "programs s + part_size ?k \<le> u32_max" using assms(7) sum by linarith
  from slot_write_fake[OF slot_at_ok(1)[OF assms(1)] fs assms(4,5,6) this]
  obtain b1 where w1: "slot_try_write fake_ops C ?k j v s = (Inr (), with_body ?k b1 (length b1 div 8) s)"
    and b1: "length b1 \<le> part_size ?k" by auto
  let ?s1 = "with_body ?k b1 (length b1 div 8) s"
  have l1: "length (cells ?s1) = length (cells s)" using with_body_length[OF slot_at_ok(1)[OF assms(1)] b1] .
  have p1: "programs ?s1 \<le> programs s + part_size ?k"
    using b1 by (simp add: with_body_def)
  have okO: "part_ok (length (cells ?s1)) ?o" using l1 slot_at_ok(1)[OF assms(1)] by simp
  have h1: "refuse_programs_from ?s1 = None" "refuse_erases_from ?s1 = None"
    using assms(4,5) by (simp_all add: with_body_def)
  have "programs ?s1 + part_size ?o \<le> u32_max" using p1 assms(7) sum by linarith
  from slot_write_fake[OF okO fs h1 assms(6) this]
  obtain b2 where w2: "slot_try_write fake_ops C ?o j v ?s1 = (Inr (), with_body ?o b2 (length b2 div 8) ?s1)"
    and b2: "length b2 \<le> part_size ?o" by auto
  let ?s2 = "with_body ?o b2 (length b2 div 8) ?s1"
  have "ab_try_write fake_ops C ab v s = (Committed, ?s2)"
    using w1 w2 by (simp add: ab_try_write_def assms(8))
  moreover have "length (cells ?s2) = length (cells s)" using with_body_length[OF okO b2] l1 by simp
  moreover have "programs ?s2 \<le> programs s + part_size ?k + part_size ?o"
    using p1 b2 by (simp add: with_body_def)
  ultimately show ?thesis using h1 sum by (intro exI[of _ ?s2]) (simp add: with_body_def)
qed

subsection \<open>Torn writes\<close>

text \<open>The three programs of one 516-byte slot image, and the same torn after the first.\<close>

lemma slot_write_516:
  assumes "part_ok (length (cells s)) P" "fs_part P" "refuse_erases_from s = None"
    "length (slot_encode C j v) = 516" "programs s + 65 \<le> u32_max"
  shows "(\<forall>n. refuse_programs_from s = Some n \<longrightarrow> programs s + 65 \<le> n) \<Longrightarrow>
    slot_try_write fake_ops C P j v s = (Inr (), with_body P (slot_encode C j v @ replicate 4 ff) 65 s)"
    and "refuse_programs_from s = Some (programs s + 32) \<Longrightarrow>
    slot_try_write fake_ops C P j v s = (Inl KOther, with_body P (take 256 (slot_encode C j v)) 32 s)"
proof -
  let ?e = "slot_encode C j v"
  define c1 c2 c3 where "c1 = take 256 ?e" and "c2 = take 256 (drop 256 ?e)" and "c3 = drop 512 ?e"
  have "c2 @ c3 = drop 256 ?e"
    using append_take_drop_id[of 256 "drop 256 ?e"] by (simp add: c2_def c3_def)
  then have e: "?e = c1 @ c2 @ c3"
    using append_take_drop_id[of 256 ?e] by (simp add: c1_def)
  have l: "length c1 = 256" "length c2 = 256" "length c3 = 4"
    using assms(4) by (auto simp: c1_def c2_def c3_def)
  have big: "4096 \<le> part_size P" using part_size_ge[OF assms(1)] .
  note prog = fake_program[OF assms(1,2)]
  have er: "erase_all fake_ops P s = (Inr (), with_body P [] 0 s)"
    using fake_erase_all[OF assms(1-3)] by (simp add: with_body_def)
  show "slot_try_write fake_ops C P j v s = (Inr (), with_body P (?e @ replicate 4 ff) 65 s)"
    if lim: "\<forall>n. refuse_programs_from s = Some n \<longrightarrow> programs s + 65 \<le> n"
  proof -
    have open': "\<not> scheduled (refuse_programs_from s) (programs s + k)" if "k < 65" for k
      using lim that by (cases "refuse_programs_from s") (auto simp: scheduled_def)
    have n1: "nor_write fake_ops P 0 c1 (with_body P [] 0 s) = (Inr (), with_body P c1 32 s)"
      using prog[of "[]" c1 0] l big assms(5) open'[of 0] by simp
    have n2: "nor_write fake_ops P 256 c2 (with_body P c1 32 s) = (Inr (), with_body P (c1 @ c2) 64 s)"
      using prog[of c1 c2 32] l big assms(5) open'[of 32] by simp
    have n3: "nor_write fake_ops P 512 (c3 @ replicate 4 ff) (with_body P (c1 @ c2) 64 s) =
        (Inr (), with_body P (c1 @ c2 @ c3 @ replicate 4 ff) 65 s)"
      using prog[of "c1 @ c2" "c3 @ replicate 4 ff" 64] l big assms(5) open'[of 64] by simp
    have "writer_write fake_ops P 256 ?e writer_new (with_body P [] 0 s) =
        (Inr (), \<lparr>w_buf = c3, w_word = 64\<rparr>, with_body P (c1 @ c2) 64 s)"
      using l n1 n2 unfolding e
      by (simp add: writer_write_chunk writer_write_short writer_new_def u32_mul_def u32_add_def
          u32_lim_def WRITE_SIZE_def flip: length_0_conv)
    moreover have "writer_flush fake_ops P \<lparr>w_buf = c3, w_word = 64\<rparr> (with_body P (c1 @ c2) 64 s) =
        (Inr 65, with_body P (c1 @ c2 @ c3 @ replicate 4 ff) 65 s)"
      using n3 l by (simp add: writer_flush_def pad_len_def u32_mul_def u32_add_def u32_lim_def
          WRITE_SIZE_def flip: length_0_conv)
    ultimately show ?thesis using er by (simp add: slot_try_write_def e)
  qed
  show "slot_try_write fake_ops C P j v s = (Inl KOther, with_body P (take 256 ?e) 32 s)"
    if lim: "refuse_programs_from s = Some (programs s + 32)"
  proof -
    have n1: "nor_write fake_ops P 0 c1 (with_body P [] 0 s) = (Inr (), with_body P c1 32 s)"
      using prog[of "[]" c1 0] l big assms(5) lim by (simp add: scheduled_def)
    have n2: "nor_write fake_ops P 256 c2 (with_body P c1 32 s) = (Inl KOther, with_body P c1 32 s)"
      using prog[of c1 c2 32] l big assms(5) lim by (simp add: scheduled_def)
    have "writer_write fake_ops P 256 ?e writer_new (with_body P [] 0 s) =
        (Inl KOther, \<lparr>w_buf = c2, w_word = 32\<rparr>, with_body P c1 32 s)"
      using l n1 n2 unfolding e
      by (simp add: writer_write_chunk writer_new_def u32_mul_def u32_add_def
          u32_lim_def WRITE_SIZE_def flip: length_0_conv)
    moreover have "writer_flush fake_ops P \<lparr>w_buf = c2, w_word = 32\<rparr> (with_body P c1 32 s) =
        (Inl KOther, with_body P c1 32 s)"
      using n2 l by (simp add: writer_flush_def pad_len_def u32_mul_def u32_lim_def
          WRITE_SIZE_def flip: length_0_conv)
    ultimately show ?thesis using er by (simp add: slot_try_write_def c1_def)
  qed
qed


subsection \<open>What a reader sees of a torn copy\<close>

definition torn_512 :: "bytes \<Rightarrow> bytes" where
  "torn_512 v = take 252 v @ replicate 260 ff"

lemma torn_slot_read:
  assumes "part_ok (length (cells s)) P" "length v = 512" "j < u32_max"
    and "t = with_body P (take 256 (slot_encode (array_codec 512) j v)) n s"
  shows "slot_read fake_ops (array_codec 512) P t = Some (j, torn_512 v)"
    and "mem_index P (cells t) = Some j"
proof -
  let ?b = "take 256 (slot_encode (array_codec 512) j v)"
  have b: "?b = le_bytes 4 j @ take 252 v" using assms(2) by (simp add: slot_encode_def)
  have big: "4096 \<le> part_size P" using part_size_ge[OF assms(1)] .
  have lb: "length ?b = 256" using assms(2) by (simp add: slot_encode_def)
  note w = with_body_window[OF assms(1), of ?b _ _ n, unfolded lb]
  have len: "length (cells t) = length (cells s)"
    unfolding assms(4) using lb big by (intro with_body_length[OF assms(1)]) simp
  have ok: "part_ok (length (cells t)) P" using assms(1) len by simp
  have i4: "window (cells t) (part_base P) 4 = le_bytes 4 j"
    using w[of 0 4] big by (simp add: assms(4) b window_def)
  have "window (cells t) (part_base P + 4) 512 = torn_512 v"
    using w[of 4 512] big assms(2) by (simp add: assms(4) b window_def torn_512_def)
  then have r512: "slot_reader fake_ops P t 4 512 = Some (torn_512 v)"
    using fake.slot_reader_in[OF ok, of 4 512] big by simp
  have r4: "slot_reader fake_ops P t 0 4 = Some (le_bytes 4 j)"
    using fake.slot_reader_in[OF ok, of 0 4] big i4 by simp
  have j: "of_le (le_bytes 4 j) = j" using assms(3) by (intro of_le_bytes) (simp add: u32_max_def)
  show "slot_read fake_ops (array_codec 512) P t = Some (j, torn_512 v)"
    using r4 r512 j assms(3) by (simp add: slot_read_def)
  show "mem_index P (cells t) = Some j"
    using i4 j assms(3) by (simp add: mem_index_def)
qed

subsection \<open>The two torn outcomes\<close>

lemma torn_first_copy:
  assumes "ab_ok (length (cells s)) ab" "fs_part (slot_b ab)" "refuse_erases_from s = None"
    "current_slot_and_index fake_ops ab s = Some (0, i)" "Suc i < u32_max" "length v = 512"
    "refuse_programs_from s = Some (programs s + 32)" "programs s + 65 \<le> u32_max"
  shows "\<exists>s'. ab_try_write fake_ops (array_codec 512) ab v s = (NotCommitted KOther, s') \<and>
    ab_read fake_ops (array_codec 512) ab s' = Some (torn_512 v)"
proof -
  let ?C = "array_codec 512" and ?B = "slot_b ab"
  let ?t = "with_body ?B (take 256 (slot_encode ?C (Suc i) v)) 32 s"
  have ok: "part_ok (length (cells s)) ?B" using assms(1) by (simp add: ab_ok_def)
  have nx: "next_slot_and_index (Some (0, i)) = Some (1, Suc i)"
    using assms(5) by (simp add: next_slot_and_index_def u32_checked_add_def u32_max_def u32_lim_def)
  have le: "length (slot_encode ?C (Suc i) v) = 516" using assms(6) by (simp add: slot_encode_def)
  have w: "slot_try_write fake_ops ?C ?B (Suc i) v s = (Inl KOther, ?t)"
    using slot_write_516(2)[OF ok assms(2,3) le assms(8,7)] .
  have out: "ab_try_write fake_ops ?C ab v s = (NotCommitted KOther, ?t)"
    using w by (simp add: ab_try_write_def assms(4) nx slot_at_def)
  from assms(1) out show ?thesis
  proof (cases rule: fake.ab_try_write_cases)
    case (first_failed k j e)
    have kj: "k = 1" "j = Suc i" using first_failed(2) nx assms(4) by simp_all
    have ok': "ab_ok (length (cells ?t)) ab" using assms(1) first_failed(5) by simp
    note tr = torn_slot_read[OF ok assms(6,5) refl, of 32]
    have "pick (mem_index (slot_a ab) (cells s)) (mem_index (slot_b ab) (cells s)) = Some (0, i)"
      using fake.current_pick[OF assms(1)] assms(4) by simp
    from pick_Some[OF this] have "mem_index (slot_a ab) (cells s) = Some i" by simp
    then have "mem_index (slot_a ab) (cells ?t) = Some i"
      using same_region_index[OF first_failed(4) slot_at_ok(1)[OF assms(1)]] kj
      by (simp add: slot_at_def)
    then have "current_slot_and_index fake_ops ab ?t = Some (1, Suc i)"
      using fake.current_pick[OF ok'] tr(2) by (simp add: pick_def)
    then show ?thesis using out tr(1) by (simp add: ab_read_def slot_at_def)
  qed auto
qed

lemma torn_second_copy:
  assumes "ab_ok (length (cells s)) ab" "fs_part (slot_a ab)" "fs_part (slot_b ab)"
    "refuse_erases_from s = None"
    "current_slot_and_index fake_ops ab s = Some (0, i)" "Suc i < u32_max" "length v = 512"
    "refuse_programs_from s = Some (programs s + 97)" "programs s + 130 \<le> u32_max"
  shows "\<exists>s'. ab_try_write fake_ops (array_codec 512) ab v s = (CommittedSingleCopy KOther, s') \<and>
    ab_read fake_ops (array_codec 512) ab s' = Some (torn_512 v)"
proof -
  let ?C = "array_codec 512" and ?A = "slot_a ab" and ?B = "slot_b ab"
  let ?e = "slot_encode ?C (Suc i) v"
  let ?s1 = "with_body ?B (?e @ replicate 4 ff) 65 s"
  let ?t = "with_body ?A (take 256 ?e) 32 ?s1"
  have ok: "part_ok (length (cells s)) ?B" using assms(1) by (simp add: ab_ok_def)
  have le: "length ?e = 516" using assms(7) by (simp add: slot_encode_def)
  have nx: "next_slot_and_index (Some (0, i)) = Some (1, Suc i)"
    using assms(6) by (simp add: next_slot_and_index_def u32_checked_add_def u32_max_def u32_lim_def)
  have w1: "slot_try_write fake_ops ?C ?B (Suc i) v s = (Inr (), ?s1)"
    using slot_write_516(1)[OF ok assms(3,4) le] assms(8,9) by simp
  have okA: "part_ok (length (cells ?s1)) ?A"
    using with_body_length[OF ok, of "?e @ replicate 4 ff"] part_size_ge[OF ok] le assms(1)
    by (simp add: ab_ok_def)
  have s1: "refuse_erases_from ?s1 = None" "programs ?s1 = programs s + 65"
    "refuse_programs_from ?s1 = Some (programs ?s1 + 32)"
    using assms(4,8) by (simp_all add: with_body_def)
  have w2: "slot_try_write fake_ops ?C ?A (Suc i) v ?s1 = (Inl KOther, ?t)"
    using slot_write_516(2)[OF okA assms(2) s1(1) le _ s1(3)] s1(2) assms(9) by simp
  have out: "ab_try_write fake_ops ?C ab v s = (CommittedSingleCopy KOther, ?t)"
    using w1 w2 by (simp add: ab_try_write_def assms(5) nx slot_at_def)
  from assms(1) out show ?thesis
  proof (cases rule: fake.ab_try_write_cases)
    case (second_failed k j e s1')
    have ok': "ab_ok (length (cells ?t)) ab" using assms(1) second_failed(8) by simp
    note tr = torn_slot_read[OF okA assms(7,6) refl, of 32]
    have "current_slot_and_index fake_ops ab ?t = Some (0, Suc i)"
    proof -
      have kj: "k = 1" "j = Suc i" using second_failed(2) nx assms(5) by simp_all
      have "mem_index (slot_at ab k) (cells ?t) = Some j"
        by (rule fake_ab.written_stays(2)[OF second_failed(3) slot_at_ok(1)[OF assms(1)]
              second_failed(7) _ second_failed(6)])
          (use le kj part_size_ge[OF ok] assms(6) in \<open>simp_all add: slot_at_def\<close>)
      then show ?thesis
        using fake.current_pick[OF ok'] tr(2) kj by (simp add: slot_at_def pick_def)
    qed
    then show ?thesis using out tr(1) by (simp add: ab_read_def slot_at_def)
  qed auto
qed

end
