(* ===== verification/NonceSlots.thy ===== *)
theory NonceSlots
  imports NonceCorrect AbFake
begin

text \<open>
  The storage under the nonce slots: \<open>MemoryNonceSlot\<close> (\<open>device_nonces.rs\<close>) and
  \<open>NonceAbSlot\<close> (\<open>frostsnap_embedded/src/nonce_slots.rs\<close>), the latter over any
  \<open>NorFlash\<close>, with the wire format of \<open>Versioned<SecretNonceSlot>\<close>.
\<close>

subsection \<open>In memory\<close>

definition mem_ops :: "secret_nonce_slot option list slot_ops" where
  "mem_ops = \<lparr>sl_read = (\<lambda>w i. if i < length w then w ! i else None),
              sl_write = (\<lambda>i v w. w[i := Some v])\<rparr>"

definition mem_good :: "nat \<Rightarrow> secret_nonce_slot option list \<Rightarrow> bool" where
  "mem_good n w \<longleftrightarrow> length w = n \<and> (\<forall>v. Some v \<in> set w \<longrightarrow> sn_index v \<le> u32_max)"

interpretation mem: slot_store_reliable mem_ops "mem_good n" n "\<lambda>_. True" for n :: nat
proof unfold_locales
  fix w :: "secret_nonce_slot option list" and i and v :: secret_nonce_slot
  assume g: "mem_good n w" and i: "i < n" and v: "sn_index v \<le> u32_max"
  have "set (w[i := Some v]) \<subseteq> insert (Some v) (set w)" by (rule set_update_subset_insert)
  then show "mem_good n (sl_write mem_ops i v w)"
    using g v by (auto simp: mem_good_def mem_ops_def)
qed (auto simp: mem_good_def mem_ops_def in_set_conv_nth)

subsection \<open>The wire format\<close>

text \<open>
  \<open>bincode\<close> with fixed-width little-endian integers: the version's variant index, the
  fields in order, an option as a one-byte tag, a vector behind its 64-bit length.
  \<open>is_share\<close> is the range check a 32-byte scalar makes when it is decoded.
\<close>

definition signing_state_enc :: "signing_state option \<Rightarrow> bytes" where
  "signing_state_enc sg =
     (case sg of
        None \<Rightarrow> [0]
      | Some sst \<Rightarrow> 1 # sst_session_id sst @ le_bytes 8 (length (sst_signature_shares sst)) @
                     concat (sst_signature_shares sst))"

definition nonce_enc :: "secret_nonce_slot \<Rightarrow> bytes" where
  "nonce_enc v = le_bytes 4 0 @ le_bytes 4 (sn_index v) @ sn_stream_id v @ sn_seed v @
     le_bytes 4 (sn_last_used v) @ signing_state_enc (sn_signing_state v)"

fun shares_dec :: "(bytes \<Rightarrow> bool) \<Rightarrow> reader \<Rightarrow> nat \<Rightarrow> nat \<Rightarrow> bytes list option" where
  "shares_dec is_share rd pos 0 = Some []"
| "shares_dec is_share rd pos (Suc n) =
     (case rd pos 32 of
        None \<Rightarrow> None
      | Some s \<Rightarrow> if is_share s then map_option (Cons s) (shares_dec is_share rd (pos + 32) n) else None)"

definition signing_state_dec :: "(bytes \<Rightarrow> bool) \<Rightarrow> reader \<Rightarrow> nat \<Rightarrow> signing_state option option" where
  "signing_state_dec is_share rd pos =
     (case rd pos 1 of
        None \<Rightarrow> None
      | Some t \<Rightarrow>
         if of_le t = 0 then Some None
         else if of_le t = 1 then
           (case (rd (pos + 1) 32, rd (pos + 33) 8) of
              (Some sess, Some n) \<Rightarrow>
                (case shares_dec is_share rd (pos + 41) (of_le n) of
                   None \<Rightarrow> None
                 | Some shares \<Rightarrow>
                     Some (Some \<lparr>sst_session_id = sess, sst_signature_shares = shares\<rparr>))
            | _ \<Rightarrow> None)
         else None)"

definition nonce_dec :: "(bytes \<Rightarrow> bool) \<Rightarrow> reader \<Rightarrow> nat \<Rightarrow> secret_nonce_slot option" where
  "nonce_dec is_share rd pos =
     (case (rd pos 4, rd (pos + 4) 4, rd (pos + 8) 16, rd (pos + 24) 32, rd (pos + 56) 4,
            signing_state_dec is_share rd (pos + 60)) of
        (Some ver, Some idx, Some sid, Some seed, Some used, Some state) \<Rightarrow>
          if of_le ver = 0
          then Some \<lparr>sn_index = of_le idx, sn_stream_id = sid, sn_seed = seed,
                     sn_last_used = of_le used, sn_signing_state = state\<rparr>
          else None
      | _ \<Rightarrow> None)"

definition nonce_codec :: "(bytes \<Rightarrow> bool) \<Rightarrow> secret_nonce_slot codec" where
  "nonce_codec is_share = \<lparr>enc = nonce_enc, dec = nonce_dec is_share\<rparr>"

definition slot_wf :: "(bytes \<Rightarrow> bool) \<Rightarrow> secret_nonce_slot \<Rightarrow> bool" where
  "slot_wf is_share v \<longleftrightarrow> sn_index v < 256 ^ 4 \<and> length (sn_stream_id v) = 16 \<and> length (sn_seed v) = 32 \<and>
     sn_last_used v < 256 ^ 4 \<and>
     (\<forall>sst. sn_signing_state v = Some sst \<longrightarrow> length (sst_session_id sst) = 32 \<and>
        length (sst_signature_shares sst) < 256 ^ 8 \<and>
        (\<forall>s \<in> set (sst_signature_shares sst). length s = 32 \<and> is_share s))"

lemma shares_dec_concat:
  assumes "\<forall>s \<in> set ss. length s = 32 \<and> is_share s"
    and "\<And>off len. off + len \<le> length (concat ss) \<Longrightarrow> rd (pos + off) len = Some (window (concat ss) off len)"
  shows "shares_dec is_share rd pos (length ss) = Some ss"
  using assms
proof (induction ss arbitrary: pos)
  case (Cons s ss)
  have s: "length s = 32" "is_share s" using Cons.prems(1) by simp_all
  have "rd pos 32 = Some s" using Cons.prems(2)[of 0 32] s(1) by (simp add: window_def)
  moreover have "rd (pos + 32 + off) len = Some (window (concat ss) off len)"
    if "off + len \<le> length (concat ss)" for off len
    using Cons.prems(2)[of "32 + off" len] that s(1) by (simp add: window_append_right add.assoc)
  ultimately show ?case using Cons.IH[of "pos + 32"] Cons.prems(1) s(2) by simp
qed simp

lemma signing_state_dec_enc:
  assumes "\<forall>sst. sg = Some sst \<longrightarrow> length (sst_session_id sst) = 32 \<and>
      length (sst_signature_shares sst) < 256 ^ 8 \<and>
      (\<forall>s \<in> set (sst_signature_shares sst). length s = 32 \<and> is_share s)"
    and rd: "\<And>off len. off + len \<le> length (signing_state_enc sg) \<Longrightarrow>
      rd (pos + off) len = Some (window (signing_state_enc sg) off len)"
  shows "signing_state_dec is_share rd pos = Some sg"
proof (cases sg)
  case None
  then show ?thesis using rd[of 0 1] by (simp add: signing_state_enc_def signing_state_dec_def window_def)
next
  case (Some sst)
  let ?ss = "sst_signature_shares sst"
  have l: "length (sst_session_id sst) = 32" "length ?ss < 256 ^ 8" using assms(1) Some by simp_all
  have e: "signing_state_enc sg = [1] @ sst_session_id sst @ le_bytes 8 (length ?ss) @ concat ?ss"
    using Some by (simp add: signing_state_enc_def)
  have len: "length (signing_state_enc sg) = 41 + length (concat ?ss)" using l by (simp add: e)
  have t: "rd pos 1 = Some [1]" using rd[of 0 1] len by (simp add: e window_def)
  have s: "rd (pos + 1) 32 = Some (sst_session_id sst)"
    using rd[of 1 32] len l by (simp add: e window_def)
  have n: "rd (pos + 33) 8 = Some (le_bytes 8 (length ?ss))"
    using rd[of 33 8] len l by (simp add: e window_append_right del: append_Cons append_Nil) (simp add: window_def)
  have c: "rd (pos + 41 + off) k = Some (window (concat ?ss) off k)" if "off + k \<le> length (concat ?ss)" for off k
    using rd[of "41 + off" k] len l that
    by (simp add: e window_append_right add.assoc del: append_Cons append_Nil)
  have "shares_dec is_share rd (pos + 41) (length ?ss) = Some ?ss"
    using shares_dec_concat[OF _ c] assms(1) Some by blast
  then show ?thesis
    using t s n l(2) Some by (simp add: signing_state_dec_def of_le_bytes)
qed

interpretation nonce_fmt: codec_ok "nonce_codec is_share" "slot_wf is_share" for is_share
proof
  fix v and rd :: reader and pos
  assume wf: "slot_wf is_share v"
    and rd: "\<And>off len. off + len \<le> length (enc (nonce_codec is_share) v) \<Longrightarrow>
      rd (pos + off) len = Some (window (enc (nonce_codec is_share) v) off len)"
  have w: "sn_index v < 256 ^ 4" "length (sn_stream_id v) = 16" "length (sn_seed v) = 32"
    "sn_last_used v < 256 ^ 4" using wf by (simp_all add: slot_wf_def)
  let ?e = "nonce_enc v" and ?t = "signing_state_enc (sn_signing_state v)"
  have rd': "rd (pos + off) len = Some (window ?e off len)" if "off + len \<le> length ?e" for off len
    using rd that by (simp add: nonce_codec_def)
  have len: "length ?e = 60 + length ?t" using w by (simp add: nonce_enc_def)
  have f: "rd pos 4 = Some (le_bytes 4 0)" "rd (pos + 4) 4 = Some (le_bytes 4 (sn_index v))"
    "rd (pos + 8) 16 = Some (sn_stream_id v)" "rd (pos + 24) 32 = Some (sn_seed v)"
    "rd (pos + 56) 4 = Some (le_bytes 4 (sn_last_used v))"
    using rd'[of 0 4] rd'[of 4 4] rd'[of 8 16] rd'[of 24 32] rd'[of 56 4] len w
    by (simp_all add: nonce_enc_def window_def)
  have "rd (pos + 60 + off) k = Some (window ?t off k)" if "off + k \<le> length ?t" for off k
    using rd'[of "60 + off" k] len w that
    by (simp add: nonce_enc_def window_append_right add.assoc)
  then have "signing_state_dec is_share rd (pos + 60) = Some (sn_signing_state v)"
    using wf by (intro signing_state_dec_enc) (auto simp: slot_wf_def)
  then show "dec (nonce_codec is_share) rd pos = Some v"
    using f w by (simp add: nonce_codec_def nonce_dec_def of_le_bytes)
qed

lemma nonce_dec_bound:
  assumes "nonce_dec is_share rd pos = Some v" "\<And>off len bs. rd off len = Some bs \<Longrightarrow> length bs = len"
  shows "sn_index v \<le> u32_max"
proof -
  from assms(1) obtain idx where "rd (pos + 4) 4 = Some idx" "sn_index v = of_le idx"
    by (auto simp: nonce_dec_def split: option.splits if_splits)
  then show ?thesis using of_le_bound[of idx] assms(2) by (simp add: u32_max_def)
qed

subsection \<open>On flash\<close>

record 's nonce_world =
  nw_flash :: 's
  nw_last_write :: "ab_outcome option list"

definition nonce_ab_ops ::
  "'s nor_ops \<Rightarrow> secret_nonce_slot codec \<Rightarrow> ab_slot list \<Rightarrow> 's nonce_world slot_ops" where
  "nonce_ab_ops F C slots =
     \<lparr>sl_read = (\<lambda>w i. if i < length slots then ab_read F C (slots ! i) (nw_flash w) else None),
      sl_write = (\<lambda>i v w.
        case ab_try_write F C (slots ! i) v (nw_flash w) of (out, s') \<Rightarrow>
          w\<lparr>nw_flash := s', nw_last_write := (nw_last_write w)[i := Some out]\<rparr>)\<rparr>"

text \<open>\<open>load_slots\<close>: pairs of sectors off the front, a lone last sector left over.\<close>

function load_slots :: "partition \<Rightarrow> ab_slot list option" where
  "load_slots P =
     (if n_sectors P < 2 then Some []
      else (case split_off_front 2 P of
              None \<Rightarrow> None
            | Some (rest, front) \<Rightarrow>
               (case ab_new front of
                  None \<Rightarrow> None
                | Some ab \<Rightarrow> map_option (Cons ab) (load_slots rest))))"
  by pat_completeness auto
termination
  by (relation "measure n_sectors")
    (auto simp: split_off_front_def split_off_end_def Let_def split: if_splits)

declare load_slots.simps [simp del]

lemma split_off_front_2:
  assumes "2 \<le> n" "(off + n) * 4096 < u32_max"
  shows "split_off_front 2 \<lparr>offset_sector = off, n_sectors = n\<rparr> =
    Some (\<lparr>offset_sector = off + 2, n_sectors = n - 2\<rparr>, \<lparr>offset_sector = off, n_sectors = 2\<rparr>)"
proof -
  have "off + 2 < u32_lim" using assms by (simp add: u32_max_def u32_lim_def)
  then show ?thesis using assms(1)
    by (simp add: split_off_front_def split_off_end_def Let_def u32_add_exact)
qed

lemma ab_new_2:
  "(off + 2) * 4096 < u32_max \<Longrightarrow> ab_new \<lparr>offset_sector = off, n_sectors = 2\<rparr> =
     Some \<lparr>slot_a = \<lparr>offset_sector = off, n_sectors = 1\<rparr>,
           slot_b = \<lparr>offset_sector = off + 1, n_sectors = 1\<rparr>\<rparr>"
  by (simp add: ab_new_def split_off_end_def Let_def u32_add_def u32_max_def u32_lim_def)

definition pair_at :: "nat \<Rightarrow> ab_slot" where
  "pair_at off = \<lparr>slot_a = \<lparr>offset_sector = off, n_sectors = 1\<rparr>,
                 slot_b = \<lparr>offset_sector = off + 1, n_sectors = 1\<rparr>\<rparr>"

lemma load_slots_pairs:
  "(off + n) * 4096 < u32_max \<Longrightarrow>
   load_slots \<lparr>offset_sector = off, n_sectors = n\<rparr> = Some (map (\<lambda>k. pair_at (off + 2 * k)) [0 ..< n div 2])"
proof (induction n arbitrary: off rule: less_induct)
  case (less n)
  show ?case
  proof (cases "n < 2")
    case True
    then show ?thesis by (simp add: load_slots.simps)
  next
    case False
    have "load_slots \<lparr>offset_sector = off + 2, n_sectors = n - 2\<rparr> =
        Some (map (\<lambda>k. pair_at (off + 2 + 2 * k)) [0 ..< (n - 2) div 2])"
      using less.IH[of "n - 2" "off + 2"] less.prems False by simp
    moreover have "n div 2 = Suc ((n - 2) div 2)" using False by simp
    then have "map (\<lambda>k. pair_at (off + 2 * k)) [0 ..< n div 2] =
        pair_at off # map (\<lambda>k. pair_at (off + 2 + 2 * k)) [0 ..< (n - 2) div 2]"
      by (simp add: upt_conv_Cons map_Suc_upt[symmetric] del: upt_Suc) 
    moreover have "ab_new \<lparr>offset_sector = off, n_sectors = 2\<rparr> = Some (pair_at off)"
      using ab_new_2[of off] less.prems False by (simp add: pair_at_def)
    ultimately show ?thesis
      using split_off_front_2[of n off] less.prems False by (subst load_slots.simps) simp
  qed
qed

definition pairs_disjoint :: "ab_slot \<Rightarrow> ab_slot \<Rightarrow> bool" where
  "pairs_disjoint x y \<longleftrightarrow> disjoint_parts (slot_a x) (slot_a y) \<and> disjoint_parts (slot_a x) (slot_b y) \<and>
     disjoint_parts (slot_b x) (slot_a y) \<and> disjoint_parts (slot_b x) (slot_b y)"

context nor_flash
begin

lemma ab_try_write_frame:
  assumes "ab_ok (length (mem s)) ab" "ab_ok (length (mem s)) other" "pairs_disjoint ab other"
    "ab_try_write F C ab v s = (out, s')"
  shows "length (mem s') = length (mem s) \<and> same_region (slot_at other k) (mem s) (mem s')"
proof -
  have one: "length (mem t') = length (mem s) \<and> same_region (slot_at other k) (mem t) (mem t')"
    if "slot_try_write F C (slot_at ab i) j v t = (r, t')" "length (mem t) = length (mem s)" for i j t t' r
  proof -
    have pk: "part_ok (length (mem t)) (slot_at ab i)" "part_ok (length (mem t)) (slot_at other k)"
      using slot_at_ok(1)[OF assms(1)] slot_at_ok(1)[OF assms(2)] that(2) by simp_all
    have "disjoint_parts (slot_at ab i) (slot_at other k)"
      using assms(3) by (simp add: pairs_disjoint_def slot_at_def)
    note p = slot_try_write_preserves[OF that(1) pk(1)]
    have "same_region (slot_at other k) (mem t) (mem t')"
      by (rule frame_same_region[OF \<open>disjoint_parts _ _\<close> pk(2)]) (use p in auto)
    then show ?thesis using p that(2) by simp
  qed
  from assms(1,4) show ?thesis
  proof (cases rule: ab_try_write_cases)
    case (first_failed k1 j e)
    from one[OF first_failed(3)] show ?thesis by simp
  next
    case (second_failed k1 j e s1)
    from one[OF second_failed(3)] one[OF second_failed(4)] show ?thesis
      using same_region_trans by auto
  next
    case (both k1 j s1)
    from one[OF both(3)] one[OF both(4)] show ?thesis using same_region_trans by auto
  qed simp
qed

lemma ab_read_frame:
  assumes "ab_ok (length (mem s)) ab" "length (mem s') = length (mem s)"
    "\<And>k. same_region (slot_at ab k) (mem s) (mem s')"
  shows "ab_read F C ab s' = ab_read F C ab s"
proof -
  have ok': "ab_ok (length (mem s')) ab" using assms by simp
  have "mem_index (slot_at ab k) (mem s') = mem_index (slot_at ab k) (mem s)" for k
    using same_region_index[OF assms(3) slot_at_ok(1)[OF assms(1)]] .
  from this[of 0] this[of 1] have "current_slot_and_index F ab s' = current_slot_and_index F ab s"
    using current_pick[OF assms(1)] current_pick[OF ok'] by (simp add: slot_at_def)
  then show ?thesis
    by (simp add: ab_read_def slot_read_cong[OF assms(3) slot_at_ok(1)[OF assms(1)]])
qed

lemma ab_read_dec:
  assumes "ab_read F C ab s = Some v" "ab_ok (length (mem s)) ab"
  shows "\<exists>rd pos. dec C rd pos = Some v \<and> (\<forall>off len bs. rd off len = Some bs \<longrightarrow> length bs = len)"
proof -
  from assms(1) obtain k where k: "dec C (slot_reader F (slot_at ab k) s) 4 = Some v"
    by (auto simp: ab_read_def Let_def slot_read_def split: option.splits if_splits)
  note pk = slot_at_ok(1)[OF assms(2), of k]
  have "length bs = len" if "slot_reader F (slot_at ab k) s off len = Some bs" for off len bs
  proof (cases "off + len \<le> part_size (slot_at ab k)")
    case True
    then show ?thesis
      using slot_reader_in[OF pk True] that part_okD(1)[OF pk] by (auto simp: length_window)
  next
    case False
    then show ?thesis using that part_okD(2)[OF pk]
      by (simp add: slot_reader_def part_read_def part_ok_arith[OF pk] u32_sat_add_def u32_max_def)
  qed
  with k show ?thesis by blast
qed

end

text \<open>
  The contract of \<open>NonceCorrect\<close> holds for slots on flash, for values that fit the
  writer's one buffer: those with at most four signature shares. A longer value may tear.
\<close>

definition flash_good :: "('s \<Rightarrow> bytes) \<Rightarrow> ab_slot list \<Rightarrow> 's nonce_world \<Rightarrow> bool" where
  "flash_good mem slots w \<longleftrightarrow> (\<forall>i < length slots. ab_ok (length (mem (nw_flash w))) (slots ! i))"

definition short :: "secret_nonce_slot codec \<Rightarrow> (secret_nonce_slot \<Rightarrow> bool) \<Rightarrow> secret_nonce_slot \<Rightarrow> bool" where
  "short C valid v \<longleftrightarrow> valid v \<and> 4 + length (enc C v) < 256"

locale nonce_flash = ab_store_atomic F mem C valid
  for F :: "'s nor_ops" and mem and C :: "secret_nonce_slot codec" and valid +
  fixes slots :: "ab_slot list"
  assumes apart: "i < length slots \<Longrightarrow> j < length slots \<Longrightarrow> i \<noteq> j \<Longrightarrow> pairs_disjoint (slots ! i) (slots ! j)"
    and index_bound: "dec C rd pos = Some v \<Longrightarrow> (\<And>off len bs. rd off len = Some bs \<Longrightarrow> length bs = len) \<Longrightarrow>
      sn_index v \<le> u32_max"
sublocale nonce_flash \<subseteq> on_flash: slot_store "nonce_ab_ops F C slots" "flash_good mem slots" "length slots" "short C valid"
proof unfold_locales
  fix w i and v :: secret_nonce_slot
  assume g: "flash_good mem slots w" and i: "i < length slots"
  obtain out s' where w': "ab_try_write F C (slots ! i) v (nw_flash w) = (out, s')" by fastforce
  have ok: "ab_ok (length (mem (nw_flash w))) (slots ! k)" if "k < length slots" for k
    using g that by (simp add: flash_good_def)
  have len: "length (mem s') = length (mem (nw_flash w))"
    using ok[OF i] w' by (cases rule: ab_try_write_cases) auto
  show "flash_good mem slots (sl_write (nonce_ab_ops F C slots) i v w)"
    using g len by (simp add: flash_good_def nonce_ab_ops_def w')
  {
    fix j assume j: "j < length slots" "j \<noteq> i"
    have "same_region (slot_at (slots ! j) k) (mem (nw_flash w)) (mem s')" for k
      using ab_try_write_frame[OF ok[OF i] ok[OF j(1)] apart[OF i j(1)] w'] j by blast
    from ab_read_frame[OF ok[OF j(1)] len this]
    show "sl_read (nonce_ab_ops F C slots) (sl_write (nonce_ab_ops F C slots) i v w) j =
        sl_read (nonce_ab_ops F C slots) w j"
      using j by (simp add: nonce_ab_ops_def w')
  }
  show "sl_read (nonce_ab_ops F C slots) (sl_write (nonce_ab_ops F C slots) i v w) i
      \<in> {Some v, sl_read (nonce_ab_ops F C slots) w i, None}" if v: "short C valid v"
  proof -
    have sh: "valid v" "4 + length (enc C v) < 256" using v by (simp_all add: short_def)
    have fits: "fits C (slots ! i) v"
      using sh part_size_ge[OF slot_at_ok(1)[OF ok[OF i]], of 0]
        part_size_ge[OF slot_at_ok(1)[OF ok[OF i]], of 1] by (simp add: fits_def slot_at_def)
    have "ab_read F C (slots ! i) s' \<in> {Some v, ab_read F C (slots ! i) (nw_flash w)}"
    proof (cases out)
      case Committed
      then show ?thesis using committed_reads[OF ok[OF i] fits sh(1)] w' by blast
    next
      case (CommittedSingleCopy e)
      then show ?thesis using single_copy_reads[OF ok[OF i] sh(2,1)] w' by blast
    next
      case (NotCommitted e)
      then show ?thesis using not_committed_keeps[OF ok[OF i] sh(2)] w' by blast
    qed
    then show ?thesis using i by (auto simp: nonce_ab_ops_def w')
  qed
next
  fix w i v
  assume g: "flash_good mem slots w" and i: "i < length slots" and r: "sl_read (nonce_ab_ops F C slots) w i = Some v"
  have "ab_read F C (slots ! i) (nw_flash w) = Some v" using r i by (simp add: nonce_ab_ops_def)
  from ab_read_dec[OF this] g i index_bound show "sn_index v \<le> u32_max"
    by (auto simp: flash_good_def)
qed

context nonce_flash
begin

lemma slots_are_a_store:
  "slot_store (nonce_ab_ops F C slots) (flash_good mem slots) (length slots) (short C valid)"
  by unfold_locales

end

subsection \<open>The shipped slots\<close>

definition NONCE_OFFSET_SECTOR :: nat where "NONCE_OFFSET_SECTOR = FS_NONCE_OFFSET div SECTOR_SIZE"
definition NONCE_SECTORS :: nat where "NONCE_SECTORS = FS_NONCE_LEN div SECTOR_SIZE"

definition nonce_pairs :: "ab_slot list" where
  "nonce_pairs = map (\<lambda>k. pair_at (2 + 2 * k)) [0 ..< 4]"

lemma load_nonce_slots:
  "load_slots \<lparr>offset_sector = NONCE_OFFSET_SECTOR, n_sectors = NONCE_SECTORS\<rparr> = Some nonce_pairs"
  using load_slots_pairs[of 2 8]
  by (simp add: NONCE_OFFSET_SECTOR_def NONCE_SECTORS_def FS_NONCE_OFFSET_def FS_IDENTITY_OFFSET_def
      FS_IDENTITY_LEN_def FS_NONCE_LEN_def SECTOR_SIZE_def u32_max_def nonce_pairs_def del: upt_rec_numeral)

interpretation fake_nonces:
  nonce_flash fake_ops cells "nonce_codec is_share" "slot_wf is_share" nonce_pairs for is_share
proof unfold_locales
  fix i j assume "i < length nonce_pairs" "j < length nonce_pairs" "i \<noteq> j"
  then have ij: "i < 4" "j < 4" "i < j \<or> j < i" by (auto simp: nonce_pairs_def)
  then show "pairs_disjoint (nonce_pairs ! i) (nonce_pairs ! j)"
    by (auto simp: nonce_pairs_def pairs_disjoint_def pair_at_def disjoint_parts_def part_base_def
        part_size_def simp del: upt_rec_numeral)
next
  fix rd pos v
  assume d: "dec (nonce_codec is_share) rd pos = Some v"
    and l: "\<And>off len bs. rd off len = Some bs \<Longrightarrow> length bs = len"
  show "sn_index v \<le> u32_max"
    by (rule nonce_dec_bound[where is_share = is_share and rd = rd and pos = pos])
      (use d l in \<open>simp_all add: nonce_codec_def\<close>)
qed

lemma fake_flash_good:
  "FLASH_FS_LEN \<le> length (cells (nw_flash w)) \<Longrightarrow> flash_good cells nonce_pairs w"
  unfolding flash_good_def
  by (auto simp: nonce_pairs_def pair_at_def ab_ok_def part_ok_def
      part_base_def part_size_def disjoint_parts_def FLASH_FS_LEN_def u32_max_def simp del: upt_rec_numeral)

text \<open>On a healthy chip a well-formed request is served.\<close>

lemma nonce_pair_ok:
  assumes "FLASH_FS_LEN \<le> length (cells s)" "i < 4"
  shows "ab_ok (length (cells s)) (nonce_pairs ! i)" "fs_part (slot_a (nonce_pairs ! i))"
    "fs_part (slot_b (nonce_pairs ! i))" "part_size (slot_a (nonce_pairs ! i)) = 4096"
    "part_size (slot_b (nonce_pairs ! i)) = 4096"
  using assms by (auto simp: nonce_pairs_def pair_at_def ab_ok_def part_ok_def fs_part_def
      part_base_def part_size_def disjoint_parts_def FLASH_FS_LEN_def u32_max_def simp del: upt_rec_numeral)

definition healthy :: "nat \<Rightarrow> fake_flash \<Rightarrow> bool" where
  "healthy n s \<longleftrightarrow> FLASH_FS_LEN \<le> length (cells s) \<and> refuse_programs_from s = None \<and>
     refuse_erases_from s = None \<and> programs s + n \<le> u32_max"

lemma fake_nonce_write:
  assumes "healthy (8192 + n) (nw_flash w)" "i < 4" "short (nonce_codec is_share) (slot_wf is_share) v"
    and "next_slot_and_index (current_slot_and_index fake_ops (nonce_pairs ! i) (nw_flash w)) = Some (k, j)"
  shows "\<exists>s'. sl_write (nonce_ab_ops fake_ops (nonce_codec is_share) nonce_pairs) i v w =
      w\<lparr>nw_flash := s', nw_last_write := (nw_last_write w)[i := Some Committed]\<rparr> \<and>
    healthy n s' \<and> ab_read fake_ops (nonce_codec is_share) (nonce_pairs ! i) s' = Some v \<and>
    current_slot_and_index fake_ops (nonce_pairs ! i) s' = Some (0, j)"
proof -
  let ?C = "nonce_codec is_share" and ?ab = "nonce_pairs ! i" and ?s = "nw_flash w"
  have h: "FLASH_FS_LEN \<le> length (cells ?s)" "refuse_programs_from ?s = None"
    "refuse_erases_from ?s = None" "programs ?s + 8192 + n \<le> u32_max"
    using assms(1) by (simp_all add: healthy_def)
  note ok = nonce_pair_ok[OF h(1) assms(2)]
  have v: "slot_wf is_share v" "4 + length (enc ?C v) < 256" using assms(3) by (simp_all add: short_def)
  have fits: "fits ?C ?ab v" using v(2) by (simp add: fits_def ok)
  have "length (slot_encode ?C j v) \<le> part_size (slot_at ?ab k)" for j k
    using v(2) by (simp add: slot_encode_def slot_at_def ok)
  from ab_write_fake[OF ok(1,2,3) h(2,3) this, of k j] assms(4) h(4) ok(4,5)
  obtain s' where s': "ab_try_write fake_ops ?C ?ab v ?s = (Committed, s')" "length (cells s') = length (cells ?s)"
    "refuse_programs_from s' = None" "refuse_erases_from s' = None" "programs s' \<le> programs ?s + 8192"
    by auto
  have "ab_read fake_ops ?C ?ab s' = Some v \<and> current_slot_and_index fake_ops ?ab s' = Some (0, j)"
    using fake_nonces.committed_reads[OF ok(1) fits v(1) s'(1)] assms(4) by auto
  then show ?thesis using s' h assms(2) by (auto simp: nonce_ab_ops_def healthy_def)
qed

lemma fake_sign_serves:
  assumes "healthy (8192 + n) (nw_flash w)" "i < 4"
    and "sl_read (nonce_ab_ops fake_ops (nonce_codec is_share) nonce_pairs) w i = Some v"
    and "\<not> cached v session_id" "cn_stream_id st = sn_stream_id v" "sn_index v \<le> cn_index st"
    and "cn_index st - sn_index v \<le> u32_sat_mul batch MAX_NONCE_SKIP_BATCHES"
    and "fs \<noteq> []" "cn_index st + length fs \<le> u32_max"
    and "short (nonce_codec is_share) (slot_wf is_share) (signed_slot E v session_id (cn_index st) last_used fs)"
    and "next_slot_and_index (current_slot_and_index fake_ops (nonce_pairs ! i) (nw_flash w)) = Some (k, j)"
  shows "\<exists>job w'. slot_sign (nonce_ab_ops fake_ops (nonce_codec is_share) nonce_pairs) E i session_id st
      last_used fs batch w =
      Some (Inr (map (\<lambda>k. (fs ! k) (secret_at E v (cn_index st + k))) [0 ..< length fs], job), w') \<and>
    healthy n (nw_flash w') \<and>
    sl_read (nonce_ab_ops fake_ops (nonce_codec is_share) nonce_pairs) w' i =
      Some (signed_slot E v session_id (cn_index st) last_used fs) \<and>
    current_slot_and_index fake_ops (nonce_pairs ! i) (nw_flash w') = Some (0, j)"
proof -
  let ?S = "nonce_ab_ops fake_ops (nonce_codec is_share) nonce_pairs"
  let ?ws = "signed_slot E v session_id (cn_index st) last_used fs"
  have g: "flash_good cells nonce_pairs w" using assms(1) by (intro fake_flash_good) (simp add: healthy_def)
  have i: "i < length nonce_pairs" using assms(2) by (simp add: nonce_pairs_def)
  have "sn_index v \<le> u32_max" using fake_nonces.on_flash.read_bound[OF g i assms(3)] .
  then have ws: "with_signatures E v session_id st last_used fs batch = Inr ?ws"
    using assms by (simp add: with_signatures_fresh fresh_signing_iff)
  obtain s' where s': "sl_write ?S i ?ws w =
      w\<lparr>nw_flash := s', nw_last_write := (nw_last_write w)[i := Some Committed]\<rparr>"
    "healthy n s'" "ab_read fake_ops (nonce_codec is_share) (nonce_pairs ! i) s' = Some ?ws"
    "current_slot_and_index fake_ops (nonce_pairs ! i) s' = Some (0, j)"
    using fake_nonce_write[OF assms(1,2,10,11)] by blast
  have rd: "sl_read ?S (sl_write ?S i ?ws w) i = Some ?ws"
    using s'(1,3) i by (simp add: nonce_ab_ops_def)
  show ?thesis
    using assms(3,5) ws s' rd by (simp add: slot_sign_def Let_def signed_slot_shares)
qed

end
