(* ===== verification/NoncePool.thy ===== *)
theory NoncePool
  imports NonceSlots
begin

text \<open>
  The pool of slots: which one a stream is given, that an existing stream keeps its slot, that
  a full pool evicts the least recently used, and the bound on the work that opening streams
  can ask for. An unreadable slot in front of the one that holds a stream hides it.
\<close>

definition other_stream :: "'w slot_ops \<Rightarrow> stream_id \<Rightarrow> 'w \<Rightarrow> nat \<Rightarrow> bool" where
  "other_stream S sid w i \<longleftrightarrow> (\<exists>v. sl_read S w i = Some v \<and> sn_stream_id v \<noteq> sid)"

lemma other_streamI: "sl_read S w i = Some v \<Longrightarrow> sn_stream_id v \<noteq> sid \<Longrightarrow> other_stream S sid w i"
  by (auto simp: other_stream_def)

text \<open>\<open>last_used\<close> of a readable slot.\<close>

definition used :: "'w slot_ops \<Rightarrow> 'w \<Rightarrow> nat \<Rightarrow> nat" where
  "used S w i = (case sl_read S w i of None \<Rightarrow> 0 | Some v \<Rightarrow> sn_last_used v)"

lemma scan_slots_Held:
  "scan_slots S sid w is low d = Held i \<Longrightarrow>
   \<exists>xs ys v. is = xs @ i # ys \<and> list_all (other_stream S sid w) xs \<and>
     sl_read S w i = Some v \<and> sn_stream_id v = sid"
proof (induction S sid w "is" low d rule: scan_slots.induct)
  case (2 S sid w j js low d)
  show ?case
  proof (cases "\<exists>v. sl_read S w j = Some v \<and> sn_stream_id v = sid")
    case True
    then show ?thesis using "2.prems" by (cases "sl_read S w j") (auto intro: exI[of _ "[]"])
  next
    case False
    then obtain v where v: "sl_read S w j = Some v" "sn_stream_id v \<noteq> sid"
      using "2.prems" by (cases "sl_read S w j") auto
    have "\<exists>xs ys v. js = xs @ i # ys \<and> list_all (other_stream S sid w) xs \<and>
        sl_read S w i = Some v \<and> sn_stream_id v = sid"
    proof (cases "sn_last_used v < low")
      case True
      then show ?thesis using "2.prems" v by (intro "2.IH"(1)[OF v(1,2) True]) simp
    next
      case False
      then show ?thesis using "2.prems" v by (intro "2.IH"(2)[OF v(1,2) False]) simp
    qed
    then obtain xs ys v' where h: "js = xs @ i # ys" "list_all (other_stream S sid w) xs"
      "sl_read S w i = Some v'" "sn_stream_id v' = sid" by blast
    show ?thesis
      by (rule exI[of _ "j # xs"], rule exI[of _ ys], rule exI[of _ v'])
        (use v h other_streamI[OF v] in simp)
  qed
qed simp

lemma scan_slots_skip:
  "list_all (other_stream S sid w) xs \<Longrightarrow> \<exists>low' d'. scan_slots S sid w (xs @ js) low d = scan_slots S sid w js low' d'"
proof (induction xs arbitrary: low d)
  case (Cons x xs)
  then show ?case by (auto simp: other_stream_def)
qed auto

lemma scan_slots_Evict:
  "scan_slots S sid w is low d = Evict j \<Longrightarrow>
   list_all (other_stream S sid w) is \<and> (\<forall>i \<in> set is. used S w j \<le> used S w i \<or> low \<le> used S w i \<and> j = d) \<and>
   (j = d \<or> j \<in> set is \<and> used S w j < low)"
proof (induction S sid w "is" low d rule: scan_slots.induct)
  case (2 S sid w k ks low d)
  then obtain v where v: "sl_read S w k = Some v" "sn_stream_id v \<noteq> sid"
    by (auto split: option.splits if_splits)
  have u: "used S w k = sn_last_used v" using v by (simp add: used_def)
  show ?case
  proof (cases "sn_last_used v < low")
    case True
    with "2.prems" v "2.IH"(1)[OF v(1,2) True] show ?thesis
      by (auto simp: other_stream_def u)
  next
    case False
    with "2.prems" v "2.IH"(2)[OF v(1,2) False] show ?thesis
      by (auto simp: other_stream_def u)
  qed
qed simp

lemma upt_split: "i < n \<Longrightarrow> [0 ..< n] = [0 ..< i] @ i # [Suc i ..< n]"
  by (metis less_imp_add_positive upt_add_eq_append upt_conv_Cons
      le0 less_add_same_cancel1)

text \<open>A stream held by a slot with only readable slots before it keeps that slot, unwritten.\<close>

lemma get_or_create_held:
  assumes "i < as_count P" "sl_read S (as_slots P) i = Some v" "sn_stream_id v = sid"
    and "\<And>j. j < i \<Longrightarrow> other_stream S sid (as_slots P) j"
  shows "get_or_create S fill sid (P, r) = Some (i, P\<lparr>as_last_used := u32_add (as_last_used P) 1\<rparr>, r)"
proof -
  have "list_all (other_stream S sid (as_slots P)) [0 ..< i]" using assms(4) by (simp add: list_all_iff)
  from scan_slots_skip[OF this, of "i # [Suc i ..< as_count P]" u32_max 0]
  have "scan_slots S sid (as_slots P) [0 ..< as_count P] u32_max 0 = Held i"
    using assms(2,3) upt_split[OF assms(1)] by auto
  then show ?thesis by (simp add: get_or_create_def Let_def)
qed

text \<open>
  An unreadable slot in front: the stream is created again there, at index zero and with new
  seed material, although a later slot still holds it.
\<close>

lemma get_or_create_shadows:
  assumes "i < as_count P" "sl_read S (as_slots P) i = None"
    and "\<And>j. j < i \<Longrightarrow> other_stream S sid (as_slots P) j" "fill r = (seed, r')"
  shows "get_or_create S fill sid (P, r) = Some (i,
    P\<lparr>as_slots := sl_write S i \<lparr>sn_index = 0, sn_stream_id = sid, sn_seed = seed,
         sn_last_used = u32_add (as_last_used P) 1, sn_signing_state = None\<rparr> (as_slots P),
      as_last_used := u32_add (as_last_used P) 1\<rparr>, r')"
proof -
  have "list_all (other_stream S sid (as_slots P)) [0 ..< i]" using assms(3) by (simp add: list_all_iff)
  from scan_slots_skip[OF this, of "i # [Suc i ..< as_count P]" u32_max 0]
  have "scan_slots S sid (as_slots P) [0 ..< as_count P] u32_max 0 = Blank i"
    using assms(2) upt_split[OF assms(1)] by auto
  then show ?thesis by (simp add: get_or_create_def Let_def slot_initialize_def assms(4))
qed

text \<open>A full pool without the stream gives up its least recently used slot, and only that one.\<close>

lemma get_or_create_evicts:
  assumes "0 < as_count P" "\<And>j. j < as_count P \<Longrightarrow> other_stream S sid (as_slots P) j"
    and "\<exists>j < as_count P. used S (as_slots P) j < u32_max" "fill r = (seed, r')"
  shows "\<exists>i < as_count P. (\<forall>j < as_count P. used S (as_slots P) i \<le> used S (as_slots P) j) \<and>
    get_or_create S fill sid (P, r) = Some (i,
      P\<lparr>as_slots := sl_write S i \<lparr>sn_index = 0, sn_stream_id = sid, sn_seed = seed,
           sn_last_used = u32_add (as_last_used P) 1, sn_signing_state = None\<rparr> (as_slots P),
        as_last_used := u32_add (as_last_used P) 1\<rparr>, r')"
proof -
  let ?w = "as_slots P"
  have all: "list_all (other_stream S sid ?w) [0 ..< as_count P]" using assms(2) by (simp add: list_all_iff)
  from scan_slots_skip[OF this, of "[]" u32_max 0] obtain i where
    i: "scan_slots S sid ?w [0 ..< as_count P] u32_max 0 = Evict i" by auto
  note e = scan_slots_Evict[OF i]
  have "i < as_count P" using e assms(1) by auto
  moreover have "used S ?w i \<le> used S ?w j" if "j < as_count P" for j
  proof -
    obtain k where k: "k < as_count P" "used S ?w k < u32_max" using assms(3) by blast
    have "used S ?w i \<le> used S ?w k" using e k by fastforce
    then show ?thesis using e that k by fastforce
  qed
  ultimately show ?thesis
    using i assms(1) by (intro exI[of _ i]) (simp add: get_or_create_def Let_def slot_initialize_def assms(4))
qed

text \<open>Opening streams: one job at most per slot, each at most a batch.\<close>

definition within :: "nat \<Rightarrow> 'n nonce_job list \<Rightarrow> bool" where
  "within batch jobs \<longleftrightarrow> (\<forall>j \<in> set jobs. n_derivations_remaining j \<le> batch)"

definition add_job :: "'n nonce_job option \<Rightarrow> 'n nonce_job list \<Rightarrow> 'n nonce_job list" where
  "add_job job tasks = (case job of None \<Rightarrow> tasks | Some j \<Rightarrow> tasks @ [j])"

lemma add_job_within:
  "within batch tasks \<Longrightarrow> within batch (add_job (reconcile slot st batch) tasks)"
  "length (add_job job tasks) \<le> Suc (length tasks)"
  by (auto simp: within_def add_job_def split: option.split dest: reconcile_bounded(1))

lemma open_streams_bounded:
  "open_streams S fill batch sts Pr tasks = Some (jobs, Pr') \<Longrightarrow> within batch tasks \<Longrightarrow>
   length jobs \<le> length tasks + length sts \<and> within batch jobs"
proof (induction sts arbitrary: Pr tasks)
  case (Cons st sts)
  obtain i P' r' where g: "get_or_create S fill (cn_stream_id st) Pr = Some (i, P', r')"
    using Cons.prems(1) by (auto split: option.splits)
  let ?job = "reconcile (sl_read S (as_slots P') i) st batch"
  have "open_streams S fill batch sts (P', r') (add_job ?job tasks) = Some (jobs, Pr')"
    using Cons.prems(1) g by (simp add: add_job_def)
  from Cons.IH[OF this add_job_within(1)[OF Cons.prems(2)]] add_job_within(2)[of ?job tasks]
  show ?case by simp
qed simp

lemma open_nonce_streams_bounded:
  assumes "open_nonce_streams S fill batch sts (P, r) = Some (jobs, Pr')"
  shows "length jobs \<le> as_count P" "\<forall>j \<in> set jobs. n_derivations_remaining j \<le> batch"
  using open_streams_bounded[OF assms[unfolded open_nonce_streams_def]]
  by (auto simp: ordered_streams_def within_def)

end
