(* ===== verification/Identity.thy ===== *)
theory Identity
  imports NorFlash
begin

text \<open>
  \<open>hal/src/identity.rs\<close>: the 48-byte identity record and \<open>load_or_create\<close>. The hash
  (SHA-256) and the random source are parameters; the flash is any \<open>NorFlash\<close>.
\<close>

definition ascii :: "string \<Rightarrow> bytes" where
  "ascii cs = map of_char cs"

definition ID_RECORD_LEN :: nat where "ID_RECORD_LEN = 48"
definition SECRET_LEN :: nat where "SECRET_LEN = 32"
definition TAG_LEN :: nat where "TAG_LEN = 8"
definition BODY_LEN :: nat where "BODY_LEN = SECRET_LEN + TAG_LEN"
definition ID_MAGIC :: nat where "ID_MAGIC = 0xC01D5EED1D000001"
definition MAGIC_DOMAIN :: nat where "MAGIC_DOMAIN = ID_MAGIC div 2 ^ 32"
definition ID_DOMAIN :: bytes where "ID_DOMAIN = ascii ''coldsnap-identity-v1''"

definition SECP256K1_ORDER :: bytes where
  "SECP256K1_ORDER =
    [0xff, 0xff, 0xff, 0xff, 0xff, 0xff, 0xff, 0xff, 0xff, 0xff, 0xff, 0xff, 0xff, 0xff, 0xff, 0xfe,
     0xba, 0xae, 0xdc, 0xe6, 0xaf, 0x48, 0xa0, 0x3b, 0xbf, 0xd2, 0x5e, 0x8c, 0xd0, 0x36, 0x41, 0x41]"

lemmas id_lens = ID_RECORD_LEN_def SECRET_LEN_def TAG_LEN_def BODY_LEN_def

datatype identity_fault = IDamaged | IFlash nor_kind | IVerifyFailed | INoScalar

definition GENERATE_ATTEMPTS :: nat where "GENERATE_ATTEMPTS = 8"

datatype id_record = IVacant | IValid bytes | IDamagedRec

definition id_tag_of :: "(bytes \<Rightarrow> bytes) \<Rightarrow> bytes \<Rightarrow> bytes" where
  "id_tag_of H secret = take TAG_LEN (H (ID_DOMAIN @ secret))"

text \<open>The derived order on byte arrays is lexicographic.\<close>

fun bytes_less :: "bytes \<Rightarrow> bytes \<Rightarrow> bool" where
  "bytes_less (a # as) (b # bs) = (a < b \<or> (a = b \<and> bytes_less as bs))"
| "bytes_less [] (b # bs) = True"
| "bytes_less _ [] = False"

definition scalar_is_in_range :: "bytes \<Rightarrow> bool" where
  "scalar_is_in_range secret \<longleftrightarrow>
     secret \<noteq> replicate SECRET_LEN 0 \<and> bytes_less secret SECP256K1_ORDER"

definition id_classify :: "(bytes \<Rightarrow> bytes) \<Rightarrow> bytes \<Rightarrow> id_record" where
  "id_classify H record =
     (let secret = window record 0 SECRET_LEN;
          tag = window record SECRET_LEN TAG_LEN;
          commit_word = of_le (window record BODY_LEN TAG_LEN);
          committed = (commit_word = ID_MAGIC);
          ours = (commit_word div 2 ^ 32 = MAGIC_DOMAIN);
          body_intact = (id_tag_of H secret = tag) in
      if committed \<and> body_intact \<and> scalar_is_in_range secret then IValid secret
      else if committed then IDamagedRec
      else if body_intact then IDamagedRec
      else if ours then IDamagedRec
      else IVacant)"

definition id_encode :: "(bytes \<Rightarrow> bytes) \<Rightarrow> bytes \<Rightarrow> bytes" where
  "id_encode H secret = secret @ id_tag_of H secret @ le_bytes 8 ID_MAGIC"

text \<open>Rejection sampling: at most \<open>GENERATE_ATTEMPTS\<close> draws, the first in range wins.\<close>

fun id_generate :: "(nat \<Rightarrow> 'r \<Rightarrow> bytes \<times> 'r) \<Rightarrow> nat \<Rightarrow> 'r \<Rightarrow> bytes option \<times> 'r" where
  "id_generate fill 0 r = (None, r)"
| "id_generate fill (Suc n) r =
     (case fill SECRET_LEN r of (secret, r') \<Rightarrow>
        if scalar_is_in_range secret then (Some secret, r') else id_generate fill n r')"

definition id_persist ::
  "'s nor_ops \<Rightarrow> (bytes \<Rightarrow> bytes) \<Rightarrow> bytes \<Rightarrow> 's \<Rightarrow> (identity_fault + bytes) \<times> 's" where
  "id_persist F H secret s =
     (case nf_erase F FS_IDENTITY_OFFSET (FS_IDENTITY_OFFSET + FS_IDENTITY_LEN) s of
        (Inl e, s1) \<Rightarrow> (Inl (IFlash (kind e)), s1)
      | (Inr _, s1) \<Rightarrow>
         (case nf_write F FS_IDENTITY_OFFSET (take BODY_LEN (id_encode H secret)) s1 of
            (Inl e, s2) \<Rightarrow> (Inl (IFlash (kind e)), s2)
          | (Inr _, s2) \<Rightarrow>
             (case nf_write F (FS_IDENTITY_OFFSET + BODY_LEN) (drop BODY_LEN (id_encode H secret)) s2 of
                (Inl e, s3) \<Rightarrow> (Inl (IFlash (kind e)), s3)
              | (Inr _, s3) \<Rightarrow>
                 (case nf_read F s3 FS_IDENTITY_OFFSET ID_RECORD_LEN of
                    Inl e \<Rightarrow> (Inl (IFlash (kind e)), s3)
                  | Inr back \<Rightarrow>
                     (case id_classify H back of
                        IValid persisted \<Rightarrow>
                          if persisted = secret then (Inr persisted, s3) else (Inl IVerifyFailed, s3)
                      | _ \<Rightarrow> (Inl IVerifyFailed, s3))))))"

definition load_or_create ::
  "'s nor_ops \<Rightarrow> (bytes \<Rightarrow> bytes) \<Rightarrow> (nat \<Rightarrow> 'r \<Rightarrow> bytes \<times> 'r) \<Rightarrow> 's \<Rightarrow> 'r \<Rightarrow>
     (identity_fault + bytes) \<times> 's \<times> 'r" where
  "load_or_create F H fill s r =
     (case nf_read F s FS_IDENTITY_OFFSET ID_RECORD_LEN of
        Inl e \<Rightarrow> (Inl (IFlash (kind e)), s, r)
      | Inr buf \<Rightarrow>
         (case id_classify H buf of
            IValid secret \<Rightarrow> (Inr secret, s, r)
          | IDamagedRec \<Rightarrow> (Inl IDamaged, s, r)
          | IVacant \<Rightarrow>
             (case id_generate fill GENERATE_ATTEMPTS r of
                (None, r') \<Rightarrow> (Inl INoScalar, s, r')
              | (Some secret, r') \<Rightarrow>
                 (case id_persist F H secret s of (res, s') \<Rightarrow> (res, s', r')))))"

subsection \<open>Lexicographic is numeric\<close>

primrec of_be :: "bytes \<Rightarrow> nat" where
  "of_be [] = 0"
| "of_be (b # bs) = unat b * 256 ^ length bs + of_be bs"

lemma of_be_bound: "of_be bs < 256 ^ length bs"
proof (induction bs)
  case (Cons b bs)
  have "unat b < 256" using unsigned_less[of b] by simp
  then have "unat b * 256 ^ length bs + 256 ^ length bs \<le> 256 * 256 ^ length bs"
    by (metis Suc_leI add.commute mult_Suc mult_le_mono1)
  moreover have "of_be bs < 256 ^ length bs" by (rule Cons)
  ultimately have "unat b * 256 ^ length bs + of_be bs < 256 * 256 ^ length bs" by linarith
  then show ?case by simp
qed simp

lemma bytes_less_of_be:
  "length xs = length ys \<Longrightarrow> bytes_less xs ys \<longleftrightarrow> of_be xs < of_be ys"
proof (induction xs ys rule: bytes_less.induct)
  case (1 a as b bs)
  then have l: "length as = length bs" by simp
  have x: "of_be as < 256 ^ length bs" and y: "of_be bs < 256 ^ length bs"
    using of_be_bound[of as] of_be_bound[of bs] l by simp_all
  consider "unat a < unat b" | "unat a = unat b" | "unat b < unat a" by linarith
  then show ?case
  proof cases
    case 1
    then have "unat a * 256 ^ length bs + 256 ^ length bs \<le> unat b * 256 ^ length bs"
      by (metis Suc_leI add.commute mult_Suc mult_le_mono1)
    then have "of_be (a # as) < of_be (b # bs)" using x l by simp
    moreover have "a < b" using 1 by (simp add: word_less_nat_alt)
    ultimately show ?thesis by simp
  next
    case 2
    then have "a = b" by (simp add: word_eq_iff_unsigned [where ?'a = nat])
    then show ?thesis using l "1.IH" by simp
  next
    case 3
    then have "unat b * 256 ^ length bs + 256 ^ length bs \<le> unat a * 256 ^ length bs"
      by (metis Suc_leI add.commute mult_Suc mult_le_mono1)
    then have "\<not> of_be (a # as) < of_be (b # bs)" using y l by simp
    moreover have "\<not> a < b" "a \<noteq> b" using 3 by (auto simp: word_less_nat_alt)
    ultimately show ?thesis by simp
  qed
qed auto

lemma of_be_zero: "of_be bs = 0 \<longleftrightarrow> bs = replicate (length bs) 0"
  by (induction bs) (auto simp: unat_eq_zero)

lemma scalar_range_numeric:
  assumes "length secret = 32"
  shows "scalar_is_in_range secret \<longleftrightarrow> 0 < of_be secret \<and> of_be secret < of_be SECP256K1_ORDER"
  using bytes_less_of_be[of secret SECP256K1_ORDER] of_be_zero[of secret] assms
  by (auto simp: scalar_is_in_range_def SECP256K1_ORDER_def SECRET_LEN_def)

lemma order_value:
  "of_be SECP256K1_ORDER = 0xFFFFFFFFFFFFFFFFFFFFFFFFFFFFFFFEBAAEDCE6AF48A03BBFD25E8CD0364141"
  by (simp add: SECP256K1_ORDER_def)


subsection \<open>Classification of what a write leaves\<close>

definition hash_ok :: "(bytes \<Rightarrow> bytes) \<Rightarrow> bool" where
  "hash_ok H \<longleftrightarrow> (\<forall>x. length (H x) = 32)"

lemma id_tag_length: "hash_ok H \<Longrightarrow> length (id_tag_of H x) = 8"
  by (simp add: hash_ok_def id_tag_of_def TAG_LEN_def)

lemma magic_bytes: "of_le (le_bytes 8 ID_MAGIC) = ID_MAGIC"
  by (rule of_le_bytes) (simp add: ID_MAGIC_def)

lemma id_encode_length: "hash_ok H \<Longrightarrow> length secret = 32 \<Longrightarrow> length (id_encode H secret) = 48"
  by (simp add: id_encode_def id_tag_length)

lemma id_classify_encode:
  assumes "hash_ok H" "length secret = 32" "scalar_is_in_range secret"
  shows "id_classify H (id_encode H secret) = IValid secret"
  using assms id_tag_length[OF assms(1), of secret]
  by (simp add: id_classify_def id_encode_def id_lens window_append_right window_append_left
      magic_bytes window_def Let_def)

text \<open>The record after \<open>n\<close> doublewords of the body program, nothing else written.\<close>

definition id_torn :: "(bytes \<Rightarrow> bytes) \<Rightarrow> bytes \<Rightarrow> nat \<Rightarrow> bytes" where
  "id_torn H secret n =
     take (8 * n) (take BODY_LEN (id_encode H secret)) @ replicate (48 - min (8 * n) BODY_LEN) ff"

lemma ff8_not_ours: "of_le (replicate 8 ff) div 2 ^ 32 \<noteq> MAGIC_DOMAIN"
    "of_le (replicate 8 ff) \<noteq> ID_MAGIC"
proof -
  have "of_le (replicate 8 ff) = 256 ^ 8 - 1" using of_le_replicate_ff[of 8] by simp
  then show "of_le (replicate 8 ff) div 2 ^ 32 \<noteq> MAGIC_DOMAIN" "of_le (replicate 8 ff) \<noteq> ID_MAGIC"
    by (simp_all add: MAGIC_DOMAIN_def ID_MAGIC_def)
qed

lemma id_classify_torn:
  assumes "hash_ok H" "length secret = 32" "n < 5"
    and "id_tag_of H (window (id_torn H secret n) 0 32) \<noteq> replicate 8 ff"
  shows "id_classify H (id_torn H secret n) = IVacant"
proof -
  let ?r = "id_torn H secret n"
  have n: "8 * n \<le> 32" using assms(3) by simp
  have r: "?r = take (8 * n) secret @ replicate (48 - 8 * n) ff"
    using assms(2) n by (simp add: id_torn_def id_encode_def id_lens min_def)
  have "window ?r 40 8 = replicate 8 ff" and "window ?r 32 8 = replicate 8 ff"
    unfolding r using assms(2) n by (simp_all add: window_append_right window_replicate)
  then show ?thesis
    using assms(4) ff8_not_ours by (auto simp: id_classify_def id_lens Let_def)
qed

lemma id_classify_uncommitted:
  assumes "hash_ok H" "length secret = 32"
  shows "id_classify H (id_torn H secret 5) = IDamagedRec"
proof -
  let ?r = "id_torn H secret 5"
  have t: "length (id_tag_of H secret) = 8" using id_tag_length[OF assms(1)] .
  have r: "?r = secret @ id_tag_of H secret @ replicate 8 ff"
    using assms(2) t by (simp add: id_torn_def id_encode_def id_lens)
  have "window ?r 40 8 = replicate 8 ff" "window ?r 32 8 = id_tag_of H secret" "window ?r 0 32 = secret"
    unfolding r using assms(2) t
    by (simp_all add: window_append_right window_append_left window_replicate window_def)
  then show ?thesis
    using ff8_not_ours by (auto simp: id_classify_def id_lens Let_def)
qed

subsection \<open>Generation\<close>

fun id_draws :: "(nat \<Rightarrow> 'r \<Rightarrow> bytes \<times> 'r) \<Rightarrow> nat \<Rightarrow> 'r \<Rightarrow> bytes list" where
  "id_draws fill 0 r = []"
| "id_draws fill (Suc n) r = (case fill SECRET_LEN r of (x, r') \<Rightarrow> x # id_draws fill n r')"

lemma id_generate_first:
  "fst (id_generate fill n r) = List.find scalar_is_in_range (id_draws fill n r)"
  by (induction n arbitrary: r) (auto split: prod.splits)

lemma id_generate_range: "id_generate fill n r = (Some x, r') \<Longrightarrow> scalar_is_in_range x"
  using id_generate_first[of fill n r] find_Some_mem[of scalar_is_in_range "id_draws fill n r" x] by simp

lemma id_classify_valid:
  "id_classify H rec = IValid x \<Longrightarrow> scalar_is_in_range x \<and> x = window rec 0 SECRET_LEN"
  by (auto simp: id_classify_def Let_def split: if_splits)

subsection \<open>Load or create\<close>

lemma load_or_create_held:
  assumes "nf_read F s FS_IDENTITY_OFFSET ID_RECORD_LEN = Inr buf" "id_classify H buf \<noteq> IVacant"
  shows "load_or_create F H fill s r =
    (case id_classify H buf of IValid x \<Rightarrow> Inr x | _ \<Rightarrow> Inl IDamaged, s, r)"
  using assms by (auto simp: load_or_create_def split: id_record.splits)

lemma load_or_create_read_fault:
  "nf_read F s FS_IDENTITY_OFFSET ID_RECORD_LEN = Inl e \<Longrightarrow>
   load_or_create F H fill s r = (Inl (IFlash (kind e)), s, r)"
  by (simp add: load_or_create_def)

text \<open>An identity that was handed out is the one on flash, and the next boot gets it back.\<close>

lemma id_persist_ok:
  assumes "id_persist F H secret s = (Inr x, s')"
  shows "x = secret \<and> (\<exists>back. nf_read F s' FS_IDENTITY_OFFSET ID_RECORD_LEN = Inr back \<and>
    id_classify H back = IValid x)"
  using assms by (auto simp: id_persist_def split: sum.splits prod.splits id_record.splits if_splits)

lemma load_or_create_durable:
  assumes "load_or_create F H fill s r = (Inr x, s', r')"
  shows "load_or_create F H fill' s' r2 = (Inr x, s', r2) \<and> scalar_is_in_range x"
proof -
  obtain buf where b: "nf_read F s FS_IDENTITY_OFFSET ID_RECORD_LEN = Inr buf"
    using assms by (auto simp: load_or_create_def split: sum.splits)
  have "\<exists>back. nf_read F s' FS_IDENTITY_OFFSET ID_RECORD_LEN = Inr back \<and> id_classify H back = IValid x"
    using assms b id_persist_ok[of F H _ s x s']
    by (auto simp: load_or_create_def split: id_record.splits prod.splits option.splits)
  then show ?thesis
    using id_classify_valid by (auto simp: load_or_create_def)
qed

text \<open>Flash outside the identity region is never touched.\<close>

context nor_flash
begin

lemma id_persist_frame:
  assumes "id_persist F H secret s = (res, s')" "FS_IDENTITY_LEN \<le> length (mem s)"
    "length (id_encode H secret) = 48"
  shows "length (mem s') = length (mem s) \<and>
    (\<forall>i < length (mem s). FS_IDENTITY_LEN \<le> i \<longrightarrow> mem s' ! i = mem s ! i)"
proof -
  let ?a = "take BODY_LEN (id_encode H secret)" and ?b = "drop BODY_LEN (id_encode H secret)"
  obtain r1 s1 where e: "nf_erase F FS_IDENTITY_OFFSET (FS_IDENTITY_OFFSET + FS_IDENTITY_LEN) s = (r1, s1)"
    by fastforce
  obtain r2 s2 where w: "nf_write F FS_IDENTITY_OFFSET ?a s1 = (r2, s2)" by fastforce
  obtain r3 s3 where c: "nf_write F (FS_IDENTITY_OFFSET + BODY_LEN) ?b s2 = (r3, s3)" by fastforce
  have s': "s' = s1 \<or> s' = s2 \<or> s' = s3"
    using assms(1) e w c by (auto simp: id_persist_def split: sum.splits id_record.splits if_splits)
  note len = erase_length[of FS_IDENTITY_OFFSET "FS_IDENTITY_OFFSET + FS_IDENTITY_LEN" s]
    write_length[of FS_IDENTITY_OFFSET ?a s1] write_length[of "FS_IDENTITY_OFFSET + BODY_LEN" ?b s2]
  have l: "length (mem s1) = length (mem s)" "length (mem s2) = length (mem s)"
    "length (mem s3) = length (mem s)" using len e w c by simp_all
  have f: "mem s1 ! i = mem s ! i \<and> mem s2 ! i = mem s ! i \<and> mem s3 ! i = mem s ! i"
    if "i < length (mem s)" "FS_IDENTITY_LEN \<le> i" for i
    using that l e w c assms(3)
      erase_frame[of i s FS_IDENTITY_OFFSET "FS_IDENTITY_OFFSET + FS_IDENTITY_LEN"]
      write_frame[of i s1 FS_IDENTITY_OFFSET ?a] write_frame[of i s2 "FS_IDENTITY_OFFSET + BODY_LEN" ?b]
    by (simp add: id_lens FS_IDENTITY_OFFSET_def FS_IDENTITY_LEN_def)
  show ?thesis using s' l f by auto
qed

end

subsection \<open>Creation on a healthy chip\<close>

lemma id_persist_fake:
  assumes "FS_IDENTITY_LEN \<le> length (cells s)" "refuse_programs_from s = None" "refuse_erases_from s = None"
    and "hash_ok H" "length secret = 32" "scalar_is_in_range secret"
  shows "\<exists>s'. id_persist fake_ops H secret s = (Inr secret, s')"
proof -
  let ?e = "id_encode H secret"
  have le: "length ?e = 48" using id_encode_length[OF assms(4,5)] .
  have big: "8192 \<le> length (cells s)" using assms(1) by (simp add: FS_IDENTITY_LEN_def)
  define s1 where "s1 = s\<lparr>cells := patch (cells s) 0 (replicate 8192 ff),
    erases := u32_sat_add (erases s) (8192 div ERASE_SIZE)\<rparr>"
  have e: "fake_erase 0 8192 s = (Inr (), s1)"
  proof -
    have "check_bounds 0 8192 ERASE_SIZE = Inr ()"
      by (simp add: check_bounds_ok_iff ERASE_SIZE_def FLASH_FS_LEN_def)
    then show ?thesis using big assms(3) by (simp add: fake_erase_def checked_sub_def scheduled_def s1_def)
  qed
  have c1: "window (cells s1) a n = replicate n ff" if "a + n \<le> 8192" for a n
    using window_patch_inner[of 0 "replicate 8192 ff" "cells s" a n] that big
    by (simp add: s1_def window_replicate)
  define s2 where "s2 = s1\<lparr>cells := patch (cells s1) 0 (take 40 ?e),
    programs := u32_sat_add (programs s1) 5\<rparr>"
  have l1: "length (cells s1) = length (cells s)" using big by (simp add: s1_def)
  have w1: "fake_write 0 (take 40 ?e) s1 = (Inr (), s2)"
    using fake_write_blank[of s1 0 "take 40 ?e"] c1[of 0 40] le big l1 assms(2)
    by (simp add: FLASH_FS_LEN_def scheduled_def s2_def) (simp add: s1_def)
  have l2: "length (cells s2) = length (cells s)" using big le l1 by (simp add: s2_def)
  have c2: "window (cells s2) 40 8 = replicate 8 ff"
    using window_patch_other[of 0 "take 40 ?e" "cells s1" 40 8] c1[of 40 8] le big l1 by (simp add: s2_def)
  define s3 where "s3 = s2\<lparr>cells := patch (cells s2) 40 (drop 40 ?e),
    programs := u32_sat_add (programs s2) 1\<rparr>"
  have w2: "fake_write 40 (drop 40 ?e) s2 = (Inr (), s3)"
    using fake_write_blank[of s2 40 "drop 40 ?e"] c2 le big l2 assms(2)
    by (simp add: FLASH_FS_LEN_def scheduled_def s3_def) (simp add: s2_def s1_def)
  have "window (cells s3) 0 40 = take 40 ?e"
    using window_patch_other[of 40 "drop 40 ?e" "cells s2" 0 40]
      window_patch_same[of 0 "take 40 ?e" "cells s1"] le big l1 l2 by (simp add: s3_def s2_def)
  moreover have "window (cells s3) 40 8 = drop 40 ?e"
    using window_patch_same[of 40 "drop 40 ?e" "cells s2"] le big l2 by (simp add: s3_def)
  ultimately have "window (cells s3) 0 48 = ?e"
    using window_concat[of "cells s3" 0 40 8] by simp
  moreover have "length (cells s3) = length (cells s)" using l2 le big by (simp add: s3_def)
  ultimately have "fake_read s3 0 48 = Inr ?e" using big by (simp add: fake_read_def)
  then show ?thesis
    using e w1 w2 id_classify_encode[OF assms(4-6)]
    by (simp add: id_persist_def FS_IDENTITY_OFFSET_def FS_IDENTITY_LEN_def BODY_LEN_def
        SECRET_LEN_def TAG_LEN_def ID_RECORD_LEN_def)
qed

lemma load_or_create_fake:
  assumes "FS_IDENTITY_LEN \<le> length (cells s)" "refuse_programs_from s = None" "refuse_erases_from s = None"
    and "hash_ok H" "nf_read fake_ops s FS_IDENTITY_OFFSET ID_RECORD_LEN = Inr buf" "id_classify H buf = IVacant"
    and "id_generate fill GENERATE_ATTEMPTS r = (Some secret, r')" "length secret = 32"
  shows "\<exists>s'. load_or_create fake_ops H fill s r = (Inr secret, s', r')"
  using id_persist_fake[OF assms(1-4,8) id_generate_range[OF assms(7)]] assms(5-7)
  by (auto simp: load_or_create_def)

end
