(* ===== verification/Signer.thy ===== *)
theory Signer
  imports Prelude
begin

text \<open>
  The part of \<open>frostsnap_core/src/device.rs\<close>, \<open>device/keys.rs\<close> and
  \<open>device/restoration.rs\<close> that keeps the device's key material: the keys it holds, the
  physical backups it has been given, and the queue of mutations waiting to be persisted.
  Group elements, scalars and ciphertexts are opaque values; the map from a share backup to
  its image (a curve multiplication) is a parameter.
\<close>

subsection \<open>Data\<close>

type_synonym key_id = bytes
type_synonym access_structure_id = bytes
type_synonym network = string

record access_structure_ref =
  ar_key_id :: key_id
  ar_access_structure_id :: access_structure_id

record share_image =
  si_index :: nat
  si_image :: bytes

record ciphertext =
  ct_data :: bytes
  ct_nonce :: bytes
  ct_tag :: bytes

record encrypted_secret_share =
  es_share_image :: share_image
  es_ciphertext :: ciphertext

datatype key_purpose = PTest | PBitcoin network | PNostr

datatype access_structure_kind = Master

record share_backup =
  sb_index :: nat
  sb_share :: bytes
  sb_poly_checksum :: nat

record saved_backup =
  sv_share_backup :: share_backup
  sv_threshold :: nat
  sv_purpose :: key_purpose
  sv_key_name :: bytes

record saved_backup2 =
  sv2_share_backup :: share_backup
  sv2_threshold :: "nat option"
  sv2_purpose :: "key_purpose option"
  sv2_key_name :: "bytes option"

record save_share_mutation =
  ss_access_structure_ref :: access_structure_ref
  ss_encrypted_secret_share :: encrypted_secret_share

datatype key_mutation =
    NewKey key_id bytes key_purpose
  | NewAccessStructure access_structure_ref nat access_structure_kind
  | SaveShare save_share_mutation

datatype restoration_mutation =
    Save saved_backup
  | UnSave share_image
  | Save2 saved_backup2

datatype mutation = Keygen key_mutation | Restoration restoration_mutation

record access_structure_data =
  asd_kind :: access_structure_kind
  asd_threshold :: nat
  asd_shares :: "nat \<rightharpoonup> encrypted_secret_share"

record key_data =
  kd_access_structures :: "access_structure_id \<rightharpoonup> access_structure_data"
  kd_purpose :: key_purpose
  kd_key_name :: bytes
  kd_verified :: bool

record restoration_state =
  tmp_loaded_backups :: "share_image \<rightharpoonup> share_backup"
  saved_backups :: "share_image \<rightharpoonup> saved_backup2"

record signer =
  sg_keys :: "key_id \<rightharpoonup> key_data"
  sg_mutations :: "mutation list"
  sg_restoration :: restoration_state

definition signer_new :: signer where
  "signer_new = \<lparr>sg_keys = Map.empty, sg_mutations = [],
     sg_restoration = \<lparr>tmp_loaded_backups = Map.empty, saved_backups = Map.empty\<rparr>\<rparr>"

subsection \<open>Mutations\<close>

definition from_saved_backup :: "saved_backup \<Rightarrow> saved_backup2" where
  "from_saved_backup legacy =
     \<lparr>sv2_share_backup = sv_share_backup legacy,
      sv2_threshold = Some (sv_threshold legacy),
      sv2_purpose = Some (sv_purpose legacy),
      sv2_key_name = Some (sv_key_name legacy)\<rparr>"

definition save2 ::
  "(share_backup \<Rightarrow> share_image) \<Rightarrow> saved_backup2 \<Rightarrow> restoration_state \<Rightarrow> restoration_state" where
  "save2 img_of b st =
     st\<lparr>saved_backups := (saved_backups st)(img_of (sv2_share_backup b) \<mapsto> b)\<rparr>"

fun apply_mutation_restoration ::
  "(share_backup \<Rightarrow> share_image) \<Rightarrow> restoration_mutation \<Rightarrow> restoration_state \<Rightarrow>
     restoration_mutation option \<times> restoration_state" where
  "apply_mutation_restoration img_of (Save legacy) st =
     (let b = from_saved_backup legacy in (Some (Save2 b), save2 img_of b st))"
| "apply_mutation_restoration img_of (UnSave img) st = (Some (UnSave img), st)"
| "apply_mutation_restoration img_of (Save2 b) st = (Some (Save2 b), save2 img_of b st)"

definition remove_backups_with_share_image :: "share_image \<Rightarrow> restoration_state \<Rightarrow> restoration_state" where
  "remove_backups_with_share_image img st =
     st\<lparr>tmp_loaded_backups := (tmp_loaded_backups st)(img := None),
        saved_backups := (saved_backups st)(img := None)\<rparr>"

definition clear_tmp_data :: "restoration_state \<Rightarrow> restoration_state" where
  "clear_tmp_data st = st\<lparr>tmp_loaded_backups := Map.empty\<rparr>"

text \<open>\<open>entry(k).and_modify(f)\<close>, with no \<open>or_insert\<close>: an absent key stays absent.\<close>

definition and_modify :: "'k \<Rightarrow> ('v \<Rightarrow> 'v) \<Rightarrow> ('k \<rightharpoonup> 'v) \<Rightarrow> 'k \<rightharpoonup> 'v" where
  "and_modify k f m = (case m k of None \<Rightarrow> m | Some v \<Rightarrow> m(k \<mapsto> f v))"

fun apply_key_mutation :: "key_mutation \<Rightarrow> signer \<Rightarrow> signer" where
  "apply_key_mutation (NewKey kid name purpose) sg =
     sg\<lparr>sg_keys := (sg_keys sg)(kid \<mapsto>
        \<lparr>kd_access_structures = Map.empty, kd_purpose = purpose, kd_key_name = name,
         kd_verified = False\<rparr>)\<rparr>"
| "apply_key_mutation (NewAccessStructure r threshold kind) sg =
     sg\<lparr>sg_keys := and_modify (ar_key_id r)
        (\<lambda>kd. kd\<lparr>kd_access_structures := (kd_access_structures kd)(ar_access_structure_id r \<mapsto>
           \<lparr>asd_kind = kind, asd_threshold = threshold, asd_shares = Map.empty\<rparr>)\<rparr>)
        (sg_keys sg)\<rparr>"
| "apply_key_mutation (SaveShare m) sg =
     (let r = ss_access_structure_ref m; e = ss_encrypted_secret_share m in
      sg\<lparr>sg_keys := and_modify (ar_key_id r)
           (\<lambda>kd. kd\<lparr>kd_access_structures := and_modify (ar_access_structure_id r)
              (\<lambda>asd. asd\<lparr>asd_shares := (asd_shares asd)(si_index (es_share_image e) \<mapsto> e)\<rparr>)
              (kd_access_structures kd)\<rparr>)
           (sg_keys sg),
         sg_restoration := remove_backups_with_share_image (es_share_image e) (sg_restoration sg)\<rparr>)"

definition apply_mutation ::
  "(share_backup \<Rightarrow> share_image) \<Rightarrow> mutation \<Rightarrow> signer \<Rightarrow> mutation option \<times> signer" where
  "apply_mutation img_of m sg =
     (case m of
        Keygen k \<Rightarrow> (Some (Keygen k), apply_key_mutation k sg)
      | Restoration r \<Rightarrow>
         (case apply_mutation_restoration img_of r (sg_restoration sg) of
            (r', st) \<Rightarrow> (map_option Restoration r', sg\<lparr>sg_restoration := st\<rparr>)))"

definition mutate :: "(share_backup \<Rightarrow> share_image) \<Rightarrow> mutation \<Rightarrow> signer \<Rightarrow> signer" where
  "mutate img_of m sg =
     (case apply_mutation img_of m sg of
        (None, sg') \<Rightarrow> sg'
      | (Some m', sg') \<Rightarrow> sg'\<lparr>sg_mutations := sg_mutations sg' @ [m']\<rparr>)"

record keygen_phase4 =
  k4_key_name :: bytes
  k4_key_purpose :: key_purpose
  k4_access_structure_ref :: access_structure_ref
  k4_access_structure_kind :: access_structure_kind
  k4_threshold :: nat
  k4_encrypted_secret_share :: encrypted_secret_share

definition keygen_triple :: "keygen_phase4 \<Rightarrow> mutation list" where
  "keygen_triple ph =
     [Keygen (NewKey (ar_key_id (k4_access_structure_ref ph)) (k4_key_name ph) (k4_key_purpose ph)),
      Keygen (NewAccessStructure (k4_access_structure_ref ph) (k4_threshold ph)
                (k4_access_structure_kind ph)),
      Keygen (SaveShare \<lparr>ss_access_structure_ref = k4_access_structure_ref ph,
                         ss_encrypted_secret_share = k4_encrypted_secret_share ph\<rparr>)]"

definition save_complete_share ::
  "(share_backup \<Rightarrow> share_image) \<Rightarrow> keygen_phase4 \<Rightarrow> signer \<Rightarrow> signer" where
  "save_complete_share img_of ph sg = fold (mutate img_of) (keygen_triple ph) sg"

definition get_encrypted_share ::
  "access_structure_ref \<Rightarrow> nat \<Rightarrow> signer \<Rightarrow> encrypted_secret_share option" where
  "get_encrypted_share r index sg =
     (case sg_keys sg (ar_key_id r) of
        None \<Rightarrow> None
      | Some kd \<Rightarrow>
         (case kd_access_structures kd (ar_access_structure_id r) of
            None \<Rightarrow> None
          | Some asd \<Rightarrow> asd_shares asd index))"

definition wallet_network :: "key_id \<Rightarrow> signer \<Rightarrow> network option" where
  "wallet_network kid sg =
     (case sg_keys sg kid of
        None \<Rightarrow> None
      | Some kd \<Rightarrow> (case kd_purpose kd of PBitcoin n \<Rightarrow> Some n | _ \<Rightarrow> None))"

text \<open>Replaying a stored list: each mutation applied, nothing staged.\<close>

definition replay :: "(share_backup \<Rightarrow> share_image) \<Rightarrow> mutation list \<Rightarrow> signer \<Rightarrow> signer" where
  "replay img_of ms sg = fold (\<lambda>m s. snd (apply_mutation img_of m s)) ms sg"

subsection \<open>Physical backups\<close>

definition load_backup_result ::
  "(share_backup \<Rightarrow> share_image) \<Rightarrow> share_backup \<Rightarrow> signer \<Rightarrow> share_image \<times> signer" where
  "load_backup_result img_of b sg =
     (let img = img_of b; st = sg_restoration sg in
      (img, sg\<lparr>sg_restoration := st\<lparr>tmp_loaded_backups := (tmp_loaded_backups st)(img \<mapsto> b)\<rparr>\<rparr>))"

text \<open>\<open>SavePhysicalBackup2\<close>; \<open>None\<close> is the refusal of an image nothing was loaded for.\<close>

definition save_physical_backup2 ::
  "(share_backup \<Rightarrow> share_image) \<Rightarrow> share_image \<Rightarrow> nat option \<Rightarrow> key_purpose option \<Rightarrow> bytes option \<Rightarrow>
     signer \<Rightarrow> signer option" where
  "save_physical_backup2 img_of img threshold purpose name sg =
     (let st = sg_restoration sg in
      case tmp_loaded_backups st img of
        None \<Rightarrow> None
      | Some b \<Rightarrow>
          Some (mutate img_of
            (Restoration (Save2 \<lparr>sv2_share_backup = b, sv2_threshold = threshold,
                                 sv2_purpose = purpose, sv2_key_name = name\<rparr>))
            (sg\<lparr>sg_restoration := st\<lparr>tmp_loaded_backups := (tmp_loaded_backups st)(img := None)\<rparr>\<rparr>)))"

text \<open>The lookup \<open>Consolidate\<close> makes: saved backups first, then the ones only loaded.\<close>

definition consolidation_backup :: "share_image \<Rightarrow> signer \<Rightarrow> share_backup option" where
  "consolidation_backup img sg =
     (case saved_backups (sg_restoration sg) img of
        Some b \<Rightarrow> Some (sv2_share_backup b)
      | None \<Rightarrow> tmp_loaded_backups (sg_restoration sg) img)"

subsection \<open>What the operations do\<close>

lemma apply_key_mutation_mutations [simp]: "sg_mutations (apply_key_mutation k sg) = sg_mutations sg"
  by (cases k) (simp_all add: Let_def)

lemma mutate_keygen [simp]:
  "mutate img_of (Keygen k) sg =
     (apply_key_mutation k sg)\<lparr>sg_mutations := sg_mutations sg @ [Keygen k]\<rparr>"
  by (simp add: mutate_def apply_mutation_def)

lemma apply_key_mutation_queue:
  "apply_key_mutation k (sg\<lparr>sg_mutations := q\<rparr>) = (apply_key_mutation k sg)\<lparr>sg_mutations := q\<rparr>"
  by (cases k) (simp_all add: Let_def)

text \<open>A keygen stages exactly the triple, in the order a replay needs.\<close>

lemma save_complete_share_replay:
  "save_complete_share img_of ph sg =
     (replay img_of (keygen_triple ph) sg)\<lparr>sg_mutations := sg_mutations sg @ keygen_triple ph\<rparr>"
  by (simp add: save_complete_share_def keygen_triple_def replay_def apply_mutation_def
      apply_key_mutation_queue del: apply_key_mutation.simps)

definition holds_share :: "keygen_phase4 \<Rightarrow> bytes \<Rightarrow> signer \<Rightarrow> bool" where
  "holds_share ph name sg \<longleftrightarrow>
     sg_keys sg (ar_key_id (k4_access_structure_ref ph)) = Some
       \<lparr>kd_access_structures = [ar_access_structure_id (k4_access_structure_ref ph) \<mapsto>
           \<lparr>asd_kind = k4_access_structure_kind ph, asd_threshold = k4_threshold ph,
            asd_shares = [si_index (es_share_image (k4_encrypted_secret_share ph)) \<mapsto>
                            k4_encrypted_secret_share ph]\<rparr>],
        kd_purpose = k4_key_purpose ph, kd_key_name = name, kd_verified = False\<rparr>"

lemma replay_triple:
  "holds_share ph (k4_key_name ph) (replay img_of (keygen_triple ph) sg)"
  by (simp add: replay_def keygen_triple_def apply_mutation_def and_modify_def Let_def holds_share_def)

lemma holds_share_get:
  "holds_share ph name sg \<Longrightarrow>
   get_encrypted_share (k4_access_structure_ref ph)
     (si_index (es_share_image (k4_encrypted_secret_share ph))) sg = Some (k4_encrypted_secret_share ph)"
  by (simp add: holds_share_def get_encrypted_share_def)

text \<open>The share mutation evicts the plaintext backup of the same share.\<close>

lemma replay_triple_evicts:
  "consolidation_backup (es_share_image (k4_encrypted_secret_share ph))
     (replay img_of (keygen_triple ph) sg) = None"
  by (simp add: replay_def keygen_triple_def apply_mutation_def Let_def consolidation_backup_def
      remove_backups_with_share_image_def)

text \<open>Out of order, the later two mutations of the triple change no key: the share is dropped.\<close>

lemma save_share_without_key:
  assumes "sg_keys sg (ar_key_id (ss_access_structure_ref m)) = None"
  shows "sg_keys (snd (apply_mutation img_of (Keygen (SaveShare m)) sg)) = sg_keys sg"
    and "sg_keys (snd (apply_mutation img_of
           (Keygen (NewAccessStructure (ss_access_structure_ref m) t k)) sg)) = sg_keys sg"
  using assms by (simp_all add: apply_mutation_def and_modify_def Let_def)

lemma load_then_save:
  assumes "load_backup_result img_of b sg = (img, sg1)"
  shows "\<exists>sg2. save_physical_backup2 img_of img t p n sg1 = Some sg2 \<and>
    consolidation_backup img sg2 = Some b \<and>
    tmp_loaded_backups (sg_restoration sg2) img = None \<and> sg_keys sg2 = sg_keys sg"
  using assms by (auto simp: load_backup_result_def save_physical_backup2_def Let_def mutate_def
      apply_mutation_def save2_def consolidation_backup_def)

end
