(* ===== verification/Utf8.thy ===== *)
theory Utf8
  imports Prelude
begin

text \<open>
  Rust's \<open>str\<close>: bytes that are well-formed UTF-8 (Unicode Table 3-7, the check
  \<open>core::str::from_utf8\<close> makes), split into characters. Truncation by character count
  and by byte budget are stated on the split.
\<close>

definition is_cont :: "u8 \<Rightarrow> bool" where
  "is_cont b \<longleftrightarrow> 0x80 \<le> b \<and> b \<le> 0xBF"

text \<open>The length of the first character, if the bytes start with a well-formed one.\<close>

fun utf8_len :: "bytes \<Rightarrow> nat option" where
  "utf8_len [] = None"
| "utf8_len (a # bs) =
     (if a < 0x80 then Some 1
      else if 0xC2 \<le> a \<and> a \<le> 0xDF then
        (case bs of b # _ \<Rightarrow> if is_cont b then Some 2 else None | _ \<Rightarrow> None)
      else if 0xE0 \<le> a \<and> a \<le> 0xEF then
        (case bs of b # c # _ \<Rightarrow>
           if is_cont b \<and> is_cont c \<and> (a = 0xE0 \<longrightarrow> 0xA0 \<le> b) \<and> (a = 0xED \<longrightarrow> b \<le> 0x9F)
           then Some 3 else None
         | _ \<Rightarrow> None)
      else if 0xF0 \<le> a \<and> a \<le> 0xF4 then
        (case bs of b # c # d # _ \<Rightarrow>
           if is_cont b \<and> is_cont c \<and> is_cont d \<and> (a = 0xF0 \<longrightarrow> 0x90 \<le> b) \<and> (a = 0xF4 \<longrightarrow> b \<le> 0x8F)
           then Some 4 else None
         | _ \<Rightarrow> None)
      else None)"

lemma utf8_len_bounds: "utf8_len bs = Some n \<Longrightarrow> 0 < n \<and> n \<le> 4 \<and> n \<le> length bs"
  by (cases bs) (auto split: if_splits list.splits)

lemma utf8_len_prefix: "utf8_len bs = Some n \<Longrightarrow> utf8_len (take n bs @ cs) = Some n"
  by (cases bs) (auto split: if_splits list.splits)

declare utf8_len.simps(2) [simp del]

function (sequential) utf8_split :: "bytes \<Rightarrow> bytes list option" where
  "utf8_split [] = Some []"
| "utf8_split bs =
     (case utf8_len bs of
        None \<Rightarrow> None
      | Some n \<Rightarrow> map_option (Cons (take n bs)) (utf8_split (drop n bs)))"
  by pat_completeness auto
termination
  by (relation "measure length") (auto dest!: utf8_len_bounds)

declare utf8_split.simps(2) [simp del]

definition utf8_valid :: "bytes \<Rightarrow> bool" where
  "utf8_valid bs \<longleftrightarrow> utf8_split bs \<noteq> None"

lemma utf8_split_step:
  "bs \<noteq> [] \<Longrightarrow> utf8_split bs = (case utf8_len bs of None \<Rightarrow> None
     | Some n \<Rightarrow> map_option (Cons (take n bs)) (utf8_split (drop n bs)))"
  by (cases bs) (auto simp: utf8_split.simps(2) split: option.split)

text \<open>A character is a byte string that is its own first character.\<close>

definition utf8_char :: "bytes \<Rightarrow> bool" where
  "utf8_char c \<longleftrightarrow> utf8_len c = Some (length c)"

lemma utf8_split_concat:
  "\<forall>c \<in> set cs. utf8_char c \<Longrightarrow> utf8_split (concat cs) = Some cs"
proof (induction cs)
  case (Cons c cs)
  then have c: "utf8_len c = Some (length c)" by (simp add: utf8_char_def)
  then have "c \<noteq> []" by auto
  moreover have "utf8_len (c @ concat cs) = Some (length c)"
    using utf8_len_prefix[OF c, of "concat cs"] by simp
  ultimately show ?case using Cons by (simp add: utf8_split_step)
qed simp

lemma utf8_split_Some:
  "utf8_split bs = Some cs \<Longrightarrow> concat cs = bs \<and> (\<forall>c \<in> set cs. utf8_char c)"
proof (induction bs arbitrary: cs rule: length_induct)
  case (1 bs)
  show ?case
  proof (cases "bs = []")
    case False
    then obtain n ds where n: "utf8_len bs = Some n" and ds: "utf8_split (drop n bs) = Some ds"
      and cs: "cs = take n bs # ds"
      using "1.prems" by (auto simp: utf8_split_step split: option.splits)
    note b = utf8_len_bounds[OF n]
    then have "length (drop n bs) < length bs" using False by auto
    with "1.IH" ds have "concat ds = drop n bs \<and> (\<forall>c \<in> set ds. utf8_char c)" by blast
    moreover have "utf8_char (take n bs)"
      using utf8_len_prefix[OF n, of "[]"] b by (simp add: utf8_char_def)
    ultimately show ?thesis using cs by simp
  qed (use "1.prems" in simp)
qed

lemma utf8_char_length: "utf8_char c \<Longrightarrow> 0 < length c \<and> length c \<le> 4"
  using utf8_len_bounds by (auto simp: utf8_char_def)

lemma utf8_valid_concat: "\<forall>c \<in> set cs. utf8_char c \<Longrightarrow> utf8_valid (concat cs)"
  by (simp add: utf8_valid_def utf8_split_concat)

lemma concat_length_le: "\<forall>c \<in> set cs. length c \<le> 4 \<Longrightarrow> length (concat cs) \<le> 4 * length cs"
  by (induction cs) auto

subsection \<open>Truncation to a number of characters\<close>

text \<open>
  \<open>name.char_indices().nth(n)\<close> gives the byte offset of character \<open>n\<close>, or the
  length. A string that is not UTF-8 does not exist in Rust; it is returned as it is.
\<close>

definition char_cut :: "nat \<Rightarrow> bytes \<Rightarrow> nat" where
  "char_cut n name =
     (case utf8_split name of
        None \<Rightarrow> length name
      | Some cs \<Rightarrow> if n < length cs then length (concat (take n cs)) else length name)"

lemma take_char_cut:
  assumes "utf8_split name = Some cs"
  shows "take (char_cut n name) name = concat (take n cs)"
proof -
  have c: "concat cs = name" using utf8_split_Some[OF assms] by simp
  show ?thesis
  proof (cases "n < length cs")
    case True
    have "name = concat (take n cs) @ concat (drop n cs)"
      using c by (metis append_take_drop_id concat_append)
    then have "take (length (concat (take n cs))) name = concat (take n cs)"
      by (metis append_eq_conv_conj)
    then show ?thesis using True assms by (simp add: char_cut_def)
  qed (use assms c in \<open>simp add: char_cut_def\<close>)
qed

lemma char_cut_valid:
  assumes "utf8_valid name"
  shows "utf8_valid (take (char_cut n name) name)" "length (take (char_cut n name) name) \<le> 4 * n"
proof -
  obtain cs where cs: "utf8_split name = Some cs" using assms by (auto simp: utf8_valid_def)
  note ch = utf8_split_Some[OF cs]
  have "\<forall>c \<in> set (take n cs). utf8_char c" using ch by (auto dest: in_set_takeD)
  then show "utf8_valid (take (char_cut n name) name)"
    by (simp add: take_char_cut[OF cs] utf8_valid_concat)
  have "\<forall>c \<in> set (take n cs). length c \<le> 4" using ch utf8_char_length by (auto dest: in_set_takeD)
  from concat_length_le[OF this] show "length (take (char_cut n name) name) \<le> 4 * n"
    by (simp only: take_char_cut[OF cs]) (simp add: min_def split: if_splits)
qed

end
