(* ===== verification/Store.thy ===== *)
theory Store
  imports AbFake Identity Signer Utf8
begin

text \<open>
  \<open>firmware/src/store.rs\<close>: the keygen share on flash, one sealed 512-byte record in an
  \<open>AbSlot\<close>. The hash is the parameter of \<open>Identity\<close>; \<open>bincode\<close>'s encoding of
  the tuple \<open>(KeyPurpose, AccessStructureKind, EncryptedSecretShare)\<close> is a pair of
  parameters, an encoder and a decoder that also tells how many bytes it consumed.
\<close>

definition RECORD_LEN :: nat where "RECORD_LEN = 512"
definition MAGIC :: nat where "MAGIC = 0xC01D5EED5A1E0001"
definition DOMAIN :: bytes where "DOMAIN = ascii ''coldsnap-share-v1''"
definition MAGIC_LEN :: nat where "MAGIC_LEN = 8"
definition LEN_LEN :: nat where "LEN_LEN = 2"
definition HEADER_LEN :: nat where "HEADER_LEN = MAGIC_LEN + LEN_LEN"
definition CHECK_LEN :: nat where "CHECK_LEN = 8"
definition BODY_MAX :: nat where "BODY_MAX = RECORD_LEN - HEADER_LEN - CHECK_LEN"
definition KEY_NAME_MAX_CHARS :: nat where "KEY_NAME_MAX_CHARS = 15"
definition KEY_NAME_MAX_BYTES :: nat where "KEY_NAME_MAX_BYTES = KEY_NAME_MAX_CHARS * 4"
definition START_SECTOR :: nat where "START_SECTOR = FS_SHARE_OFFSET div SECTOR_SIZE"
definition N_SECTORS :: nat where "N_SECTORS = FS_SHARE_LEN div SECTOR_SIZE"
definition F_KEY_ID :: nat where "F_KEY_ID = 0"
definition F_ASID :: nat where "F_ASID = F_KEY_ID + 32"
definition F_THRESHOLD :: nat where "F_THRESHOLD = F_ASID + 32"
definition F_NAME_LEN :: nat where "F_NAME_LEN = F_THRESHOLD + 2"
definition F_NAME :: nat where "F_NAME = F_NAME_LEN + 1"
definition FIXED_LEN :: nat where "FIXED_LEN = F_NAME + KEY_NAME_MAX_BYTES"

lemmas store_lens = RECORD_LEN_def MAGIC_LEN_def LEN_LEN_def HEADER_LEN_def CHECK_LEN_def
  BODY_MAX_def KEY_NAME_MAX_CHARS_def KEY_NAME_MAX_BYTES_def F_KEY_ID_def F_ASID_def
  F_THRESHOLD_def F_NAME_LEN_def F_NAME_def FIXED_LEN_def

lemma store_nums:
  "RECORD_LEN = 512" "MAGIC_LEN = 8" "LEN_LEN = 2" "HEADER_LEN = 10" "CHECK_LEN = 8"
  "BODY_MAX = 494" "KEY_NAME_MAX_BYTES = 60" "F_KEY_ID = 0" "F_ASID = 32" "F_THRESHOLD = 64"
  "F_NAME_LEN = 66" "F_NAME = 67" "FIXED_LEN = 127"
  by (simp_all add: store_lens)

type_synonym coded = "key_purpose \<times> access_structure_kind \<times> encrypted_secret_share"

record share_body =
  b_key_id :: bytes
  b_access_structure_id :: bytes
  b_threshold :: nat
  b_name_len :: nat
  b_name :: bytes
  b_purpose :: key_purpose
  b_kind :: access_structure_kind
  b_share :: encrypted_secret_share

datatype store_fault = SFlash nor_kind | NotOneKeygen | TooBig

datatype held_share = SVacant | SDamaged | SShare share_body

subsection \<open>Building the record\<close>

definition tag_of :: "(bytes \<Rightarrow> bytes) \<Rightarrow> bytes \<Rightarrow> bytes" where
  "tag_of H bs = take CHECK_LEN (H (DOMAIN @ bs))"

definition truncate_name :: "bytes \<Rightarrow> bytes \<times> nat" where
  "truncate_name name =
     (let bs = take (char_cut KEY_NAME_MAX_CHARS name) name in
      (bs @ replicate (KEY_NAME_MAX_BYTES - length bs) 0, length bs mod 256))"

fun body_from :: "mutation list \<Rightarrow> store_fault + share_body" where
  "body_from [Keygen (NewKey kid key_name purpose),
              Keygen (NewAccessStructure r threshold knd), Keygen (SaveShare m)] =
     (if ar_key_id r = kid \<and> ss_access_structure_ref m = r
      then (case truncate_name key_name of (name, name_len) \<Rightarrow>
              Inr \<lparr>b_key_id = kid, b_access_structure_id = ar_access_structure_id r,
                   b_threshold = threshold, b_name_len = name_len, b_name = name,
                   b_purpose = purpose, b_kind = knd, b_share = ss_encrypted_secret_share m\<rparr>)
      else Inl NotOneKeygen)"
| "body_from _ = Inl NotOneKeygen"

definition coded_of :: "share_body \<Rightarrow> coded" where
  "coded_of b = (b_purpose b, b_kind b, b_share b)"

definition fixed_fields :: "share_body \<Rightarrow> bytes" where
  "fixed_fields b =
     b_key_id b @ b_access_structure_id b @ le_bytes 2 (b_threshold b) @ le_bytes 1 (b_name_len b) @
     b_name b"

definition seal ::
  "(bytes \<Rightarrow> bytes) \<Rightarrow> (coded \<Rightarrow> bytes) \<Rightarrow> share_body \<Rightarrow> store_fault + bytes" where
  "seal H cenc b =
     (let coded = cenc (coded_of b); written = FIXED_LEN + length coded in
      if BODY_MAX - FIXED_LEN < length coded then Inl TooBig
      else if 65536 \<le> written then Inl TooBig
      else (let front = le_bytes MAGIC_LEN MAGIC @ le_bytes LEN_LEN written @
                        fixed_fields b @ coded @ replicate (BODY_MAX - written) 0 in
            Inr (front @ tag_of H front)))"

definition unseal ::
  "(bytes \<Rightarrow> bytes) \<Rightarrow> (bytes \<Rightarrow> (coded \<times> nat) option) \<Rightarrow> bytes \<Rightarrow> held_share" where
  "unseal H cdec record =
     (if of_le (window record 0 MAGIC_LEN) \<noteq> MAGIC
      then (if list_all (\<lambda>b. b = ff) record then SVacant else SDamaged)
      else (let front = take (RECORD_LEN - CHECK_LEN) record;
                check = drop (RECORD_LEN - CHECK_LEN) record in
            if tag_of H front \<noteq> check then SDamaged
            else (let len = of_le (window record MAGIC_LEN LEN_LEN) in
                  if \<not> (FIXED_LEN \<le> len \<and> len \<le> BODY_MAX) then SDamaged
                  else (let body = window record HEADER_LEN len in
                        case cdec (drop FIXED_LEN body) of
                          None \<Rightarrow> SDamaged
                        | Some (coded, _) \<Rightarrow>
                           (let name_len = of_le (window body F_NAME_LEN 1) in
                            if KEY_NAME_MAX_BYTES < name_len \<or> \<not> utf8_valid (window body F_NAME name_len)
                            then SDamaged
                            else SShare
                              \<lparr>b_key_id = window body F_KEY_ID 32,
                               b_access_structure_id = window body F_ASID 32,
                               b_threshold = of_le (window body F_THRESHOLD 2),
                               b_name_len = name_len,
                               b_name = window body F_NAME KEY_NAME_MAX_BYTES,
                               b_purpose = fst coded, b_kind = fst (snd coded),
                               b_share = snd (snd coded)\<rparr>)))))"

text \<open>\<open>Reload::mutations\<close>.\<close>

definition reload_mutations :: "share_body \<Rightarrow> mutation list" where
  "reload_mutations b =
     (let r = \<lparr>ar_key_id = b_key_id b, ar_access_structure_id = b_access_structure_id b\<rparr>;
          raw = take (b_name_len b) (b_name b);
          key_name = (if utf8_valid raw then raw else []) in
      [Keygen (NewKey (ar_key_id r) key_name (b_purpose b)),
       Keygen (NewAccessStructure r (b_threshold b) (b_kind b)),
       Keygen (SaveShare \<lparr>ss_access_structure_ref = r, ss_encrypted_secret_share = b_share b\<rparr>)])"

subsection \<open>The store\<close>

definition share_partition :: partition where
  "share_partition = \<lparr>offset_sector = START_SECTOR, n_sectors = N_SECTORS\<rparr>"

definition store_open :: "ab_slot option" where
  "store_open = ab_new share_partition"

fun is_restoration :: "mutation \<Rightarrow> bool" where
  "is_restoration (Restoration _) = True"
| "is_restoration (Keygen _) = False"

definition persist_staged ::
  "'s nor_ops \<Rightarrow> (bytes \<Rightarrow> bytes) \<Rightarrow> (coded \<Rightarrow> bytes) \<Rightarrow> ab_slot \<Rightarrow> mutation list \<Rightarrow> 's \<Rightarrow>
     (store_fault + unit) \<times> mutation list \<times> 's" where
  "persist_staged F H cenc ab staged0 s =
     (let staged = filter (\<lambda>m. \<not> is_restoration m) staged0 in
      if staged = [] then (Inr (), staged, s)
      else (case body_from staged of
              Inl e \<Rightarrow> (Inl e, staged, s)
            | Inr body \<Rightarrow>
               (case seal H cenc body of
                  Inl e \<Rightarrow> (Inl e, staged, s)
                | Inr record \<Rightarrow>
                   (case ab_try_write F (array_codec RECORD_LEN) ab record s of
                      (Committed, s') \<Rightarrow> (Inr (), [], s')
                    | (CommittedSingleCopy _, s') \<Rightarrow> (Inr (), [], s')
                    | (NotCommitted e, s') \<Rightarrow> (Inl (SFlash e), staged, s')))))"

definition store_load ::
  "'s nor_ops \<Rightarrow> (bytes \<Rightarrow> bytes) \<Rightarrow> (bytes \<Rightarrow> (coded \<times> nat) option) \<Rightarrow> ab_slot \<Rightarrow> 's \<Rightarrow> held_share" where
  "store_load F H cdec ab s =
     (case ab_read F (array_codec RECORD_LEN) ab s of
        None \<Rightarrow> SVacant
      | Some record \<Rightarrow> unseal H cdec record)"

subsection \<open>The record round trip\<close>

definition body_ok :: "share_body \<Rightarrow> bool" where
  "body_ok b \<longleftrightarrow> length (b_key_id b) = 32 \<and> length (b_access_structure_id b) = 32 \<and>
     b_threshold b < 65536 \<and> length (b_name b) = 60 \<and> b_name_len b \<le> 60 \<and>
     utf8_valid (take (b_name_len b) (b_name b))"

text \<open>What the code relies on of \<open>bincode\<close>: a prefix decodes to what was encoded.\<close>

definition decodes :: "(coded \<Rightarrow> bytes) \<Rightarrow> (bytes \<Rightarrow> (coded \<times> nat) option) \<Rightarrow> coded \<Rightarrow> bool" where
  "decodes cenc cdec c \<longleftrightarrow> cdec (cenc c) = Some (c, length (cenc c))"

lemma tag_length: "hash_ok H \<Longrightarrow> length (tag_of H x) = 8"
  by (simp add: hash_ok_def tag_of_def CHECK_LEN_def)

lemma fixed_fields_length: "body_ok b \<Longrightarrow> length (fixed_fields b) = 127"
  by (simp add: body_ok_def fixed_fields_def)

lemma seal_Inr:
  assumes "seal H cenc b = Inr record" "body_ok b"
  obtains front where "record = front @ tag_of H front" "length front = 504"
    "front = le_bytes 8 MAGIC @ le_bytes 2 (127 + length (cenc (coded_of b))) @
       fixed_fields b @ cenc (coded_of b) @ replicate (367 - length (cenc (coded_of b))) 0"
    "length (cenc (coded_of b)) \<le> 367"
  using assms fixed_fields_length[OF assms(2)]
  by (auto simp: seal_def Let_def store_lens split: if_splits)

lemma seal_length: "hash_ok H \<Longrightarrow> body_ok b \<Longrightarrow> seal H cenc b = Inr record \<Longrightarrow> length record = 512"
  by (erule seal_Inr) (simp_all add: tag_length)

lemma share_magic: "of_le (le_bytes 8 MAGIC) = MAGIC"
  by (rule of_le_bytes) (simp add: MAGIC_def)

lemma fixed_fields_windows:
  assumes "body_ok b"
  shows "window (fixed_fields b @ x) 0 32 = b_key_id b"
    "window (fixed_fields b @ x) 32 32 = b_access_structure_id b"
    "window (fixed_fields b @ x) 64 2 = le_bytes 2 (b_threshold b)"
    "window (fixed_fields b @ x) 66 1 = le_bytes 1 (b_name_len b)"
    "n \<le> 60 \<Longrightarrow> window (fixed_fields b @ x) 67 n = take n (b_name b)"
  using assms by (auto simp: body_ok_def fixed_fields_def window_def)

theorem unseal_seal:
  assumes "hash_ok H" "body_ok b" "decodes cenc cdec (coded_of b)" "seal H cenc b = Inr record"
  shows "unseal H cdec record = SShare b"
proof -
  let ?c = "cenc (coded_of b)" and ?n = "127 + length (cenc (coded_of b))"
  obtain front where rc: "record = front @ tag_of H front" and lf: "length front = 504"
    and front: "front = le_bytes 8 MAGIC @ le_bytes 2 ?n @ fixed_fields b @ ?c @ replicate (367 - length ?c) 0"
    and c: "length ?c \<le> 367" by (rule seal_Inr[OF assms(4,2)])
  note ff = fixed_fields_length[OF assms(2)]
  note t = tag_length[OF assms(1), of front]
  have m: "window record 0 8 = le_bytes 8 MAGIC" by (simp add: rc front window_def)
  have l: "of_le (window record 8 2) = ?n"
    using c by (simp add: rc front window_def of_le_bytes)
  have body: "window record 10 ?n = fixed_fields b @ ?c"
    using ff by (simp add: rc front window_def)
  have tl: "of_le (le_bytes 2 (b_threshold b)) = b_threshold b"
    "of_le (le_bytes 1 (b_name_len b)) = b_name_len b"
    using assms(2) by - (rule of_le_bytes, simp add: body_ok_def)+
  have nm: "b_name_len b \<le> 60" "length (b_name b) = 60" "utf8_valid (take (b_name_len b) (b_name b))"
    using assms(2) by (simp_all add: body_ok_def)
  have sp: "take 504 record = front" "drop 504 record = tag_of H front"
    using lf by (simp_all add: rc)
  have cd: "cdec (drop 127 (fixed_fields b @ ?c)) = Some (coded_of b, length ?c)"
    using assms(3) ff by (simp add: decodes_def)
  have len: "127 \<le> ?n \<and> ?n \<le> 494" using c by simp
  note fw = fixed_fields_windows[OF assms(2), where x = ?c]
  have nl: "of_le (window (fixed_fields b @ ?c) 66 1) = b_name_len b" unfolding fw(4) by (rule tl(2))
  have nb: "window (fixed_fields b @ ?c) 67 60 = b_name b" using fw(5)[where n = 60] nm by simp
  have nu: "utf8_valid (window (fixed_fields b @ ?c) 67 (b_name_len b))" using fw(5) nm by simp
  have e: "512 - 8 = (504::nat)" by simp
  have "unseal H cdec record = (if 60 < b_name_len b then SDamaged else SShare b)"
    unfolding unseal_def store_nums Let_def m l body e sp share_magic cd option.case prod.case nl
      fw(1,2,3) tl(1) nb using len nu by (simp add: coded_of_def)
  then show ?thesis using nm by simp
qed

text \<open>A record torn before its last doubleword never reads as a share.\<close>

theorem unseal_torn:
  assumes "length record = 512" "n \<le> 504"
    and "tag_of H (take n record @ replicate (504 - n) ff) \<noteq> replicate 8 ff"
  shows "unseal H cdec (take n record @ replicate (512 - n) ff) = SVacant \<or>
    unseal H cdec (take n record @ replicate (512 - n) ff) = SDamaged"
proof -
  let ?r = "take n record @ replicate (512 - n) ff"
  have "replicate (512 - n) ff = replicate (504 - n) ff @ replicate 8 ff"
    using assms(2) by (simp add: replicate_add[symmetric])
  then have r: "?r = (take n record @ replicate (504 - n) ff) @ replicate 8 ff" by simp
  have "take 504 ?r = take n record @ replicate (504 - n) ff" "drop 504 ?r = replicate 8 ff"
    unfolding r using assms(1,2) by (simp_all)
  then show ?thesis
    unfolding unseal_def store_nums Let_def using assms(3) by simp
qed

subsection \<open>Names and keygens\<close>

lemma truncate_name_valid:
  assumes "utf8_valid name" "truncate_name name = (bs, n)"
  shows "length bs = 60" "n \<le> 60" "take n bs = take (char_cut 15 name) name" "utf8_valid (take n bs)"
proof -
  let ?t = "take (char_cut 15 name) name"
  note c = char_cut_valid[OF assms(1), of 15]
  have n: "n = length ?t" and bs: "bs = ?t @ replicate (60 - length ?t) 0"
    using assms(2) c(2) by (auto simp: truncate_name_def store_nums KEY_NAME_MAX_CHARS_def Let_def)
  show "length bs = 60" "n \<le> 60" "take n bs = ?t" using c(2) by (auto simp: n bs min_def)
  then show "utf8_valid (take n bs)" using c(1) by simp
qed

definition keygen_ok :: "keygen_phase4 \<Rightarrow> bool" where
  "keygen_ok ph \<longleftrightarrow> length (ar_key_id (k4_access_structure_ref ph)) = 32 \<and>
     length (ar_access_structure_id (k4_access_structure_ref ph)) = 32 \<and>
     k4_threshold ph < 65536 \<and> utf8_valid (k4_key_name ph)"

definition short_name :: "keygen_phase4 \<Rightarrow> bytes" where
  "short_name ph = take (char_cut KEY_NAME_MAX_CHARS (k4_key_name ph)) (k4_key_name ph)"

definition body_of :: "keygen_phase4 \<Rightarrow> share_body" where
  "body_of ph = (case truncate_name (k4_key_name ph) of (name, name_len) \<Rightarrow>
     \<lparr>b_key_id = ar_key_id (k4_access_structure_ref ph),
      b_access_structure_id = ar_access_structure_id (k4_access_structure_ref ph),
      b_threshold = k4_threshold ph, b_name_len = name_len, b_name = name,
      b_purpose = k4_key_purpose ph, b_kind = k4_access_structure_kind ph,
      b_share = k4_encrypted_secret_share ph\<rparr>)"

lemma body_of_ok: "keygen_ok ph \<Longrightarrow> body_ok (body_of ph)"
  using truncate_name_valid[of "k4_key_name ph"]
  by (auto simp: body_of_def body_ok_def keygen_ok_def split: prod.split)

text \<open>\<open>body_from\<close> accepts exactly one complete keygen, in staging order.\<close>

lemma body_from_iff: "body_from ms = Inr b \<longleftrightarrow> (\<exists>ph. ms = keygen_triple ph \<and> b = body_of ph)"
proof
  assume "body_from ms = Inr b"
  then obtain kid name p r t k m where
    "ms = [Keygen (NewKey kid name p), Keygen (NewAccessStructure r t k), Keygen (SaveShare m)]"
    "ar_key_id r = kid" "ss_access_structure_ref m = r"
    "b = (case truncate_name name of (nm, nl) \<Rightarrow>
        \<lparr>b_key_id = kid, b_access_structure_id = ar_access_structure_id r, b_threshold = t,
         b_name_len = nl, b_name = nm, b_purpose = p, b_kind = k,
         b_share = ss_encrypted_secret_share m\<rparr>)"
    by (cases ms rule: body_from.cases) (auto split: if_splits prod.splits)
  then show "\<exists>ph. ms = keygen_triple ph \<and> b = body_of ph"
    by (intro exI[of _ "\<lparr>k4_key_name = name, k4_key_purpose = p, k4_access_structure_ref = r,
          k4_access_structure_kind = k, k4_threshold = t,
          k4_encrypted_secret_share = ss_encrypted_secret_share m\<rparr>"])
      (auto simp: keygen_triple_def body_of_def)
next
  assume "\<exists>ph. ms = keygen_triple ph \<and> b = body_of ph"
  then show "body_from ms = Inr b"
    by (auto simp: keygen_triple_def body_of_def split: prod.split)
qed

lemma body_from_triple [simp]: "body_from (keygen_triple ph) = Inr (body_of ph)"
  using body_from_iff by blast

text \<open>Reloading gives back the triple, its name cut to fifteen characters.\<close>

lemma reload_body_of:
  assumes "keygen_ok ph"
  shows "reload_mutations (body_of ph) = keygen_triple (ph\<lparr>k4_key_name := short_name ph\<rparr>)"
proof (cases "truncate_name (k4_key_name ph)")
  case (Pair nm nl)
  have v: "utf8_valid (k4_key_name ph)" using assms by (simp add: keygen_ok_def)
  note t = truncate_name_valid[OF v Pair]
  show ?thesis
    using t(3,4) by (simp add: reload_mutations_def body_of_def Pair keygen_triple_def Let_def
      short_name_def KEY_NAME_MAX_CHARS_def)
qed

subsection \<open>Persisting\<close>

lemma keygen_triple_kept [simp]: "filter (\<lambda>m. \<not> is_restoration m) (keygen_triple ph) = keygen_triple ph"
  by (simp add: keygen_triple_def)

lemma keygen_triple_Nil [simp]: "keygen_triple ph \<noteq> []"
  by (simp add: keygen_triple_def)

text \<open>Restoration mutations, which carry plaintext, never influence what is written.\<close>

lemma persist_ignores_restoration:
  "persist_staged F H cenc ab staged s =
   persist_staged F H cenc ab (filter (\<lambda>m. \<not> is_restoration m) staged) s"
  by (simp add: persist_staged_def filter_filter)

lemma persist_only_restoration:
  "list_all is_restoration staged \<Longrightarrow> persist_staged F H cenc ab staged s = (Inr (), [], s)"
  by (simp add: persist_staged_def list_all_iff filter_empty_conv)

text \<open>
  Every outcome: success empties the queue, a refusal keeps everything but the restoration
  mutations, and a refusal that is not the flash's own leaves the flash alone.
\<close>

lemma persist_outcomes:
  assumes "persist_staged F H cenc ab staged s = (r, staged', s')"
  shows "(r = Inr () \<and> staged' = []) \<or>
    (\<exists>e. r = Inl e \<and> staged' = filter (\<lambda>m. \<not> is_restoration m) staged \<and> staged' \<noteq> [] \<and>
       ((\<exists>k. e = SFlash k) \<or> s' = s))"
  using assms by (auto simp: persist_staged_def Let_def
      split: if_splits sum.splits prod.splits ab_outcome.splits)

lemma persist_not_one_keygen:
  assumes "filter (\<lambda>m. \<not> is_restoration m) staged \<noteq> []"
    "\<And>ph. filter (\<lambda>m. \<not> is_restoration m) staged \<noteq> keygen_triple ph"
  shows "persist_staged F H cenc ab staged s =
    (Inl NotOneKeygen, filter (\<lambda>m. \<not> is_restoration m) staged, s)"
proof -
  have err: "body_from ms = Inl NotOneKeygen \<or> (\<exists>b. body_from ms = Inr b)" for ms
    by (cases ms rule: body_from.cases) (auto split: prod.split)
  have "body_from (filter (\<lambda>m. \<not> is_restoration m) staged) = Inl NotOneKeygen"
    using err[of "filter (\<lambda>m. \<not> is_restoration m) staged"] assms(2) body_from_iff by metis
  then show ?thesis using assms(1) by (simp add: persist_staged_def Let_def)
qed

lemma seal_not_flash: "seal H cenc b = Inl e \<Longrightarrow> e = TooBig"
  by (auto simp: seal_def Let_def split: if_splits)

lemma persist_triple:
  assumes "filter (\<lambda>m. \<not> is_restoration m) staged = keygen_triple ph"
    "seal H cenc (body_of ph) = Inr record"
    "ab_try_write F (array_codec 512) ab record s = (out, s')"
  shows "persist_staged F H cenc ab staged s =
    (case out of NotCommitted e \<Rightarrow> (Inl (SFlash e), keygen_triple ph, s') | _ \<Rightarrow> (Inr (), [], s'))"
  using assms by (simp add: persist_staged_def Let_def RECORD_LEN_def split: ab_outcome.split)

lemma store_load_unseal:
  "ab_read F (array_codec 512) ab s = Some record \<Longrightarrow> store_load F H cdec ab s = unseal H cdec record"
  by (simp add: store_load_def RECORD_LEN_def)

lemma record_fits:
  assumes "ab_ok cap ab" "length record = 512"
  shows "4 + length (enc (array_codec 512) record) \<le> part_size (slot_a ab)"
    "4 + length (enc (array_codec 512) record) \<le> part_size (slot_b ab)"
  using part_size_ge[of cap "slot_a ab"] part_size_ge[of cap "slot_b ab"] assms
  by (simp_all add: ab_ok_def)

sublocale nor_flash \<subseteq> share: ab_store F mem "array_codec 512" "\<lambda>bs. length bs = 512"
  by unfold_locales

context nor_flash
begin

text \<open>A committed save is what every later load finds.\<close>

lemma persist_then_load:
  assumes "ab_ok (length (mem s)) ab" "hash_ok H" "keygen_ok ph"
    and "decodes cenc cdec (coded_of (body_of ph))"
    and "filter (\<lambda>m. \<not> is_restoration m) staged = keygen_triple ph"
    and "seal H cenc (body_of ph) = Inr record"
    and "ab_try_write F (array_codec 512) ab record s = (Committed, s')"
  shows "persist_staged F H cenc ab staged s = (Inr (), [], s') \<and>
    store_load F H cdec ab s' = SShare (body_of ph)"
proof -
  note b = body_of_ok[OF assms(3)]
  have len: "length record = 512" using seal_length[OF assms(2) b assms(6)] .
  have "fits (array_codec 512) ab record" using record_fits[OF assms(1) len] by (simp add: fits_def)
  from share.committed_reads[OF assms(1) this len assms(7)]
  have "ab_read F (array_codec 512) ab s' = Some record" by blast
  then show ?thesis
    using persist_triple[OF assms(5,6,7)] unseal_seal[OF assms(2) b assms(4,6)]
    by (simp add: store_load_unseal)
qed

end

subsection \<open>On the shipped flash\<close>

lemma store_open_slots:
  "store_open = Some \<lparr>slot_a = \<lparr>offset_sector = 10, n_sectors = 2\<rparr>,
                      slot_b = \<lparr>offset_sector = 12, n_sectors = 2\<rparr>\<rparr>"
  by (simp add: store_open_def ab_new_def split_off_end_def share_partition_def START_SECTOR_def
      N_SECTORS_def FS_SHARE_OFFSET_def FS_NONCE_OFFSET_def FS_IDENTITY_OFFSET_def
      FS_IDENTITY_LEN_def FS_NONCE_LEN_def FS_SHARE_LEN_def SECTOR_SIZE_def Let_def u32_add_def
      u32_lim_def)

lemma store_slots_ok:
  assumes "store_open = Some ab" "FLASH_FS_LEN \<le> cap" "cap \<le> u32_max"
  shows "ab_ok cap ab" "fs_part (slot_a ab)" "fs_part (slot_b ab)"
  using assms by (auto simp: store_open_slots ab_ok_def part_ok_def disjoint_parts_def
      part_base_def part_size_def fs_part_def FLASH_FS_LEN_def u32_max_def)

text \<open>
  On a flash that refuses nothing, a complete keygen is saved, survives, and replays into a
  signer that holds the share.
\<close>

lemma store_healthy:
  assumes "store_open = Some ab" "FLASH_FS_LEN \<le> length (cells s)" "length (cells s) \<le> u32_max"
    and "refuse_programs_from s = None" "refuse_erases_from s = None"
    and "programs s + 16384 \<le> u32_max"
    and "next_slot_and_index (current_slot_and_index fake_ops ab s) = Some kj"
    and "hash_ok H" "keygen_ok ph" "decodes cenc cdec (coded_of (body_of ph))"
    and "length (cenc (coded_of (body_of ph))) \<le> 367"
  shows "\<exists>s'. persist_staged fake_ops H cenc ab (keygen_triple ph) s = (Inr (), [], s') \<and>
    store_load fake_ops H cdec ab s' = SShare (body_of ph)"
proof -
  note ok = store_slots_ok[OF assms(1,2,3)]
  obtain k j where kj: "kj = (k, j)" by fastforce
  obtain rc where rc: "seal H cenc (body_of ph) = Inr rc"
    using assms(11) by (simp add: seal_def Let_def store_nums)
  have len: "length rc = 512" using seal_length[OF assms(8) body_of_ok[OF assms(9)] rc] .
  have ps: "part_size (slot_a ab) = 8192" "part_size (slot_b ab) = 8192"
    using assms(1) by (auto simp: store_open_slots part_size_def)
  have fit: "length (slot_encode (array_codec 512) j' rc) \<le> part_size (slot_at ab k')" for j' k'
    using len ps by (simp add: slot_encode_def slot_at_def)
  have "\<exists>s'. ab_try_write fake_ops (array_codec 512) ab rc s = (Committed, s')"
    using ab_write_fake[OF ok assms(4,5) fit _ assms(7)[unfolded kj]] ps assms(6) by auto
  then obtain s' where "ab_try_write fake_ops (array_codec 512) ab rc s = (Committed, s')" by blast
  from fake.persist_then_load[OF ok(1) assms(8,9,10) keygen_triple_kept rc this] show ?thesis by blast
qed

lemma reload_holds:
  assumes "keygen_ok ph"
  shows "holds_share ph (short_name ph) (replay img_of (reload_mutations (body_of ph)) sg)"
  using replay_triple[of "ph\<lparr>k4_key_name := short_name ph\<rparr>" img_of sg]
  by (simp add: reload_body_of[OF assms] holds_share_def)

text \<open>
  A program refused in the middle of the second copy of a later save: the save reports
  success and the queue is drained, and what a load then finds is not a share.
\<close>

lemma store_torn_acknowledged:
  assumes "store_open = Some ab" "FLASH_FS_LEN \<le> length (cells s)" "length (cells s) \<le> u32_max"
    and "refuse_erases_from s = None" "refuse_programs_from s = Some (programs s + 97)"
    and "programs s + 130 \<le> u32_max"
    and "current_slot_and_index fake_ops ab s = Some (0, i)" "Suc i < u32_max"
    and "hash_ok H" "keygen_ok ph" "seal H cenc (body_of ph) = Inr record"
    and "tag_of H (take 252 record @ replicate 252 ff) \<noteq> replicate 8 ff"
  shows "\<exists>s'. persist_staged fake_ops H cenc ab (keygen_triple ph) s = (Inr (), [], s') \<and>
    (\<forall>b. store_load fake_ops H cdec ab s' \<noteq> SShare b)"
proof -
  note ok = store_slots_ok[OF assms(1,2,3)]
  have len: "length record = 512" using seal_length[OF assms(9) body_of_ok[OF assms(10)] assms(11)] .
  from torn_second_copy[OF ok assms(4,7,8) len assms(5,6)] obtain s' where
    w: "ab_try_write fake_ops (array_codec 512) ab record s = (CommittedSingleCopy KOther, s')"
    and r: "ab_read fake_ops (array_codec 512) ab s' = Some (torn_512 record)" by blast
  have "unseal H cdec (torn_512 record) = SVacant \<or> unseal H cdec (torn_512 record) = SDamaged"
    using unseal_torn[OF len, of 252 H cdec] assms(12) by (simp add: torn_512_def)
  then show ?thesis
    using persist_triple[OF keygen_triple_kept assms(11) w] store_load_unseal[OF r, of H cdec]
    by (intro exI[of _ s']) auto
qed

end
