(* ===== verification/StmFlash.thy ===== *)
theory StmFlash
  imports Flash
begin

text \<open>
  The driver of \<open>hal/src/flash.rs\<close> itself: \<open>StmFlash\<close> over its registers. The
  hardware is a parameter: any state with a register read (which may change it), a store and a
  byte load. A machine is that state with the list of the stores made so far, so what is proved
  about the stores holds for every behaviour of the peripheral.
\<close>

subsection \<open>Status register handling\<close>

definition FLASH_CR_PG :: u32 where "FLASH_CR_PG = bitv 0"
definition FLASH_CR_PER :: u32 where "FLASH_CR_PER = bitv 1"
definition FLASH_CR_MER1 :: u32 where "FLASH_CR_MER1 = bitv 2"
definition FLASH_CR_BKER :: u32 where "FLASH_CR_BKER = bitv 11"
definition FLASH_CR_STRT :: u32 where "FLASH_CR_STRT = bitv 16"
definition FLASH_CR_LOCK :: u32 where "FLASH_CR_LOCK = bitv 31"
definition FLASH_SR_BSY :: u32 where "FLASH_SR_BSY = bitv 16"
definition FLASH_SR_EOP :: u32 where "FLASH_SR_EOP = bitv 0"
definition FLASH_SR_ERRORS :: u32 where
  "FLASH_SR_ERRORS = bitv 1 OR bitv 3 OR bitv 4 OR bitv 5 OR bitv 6 OR bitv 7 OR bitv 8 OR bitv 9
     OR bitv 14 OR bitv 15 OR bitv 17"
definition FLASH_KEY1 :: u32 where "FLASH_KEY1 = 0x45670123"
definition FLASH_KEY2 :: u32 where "FLASH_KEY2 = 0xCDEF89AB"
definition FLASH_ACR_DCEN :: u32 where "FLASH_ACR_DCEN = bitv 10"
definition FLASH_ACR_DCRST :: u32 where "FLASH_ACR_DCRST = bitv 12"
definition FLASH_SPIN_LIMIT :: nat where "FLASH_SPIN_LIMIT = 50000000"

record 'p sr_port =
  read_sr :: "'p \<Rightarrow> u32 \<times> 'p"
  write_sr :: "u32 \<Rightarrow> 'p \<Rightarrow> 'p"

function sr_wait_done :: "'p sr_port \<Rightarrow> nat \<Rightarrow> 'p \<Rightarrow> (flash_error + unit) \<times> 'p" where
  "sr_wait_done P spins p =
     (case read_sr P p of (sr, p1) \<Rightarrow>
        if sr AND FLASH_SR_BSY = 0
        then (let errors = sr AND FLASH_SR_ERRORS in
              if errors \<noteq> 0 then (Inl (Hardware errors), p1)
              else if sr AND FLASH_SR_EOP \<noteq> 0 then (Inr (), write_sr P FLASH_SR_EOP p1)
              else (Inr (), p1))
        else (case checked_sub spins 1 of
                None \<Rightarrow> (Inl (Hardware FLASH_SR_BSY), p1)
              | Some s \<Rightarrow> sr_wait_done P s p1))"
  by pat_completeness auto
termination
  by (relation "measure (\<lambda>(_, spins, _). spins)") auto

declare sr_wait_done.simps [simp del]

definition sr_prologue :: "'p sr_port \<Rightarrow> nat \<Rightarrow> 'p \<Rightarrow> (flash_error + unit) \<times> 'p" where
  "sr_prologue P spins p =
     (case read_sr P p of (sr, p1) \<Rightarrow> sr_wait_done P spins (write_sr P (sr AND FLASH_SR_ERRORS) p1))"

text \<open>
  The contract of a status register whose bits are write-one-to-clear and whose busy flag
  drops after a known number of reads (\<open>None\<close>: never).
\<close>

locale w1c_port =
  fixes P :: "'p sr_port" and latched :: "'p \<Rightarrow> u32" and busy :: "'p \<Rightarrow> nat option"
  assumes read_val: "fst (read_sr P p) =
      latched p OR (case busy p of None \<Rightarrow> FLASH_SR_BSY | Some n \<Rightarrow> if n \<le> 1 then 0 else FLASH_SR_BSY)"
    and read_latched: "latched (snd (read_sr P p)) = latched p"
    and read_busy: "busy (snd (read_sr P p)) = map_option (\<lambda>n. n - 1) (busy p)"
    and write_latched: "latched (write_sr P v p) = latched p AND NOT v"
    and write_busy: "busy (write_sr P v p) = busy p"
begin

lemma read_cases:
  obtains sr p1 where "read_sr P p = (sr, p1)" "latched p1 = latched p"
    "busy p1 = map_option (\<lambda>n. n - 1) (busy p)"
    "sr = latched p OR (case busy p of None \<Rightarrow> FLASH_SR_BSY | Some n \<Rightarrow> if n \<le> 1 then 0 else FLASH_SR_BSY)"
  using read_val[of p] read_latched[of p] read_busy[of p] by (cases "read_sr P p") auto

lemma wait_stuck:
  "busy p = None \<Longrightarrow> fst (sr_wait_done P spins p) = Inl (Hardware FLASH_SR_BSY)"
proof (induction spins arbitrary: p)
  case 0
  show ?case
    by (rule read_cases[of p], subst sr_wait_done.simps)
      (use 0 in \<open>auto simp: FLASH_SR_BSY_def and_bitv_eq_0 bit_or_iff checked_sub_def\<close>)
next
  case (Suc n)
  show ?case
  proof (rule read_cases[of p])
    fix sr p1 assume r: "read_sr P p = (sr, p1)" "busy p1 = map_option (\<lambda>n. n - 1) (busy p)"
      "sr = latched p OR (case busy p of None \<Rightarrow> FLASH_SR_BSY | Some n \<Rightarrow> if n \<le> 1 then 0 else FLASH_SR_BSY)"
    have "sr AND FLASH_SR_BSY \<noteq> 0" using r Suc.prems by (simp add: FLASH_SR_BSY_def and_bitv_eq_0 bit_or_iff)
    moreover have "busy p1 = None" using r Suc.prems by simp
    ultimately show ?thesis
      using Suc.IH[of p1] r(1) by (subst sr_wait_done.simps) (simp add: checked_sub_def)
  qed
qed

lemma wait_done_in_time:
  assumes "busy p = Some n" "n \<le> Suc spins" "latched p AND FLASH_SR_ERRORS = 0" "\<not> bit (latched p) 16"
  shows "fst (sr_wait_done P spins p) = Inr ()"
  using assms
proof (induction spins arbitrary: p n)
  case 0
  show ?case
  proof (rule read_cases[of p])
    fix sr p1 assume r: "read_sr P p = (sr, p1)"
      "sr = latched p OR (case busy p of None \<Rightarrow> FLASH_SR_BSY | Some n \<Rightarrow> if n \<le> 1 then 0 else FLASH_SR_BSY)"
    have sr: "sr = latched p" using r 0 by simp
    have "sr AND FLASH_SR_BSY = 0" using 0 by (simp add: sr FLASH_SR_BSY_def and_bitv_eq_0)
    then show ?thesis using r(1) 0 sr by (subst sr_wait_done.simps) (simp add: Let_def)
  qed
next
  case (Suc k)
  show ?case
  proof (rule read_cases[of p])
    fix sr p1 assume r: "read_sr P p = (sr, p1)" "latched p1 = latched p"
      "busy p1 = map_option (\<lambda>n. n - 1) (busy p)"
      "sr = latched p OR (case busy p of None \<Rightarrow> FLASH_SR_BSY | Some n \<Rightarrow> if n \<le> 1 then 0 else FLASH_SR_BSY)"
    show ?thesis
    proof (cases "n \<le> 1")
      case True
      have sr: "sr = latched p" using r Suc.prems True by simp
      have "sr AND FLASH_SR_BSY = 0" using Suc.prems by (simp add: sr FLASH_SR_BSY_def and_bitv_eq_0)
      then show ?thesis using r(1) Suc.prems sr by (subst sr_wait_done.simps) (simp add: Let_def)
    next
      case False
      have "sr AND FLASH_SR_BSY \<noteq> 0"
        using r Suc.prems False by (simp add: FLASH_SR_BSY_def and_bitv_eq_0 bit_or_iff)
      moreover have "fst (sr_wait_done P k p1) = Inr ()"
        using Suc.IH[of p1 "n - 1"] r Suc.prems by simp
      ultimately show ?thesis using r(1) by (subst sr_wait_done.simps) (simp add: checked_sub_def)
    qed
  qed
qed

text \<open>A stale latch never wedges the driver: the prologue clears it and succeeds.\<close>

lemma prologue_clears:
  assumes "busy p = Some n" "n \<le> spins" "\<not> bit (latched p) 16"
  shows "fst (sr_prologue P spins p) = Inr ()"
proof (rule read_cases[of p])
  fix sr p1 assume r: "read_sr P p = (sr, p1)" "latched p1 = latched p"
    "busy p1 = map_option (\<lambda>n. n - 1) (busy p)"
    "sr = latched p OR (case busy p of None \<Rightarrow> FLASH_SR_BSY | Some n \<Rightarrow> if n \<le> 1 then 0 else FLASH_SR_BSY)"
  let ?p2 = "write_sr P (sr AND FLASH_SR_ERRORS) p1"
  have "\<not> bit FLASH_SR_ERRORS i \<or> \<not> bit (latched ?p2) i" for i
    using r by (auto simp: write_latched bit_and_iff bit_or_iff bit_not_iff)
  then have "latched ?p2 AND FLASH_SR_ERRORS = 0" by (intro bit_eqI) (auto simp: bit_and_iff)
  moreover have "\<not> bit (latched ?p2) 16" using r assms(3) by (simp add: write_latched bit_and_iff)
  moreover have "busy ?p2 = Some (n - 1)" using r assms(1) by (simp add: write_busy)
  ultimately have "fst (sr_wait_done P spins ?p2) = Inr ()"
    using wait_done_in_time[of ?p2 "n - 1" spins] assms(2) by simp
  then show ?thesis using r(1) by (simp add: sr_prologue_def)
qed

end

text \<open>The port the source tests the logic on.\<close>

record sim_port =
  sp_sr :: u32
  sp_busy_reads :: "nat option"
  sp_writes :: "u32 list"

definition MAX_WRITES :: nat where "MAX_WRITES = 16"

definition sim_idle :: sim_port where
  "sim_idle = \<lparr>sp_sr = 0, sp_busy_reads = Some 0, sp_writes = []\<rparr>"

definition sim_latched :: "u32 \<Rightarrow> sim_port" where
  "sim_latched errors = sim_idle\<lparr>sp_sr := errors\<rparr>"

definition sim_ops :: "sim_port sr_port" where
  "sim_ops = \<lparr>
     read_sr = (\<lambda>p.
       let p' = (case sp_busy_reads p of
                   None \<Rightarrow> p
                 | Some n \<Rightarrow> if n = 0 then p else p\<lparr>sp_busy_reads := Some (n - 1)\<rparr>);
           busy = (case sp_busy_reads p' of
                     None \<Rightarrow> FLASH_SR_BSY | Some n \<Rightarrow> if n = 0 then 0 else FLASH_SR_BSY) in
       (sp_sr p' OR busy, p')),
     write_sr = (\<lambda>v p.
       p\<lparr>sp_writes := (if length (sp_writes p) < MAX_WRITES then sp_writes p @ [v] else sp_writes p),
         sp_sr := sp_sr p AND NOT v\<rparr>)\<rparr>"

interpretation sim: w1c_port sim_ops sp_sr sp_busy_reads
  by unfold_locales (auto simp: sim_ops_def Let_def split: option.splits)

subsection \<open>The machine\<close>

datatype reg = KEYR | SR | CR | OPTR | ACR

datatype event = RegWrite reg u32 | DataStore nat u32

record 'h hardware =
  hw_read :: "reg \<Rightarrow> 'h \<Rightarrow> u32 \<times> 'h"
  hw_store :: "event \<Rightarrow> 'h \<Rightarrow> 'h"
  hw_load :: "nat \<Rightarrow> 'h \<Rightarrow> u8"

type_synonym 'h machine = "'h \<times> event list"

definition rd :: "'h hardware \<Rightarrow> reg \<Rightarrow> 'h machine \<Rightarrow> u32 \<times> 'h machine" where
  "rd hw r m = (case hw_read hw r (fst m) of (v, h) \<Rightarrow> (v, (h, snd m)))"

definition emit :: "'h hardware \<Rightarrow> event \<Rightarrow> 'h machine \<Rightarrow> 'h machine" where
  "emit hw e m = (hw_store hw e (fst m), snd m @ [e])"

definition modify_reg :: "'h hardware \<Rightarrow> reg \<Rightarrow> (u32 \<Rightarrow> u32) \<Rightarrow> 'h machine \<Rightarrow> 'h machine" where
  "modify_reg hw r f m = (case rd hw r m of (v, m1) \<Rightarrow> emit hw (RegWrite r (f v)) m1)"

definition mmio :: "'h hardware \<Rightarrow> 'h machine sr_port" where
  "mmio hw = \<lparr>read_sr = rd hw SR, write_sr = (\<lambda>v. emit hw (RegWrite SR v))\<rparr>"

definition wait_done :: "'h hardware \<Rightarrow> 'h machine \<Rightarrow> (flash_error + unit) \<times> 'h machine" where
  "wait_done hw m = sr_wait_done (mmio hw) FLASH_SPIN_LIMIT m"

definition operation_prologue :: "'h hardware \<Rightarrow> 'h machine \<Rightarrow> (flash_error + unit) \<times> 'h machine" where
  "operation_prologue hw m = sr_prologue (mmio hw) FLASH_SPIN_LIMIT m"

definition unlock :: "'h hardware \<Rightarrow> 'h machine \<Rightarrow> (flash_error + unit) \<times> 'h machine" where
  "unlock hw m =
     (case rd hw CR m of (cr, m1) \<Rightarrow>
        if cr AND FLASH_CR_LOCK \<noteq> 0
        then (case rd hw CR (emit hw (RegWrite KEYR FLASH_KEY2) (emit hw (RegWrite KEYR FLASH_KEY1) m1)) of
                (cr', m2) \<Rightarrow>
                  if cr' AND FLASH_CR_LOCK \<noteq> 0 then (Inl UnlockFailed, m2) else (Inr (), m2))
        else (Inr (), m1))"

definition lock :: "'h hardware \<Rightarrow> 'h machine \<Rightarrow> 'h machine" where
  "lock hw m = modify_reg hw CR (\<lambda>cr. cr OR FLASH_CR_LOCK) m"

definition data_cache_disable :: "'h hardware \<Rightarrow> 'h machine \<Rightarrow> 'h machine" where
  "data_cache_disable hw m = modify_reg hw ACR (\<lambda>acr. acr AND NOT FLASH_ACR_DCEN) m"

definition data_cache_reset_and_enable :: "'h hardware \<Rightarrow> 'h machine \<Rightarrow> 'h machine" where
  "data_cache_reset_and_enable hw m =
     (case rd hw ACR m of (acr, m1) \<Rightarrow>
        modify_reg hw ACR (\<lambda>acr. acr OR FLASH_ACR_DCEN)
          (emit hw (RegWrite ACR (acr AND NOT FLASH_ACR_DCRST))
            (emit hw (RegWrite ACR (acr OR FLASH_ACR_DCRST)) m1)))"

text \<open>\<open>StmFlashToken::open\<close>: nothing is written before the geometry is known to be right.\<close>

definition stm_open :: "'h hardware \<Rightarrow> 'h machine \<Rightarrow> (flash_error + unit) \<times> 'h machine" where
  "stm_open hw m =
     (case rd hw OPTR m of (optr, m1) \<Rightarrow>
        if \<not> dbank_ok optr then (Inl DbankMismatch, m1)
        else (Inr (), modify_reg hw SR (\<lambda>sr. sr AND FLASH_SR_ERRORS) m1))"

definition stm_read :: "'h hardware \<Rightarrow> nat \<Rightarrow> nat \<Rightarrow> 'h machine \<Rightarrow> flash_error + bytes" where
  "stm_read hw offset len m =
     (case check_bounds offset len 1 of
        Inl e \<Rightarrow> Inl e
      | Inr _ \<Rightarrow> Inr (map (\<lambda>i. hw_load hw (FLASH_FS_BASE + offset + i) (fst m)) [0 ..< len]))"

definition erase_cr :: "nat \<Rightarrow> bool \<Rightarrow> u32 \<Rightarrow> u32" where
  "erase_cr page bank2 cr0 =
     (let cr = (if bank2 then cr0 OR FLASH_CR_BKER else cr0 AND NOT FLASH_CR_BKER) in
      (cr AND NOT FLASH_CR_PNB) OR pnb_bits (word_of_nat page))"

definition erase_one :: "'h hardware \<Rightarrow> nat \<Rightarrow> 'h machine \<Rightarrow> (flash_error + unit) \<times> 'h machine" where
  "erase_one hw off m =
     (case erase_page_of (FLASH_FS_BASE + off) of
        Inl e \<Rightarrow> (Inl e, m)
      | Inr (page, bank2) \<Rightarrow>
         (case operation_prologue hw m of
            (Inl e, m1) \<Rightarrow> (Inl e, m1)
          | (Inr _, m1) \<Rightarrow>
             (case rd hw CR (data_cache_disable hw m1) of (cr0, m2) \<Rightarrow>
                let cr = erase_cr page bank2 cr0;
                    m3 = emit hw (RegWrite CR (cr OR FLASH_CR_PER OR FLASH_CR_STRT))
                           (emit hw (RegWrite CR (cr OR FLASH_CR_PER)) (emit hw (RegWrite CR cr) m2)) in
                (case wait_done hw m3 of (waited, m4) \<Rightarrow>
                   (waited, data_cache_reset_and_enable hw
                      (modify_reg hw CR (\<lambda>cr. cr AND NOT (FLASH_CR_PER OR FLASH_CR_PNB)) m4))))))"

function erase_loop :: "'h hardware \<Rightarrow> nat \<Rightarrow> nat \<Rightarrow> 'h machine \<Rightarrow> (flash_error + unit) \<times> 'h machine" where
  "erase_loop hw off to m =
     (if off < to
      then (case erase_one hw off m of
              (Inl e, m1) \<Rightarrow> (Inl e, m1)
            | (Inr _, m1) \<Rightarrow> erase_loop hw (off + ERASE_SIZE) to m1)
      else (Inr (), m))"
  by pat_completeness auto
termination
  by (relation "measure (\<lambda>(_, off, to, _). to - off)") (auto simp: ERASE_SIZE_def)

declare erase_loop.simps [simp del]

definition stm_erase :: "'h hardware \<Rightarrow> nat \<Rightarrow> nat \<Rightarrow> 'h machine \<Rightarrow> (flash_error + unit) \<times> 'h machine" where
  "stm_erase hw from to m =
     (case checked_sub to from of
        None \<Rightarrow> (Inl OutOfBounds, m)
      | Some len \<Rightarrow>
         (case check_bounds from len ERASE_SIZE of
            Inl e \<Rightarrow> (Inl e, m)
          | Inr _ \<Rightarrow>
             if len = 0 then (Inr (), m)
             else (case unlock hw m of
                     (Inl e, m1) \<Rightarrow> (Inl e, m1)
                   | (Inr _, m1) \<Rightarrow>
                      (case erase_loop hw from to m1 of (result, m2) \<Rightarrow> (result, lock hw m2)))))"

definition program_one ::
  "'h hardware \<Rightarrow> nat \<Rightarrow> nat \<Rightarrow> bytes \<Rightarrow> 'h machine \<Rightarrow> (flash_error + unit) \<times> 'h machine" where
  "program_one hw offset i dw m =
     (case u32_checked_add FLASH_FS_BASE offset of
        None \<Rightarrow> (Inl OutOfBounds, m)
      | Some a \<Rightarrow>
         (case u32_checked_add a (i * WRITE_SIZE) of
            None \<Rightarrow> (Inl OutOfBounds, m)
          | Some addr \<Rightarrow>
             if u32_lim \<le> i * WRITE_SIZE \<or> addr < FLASH_ERASE_FLOOR then (Inl OutOfBounds, m)
             else (case operation_prologue hw m of
                     (Inl e, m1) \<Rightarrow> (Inl e, m1)
                   | (Inr _, m1) \<Rightarrow>
                      (let lo = word_of_nat (of_le (take 4 dw)); hi = word_of_nat (of_le (drop 4 dw));
                           m2 = modify_reg hw CR
                                  (\<lambda>cr. cr AND NOT (FLASH_CR_MER1 OR FLASH_CR_PER OR FLASH_CR_PNB) OR FLASH_CR_PG)
                                  (data_cache_disable hw m1);
                           m3 = emit hw (DataStore (addr + 4) hi) (emit hw (DataStore addr lo) m2) in
                       (case wait_done hw m3 of (waited, m4) \<Rightarrow>
                          (waited, data_cache_reset_and_enable hw
                             (modify_reg hw CR (\<lambda>cr. cr AND NOT FLASH_CR_PG) m4)))))))"

text \<open>\<open>chunks_exact(8)\<close>, numbered; the check before it leaves no remainder.\<close>

fun program_loop ::
  "'h hardware \<Rightarrow> nat \<Rightarrow> nat \<Rightarrow> bytes list \<Rightarrow> 'h machine \<Rightarrow> (flash_error + unit) \<times> 'h machine" where
  "program_loop hw offset i [] m = (Inr (), m)"
| "program_loop hw offset i (dw # dws) m =
     (case program_one hw offset i dw m of
        (Inl e, m1) \<Rightarrow> (Inl e, m1)
      | (Inr _, m1) \<Rightarrow> program_loop hw offset (i + 1) dws m1)"

function chunks8 :: "bytes \<Rightarrow> bytes list" where
  "chunks8 bs = (if length bs < 8 then [] else take 8 bs # chunks8 (drop 8 bs))"
  by pat_completeness auto
termination
  by (relation "measure length") auto

declare chunks8.simps [simp del]

definition stm_write :: "'h hardware \<Rightarrow> nat \<Rightarrow> bytes \<Rightarrow> 'h machine \<Rightarrow> (flash_error + unit) \<times> 'h machine" where
  "stm_write hw offset bs m =
     (case check_bounds offset (length bs) WRITE_SIZE of
        Inl e \<Rightarrow> (Inl e, m)
      | Inr _ \<Rightarrow>
         if bs = [] then (Inr (), m)
         else (case unlock hw m of
                 (Inl e, m1) \<Rightarrow> (Inl e, m1)
               | (Inr _, m1) \<Rightarrow>
                  (case program_loop hw offset 0 (chunks8 bs) m1 of (result, m2) \<Rightarrow> (result, lock hw m2))))"

function verify_loop :: "'h hardware \<Rightarrow> nat \<Rightarrow> bytes \<Rightarrow> nat \<Rightarrow> 'h machine \<Rightarrow> flash_error + unit" where
  "verify_loop hw offset bs checked m =
     (if checked < length bs
      then (let n = min WRITE_SIZE (length bs - checked) in
            case stm_read hw (u32_add offset checked) n m of
              Inl e \<Rightarrow> Inl e
            | Inr back \<Rightarrow> if back \<noteq> window bs checked n then Inl VerifyFailed
                          else verify_loop hw offset bs (checked + n) m)
      else Inr ())"
  by pat_completeness auto
termination
  by (relation "measure (\<lambda>(_, _, bs, checked, _). length bs - checked)") (auto simp: WRITE_SIZE_def)

declare verify_loop.simps [simp del]

definition write_verified ::
  "'h hardware \<Rightarrow> nat \<Rightarrow> bytes \<Rightarrow> 'h machine \<Rightarrow> (flash_error + unit) \<times> 'h machine" where
  "write_verified hw offset bs m =
     (case stm_write hw offset bs m of
        (Inl e, m1) \<Rightarrow> (Inl e, m1)
      | (Inr _, m1) \<Rightarrow> (verify_loop hw offset bs 0 m1, m1))"

end
