(* ===== verification/StmCorrect.thy ===== *)
theory StmCorrect
  imports StmFlash
begin

text \<open>
  What the flash driver stores, for every behaviour of the hardware: data stores are a prefix
  of the requested doublewords, in ascending order and inside \<open>FLASH_FS\<close>; erases select
  only the requested pages of bank 2; and every operation that unlocked the peripheral ends by
  locking it.
\<close>

subsection \<open>Projections of a trace\<close>

fun stores :: "event list \<Rightarrow> (nat \<times> u32) list" where
  "stores [] = []"
| "stores (DataStore a v # es) = (a, v) # stores es"
| "stores (RegWrite r v # es) = stores es"

fun cr_writes :: "event list \<Rightarrow> u32 list" where
  "cr_writes [] = []"
| "cr_writes (DataStore a v # es) = cr_writes es"
| "cr_writes (RegWrite r v # es) = (case r of CR \<Rightarrow> v # cr_writes es | _ \<Rightarrow> cr_writes es)"

lemma stores_append [simp]: "stores (xs @ ys) = stores xs @ stores ys"
  by (induction xs rule: stores.induct) simp_all

lemma cr_writes_append [simp]: "cr_writes (xs @ ys) = cr_writes xs @ cr_writes ys"
  by (induction xs rule: cr_writes.induct) (simp_all split: reg.split)

lemma rd_trace [simp]: "snd (snd (rd hw r m)) = snd m"
  by (simp add: rd_def split: prod.split)

lemma rd_trace' : "rd hw r m = (v, m') \<Longrightarrow> snd m' = snd m"
  using rd_trace[of hw r m] by simp

lemma emit_trace [simp]: "snd (emit hw e m) = snd m @ [e]"
  by (simp add: emit_def)

lemma modify_reg_trace: "\<exists>v. snd (modify_reg hw r f m) = snd m @ [RegWrite r (f v)]"
  by (auto simp: modify_reg_def split: prod.split dest: rd_trace')

lemma cache_trace:
  "stores (snd (data_cache_disable hw m)) = stores (snd m)"
  "cr_writes (snd (data_cache_disable hw m)) = cr_writes (snd m)"
  "stores (snd (data_cache_reset_and_enable hw m)) = stores (snd m)"
  "cr_writes (snd (data_cache_reset_and_enable hw m)) = cr_writes (snd m)"
  by (auto simp: data_cache_disable_def data_cache_reset_and_enable_def modify_reg_def
      split: prod.split dest!: rd_trace')

lemma modify_cr_trace:
  "stores (snd (modify_reg hw CR f m)) = stores (snd m)"
  "\<exists>v. cr_writes (snd (modify_reg hw CR f m)) = cr_writes (snd m) @ [f v]"
  by (auto simp: modify_reg_def split: prod.split dest: rd_trace')

text \<open>Status handling stores to \<open>SR\<close> only.\<close>

lemma wait_trace:
  assumes "\<And>es v. f (es @ [RegWrite SR v]) = f es"
  shows "f (snd (snd (sr_wait_done (mmio hw) n m))) = f (snd m)"
proof (induction n arbitrary: m rule: less_induct)
  case (less n)
  obtain sr m1 where r: "rd hw SR m = (sr, m1)" by (rule prod.exhaust)
  have m1: "snd m1 = snd m" using rd_trace'[OF r] .
  show ?case
    using less.IH[of "n - 1" m1] m1 assms
    by (subst sr_wait_done.simps) (auto simp: mmio_def r Let_def checked_sub_def)
qed

lemma prologue_trace:
  assumes "\<And>es v. f (es @ [RegWrite SR v]) = f es"
  shows "f (snd (snd (sr_prologue (mmio hw) n m))) = f (snd m)"
proof -
  obtain sr m1 where r: "rd hw SR m = (sr, m1)" by (rule prod.exhaust)
  show ?thesis
    using wait_trace[where f = f, OF assms, of hw n "write_sr (mmio hw) (sr AND FLASH_SR_ERRORS) m1"]
      rd_trace'[OF r] assms
    by (simp add: sr_prologue_def) (simp add: mmio_def r)
qed

lemma status_trace:
  "stores (snd (snd (wait_done hw m))) = stores (snd m)"
  "cr_writes (snd (snd (wait_done hw m))) = cr_writes (snd m)"
  "stores (snd (snd (operation_prologue hw m))) = stores (snd m)"
  "cr_writes (snd (snd (operation_prologue hw m))) = cr_writes (snd m)"
  by (simp_all add: wait_done_def operation_prologue_def wait_trace prologue_trace)

lemma unlock_trace:
  "stores (snd (snd (unlock hw m))) = stores (snd m)"
  "cr_writes (snd (snd (unlock hw m))) = cr_writes (snd m)"
  by (auto simp: unlock_def split: prod.split dest!: rd_trace')

subsection \<open>Programming\<close>

definition dw_stores :: "nat \<Rightarrow> nat \<Rightarrow> bytes \<Rightarrow> (nat \<times> u32) list" where
  "dw_stores offset i dw =
     [(FLASH_FS_BASE + offset + i * 8, word_of_nat (of_le (take 4 dw))),
      (FLASH_FS_BASE + offset + i * 8 + 4, word_of_nat (of_le (drop 4 dw)))]"

fun all_stores :: "nat \<Rightarrow> nat \<Rightarrow> bytes list \<Rightarrow> (nat \<times> u32) list" where
  "all_stores offset i [] = []"
| "all_stores offset i (dw # dws) = dw_stores offset i dw @ all_stores offset (i + 1) dws"

lemma program_one_stores:
  assumes "program_one hw offset i dw m = (r, m')"
  shows "(stores (snd m') = stores (snd m) \<and> r \<noteq> Inr ()) \<or>
    stores (snd m') = stores (snd m) @ dw_stores offset i dw"
proof -
  obtain q m1 where p: "operation_prologue hw m = (q, m1)" by (rule prod.exhaust)
  have s1: "stores (snd m1) = stores (snd m)" using status_trace(3)[of hw m] p by simp
  let ?a = "FLASH_FS_BASE + offset + i * WRITE_SIZE"
  define m3 where "m3 = emit hw (DataStore (?a + 4) (word_of_nat (of_le (drop 4 dw))))
    (emit hw (DataStore ?a (word_of_nat (of_le (take 4 dw))))
      (modify_reg hw CR (\<lambda>cr. cr AND NOT (FLASH_CR_MER1 OR FLASH_CR_PER OR FLASH_CR_PNB) OR FLASH_CR_PG)
        (data_cache_disable hw m1)))"
  have s3: "stores (snd m3) = stores (snd m) @ dw_stores offset i dw"
    by (simp add: m3_def modify_cr_trace cache_trace s1 dw_stores_def WRITE_SIZE_def)
  obtain w m4 where w: "wait_done hw m3 = (w, m4)" by (rule prod.exhaust)
  have s4: "stores (snd m4) = stores (snd m3)" using status_trace(1)[of hw m3] w by simp
  show ?thesis
  proof (cases "m' = m \<and> r \<noteq> Inr () \<or> m' = m1 \<and> r \<noteq> Inr ()")
    case True
    then show ?thesis using s1 by auto
  next
    case False
    then have "m' = data_cache_reset_and_enable hw (modify_reg hw CR (\<lambda>cr. cr AND NOT FLASH_CR_PG) m4)"
      using assms w unfolding program_one_def p m3_def
      by (auto simp: Let_def split: option.splits if_splits sum.splits)
    then show ?thesis using s3 s4 by (simp add: cache_trace modify_cr_trace)
  qed
qed

lemma program_loop_stores:
  "program_loop hw offset i dws m = (r, m') \<Longrightarrow>
   \<exists>k \<le> length dws. stores (snd m') = stores (snd m) @ all_stores offset i (take k dws) \<and>
     (r = Inr () \<longrightarrow> k = length dws)"
proof (induction hw offset i dws m arbitrary: r m' rule: program_loop.induct)
  case (2 hw offset i dw dws m)
  obtain q m1 where o: "program_one hw offset i dw m = (q, m1)" by (rule prod.exhaust)
  note so = program_one_stores[OF o]
  show ?case
  proof (cases q)
    case (Inl e)
    then have rm: "r = Inl e" "m' = m1" using "2.prems" o by simp_all
    show ?thesis
    proof (cases "stores (snd m1) = stores (snd m)")
      case True
      then show ?thesis using rm by (intro exI[of _ 0]) simp
    next
      case False
      then show ?thesis using rm so by (intro exI[of _ 1]) simp
    qed
  next
    case (Inr u)
    then have so': "stores (snd m1) = stores (snd m) @ dw_stores offset i dw" using so by simp
    have "program_loop hw offset (i + 1) dws m1 = (r, m')" using "2.prems" o Inr by simp
    from "2.IH"[OF o[symmetric] Inr this] obtain k where
      "k \<le> length dws" "stores (snd m') = stores (snd m1) @ all_stores offset (i + 1) (take k dws)"
      "r = Inr () \<longrightarrow> k = length dws" by blast
    then show ?thesis using so' by (intro exI[of _ "Suc k"]) simp
  qed
qed simp

lemma chunks8_length: "8 * length (chunks8 bs) = length bs - length bs mod 8"
proof (induction bs rule: chunks8.induct)
  case (1 bs)
  show ?case
  proof (cases "length bs < 8")
    case True
    then show ?thesis by (simp add: chunks8.simps[of bs])
  next
    case False
    have "chunks8 bs = take 8 bs # chunks8 (drop 8 bs)" using False by (simp add: chunks8.simps[of bs])
    moreover have "length bs mod 8 = (length bs - 8) mod 8" using False by (simp add: le_mod_geq)
    moreover have "(length bs - 8) mod 8 \<le> length bs - 8" by simp
    ultimately show ?thesis using "1.IH"[OF False] False by simp
  qed
qed

lemma chunks8_concat: "8 dvd length bs \<Longrightarrow> concat (chunks8 bs) = bs \<and> (\<forall>c \<in> set (chunks8 bs). length c = 8)"
proof (induction bs rule: chunks8.induct)
  case (1 bs)
  show ?case
  proof (cases "length bs < 8")
    case True
    then have "bs = []" using "1.prems" by (cases bs) (auto dest: dvd_imp_le)
    then show ?thesis by (simp add: chunks8.simps[of "[]"])
  next
    case False
    then have "8 dvd length (drop 8 bs)" using "1.prems" by (simp add: dvd_diff_nat)
    note ih = "1.IH"[OF False this]
    have "chunks8 bs = take 8 bs # chunks8 (drop 8 bs)" using False by (simp add: chunks8.simps[of bs])
    then have c: "concat (chunks8 bs) = take 8 bs @ concat (chunks8 (drop 8 bs))"
      and t: "set (chunks8 bs) = insert (take 8 bs) (set (chunks8 (drop 8 bs)))" by simp_all
    have "length (take 8 bs) = 8" using False by simp
    then show ?thesis unfolding c t using ih by (metis append_take_drop_id insert_iff)
  qed
qed

lemma all_stores_addr:
  "(a, v) \<in> set (all_stores offset i dws) \<Longrightarrow>
   FLASH_FS_BASE + offset + i * 8 \<le> a \<and> a + 4 \<le> FLASH_FS_BASE + offset + (i + length dws) * 8"
  by (induction offset i dws rule: all_stores.induct) (auto simp: dw_stores_def)

text \<open>The stores of a write: a prefix of the doublewords asked for, all of them if it succeeds.\<close>

lemma stm_write_stores:
  assumes "stm_write hw offset bs m = (r, m')"
  shows "\<exists>k \<le> length bs div 8.
    stores (snd m') = stores (snd m) @ all_stores offset 0 (take k (chunks8 bs)) \<and>
    (r = Inr () \<longrightarrow> k = length bs div 8)"
proof -
  have n: "length (chunks8 bs) = length bs div 8"
    using chunks8_length[of bs] minus_mod_eq_mult_div[of "length bs" 8] by simp
  show ?thesis
  proof (cases "check_bounds offset (length bs) WRITE_SIZE")
    case (Inl e)
    then show ?thesis using assms by (intro exI[of _ 0]) (auto simp: stm_write_def)
  next
    case (Inr u)
    obtain q m1 where u: "unlock hw m = (q, m1)" by (rule prod.exhaust)
    have s1: "stores (snd m1) = stores (snd m)" using unlock_trace(1)[of hw m] u by simp
    obtain q2 m2 where l: "program_loop hw offset 0 (chunks8 bs) m1 = (q2, m2)" by (rule prod.exhaust)
    from program_loop_stores[OF l] obtain k where
      k: "k \<le> length (chunks8 bs)" "stores (snd m2) = stores (snd m1) @ all_stores offset 0 (take k (chunks8 bs))"
      "q2 = Inr () \<longrightarrow> k = length (chunks8 bs)" by blast
    show ?thesis
    proof (cases "bs = [] \<or> q \<noteq> Inr ()")
      case True
      then show ?thesis
        using assms Inr u s1 by (intro exI[of _ 0]) (auto simp: stm_write_def split: sum.splits if_splits)
    next
      case False
      then have "r = q2" "m' = lock hw m2" using assms Inr u l by (auto simp: stm_write_def)
      then show ?thesis
        using k n s1 by (intro exI[of _ k]) (simp add: lock_def modify_cr_trace)
    qed
  qed
qed

text \<open>And they stay inside the requested range of \<open>FLASH_FS\<close>.\<close>

lemma stm_write_confined:
  assumes "stm_write hw offset bs m = (r, m')" "stores (snd m) = []" "(a, v) \<in> set (stores (snd m'))"
  shows "FLASH_FS_BASE + offset \<le> a \<and> a + 4 \<le> FLASH_FS_BASE + offset + length bs \<and>
    offset + length bs \<le> FLASH_FS_LEN"
proof -
  obtain k where k: "k \<le> length bs div 8"
    "stores (snd m') = all_stores offset 0 (take k (chunks8 bs))"
    using stm_write_stores[OF assms(1)] assms(2) by auto
  from all_stores_addr[of a v offset 0 "take k (chunks8 bs)"] assms(3) k
  have a: "FLASH_FS_BASE + offset \<le> a" "a + 4 \<le> FLASH_FS_BASE + offset + min (length (chunks8 bs)) k * 8"
    by simp_all
  have "min (length (chunks8 bs)) k * 8 \<le> length bs"
    using k(1) mult_le_mono1[of "min (length (chunks8 bs)) k" "length bs div 8" 8] by simp
  moreover have "check_bounds offset (length bs) WRITE_SIZE = Inr ()"
  proof (rule ccontr)
    assume "check_bounds offset (length bs) WRITE_SIZE \<noteq> Inr ()"
    then have "m' = m" using assms(1) by (cases "check_bounds offset (length bs) WRITE_SIZE") (auto simp: stm_write_def)
    then show False using assms(2,3) by simp
  qed
  ultimately show ?thesis using a by (auto simp: check_bounds_ok_iff)
qed

subsection \<open>Erasing\<close>

text \<open>The control-register writes of an erase, given what the register read back as.\<close>

fun erase_crs :: "nat \<Rightarrow> (u32 \<times> u32) list \<Rightarrow> u32 list" where
  "erase_crs off [] = []"
| "erase_crs off ((cr0, y) # cs) =
     (let cr = erase_cr (128 + off div 4096) True cr0 in
      [cr, cr OR FLASH_CR_PER, cr OR FLASH_CR_PER OR FLASH_CR_STRT,
       y AND NOT (FLASH_CR_PER OR FLASH_CR_PNB)]) @ erase_crs (off + 4096) cs"

lemma erase_cr_fields:
  assumes "page < 256"
  shows "bit (erase_cr page bank2 cr0) 11 \<longleftrightarrow> bank2"
    and "drop_bit 3 (erase_cr page bank2 cr0 AND FLASH_CR_PNB) = word_of_nat page"
proof -
  have pnb: "bit FLASH_CR_PNB i \<longleftrightarrow> 3 \<le> i \<and> i < 11" for i
    by (auto simp: FLASH_CR_PNB_def mask_8 bit_push_bit_iff bit_mask_iff)
  show "bit (erase_cr page bank2 cr0) 11 \<longleftrightarrow> bank2"
    by (auto simp: erase_cr_def Let_def pnb_bits_def FLASH_CR_BKER_def bit_or_iff bit_and_iff
        bit_not_iff pnb)
  have "erase_cr page bank2 cr0 AND FLASH_CR_PNB = pnb_bits (word_of_nat page)"
    by (rule bit_eqI) (auto simp: erase_cr_def Let_def pnb_bits_def bit_or_iff bit_and_iff bit_not_iff)
  then have "drop_bit 3 (erase_cr page bank2 cr0 AND FLASH_CR_PNB) = word_of_nat page AND 0xFF"
    by (simp only: pnb_bits_field)
  moreover have "word_of_nat page AND 0xFF = (word_of_nat page :: u32)"
    using assms by (simp add: word_unat_eq_iff unat_and_255 unat_of_nat)
  ultimately show "drop_bit 3 (erase_cr page bank2 cr0 AND FLASH_CR_PNB) = word_of_nat page" by simp
qed

lemma fs_erase_page:
  assumes "off < FLASH_FS_LEN"
  shows "erase_page_of (FLASH_FS_BASE + off) = Inr (128 + off div 4096, True)"
proof -
  have m: "(FLASH_FS_BASE + off) mod 2 ^ 27 = 0x180000 + off"
    using assms mod_add_self1[of "2 ^ 27" "0x180000 + off"] by (simp add: memmap_defs)
  have "(0x180000 + off) div 4096 = 384 + off div 4096"
    using div_mult_self3[of 4096 384 off] by (simp add: add.commute)
  then show ?thesis using fs_page_range[OF assms] m by simp
qed

lemma erase_one_trace:
  assumes "erase_one hw off m = (r, m')" "off < FLASH_FS_LEN"
  shows "stores (snd m') = stores (snd m) \<and>
    ((cr_writes (snd m') = cr_writes (snd m) \<and> r \<noteq> Inr ()) \<or>
     (\<exists>c. cr_writes (snd m') = cr_writes (snd m) @ erase_crs off [c]))"
proof -
  obtain q m1 where p: "operation_prologue hw m = (q, m1)" by (rule prod.exhaust)
  have s1: "stores (snd m1) = stores (snd m)" "cr_writes (snd m1) = cr_writes (snd m)"
    using status_trace(3,4)[of hw m] p by simp_all
  obtain cr0 m2 where c: "rd hw CR (data_cache_disable hw m1) = (cr0, m2)" by (rule prod.exhaust)
  let ?cr = "erase_cr (128 + off div 4096) True cr0"
  define m3 where "m3 = emit hw (RegWrite CR (?cr OR FLASH_CR_PER OR FLASH_CR_STRT))
    (emit hw (RegWrite CR (?cr OR FLASH_CR_PER)) (emit hw (RegWrite CR ?cr) m2))"
  have s3: "stores (snd m3) = stores (snd m)"
    "cr_writes (snd m3) = cr_writes (snd m) @ [?cr, ?cr OR FLASH_CR_PER, ?cr OR FLASH_CR_PER OR FLASH_CR_STRT]"
    using rd_trace'[OF c] s1 by (simp_all add: m3_def cache_trace)
  obtain w m4 where w: "wait_done hw m3 = (w, m4)" by (rule prod.exhaust)
  have s4: "stores (snd m4) = stores (snd m3)" "cr_writes (snd m4) = cr_writes (snd m3)"
    using status_trace(1,2)[of hw m3] w by simp_all
  show ?thesis
  proof (cases q)
    case (Inl e)
    then have "m' = m1 \<and> r \<noteq> Inr ()"
      using assms by (auto simp: erase_one_def fs_erase_page p)
    then show ?thesis using s1 by simp
  next
    case (Inr u)
    let ?f = "\<lambda>cr. cr AND NOT (FLASH_CR_PER OR FLASH_CR_PNB)"
    have m': "m' = data_cache_reset_and_enable hw (modify_reg hw CR ?f m4)"
      using assms Inr w by (simp add: erase_one_def fs_erase_page p c Let_def m3_def)
    obtain v where v: "cr_writes (snd (modify_reg hw CR ?f m4)) = cr_writes (snd m4) @ [?f v]"
      using modify_cr_trace(2) by metis
    have "cr_writes (snd m') = cr_writes (snd m) @ erase_crs off [(cr0, v)]"
      unfolding m' cache_trace v s4 s3 by (simp add: Let_def)
    then show ?thesis using m' s3 s4 by (auto simp: cache_trace modify_cr_trace)
  qed
qed

lemma erase_crs_snoc:
  "erase_crs off (c # cs) = erase_crs off [c] @ erase_crs (off + 4096) cs"
  by (cases c) simp

lemma erase_loop_trace:
  assumes "erase_loop hw off to m = (r, m')" "to \<le> FLASH_FS_LEN" "off \<le> to" "4096 dvd to - off"
  shows "\<exists>cs. stores (snd m') = stores (snd m) \<and>
    cr_writes (snd m') = cr_writes (snd m) @ erase_crs off cs \<and>
    length cs \<le> (to - off) div 4096 \<and> (r = Inr () \<longrightarrow> length cs = (to - off) div 4096)"
  using assms
proof (induction hw off to m arbitrary: r m' rule: erase_loop.induct)
  case (1 hw off to m)
  show ?case
  proof (cases "off < to")
    case False
    then have "r = Inr ()" "m' = m" "to = off"
      using "1.prems"(1,3) erase_loop.simps[of hw off to m] by auto
    then show ?thesis by (intro exI[of _ "[]"]) simp
  next
    case True
    obtain q m1 where o: "erase_one hw off m = (q, m1)" by (rule prod.exhaust)
    have lim: "off < FLASH_FS_LEN" using True "1.prems"(2) by simp
    note t = erase_one_trace[OF o lim]
    have big: "off + 4096 \<le> to" using dvd_imp_le[OF "1.prems"(4)] True by simp
    then have d: "(to - off) div 4096 = Suc ((to - (off + 4096)) div 4096)"
      by (simp add: le_div_geq)
    show ?thesis
    proof (cases q)
      case (Inl e)
      then have rm: "r = Inl e" "m' = m1"
        using "1.prems"(1) True o by (simp_all add: erase_loop.simps[of hw off to m])
      from t Inl consider "cr_writes (snd m1) = cr_writes (snd m)"
        | c where "cr_writes (snd m1) = cr_writes (snd m) @ erase_crs off [c]" by blast
      then show ?thesis
      proof cases
        case 1
        then show ?thesis using rm t by (intro exI[of _ "[]"]) simp
      next
        case (2 c)
        then show ?thesis using rm t d by (intro exI[of _ "[c]"]) simp
      qed
    next
      case (Inr u)
      then obtain c where c: "cr_writes (snd m1) = cr_writes (snd m) @ erase_crs off [c]" using t by auto
      have l: "erase_loop hw (off + ERASE_SIZE) to m1 = (r, m')"
        using "1.prems"(1) True o Inr by (simp add: erase_loop.simps[of hw off to m])
      have "4096 dvd to - (off + 4096)"
        using "1.prems"(4) by (metis diff_diff_left dvd_diff_nat dvd_refl)
      then have "\<exists>cs. stores (snd m') = stores (snd m1) \<and>
          cr_writes (snd m') = cr_writes (snd m1) @ erase_crs (off + ERASE_SIZE) cs \<and>
          length cs \<le> (to - (off + ERASE_SIZE)) div 4096 \<and>
          (r = Inr () \<longrightarrow> length cs = (to - (off + ERASE_SIZE)) div 4096)"
        using "1.IH"[OF True o[symmetric] Inr l "1.prems"(2)] big by (simp add: ERASE_SIZE_def)
      then obtain cs where cs: "stores (snd m') = stores (snd m1)"
        "cr_writes (snd m') = cr_writes (snd m1) @ erase_crs (off + 4096) cs"
        "length cs \<le> (to - (off + 4096)) div 4096"
        "r = Inr () \<longrightarrow> length cs = (to - (off + 4096)) div 4096" by (auto simp: ERASE_SIZE_def)
      have "cr_writes (snd m') = cr_writes (snd m) @ erase_crs off (c # cs)"
        unfolding cs(2) c erase_crs_snoc[of off c cs] by simp
      then show ?thesis using cs t d by (intro exI[of _ "c # cs"]) simp
    qed
  qed
qed

text \<open>
  An erase selects the requested pages in order, all of bank 2, writes no data, and locks.
\<close>

lemma stm_erase_trace:
  assumes "stm_erase hw from to m = (r, m')"
  shows "(m' = m \<and> (r = Inr () \<longrightarrow> from = to)) \<or>
    (r = Inl UnlockFailed \<and> cr_writes (snd m') = cr_writes (snd m) \<and> stores (snd m') = stores (snd m)) \<or>
    (\<exists>cs z. stores (snd m') = stores (snd m) \<and>
       cr_writes (snd m') = cr_writes (snd m) @ erase_crs from cs @ [z OR FLASH_CR_LOCK] \<and>
       length cs \<le> (to - from) div 4096 \<and> (r = Inr () \<longrightarrow> length cs = (to - from) div 4096) \<and>
       from \<le> to \<and> to \<le> FLASH_FS_LEN \<and> 4096 dvd from \<and> 4096 dvd to)"
proof (cases "from \<le> to \<and> check_bounds from (to - from) ERASE_SIZE = Inr () \<and> from \<noteq> to")
  case False
  then show ?thesis using assms
    by (auto simp: stm_erase_def checked_sub_def split: if_splits sum.splits)
next
  case True
  then have cb: "to \<le> FLASH_FS_LEN" "4096 dvd from" "4096 dvd to - from"
    by (auto simp: check_bounds_ok_iff ERASE_SIZE_def)
  obtain q m1 where u: "unlock hw m = (q, m1)" by (rule prod.exhaust)
  have s1: "stores (snd m1) = stores (snd m)" "cr_writes (snd m1) = cr_writes (snd m)"
    using unlock_trace[of hw m] u by simp_all
  show ?thesis
  proof (cases q)
    case (Inl e)
    then have "e = UnlockFailed" using u by (auto simp: unlock_def split: prod.splits if_splits)
    then show ?thesis using Inl True u s1 assms by (simp add: stm_erase_def checked_sub_def)
  next
    case (Inr un)
    obtain q2 m2 where l: "erase_loop hw from to m1 = (q2, m2)" by (rule prod.exhaust)
    have rm: "r = q2" "m' = lock hw m2"
      using Inr True u l assms by (simp_all add: stm_erase_def checked_sub_def)
    from erase_loop_trace[OF l cb(1) _ cb(3)] True obtain cs where
      cs: "stores (snd m2) = stores (snd m1)" "cr_writes (snd m2) = cr_writes (snd m1) @ erase_crs from cs"
      "length cs \<le> (to - from) div 4096" "q2 = Inr () \<longrightarrow> length cs = (to - from) div 4096" by blast
    obtain z where "cr_writes (snd (lock hw m2)) = cr_writes (snd m2) @ [z OR FLASH_CR_LOCK]"
      unfolding lock_def using modify_cr_trace(2)[of hw "\<lambda>cr. cr OR FLASH_CR_LOCK" m2] by blast
    moreover have "stores (snd (lock hw m2)) = stores (snd m2)" by (simp add: lock_def modify_cr_trace)
    moreover have "4096 dvd to" using cb(2,3) True by (metis dvd_diffD)
    ultimately show ?thesis using cs s1 rm cb True
      by (intro disjI2 exI[of _ cs] exI[of _ z]) simp
  qed
qed

text \<open>Whatever happens after the unlock, the last write of either operation sets \<open>LOCK\<close>.\<close>

lemma lock_last: "\<exists>es v. snd (lock hw m) = snd m @ [RegWrite CR v] \<and> bit v 31"
  using modify_reg_trace[of hw CR "\<lambda>cr. cr OR FLASH_CR_LOCK" m]
  by (auto simp: lock_def FLASH_CR_LOCK_def bit_or_iff)

definition locked_last :: "event list \<Rightarrow> bool" where
  "locked_last es \<longleftrightarrow> es \<noteq> [] \<and> (\<exists>v. last es = RegWrite CR v \<and> bit v 31)"

lemma lock_locked: "locked_last (snd (lock hw m))"
  using lock_last[of hw m] by (auto simp: locked_last_def)

lemma unlock_refused: "unlock hw m = (Inl e, m') \<Longrightarrow> e = UnlockFailed"
  by (auto simp: unlock_def split: prod.splits if_splits)

lemma stm_write_relocks:
  assumes "stm_write hw offset bs m = (r, m')"
  shows "m' = m \<or> r = Inl UnlockFailed \<or> locked_last (snd m')"
  using assms
  by (auto simp: lock_locked stm_write_def split: sum.splits if_splits prod.splits dest: unlock_refused)

lemma stm_erase_relocks:
  assumes "stm_erase hw from to m = (r, m')"
  shows "m' = m \<or> r = Inl UnlockFailed \<or> locked_last (snd m')"
  using assms
  by (auto simp: lock_locked stm_erase_def split: option.splits sum.splits if_splits prod.splits dest: unlock_refused)

subsection \<open>Opening and verified writes\<close>

text \<open>A part whose page size is wrong is refused before anything is stored.\<close>

lemma stm_open_refuses:
  assumes "stm_open hw m = (r, m')"
  shows "(\<exists>e. r = Inl e) \<longleftrightarrow> \<not> bit (fst (hw_read hw OPTR (fst m))) 22"
    and "r = Inl e \<Longrightarrow> e = DbankMismatch \<and> snd m' = snd m"
  using assms by (auto simp: stm_open_def rd_def dbank_ok_bit split: prod.splits if_splits)

lemma verify_loop_ok:
  assumes "verify_loop hw offset bs checked m = Inr ()" "offset + length bs \<le> FLASH_FS_LEN"
    "checked \<le> i" "i < length bs"
  shows "hw_load hw (FLASH_FS_BASE + offset + i) (fst m) = bs ! i"
  using assms
proof (induction hw offset bs checked m rule: verify_loop.induct)
  case (1 hw offset bs checked m)
  let ?n = "min WRITE_SIZE (length bs - checked)"
  have c: "checked < length bs" using "1.prems" by simp
  have e: "u32_add offset checked = offset + checked"
    using "1.prems"(2) c by (intro u32_add_exact) (simp add: FLASH_FS_LEN_def u32_lim_def)
  from "1.prems"(1) c obtain rb where b: "stm_read hw (u32_add offset checked) ?n m = Inr rb"
    "rb = window bs checked ?n" "verify_loop hw offset bs (checked + ?n) m = Inr ()"
    by (auto simp: verify_loop.simps[of hw offset bs checked m] Let_def split: sum.splits if_splits)
  show ?case
  proof (cases "i < checked + ?n")
    case True
    have lt: "i - checked < ?n" using True "1.prems"(3) by linarith
    have "rb = map (\<lambda>j. hw_load hw (FLASH_FS_BASE + (offset + checked) + j) (fst m)) [0 ..< ?n]"
      using b(1) by (auto simp: stm_read_def e split: sum.splits)
    then have "rb ! (i - checked) =
        hw_load hw (FLASH_FS_BASE + (offset + checked) + (i - checked)) (fst m)"
      using lt by simp
    also have "FLASH_FS_BASE + (offset + checked) + (i - checked) = FLASH_FS_BASE + offset + i"
      using "1.prems"(3) by simp
    finally have "rb ! (i - checked) = hw_load hw (FLASH_FS_BASE + offset + i) (fst m)" .
    moreover have "rb ! (i - checked) = bs ! i"
      using nth_window[of checked ?n bs "i - checked"] lt "1.prems"(3) c by (simp add: b(2))
    ultimately show ?thesis by simp
  next
    case False
    then show ?thesis using "1.IH"[OF c refl b(1)] b(2,3) "1.prems" by simp
  qed
qed

lemma write_verified_ok:
  assumes "write_verified hw offset bs m = (Inr (), m')" "i < length bs"
  shows "hw_load hw (FLASH_FS_BASE + offset + i) (fst m') = bs ! i"
proof -
  from assms(1) have w: "stm_write hw offset bs m = (Inr (), m')" "verify_loop hw offset bs 0 m' = Inr ()"
    by (auto simp: write_verified_def split: prod.splits sum.splits)
  have "offset + length bs \<le> FLASH_FS_LEN"
    using w(1) by (auto simp: stm_write_def check_bounds_ok_iff split: sum.splits)
  from verify_loop_ok[OF w(2) this _ assms(2)] show ?thesis by simp
qed

end
