(* ===== verification/Comms.thy ===== *)
theory Comms
  imports Prelude
begin

text \<open>
  \<open>hal/src/comms.rs\<close> and the magic-byte scan of \<open>frostsnap_comms/src/lib.rs\<close>: the
  device end of the serial link. \<open>bincode\<close>'s decoder is a parameter that either yields a
  frame and the number of bytes it took, asks for more, or refuses.
\<close>

definition FRAME_LIMIT :: nat where "FRAME_LIMIT = 4096"
definition MAGIC_BYTES_LEN :: nat where "MAGIC_BYTES_LEN = 7"

definition MAGICBYTES_RECV_UPSTREAM :: bytes where
  "MAGICBYTES_RECV_UPSTREAM = [0xff, 0x5d, 0xa3, 0x85, 0xd4, 0xee, 0x5a]"

definition MAGICBYTES_RECV_DOWNSTREAM :: bytes where
  "MAGICBYTES_RECV_DOWNSTREAM = [0xff, 0xe4, 0x31, 0xb8, 0x02, 0x8b, 0x06]"

definition MAGIC_REPLY :: bytes where
  "MAGIC_REPLY = [0x00, 0xff, 0xe4, 0x31, 0xb8, 0x02, 0x8b, 0x08]"

datatype comms_error = FrameTooLong | EncodeFailed | Desync | BodyTooLarge | BodyUndecodable

datatype 'f decoded = Got 'f nat | More | Bad

record link =
  l_rx :: bytes
  l_magic_progress :: nat
  l_linked :: bool

definition link_new :: link where
  "link_new = \<lparr>l_rx = [], l_magic_progress = 0, l_linked = False\<rparr>"

definition unlink :: "link \<Rightarrow> link" where
  "unlink l = l\<lparr>l_rx := [], l_magic_progress := 0, l_linked := False\<rparr>"

definition pending :: "link \<Rightarrow> nat" where
  "pending l = length (l_rx l)"

subsection \<open>The magic bytes\<close>

text \<open>Progress, whether the pattern completed (with its version), and the bytes consumed.\<close>

fun make_progress_on_magic_bytes :: "bytes \<Rightarrow> bytes \<Rightarrow> nat \<Rightarrow> nat \<times> u8 option \<times> nat" where
  "make_progress_on_magic_bytes magic [] progress = (progress, None, 0)"
| "make_progress_on_magic_bytes magic (byte # remaining) progress =
     (let is_last_byte = (progress = length magic - 1); expected_byte = magic ! progress in
      if is_last_byte \<and> expected_byte \<le> byte then (0, Some (byte - expected_byte), 1)
      else (case make_progress_on_magic_bytes magic remaining
                   (if byte = expected_byte then progress + 1 else 0) of
              (p, found, n) \<Rightarrow> (p, found, n + 1)))"

definition scan_magic :: "bytes \<Rightarrow> link \<Rightarrow> nat \<times> link" where
  "scan_magic bs l =
     (case make_progress_on_magic_bytes MAGICBYTES_RECV_UPSTREAM bs (l_magic_progress l) of
        (progress, found, consumed) \<Rightarrow>
          (consumed, if found \<noteq> None then l\<lparr>l_magic_progress := progress, l_rx := [], l_linked := True\<rparr>
                     else l\<lparr>l_magic_progress := progress\<rparr>))"

subsection \<open>Reassembly\<close>

text \<open>Every whole frame at the front of the buffer; a refusal empties it.\<close>

function drain :: "(bytes \<Rightarrow> 'f decoded) \<Rightarrow> bytes \<Rightarrow> (comms_error + unit) \<times> bytes \<times> 'f list" where
  "drain dec rx =
     (if rx = [] then (Inr (), rx, [])
      else (case dec rx of
              Got frame n \<Rightarrow>
                if n = 0 \<or> length rx < n then (Inl Desync, [], [])
                else (case drain dec (drop n rx) of (r, rx', frames) \<Rightarrow> (r, rx', frame # frames))
            | More \<Rightarrow> (Inr (), rx, [])
            | Bad \<Rightarrow> (Inl Desync, [], [])))"
  by pat_completeness auto
termination
  by (relation "measure (\<lambda>(_, rx). length rx)") auto

declare drain.simps [simp del]

definition drain_link ::
  "(bytes \<Rightarrow> 'f decoded) \<Rightarrow> link \<Rightarrow> (comms_error + unit) \<times> link \<times> 'f list" where
  "drain_link dec l =
     (case drain dec (l_rx l) of
        (Inl e, _, frames) \<Rightarrow> (Inl e, unlink l, frames)
      | (Inr _, rx, frames) \<Rightarrow> (Inr (), l\<lparr>l_rx := rx\<rparr>, frames))"

text \<open>The bounded loop of \<open>poll\<close>; the first argument counts the passes left.\<close>

fun poll_loop ::
  "(bytes \<Rightarrow> 'f decoded) \<Rightarrow> nat \<Rightarrow> bytes \<Rightarrow> link \<Rightarrow> (comms_error + unit) \<times> link \<times> 'f list" where
  "poll_loop dec 0 rest l = (Inl Desync, unlink l, [])"
| "poll_loop dec (Suc passes) rest l =
     (if rest = [] then drain_link dec l
      else (let take_n = min (FRAME_LIMIT - length (l_rx l)) (length rest);
                l1 = l\<lparr>l_rx := l_rx l @ take take_n rest\<rparr> in
            case drain_link dec l1 of
              (Inl e, l2, frames) \<Rightarrow> (Inl e, l2, frames)
            | (Inr _, l2, frames) \<Rightarrow>
               (case poll_loop dec passes (drop take_n rest) l2 of (r, l3, later) \<Rightarrow> (r, l3, frames @ later))))"

definition poll :: "(bytes \<Rightarrow> 'f decoded) \<Rightarrow> bytes \<Rightarrow> link \<Rightarrow> (comms_error + unit) \<times> link \<times> 'f list" where
  "poll dec bs l =
     (if l_linked l then poll_loop dec (length bs + 1) bs l
      else (case scan_magic bs l of (n, l1) \<Rightarrow>
              if l_linked l1 then poll_loop dec (length (drop n bs) + 1) (drop n bs) l1
              else (Inr (), l1, [])))"

text \<open>Packet after packet, until a fault.\<close>

fun poll_all :: "(bytes \<Rightarrow> 'f decoded) \<Rightarrow> bytes list \<Rightarrow> link \<Rightarrow> (comms_error + unit) \<times> link \<times> 'f list" where
  "poll_all dec [] l = (Inr (), l, [])"
| "poll_all dec (p # ps) l =
     (case poll dec p l of
        (Inl e, l1, frames) \<Rightarrow> (Inl e, l1, frames)
      | (Inr _, l1, frames) \<Rightarrow> (case poll_all dec ps l1 of (r, l2, later) \<Rightarrow> (r, l2, frames @ later)))"

subsection \<open>Bodies and sending\<close>

datatype ('u, 'b) wire_body = WCore | WNaming | WAnnounceAck | WCancel | WUpgrade 'u | WEncapsV0 bytes

datatype ('u, 'b) send_body = BAnnounceAck | BCancel | BUpgrade 'u | BInner 'b

datatype inner_fault = LimitExceeded | OtherFault

definition decode_body ::
  "(bytes \<Rightarrow> inner_fault + ('u, 'b) send_body) \<Rightarrow> ('u, 'b) wire_body \<Rightarrow> comms_error + ('u, 'b) send_body" where
  "decode_body inner body =
     (case body of
        WCore \<Rightarrow> Inl BodyUndecodable
      | WNaming \<Rightarrow> Inl BodyUndecodable
      | WAnnounceAck \<Rightarrow> Inr BAnnounceAck
      | WCancel \<Rightarrow> Inr BCancel
      | WUpgrade u \<Rightarrow> Inr (BUpgrade u)
      | WEncapsV0 bs \<Rightarrow>
         (case inner bs of
            Inl LimitExceeded \<Rightarrow> Inl BodyTooLarge
          | Inl OtherFault \<Rightarrow> Inl BodyUndecodable
          | Inr b \<Rightarrow> Inr b))"

text \<open>\<open>enc\<close> is the encoder; \<open>None\<close> stands for an encoding error other than running out of room.\<close>

definition encode_frame :: "('f \<Rightarrow> bytes option) \<Rightarrow> 'f \<Rightarrow> comms_error + bytes" where
  "encode_frame enc frame =
     (case enc frame of
        None \<Rightarrow> Inl EncodeFailed
      | Some bs \<Rightarrow> if FRAME_LIMIT < length bs then Inl FrameTooLong else Inr bs)"

subsection \<open>The handshake\<close>

lemma progress_bound:
  "make_progress_on_magic_bytes magic bs p = (p', found, n) \<Longrightarrow> p < length magic \<Longrightarrow>
   p' < length magic \<and> n \<le> length bs \<and> (found = None \<longrightarrow> n = length bs)"
proof (induction magic bs p arbitrary: p' found n rule: make_progress_on_magic_bytes.induct)
  case (2 magic byte remaining progress)
  show ?case
  proof (cases "progress = length magic - 1 \<and> magic ! progress \<le> byte")
    case True
    then show ?thesis using "2.prems" by auto
  next
    case False
    let ?q = "if byte = magic ! progress then progress + 1 else 0"
    obtain p1 f1 n1 where r: "make_progress_on_magic_bytes magic remaining ?q = (p1, f1, n1)"
      by (rule prod_cases3)
    have "?q < length magic" using False "2.prems"(2) by (cases "progress = length magic - 1") auto
    then have "p1 < length magic \<and> n1 \<le> length remaining \<and> (f1 = None \<longrightarrow> n1 = length remaining)"
      using "2.IH"[OF refl refl _ r] False by auto
    then show ?thesis using "2.prems"(1) False r by (auto simp: Let_def split: if_splits)
  qed
qed auto

text \<open>
  A coordinator's magic frame links from any progress: the variant tag in front of the pattern
  resets the match, whatever came before.
\<close>

lemma magic_frame_links:
  assumes "l_magic_progress l < 7" "0x5a \<le> v"
  shows "\<exists>n l'. scan_magic (0x00 # take 6 MAGICBYTES_RECV_UPSTREAM @ [v]) l = (n, l') \<and>
    l_linked l' \<and> n = 8 \<and> l_rx l' = []"
proof -
  have reset: "make_progress_on_magic_bytes MAGICBYTES_RECV_UPSTREAM (0 # bs) p =
      (case make_progress_on_magic_bytes MAGICBYTES_RECV_UPSTREAM bs 0 of (q, f, n) \<Rightarrow> (q, f, n + 1))"
    if "p < 7" for p bs
  proof -
    have "p = 0 \<or> p = 1 \<or> p = 2 \<or> p = 3 \<or> p = 4 \<or> p = 5 \<or> p = 6" using that by linarith
    then show ?thesis by (auto simp: MAGICBYTES_RECV_UPSTREAM_def Let_def)
  qed
  have "make_progress_on_magic_bytes MAGICBYTES_RECV_UPSTREAM
      (take 6 MAGICBYTES_RECV_UPSTREAM @ [v]) 0 = (0, Some (v - 0x5a), 7)"
    using assms(2) by (simp add: MAGICBYTES_RECV_UPSTREAM_def Let_def)
  then show ?thesis using reset[OF assms(1), of "take 6 MAGICBYTES_RECV_UPSTREAM @ [v]"]
    by (simp add: scan_magic_def)
qed

lemma poll_unlinked_silent:
  assumes "\<not> l_linked l" "\<not> l_linked (snd (scan_magic bs l))"
  shows "poll dec bs l = (Inr (), snd (scan_magic bs l), [])"
  using assms by (auto simp: poll_def split: prod.splits)

subsection \<open>Buffer bound and faults\<close>

definition link_ok :: "link \<Rightarrow> bool" where
  "link_ok l \<longleftrightarrow> length (l_rx l) \<le> FRAME_LIMIT \<and> l_magic_progress l < 7"

lemma drain_length: "drain dec rx = (r, rx', fs) \<Longrightarrow> length rx' \<le> length rx"
proof (induction dec rx arbitrary: r rx' fs rule: drain.induct)
  case (1 dec rx)
  show ?case
  proof (cases "\<exists>f n. rx \<noteq> [] \<and> dec rx = Got f n \<and> \<not> (n = 0 \<or> length rx < n)")
    case True
    then obtain f n where g: "rx \<noteq> []" "dec rx = Got f n" "\<not> (n = 0 \<or> length rx < n)" by blast
    obtain r1 rx1 fs1 where d: "drain dec (drop n rx) = (r1, rx1, fs1)" by (rule prod_cases3)
    have "rx' = rx1" using "1.prems" g d by (simp add: drain.simps[of dec rx])
    then show ?thesis using "1.IH"[OF g d] by simp
  next
    case False
    then show ?thesis using "1.prems"
      by (cases "dec rx") (auto simp: drain.simps[of dec rx] split: if_splits)
  qed
qed

lemma drain_error: "drain dec rx = (Inl e, rx', fs) \<Longrightarrow> e = Desync"
proof (induction dec rx arbitrary: rx' fs rule: drain.induct)
  case (1 dec rx)
  show ?case
  proof (cases "\<exists>f n. rx \<noteq> [] \<and> dec rx = Got f n \<and> \<not> (n = 0 \<or> length rx < n)")
    case True
    then obtain f n where g: "rx \<noteq> []" "dec rx = Got f n" "\<not> (n = 0 \<or> length rx < n)" by blast
    obtain r1 rx1 fs1 where d: "drain dec (drop n rx) = (r1, rx1, fs1)" by (rule prod_cases3)
    have "r1 = Inl e" using "1.prems" g d by (simp add: drain.simps[of dec rx])
    then show ?thesis using "1.IH"[OF g] d by simp
  next
    case False
    then show ?thesis using "1.prems"
      by (cases "dec rx") (auto simp: drain.simps[of dec rx] split: if_splits)
  qed
qed

lemma drain_link_cases:
  assumes "drain_link dec l = (r, l', fs)"
  obtains (ok) rx where "r = Inr ()" "l' = l\<lparr>l_rx := rx\<rparr>" "drain dec (l_rx l) = (Inr (), rx, fs)"
  | (fault) rx where "r = Inl Desync" "l' = unlink l" "drain dec (l_rx l) = (Inl Desync, rx, fs)"
proof -
  obtain r1 rx1 fs1 where d: "drain dec (l_rx l) = (r1, rx1, fs1)" by (rule prod_cases3)
  show thesis
  proof (cases r1)
    case (Inl e)
    then show thesis using assms d drain_error[of dec "l_rx l" e] fault by (simp add: drain_link_def)
  next
    case (Inr u)
    then show thesis using assms d by (intro ok[of rx1]) (auto simp: drain_link_def)
  qed
qed

lemma poll_loop_ok:
  "poll_loop dec passes rest l = (r, l', fs) \<Longrightarrow> link_ok l \<Longrightarrow>
   link_ok l' \<and> (\<forall>e. r = Inl e \<longrightarrow> e = Desync \<and> \<not> l_linked l' \<and> pending l' = 0)"
proof (induction passes arbitrary: rest l r l' fs)
  case (Suc passes)
  let ?n = "min (FRAME_LIMIT - length (l_rx l)) (length rest)"
  let ?l1 = "l\<lparr>l_rx := l_rx l @ take ?n rest\<rparr>"
  have ok1: "link_ok ?l1" using Suc.prems(2) by (auto simp: link_ok_def)
  have dl: "link_ok l2 \<and> (\<forall>e. q = Inl e \<longrightarrow> e = Desync \<and> \<not> l_linked l2 \<and> pending l2 = 0)"
    if "drain_link dec k = (q, l2, gs)" "link_ok k" for k q l2 gs
    using that(1)
  proof (cases rule: drain_link_cases)
    case (ok rx)
    then show ?thesis using drain_length[OF ok(3)] that(2) by (simp add: link_ok_def)
  qed (use that(2) in \<open>auto simp: link_ok_def unlink_def pending_def\<close>)
  obtain q l2 gs where d: "drain_link dec ?l1 = (q, l2, gs)" by (rule prod_cases3)
  show ?case
  proof (cases "rest = []")
    case True
    then show ?thesis using Suc.prems dl by simp
  next
    case False
    show ?thesis
    proof (cases q)
      case (Inl e)
      then show ?thesis using Suc.prems(1) False d dl[OF d ok1] by (simp add: Let_def)
    next
      case (Inr u)
      obtain q3 l3 hs where p: "poll_loop dec passes (drop ?n rest) l2 = (q3, l3, hs)" by (rule prod_cases3)
      have "r = q3" "l' = l3" using Suc.prems(1) False d Inr p by (simp_all add: Let_def)
      then show ?thesis using Suc.IH[OF p] dl[OF d ok1] by simp
    qed
  qed
qed (auto simp: link_ok_def unlink_def pending_def)

text \<open>The buffer never exceeds the limit, and the only fault drops the link with it.\<close>

lemma poll_ok:
  assumes "poll dec bs l = (r, l', fs)" "link_ok l"
  shows "link_ok l' \<and> (\<forall>e. r = Inl e \<longrightarrow> e = Desync \<and> \<not> l_linked l' \<and> pending l' = 0)"
proof (cases "l_linked l")
  case True
  then have "poll_loop dec (length bs + 1) bs l = (r, l', fs)" using assms(1) by (simp only: poll_def if_True)
  from poll_loop_ok[OF this assms(2)] show ?thesis .
next
  case False
  obtain n l1 where s: "scan_magic bs l = (n, l1)" by (rule prod.exhaust)
  obtain p f k where m: "make_progress_on_magic_bytes MAGICBYTES_RECV_UPSTREAM bs (l_magic_progress l) = (p, f, k)"
    by (rule prod_cases3)
  have "p < 7" using progress_bound[OF m] assms(2) by (simp add: MAGICBYTES_RECV_UPSTREAM_def link_ok_def)
  then have "link_ok l1" using s m assms(2) by (auto simp: scan_magic_def link_ok_def)
  note l1 = this
  show ?thesis
  proof (cases "l_linked l1")
    case True
    then have "poll_loop dec (length (drop n bs) + 1) (drop n bs) l1 = (r, l', fs)"
      using assms(1) False s by (simp only: poll_def if_True if_False prod.case)
    from poll_loop_ok[OF this l1] show ?thesis .
  next
    case unlinked: False
    then show ?thesis using assms(1) False s l1 by (auto simp: poll_def)
  qed
qed

subsection \<open>Chunking\<close>

text \<open>
  What reassembly relies on of \<open>bincode\<close>: a decoded frame takes a positive number of the
  bytes it was given, those bytes alone decode to it, and neither a frame nor a refusal changes
  when more bytes follow.
\<close>

definition prefix_decoder :: "(bytes \<Rightarrow> 'f decoded) \<Rightarrow> bool" where
  "prefix_decoder dec \<longleftrightarrow>
     (\<forall>xs ys f n. dec xs = Got f n \<longrightarrow> 0 < n \<and> n \<le> length xs \<and> dec (take n xs) = Got f n \<and> dec (xs @ ys) = Got f n) \<and>
     (\<forall>xs ys. dec xs = Bad \<longrightarrow> dec (xs @ ys) = Bad)"

lemma prefix_decoderD:
  assumes "prefix_decoder dec"
  shows "dec xs = Got f n \<Longrightarrow> 0 < n" "dec xs = Got f n \<Longrightarrow> n \<le> length xs"
    "dec xs = Got f n \<Longrightarrow> dec (take n xs) = Got f n" "dec xs = Got f n \<Longrightarrow> dec (xs @ ys) = Got f n"
    "dec xs = Bad \<Longrightarrow> dec (xs @ ys) = Bad"
  using assms by (auto simp: prefix_decoder_def)

text \<open>Frames within the limit, and no more than a buffer of unfinished tail.\<close>

function small_frames :: "(bytes \<Rightarrow> 'f decoded) \<Rightarrow> bytes \<Rightarrow> bool" where
  "small_frames dec xs =
     (if xs = [] then True
      else (case dec xs of
              Got f n \<Rightarrow> if n = 0 \<or> length xs < n then True
                         else n \<le> FRAME_LIMIT \<and> small_frames dec (drop n xs)
            | More \<Rightarrow> length xs \<le> FRAME_LIMIT
            | Bad \<Rightarrow> True))"
  by pat_completeness auto
termination
  by (relation "measure (\<lambda>(_, xs). length xs)") auto

declare small_frames.simps [simp del]

lemma drain_Nil [simp]: "drain dec [] = (Inr (), [], [])"
  by (simp add: drain.simps)

lemma drain_Got:
  "dec rx = Got f n \<Longrightarrow> 0 < n \<Longrightarrow> n \<le> length rx \<Longrightarrow>
   drain dec rx = (case drain dec (drop n rx) of (r, rx', fs) \<Rightarrow> (r, rx', f # fs))"
  by (subst drain.simps) auto

lemma small_frames_Got:
  "small_frames dec xs \<Longrightarrow> dec xs = Got f n \<Longrightarrow> 0 < n \<Longrightarrow> n \<le> length xs \<Longrightarrow>
   n \<le> FRAME_LIMIT \<and> small_frames dec (drop n xs)"
  by (subst (asm) (1) small_frames.simps) (auto split: if_splits)

lemma drain_append:
  assumes "prefix_decoder dec"
  shows "drain dec rx = (Inr (), rx', fs) \<Longrightarrow>
    drain dec (rx @ ys) = (case drain dec (rx' @ ys) of (r, rx'', gs) \<Rightarrow> (r, rx'', fs @ gs)) \<and>
    (small_frames dec (rx @ ys) \<longrightarrow> small_frames dec (rx' @ ys)) \<and>
    (rx' \<noteq> [] \<longrightarrow> dec rx' = More)"
proof (induction "length rx" arbitrary: rx rx' fs rule: less_induct)
  case less
  note D = prefix_decoderD[OF assms]
  show ?case
  proof (cases "rx = []")
    case True
    then show ?thesis using less.prems by (simp split: prod.split)
  next
    case False
    show ?thesis
    proof (cases "dec rx")
      case (Got f n)
      have n: "0 < n" "n \<le> length rx" using D(1,2)[OF Got] by simp_all
      obtain r1 rx1 fs1 where d: "drain dec (drop n rx) = (r1, rx1, fs1)" by (rule prod_cases3)
      have e: "r1 = Inr ()" "rx1 = rx'" "fs = f # fs1"
        using less.prems drain_Got[of dec rx, OF Got n] d by simp_all
      have d': "drain dec (drop n rx) = (Inr (), rx', fs1)" using d e by simp
      have lt: "length (drop n rx) < length rx" using n by simp
      note ih = less.hyps[OF lt d']
      have g: "dec (rx @ ys) = Got f n" using D(4)[OF Got] .
      have "n \<le> length (rx @ ys)" using n by simp
      note da = drain_Got[of dec "rx @ ys", OF g n(1) this]
      have dr: "drop n (rx @ ys) = drop n rx @ ys" using n by simp
      have sm: "small_frames dec (rx @ ys) \<Longrightarrow> small_frames dec (drop n rx @ ys)"
        using small_frames_Got[of dec "rx @ ys", OF _ g n(1)] n dr by simp
      show ?thesis
      proof (intro conjI)
        show "drain dec (rx @ ys) = (case drain dec (rx' @ ys) of (r, rx'', gs) \<Rightarrow> (r, rx'', fs @ gs))"
          unfolding da dr conjunct1[OF ih] e by (simp split: prod.split)
        show "small_frames dec (rx @ ys) \<longrightarrow> small_frames dec (rx' @ ys)" using sm ih by blast
        show "rx' \<noteq> [] \<longrightarrow> dec rx' = More" using ih by blast
      qed
    next
      case More
      then have "rx' = rx" "fs = []" using less.prems False by (simp_all add: drain.simps[of dec rx])
      then show ?thesis using More by (simp split: prod.split)
    next
      case Bad
      then show ?thesis using less.prems False by (simp add: drain.simps[of dec rx])
    qed
  qed
qed

text \<open>A fault while part of a stream is in the buffer is the fault of the whole stream.\<close>

lemma drain_append_error:
  assumes "prefix_decoder dec"
  shows "drain dec rx = (Inl e, rx', fs) \<Longrightarrow> \<exists>e' rx''. drain dec (rx @ ys) = (Inl e', rx'', fs)"
proof (induction "length rx" arbitrary: rx rx' fs rule: less_induct)
  case less
  note D = prefix_decoderD[OF assms]
  have ne: "rx \<noteq> []" using less.prems by auto
  show ?case
  proof (cases "dec rx")
    case (Got f n)
    have n: "0 < n" "n \<le> length rx" using D(1,2)[OF Got] by simp_all
    obtain r1 rx1 fs1 where d: "drain dec (drop n rx) = (r1, rx1, fs1)" by (rule prod_cases3)
    have e: "r1 = Inl e" "fs = f # fs1" using less.prems drain_Got[of dec rx, OF Got n] d by simp_all
    have lt: "length (drop n rx) < length rx" using n by simp
    from less.hyps[OF lt d[unfolded e]] obtain e' rx'' where
      "drain dec (drop n rx @ ys) = (Inl e', rx'', fs1)" by blast
    moreover have g: "dec (rx @ ys) = Got f n" using D(4)[OF Got] .
    ultimately show ?thesis using drain_Got[of dec "rx @ ys", OF g n(1)] n e by simp
  next
    case More
    then show ?thesis using less.prems ne by (simp add: drain.simps[of dec rx])
  next
    case Bad
    then have "dec (rx @ ys) = Bad" using D(5) by blast
    then show ?thesis using less.prems ne Bad
      by (simp add: drain.simps[of dec rx] drain.simps[of dec "rx @ ys"])
  qed
qed

text \<open>
  One packet into a linked, small-framed stream: exactly the frames a decoder with unlimited
  room would find, the same tail kept.
\<close>

lemma poll_loop_drain:
  assumes "prefix_decoder dec"
  shows "length rest < passes \<Longrightarrow> length (l_rx l) \<le> FRAME_LIMIT \<Longrightarrow>
    small_frames dec (l_rx l @ rest) \<Longrightarrow> drain dec (l_rx l @ rest) = (Inr (), tail, fs) \<Longrightarrow>
    l_rx l = [] \<or> dec (l_rx l) = More \<Longrightarrow>
    poll_loop dec passes rest l = (Inr (), l\<lparr>l_rx := tail\<rparr>, fs)"
proof (induction passes arbitrary: rest l tail fs)
  case (Suc passes)
  note D = prefix_decoderD[OF assms]
  show ?case
  proof (cases "rest = []")
    case True
    then show ?thesis using Suc.prems by (simp add: drain_link_def)
  next
    case False
    let ?n = "min (FRAME_LIMIT - length (l_rx l)) (length rest)"
    let ?rx = "l_rx l @ take ?n rest"
    have whole: "?rx @ drop ?n rest = l_rx l @ rest" by simp
    have dw: "drain dec (?rx @ drop ?n rest) = (Inr (), tail, fs)" unfolding whole by (rule Suc.prems(4))
    have sw: "small_frames dec (?rx @ drop ?n rest)" unfolding whole by (rule Suc.prems(3))
    have room: "0 < ?n"
    proof (rule ccontr)
      assume "\<not> 0 < ?n"
      then have full: "length (l_rx l) = FRAME_LIMIT" using False Suc.prems(2) by auto
      then have "l_rx l \<noteq> []" by (auto simp: FRAME_LIMIT_def)
      then have more: "dec (l_rx l) = More" using Suc.prems(5) by simp
      have ne: "l_rx l @ rest \<noteq> []" using False by simp
      show False
      proof (cases "dec (l_rx l @ rest)")
        case (Got f n)
        have n: "0 < n" "n \<le> length (l_rx l @ rest)" using D(1,2)[OF Got] by simp_all
        have "n \<le> FRAME_LIMIT" using small_frames_Got[OF Suc.prems(3) Got n] by simp
        then have "dec (take n (l_rx l)) = Got f n" using D(3)[OF Got] full by simp
        from D(4)[OF this, of "drop n (l_rx l)"] more show False by simp
      next
        case More
        then have "length (l_rx l @ rest) \<le> FRAME_LIMIT"
          using Suc.prems(3) ne small_frames.simps[of dec "l_rx l @ rest"] by auto
        then show False using full False by simp
      next
        case Bad
        then show False using Suc.prems(4) ne drain.simps[of dec "l_rx l @ rest"] by auto
      qed
    qed
    obtain r1 rx1 fs1 where d: "drain dec ?rx = (r1, rx1, fs1)" by (rule prod_cases3)
    have r1: "r1 = Inr ()"
    proof (rule ccontr)
      assume "r1 \<noteq> Inr ()"
      then obtain e where "r1 = Inl e" by (cases r1) auto
      from drain_append_error[OF assms d[unfolded this], of "drop ?n rest"] show False
        unfolding dw by simp
    qed
    note da = drain_append[OF assms d[unfolded r1], of "drop ?n rest"]
    obtain r2 rx2 fs2 where d2: "drain dec (rx1 @ drop ?n rest) = (r2, rx2, fs2)" by (rule prod_cases3)
    have e: "r2 = Inr ()" "rx2 = tail" "fs = fs1 @ fs2"
      using da unfolding dw d2 by simp_all
    let ?l2 = "l\<lparr>l_rx := rx1\<rparr>"
    have "poll_loop dec passes (drop ?n rest) ?l2 = (Inr (), ?l2\<lparr>l_rx := tail\<rparr>, fs2)"
    proof (rule Suc.IH)
      show "length (drop ?n rest) < passes" using Suc.prems(1) room False by (simp only: length_drop)
      have "length ?rx \<le> FRAME_LIMIT" using Suc.prems(2) by simp
      then show "length (l_rx ?l2) \<le> FRAME_LIMIT" using drain_length[OF d] by simp
      show "small_frames dec (l_rx ?l2 @ drop ?n rest)" using da sw by simp
      show "drain dec (l_rx ?l2 @ drop ?n rest) = (Inr (), tail, fs2)" using d2 e by simp
      show "l_rx ?l2 = [] \<or> dec (l_rx ?l2) = More" using da by auto
    qed
    moreover have "drain_link dec (l\<lparr>l_rx := ?rx\<rparr>) = (Inr (), ?l2, fs1)"
      using d r1 by (simp add: drain_link_def)
    ultimately show ?thesis using False e by (simp add: Let_def)
  qed
qed simp

definition settled :: "(bytes \<Rightarrow> 'f decoded) \<Rightarrow> link \<Rightarrow> bool" where
  "settled dec l \<longleftrightarrow> l_linked l \<and> length (l_rx l) \<le> FRAME_LIMIT \<and> (l_rx l = [] \<or> dec (l_rx l) = More)"

text \<open>However a stream is cut into packets, the same frames arrive.\<close>

lemma poll_all_chunks:
  assumes "prefix_decoder dec"
  shows "settled dec l \<Longrightarrow> small_frames dec (l_rx l @ concat ps) \<Longrightarrow>
    drain dec (l_rx l @ concat ps) = (Inr (), tail, fs) \<Longrightarrow>
    (\<And>k. small_frames dec (l_rx l @ concat (take k ps))) \<Longrightarrow>
    poll_all dec ps l = (Inr (), l\<lparr>l_rx := tail\<rparr>, fs)"
proof (induction ps arbitrary: l tail fs)
  case Nil
  then show ?case
    by (cases "l_rx l = []") (auto simp: settled_def drain.simps[of dec "l_rx l"])
next
  case (Cons p ps)
  have st: "l_linked l" "length (l_rx l) \<le> FRAME_LIMIT" "l_rx l = [] \<or> dec (l_rx l) = More"
    using Cons.prems(1) by (simp_all add: settled_def)
  obtain r1 rx1 fs1 where d: "drain dec (l_rx l @ p) = (r1, rx1, fs1)" by (rule prod_cases3)
  have r1: "r1 = Inr ()"
  proof (rule ccontr)
    assume "r1 \<noteq> Inr ()"
    then obtain e where "r1 = Inl e" by (cases r1) auto
    from drain_append_error[OF assms d[unfolded this], of "concat ps"] Cons.prems(3) show False by auto
  qed
  note da = drain_append[OF assms d[unfolded r1]]
  obtain r2 rx2 fs2 where d2: "drain dec (rx1 @ concat ps) = (r2, rx2, fs2)" by (rule prod_cases3)
  have e: "r2 = Inr ()" "rx2 = tail" "fs = fs1 @ fs2"
    using da[of "concat ps"] d2 Cons.prems(3) by auto
  have sp: "small_frames dec (l_rx l @ p)" using Cons.prems(4)[of 1] by simp
  have "poll dec p l = (Inr (), l\<lparr>l_rx := rx1\<rparr>, fs1)"
    using poll_loop_drain[OF assms _ st(2) sp d[unfolded r1] st(3), of "length p + 1"] st(1)
    by (simp only: poll_def if_True)
  moreover have "poll_all dec ps (l\<lparr>l_rx := rx1\<rparr>) = (Inr (), l\<lparr>l_rx := rx1\<rparr>\<lparr>l_rx := tail\<rparr>, fs2)"
  proof (rule Cons.IH)
    have "rx1 \<noteq> [] \<Longrightarrow> dec rx1 = More" using da[of "[]"] by simp
    moreover have "length rx1 \<le> FRAME_LIMIT"
    proof (cases "rx1 = []")
      case False
      then have "dec rx1 = More" using da[of "[]"] by simp
      moreover have "small_frames dec rx1" using da[of "[]"] sp by simp
      ultimately show ?thesis using False by (simp add: small_frames.simps[of dec rx1])
    qed simp
    ultimately show "settled dec (l\<lparr>l_rx := rx1\<rparr>)" using st(1) by (auto simp: settled_def)
    show "small_frames dec (l_rx (l\<lparr>l_rx := rx1\<rparr>) @ concat ps)"
      using da[of "concat ps"] Cons.prems(2) by simp
    show "drain dec (l_rx (l\<lparr>l_rx := rx1\<rparr>) @ concat ps) = (Inr (), tail, fs2)" using d2 e by simp
    show "small_frames dec (l_rx (l\<lparr>l_rx := rx1\<rparr>) @ concat (take k ps))" for k
      using da[of "concat (take k ps)"] Cons.prems(4)[of "Suc k"] by simp
  qed
  ultimately show ?case using e by simp
qed

subsection \<open>Streams of encoded frames\<close>

text \<open>
  What \<open>bincode\<close> promises of an encoding: a frame's own bytes decode to it whatever follows,
  and a proper prefix asks for more.
\<close>

definition framed :: "(bytes \<Rightarrow> 'f decoded) \<Rightarrow> ('f \<Rightarrow> bytes) \<Rightarrow> 'f \<Rightarrow> bool" where
  "framed dec fenc f \<longleftrightarrow> 0 < length (fenc f) \<and> (\<forall>ys. dec (fenc f @ ys) = Got f (length (fenc f))) \<and>
     (\<forall>n < length (fenc f). dec (take n (fenc f)) = More)"

lemma framed_drain:
  "\<forall>f \<in> set fs. framed dec fenc f \<Longrightarrow> drain dec (concat (map fenc fs)) = (Inr (), [], fs)"
  by (induction fs) (auto simp: framed_def drain_Got)

lemma framed_small:
  "\<forall>f \<in> set fs. framed dec fenc f \<and> length (fenc f) \<le> FRAME_LIMIT \<Longrightarrow>
   small_frames dec (take k (concat (map fenc fs)))"
proof (induction fs arbitrary: k)
  case (Cons f fs)
  have f: "framed dec fenc f" "length (fenc f) \<le> FRAME_LIMIT" using Cons.prems by simp_all
  show ?case
  proof (cases "k < length (fenc f)")
    case True
    then have "dec (take k (fenc f)) = More" using f(1) by (simp add: framed_def)
    then show ?thesis using True f(2) by (simp add: small_frames.simps)
  next
    case False
    then have "take k (concat (map fenc (f # fs))) = fenc f @ take (k - length (fenc f)) (concat (map fenc fs))"
      by simp
    moreover have "dec (fenc f @ ys) = Got f (length (fenc f))" for ys using f(1) by (simp add: framed_def)
    ultimately show ?thesis
      using Cons.IH[of "k - length (fenc f)"] Cons.prems f by (subst small_frames.simps) simp
  qed
qed (simp add: small_frames.simps)

lemma concat_take: "\<exists>n. concat (take k ps) = take n (concat ps)"
proof -
  have "concat ps = concat (take k ps) @ concat (drop k ps)" by (metis append_take_drop_id concat_append)
  then show ?thesis by (intro exI[of _ "length (concat (take k ps))"]) simp
qed

lemma framed_stream:
  assumes "prefix_decoder dec" "\<forall>f \<in> set fs. framed dec fenc f \<and> length (fenc f) \<le> FRAME_LIMIT"
    and "l_linked l" "l_rx l = []" "concat ps = concat (map fenc fs)"
  shows "poll_all dec ps l = (Inr (), l, fs)"
proof -
  have "small_frames dec (l_rx l @ concat (take k ps))" for k
    using concat_take[of k ps] framed_small[OF assms(2)] assms(4,5) by auto
  from poll_all_chunks[OF assms(1) _ _ _ this, of "[]" fs]
  have "poll_all dec ps l = (Inr (), l\<lparr>l_rx := []\<rparr>, fs)"
    using assms framed_drain[of fs dec fenc] framed_small[OF assms(2), of "length (concat ps)"]
    by (simp add: settled_def)
  moreover have "l\<lparr>l_rx := []\<rparr> = l" using assms(4) by (cases l) simp
  ultimately show ?thesis by simp
qed

end
