(* ===== verification/Singleton.thy ===== *)
theory Singleton
  imports Prelude
begin

text \<open>
  \<open>hal/src/singleton.rs\<close>: the take-once guard. A call of \<open>take\<close> is up to three
  atomic accesses to one word; concurrent callers interleave at those accesses, so the guard
  is a step relation on the word and each caller's program point.
\<close>

definition AVAILABLE :: u32 where "AVAILABLE = 0x5A170001"
definition TAKEN :: u32 where "TAKEN = 0x5A170002"

definition is_taken :: "u32 \<Rightarrow> bool" where
  "is_taken raw \<longleftrightarrow> raw = TAKEN"

subsection \<open>One caller, access by access\<close>

text \<open>
  Before the first exchange, before the load, before the second exchange with the word that was
  observed, and returned.
\<close>

datatype pc = First | Load | Second u32 | Returned bool

fun take_step :: "u32 \<Rightarrow> pc \<Rightarrow> u32 \<times> pc" where
  "take_step word First = (if word = AVAILABLE then (TAKEN, Returned True) else (word, Load))"
| "take_step word Load =
     (if is_taken word \<or> word = AVAILABLE then (word, Returned False) else (word, Second word))"
| "take_step word (Second observed) =
     (if word = observed then (TAKEN, Returned True) else (word, Returned False))"
| "take_step word (Returned r) = (word, Returned r)"

definition take_once :: "u32 \<Rightarrow> bool \<times> u32" where
  "take_once word =
     (case take_step word First of (w1, p1) \<Rightarrow>
        case take_step w1 p1 of (w2, p2) \<Rightarrow>
          case take_step w2 p2 of (w3, p3) \<Rightarrow> (p3 = Returned True, w3))"

definition is_claimed :: "u32 \<Rightarrow> bool" where
  "is_claimed word = is_taken word"

subsection \<open>Any number of callers\<close>

type_synonym guard = "u32 \<times> pc list"

definition guard_new :: "u32 \<Rightarrow> nat \<Rightarrow> guard" where
  "guard_new word callers = (word, replicate callers First)"

inductive guard_step :: "guard \<Rightarrow> guard \<Rightarrow> bool" where
  step: "i < length pcs \<Longrightarrow> (\<nexists>r. pcs ! i = Returned r) \<Longrightarrow> take_step word (pcs ! i) = (word', p) \<Longrightarrow>
    guard_step (word, pcs) (word', pcs[i := p])"

inductive_cases guard_stepE: "guard_step (word, pcs) g"

definition winners :: "pc list \<Rightarrow> nat" where
  "winners pcs = length (filter (\<lambda>p. p = Returned True) pcs)"

definition guard_inv :: "u32 \<Rightarrow> guard \<Rightarrow> bool" where
  "guard_inv word0 g = (case g of (word, pcs) \<Rightarrow>
     (word = word0 \<or> word = TAKEN) \<and>
     winners pcs = (if word = TAKEN then 1 else 0) \<and>
     (\<forall>p \<in> set pcs. (p = Load \<longrightarrow> word \<noteq> AVAILABLE) \<and> (\<forall>obs. p = Second obs \<longrightarrow> obs = word0) \<and>
        (p = Returned False \<longrightarrow> word = TAKEN)))"

lemma winners_update:
  "i < length pcs \<Longrightarrow> pcs ! i \<noteq> Returned True \<Longrightarrow>
   winners (pcs[i := p]) = winners pcs + (if p = Returned True then 1 else 0)"
proof -
  assume i: "i < length pcs" "pcs ! i \<noteq> Returned True"
  then have "pcs = take i pcs @ pcs ! i # drop (Suc i) pcs" by (simp add: id_take_nth_drop)
  moreover have "pcs[i := p] = take i pcs @ p # drop (Suc i) pcs"
    using i by (simp add: upd_conv_take_nth_drop)
  ultimately have "winners pcs = winners (take i pcs @ pcs ! i # drop (Suc i) pcs)"
    "winners (pcs[i := p]) = winners (take i pcs @ p # drop (Suc i) pcs)" by simp_all
  then show ?thesis using i by (simp add: winners_def)
qed

lemma tags_differ: "AVAILABLE \<noteq> TAKEN"
  by (simp add: AVAILABLE_def TAKEN_def)

lemma guard_inv_step:
  assumes "guard_step g g'" "guard_inv word0 g" "word0 \<noteq> TAKEN"
  shows "guard_inv word0 g'"
  using assms(1)
proof cases
  case (step i pcs word word' p)
  have inv: "word = word0 \<or> word = TAKEN" "winners pcs = (if word = TAKEN then 1 else 0)"
    "\<And>q. q \<in> set pcs \<Longrightarrow> (q = Load \<longrightarrow> word \<noteq> AVAILABLE) \<and> (\<forall>obs. q = Second obs \<longrightarrow> obs = word0) \<and>
        (q = Returned False \<longrightarrow> word = TAKEN)"
    using assms(2) step(1) by (auto simp: guard_inv_def)
  have mem: "pcs ! i \<in> set pcs" using step(3) by simp
  have upd: "set (pcs[i := p]) \<subseteq> insert p (set pcs)" by (rule set_update_subset_insert)
  have w: "winners (pcs[i := p]) = winners pcs + (if p = Returned True then 1 else 0)"
    using winners_update[OF step(3)] step(4) by auto
  have new: "(word' = word0 \<or> word' = TAKEN) \<and> (word = TAKEN \<longrightarrow> word' = TAKEN) \<and>
      (p = Load \<longrightarrow> word' \<noteq> AVAILABLE) \<and> (\<forall>obs. p = Second obs \<longrightarrow> obs = word0) \<and>
      (p = Returned False \<longrightarrow> word' = TAKEN) \<and> (p = Returned True \<longleftrightarrow> word \<noteq> TAKEN \<and> word' = TAKEN) \<and>
      (word' \<noteq> TAKEN \<longrightarrow> word' = word)"
    using step(4,5) inv(1) inv(3)[OF mem] tags_differ assms(3)
    by (cases "pcs ! i") (auto simp: is_taken_def split: if_splits)
  have "\<forall>q \<in> insert p (set pcs). (q = Load \<longrightarrow> word' \<noteq> AVAILABLE) \<and> (\<forall>obs. q = Second obs \<longrightarrow> obs = word0) \<and>
        (q = Returned False \<longrightarrow> word' = TAKEN)"
    using new inv(3) tags_differ by auto
  then have mem': "\<forall>q \<in> set (pcs[i := p]). (q = Load \<longrightarrow> word' \<noteq> AVAILABLE) \<and>
      (\<forall>obs. q = Second obs \<longrightarrow> obs = word0) \<and> (q = Returned False \<longrightarrow> word' = TAKEN)"
    using upd by blast
  have wins: "winners (pcs[i := p]) = (if word' = TAKEN then 1 else 0)"
  proof -
    have n: "word = TAKEN \<longrightarrow> word' = TAKEN" "p = Returned True \<longleftrightarrow> word \<noteq> TAKEN \<and> word' = TAKEN"
      using new by blast+
    show ?thesis unfolding w inv(2) n(2) using n(1) by simp
  qed
  show ?thesis
    unfolding step(2) guard_inv_def prod.case using mem' wins new by blast
qed

lemma guard_inv_init: "word0 \<noteq> TAKEN \<Longrightarrow> guard_inv word0 (guard_new word0 n)"
  by (auto simp: guard_inv_def guard_new_def winners_def)

lemma guard_inv_reachable:
  assumes "guard_step\<^sup>*\<^sup>* (guard_new word0 n) g" "word0 \<noteq> TAKEN"
  shows "guard_inv word0 g"
  using assms(1)
  by (induction rule: rtranclp_induct) (use guard_inv_init guard_inv_step assms(2) in blast)+

text \<open>
  From any word but \<open>TAKEN\<close>, uninitialised memory included: never two winners, and once
  every caller has returned, exactly one.
\<close>

lemma at_most_one_winner:
  assumes "guard_step\<^sup>*\<^sup>* (guard_new word0 n) (word, pcs)" "word0 \<noteq> TAKEN"
  shows "winners pcs \<le> 1"
  using guard_inv_reachable[OF assms] by (simp add: guard_inv_def split: if_splits)

lemma guard_length: "guard_step\<^sup>*\<^sup>* (w, ps) (w', ps') \<Longrightarrow> length ps' = length ps"
  by (induction rule: rtranclp_induct2) (auto elim!: guard_stepE)

lemma exactly_one_winner:
  assumes "guard_step\<^sup>*\<^sup>* (guard_new word0 (Suc n)) (word, pcs)" "word0 \<noteq> TAKEN"
    "\<forall>p \<in> set pcs. \<exists>r. p = Returned r"
  shows "winners pcs = 1 \<and> is_claimed word"
proof -
  have inv: "winners pcs = (if word = TAKEN then 1 else 0)"
    "\<forall>p \<in> set pcs. p = Returned False \<longrightarrow> word = TAKEN"
    using guard_inv_reachable[OF assms(1,2)] by (auto simp: guard_inv_def)
  have "length pcs = Suc n" using guard_length[of word0 _ word pcs] assms(1) by (simp add: guard_new_def)
  then have h: "hd pcs \<in> set pcs" by (cases pcs) auto
  then obtain r where r: "hd pcs = Returned r" using assms(3) by blast
  have "word = TAKEN"
  proof (cases r)
    case True
    then have "hd pcs \<in> set (filter (\<lambda>p. p = Returned True) pcs)" using h r by simp
    then have "winners pcs \<noteq> 0" by (auto simp: winners_def filter_empty_conv)
    then show ?thesis using inv(1) by (simp split: if_splits)
  next
    case False
    then show ?thesis using inv(2) h r by auto
  qed
  then show ?thesis using inv(1) by (simp add: is_claimed_def is_taken_def)
qed

text \<open>No caller waits for another: three of its own accesses always finish a call.\<close>

fun remaining :: "pc \<Rightarrow> nat" where
  "remaining First = 3" | "remaining Load = 2" | "remaining (Second _) = 1" | "remaining (Returned _) = 0"

lemma take_step_progress: "(\<nexists>r. p = Returned r) \<Longrightarrow> remaining (snd (take_step w p)) < remaining p"
  by (cases p) auto

lemma take_sequential:
  "take_once word = (word \<noteq> TAKEN, TAKEN)"
  using tags_differ by (auto simp: take_once_def is_taken_def)

end
