(* ===== verification/Samples.thy ===== *)
theory Samples
  imports NoncePool Store Identity StmCorrect Comms Singleton
begin

text \<open>
  Concrete inputs: a blank chip of the shipped size, slot pairs on it and what the first
  writes leave, a keygen result, a signing request. The properties are evaluated on them.
\<close>

subsection \<open>Concrete flash\<close>

text \<open>A blank chip of the shipped size and a pair of two-sector slots, for evaluation.\<close>

definition blank_flash :: fake_flash where
  "blank_flash = \<lparr>cells = replicate FLASH_FS_LEN ff, programs = 0, erases = 0,
                 refuse_programs_from = None, refuse_erases_from = None\<rparr>"

definition sample_pair :: ab_slot where
  "sample_pair = \<lparr>slot_a = \<lparr>offset_sector = 0, n_sectors = 2\<rparr>, slot_b = \<lparr>offset_sector = 2, n_sectors = 2\<rparr>\<rparr>"

lemma blank_flash_new: "fake_new 128 = Some blank_flash"
  by (simp add: fake_new_def blank_flash_def FLASH_FS_LEN_def ERASE_SIZE_def)

lemma blank_flash_simps [simp]:
  "length (cells blank_flash) = 524288" "programs blank_flash = 0" "erases blank_flash = 0"
  "refuse_programs_from blank_flash = None" "refuse_erases_from blank_flash = None"
  by (simp_all add: blank_flash_def FLASH_FS_LEN_def)

lemma sample_pair_ok:
  "ab_ok 524288 sample_pair" "fs_part (slot_a sample_pair)" "fs_part (slot_b sample_pair)"
  "part_size (slot_a sample_pair) = 8192" "part_size (slot_b sample_pair) = 8192"
  by (simp_all add: sample_pair_def ab_ok_def part_ok_def disjoint_parts_def part_base_def part_size_def
      fs_part_def FLASH_FS_LEN_def u32_max_def)

lemma blank_current:
  assumes "ab_ok 524288 ab"
  shows "current_slot_and_index fake_ops ab blank_flash = None"
proof -
  have "mem_index P (cells blank_flash) = None" if P: "part_ok 524288 P" for P
  proof (rule blank_region_index)
    show "blank_region P (cells blank_flash)"
      using part_okD(1)[OF P]
      by (auto simp: blank_region_def blank_flash_def FLASH_FS_LEN_def window_def)
    show "part_ok (length (cells blank_flash)) P" using P by simp
  qed
  then show ?thesis
    using fake.current_pick[of blank_flash ab] assms by (simp add: ab_ok_def pick_def)
qed

text \<open>The first write of a pair on a blank chip.\<close>

lemma blank_first_write:
  assumes "ab_ok 524288 ab" "fs_part (slot_a ab)" "fs_part (slot_b ab)" "length v = n"
    "4 + n \<le> part_size (slot_a ab)" "4 + n \<le> part_size (slot_b ab)"
    "part_size (slot_a ab) + part_size (slot_b ab) \<le> u32_max"
  shows "\<exists>s. ab_try_write fake_ops (array_codec n) ab v blank_flash = (Committed, s) \<and>
    length (cells s) = 524288 \<and> refuse_programs_from s = None \<and> refuse_erases_from s = None \<and>
    programs s \<le> part_size (slot_a ab) + part_size (slot_b ab) \<and>
    ab_read fake_ops (array_codec n) ab s = Some v \<and> current_slot_and_index fake_ops ab s = Some (0, 0)"
proof -
  have "length (slot_encode (array_codec n) j v) \<le> part_size (slot_at ab k)" for j k
    using assms(4-6) by (simp add: slot_encode_def slot_at_def)
  from ab_write_fake[of blank_flash, OF _ assms(2,3) _ _ this, of 0 0] assms(1,7) blank_current[OF assms(1)]
  obtain s where s: "ab_try_write fake_ops (array_codec n) ab v blank_flash = (Committed, s)"
    "length (cells s) = 524288" "refuse_programs_from s = None" "refuse_erases_from s = None"
    "programs s \<le> part_size (slot_a ab) + part_size (slot_b ab)"
    by (auto simp: next_slot_and_index_def)
  have "fits (array_codec n) ab v" using assms(4-6) by (simp add: fits_def)
  from fake_ab.committed_reads[OF _ this assms(4) s(1)] assms(1) blank_current[OF assms(1)]
  have "ab_read fake_ops (array_codec n) ab s = Some v" "current_slot_and_index fake_ops ab s = Some (0, 0)"
    by (auto simp: next_slot_and_index_def)
  with s show ?thesis by blast
qed

text \<open>Scheduling a fault does not change what is read.\<close>

lemma reader_cells: "cells s = cells t \<Longrightarrow> slot_reader fake_ops P s = slot_reader fake_ops P t"
  by (intro ext) (simp add: slot_reader_def part_read_def fake_read_def)

lemma reads_cells:
  assumes "cells s = cells t"
  shows "current_slot_and_index fake_ops ab s = current_slot_and_index fake_ops ab t"
    and "ab_read fake_ops C ab s = ab_read fake_ops C ab t"
proof -
  note r = reader_cells[OF assms]
  show c: "current_slot_and_index fake_ops ab s = current_slot_and_index fake_ops ab t"
    unfolding current_slot_and_index_def slot_read_index_def r by (rule refl)
  show "ab_read fake_ops C ab s = ab_read fake_ops C ab t"
    unfolding ab_read_def c slot_read_def r by (rule refl)
qed

lemma refuse_programs_after_simps [simp]:
  "cells (refuse_programs_after m s) = cells s" "programs (refuse_programs_after m s) = programs s"
  "refuse_erases_from (refuse_programs_after m s) = refuse_erases_from s"
  "refuse_programs_from (refuse_programs_after m s) = Some m"
  by (simp_all add: refuse_programs_after_def)

lemma sample_first_write:
  assumes "length v = n" "n \<le> 8188"
  shows "\<exists>s. ab_try_write fake_ops (array_codec n) sample_pair v blank_flash = (Committed, s) \<and>
    length (cells s) = 524288 \<and> refuse_programs_from s = None \<and> refuse_erases_from s = None \<and>
    programs s \<le> 16384 \<and> ab_read fake_ops (array_codec n) sample_pair s = Some v \<and>
    current_slot_and_index fake_ops sample_pair s = Some (0, 0)"
  using blank_first_write[OF sample_pair_ok(1-3) assms(1)] assms(2) by (auto simp: sample_pair_ok u32_max_def)

lemma sample_torn_second:
  assumes "length v0 = 512" "length v = 512"
  shows "\<exists>s s'. length (cells s) = 524288 \<and> refuse_erases_from s = None \<and>
    ab_read fake_ops (array_codec 512) sample_pair s = Some v0 \<and>
    current_slot_and_index fake_ops sample_pair s = Some (0, 0) \<and>
    ab_try_write fake_ops (array_codec 512) sample_pair v s = (CommittedSingleCopy KOther, s')"
proof -
  obtain s where s: "length (cells s) = 524288" "refuse_erases_from s = None" "programs s \<le> 16384"
    "ab_read fake_ops (array_codec 512) sample_pair s = Some v0"
    "current_slot_and_index fake_ops sample_pair s = Some (0, 0)"
    using sample_first_write[of v0 512] assms(1) by auto
  let ?s = "refuse_programs_after (programs s + 97) s"
  have "cells ?s = cells s" by simp
  note refused = reads_cells[OF this]
  have "\<exists>s'. ab_try_write fake_ops (array_codec 512) sample_pair v ?s = (CommittedSingleCopy KOther, s') \<and>
      ab_read fake_ops (array_codec 512) sample_pair s' = Some (torn_512 v)"
    by (rule torn_second_copy[where i = 0])
      (use s assms in \<open>simp_all add: refused sample_pair_ok u32_max_def\<close>)
  then obtain s' where "ab_try_write fake_ops (array_codec 512) sample_pair v ?s = (CommittedSingleCopy KOther, s')"
    by auto
  then show ?thesis by (rule_tac x = ?s in exI, rule_tac x = s' in exI) (use s in \<open>auto simp: refused\<close>)
qed

text \<open>A write whose erase is refused.\<close>

lemma erase_refused:
  assumes "part_ok (length (cells s)) P" "fs_part P" "refuse_erases_from s = Some 0"
  shows "erase_all fake_ops P s = (Inl KOther, s)"
proof -
  have "check_bounds (part_base P) (part_size P) ERASE_SIZE = Inr ()"
    using assms(2) by (simp add: check_bounds_ok_iff ERASE_SIZE_def fs_part_def part_size_dvd)
  then show ?thesis
    using assms(3) by (simp add: fake.erase_all_eq[OF assms(1)] fake_erase_def checked_sub_def scheduled_def)
qed

lemma sample_refused_100:
  "\<exists>s e s'. length (cells s) = 524288 \<and>
    ab_read fake_ops (array_codec 100) sample_pair s = Some (replicate 100 7) \<and>
    ab_try_write fake_ops (array_codec 100) sample_pair (replicate 100 9) s = (NotCommitted e, s')"
proof -
  obtain s where s: "length (cells s) = 524288"
    "ab_read fake_ops (array_codec 100) sample_pair s = Some (replicate 100 7)"
    "current_slot_and_index fake_ops sample_pair s = Some (0, 0)"
    using sample_first_write[of "replicate 100 7" 100] by auto
  let ?s = "s\<lparr>refuse_erases_from := Some 0\<rparr>"
  have "cells ?s = cells s" by simp
  note refused = reads_cells[OF this]
  have "erase_all fake_ops (slot_b sample_pair) ?s = (Inl KOther, ?s)"
    using sample_pair_ok s(1) by (intro erase_refused) (simp_all add: ab_ok_def)
  then have "ab_try_write fake_ops (array_codec 100) sample_pair (replicate 100 9) ?s = (NotCommitted KOther, ?s)"
    using s(3)
    by (simp add: refused ab_try_write_def next_slot_and_index_def slot_try_write_def slot_at_def
        u32_checked_add_def u32_max_def u32_lim_def)
  then show ?thesis using s by (intro exI[of _ ?s]) (auto simp: refused)
qed

subsection \<open>A finished key generation\<close>

definition sample_hash :: "bytes \<Rightarrow> bytes" where
  "sample_hash x = replicate 32 (word_of_nat (length x mod 251))"

definition sample_share :: encrypted_secret_share where
  "sample_share = \<lparr>es_share_image = \<lparr>si_index = 1, si_image = replicate 33 3\<rparr>,
     es_ciphertext = \<lparr>ct_data = replicate 32 4, ct_nonce = replicate 12 5, ct_tag = replicate 16 6\<rparr>\<rparr>"

definition sample_keygen :: keygen_phase4 where
  "sample_keygen = \<lparr>k4_key_name = [0x6b, 0x65, 0x79], k4_key_purpose = PTest,
     k4_access_structure_ref = \<lparr>ar_key_id = replicate 32 1, ar_access_structure_id = replicate 32 2\<rparr>,
     k4_access_structure_kind = Master, k4_threshold = 2, k4_encrypted_secret_share = sample_share\<rparr>"

text \<open>A stand-in for the encoder: one coded value, written as 120 bytes.\<close>

definition sample_cenc :: "coded \<Rightarrow> bytes" where "sample_cenc c = replicate 120 9"
definition sample_cdec :: "bytes \<Rightarrow> (coded \<times> nat) option" where
  "sample_cdec bs = Some ((PTest, Master, sample_share), 120)"

lemma sample_hash_ok: "hash_ok sample_hash"
  by (simp add: hash_ok_def sample_hash_def)

lemma sample_tag: "tag_of sample_hash x \<noteq> replicate 8 ff" "id_tag_of sample_hash x \<noteq> replicate 8 ff"
proof -
  have "(word_of_nat (n mod 251) :: u8) \<noteq> ff" for n
  proof
    assume e: "(word_of_nat (n mod 251) :: u8) = ff"
    have "n mod 251 < 251" by simp
    then have "unat (word_of_nat (n mod 251) :: u8) = n mod 251" by (simp add: unat_of_nat)
    then show False using e \<open>n mod 251 < 251\<close> by simp
  qed
  then show "tag_of sample_hash x \<noteq> replicate 8 ff" "id_tag_of sample_hash x \<noteq> replicate 8 ff"
    by (simp_all add: tag_of_def id_tag_of_def sample_hash_def CHECK_LEN_def TAG_LEN_def replicate_eq_replicate)
qed

lemma sample_keygen_ok: "keygen_ok sample_keygen"
  by (simp add: keygen_ok_def sample_keygen_def) code_simp

lemma sample_decodes: "decodes sample_cenc sample_cdec (coded_of (body_of sample_keygen))"
  by (simp add: decodes_def sample_cenc_def sample_cdec_def coded_of_def body_of_def sample_keygen_def
      split: prod.split)

lemma sample_seal:
  obtains rc where "seal sample_hash sample_cenc (body_of sample_keygen) = Inr rc" "length rc = 512"
proof -
  obtain rc where r: "seal sample_hash sample_cenc (body_of sample_keygen) = Inr rc"
    by (simp add: seal_def Let_def store_nums sample_cenc_def)
  from that[OF r seal_length[OF sample_hash_ok body_of_ok[OF sample_keygen_ok] r]] show ?thesis .
qed

text \<open>The share store after a first save on a blank chip.\<close>

lemma sample_store:
  obtains ab where "store_open = Some ab" "ab_ok 524288 ab" "fs_part (slot_a ab)" "fs_part (slot_b ab)"
    "part_size (slot_a ab) = 8192" "part_size (slot_b ab) = 8192"
proof -
  obtain ab where ab: "store_open = Some ab" using store_open_slots by blast
  have "part_size (slot_a ab) = 8192" "part_size (slot_b ab) = 8192"
    using ab by (auto simp: store_open_slots part_size_def)
  with that[OF ab] store_slots_ok[OF ab, of 524288] show ?thesis by (simp add: FLASH_FS_LEN_def u32_max_def)
qed

subsection \<open>A first boot\<close>

lemma sample_scalar: "scalar_is_in_range (replicate 32 5)"
  by code_simp

lemma blank_identity:
  "nf_read fake_ops blank_flash FS_IDENTITY_OFFSET ID_RECORD_LEN = Inr (replicate 48 ff)"
  "id_classify sample_hash (replicate 48 ff) = IVacant"
proof -
  show "nf_read fake_ops blank_flash FS_IDENTITY_OFFSET ID_RECORD_LEN = Inr (replicate 48 ff)"
    by (simp add: fake_read_def FS_IDENTITY_OFFSET_def ID_RECORD_LEN_def blank_flash_def FLASH_FS_LEN_def
        window_def)
  have "id_torn sample_hash (replicate 32 5) 0 = replicate 48 ff" by (simp add: id_torn_def)
  then show "id_classify sample_hash (replicate 48 ff) = IVacant"
    using id_classify_torn[OF sample_hash_ok, of "replicate 32 5" 0] sample_tag(2) by simp
qed

lemma sample_draws:
  "List.find scalar_is_in_range (id_draws (\<lambda>n r. (replicate n (word_of_nat r), Suc r)) GENERATE_ATTEMPTS 0) =
     Some (replicate 32 1)"
  by code_simp

lemma sample_identity:
  "\<exists>s'. load_or_create fake_ops sample_hash (\<lambda>n r. (replicate n 5, Suc r)) blank_flash 0 =
      (Inr (replicate 32 5), s', Suc 0)"
proof -
  obtain n where n: "GENERATE_ATTEMPTS = Suc n" by (simp add: GENERATE_ATTEMPTS_def)
  have "id_generate (\<lambda>n r. (replicate n 5, Suc r)) GENERATE_ATTEMPTS 0 = (Some (replicate 32 5), Suc 0)"
    using sample_scalar by (simp add: n SECRET_LEN_def)
  from load_or_create_fake[OF _ _ _ sample_hash_ok blank_identity this] show ?thesis
    by (simp add: FS_IDENTITY_LEN_def)
qed

subsection \<open>A signing request\<close>

definition sample_env :: "bytes nonce_env" where
  "sample_env = \<lparr>ne_derive = (\<lambda>sid i seed. seed), ne_keystream = (\<lambda>seed n len. replicate len (hd seed + 1)),
     ne_public = (\<lambda>secret. take 32 secret)\<rparr>"

definition sample_slot :: secret_nonce_slot where
  "sample_slot = \<lparr>sn_index = 0, sn_stream_id = replicate 16 1, sn_seed = replicate 32 2, sn_last_used = 0,
     sn_signing_state = None\<rparr>"

definition sample_state :: coord_nonce_state where
  "sample_state = \<lparr>cn_stream_id = replicate 16 1, cn_index = 5, cn_remaining = 30\<rparr>"

definition sample_sessions :: "(bytes \<Rightarrow> signature_share) list" where
  "sample_sessions = [\<lambda>nonce. take 32 nonce, \<lambda>nonce. replicate 32 8]"

abbreviation sample_session :: session_id where "sample_session \<equiv> replicate 32 9"

definition sample_signed :: secret_nonce_slot where
  "sample_signed = \<lparr>sn_index = 7, sn_stream_id = replicate 16 1, sn_seed = replicate 32 9, sn_last_used = 1,
     sn_signing_state = Some \<lparr>sst_session_id = sample_session,
       sst_signature_shares = [replicate 32 8, replicate 32 8]\<rparr>\<rparr>"

lemma sample_signed_slot:
  "signed_slot sample_env sample_slot sample_session (cn_index sample_state) 1 sample_sessions = sample_signed"
  by code_simp

abbreviation "any_share \<equiv> (\<lambda>_. True) :: bytes \<Rightarrow> bool"

lemma sample_short:
  "short (nonce_codec any_share) (slot_wf any_share) sample_slot"
  "short (nonce_codec any_share) (slot_wf any_share) sample_signed"
  by (simp_all add: short_def slot_wf_def sample_slot_def sample_signed_def nonce_codec_def nonce_enc_def
      signing_state_enc_def)

lemma sample_request:
  "\<not> cached sample_slot sample_session" "cn_stream_id sample_state = sn_stream_id sample_slot"
  "sn_index sample_slot \<le> cn_index sample_state" "sample_sessions \<noteq> []"
  "cn_index sample_state - sn_index sample_slot \<le> u32_sat_mul 30 MAX_NONCE_SKIP_BATCHES"
  "cn_index sample_state + length sample_sessions \<le> u32_max"
  by (simp_all add: cached_def sample_slot_def sample_state_def sample_sessions_def u32_sat_mul_def
      MAX_NONCE_SKIP_BATCHES_def u32_max_def)

abbreviation "sample_nonce_ops \<equiv> nonce_ab_ops fake_ops (nonce_codec any_share) nonce_pairs"

text \<open>A chip whose first nonce slot holds the sample stream.\<close>

lemma sample_nonce_world:
  obtains w k j where "healthy 8192 (nw_flash w)" "sl_read sample_nonce_ops w 0 = Some sample_slot"
    "next_slot_and_index (current_slot_and_index fake_ops (nonce_pairs ! 0) (nw_flash w)) = Some (k, j)"
proof -
  let ?w = "\<lparr>nw_flash = blank_flash, nw_last_write = []\<rparr>"
  have h: "healthy (8192 + 8192) (nw_flash ?w)" by (simp add: healthy_def FLASH_FS_LEN_def u32_max_def)
  have "ab_ok 524288 (nonce_pairs ! 0)"
    using nonce_pair_ok(1)[of blank_flash 0] by (simp add: FLASH_FS_LEN_def)
  from blank_current[OF this] have n:
    "next_slot_and_index (current_slot_and_index fake_ops (nonce_pairs ! 0) (nw_flash ?w)) = Some (0, 0)"
    by (simp add: next_slot_and_index_def)
  obtain s' where s': "healthy 8192 s'" "ab_read fake_ops (nonce_codec any_share) (nonce_pairs ! 0) s' = Some sample_slot"
    "current_slot_and_index fake_ops (nonce_pairs ! 0) s' = Some (0, 0)"
    using fake_nonce_write[OF h _ sample_short(1) n] by auto
  show ?thesis
    by (rule that[of "\<lparr>nw_flash = s', nw_last_write = []\<rparr>" 1 1])
      (use s' in \<open>simp_all add: nonce_ab_ops_def next_slot_and_index_def u32_checked_add_def u32_max_def u32_lim_def
        nonce_pairs_def\<close>)
qed

lemma sample_shares:
  "map (\<lambda>k. (sample_sessions ! k) (secret_at sample_env sample_slot (cn_index sample_state + k)))
     [0 ..< length sample_sessions] = [replicate 32 8, replicate 32 8]"
  by code_simp

lemma sample_mem_signed:
  "\<exists>job w'. slot_sign mem_ops sample_env 0 sample_session sample_state 1 sample_sessions 30 [Some sample_slot] =
     Some (Inr ([replicate 32 8, replicate 32 8], job), w') \<and> sl_read mem_ops w' 0 = Some sample_signed"
proof -
  have g: "mem_good 1 [Some sample_slot]" by (simp add: mem_good_def sample_slot_def u32_max_def)
  have r: "sl_read mem_ops [Some sample_slot] 0 = Some sample_slot" by (simp add: mem_ops_def)
  from mem.sign_serves[OF g _ r sample_request(1,2,3,5,4,6), of sample_env 1]
  show ?thesis unfolding sample_shares sample_signed_slot by auto
qed

lemma sample_nonce_signed:
  obtains w job w' where "healthy 8192 (nw_flash w)" "sl_read sample_nonce_ops w 0 = Some sample_slot"
    "slot_sign sample_nonce_ops sample_env 0 sample_session sample_state 1 sample_sessions 30 w =
       Some (Inr ([replicate 32 8, replicate 32 8], job), w')"
    "sl_read sample_nonce_ops w' 0 = Some sample_signed"
proof -
  obtain w k j where w: "healthy (8192 + 0) (nw_flash w)" "sl_read sample_nonce_ops w 0 = Some sample_slot"
    "next_slot_and_index (current_slot_and_index fake_ops (nonce_pairs ! 0) (nw_flash w)) = Some (k, j)"
    using sample_nonce_world by auto
  from fake_sign_serves[OF w(1) _ w(2) sample_request(1,2,3,5,4,6) _ w(3), of sample_env 1]
  obtain job w' where "slot_sign sample_nonce_ops sample_env 0 sample_session sample_state 1 sample_sessions 30 w =
       Some (Inr ([replicate 32 8, replicate 32 8], job), w')"
    "sl_read sample_nonce_ops w' 0 = Some sample_signed"
    unfolding sample_signed_slot sample_shares using sample_short(2) by auto
  with that w show ?thesis by simp
qed

subsection \<open>Opening a stream\<close>

lemma sample_opened:
  "\<exists>jobs Pr'. open_nonce_streams mem_ops (\<lambda>r. (replicate 32 r, r + 1)) 30 [sample_state, sample_state]
      (\<lparr>as_slots = [Some sample_slot], as_count = 1, as_last_used = 0\<rparr>, 4 :: u8) = Some (jobs, Pr') \<and>
    length (jobs :: bytes nonce_job list) = 1"
  by (simp add: open_nonce_streams_def ordered_streams_def get_or_create_def slots_get_def mem_ops_def sample_state_def
      sample_slot_def reconcile_def reconcile_length_def try_nonce_task_def u32_lim_def u32_sat_add_def
      u32_max_def Let_def)

subsection \<open>A chip\<close>

text \<open>Unlocked, idle, and storing what it is told: the least a driver can be run on.\<close>

definition sample_chip :: "(nat \<Rightarrow> u8) hardware" where
  "sample_chip = \<lparr>hw_read = (\<lambda>r h. (if r = OPTR then bitv 22 else 0, h)),
     hw_store = (\<lambda>e h. case e of RegWrite r v \<Rightarrow> h
       | DataStore a v \<Rightarrow> (\<lambda>x. if a \<le> x \<and> x < a + 4 then le_bytes 4 (unat v) ! (x - a) else h x)),
     hw_load = (\<lambda>a h. h a)\<rparr>"

lemma sample_chip_ops:
  "rd sample_chip r m = (if r = OPTR then bitv 22 else 0, m)"
  "emit sample_chip (RegWrite r v) m = (fst m, snd m @ [RegWrite r v])"
  "emit sample_chip (DataStore a v) m = (\<lambda>x. if a \<le> x \<and> x < a + 4 then le_bytes 4 (unat v) ! (x - a) else fst m x,
     snd m @ [DataStore a v])"
  by (simp_all add: rd_def emit_def sample_chip_def)

lemma sample_chip_modify:
  "modify_reg sample_chip r f m = (fst m, snd m @ [RegWrite r (f (if r = OPTR then bitv 22 else 0))])"
  by (simp add: modify_reg_def sample_chip_ops)

lemma sample_chip_wait: "sr_wait_done (mmio sample_chip) n m = (Inr (), m)"
  by (subst sr_wait_done.simps) (simp add: mmio_def sample_chip_ops)

lemmas sample_chip_simps = sample_chip_ops sample_chip_modify sample_chip_wait wait_done_def unlock_def lock_def data_cache_disable_def
  data_cache_reset_and_enable_def

lemma sample_prologue:
  "operation_prologue sample_chip m = (Inr (), (fst m, snd m @ [RegWrite SR 0]))"
  by (simp add: operation_prologue_def sr_prologue_def sample_chip_simps) (simp add: mmio_def sample_chip_ops)

definition sample_dw :: bytes where "sample_dw = [1, 0, 0, 0, 2, 0, 0, 0]"

lemma sample_dw_facts:
  "length sample_dw = 8" "sample_dw \<noteq> []" "chunks8 sample_dw = [sample_dw]" "window sample_dw 0 8 = sample_dw"
  "le_bytes 4 (unat (word_of_nat (of_le (take 4 sample_dw)) :: u32)) = [1, 0, 0, 0]"
  "le_bytes 4 (unat (word_of_nat (of_le (drop 4 sample_dw)) :: u32)) = [2, 0, 0, 0]"
  by code_simp+

text \<open>The memory after the doubleword is stored at offset 64.\<close>

definition sample_mem :: "nat \<Rightarrow> u8" where
  "sample_mem = (\<lambda>x. if FLASH_FS_BASE + 68 \<le> x \<and> x < FLASH_FS_BASE + 72 then [2, 0, 0, 0] ! (x - (FLASH_FS_BASE + 68))
     else if FLASH_FS_BASE + 64 \<le> x \<and> x < FLASH_FS_BASE + 68 then [1, 0, 0, 0] ! (x - (FLASH_FS_BASE + 64)) else ff)"

lemma sample_stm_write:
  "\<exists>es. stm_write sample_chip 64 sample_dw (\<lambda>_. ff, []) = (Inr (), (sample_mem, es)) \<and> es \<noteq> []"
proof -
  have b: "check_bounds 64 8 WRITE_SIZE = Inr ()" by (simp add: check_bounds_ok_iff WRITE_SIZE_def FLASH_FS_LEN_def)
  have o: "u32_checked_add FLASH_FS_BASE 64 = Some (FLASH_FS_BASE + 64)"
    "u32_checked_add (FLASH_FS_BASE + 64) 0 = Some (FLASH_FS_BASE + 64)" "\<not> FLASH_FS_BASE + 64 < FLASH_ERASE_FLOOR"
    by (simp_all add: u32_checked_add_def FLASH_FS_BASE_def u32_lim_def FLASH_ERASE_FLOOR_def)
  have "\<exists>es. program_one sample_chip 64 0 sample_dw (\<lambda>_. ff, us) = (Inr (), (sample_mem, us @ es))" for us
    by (simp add: program_one_def o sample_dw_facts sample_prologue sample_chip_simps u32_lim_def Let_def
        sample_mem_def add.assoc fun_eq_iff)
  from this[of "[]"] show ?thesis
    by (auto simp: stm_write_def b sample_dw_facts sample_chip_simps)
qed

lemma sample_stm_erase:
  "\<exists>m'. stm_erase sample_chip 4096 8192 (\<lambda>_. ff, []) = (Inr (), m') \<and> m' \<noteq> (\<lambda>_. ff, [])"
proof -
  have b: "check_bounds 4096 4096 ERASE_SIZE = Inr ()" by (simp add: check_bounds_ok_iff ERASE_SIZE_def FLASH_FS_LEN_def)
  have "\<exists>es. erase_one sample_chip 4096 m = (Inr (), (fst m, snd m @ es))" for m
    by (simp add: erase_one_def fs_erase_page FLASH_FS_LEN_def sample_prologue sample_chip_simps Let_def)
  then obtain es where "erase_one sample_chip 4096 (\<lambda>_. ff, []) = (Inr (), (\<lambda>_. ff, es))"
    by (metis append_Nil fst_conv snd_conv)
  then have "erase_loop sample_chip 4096 8192 (\<lambda>_. ff, []) = (Inr (), (\<lambda>_. ff, es))"
    by (simp add: erase_loop.simps[of sample_chip 4096] erase_loop.simps[of sample_chip 8192] ERASE_SIZE_def)
  then show ?thesis by (simp add: stm_erase_def checked_sub_def b sample_chip_simps)
qed

lemma sample_write_verified:
  "\<exists>m'. write_verified sample_chip 64 sample_dw (\<lambda>_. ff, []) = (Inr (), m') \<and> fst m' = sample_mem"
proof -
  obtain es where w: "stm_write sample_chip 64 sample_dw (\<lambda>_. ff, []) = (Inr (), (sample_mem, es))"
    using sample_stm_write by blast
  have "stm_read sample_chip 64 8 (sample_mem, es) = Inr sample_dw"
  proof -
    have "check_bounds 64 8 1 = Inr ()" by (simp add: check_bounds_ok_iff FLASH_FS_LEN_def)
    then show ?thesis
      by (simp add: stm_read_def sample_chip_def sample_mem_def upt_rec sample_dw_def)
  qed
  then have "verify_loop sample_chip 64 sample_dw 0 (sample_mem, es) = Inr ()"
    by (simp add: sample_dw_facts verify_loop.simps[of _ _ _ 0] verify_loop.simps[of _ _ _ 8] WRITE_SIZE_def u32_add_def u32_lim_def)
  then show ?thesis using w by (simp add: write_verified_def)
qed

subsection \<open>Frames\<close>

text \<open>A length byte and that many bytes.\<close>

definition sample_dec :: "bytes \<Rightarrow> bytes decoded" where
  "sample_dec xs = (case xs of [] \<Rightarrow> More
     | n # ys \<Rightarrow> if length ys < unat n then More else Got (take (unat n) ys) (Suc (unat n)))"

lemma sample_dec_prefix: "prefix_decoder sample_dec"
  by (auto simp: prefix_decoder_def sample_dec_def split: list.splits if_splits)

lemma sample_poll_bad:
  "\<exists>l' fs. poll (\<lambda>_. Bad :: unit decoded) [1, 2, 3] (link_new\<lparr>l_linked := True\<rparr>) = (Inl Desync, l', fs)"
  by (simp add: poll_def link_new_def FRAME_LIMIT_def drain_link_def drain.simps)

subsection \<open>A backup\<close>

definition sample_image :: "share_backup \<Rightarrow> share_image" where
  "sample_image b = \<lparr>si_index = sb_index b, si_image = sb_share b\<rparr>"

definition sample_backup :: share_backup where
  "sample_backup = \<lparr>sb_index = 3, sb_share = replicate 32 4, sb_poly_checksum = 5\<rparr>"

end
