(* ===== verification/Keypad.thy ===== *)
theory Keypad
  imports Prelude
begin

text \<open>
  The 4x3 membrane pad (\<open>hal/src/keypad.rs\<close>): the pin map and the masks derived from it, row
  selection and column sampling, the shuffled scan, the debounce window and its verdict, and the
  register pokes, over an arbitrary GPIO hardware with a trace of its register writes. Delay
  loops have no effect and are left out.
\<close>

type_synonym u16 = "16 word"

subsection \<open>Geometry\<close>

definition NUM_ROWS :: nat where "NUM_ROWS = 4"
definition NUM_COLS :: nat where "NUM_COLS = 3"
definition KEY_COUNT :: nat where "KEY_COUNT = NUM_ROWS * NUM_COLS"
definition COL_PINS :: "nat list" where "COL_PINS = [0, 1, 2]"
definition ROW_PINS :: "nat list" where "ROW_PINS = [8, 9, 10, 11]"

text \<open>\<open>b"y0x987654321"\<close>.\<close>

definition DECODER :: "u8 list" where
  "DECODER = [0x79, 0x30, 0x78, 0x39, 0x38, 0x37, 0x36, 0x35, 0x34, 0x33, 0x32, 0x31]"

definition KEY_CANCEL :: u8 where "KEY_CANCEL = 0x78"
definition KEY_OK :: u8 where "KEY_OK = 0x79"
definition CANCEL_INDEX :: nat where "CANCEL_INDEX = 2"

subsection \<open>Masks\<close>

definition field2_mask :: "nat list \<Rightarrow> u32" where
  "field2_mask pins = fold (\<lambda>p m. m OR push_bit (p * 2) 3) pins 0"

definition field2_value :: "nat list \<Rightarrow> u32 \<Rightarrow> u32" where
  "field2_value pins v = fold (\<lambda>p m. m OR push_bit (p * 2) (v AND 3)) pins 0"

definition field1_mask :: "nat list \<Rightarrow> u32" where
  "field1_mask pins = fold (\<lambda>p m. m OR push_bit p 1) pins 0"

definition bsrr_set :: "u32 \<Rightarrow> u32" where "bsrr_set m = m"
definition bsrr_clear :: "u32 \<Rightarrow> u32" where "bsrr_clear m = push_bit 16 m"

definition COL_MODER_MASK :: u32 where "COL_MODER_MASK = field2_mask COL_PINS"
definition COL_PUPDR_MASK :: u32 where "COL_PUPDR_MASK = COL_MODER_MASK"
definition COL_PUPDR_PULLUP :: u32 where "COL_PUPDR_PULLUP = field2_value COL_PINS 1"
definition COL_MASK :: u32 where "COL_MASK = field1_mask COL_PINS"
definition ROW_MODER_MASK :: u32 where "ROW_MODER_MASK = field2_mask ROW_PINS"
definition ROW_MODER_OUTPUT :: u32 where "ROW_MODER_OUTPUT = field2_value ROW_PINS 1"
definition ROW_PUPDR_MASK :: u32 where "ROW_PUPDR_MASK = ROW_MODER_MASK"
definition ROW_OTYPER_OD :: u32 where "ROW_OTYPER_OD = field1_mask ROW_PINS"
definition ROW_MASK :: u32 where "ROW_MASK = ROW_OTYPER_OD"
definition ROWS_ALL_LOW :: u32 where "ROWS_ALL_LOW = bsrr_clear ROW_MASK"
definition ROWS_ALL_RELEASED :: u32 where "ROWS_ALL_RELEASED = bsrr_set ROW_MASK"
definition RCC_AHB2ENR_GPIOBEN :: u32 where "RCC_AHB2ENR_GPIOBEN = bitv 1"
definition RCC_AHB2ENR_GPIODEN :: u32 where "RCC_AHB2ENR_GPIODEN = bitv 3"
definition DEBOUNCE_SAMPLES :: nat where "DEBOUNCE_SAMPLES = 3"

subsection \<open>Decoding\<close>

definition key_at :: "nat \<Rightarrow> nat \<Rightarrow> u8 option" where
  "key_at row col =
     (if NUM_ROWS \<le> row \<or> NUM_COLS \<le> col then None
      else if row * NUM_COLS + col < length DECODER then Some (DECODER ! (row * NUM_COLS + col)) else None)"

definition pressed_cols :: "u32 \<Rightarrow> u8" where
  "pressed_cols idr = ucast (NOT idr AND COL_MASK)"

definition row_select :: "nat \<Rightarrow> u32" where
  "row_select row =
     (if row < length ROW_PINS
      then bsrr_clear (push_bit (ROW_PINS ! row) 1) OR
           (bsrr_set ROW_MASK AND NOT (bsrr_set (push_bit (ROW_PINS ! row) 1)))
      else ROWS_ALL_RELEASED)"

definition row_bits :: "nat \<Rightarrow> u8 \<Rightarrow> u16" where
  "row_bits row cols =
     (if NUM_ROWS \<le> row then 0 else push_bit (row * NUM_COLS) (ucast (ucast cols AND COL_MASK)))"

datatype keypad_error = ColumnsStuckLow u32

definition check_idle_columns :: "u32 \<Rightarrow> keypad_error + unit" where
  "check_idle_columns idr = (if idr AND COL_MASK \<noteq> COL_MASK then Inl (ColumnsStuckLow idr) else Inr ())"

subsection \<open>The row order\<close>

fun shuffle_down :: "('r \<Rightarrow> u32 \<times> 'r) \<Rightarrow> nat \<Rightarrow> nat list \<Rightarrow> 'r \<Rightarrow> nat list \<times> 'r" where
  "shuffle_down next_u32 0 order r = (order, r)"
| "shuffle_down next_u32 (Suc i) order r =
     (if i = 0 then (order, r)
      else (case next_u32 r of (v, r') \<Rightarrow>
              shuffle_down next_u32 i (swap_at i (unat v mod (i + 1)) order) r'))"

definition shuffle_rows :: "('r \<Rightarrow> u32 \<times> 'r) \<Rightarrow> 'r \<Rightarrow> nat list \<times> 'r" where
  "shuffle_rows next_u32 r = shuffle_down next_u32 NUM_ROWS [0 ..< NUM_ROWS] r"

subsection \<open>Debouncing\<close>

datatype key_event = AllUp | Down u8 | MultiKey | Unsettled

record debounce =
  db_history :: "nat list"
  db_samples :: nat
  db_multi :: bool

definition debounce_new :: debounce where
  "debounce_new = \<lparr>db_history = replicate KEY_COUNT 0, db_samples = 0, db_multi = False\<rparr>"

definition u8_sat_inc :: "nat \<Rightarrow> nat" where "u8_sat_inc n = min 255 (n + 1)"

definition count_ones :: "u16 \<Rightarrow> nat" where
  "count_ones w = length (filter (bit w) [0 ..< 16])"

fun verdict_loop :: "nat \<Rightarrow> nat list \<Rightarrow> u8 option \<Rightarrow> bool \<Rightarrow> key_event" where
  "verdict_loop i [] down any_contact =
     (case down of Some key \<Rightarrow> Down key | None \<Rightarrow> if any_contact then Unsettled else AllUp)"
| "verdict_loop i (c # cs) down any_contact =
     (if c = 0 then verdict_loop (i + 1) cs down any_contact
      else if DEBOUNCE_SAMPLES \<le> c
      then (if down \<noteq> None then MultiKey
            else verdict_loop (i + 1) cs (if i < length DECODER then Some (DECODER ! i) else None) True)
      else verdict_loop (i + 1) cs down True)"

definition verdict :: "debounce \<Rightarrow> key_event" where
  "verdict d = (if db_multi d then MultiKey else verdict_loop 0 (db_history d) None False)"

definition debounce_push :: "u16 \<Rightarrow> debounce \<Rightarrow> key_event option \<times> debounce" where
  "debounce_push bitmap d =
     (let d1 = d\<lparr>db_multi := (db_multi d \<or> 1 < count_ones bitmap),
                 db_history := map (\<lambda>(i, c). if bit bitmap i then u8_sat_inc c else c)
                                 (List.enumerate 0 (db_history d)),
                 db_samples := u8_sat_inc (db_samples d)\<rparr> in
      if db_samples d1 < DEBOUNCE_SAMPLES then (None, d1) else (Some (verdict d1), debounce_new))"

subsection \<open>The port\<close>

datatype gpio_reg = RCC_AHB2ENR | GPIOB_MODER | GPIOB_PUPDR | GPIOB_IDR
  | GPIOD_MODER | GPIOD_OTYPER | GPIOD_PUPDR | GPIOD_BSRR

record 'h gpio =
  gp_read :: "gpio_reg \<Rightarrow> 'h \<Rightarrow> u32"
  gp_write :: "gpio_reg \<Rightarrow> u32 \<Rightarrow> 'h \<Rightarrow> 'h"

definition bsrr_write :: "'h gpio \<Rightarrow> u32 \<Rightarrow> 'h \<Rightarrow> 'h" where
  "bsrr_write G word = gp_write G GPIOD_BSRR word"

definition gp_modify :: "'h gpio \<Rightarrow> gpio_reg \<Rightarrow> (u32 \<Rightarrow> u32) \<Rightarrow> 'h \<Rightarrow> 'h" where
  "gp_modify G r f h = gp_write G r (f (gp_read G r h)) h"

definition enable_clocks :: "'h gpio \<Rightarrow> 'h \<Rightarrow> 'h" where
  "enable_clocks G h =
     (let want = RCC_AHB2ENR_GPIOBEN OR RCC_AHB2ENR_GPIODEN; en = gp_read G RCC_AHB2ENR h in
      if en AND want \<noteq> want then gp_write G RCC_AHB2ENR (en OR want) h else h)"

definition init_pins :: "'h gpio \<Rightarrow> 'h \<Rightarrow> 'h" where
  "init_pins G h0 =
     (let h1 = gp_modify G GPIOD_OTYPER (\<lambda>v. v OR ROW_OTYPER_OD) h0;
          h2 = gp_modify G GPIOD_PUPDR (\<lambda>v. v AND NOT ROW_PUPDR_MASK) h1;
          h3 = gp_write G GPIOD_BSRR ROWS_ALL_RELEASED h2;
          h4 = gp_modify G GPIOD_MODER (\<lambda>v. v AND NOT ROW_MODER_MASK OR ROW_MODER_OUTPUT) h3;
          h5 = gp_modify G GPIOB_PUPDR (\<lambda>v. v AND NOT COL_PUPDR_MASK OR COL_PUPDR_PULLUP) h4 in
      gp_modify G GPIOB_MODER (\<lambda>v. v AND NOT COL_MODER_MASK) h5)"

definition keypad_open :: "'h gpio \<Rightarrow> 'h \<Rightarrow> (keypad_error + unit) \<times> 'h" where
  "keypad_open G h =
     (let h1 = init_pins G (enable_clocks G h) in
      case check_idle_columns (gp_read G GPIOB_IDR h1) of
        Inl e \<Rightarrow> (Inl e, h1)
      | Inr _ \<Rightarrow> (Inr (), bsrr_write G ROWS_ALL_LOW h1))"

fun scan_rows :: "'h gpio \<Rightarrow> nat list \<Rightarrow> u16 \<Rightarrow> 'h \<Rightarrow> u16 \<times> 'h" where
  "scan_rows G [] bitmap h = (bitmap, h)"
| "scan_rows G (row # rows) bitmap h =
     (let h1 = bsrr_write G (row_select row) h in
      scan_rows G rows (bitmap OR row_bits row (pressed_cols (gp_read G GPIOB_IDR h1))) h1)"

definition scan_once :: "'h gpio \<Rightarrow> ('r \<Rightarrow> u32 \<times> 'r) \<Rightarrow> 'h \<times> 'r \<Rightarrow> u16 \<times> 'h \<times> 'r" where
  "scan_once G next_u32 hr =
     (case hr of (h, r) \<Rightarrow>
        case shuffle_rows next_u32 r of (order, r') \<Rightarrow>
          case scan_rows G order 0 h of (bitmap, h') \<Rightarrow> (bitmap, bsrr_write G ROWS_ALL_LOW h', r'))"

fun read_loop :: "'h gpio \<Rightarrow> ('r \<Rightarrow> u32 \<times> 'r) \<Rightarrow> nat \<Rightarrow> debounce \<Rightarrow> 'h \<times> 'r \<Rightarrow> key_event \<times> 'h \<times> 'r" where
  "read_loop G next_u32 0 d hr = (Unsettled, hr)"
| "read_loop G next_u32 (Suc n) d hr =
     (case scan_once G next_u32 hr of (bitmap, hr') \<Rightarrow>
        case debounce_push bitmap d of
          (Some event, d') \<Rightarrow> (event, hr')
        | (None, d') \<Rightarrow> read_loop G next_u32 n d' hr')"

definition read_key :: "'h gpio \<Rightarrow> ('r \<Rightarrow> u32 \<times> 'r) \<Rightarrow> 'h \<times> 'r \<Rightarrow> key_event \<times> 'h \<times> 'r" where
  "read_key G next_u32 hr = read_loop G next_u32 DEBOUNCE_SAMPLES debounce_new hr"

end
