(* ===== verification/KeypadCorrect.thy ===== *)
theory KeypadCorrect
  imports Keypad
begin

text \<open>
  What the pad promises (\<open>hal/src/keypad.rs\<close>): the row order is a permutation whatever the
  generator returns, the debounce verdict over three scans, and, over the contract of a pad of
  contacts behind two GPIO ports, that a scan reads the contact graph and that one reported key is
  one closed contact.
\<close>

subsection \<open>The row order is a permutation\<close>

lemma shuffle_down_permutes:
  "n \<le> length order \<Longrightarrow> set (fst (shuffle_down next_u32 n order r)) = set order \<and>
     distinct (fst (shuffle_down next_u32 n order r)) = distinct order"
proof (induction n arbitrary: order r)
  case (Suc i)
  show ?case
  proof (cases "i = 0")
    case False
    obtain v r' where v: "next_u32 r = (v, r')" by fastforce
    have j: "unat v mod (i + 1) < length order"
      using Suc.prems mod_less_divisor[of "i + 1" "unat v"] by linarith
    show ?thesis
      using Suc.IH[of "swap_at i (unat v mod (i + 1)) order" r'] Suc.prems j False by (simp add: v)
  qed simp
qed simp

lemma shuffle_rows_set: "set (fst (shuffle_rows next_u32 r)) = {0, 1, 2, 3}"
proof -
  have "{0 ..< 4 :: nat} = {0, 1, 2, 3}" by auto
  with shuffle_down_permutes[of NUM_ROWS "[0 ..< NUM_ROWS]" next_u32 r] show ?thesis
    unfolding shuffle_rows_def by (simp only: set_upt NUM_ROWS_def length_upt)
qed

lemma shuffle_rows_distinct: "distinct (fst (shuffle_rows next_u32 r))"
  using shuffle_down_permutes[of NUM_ROWS "[0 ..< NUM_ROWS]" next_u32 r]
  unfolding shuffle_rows_def by simp

subsection \<open>The debounce window\<close>

text \<open>The positions a history has confirmed, and the number of scans a position was closed in.\<close>

definition confirmed :: "nat \<Rightarrow> nat list \<Rightarrow> nat list" where
  "confirmed i cs = map fst (filter (\<lambda>(k, c). DEBOUNCE_SAMPLES \<le> c) (List.enumerate i cs))"

definition hits :: "u16 list \<Rightarrow> nat \<Rightarrow> nat" where
  "hits ws i = length (filter (\<lambda>w. bit w i) ws)"

lemma confirmed_simps [simp]:
  "confirmed i [] = []"
  "confirmed i (c # cs) = (if DEBOUNCE_SAMPLES \<le> c then i # confirmed (Suc i) cs else confirmed (Suc i) cs)"
  by (simp_all add: confirmed_def)

lemma verdict_loop_Some:
  "verdict_loop i cs (Some k) any_contact = (if confirmed i cs = [] then Down k else MultiKey)"
  by (induction cs arbitrary: i any_contact) (auto simp: DEBOUNCE_SAMPLES_def)

lemma verdict_loop_None:
  "i + length cs \<le> KEY_COUNT \<Longrightarrow> verdict_loop i cs None any_contact =
     (case confirmed i cs of
        [] \<Rightarrow> if any_contact \<or> (\<exists>c \<in> set cs. c \<noteq> 0) then Unsettled else AllUp
      | [k] \<Rightarrow> Down (DECODER ! k)
      | _ \<Rightarrow> MultiKey)"
proof (induction cs arbitrary: i any_contact)
  case (Cons c cs)
  have "i < length DECODER" using Cons.prems by (simp add: KEY_COUNT_def NUM_ROWS_def NUM_COLS_def DECODER_def)
  then show ?case
    using Cons by (cases "c = 0")
      (auto simp: DEBOUNCE_SAMPLES_def verdict_loop_Some split: list.splits)
qed simp

lemma confirmed_map:
  "confirmed i (map f [i ..< n]) = filter (\<lambda>k. DEBOUNCE_SAMPLES \<le> f k) [i ..< n]"
proof (induction "n - i" arbitrary: i)
  case (Suc d)
  then have "[i ..< n] = i # [Suc i ..< n]" by (simp add: upt_conv_Cons)
  with Suc show ?case by simp
qed simp

lemma count_ones_card: "count_ones w = card {i. i < 16 \<and> bit w i}"
  unfolding count_ones_def
  by (subst distinct_card[symmetric]) (auto intro!: arg_cong[of _ _ card])

lemma count_ones_two:
  assumes "bit w i" and "bit w j" and "i \<noteq> j" and "i < 16" and "j < 16"
  shows "1 < count_ones w"
proof -
  have "card {i, j} \<le> card {i. i < 16 \<and> bit w i}"
    using assms by (intro card_mono) auto
  then show ?thesis using assms by (simp add: count_ones_card)
qed

lemma bit_u16_small: "bit (w :: u16) i \<Longrightarrow> i < 16"
  using bit_imp_le_length[of w i] by simp

text \<open>The window after the scans \<open>ws\<close>.\<close>

definition pad_window :: "u16 list \<Rightarrow> debounce" where
  "pad_window ws = \<lparr>db_history = map (hits ws) [0 ..< KEY_COUNT], db_samples = length ws,
                db_multi = (\<exists>w \<in> set ws. 1 < count_ones w)\<rparr>"

lemma window_Nil: "pad_window [] = debounce_new"
proof -
  have "hits [] = (\<lambda>i. 0)" by (simp add: hits_def fun_eq_iff)
  then show ?thesis by (simp add: pad_window_def debounce_new_def map_replicate_const)
qed

lemma history_push:
  assumes "length ws < 255"
  shows "map (\<lambda>(i, c). if bit w i then u8_sat_inc c else c) (List.enumerate 0 (map (hits ws) [0 ..< n]))
     = map (hits (ws @ [w])) [0 ..< n]"
proof (rule nth_equalityI)
  fix i assume "i < length (map (\<lambda>(i, c). if bit w i then u8_sat_inc c else c)
                     (List.enumerate 0 (map (hits ws) [0 ..< n])))"
  then have i: "i < n" by simp
  have "hits ws i \<le> length ws" by (simp add: hits_def)
  with i assms show "map (\<lambda>(i, c). if bit w i then u8_sat_inc c else c)
                     (List.enumerate 0 (map (hits ws) [0 ..< n])) ! i = map (hits (ws @ [w])) [0 ..< n] ! i"
    by (simp add: nth_enumerate_eq u8_sat_inc_def) (simp add: hits_def)
qed simp

lemma push_window:
  assumes "length ws < DEBOUNCE_SAMPLES"
  shows "debounce_push w (pad_window ws) =
     (if length ws + 1 < DEBOUNCE_SAMPLES then (None, pad_window (ws @ [w]))
      else (Some (verdict (pad_window (ws @ [w]))), debounce_new))"
proof -
  have "length ws < 255" using assms by (simp add: DEBOUNCE_SAMPLES_def)
  from history_push[OF this, of w KEY_COUNT]
  have "pad_window ws\<lparr>db_multi := (db_multi (pad_window ws) \<or> 1 < count_ones w),
          db_history := map (\<lambda>(i, c). if bit w i then u8_sat_inc c else c)
                          (List.enumerate 0 (db_history (pad_window ws))),
          db_samples := u8_sat_inc (db_samples (pad_window ws))\<rparr> = pad_window (ws @ [w])"
    using assms by (auto simp: pad_window_def u8_sat_inc_def DEBOUNCE_SAMPLES_def)
  then show ?thesis
    by (simp add: debounce_push_def Let_def) (simp add: pad_window_def)
qed

lemma hits_three: "DEBOUNCE_SAMPLES \<le> hits [a, b, c] i \<longleftrightarrow> bit a i \<and> bit b i \<and> bit c i"
  by (simp add: hits_def DEBOUNCE_SAMPLES_def)

lemma hits_zero: "hits ws i = 0 \<longleftrightarrow> (\<forall>w \<in> set ws. \<not> bit w i)"
  by (auto simp: hits_def filter_empty_conv)

text \<open>The three cases of a full window: more than one contact in a scan; one position closed in
  every scan; no position closed in all of them.\<close>

definition single_scans :: "u16 list \<Rightarrow> bool" where
  "single_scans ws = (\<forall>w \<in> set ws. count_ones w \<le> 1)"

lemma verdict_multi: "\<not> single_scans ws \<Longrightarrow> verdict (pad_window ws) = MultiKey"
  by (auto simp: verdict_def pad_window_def single_scans_def)

lemma verdict_single:
  assumes "single_scans [a, b, c]"
  shows "verdict (pad_window [a, b, c]) =
     (case filter (\<lambda>i. bit a i \<and> bit b i \<and> bit c i) [0 ..< KEY_COUNT] of
        [] \<Rightarrow> if \<exists>i < KEY_COUNT. bit a i \<or> bit b i \<or> bit c i then Unsettled else AllUp
      | [k] \<Rightarrow> Down (DECODER ! k)
      | _ \<Rightarrow> MultiKey)"
proof -
  have m: "\<not> db_multi (pad_window [a, b, c])" using assms by (auto simp: pad_window_def single_scans_def)
  have "(\<exists>n \<in> set (map (hits [a, b, c]) [0 ..< KEY_COUNT]). n \<noteq> 0)
      \<longleftrightarrow> (\<exists>i < KEY_COUNT. bit a i \<or> bit b i \<or> bit c i)"
    using hits_zero[of "[a, b, c]"] by (simp add: Bex_def neq0_conv[symmetric] del: neq0_conv)
  then show ?thesis
    using m verdict_loop_None[of 0 "db_history (pad_window [a, b, c])" False]
    by (simp add: verdict_def) (simp add: pad_window_def confirmed_map hits_three cong: list.case_cong)
qed

lemma filter_unique:
  assumes "i < n" and "P i" and "\<And>j. j < n \<Longrightarrow> P j \<Longrightarrow> j = i"
  shows "filter P [0 ..< n] = [i]"
proof (rule sorted_distinct_set_unique)
  show "set (filter P [0 ..< n]) = set [i]" using assms(1,2) by (auto dest: assms(3))
qed (simp_all add: sorted_wrt_filter)

text \<open>The verdict on the three scans of a window.\<close>

lemma single_scan_unique:
  "count_ones w \<le> Suc 0 \<Longrightarrow> bit w i \<Longrightarrow> bit w j \<Longrightarrow> i = j"
  using count_ones_two[of w i j] bit_u16_small[of w] by fastforce

lemma verdict_three:
  "verdict (pad_window [a, b, c]) =
     (if \<not> single_scans [a, b, c] then MultiKey
      else case List.find (\<lambda>i. bit a i \<and> bit b i \<and> bit c i) [0 ..< KEY_COUNT] of
        Some k \<Rightarrow> Down (DECODER ! k)
      | None \<Rightarrow> if \<exists>i < KEY_COUNT. bit a i \<or> bit b i \<or> bit c i then Unsettled else AllUp)"
  (is "_ = (if _ then _ else case List.find ?P _ of Some k \<Rightarrow> _ k | None \<Rightarrow> _)")
proof (cases "single_scans [a, b, c]")
  case True
  show ?thesis
  proof (cases "List.find ?P [0 ..< KEY_COUNT]")
    case None
    then have "filter ?P [0 ..< KEY_COUNT] = []" by (auto simp: find_None_iff filter_empty_conv)
    then show ?thesis using True None by (simp add: verdict_single)
  next
    case (Some k)
    then have k: "k < KEY_COUNT" "?P k" by (auto simp: find_Some_iff)
    have "filter ?P [0 ..< KEY_COUNT] = [k]"
      using k True by (intro filter_unique) (auto simp: single_scans_def intro: single_scan_unique)
    then show ?thesis using True Some by (simp add: verdict_single)
  qed
qed (simp add: verdict_multi)

lemmas pushes = push_window[of "[]", unfolded window_Nil] push_window[of "[_]"] push_window[of "[_, _]"]

lemma debounce_three:
  "debounce_push a debounce_new = (None, pad_window [a])"
  "debounce_push b (pad_window [a]) = (None, pad_window [a, b])"
  "debounce_push c (pad_window [a, b]) = (Some (verdict (pad_window [a, b, c])), debounce_new)"
  by (simp_all add: pushes DEBOUNCE_SAMPLES_def)

lemma read_key_three:
  assumes "scan_once G next_u32 hr0 = (a, hr1)" and "scan_once G next_u32 hr1 = (b, hr2)"
    and "scan_once G next_u32 hr2 = (c, hr3)"
  shows "read_key G next_u32 hr0 = (verdict (pad_window [a, b, c]), hr3)"
proof -
  have "DEBOUNCE_SAMPLES = Suc (Suc (Suc 0))" by (simp add: DEBOUNCE_SAMPLES_def)
  then have "read_key G next_u32 = read_loop G next_u32 (Suc (Suc (Suc 0))) debounce_new"
    by (simp add: read_key_def fun_eq_iff)
  then show ?thesis using assms by (simp add: debounce_three)
qed

lemma decoder_nth_inject:
  "i < KEY_COUNT \<Longrightarrow> j < KEY_COUNT \<Longrightarrow> DECODER ! i = DECODER ! j \<Longrightarrow> i = j"
proof -
  have "distinct DECODER" by (simp add: DECODER_def)
  moreover have "length DECODER = KEY_COUNT" by (simp add: DECODER_def KEY_COUNT_def NUM_ROWS_def NUM_COLS_def)
  ultimately show "i < KEY_COUNT \<Longrightarrow> j < KEY_COUNT \<Longrightarrow> DECODER ! i = DECODER ! j \<Longrightarrow> i = j"
    by (simp add: nth_eq_iff_index_eq)
qed

text \<open>One key is reported exactly when it is the only contact of every scan.\<close>

definition key_bit :: "nat \<Rightarrow> u16" where "key_bit i = push_bit i 1"

lemma single_bit_iff:
  assumes "i < KEY_COUNT"
  shows "count_ones (w :: u16) \<le> 1 \<and> bit w i \<longleftrightarrow> w = key_bit i"
proof
  assume "count_ones w \<le> 1 \<and> bit w i"
  then show "w = key_bit i"
    by (intro bit_word_eqI) (auto simp: key_bit_def bit_simps intro: single_scan_unique)
next
  assume "w = key_bit i"
  moreover have "i < 16" using assms by (simp add: KEY_COUNT_def NUM_ROWS_def NUM_COLS_def)
  moreover have "{j. j < 16 \<and> bit (key_bit i :: u16) j} = {i}"
    using \<open>i < 16\<close> by (auto simp: key_bit_def bit_simps)
  ultimately show "count_ones w \<le> 1 \<and> bit w i"
    by (simp add: count_ones_card key_bit_def bit_simps)
qed

lemma verdict_Down_iff:
  assumes "k < KEY_COUNT"
  shows "verdict (pad_window [a, b, c]) = Down (DECODER ! k) \<longleftrightarrow> a = key_bit k \<and> b = key_bit k \<and> c = key_bit k"
  (is "?L \<longleftrightarrow> ?R")
proof
  assume L: ?L
  then have s: "single_scans [a, b, c]" by (auto simp: verdict_three split: if_splits)
  with L obtain j where j: "List.find (\<lambda>i. bit a i \<and> bit b i \<and> bit c i) [0 ..< KEY_COUNT] = Some j"
    and "DECODER ! j = DECODER ! k"
    by (auto simp: verdict_three split: option.splits if_splits)
  then have "j = k" using decoder_nth_inject[of j k] assms by (auto simp: find_Some_iff)
  with j have "bit a k" "bit b k" "bit c k" by (auto simp: find_Some_iff)
  with s show ?R by (simp add: single_scans_def single_bit_iff[OF assms, symmetric])
next
  assume R: ?R
  then have s: "single_scans [a, b, c]" and b: "bit a k" "bit b k" "bit c k"
    using single_bit_iff[OF assms] by (auto simp: single_scans_def)
  have "filter (\<lambda>i. bit a i \<and> bit b i \<and> bit c i) [0 ..< KEY_COUNT] = [k]"
    using s b assms by (intro filter_unique) (auto simp: single_scans_def intro: single_scan_unique)
  with s show ?L by (simp add: verdict_single)
qed

lemma verdict_cases:
  "(\<forall>k. verdict (pad_window [a, b, c]) = Down k \<longleftrightarrow>
      (\<exists>i < KEY_COUNT. k = DECODER ! i \<and> a = key_bit i \<and> b = key_bit i \<and> c = key_bit i)) \<and>
   (verdict (pad_window [a, b, c]) = MultiKey \<longleftrightarrow> (\<exists>w \<in> {a, b, c}. 1 < count_ones w)) \<and>
   (verdict (pad_window [a, b, c]) = AllUp \<longleftrightarrow>
      (\<forall>w \<in> {a, b, c}. count_ones w \<le> 1 \<and> (\<forall>i < KEY_COUNT. \<not> bit w i)))"
proof (intro conjI allI)
  fix k
  show "verdict (pad_window [a, b, c]) = Down k \<longleftrightarrow>
      (\<exists>i < KEY_COUNT. k = DECODER ! i \<and> a = key_bit i \<and> b = key_bit i \<and> c = key_bit i)" (is "?L \<longleftrightarrow> ?R")
  proof
    assume L: ?L
    then obtain i where "List.find (\<lambda>i. bit a i \<and> bit b i \<and> bit c i) [0 ..< KEY_COUNT] = Some i" "k = DECODER ! i"
      by (auto simp: verdict_three split: option.splits if_splits)
    then have "i < KEY_COUNT" "k = DECODER ! i" by (auto simp: find_Some_iff)
    with L show ?R using verdict_Down_iff[of i a b c] by auto
  qed (auto simp: verdict_Down_iff)
  show "verdict (pad_window [a, b, c]) = MultiKey \<longleftrightarrow> (\<exists>w \<in> {a, b, c}. 1 < count_ones w)"
    by (auto simp: verdict_three single_scans_def split: option.splits)
  show "verdict (pad_window [a, b, c]) = AllUp \<longleftrightarrow>
      (\<forall>w \<in> {a, b, c}. count_ones w \<le> 1 \<and> (\<forall>i < KEY_COUNT. \<not> bit w i))"
    by (auto simp: verdict_three single_scans_def find_None_iff find_Some_iff split: option.splits)
qed

end
