(* ===== verification/KeypadMatrix.thy ===== *)
theory KeypadMatrix
  imports KeypadCorrect
begin

text \<open>
  The pad as a matrix of contacts behind two GPIO ports: the contract \<open>pad_port\<close> the driver of
  \<open>hal/src/keypad.rs\<close> relies on (clock gating, read-back of the configuration registers, the set
  and reset halves of BSRR, and columns pulled low through every conducting path of closed
  contacts, ghost paths included), what opening the pad and one scan do over it, and a simulated
  pad that meets it.
\<close>

subsection \<open>Contacts and the paths they close\<close>

type_synonym contacts = "(nat \<times> nat) set"

inductive joined :: "contacts \<Rightarrow> nat \<Rightarrow> nat \<Rightarrow> bool" for K where
  contact: "(r, j) \<in> K \<Longrightarrow> joined K r j"
| ghost: "joined K r j \<Longrightarrow> (r', j) \<in> K \<Longrightarrow> (r', j') \<in> K \<Longrightarrow> joined K r j'"

lemma joined_column: "joined K r j \<Longrightarrow> \<exists>r'. (r', j) \<in> K"
  by (induction rule: joined.induct) auto

lemma joined_row: "joined K r j \<Longrightarrow> \<exists>j'. (r, j') \<in> K"
  by (induction rule: joined.induct) auto

lemma joined_empty [simp]: "\<not> joined {} r j"
  by (auto dest: joined_column)

lemma joined_single [simp]: "joined {(r, j)} r' j' \<longleftrightarrow> r' = r \<and> j' = j"
  by (auto dest: joined_column joined_row intro: joined.contact)

subsection \<open>The registers\<close>

definition field2 :: "u32 \<Rightarrow> nat \<Rightarrow> u32" where
  "field2 v p = drop_bit (2 * p) v AND 3"

definition clocked :: "'h gpio \<Rightarrow> 'h \<Rightarrow> bool" where
  "clocked G h \<longleftrightarrow> bit (gp_read G RCC_AHB2ENR h) 1 \<and> bit (gp_read G RCC_AHB2ENR h) 3"

text \<open>Rows open-drain outputs, columns pulled-up inputs.\<close>

definition configured :: "'h gpio \<Rightarrow> 'h \<Rightarrow> bool" where
  "configured G h \<longleftrightarrow> clocked G h \<and>
     (\<forall>p \<in> set ROW_PINS. bit (gp_read G GPIOD_OTYPER h) p \<and> field2 (gp_read G GPIOD_MODER h) p = 1
        \<and> field2 (gp_read G GPIOD_PUPDR h) p = 0) \<and>
     (\<forall>p \<in> set COL_PINS. field2 (gp_read G GPIOB_MODER h) p = 0 \<and> field2 (gp_read G GPIOB_PUPDR h) p = 1)"

definition config_regs :: "gpio_reg set" where
  "config_regs = {GPIOB_MODER, GPIOB_PUPDR, GPIOD_MODER, GPIOD_OTYPER, GPIOD_PUPDR}"

lemma mask_values:
  "COL_MODER_MASK = 0x3F" "COL_PUPDR_MASK = 0x3F" "COL_PUPDR_PULLUP = 0x15" "COL_MASK = 7"
  "ROW_MODER_MASK = 0xFF0000" "ROW_MODER_OUTPUT = 0x550000" "ROW_PUPDR_MASK = 0xFF0000"
  "ROW_OTYPER_OD = 0xF00" "ROW_MASK = 0xF00"
  "ROWS_ALL_LOW = 0xF000000" "ROWS_ALL_RELEASED = 0xF00"
  "RCC_AHB2ENR_GPIOBEN = 2" "RCC_AHB2ENR_GPIODEN = 8"
  by (simp_all add: COL_MODER_MASK_def COL_PUPDR_MASK_def COL_PUPDR_PULLUP_def COL_MASK_def
      ROW_MODER_MASK_def ROW_MODER_OUTPUT_def ROW_PUPDR_MASK_def ROW_OTYPER_OD_def ROW_MASK_def
      ROWS_ALL_LOW_def ROWS_ALL_RELEASED_def bsrr_clear_def bsrr_set_def field2_mask_def
      field2_value_def field1_mask_def COL_PINS_def ROW_PINS_def
      RCC_AHB2ENR_GPIOBEN_def RCC_AHB2ENR_GPIODEN_def bitv_def push_bit_eq_mult)

lemma less_4_cases: "(r :: nat) < 4 \<longleftrightarrow> r = 0 \<or> r = 1 \<or> r = 2 \<or> r = 3"
  by linarith

lemma row_select_bits:
  "r < 4 \<Longrightarrow> q < 4 \<Longrightarrow> bit (row_select r) (8 + q) \<longleftrightarrow> q \<noteq> r"
  "r < 4 \<Longrightarrow> q < 4 \<Longrightarrow> bit (row_select r) (24 + q) \<longleftrightarrow> q = r"
  by (auto simp: less_4_cases row_select_def ROW_PINS_def mask_values bsrr_set_def bsrr_clear_def
      bit_simps push_bit_eq_mult)

lemma row_select_beyond: "4 \<le> r \<Longrightarrow> row_select r = ROWS_ALL_RELEASED"
  by (simp add: row_select_def ROW_PINS_def)

lemma bit_seven:
  "bit (7 :: u32) j \<longleftrightarrow> j < 3" "bit (7 :: int) j \<longleftrightarrow> j < 3" "bit (7 :: nat) j \<longleftrightarrow> j < 3"
  using bit_mask_iff[where 'a = u32, of 3 j] bit_mask_iff[where 'a = int, of 3 j]
    bit_mask_iff[where 'a = nat, of 3 j] by (auto simp: mask_eq_exp_minus_1)

lemma bit_pressed_cols: "bit (pressed_cols idr) j \<longleftrightarrow> j < 3 \<and> \<not> bit idr j"
  by (auto simp: pressed_cols_def mask_values bit_simps bit_seven)

lemma bit_row_bits:
  assumes "r < 4"
  shows "bit (row_bits r cols) i \<longleftrightarrow> r * 3 \<le> i \<and> i < r * 3 + 3 \<and> bit cols (i - r * 3)"
  using assms by (auto simp: row_bits_def NUM_ROWS_def NUM_COLS_def mask_values bit_simps bit_seven)

lemma field2_iff:
  "field2 v p = 0 \<longleftrightarrow> \<not> bit v (2 * p) \<and> \<not> bit v (Suc (2 * p))"
  "field2 v p = 1 \<longleftrightarrow> bit v (2 * p) \<and> \<not> bit v (Suc (2 * p))"
proof -
  have 3: "bit (3 :: u32) n \<longleftrightarrow> n < 2" "bit (3 :: int) n \<longleftrightarrow> n < 2" for n
    using bit_mask_iff[where 'a = u32, of 2 n] bit_mask_iff[where 'a = int, of 2 n]
    by (auto simp: mask_eq_exp_minus_1)
  have b: "bit (field2 v p) n \<longleftrightarrow> n < 2 \<and> bit v (2 * p + n)" for n
    by (auto simp: field2_def bit_simps 3)
  have e: "field2 v p = w \<longleftrightarrow> bit v (2 * p) = bit w 0 \<and> bit v (Suc (2 * p)) = bit w 1"
    if "\<And>n. bit w n \<Longrightarrow> n < 2" for w
  proof
    assume "field2 v p = w"
    then show "bit v (2 * p) = bit w 0 \<and> bit v (Suc (2 * p)) = bit w 1" using b[of 0] b[of 1] by simp
  next
    assume low2: "bit v (2 * p) = bit w 0 \<and> bit v (Suc (2 * p)) = bit w 1"
    show "field2 v p = w"
    proof (rule bit_word_eqI)
      fix n :: nat
      consider "n = 0" | "n = 1" | "2 \<le> n" by linarith
      then show "bit (field2 v p) n = bit w n" using low2 by cases (auto simp: b dest: that)
    qed
  qed
  show "field2 v p = 0 \<longleftrightarrow> \<not> bit v (2 * p) \<and> \<not> bit v (Suc (2 * p))"
    by (subst e) simp_all
  show "field2 v p = 1 \<longleftrightarrow> bit v (2 * p) \<and> \<not> bit v (Suc (2 * p))"
    by (subst e) (simp_all add: bit_1_iff)
qed

text \<open>The bits of a configuration register that belong to the seven pins.\<close>

definition pin_bits :: "gpio_reg \<Rightarrow> u32" where
  "pin_bits reg = (case reg of GPIOB_MODER \<Rightarrow> COL_MODER_MASK | GPIOB_PUPDR \<Rightarrow> COL_PUPDR_MASK
     | GPIOD_MODER \<Rightarrow> ROW_MODER_MASK | GPIOD_PUPDR \<Rightarrow> ROW_PUPDR_MASK | GPIOD_OTYPER \<Rightarrow> ROW_OTYPER_OD | _ \<Rightarrow> 0)"

lemma masked_updates:
  "(v AND NOT m OR w AND m) AND NOT m = v AND NOT (m :: u32)"
  "(v OR m) AND NOT m = v AND NOT m" "(v AND NOT m) AND NOT m = v AND NOT m"
  by (rule bit_word_eqI; auto simp: bit_simps)+

lemma masked_values:
  "(v AND NOT ROW_MODER_MASK OR ROW_MODER_OUTPUT) AND NOT ROW_MODER_MASK = v AND NOT ROW_MODER_MASK"
  "(v AND NOT COL_PUPDR_MASK OR COL_PUPDR_PULLUP) AND NOT COL_PUPDR_MASK = v AND NOT COL_PUPDR_MASK"
  using masked_updates(1)[of v ROW_MODER_MASK ROW_MODER_OUTPUT]
    masked_updates(1)[of v COL_PUPDR_MASK COL_PUPDR_PULLUP] by (simp_all add: mask_values)

text \<open>What a window over the closed contacts \<open>K\<close> has to report.\<close>

definition held_event :: "contacts \<Rightarrow> key_event" where
  "held_event K = (if K = {} then AllUp
     else if \<exists>i < KEY_COUNT. K = {(i div NUM_COLS, i mod NUM_COLS)}
     then (case List.find (\<lambda>i. (i div NUM_COLS, i mod NUM_COLS) \<in> K) [0 ..< KEY_COUNT] of
             Some i \<Rightarrow> Down (DECODER ! i) | None \<Rightarrow> AllUp)
     else MultiKey)"

lemma held_single:
  assumes "i < 12"
  shows "held_event {(i div 3, i mod 3)} = Down (DECODER ! i)"
proof -
  have "List.find (\<lambda>j. j div 3 = i div 3 \<and> j mod 3 = i mod 3) [0 ..< 12] = Some i"
  proof -
    have u: "j = i" if "j div 3 = i div 3" "j mod 3 = i mod 3" for j
      using that by (metis div_mult_mod_eq)
    have "List.find (\<lambda>j. j div 3 = i div 3 \<and> j mod 3 = i mod 3) [0 ..< 12] \<noteq> None"
      using assms by (auto simp: find_None_iff)
    then show ?thesis by (auto simp: find_Some_iff dest: u)
  qed
  then show ?thesis
    using assms by (auto simp: held_event_def KEY_COUNT_def NUM_ROWS_def NUM_COLS_def)
qed

lemma held_event_Down:
  "held_event K = Down k \<longleftrightarrow> (\<exists>i < KEY_COUNT. K = {(i div NUM_COLS, i mod NUM_COLS)} \<and> k = DECODER ! i)"
proof -
  have K12: "KEY_COUNT = 12" "NUM_COLS = 3" by (simp_all add: KEY_COUNT_def NUM_ROWS_def NUM_COLS_def)
  show ?thesis
  proof (cases "\<exists>i < KEY_COUNT. K = {(i div NUM_COLS, i mod NUM_COLS)}")
    case True
    then obtain i where i: "i < 12" "K = {(i div 3, i mod 3)}" by (auto simp: K12)
    have "j = i" if "j div 3 = i div 3" "j mod 3 = i mod 3" for j using that by (metis div_mult_mod_eq)
    then show ?thesis using i held_single[OF i(1)] by (auto simp: K12)
  qed (auto simp: held_event_def)
qed

lemma matrix_key_bit:
  "(\<And>i. bit w i \<longleftrightarrow> i < 12 \<and> joined {(r, j)} (i div 3) (i mod 3)) \<Longrightarrow> r < 4 \<Longrightarrow> j < 3 \<Longrightarrow> w = key_bit (r * 3 + j)"
proof (rule bit_word_eqI)
  fix n
  assume w: "\<And>i. bit w i \<longleftrightarrow> i < 12 \<and> joined {(r, j)} (i div 3) (i mod 3)" and rj: "r < 4" "j < 3"
    and "n < LENGTH(16)"
  moreover have "n < 12 \<and> n div 3 = r \<and> n mod 3 = j \<longleftrightarrow> n = r * 3 + j" using rj by auto
  ultimately show "bit w n \<longleftrightarrow> bit (key_bit (r * 3 + j)) n"
    by (auto simp: key_bit_def bit_simps)
qed

lemma held_verdict:
  assumes "K \<subseteq> {..< 4} \<times> {..< 3}"
    and "\<And>i. bit w i \<longleftrightarrow> i < 12 \<and> joined K (i div 3) (i mod 3)"
  shows "verdict (pad_window [w, w, w]) = held_event K"
proof -
  have K12: "KEY_COUNT = 12" "NUM_COLS = 3" by (simp_all add: KEY_COUNT_def NUM_ROWS_def NUM_COLS_def)
  have range: "r < 4" "j < 3" if "(r, j) \<in> K" for r j using assms(1) that by auto
  have seen: "bit w (r * 3 + j)" if "(r, j) \<in> K" for r j
    using range[OF that] that by (simp add: assms(2) joined.contact)
  consider "K = {}" | i where "i < 12" "K = {(i div 3, i mod 3)}"
    | x y where "x \<in> K" "y \<in> K" "x \<noteq> y" "\<forall>i < 12. K \<noteq> {(i div 3, i mod 3)}"
  proof -
    have "\<exists>i < 12. (r, j) = (i div 3, i mod 3)" if "(r, j) \<in> K" for r j
      using range[OF that] by (intro exI[of _ "r * 3 + j"]) simp
    then show thesis using that by (metis (no_types, lifting) insertI1 equals0I singleton_iff
          subset_singletonD subsetI surj_pair)
  qed
  then show ?thesis
  proof cases
    case 1
    then have "w = 0" using assms(2) by (simp add: bit_eq_iff)
    moreover have "List.find (\<lambda>i :: nat. False) xs = None" for xs by (simp add: find_None_iff)
    ultimately show ?thesis using 1
      by (simp add: verdict_three single_scans_def count_ones_def held_event_def)
  next
    case 2
    have "bit w j \<longleftrightarrow> j = i" for j
      using 2 by (auto simp: assms(2)) (metis div_mult_mod_eq)
    then have "w = key_bit i" using 2 by (intro bit_word_eqI) (auto simp: key_bit_def bit_simps)
    then show ?thesis using 2 verdict_Down_iff[of i w w w] held_single[of i] by (simp add: K12)
  next
    case 3
    obtain r j r' j' where xy: "x = (r, j)" "y = (r', j')" by fastforce
    have "r * 3 + j \<noteq> r' * 3 + j'"
      using 3 range[of r j] range[of r' j'] by (auto simp: xy) presburger+
    then have "1 < count_ones w"
      using 3 range[of r j] range[of r' j'] seen[of r j] seen[of r' j']
      by (intro count_ones_two[of w "r * 3 + j" "r' * 3 + j'"]) (simp_all add: xy)
    then show ?thesis using 3 by (auto simp: verdict_multi single_scans_def held_event_def K12)
  qed
qed

subsection \<open>The contract\<close>

locale pad_port =
  fixes G :: "'h gpio" and low :: "'h \<Rightarrow> nat \<Rightarrow> bool" and contacts :: "'h \<Rightarrow> contacts"
  assumes contacts_range: "contacts h \<subseteq> {..< 4} \<times> {..< 3}"
    and contacts_write: "contacts (gp_write G reg w h) = contacts h"
    and read_clock: "gp_read G RCC_AHB2ENR (gp_write G RCC_AHB2ENR w h) = w"
    and read_back: "reg \<in> config_regs \<Longrightarrow> clocked G h \<Longrightarrow> gp_read G reg (gp_write G reg w h) = w"
    and read_other: "reg \<noteq> reg' \<Longrightarrow> reg \<noteq> GPIOB_IDR \<Longrightarrow> gp_read G reg (gp_write G reg' w h) = gp_read G reg h"
    and latch_bsrr: "clocked G h \<Longrightarrow> r < 4 \<Longrightarrow>
          low (gp_write G GPIOD_BSRR w h) r \<longleftrightarrow> \<not> bit w (8 + r) \<and> (bit w (24 + r) \<or> low h r)"
    and latch_other: "reg \<noteq> GPIOD_BSRR \<Longrightarrow> low (gp_write G reg w h) = low h"
    and columns: "configured G h \<Longrightarrow> j < 3 \<Longrightarrow>
          bit (gp_read G GPIOB_IDR h) j \<longleftrightarrow> \<not> (\<exists>r < 4. low h r \<and> joined (contacts h) r j)"
begin

lemma clocked_write: "reg \<noteq> RCC_AHB2ENR \<Longrightarrow> clocked G (gp_write G reg w h) = clocked G h"
  by (simp add: clocked_def read_other)

lemma configured_bsrr: "configured G (bsrr_write G w h) = configured G h"
  by (simp add: configured_def bsrr_write_def clocked_write read_other)

lemma low_bsrr:
  "configured G h \<Longrightarrow> r < 4 \<Longrightarrow>
     low (bsrr_write G w h) r \<longleftrightarrow> \<not> bit w (8 + r) \<and> (bit w (24 + r) \<or> low h r)"
  by (simp add: bsrr_write_def latch_bsrr configured_def)

lemma contacts_bsrr [simp]: "contacts (bsrr_write G w h) = contacts h"
  by (simp add: bsrr_write_def contacts_write)

lemma row_reads_column:
  assumes "configured G h" and "r < 4" and "j < 3"
  shows "bit (pressed_cols (gp_read G GPIOB_IDR (bsrr_write G (row_select r) h))) j
     \<longleftrightarrow> joined (contacts h) r j"
proof -
  have "low (bsrr_write G (row_select r) h) q \<longleftrightarrow> q = r" if "q < 4" for q
    using assms(1,2) that by (auto simp: low_bsrr row_select_bits)
  then show ?thesis
    using assms columns[of "bsrr_write G (row_select r) h" j]
    by (auto simp: bit_pressed_cols configured_bsrr)
qed

lemma scan_rows_bits:
  assumes "configured G h" and "set order \<subseteq> {..< 4}"
    and "scan_rows G order bm h = (bm', h')"
  shows "configured G h' \<and> contacts h' = contacts h \<and>
     (\<forall>i. bit bm' i \<longleftrightarrow> bit bm i \<or>
        (\<exists>r \<in> set order. r * 3 \<le> i \<and> i < r * 3 + 3 \<and> joined (contacts h) r (i - r * 3)))"
  using assms
proof (induction order arbitrary: bm h)
  case (Cons r rows)
  let ?h1 = "bsrr_write G (row_select r) h"
  have r: "r < 4" using Cons.prems(2) by simp
  have "bit (row_bits r (pressed_cols (gp_read G GPIOB_IDR ?h1))) i
      \<longleftrightarrow> r * 3 \<le> i \<and> i < r * 3 + 3 \<and> joined (contacts h) r (i - r * 3)" for i
    using row_reads_column[OF Cons.prems(1) r, of "i - r * 3"] r by (auto simp: bit_row_bits)
  with Cons.IH[of ?h1 "bm OR row_bits r (pressed_cols (gp_read G GPIOB_IDR ?h1))"] Cons.prems
  show ?case by (auto simp: configured_bsrr bit_simps Let_def)
qed simp

lemma scan_reads_matrix:
  assumes "configured G h" and "scan_once G next_u32 (h, r) = (bm, h', r')"
  shows "configured G h' \<and> contacts h' = contacts h \<and> (\<forall>q < 4. low h' q)
     \<and> (\<forall>i. bit bm i \<longleftrightarrow> i < 12 \<and> joined (contacts h) (i div 3) (i mod 3))"
proof -
  obtain order where o: "shuffle_rows next_u32 r = (order, r')"
    and s: "\<exists>h1. scan_rows G order 0 h = (bm, h1) \<and> h' = bsrr_write G ROWS_ALL_LOW h1"
    using assms(2) by (auto simp: scan_once_def split: prod.splits)
  then obtain h1 where h1: "scan_rows G order 0 h = (bm, h1)" "h' = bsrr_write G ROWS_ALL_LOW h1" by blast
  have set_o: "set order = {0, 1, 2, 3}" using shuffle_rows_set[of next_u32 r] o by simp
  then have "set order \<subseteq> {..< 4}" by auto
  from scan_rows_bits[OF assms(1) this h1(1)] have c: "configured G h1" "contacts h1 = contacts h"
    and b: "\<And>i. bit bm i \<longleftrightarrow> (\<exists>r \<in> set order. r * 3 \<le> i \<and> i < r * 3 + 3 \<and> joined (contacts h) r (i - r * 3))"
    by auto
  have "(\<exists>r \<in> {0, 1, 2, 3}. r * 3 \<le> i \<and> i < r * 3 + 3 \<and> joined (contacts h) r (i - r * 3))
      \<longleftrightarrow> i < 12 \<and> joined (contacts h) (i div 3) (i mod 3)" (is "?L \<longleftrightarrow> ?R") for i
  proof
    assume ?L
    then obtain r where "r \<in> {0, 1, 2, 3}" and r': "r * 3 \<le> i" "i < r * 3 + 3" "joined (contacts h) r (i - r * 3)"
      by blast
    then have r: "r < 4" by auto
    have "i div 3 = r" using r' by (auto intro!: div_nat_eqI)
    then have "i div 3 = r" "i mod 3 = i - r * 3" by (simp_all add: modulo_nat_def)
    with r r' show ?R by simp
  next
    assume ?R
    moreover have "i div 3 * 3 \<le> i" "i < i div 3 * 3 + 3" "i - i div 3 * 3 = i mod 3" "i < 12 \<Longrightarrow> i div 3 < 4"
      by (simp_all add: minus_div_mult_eq_mod less_mult_imp_div_less)
    ultimately show ?L by (intro bexI[of _ "i div 3"]) (auto simp: less_4_cases)
  qed
  with b set_o have "\<And>i. bit bm i \<longleftrightarrow> i < 12 \<and> joined (contacts h) (i div 3) (i mod 3)" by simp
  moreover have "\<forall>q < 4. low h' q" using c(1)
    by (auto simp: h1(2) low_bsrr less_4_cases mask_values)
  ultimately show ?thesis using c by (simp add: h1(2) configured_bsrr)
qed

lemma enable_clocks_effect:
  "clocked G (enable_clocks G h)" "contacts (enable_clocks G h) = contacts h"
  "reg \<in> config_regs \<Longrightarrow> gp_read G reg (enable_clocks G h) = gp_read G reg h"
  "gp_read G RCC_AHB2ENR (enable_clocks G h) = gp_read G RCC_AHB2ENR h OR 10"
proof -
  have ten: "bit (10 :: u32) 1" "bit (10 :: u32) 3" "(2 :: u32) OR 8 = 10" by simp_all
  show "contacts (enable_clocks G h) = contacts h"
    by (simp add: enable_clocks_def Let_def contacts_write)
  show "reg \<in> config_regs \<Longrightarrow> gp_read G reg (enable_clocks G h) = gp_read G reg h"
    by (auto simp: enable_clocks_def Let_def read_other config_regs_def)
  show e: "gp_read G RCC_AHB2ENR (enable_clocks G h) = gp_read G RCC_AHB2ENR h OR 10"
  proof (cases "gp_read G RCC_AHB2ENR h AND 10 = 10")
    case True
    then have "gp_read G RCC_AHB2ENR h OR 10 = gp_read G RCC_AHB2ENR h OR gp_read G RCC_AHB2ENR h AND 10"
      by simp
    also have "\<dots> = gp_read G RCC_AHB2ENR h" by (rule bit_word_eqI) (auto simp: bit_simps)
    finally have "gp_read G RCC_AHB2ENR h OR 10 = gp_read G RCC_AHB2ENR h" .
    with True show ?thesis by (simp add: enable_clocks_def Let_def mask_values ten)
  qed (simp add: enable_clocks_def Let_def mask_values ten read_clock)
  show "clocked G (enable_clocks G h)"
    unfolding clocked_def e by (simp add: bit_or_iff)
qed

lemma init_pins_reads:
  assumes "clocked G h"
  shows "gp_read G GPIOD_OTYPER (init_pins G h) = gp_read G GPIOD_OTYPER h OR ROW_OTYPER_OD"
    and "gp_read G GPIOD_PUPDR (init_pins G h) = gp_read G GPIOD_PUPDR h AND NOT ROW_PUPDR_MASK"
    and "gp_read G GPIOD_MODER (init_pins G h)
       = gp_read G GPIOD_MODER h AND NOT ROW_MODER_MASK OR ROW_MODER_OUTPUT"
    and "gp_read G GPIOB_PUPDR (init_pins G h)
       = gp_read G GPIOB_PUPDR h AND NOT COL_PUPDR_MASK OR COL_PUPDR_PULLUP"
    and "gp_read G GPIOB_MODER (init_pins G h) = gp_read G GPIOB_MODER h AND NOT COL_MODER_MASK"
    and "gp_read G RCC_AHB2ENR (init_pins G h) = gp_read G RCC_AHB2ENR h"
    and "contacts (init_pins G h) = contacts h"
    and "r < 4 \<Longrightarrow> \<not> low (init_pins G h) r"
  using assms
  by (simp_all add: init_pins_def gp_modify_def Let_def read_back read_other clocked_write contacts_write
      config_regs_def latch_other latch_bsrr less_4_cases mask_values) auto

lemma init_pins_configured: "clocked G h \<Longrightarrow> configured G (init_pins G h)"
  by (simp add: configured_def clocked_def init_pins_reads ROW_PINS_def COL_PINS_def field2_iff
      mask_values bit_simps)

lemma init_pins_confined:
  "clocked G h \<Longrightarrow> reg \<in> config_regs \<Longrightarrow>
     gp_read G reg (init_pins G h) AND NOT (pin_bits reg) = gp_read G reg h AND NOT (pin_bits reg)"
  by (auto simp: config_regs_def init_pins_reads pin_bits_def masked_updates masked_values)

lemma open_works:
  obtains h' where "keypad_open G h = (Inr (), h')" and "configured G h'" and "contacts h' = contacts h"
    and "\<forall>q < 4. low h' q"
proof -
  let ?h = "init_pins G (enable_clocks G h)"
  have c: "configured G ?h" by (simp add: init_pins_configured enable_clocks_effect)
  have b: "bit (gp_read G GPIOB_IDR ?h) j" if "j < 3" for j
    using columns[OF c that] by (auto simp: init_pins_reads(8) enable_clocks_effect)
  have "gp_read G GPIOB_IDR ?h AND COL_MASK = COL_MASK"
    by (rule bit_word_eqI) (auto simp: mask_values bit_simps bit_seven b)
  then have "keypad_open G h = (Inr (), bsrr_write G ROWS_ALL_LOW ?h)"
    by (simp add: keypad_open_def Let_def check_idle_columns_def)
  moreover have "\<forall>q < 4. low (bsrr_write G ROWS_ALL_LOW ?h) q"
    using c by (auto simp: low_bsrr less_4_cases mask_values)
  ultimately show ?thesis
    using that c by (simp add: configured_bsrr init_pins_reads enable_clocks_effect)
qed

text \<open>A window over contacts that stay as they are.\<close>

lemma steady_scans:
  assumes "configured G h" and "scan_once G next_u32 (h, r) = (a, hr1)"
    and "scan_once G next_u32 hr1 = (b, hr2)" and "scan_once G next_u32 hr2 = (c, hr3)"
  shows "(\<forall>i. bit a i \<longleftrightarrow> i < 12 \<and> joined (contacts h) (i div 3) (i mod 3)) \<and> b = a \<and> c = a
     \<and> configured G (fst hr3) \<and> contacts (fst hr3) = contacts h \<and> (\<forall>q < 4. low (fst hr3) q)"
proof -
  obtain h1 r1 h2 r2 h3 r3 where hr: "hr1 = (h1, r1)" "hr2 = (h2, r2)" "hr3 = (h3, r3)"
    by (metis surj_pair)
  note A = scan_reads_matrix[OF assms(1,2)[unfolded hr]]
  note B = scan_reads_matrix[OF _ assms(3)[unfolded hr]]
  note C = scan_reads_matrix[OF _ assms(4)[unfolded hr]]
  from A B C have "b = a" "c = a" by (simp_all add: bit_eq_iff)
  with A B C show ?thesis by (simp add: hr)
qed

lemma steady_window:
  assumes "configured G h"
  shows "\<exists>h' r'. read_key G next_u32 (h, r) = (held_event (contacts h), h', r')
     \<and> configured G h' \<and> contacts h' = contacts h \<and> (\<forall>q < 4. low h' q)"
proof -
  obtain a hr1 where a: "scan_once G next_u32 (h, r) = (a, hr1)" by (metis surj_pair)
  obtain b hr2 where b: "scan_once G next_u32 hr1 = (b, hr2)" by (metis surj_pair)
  obtain c h3 r3 where c: "scan_once G next_u32 hr2 = (c, h3, r3)" by (metis prod_cases3)
  note S = steady_scans[OF assms a b c]
  have "verdict (pad_window [a, a, a]) = held_event (contacts h)"
    using S contacts_range by (intro held_verdict) auto
  then show ?thesis using S read_key_three[OF a b c] by simp
qed

lemma open_confined:
  assumes "keypad_open G h = (Inr (), h1)"
  shows "configured G h1 \<and> (\<forall>q < 4. low h1 q) \<and>
    (\<forall>reg \<in> config_regs. gp_read G reg h1 AND NOT (pin_bits reg) = gp_read G reg h AND NOT (pin_bits reg)) \<and>
    gp_read G RCC_AHB2ENR h1 = gp_read G RCC_AHB2ENR h OR 10"
proof -
  let ?h = "init_pins G (enable_clocks G h)"
  have h1: "h1 = bsrr_write G ROWS_ALL_LOW ?h"
    using assms by (auto simp: keypad_open_def Let_def split: sum.splits)
  have "gp_read G reg h1 = gp_read G reg ?h" if "reg \<noteq> GPIOD_BSRR" "reg \<noteq> GPIOB_IDR" for reg
    using that by (simp add: h1 bsrr_write_def read_other)
  moreover have "configured G h1 \<and> (\<forall>q < 4. low h1 q)"
    using open_works[of h] assms by auto
  ultimately show ?thesis
    using init_pins_confined[of "enable_clocks G h"] enable_clocks_effect[where h = h]
    by (auto simp: config_regs_def init_pins_reads(6))
qed

end

subsection \<open>A simulated pad\<close>

text \<open>Registers that can be written once their port is clocked, the row latch, and the contacts the
  finger holds closed.\<close>

record sim_pad =
  sp_regs :: "gpio_reg \<Rightarrow> u32"
  sp_low :: "nat \<Rightarrow> bool"
  sp_closed :: contacts

definition sp_contacts :: "sim_pad \<Rightarrow> contacts" where
  "sp_contacts p = sp_closed p \<inter> {..< 4} \<times> {..< 3}"

definition sp_column_low :: "sim_pad \<Rightarrow> nat \<Rightarrow> bool" where
  "sp_column_low p j = (\<exists>r \<in> {0, 1, 2, 3}. sp_low p r \<and> joined (sp_contacts p) r j)"

definition sp_idr :: "sim_pad \<Rightarrow> u32" where
  "sp_idr p = (if sp_column_low p 0 then 0 else 1) OR (if sp_column_low p 1 then 0 else 2)
     OR (if sp_column_low p 2 then 0 else 4)"

definition sp_read :: "gpio_reg \<Rightarrow> sim_pad \<Rightarrow> u32" where
  "sp_read reg p = (if reg = GPIOB_IDR then sp_idr p else sp_regs p reg)"

definition sp_write :: "gpio_reg \<Rightarrow> u32 \<Rightarrow> sim_pad \<Rightarrow> sim_pad" where
  "sp_write reg w p =
     (if reg = RCC_AHB2ENR then p\<lparr>sp_regs := (sp_regs p)(reg := w)\<rparr>
      else if \<not> (bit (sp_regs p RCC_AHB2ENR) 1 \<and> bit (sp_regs p RCC_AHB2ENR) 3) then p
      else if reg = GPIOD_BSRR
      then p\<lparr>sp_low := (\<lambda>r. \<not> bit w (8 + r) \<and> (bit w (24 + r) \<or> sp_low p r))\<rparr>
      else p\<lparr>sp_regs := (sp_regs p)(reg := w)\<rparr>)"

definition sim_gpio :: "sim_pad gpio" where
  "sim_gpio = \<lparr>gp_read = sp_read, gp_write = sp_write\<rparr>"

lemma sim_gpio_simps [simp]: "gp_read sim_gpio = sp_read" "gp_write sim_gpio = sp_write"
  by (simp_all add: sim_gpio_def)

lemma bit_sp_idr:
  "bit (sp_idr p) 0 \<longleftrightarrow> \<not> sp_column_low p 0" "bit (sp_idr p) 1 \<longleftrightarrow> \<not> sp_column_low p 1"
  "bit (sp_idr p) 2 \<longleftrightarrow> \<not> sp_column_low p 2"
  by (simp_all add: sp_idr_def bit_or_iff)

interpretation sim: pad_port sim_gpio sp_low sp_contacts
proof
  show "sp_contacts h \<subseteq> {..< 4} \<times> {..< 3}" for h by (simp add: sp_contacts_def)
  show "bit (gp_read sim_gpio GPIOB_IDR h) j \<longleftrightarrow> \<not> (\<exists>r < 4. sp_low h r \<and> joined (sp_contacts h) r j)"
    if "configured sim_gpio h" "j < 3" for h j
  proof -
    have "j = 0 \<or> j = 1 \<or> j = 2" using that(2) by linarith
    moreover have "(\<exists>r < 4. sp_low h r \<and> joined (sp_contacts h) r j) = sp_column_low h j"
      unfolding sp_column_low_def less_4_cases by blast
    ultimately show ?thesis by (auto simp: sp_read_def bit_sp_idr[simplified])
  qed
qed (auto simp: sp_contacts_def sp_write_def sp_read_def config_regs_def clocked_def)

text \<open>A pad in its reset state with the port clocks off, and a counter as its generator.\<close>

definition sample_pad :: "contacts \<Rightarrow> sim_pad" where
  "sample_pad K = \<lparr>sp_regs = (\<lambda>reg. if reg = RCC_AHB2ENR then 0 else 0xFFFFFFFF),
                   sp_low = (\<lambda>r. False), sp_closed = K\<rparr>"

definition counter_u32 :: "u32 \<Rightarrow> u32 \<times> u32" where
  "counter_u32 s = (s, s + 1)"

end
