(* ===== verification/Callgate.thy ===== *)
theory Callgate
  imports Prelude
begin

text \<open>
  The way into the bootloader (\<open>hal/src/callgate.rs\<close>): buffer validation, the guarded call
  with interrupts masked, the wrappers built on it, and the PIN attempt structure with the
  classification of its sub-calls. The gate itself is bootloader code outside the repository: it
  is the field \<open>gt_blx\<close> of a record every operation takes.
\<close>

subsection \<open>Memory map\<close>

definition SRAM_BASE :: nat where "SRAM_BASE = 0x20000000"
definition BL_SRAM_BASE :: nat where "BL_SRAM_BASE = 0x2009e000"

subsection \<open>Selectors\<close>

definition GATE_ENTRY_LOW_BYTE :: u32 where "GATE_ENTRY_LOW_BYTE = 0x05"
definition SELECTOR_ENTER_DFU :: u32 where "SELECTOR_ENTER_DFU = 2"
definition ENTER_DFU_ARG2_SAFE :: u32 where "ENTER_DFU_ARG2_SAFE = 0"
definition SELECTOR_READ_RNG :: u32 where "SELECTOR_READ_RNG = 26"
definition RNG_BUF_LEN :: nat where "RNG_BUF_LEN = 33"
definition MAX_GATE_LEN :: nat where "MAX_GATE_LEN = 1024"
definition SELECTOR_PIN :: u32 where "SELECTOR_PIN = 18"
definition PIN_SUBCALL_SETUP :: u32 where "PIN_SUBCALL_SETUP = 0"
definition PIN_ATTEMPT_SIZE :: nat where "PIN_ATTEMPT_SIZE = 280"
definition MAX_PIN_LEN :: nat where "MAX_PIN_LEN = 32"
definition PA_MAGIC_V2 :: nat where "PA_MAGIC_V2 = 0x2eaf6312"
definition SELECTOR_OTP :: u32 where "SELECTOR_OTP = 21"
definition OTP_SUBCALL_READ_COUNTER0 :: u32 where "OTP_SUBCALL_READ_COUNTER0 = 3"
definition COUNTER0_BUF_LEN :: nat where "COUNTER0_BUF_LEN = 4"
definition SELECTOR_MCU_KEY_USAGE :: u32 where "SELECTOR_MCU_KEY_USAGE = 25"
definition MCU_KEY_USAGE_BUF_LEN :: nat where "MCU_KEY_USAGE_BUF_LEN = 12"

datatype rng_source = RsSe1 | RsSe2

definition byte_count :: "rng_source \<Rightarrow> nat" where
  "byte_count s = (case s of RsSe1 \<Rightarrow> 32 | RsSe2 \<Rightarrow> 8)"

definition rng_arg2 :: "rng_source \<Rightarrow> u32" where
  "rng_arg2 s = (case s of RsSe1 \<Rightarrow> 1 | RsSe2 \<Rightarrow> 2)"

subsection \<open>Error numbers\<close>

datatype errno = Errno (errno_get: u32)

definition BAD_GATE :: errno where "BAD_GATE = Errno 0xC5000001"
definition BAD_BUFFER :: errno where "BAD_BUFFER = Errno 0xC5000002"
definition SHORT_READ :: errno where "SHORT_READ = Errno 0xC5000003"
definition FORBIDDEN_SUBCALL :: errno where "FORBIDDEN_SUBCALL = Errno 0xC5000004"
definition BAD_PIN_LEN :: errno where "BAD_PIN_LEN = Errno 0xC5000005"
definition EPIN_I_AM_BRICK :: int where "EPIN_I_AM_BRICK = -105"

definition errno_from_raw :: "u32 \<Rightarrow> errno option" where
  "errno_from_raw rv = (if rv = 0 then None else Some (Errno rv))"

definition errno_signed :: "errno \<Rightarrow> int" where
  "errno_signed e = sint (errno_get e)"

definition is_brick_report :: "errno \<Rightarrow> bool" where
  "is_brick_report e \<longleftrightarrow> errno_signed e = EPIN_I_AM_BRICK"

subsection \<open>Buffers\<close>

datatype buf_fault = NotInSram | BadLength | TooShortForSelector

definition validate_buf :: "nat \<Rightarrow> nat \<Rightarrow> nat \<Rightarrow> buf_fault + unit" where
  "validate_buf ptr len min_len =
     (if len = 0 \<or> MAX_GATE_LEN < len then Inl BadLength
      else if len < min_len then Inl TooShortForSelector
      else case u32_checked_add ptr len of
             None \<Rightarrow> Inl NotInSram
           | Some end' \<Rightarrow> if SRAM_BASE \<le> ptr \<and> end' \<le> BL_SRAM_BASE then Inr () else Inl NotInSram)"

definition parse_rng_response :: "rng_source \<Rightarrow> bytes \<Rightarrow> nat \<Rightarrow> errno + bytes" where
  "parse_rng_response source buf out_len =
     (let want = byte_count source in
      if length buf < RNG_BUF_LEN \<or> out_len \<noteq> want then Inl SHORT_READ
      else if unat (buf ! 0) \<noteq> want then Inl SHORT_READ
      else if length buf < 1 + want then Inl SHORT_READ
      else let payload = window buf 1 want in
        if list_all (\<lambda>b. b = 0) payload \<or> list_all (\<lambda>b. b = 0xff) payload then Inl SHORT_READ
        else Inr payload)"

subsection \<open>The call\<close>

text \<open>A pointer argument is null or an address with the bytes that live there.\<close>

type_synonym gate_buf = "(nat \<times> bytes) option"

record 'h machine =
  mc_irq_masked :: bool
  mc_hw :: 'h

record 'h gate_port =
  gt_table :: "'h \<Rightarrow> u32"
  gt_blx :: "u32 \<Rightarrow> u32 \<Rightarrow> gate_buf \<Rightarrow> u32 \<Rightarrow> u32 \<Rightarrow> 'h machine \<Rightarrow> u32 \<times> bytes \<times> 'h machine"

definition with_irq_off :: "('h machine \<Rightarrow> 'a \<times> 'h machine) \<Rightarrow> 'h machine \<Rightarrow> 'a \<times> 'h machine" where
  "with_irq_off f m =
     (let primask = mc_irq_masked m; (out, m1) = f (m\<lparr>mc_irq_masked := True\<rparr>) in
      (out, if \<not> primask then m1\<lparr>mc_irq_masked := False\<rparr> else m1))"

definition buf_bytes :: "gate_buf \<Rightarrow> bytes" where
  "buf_bytes buf = (case buf of None \<Rightarrow> [] | Some (_, bs) \<Rightarrow> bs)"

definition gate_raw ::
  "'h gate_port \<Rightarrow> u32 \<Rightarrow> gate_buf \<Rightarrow> u32 \<Rightarrow> u32 \<Rightarrow> 'h machine \<Rightarrow> u32 \<times> bytes \<times> 'h machine" where
  "gate_raw G selector buf len arg2 m =
     (let dest = gt_table G (mc_hw m) in
      if dest AND 0xff \<noteq> GATE_ENTRY_LOW_BYTE then (errno_get BAD_GATE, buf_bytes buf, m)
      else gt_blx G dest selector buf len arg2 m)"

definition gate_call ::
  "'h gate_port \<Rightarrow> u32 \<Rightarrow> gate_buf \<Rightarrow> u32 \<Rightarrow> nat \<Rightarrow> u32 \<Rightarrow> 'h machine
     \<Rightarrow> (errno + unit) \<times> bytes \<times> 'h machine" where
  "gate_call G selector buf len min_len arg2 m =
     (if \<not> (buf = None \<and> len = 0 \<and> min_len = 0) \<and>
         \<not> is_ok (validate_buf (case buf of None \<Rightarrow> 0 | Some (p, _) \<Rightarrow> p) (unat len) min_len)
      then (Inl BAD_BUFFER, buf_bytes buf, m)
      else case with_irq_off (\<lambda>m. case gate_raw G selector buf len arg2 m of (rv, bs, m') \<Rightarrow> ((rv, bs), m')) m of
             ((rv, bs), m') \<Rightarrow>
               ((case errno_from_raw rv of None \<Rightarrow> Inr () | Some e \<Rightarrow> Inl e), bs, m'))"

subsection \<open>Entropy and DFU\<close>

text \<open>\<open>sp\<close> is the address of the stack local the wrapper hands to the gate.\<close>

definition read_rng :: "'h gate_port \<Rightarrow> nat \<Rightarrow> rng_source \<Rightarrow> nat \<Rightarrow> 'h machine \<Rightarrow> (errno + bytes) \<times> 'h machine" where
  "read_rng G sp source out_len m =
     (if out_len \<noteq> byte_count source then (Inl SHORT_READ, m)
      else case gate_call G SELECTOR_READ_RNG (Some (sp, replicate RNG_BUF_LEN 0))
                  (word_of_nat RNG_BUF_LEN) RNG_BUF_LEN (rng_arg2 source) m of
             (Inl e, _, m') \<Rightarrow> (Inl e, m')
           | (Inr _, buf, m') \<Rightarrow> (parse_rng_response source buf out_len, m'))"

definition try_enter_dfu :: "'h gate_port \<Rightarrow> 'h machine \<Rightarrow> 'h machine" where
  "try_enter_dfu G m =
     (case gate_call G SELECTOR_ENTER_DFU None 0 0 ENTER_DFU_ARG2_SAFE m of (_, _, m') \<Rightarrow> m')"

subsection \<open>The PIN surface\<close>

datatype sub_call_cost = CostFree | CostCounted | CostDestructive | CostAbsent

definition pin_subcall_cost :: "u32 \<Rightarrow> sub_call_cost" where
  "pin_subcall_cost arg2 =
     (if arg2 = 0 then CostFree else if arg2 = 1 then CostFree else if arg2 = 2 then CostCounted
      else if arg2 = 3 then CostDestructive else if arg2 = 4 then CostCounted
      else if 5 \<le> arg2 \<and> arg2 \<le> 8 then CostDestructive else CostAbsent)"

definition check_pin_subcall :: "u32 \<Rightarrow> errno + unit" where
  "check_pin_subcall arg2 =
     (case pin_subcall_cost arg2 of CostFree \<Rightarrow> Inr () | _ \<Rightarrow> Inl FORBIDDEN_SUBCALL)"

definition ATTEMPTS_LEFT_FLOOR :: u32 where "ATTEMPTS_LEFT_FLOOR = 2"

definition login_attempt_permitted :: "u32 \<Rightarrow> bool" where
  "login_attempt_permitted attempts_left \<longleftrightarrow> ATTEMPTS_LEFT_FLOOR < attempts_left"

record pin_attempt =
  pa_raw :: bytes

definition OFF_MAGIC :: nat where "OFF_MAGIC = 0"
definition OFF_PIN :: nat where "OFF_PIN = 8"
definition OFF_PIN_LEN :: nat where "OFF_PIN_LEN = 40"
definition OFF_NUM_FAILS :: nat where "OFF_NUM_FAILS = 52"
definition OFF_ATTEMPTS_LEFT :: nat where "OFF_ATTEMPTS_LEFT = 56"
definition OFF_STATE_FLAGS :: nat where "OFF_STATE_FLAGS = 60"

definition pin_attempt_new :: "bytes \<Rightarrow> errno + pin_attempt" where
  "pin_attempt_new pin =
     (if MAX_PIN_LEN < length pin then Inl BAD_PIN_LEN
      else let raw0 = replicate PIN_ATTEMPT_SIZE 0;
               raw1 = patch raw0 OFF_MAGIC (le_bytes 4 PA_MAGIC_V2) in
        if PIN_ATTEMPT_SIZE < OFF_PIN + length pin then Inl BAD_PIN_LEN
        else let raw2 = patch raw1 OFF_PIN pin;
                 raw3 = patch raw2 OFF_PIN_LEN (le_bytes 4 (length pin)) in
          Inr \<lparr>pa_raw = raw3\<rparr>)"

definition pa_word :: "pin_attempt \<Rightarrow> nat \<Rightarrow> nat" where
  "pa_word a off = of_le [pa_raw a ! off, pa_raw a ! (off + 1), pa_raw a ! (off + 2), pa_raw a ! (off + 3)]"

definition pa_magic :: "pin_attempt \<Rightarrow> nat" where "pa_magic a = pa_word a OFF_MAGIC"
definition pa_pin_len :: "pin_attempt \<Rightarrow> nat" where "pa_pin_len a = pa_word a OFF_PIN_LEN"
definition pa_num_fails :: "pin_attempt \<Rightarrow> nat" where "pa_num_fails a = pa_word a OFF_NUM_FAILS"
definition pa_attempts_left :: "pin_attempt \<Rightarrow> nat" where "pa_attempts_left a = pa_word a OFF_ATTEMPTS_LEFT"
definition pa_state_flags :: "pin_attempt \<Rightarrow> nat" where "pa_state_flags a = pa_word a OFF_STATE_FLAGS"

definition pin_setup_attempt ::
  "'h gate_port \<Rightarrow> nat \<Rightarrow> pin_attempt \<Rightarrow> 'h machine \<Rightarrow> (errno + unit) \<times> pin_attempt \<times> 'h machine" where
  "pin_setup_attempt G p att m =
     (case check_pin_subcall PIN_SUBCALL_SETUP of
        Inl e \<Rightarrow> (Inl e, att, m)
      | Inr _ \<Rightarrow>
          (case gate_call G SELECTOR_PIN (Some (p, pa_raw att)) (word_of_nat PIN_ATTEMPT_SIZE)
                  PIN_ATTEMPT_SIZE PIN_SUBCALL_SETUP m of
             (r, bs, m') \<Rightarrow> (r, \<lparr>pa_raw = bs\<rparr>, m')))"

definition read_counter0 :: "'h gate_port \<Rightarrow> nat \<Rightarrow> 'h machine \<Rightarrow> (errno + nat) \<times> 'h machine" where
  "read_counter0 G sp m =
     (case gate_call G SELECTOR_OTP (Some (sp, le_bytes 4 0)) (word_of_nat COUNTER0_BUF_LEN)
             COUNTER0_BUF_LEN OTP_SUBCALL_READ_COUNTER0 m of
        (Inl e, _, m') \<Rightarrow> (Inl e, m')
      | (Inr _, bs, m') \<Rightarrow> (Inr (of_le (take 4 bs)), m'))"

record mcu_key_usage =
  mk_avail :: nat
  mk_consumed :: nat
  mk_total :: nat

definition mcu_key_usage_from_words :: "nat \<Rightarrow> nat \<Rightarrow> nat \<Rightarrow> mcu_key_usage" where
  "mcu_key_usage_from_words w0 w1 w2 = \<lparr>mk_avail = w0, mk_consumed = w1, mk_total = w2\<rparr>"

definition read_mcu_key_usage :: "'h gate_port \<Rightarrow> nat \<Rightarrow> 'h machine \<Rightarrow> (errno + mcu_key_usage) \<times> 'h machine" where
  "read_mcu_key_usage G sp m =
     (case gate_call G SELECTOR_MCU_KEY_USAGE (Some (sp, replicate MCU_KEY_USAGE_BUF_LEN 0))
             (word_of_nat MCU_KEY_USAGE_BUF_LEN) MCU_KEY_USAGE_BUF_LEN 0 m of
        (Inl e, _, m') \<Rightarrow> (Inl e, m')
      | (Inr _, bs, m') \<Rightarrow>
          (Inr (mcu_key_usage_from_words (of_le (window bs 0 4)) (of_le (window bs 4 4)) (of_le (window bs 8 4))), m'))"

subsection \<open>Which entries are free\<close>

text \<open>The selector and argument pairs that return and cost nothing, with a buffer the gate accepts
  (\<open>good_addr\<close> and the selector's own minimum length) and interrupts masked.\<close>

definition free_entry :: "u32 \<Rightarrow> gate_buf \<Rightarrow> u32 \<Rightarrow> u32 \<Rightarrow> bool \<Rightarrow> bool" where
  "free_entry selector buf len arg2 masked \<longleftrightarrow> masked \<and>
     (case buf of
        None \<Rightarrow> selector = 2 \<and> len = 0 \<and> arg2 = 0
      | Some (p, bs) \<Rightarrow> SRAM_BASE \<le> p \<and> p + length bs \<le> BL_SRAM_BASE \<and> unat len = length bs \<and>
          ((selector = 26 \<and> (arg2 = 1 \<or> arg2 = 2) \<and> length bs = 33) \<or>
           (selector = 18 \<and> arg2 = 0 \<and> length bs = 280) \<or>
           (selector = 21 \<and> arg2 = 3 \<and> length bs = 4) \<or>
           (selector = 25 \<and> arg2 = 0 \<and> length bs = 12)))"

text \<open>Two gates that do the same on the free entries.\<close>

definition free_alike :: "'h gate_port \<Rightarrow> 'h gate_port \<Rightarrow> bool" where
  "free_alike G G' \<longleftrightarrow> gt_table G = gt_table G' \<and>
     (\<forall>dest selector buf len arg2 m. free_entry selector buf len arg2 (mc_irq_masked m)
        \<longrightarrow> gt_blx G dest selector buf len arg2 m = gt_blx G' dest selector buf len arg2 m)"

lemma validate_buf_ok:
  "is_ok (validate_buf p len min_len) \<longleftrightarrow>
     0 < len \<and> len \<le> MAX_GATE_LEN \<and> min_len \<le> len \<and> SRAM_BASE \<le> p \<and> p + len \<le> BL_SRAM_BASE"
  by (auto simp: validate_buf_def u32_checked_add_def u32_lim_def BL_SRAM_BASE_def)

lemma gate_call_alike:
  assumes "free_alike G G'"
    and "buf = None \<and> len = 0 \<and> min_len = 0 \<and> selector = 2 \<and> arg2 = 0 \<or>
      (\<exists>p bs. buf = Some (p, bs) \<and> unat len = length bs \<and>
         (SRAM_BASE \<le> p \<longrightarrow> p + length bs \<le> BL_SRAM_BASE \<longrightarrow> free_entry selector buf len arg2 True))"
  shows "gate_call G selector buf len min_len arg2 m = gate_call G' selector buf len min_len arg2 m"
proof (cases "buf = None \<and> len = 0 \<and> min_len = 0 \<or>
    is_ok (validate_buf (case buf of None \<Rightarrow> 0 | Some (p, _) \<Rightarrow> p) (unat len) min_len)")
  case True
  have "free_entry selector buf len arg2 True"
    using assms(2) True by (auto simp: free_entry_def validate_buf_ok SRAM_BASE_def)
  then have "gate_raw G selector buf len arg2 (m\<lparr>mc_irq_masked := True\<rparr>)
      = gate_raw G' selector buf len arg2 (m\<lparr>mc_irq_masked := True\<rparr>)"
    using assms(1) by (simp add: gate_raw_def Let_def free_alike_def)
  then show ?thesis by (simp only: gate_call_def with_irq_off_def Let_def)
qed (simp add: gate_call_def)

lemmas gate_sizes = RNG_BUF_LEN_def PIN_ATTEMPT_SIZE_def COUNTER0_BUF_LEN_def MCU_KEY_USAGE_BUF_LEN_def
lemmas gate_selectors = SELECTOR_READ_RNG_def SELECTOR_ENTER_DFU_def ENTER_DFU_ARG2_SAFE_def SELECTOR_PIN_def
  PIN_SUBCALL_SETUP_def SELECTOR_OTP_def OTP_SUBCALL_READ_COUNTER0_def SELECTOR_MCU_KEY_USAGE_def

lemma wrappers_alike:
  assumes "free_alike G G'"
  shows "read_rng G sp source n m = read_rng G' sp source n m"
    and "try_enter_dfu G m = try_enter_dfu G' m"
    and "length (pa_raw att) = PIN_ATTEMPT_SIZE \<Longrightarrow> pin_setup_attempt G sp att m = pin_setup_attempt G' sp att m"
    and "read_counter0 G sp m = read_counter0 G' sp m"
    and "read_mcu_key_usage G sp m = read_mcu_key_usage G' sp m"
proof -
  note alike = gate_call_alike[OF assms]
  show "read_rng G sp source n m = read_rng G' sp source n m"
    unfolding read_rng_def
    by (subst alike) (auto simp: free_entry_def gate_sizes gate_selectors rng_arg2_def split: rng_source.splits)
  show "try_enter_dfu G m = try_enter_dfu G' m"
    unfolding try_enter_dfu_def by (subst alike) (auto simp: gate_selectors)
  show "pin_setup_attempt G sp att m = pin_setup_attempt G' sp att m" if "length (pa_raw att) = PIN_ATTEMPT_SIZE"
    unfolding pin_setup_attempt_def
    using that by (subst alike) (auto simp: free_entry_def gate_sizes gate_selectors)
  show "read_counter0 G sp m = read_counter0 G' sp m"
    unfolding read_counter0_def by (subst alike) (auto simp: free_entry_def gate_sizes gate_selectors)
  show "read_mcu_key_usage G sp m = read_mcu_key_usage G' sp m"
    unfolding read_mcu_key_usage_def by (subst alike) (auto simp: free_entry_def gate_sizes gate_selectors)
qed

subsection \<open>The interrupt mask is put back\<close>

lemma gate_call_irq:
  assumes "gate_call G selector buf len min_len arg2 m = (r, bs, m')"
    and "\<And>dest m. mc_irq_masked m \<Longrightarrow> mc_irq_masked (snd (snd (gt_blx G dest selector buf len arg2 m)))"
  shows "mc_irq_masked m' = mc_irq_masked m"
proof -
  have "mc_irq_masked (snd (snd (gate_raw G selector buf len arg2 (m\<lparr>mc_irq_masked := True\<rparr>))))"
    using assms(2) by (simp add: gate_raw_def Let_def)
  then show ?thesis using assms(1)
    by (auto simp: gate_call_def with_irq_off_def Let_def split: if_splits prod.splits)
qed

subsection \<open>The attempt structure\<close>

lemma pa_word_window: "off + 4 \<le> length (pa_raw a) \<Longrightarrow> pa_word a off = of_le (window (pa_raw a) off 4)"
proof -
  assume "off + 4 \<le> length (pa_raw a)"
  then have "window (pa_raw a) off 4 = [pa_raw a ! off, pa_raw a ! (off + 1), pa_raw a ! (off + 2), pa_raw a ! (off + 3)]"
    by (intro nth_equalityI) (auto simp: length_window nth_window less_Suc_eq numeral_eq_Suc)
  then show ?thesis by (simp add: pa_word_def)
qed

lemmas pin_offsets = OFF_MAGIC_def OFF_PIN_def OFF_PIN_LEN_def OFF_NUM_FAILS_def OFF_ATTEMPTS_LEFT_def
  OFF_STATE_FLAGS_def PIN_ATTEMPT_SIZE_def MAX_PIN_LEN_def

lemma pin_attempt_new_ok:
  assumes "length pin \<le> MAX_PIN_LEN"
  obtains a where "pin_attempt_new pin = Inr a" and "length (pa_raw a) = PIN_ATTEMPT_SIZE"
    and "pa_magic a = PA_MAGIC_V2" and "pa_pin_len a = length pin"
    and "window (pa_raw a) OFF_PIN (length pin) = pin" and "pa_state_flags a = 0"
proof -
  define r1 where "r1 = patch (replicate PIN_ATTEMPT_SIZE 0) OFF_MAGIC (le_bytes 4 PA_MAGIC_V2)"
  define r2 where "r2 = patch r1 OFF_PIN pin"
  define r3 where "r3 = patch r2 OFF_PIN_LEN (le_bytes 4 (length pin))"
  have n: "length pin \<le> 32" using assms by (simp add: MAX_PIN_LEN_def)
  have l: "length r1 = 280" "length r2 = 280" "length r3 = 280"
    using n by (simp_all add: r1_def r2_def r3_def pin_offsets)
  have new: "pin_attempt_new pin = Inr \<lparr>pa_raw = r3\<rparr>"
    using n by (simp add: pin_attempt_new_def Let_def r1_def r2_def r3_def pin_offsets)
  have "window r3 0 4 = le_bytes 4 PA_MAGIC_V2"
    using n l by (simp add: r3_def r2_def window_patch_other pin_offsets)
       (simp add: r1_def pin_offsets window_patch_same[where ys = "le_bytes 4 _", simplified])
  then have "pa_magic \<lparr>pa_raw = r3\<rparr> = PA_MAGIC_V2"
    using l by (simp add: pa_magic_def pa_word_window pin_offsets of_le_bytes PA_MAGIC_V2_def)
  moreover have "window r3 40 4 = le_bytes 4 (length pin)"
    using l window_patch_same[of 40 "le_bytes 4 (length pin)" r2] by (simp add: r3_def pin_offsets)
  then have "pa_pin_len \<lparr>pa_raw = r3\<rparr> = length pin"
    using l n by (simp add: pa_pin_len_def pa_word_window pin_offsets of_le_bytes)
  moreover have "window r3 8 (length pin) = pin"
    using l n window_patch_same[of 8 pin r1] by (simp add: r3_def r2_def window_patch_other pin_offsets)
  moreover have "window r3 60 4 = replicate 4 0"
    using n l by (simp add: r3_def r2_def r1_def window_patch_other pin_offsets window_replicate)
  then have "pa_state_flags \<lparr>pa_raw = r3\<rparr> = 0"
    using l by (simp add: pa_state_flags_def pa_word_window pin_offsets numeral_eq_Suc)
  ultimately show ?thesis using that[OF new] l by (simp add: pin_offsets)
qed

lemma pin_attempt_size: "pin_attempt_new pin = Inr att \<Longrightarrow> length (pa_raw att) = PIN_ATTEMPT_SIZE"
proof -
  assume new: "pin_attempt_new pin = Inr att"
  then have "length pin \<le> MAX_PIN_LEN" by (auto simp: pin_attempt_new_def Let_def split: if_splits)
  then obtain a where "pin_attempt_new pin = Inr a" "length (pa_raw a) = PIN_ATTEMPT_SIZE"
    by (rule pin_attempt_new_ok)
  with new show ?thesis by simp
qed

end
