(* ===== verification/Rng.thy ===== *)
theory Rng
  imports Callgate
begin

text \<open>
  The entropy of the device (\<open>hal/src/rng.rs\<close>): the on-die generator with its bounded polls,
  the two secure-element legs through the callgate, the health check of each draw, the mixer, and
  the generator seeded from it with its reseeding. SHA-256 and ChaCha20 are parameters; the
  registers of the generator are a port whose reads may change its state.
\<close>

definition TRNG_BYTES :: nat where "TRNG_BYTES = 32"
definition SE1_BYTES :: nat where "SE1_BYTES = 32"
definition SE2_BYTES :: nat where "SE2_BYTES = 8"
definition SEED_BYTES :: nat where "SEED_BYTES = 32"

text \<open>\<open>b"cold-snap/hal/rng/v1"\<close>.\<close>

definition MIX_DOMAIN :: bytes where
  "MIX_DOMAIN = [0x63, 0x6f, 0x6c, 0x64, 0x2d, 0x73, 0x6e, 0x61, 0x70, 0x2f,
                 0x68, 0x61, 0x6c, 0x2f, 0x72, 0x6e, 0x67, 0x2f, 0x76, 0x31]"

datatype source_id = SrcTrng | SrcSe1 | SrcSe2

datatype source_fault = AllBytesEqual | RepeatedWord nat | ShortRead | RngHardware u32
  | CallgateFault u32 | Timeout | NoSources

record rng_fault =
  rf_source :: source_id
  rf_fault :: source_fault

definition rng_fault_new :: "source_id \<Rightarrow> source_fault \<Rightarrow> rng_fault" where
  "rng_fault_new s f = \<lparr>rf_source = s, rf_fault = f\<rparr>"

definition map_fault :: "source_id \<Rightarrow> source_fault + 'a \<Rightarrow> rng_fault + 'a" where
  "map_fault s r = (case r of Inl f \<Rightarrow> Inl (rng_fault_new s f) | Inr x \<Rightarrow> Inr x)"

subsection \<open>The on-die generator\<close>

datatype trng_reg = RNG_CR | RNG_SR | RNG_DR | RNG_RCC

record 't trng_port =
  tr_read :: "trng_reg \<Rightarrow> 't \<Rightarrow> u32 \<times> 't"
  tr_write :: "trng_reg \<Rightarrow> u32 \<Rightarrow> 't \<Rightarrow> 't"

definition RNG_CR_RNGEN :: u32 where "RNG_CR_RNGEN = bitv 2"
definition RNG_SR_DRDY :: u32 where "RNG_SR_DRDY = bitv 0"
definition RNG_SR_CECS :: u32 where "RNG_SR_CECS = bitv 1"
definition RNG_SR_SECS :: u32 where "RNG_SR_SECS = bitv 2"
definition RNG_SR_CEIS :: u32 where "RNG_SR_CEIS = bitv 5"
definition RNG_SR_SEIS :: u32 where "RNG_SR_SEIS = bitv 6"
definition RNG_SR_ERRORS :: u32 where
  "RNG_SR_ERRORS = RNG_SR_SECS OR RNG_SR_CECS OR RNG_SR_SEIS OR RNG_SR_CEIS"
definition RCC_AHB2ENR_RNGEN :: u32 where "RCC_AHB2ENR_RNGEN = bitv 18"
definition SEED_ERROR_DISCARD_WORDS :: nat where "SEED_ERROR_DISCARD_WORDS = 12"
definition DRDY_SPIN_LIMIT :: nat where "DRDY_SPIN_LIMIT = 1000000"
definition WORD_RETRY_LIMIT :: nat where "WORD_RETRY_LIMIT = 16"

definition enable_rng_clock :: "'t trng_port \<Rightarrow> 't \<Rightarrow> 't" where
  "enable_rng_clock T t =
     (let (en, t1) = tr_read T RNG_RCC t;
          t2 = (if en AND RCC_AHB2ENR_RNGEN = 0
                then snd (tr_read T RNG_RCC (tr_write T RNG_RCC (en OR RCC_AHB2ENR_RNGEN) t1)) else t1);
          (cr, t3) = tr_read T RNG_CR t2 in
      if cr AND RNG_CR_RNGEN = 0 then tr_write T RNG_CR (cr OR RNG_CR_RNGEN) t3 else t3)"

fun discard_words :: "'t trng_port \<Rightarrow> nat \<Rightarrow> 't \<Rightarrow> 't" where
  "discard_words T 0 t = t"
| "discard_words T (Suc n) t = discard_words T n (snd (tr_read T RNG_DR t))"

definition recover_seed_error :: "'t trng_port \<Rightarrow> u32 \<Rightarrow> 't \<Rightarrow> 't" where
  "recover_seed_error T sr t =
     (let t1 = tr_write T RNG_SR (sr AND NOT (RNG_SR_SEIS OR RNG_SR_CEIS)) t;
          (cr, t2) = tr_read T RNG_CR t1;
          t3 = tr_write T RNG_CR (cr AND NOT RNG_CR_RNGEN) t2;
          t4 = tr_write T RNG_CR (cr OR RNG_CR_RNGEN) t3 in
      discard_words T SEED_ERROR_DISCARD_WORDS t4)"

fun drdy_poll :: "'t trng_port \<Rightarrow> nat \<Rightarrow> 't \<Rightarrow> (source_fault + unit) \<times> 't" where
  "drdy_poll T spins t =
     (case tr_read T RNG_SR t of (sr, t1) \<Rightarrow>
        if sr AND RNG_SR_ERRORS \<noteq> 0 then (Inl (RngHardware sr), recover_seed_error T sr t1)
        else if sr AND RNG_SR_DRDY \<noteq> 0 then (Inr (), t1)
        else (case spins of 0 \<Rightarrow> (Inl Timeout, t1) | Suc s \<Rightarrow> drdy_poll T s t1))"

fun word_loop :: "'t trng_port \<Rightarrow> nat \<Rightarrow> u32 \<Rightarrow> 't \<Rightarrow> (source_fault + u32) \<times> 't" where
  "word_loop T tries last_word t =
     (case drdy_poll T DRDY_SPIN_LIMIT t of
        (Inl f, t1) \<Rightarrow> (Inl f, t1)
      | (Inr _, t1) \<Rightarrow>
          (case tr_read T RNG_DR t1 of (word, t2) \<Rightarrow>
             if word \<noteq> 0 \<and> word \<noteq> last_word then (Inr word, t2)
             else (case tries of 0 \<Rightarrow> (Inl Timeout, t2) | Suc n \<Rightarrow> word_loop T n last_word t2)))"

declare drdy_poll.simps [simp del] word_loop.simps [simp del]

definition read_one_word :: "'t trng_port \<Rightarrow> u32 \<Rightarrow> 't \<Rightarrow> (source_fault + u32) \<times> 't" where
  "read_one_word T last_word t = word_loop T WORD_RETRY_LIMIT last_word t"

fun read_words :: "'t trng_port \<Rightarrow> nat \<Rightarrow> u32 \<Rightarrow> 't \<Rightarrow> (source_fault + u32 list) \<times> 't" where
  "read_words T 0 last_word t = (Inr [], t)"
| "read_words T (Suc n) last_word t =
     (case read_one_word T last_word t of
        (Inl f, t1) \<Rightarrow> (Inl f, t1)
      | (Inr w, t1) \<Rightarrow>
          (case read_words T n w t1 of
             (Inl f, t2) \<Rightarrow> (Inl f, t2)
           | (Inr ws, t2) \<Rightarrow> (Inr (w # ws), t2)))"

definition words_bytes :: "u32 list \<Rightarrow> bytes" where
  "words_bytes ws = concat (map (\<lambda>w. le_bytes 4 (unat w)) ws)"

definition trng_read :: "'t trng_port \<Rightarrow> nat \<Rightarrow> 't \<Rightarrow> (source_fault + bytes) \<times> 't" where
  "trng_read T out_len t =
     (if out_len \<noteq> TRNG_BYTES then (Inl ShortRead, t)
      else case read_words T (out_len div 4) 0 (enable_rng_clock T t) of
             (Inl f, t1) \<Rightarrow> (Inl f, t1)
           | (Inr ws, t1) \<Rightarrow> (Inr (words_bytes ws), t1))"

subsection \<open>The secure elements\<close>

definition read_via_callgate ::
  "'h gate_port \<Rightarrow> nat \<Rightarrow> rng_source \<Rightarrow> nat \<Rightarrow> nat \<Rightarrow> 'h machine \<Rightarrow> (source_fault + bytes) \<times> 'h machine" where
  "read_via_callgate G sp source expect_len out_len m =
     (if out_len \<noteq> expect_len then (Inl ShortRead, m)
      else if byte_count source \<noteq> expect_len then (Inl ShortRead, m)
      else case read_rng G sp source out_len m of
             (Inl e, m') \<Rightarrow> (Inl (CallgateFault (errno_get e)), m')
           | (Inr bs, m') \<Rightarrow> (Inr bs, m'))"

subsection \<open>The health check\<close>

fun chunks_exact :: "nat \<Rightarrow> bytes \<Rightarrow> bytes list" where
  "chunks_exact n bs =
     (if n = 0 \<or> length bs < n then [] else take n bs # chunks_exact n (drop n bs))"

declare chunks_exact.simps [simp del]

fun check_words :: "nat \<Rightarrow> bytes list \<Rightarrow> source_fault + unit" where
  "check_words i [] = Inr ()"
| "check_words i (w # ws) =
     (case iter_position (\<lambda>v. v = w) ws of
        Some k \<Rightarrow> Inl (RepeatedWord (min 255 (i + k + 1)))
      | None \<Rightarrow> check_words (i + 1) ws)"

definition check_source :: "bytes \<Rightarrow> nat \<Rightarrow> source_fault + unit" where
  "check_source bs expected_len =
     (if bs = [] \<or> length bs \<noteq> expected_len then Inl ShortRead
      else if list_all (\<lambda>b. b = hd bs) bs then Inl AllBytesEqual
      else check_words 0 (chunks_exact 4 bs))"

subsection \<open>The mixer\<close>

fun mix_parts :: "bytes list \<Rightarrow> bytes \<Rightarrow> rng_fault + bytes" where
  "mix_parts [] h = Inr h"
| "mix_parts (p # ps) h =
     (if 256 \<le> length p then Inl (rng_fault_new SrcTrng ShortRead)
      else mix_parts ps (h @ [word_of_nat (length p)] @ p))"

definition mix_checked_draws :: "(bytes \<Rightarrow> bytes) \<Rightarrow> bytes \<Rightarrow> bytes \<Rightarrow> bytes \<Rightarrow> rng_fault + bytes" where
  "mix_checked_draws H trng se1 se2 =
     (case map_fault SrcTrng (check_source trng TRNG_BYTES) of
        Inl f \<Rightarrow> Inl f
      | Inr _ \<Rightarrow>
     (case map_fault SrcSe1 (check_source se1 SE1_BYTES) of
        Inl f \<Rightarrow> Inl f
      | Inr _ \<Rightarrow>
     (case map_fault SrcSe2 (check_source se2 SE2_BYTES) of
        Inl f \<Rightarrow> Inl f
      | Inr _ \<Rightarrow>
     (case mix_parts [trng, se1, se2] MIX_DOMAIN of
        Inl f \<Rightarrow> Inl f
      | Inr transcript \<Rightarrow> Inr (H transcript)))))"

text \<open>The three sources: the generator's state, the machine the gate runs on, and the address of
  the stack local the gate writes to.\<close>

record ('t, 'h) sources =
  src_trng :: 't
  src_machine :: "'h machine"

record ('t, 'h) entropy_env =
  ee_trng :: "'t trng_port"
  ee_gate :: "'h gate_port"
  ee_sp :: nat
  ee_sha :: "bytes \<Rightarrow> bytes"

definition sources_draw ::
  "('t, 'h) entropy_env \<Rightarrow> ('t, 'h) sources \<Rightarrow> (rng_fault + bytes) \<times> ('t, 'h) sources" where
  "sources_draw E s =
     (case trng_read (ee_trng E) TRNG_BYTES (src_trng s) of
        (Inl f, t1) \<Rightarrow> (Inl (rng_fault_new SrcTrng f), s\<lparr>src_trng := t1\<rparr>)
      | (Inr t, t1) \<Rightarrow>
     (case read_via_callgate (ee_gate E) (ee_sp E) RsSe1 SE1_BYTES SE1_BYTES (src_machine s) of
        (Inl f, m1) \<Rightarrow> (Inl (rng_fault_new SrcSe1 f), s\<lparr>src_trng := t1, src_machine := m1\<rparr>)
      | (Inr s1, m1) \<Rightarrow>
     (case read_via_callgate (ee_gate E) (ee_sp E) RsSe2 SE2_BYTES SE2_BYTES m1 of
        (Inl f, m2) \<Rightarrow> (Inl (rng_fault_new SrcSe2 f), s\<lparr>src_trng := t1, src_machine := m2\<rparr>)
      | (Inr s2, m2) \<Rightarrow>
          (mix_checked_draws (ee_sha E) t s1 s2, s\<lparr>src_trng := t1, src_machine := m2\<rparr>))))"

subsection \<open>The generator\<close>

text \<open>ChaCha20 with its state \<open>'c\<close>.\<close>

record 'c stream_cipher =
  cc_from_seed :: "bytes \<Rightarrow> 'c"
  cc_fill :: "nat \<Rightarrow> 'c \<Rightarrow> bytes \<times> 'c"
  cc_next_u32 :: "'c \<Rightarrow> u32 \<times> 'c"

record ('c, 's) entropy =
  en_rng :: 'c
  en_reseeds :: nat
  en_sources :: "'s option"

definition entropy_boot ::
  "'c stream_cipher \<Rightarrow> ('t, 'h) entropy_env \<Rightarrow> ('t, 'h) sources
     \<Rightarrow> rng_fault + ('c, ('t, 'h) sources) entropy" where
  "entropy_boot C E s =
     (case sources_draw E s of
        (Inl f, _) \<Rightarrow> Inl f
      | (Inr seed, s') \<Rightarrow> Inr \<lparr>en_rng = cc_from_seed C seed, en_reseeds = 0, en_sources = Some s'\<rparr>)"

definition try_reseed ::
  "'c stream_cipher \<Rightarrow> ('t, 'h) entropy_env \<Rightarrow> ('c, ('t, 'h) sources) entropy
     \<Rightarrow> (rng_fault + unit) \<times> ('c, ('t, 'h) sources) entropy" where
  "try_reseed C E en =
     (case en_sources en of
        None \<Rightarrow> (Inl (rng_fault_new SrcTrng NoSources), en)
      | Some s \<Rightarrow>
          (case sources_draw E s of
             (Inl f, s') \<Rightarrow> (Inl f, en\<lparr>en_sources := Some s'\<rparr>)
           | (Inr fresh, s') \<Rightarrow>
               (case cc_fill C SEED_BYTES (en_rng en) of (old_output, _) \<Rightarrow>
                  (Inr (), en\<lparr>en_rng := cc_from_seed C (ee_sha E (MIX_DOMAIN @ old_output @ fresh)),
                             en_reseeds := u32_sat_add (en_reseeds en) 1,
                             en_sources := Some s'\<rparr>))))"

definition can_reseed :: "('c, 's) entropy \<Rightarrow> bool" where
  "can_reseed en \<longleftrightarrow> en_sources en \<noteq> None"

definition entropy_next_u32 :: "'c stream_cipher \<Rightarrow> ('c, 's) entropy \<Rightarrow> u32 \<times> ('c, 's) entropy" where
  "entropy_next_u32 C en = (case cc_next_u32 C (en_rng en) of (v, c) \<Rightarrow> (v, en\<lparr>en_rng := c\<rparr>))"

definition entropy_fill_bytes :: "'c stream_cipher \<Rightarrow> nat \<Rightarrow> ('c, 's) entropy \<Rightarrow> bytes \<times> ('c, 's) entropy" where
  "entropy_fill_bytes C n en = (case cc_fill C n (en_rng en) of (bs, c) \<Rightarrow> (bs, en\<lparr>en_rng := c\<rparr>))"

end
