(* ===== verification/RngCorrect.thy ===== *)
theory RngCorrect
  imports Rng
begin

text \<open>
  What the entropy chain of \<open>hal/src/rng.rs\<close> guarantees: where every word of a draw comes
  from, what the health check accepts and what its report means, that the mixed transcript
  determines the three draws, and what a failed or successful reseed does.
\<close>

subsection \<open>Words of the on-die generator\<close>

text \<open>A word read straight after a status that was ready and showed no error, current or latched.\<close>

definition clean_word :: "'t trng_port \<Rightarrow> u32 \<Rightarrow> bool" where
  "clean_word T w \<longleftrightarrow> (\<exists>t sr t1 t2. tr_read T RNG_SR t = (sr, t1) \<and> sr AND RNG_SR_ERRORS = 0 \<and>
     sr AND RNG_SR_DRDY \<noteq> 0 \<and> tr_read T RNG_DR t1 = (w, t2))"

lemma drdy_poll_ready:
  "drdy_poll T n t = (Inr (), t') \<Longrightarrow>
     \<exists>t0 sr. tr_read T RNG_SR t0 = (sr, t') \<and> sr AND RNG_SR_ERRORS = 0 \<and> sr AND RNG_SR_DRDY \<noteq> 0"
proof (induction n arbitrary: t)
  case 0
  then show ?case by (subst (asm) drdy_poll.simps) (auto split: prod.splits if_splits)
next
  case (Suc n)
  from Suc.prems show ?case
    by (subst (asm) drdy_poll.simps) (auto split: prod.splits if_splits dest: Suc.IH)
qed

lemma word_loop_clean:
  "word_loop T n last_word t = (Inr w, t') \<Longrightarrow> clean_word T w \<and> w \<noteq> 0 \<and> w \<noteq> last_word"
proof (induction n arbitrary: t)
  case 0
  then show ?case
    by (subst (asm) word_loop.simps)
       (fastforce simp: clean_word_def split: prod.splits sum.splits if_splits dest: drdy_poll_ready)
next
  case (Suc n)
  show ?case
  proof (cases "drdy_poll T DRDY_SPIN_LIMIT t")
    case (Pair r t1)
    show ?thesis
    proof (cases r)
      case (Inr u)
      obtain v t2 where v: "tr_read T RNG_DR t1 = (v, t2)" by fastforce
      show ?thesis
      proof (cases "v \<noteq> 0 \<and> v \<noteq> last_word")
        case True
        then have "w = v" using Suc.prems Pair Inr v by (subst (asm) word_loop.simps) auto
        then show ?thesis using True v drdy_poll_ready[of T DRDY_SPIN_LIMIT t t1] Pair Inr
          by (auto simp: clean_word_def)
      next
        case False
        then have "word_loop T n last_word t2 = (Inr w, t')"
          using Suc.prems Pair Inr v by (subst (asm) word_loop.simps) auto
        then show ?thesis by (rule Suc.IH)
      qed
    qed (use Suc.prems Pair in \<open>subst (asm) word_loop.simps, auto\<close>)
  qed
qed

lemma read_words_clean:
  "read_words T n last_word t = (Inr ws, t') \<Longrightarrow>
     length ws = n \<and> (\<forall>w \<in> set ws. clean_word T w \<and> w \<noteq> 0) \<and> successively (\<noteq>) (last_word # ws)"
proof (induction n arbitrary: last_word t ws)
  case (Suc n)
  then obtain w t1 us where w: "read_one_word T last_word t = (Inr w, t1)"
    and us: "read_words T n w t1 = (Inr us, t')" and ws: "ws = w # us"
    by (auto split: prod.splits sum.splits)
  have "clean_word T w \<and> w \<noteq> 0 \<and> w \<noteq> last_word"
    by (rule word_loop_clean[OF w[unfolded read_one_word_def]])
  with Suc.IH[OF us] show ?case by (auto simp: ws)
qed auto

lemma length_words_bytes: "length (words_bytes ws) = 4 * length ws"
  by (induction ws) (simp_all add: words_bytes_def)

lemma trng_read_clean:
  assumes "trng_read T n t = (Inr bs, t')"
  shows "\<exists>ws. bs = words_bytes ws \<and> length ws = 8 \<and> (\<forall>w \<in> set ws. clean_word T w \<and> w \<noteq> 0)
     \<and> successively (\<noteq>) ws"
proof -
  have "TRNG_BYTES div 4 = 8" by (simp add: TRNG_BYTES_def)
  with assms obtain ws where ws: "read_words T 8 0 (enable_rng_clock T t) = (Inr ws, t')" "bs = words_bytes ws"
    by (cases "read_words T 8 0 (enable_rng_clock T t)")
       (simp add: trng_read_def split: sum.splits if_splits)
  note W = read_words_clean[OF ws(1)]
  have "successively (\<noteq>) (0 # ws)" using W by blast
  then have "successively (\<noteq>) ws" by (cases ws) auto
  moreover from W have "length ws = 8" "\<forall>w \<in> set ws. clean_word T w \<and> w \<noteq> 0" by blast+
  ultimately show ?thesis using ws(2) by (intro exI[of _ ws] conjI)
qed

subsection \<open>The health check\<close>

lemma check_words_ok: "check_words i ws = Inr () \<longleftrightarrow> distinct ws"
  by (induction ws arbitrary: i) (auto simp: position_None position_Some split: option.splits)

lemma check_words_repeat:
  "check_words i ws = Inl f \<Longrightarrow> \<exists>a b. a < b \<and> b < length ws \<and> ws ! a = ws ! b \<and> f = RepeatedWord (min 255 (i + b))"
proof (induction ws arbitrary: i)
  case (Cons w ws)
  show ?case
  proof (cases "iter_position (\<lambda>v. v = w) ws")
    case None
    with Cons.prems have "check_words (i + 1) ws = Inl f" by simp
    from Cons.IH[OF this] obtain a b
      where "a < b" "b < length ws" "ws ! a = ws ! b" "f = RepeatedWord (min 255 (Suc i + b))" by auto
    then have "Suc a < Suc b \<and> Suc b < length (w # ws) \<and> (w # ws) ! Suc a = (w # ws) ! Suc b
        \<and> f = RepeatedWord (min 255 (i + Suc b))" by simp
    then show ?thesis by (rule_tac exI, rule_tac exI)
  next
    case (Some k)
    with Cons.prems have "f = RepeatedWord (min 255 (i + Suc k))" by auto
    with Some[unfolded position_Some] have "0 < Suc k \<and> Suc k < length (w # ws) \<and> (w # ws) ! 0 = (w # ws) ! Suc k
        \<and> f = RepeatedWord (min 255 (i + Suc k))" by simp
    then show ?thesis by (rule_tac exI, rule_tac exI)
  qed
qed simp

definition healthy_draw :: "bytes \<Rightarrow> nat \<Rightarrow> bool" where
  "healthy_draw bs n \<longleftrightarrow> length bs = n \<and> (\<exists>x \<in> set bs. \<exists>y \<in> set bs. x \<noteq> y) \<and> distinct (chunks_exact 4 bs)"

lemma check_source_ok:
  "check_source bs n = Inr () \<longleftrightarrow> healthy_draw bs n"
proof (cases "bs = [] \<or> length bs \<noteq> n \<or> list_all (\<lambda>b. b = hd bs) bs")
  case True
  then show ?thesis by (auto simp: check_source_def healthy_draw_def list_all_iff)
next
  case False
  then obtain b where "b \<in> set bs" "b \<noteq> hd bs" "hd bs \<in> set bs" by (auto simp: list_all_iff)
  then have "\<exists>x \<in> set bs. \<exists>y \<in> set bs. x \<noteq> y" by blast
  with False show ?thesis by (auto simp: check_source_def healthy_draw_def check_words_ok)
qed

lemma map_fault_simps [simp]:
  "map_fault s (Inl f) = Inl (rng_fault_new s f)" "map_fault s (Inr x) = Inr x"
  by (simp_all add: map_fault_def)

subsection \<open>The transcript\<close>

definition transcript :: "bytes list \<Rightarrow> bytes" where
  "transcript ps = MIX_DOMAIN @ concat (map (\<lambda>p. word_of_nat (length p) # p) ps)"

lemma mix_parts_transcript:
  "\<forall>p \<in> set ps. length p < 256 \<Longrightarrow> mix_parts ps h = Inr (h @ concat (map (\<lambda>p. word_of_nat (length p) # p) ps))"
  by (induction ps arbitrary: h) auto

lemma framed_parts_inject:
  "\<forall>p \<in> set ps. length p < 256 \<Longrightarrow> \<forall>q \<in> set qs. length q < 256 \<Longrightarrow>
   concat (map (\<lambda>p. word_of_nat (length p) # p) ps) = concat (map (\<lambda>p. (word_of_nat (length p) :: u8) # p) qs)
     \<Longrightarrow> ps = qs"
proof (induction ps arbitrary: qs)
  case Nil
  then show ?case by (cases qs) auto
next
  case (Cons p ps)
  then obtain q qs' where qs: "qs = q # qs'" by (cases qs) auto
  from Cons.prems(3) have e: "(word_of_nat (length p) :: u8) = word_of_nat (length q)"
    "p @ concat (map (\<lambda>p. word_of_nat (length p) # p) ps) = q @ concat (map (\<lambda>p. word_of_nat (length p) # p) qs')"
    by (simp_all add: qs)
  have "length p < 2 ^ LENGTH(8)" "length q < 2 ^ LENGTH(8)" using Cons.prems by (auto simp: qs)
  with e(1) have "length p = length q"
    by (metis of_nat_inverse)
  with e(2) have "p = q" "concat (map (\<lambda>p. word_of_nat (length p) # p) ps) = concat (map (\<lambda>p. (word_of_nat (length p) :: u8) # p) qs')"
    by auto
  with Cons.IH[of qs'] Cons.prems show ?case by (simp add: qs)
qed

lemma transcript_inject:
  "\<forall>p \<in> set ps. length p < 256 \<Longrightarrow> \<forall>q \<in> set qs. length q < 256 \<Longrightarrow> transcript ps = transcript qs \<Longrightarrow> ps = qs"
  unfolding transcript_def using framed_parts_inject[of ps qs] by simp

lemma mix_checked_draws_ok:
  "mix_checked_draws H t s1 s2 = Inr seed \<longleftrightarrow>
     healthy_draw t 32 \<and> healthy_draw s1 32 \<and> healthy_draw s2 8 \<and> seed = H (transcript [t, s1, s2])"
proof -
  have ok: "\<exists>u. check_source bs n = Inr u \<longleftrightarrow> healthy_draw bs n" for bs n using check_source_ok by auto
  have parts: "mix_parts [t, s1, s2] MIX_DOMAIN = Inr (transcript [t, s1, s2])"
    if "healthy_draw t 32" "healthy_draw s1 32" "healthy_draw s2 8"
    using that mix_parts_transcript[of "[t, s1, s2]" MIX_DOMAIN]
    by (auto simp: transcript_def healthy_draw_def)
  have c: "(\<exists>f. check_source bs n = Inl f) \<longleftrightarrow> \<not> healthy_draw bs n" for bs n
    using check_source_ok[of bs n] by (cases "check_source bs n") auto
  have h: "healthy_draw bs n \<Longrightarrow> check_source bs n = Inr ()" for bs n using check_source_ok by auto
  show ?thesis
  proof (cases "healthy_draw t 32 \<and> healthy_draw s1 32 \<and> healthy_draw s2 8")
    case True
    with parts h show ?thesis
      by (auto simp: mix_checked_draws_def TRNG_BYTES_def SE1_BYTES_def SE2_BYTES_def simp del: mix_parts.simps)
  next
    case False
    then show ?thesis using c[of t 32] c[of s1 32] c[of s2 8]
      by (auto simp: mix_checked_draws_def TRNG_BYTES_def SE1_BYTES_def SE2_BYTES_def map_fault_def
          simp del: mix_parts.simps split: sum.splits)
  qed
qed

subsection \<open>The three draws\<close>

lemma sources_draw_ok:
  assumes "sources_draw E s = (Inr seed, s')"
  obtains ws s1 s2 m1 m2 where "length ws = 8" and "\<forall>w \<in> set ws. clean_word (ee_trng E) w \<and> w \<noteq> 0"
    and "read_rng (ee_gate E) (ee_sp E) RsSe1 32 (src_machine s) = (Inr s1, m1)"
    and "read_rng (ee_gate E) (ee_sp E) RsSe2 8 m1 = (Inr s2, m2)"
    and "healthy_draw (words_bytes ws) 32" and "healthy_draw s1 32" and "healthy_draw s2 8"
    and "seed = ee_sha E (transcript [words_bytes ws, s1, s2])"
proof -
  from assms obtain t t1 s1 m1 s2 m2 where t: "trng_read (ee_trng E) TRNG_BYTES (src_trng s) = (Inr t, t1)"
    and s1: "read_via_callgate (ee_gate E) (ee_sp E) RsSe1 SE1_BYTES SE1_BYTES (src_machine s) = (Inr s1, m1)"
    and s2: "read_via_callgate (ee_gate E) (ee_sp E) RsSe2 SE2_BYTES SE2_BYTES m1 = (Inr s2, m2)"
    and mix: "mix_checked_draws (ee_sha E) t s1 s2 = Inr seed"
    by (auto simp: sources_draw_def split: prod.splits sum.splits)
  from trng_read_clean[OF t] obtain ws where ws: "t = words_bytes ws" "length ws = 8"
    "\<forall>w \<in> set ws. clean_word (ee_trng E) w \<and> w \<noteq> 0" by blast
  have "read_rng (ee_gate E) (ee_sp E) RsSe1 32 (src_machine s) = (Inr s1, m1)"
    using s1 by (auto simp: read_via_callgate_def SE1_BYTES_def split: prod.splits sum.splits if_splits)
  moreover have "read_rng (ee_gate E) (ee_sp E) RsSe2 8 m1 = (Inr s2, m2)"
    using s2 by (auto simp: read_via_callgate_def SE2_BYTES_def split: prod.splits sum.splits if_splits)
  ultimately show thesis using that ws mix unfolding mix_checked_draws_ok by blast
qed

lemma transcript_determines:
  assumes "healthy_draw t 32" and "healthy_draw s1 32" and "healthy_draw s2 8"
    and "\<forall>p \<in> set ps. length p < 256" and "transcript ps = transcript [t, s1, s2]"
  shows "ps = [t, s1, s2]"
  using assms by (intro transcript_inject) (auto simp: healthy_draw_def)

lemma mix_failure_source:
  "mix_checked_draws H t s1 s2 = Inl f \<Longrightarrow>
     rf_source f = (if \<not> healthy_draw t 32 then SrcTrng else if \<not> healthy_draw s1 32 then SrcSe1 else SrcSe2)"
  using check_source_ok[of t 32] check_source_ok[of s1 32] check_source_ok[of s2 8]
    mix_checked_draws_ok[of H t s1 s2 "H (transcript [t, s1, s2])"]
  by (auto simp: mix_checked_draws_def TRNG_BYTES_def SE1_BYTES_def SE2_BYTES_def rng_fault_new_def map_fault_def
      simp del: mix_parts.simps split: sum.splits)

subsection \<open>Reseeding\<close>

lemma try_reseed_cases:
  "try_reseed C E en = (r, en') \<Longrightarrow>
     (case r of
        Inl f \<Rightarrow> en_rng en' = en_rng en \<and> en_reseeds en' = en_reseeds en \<and> can_reseed en' = can_reseed en
      | Inr _ \<Rightarrow> can_reseed en \<and> can_reseed en' \<and> en_reseeds en' = min u32_max (en_reseeds en + 1) \<and>
          (\<exists>s s' fresh. en_sources en = Some s \<and> sources_draw E s = (Inr fresh, s') \<and>
             en_rng en' = cc_from_seed C (ee_sha E (MIX_DOMAIN @ fst (cc_fill C SEED_BYTES (en_rng en)) @ fresh))))"
  by (auto simp: try_reseed_def can_reseed_def u32_sat_add_def split: option.splits prod.splits sum.splits)

subsection \<open>A working set of sources\<close>

text \<open>A generator that counts and is always ready, a gate that answers every entry with a count and
  that many distinct bytes, the first 32 bytes for the hash, and a cipher that keeps its seed.\<close>

definition sample_trng :: "nat trng_port" where
  "sample_trng = \<lparr>tr_read = (\<lambda>r t. case r of RNG_DR \<Rightarrow> (word_of_nat (t + 1), t + 1) | _ \<Rightarrow> (1, t)),
                  tr_write = (\<lambda>r w t. t)\<rparr>"

definition sample_gate :: "unit gate_port" where
  "sample_gate = \<lparr>gt_table = (\<lambda>h. 0x08000305),
     gt_blx = (\<lambda>dest selector buf len arg2 m. (0, (if arg2 = 1 then 32 else 8) # map word_of_nat [0 ..< 32], m))\<rparr>"

definition sample_entropy_env :: "(nat, unit) entropy_env" where
  "sample_entropy_env = \<lparr>ee_trng = sample_trng, ee_gate = sample_gate, ee_sp = 0x20000100, ee_sha = take 32\<rparr>"

definition sample_cipher :: "bytes stream_cipher" where
  "sample_cipher = \<lparr>cc_from_seed = (\<lambda>s. s), cc_fill = (\<lambda>n s. (take n s, s)), cc_next_u32 = (\<lambda>s. (7, s))\<rparr>"

definition sample_sources :: "(nat, unit) sources" where
  "sample_sources = \<lparr>src_trng = 0, src_machine = \<lparr>mc_irq_masked = False, mc_hw = ()\<rparr>\<rparr>"

lemma sample_trng_simps [simp]:
  "tr_read sample_trng RNG_DR t = (word_of_nat (t + 1), t + 1)"
  "tr_read sample_trng RNG_SR t = (1, t)" "tr_read sample_trng RNG_CR t = (1, t)"
  "tr_read sample_trng RNG_RCC t = (1, t)" "tr_write sample_trng r w t = t"
  by (simp_all add: sample_trng_def)

lemma sample_clock: "enable_rng_clock sample_trng t = t"
  by (simp add: enable_rng_clock_def Let_def)

lemma sample_poll: "drdy_poll sample_trng n t = (Inr (), t)"
  by (subst drdy_poll.simps)
     (simp add: RNG_SR_ERRORS_def RNG_SR_SECS_def RNG_SR_CECS_def RNG_SR_SEIS_def RNG_SR_CEIS_def RNG_SR_DRDY_def
       bitv_def push_bit_eq_mult)

lemma sample_word:
  "(word_of_nat (t + 1) :: u32) \<noteq> 0 \<Longrightarrow> word_of_nat (t + 1) \<noteq> last_word \<Longrightarrow>
     read_one_word sample_trng last_word t = (Inr (word_of_nat (t + 1)), t + 1)"
  unfolding read_one_word_def by (subst word_loop.simps) (simp add: sample_poll)

lemma sample_trng_read:
  "trng_read sample_trng 32 0 = (Inr (words_bytes [1, 2, 3, 4, 5, 6, 7, 8]), 8)"
proof -
  have "read_words sample_trng (Suc (Suc (Suc (Suc (Suc (Suc (Suc (Suc 0)))))))) 0 0
      = (Inr [1, 2, 3, 4, 5, 6, 7, 8], 8)"
    by (simp add: sample_word)
  moreover have "Suc (Suc (Suc (Suc (Suc (Suc (Suc (Suc 0))))))) = 32 div 4" by simp
  ultimately have "read_words sample_trng (32 div 4) 0 0 = (Inr [1, 2, 3, 4, 5, 6, 7, 8], 8)" by simp
  then show ?thesis by (simp add: trng_read_def TRNG_BYTES_def sample_clock)
qed

lemma sample_gate_read:
  "read_rng sample_gate 0x20000100 RsSe1 32 m = (Inr (map word_of_nat [0 ..< 32]), m)"
  "read_rng sample_gate 0x20000100 RsSe2 8 m = (Inr (map word_of_nat [0 ..< 8]), m)"
proof -
  have ok: "is_ok (validate_buf 0x20000100 33 33)"
    by (simp add: validate_buf_ok MAX_GATE_LEN_def SRAM_BASE_def BL_SRAM_BASE_def)
  have call: "gate_call sample_gate sel (Some (0x20000100, replicate 33 0)) 33 33 arg2 m
      = (Inr (), (if arg2 = 1 then 32 else 8) # map word_of_nat [0 ..< 32], m)" for sel arg2
    using ok by (simp add: gate_call_def gate_raw_def with_irq_off_def Let_def sample_gate_def
        GATE_ENTRY_LOW_BYTE_def errno_from_raw_def)
  have win: "window ((x :: u8) # map word_of_nat [0 ..< 32]) 1 n = map word_of_nat [0 ..< n]" if "n \<le> 32" for x n
    using that by (simp add: window_def take_map)
  have mixed: "\<not> list_all (\<lambda>b. b = 0) (map word_of_nat [0 ..< n] :: bytes)"
    "\<not> list_all (\<lambda>b. b = 0xff) (map word_of_nat [0 ..< n] :: bytes)" if "2 \<le> n" for n
  proof -
    show "\<not> list_all (\<lambda>b. b = 0) (map word_of_nat [0 ..< n] :: bytes)"
      unfolding list_all_iff using that by (auto intro!: bexI[of _ 1])
    show "\<not> list_all (\<lambda>b. b = 0xff) (map word_of_nat [0 ..< n] :: bytes)"
      unfolding list_all_iff using that by (auto intro!: bexI[of _ 0])
  qed
  show "read_rng sample_gate 0x20000100 RsSe1 32 m = (Inr (map word_of_nat [0 ..< 32]), m)"
    using win[of 32] mixed[of 32]
    by (simp add: read_rng_def byte_count_def RNG_BUF_LEN_def rng_arg2_def parse_rng_response_def Let_def call
        del: list.map upt_rec_numeral)
  show "read_rng sample_gate 0x20000100 RsSe2 8 m = (Inr (map word_of_nat [0 ..< 8]), m)"
    using win[of 8] mixed[of 8]
    by (simp add: read_rng_def byte_count_def RNG_BUF_LEN_def rng_arg2_def parse_rng_response_def Let_def call
        del: list.map upt_rec_numeral)
qed

lemma sample_boot:
  "\<exists>en. entropy_boot sample_cipher sample_entropy_env sample_sources = Inr en \<and> can_reseed en"
proof -
  have "healthy_draw (words_bytes [1, 2, 3, 4, 5, 6, 7, 8]) 32" "healthy_draw (map word_of_nat [0 ..< 32]) 32"
    "healthy_draw (map word_of_nat [0 ..< 8]) 8"
    by code_simp+
  then have "mix_checked_draws (take 32) (words_bytes [1, 2, 3, 4, 5, 6, 7, 8]) (map word_of_nat [0 ..< 32])
      (map word_of_nat [0 ..< 8]) = Inr (take 32 (transcript [words_bytes [1, 2, 3, 4, 5, 6, 7, 8],
      map word_of_nat [0 ..< 32], map word_of_nat [0 ..< 8]]))"
    by (simp add: mix_checked_draws_ok)
  then show ?thesis
    by (simp add: entropy_boot_def sources_draw_def sample_entropy_env_def sample_sources_def TRNG_BYTES_def
        sample_trng_read read_via_callgate_def SE1_BYTES_def SE2_BYTES_def byte_count_def sample_gate_read
        can_reseed_def)
qed

text \<open>A gate that differs from it on the counted PIN sub-call only.\<close>

definition counting_gate :: "unit gate_port" where
  "counting_gate = sample_gate\<lparr>gt_blx := (\<lambda>dest selector buf len arg2 m.
     if selector = 18 \<and> arg2 = 2 then (0xFFFFFF97, [], m) else gt_blx sample_gate dest selector buf len arg2 m)\<rparr>"

end
