(* ===== verification/Panic.thy ===== *)
theory Panic
  imports Callgate
begin

text \<open>
  The panic handler and its reset budget (\<open>hal/src/panic.rs\<close>): the tagged counters in the
  backup registers, the guarded access to them, the handler with its re-entry depth, and the reset
  that is issued until it lands. Register addresses are naturals; the hardware is a port that
  maps reads and writes at addresses.
\<close>

definition RTC_BASE :: nat where "RTC_BASE = 0x40002800"
definition RTC_WPR :: nat where "RTC_WPR = RTC_BASE + 0x24"
definition BKP_COUNT :: nat where "BKP_COUNT = 32"
definition RTC_WPR_KEY1 :: u32 where "RTC_WPR_KEY1 = 0xCA"
definition RTC_WPR_KEY2 :: u32 where "RTC_WPR_KEY2 = 0x53"
definition PWR_CR1 :: nat where "PWR_CR1 = 0x40007000"
definition PWR_CR1_DBP :: u32 where "PWR_CR1_DBP = bitv 8"
definition RCC_APB1ENR1 :: nat where "RCC_APB1ENR1 = 0x40021000 + 0x58"
definition RCC_APB1ENR1_RTCAPBEN :: u32 where "RCC_APB1ENR1_RTCAPBEN = bitv 10"
definition RCC_APB1ENR1_PWREN :: u32 where "RCC_APB1ENR1_PWREN = bitv 28"
definition SCB_AIRCR :: nat where "SCB_AIRCR = 0xE000ED0C"
definition AIRCR_VECTKEY :: u32 where "AIRCR_VECTKEY = push_bit 16 0x5FA"
definition AIRCR_SYSRESETREQ :: u32 where "AIRCR_SYSRESETREQ = bitv 2"
definition AIRCR_PRIGROUP_MASK :: u32 where "AIRCR_PRIGROUP_MASK = push_bit 8 7"
definition COUNTER_MAGIC :: u32 where "COUNTER_MAGIC = 0xC5A10000"
definition COUNTER_VALUE_MASK :: u32 where "COUNTER_VALUE_MASK = 0xFFFF"
definition PANIC_RESET_THRESHOLD :: nat where "PANIC_RESET_THRESHOLD = 3"
definition COUNTER_MAX :: nat where "COUNTER_MAX = 65535"
definition DEPTH_MAGIC :: u32 where "DEPTH_MAGIC = 0xD3E10000"

datatype counter = CtrPanic | CtrRngFault

definition ctr_index :: "counter \<Rightarrow> nat" where
  "ctr_index c = (case c of CtrPanic \<Rightarrow> 0 | CtrRngFault \<Rightarrow> 1)"

datatype counter_error = ApbClockOff | BackupWriteProtected | VerifyFailed | BadIndex

subsection \<open>Pure parts\<close>

definition bkp_offset :: "nat \<Rightarrow> nat option" where
  "bkp_offset idx =
     (if BKP_COUNT \<le> idx then None
      else if idx * 4 < u32_lim then u32_checked_add (idx * 4) 0x50 else None)"

definition encode_counter :: "nat \<Rightarrow> u32" where
  "encode_counter count = COUNTER_MAGIC OR (word_of_nat (min count COUNTER_MAX) AND COUNTER_VALUE_MASK)"

definition decode_counter :: "u32 \<Rightarrow> nat option" where
  "decode_counter raw =
     (if raw AND NOT COUNTER_VALUE_MASK = COUNTER_MAGIC then Some (unat (raw AND COUNTER_VALUE_MASK)) else None)"

definition next_count :: "nat \<Rightarrow> nat" where
  "next_count current = min (u32_sat_add current 1) COUNTER_MAX"

definition decode_depth :: "u32 \<Rightarrow> nat" where
  "decode_depth raw =
     (if raw AND NOT COUNTER_VALUE_MASK = DEPTH_MAGIC then unat (raw AND COUNTER_VALUE_MASK) else 0)"

definition encode_depth :: "nat \<Rightarrow> u32" where
  "encode_depth depth = DEPTH_MAGIC OR (word_of_nat (min depth COUNTER_MAX) AND COUNTER_VALUE_MASK)"

definition past_threshold :: "nat \<Rightarrow> bool" where
  "past_threshold count \<longleftrightarrow> PANIC_RESET_THRESHOLD \<le> count"

subsection \<open>The backup registers\<close>

record 'h bus =
  bus_read :: "nat \<Rightarrow> 'h \<Rightarrow> u32"
  bus_write :: "nat \<Rightarrow> u32 \<Rightarrow> 'h \<Rightarrow> 'h"

definition enable_backup_access :: "'h bus \<Rightarrow> 'h \<Rightarrow> (counter_error + unit) \<times> 'h" where
  "enable_backup_access B h =
     (let en = bus_read B RCC_APB1ENR1 h;
          h1 = bus_write B RCC_APB1ENR1 (en OR RCC_APB1ENR1_PWREN OR RCC_APB1ENR1_RTCAPBEN) h;
          en_rb = bus_read B RCC_APB1ENR1 h1 in
      if en_rb AND RCC_APB1ENR1_RTCAPBEN = 0 then (Inl ApbClockOff, h1)
      else let cr1 = bus_read B PWR_CR1 h1;
               h2 = bus_write B PWR_CR1 (cr1 OR PWR_CR1_DBP) h1;
               cr1_rb = bus_read B PWR_CR1 h2 in
        if cr1_rb AND PWR_CR1_DBP = 0 then (Inl BackupWriteProtected, h2)
        else let h3 = bus_write B RTC_WPR RTC_WPR_KEY1 h2 in
          (Inr (), bus_write B RTC_WPR RTC_WPR_KEY2 h3))"

definition bkp_ptr :: "counter \<Rightarrow> nat option" where
  "bkp_ptr which =
     (case bkp_offset (ctr_index which) of None \<Rightarrow> None | Some off \<Rightarrow> u32_checked_add RTC_BASE off)"

definition read_counter :: "'h bus \<Rightarrow> counter \<Rightarrow> 'h \<Rightarrow> (counter_error + nat) \<times> 'h" where
  "read_counter B which h =
     (case enable_backup_access B h of
        (Inl e, h1) \<Rightarrow> (Inl e, h1)
      | (Inr _, h1) \<Rightarrow>
          (case bkp_ptr which of
             None \<Rightarrow> (Inl BadIndex, h1)
           | Some p \<Rightarrow> (Inr (case decode_counter (bus_read B p h1) of None \<Rightarrow> 0 | Some n \<Rightarrow> n), h1)))"

definition write_counter :: "'h bus \<Rightarrow> counter \<Rightarrow> nat \<Rightarrow> 'h \<Rightarrow> (counter_error + unit) \<times> 'h" where
  "write_counter B which count h =
     (case enable_backup_access B h of
        (Inl e, h1) \<Rightarrow> (Inl e, h1)
      | (Inr _, h1) \<Rightarrow>
          (case bkp_ptr which of
             None \<Rightarrow> (Inl BadIndex, h1)
           | Some p \<Rightarrow>
               (let want = encode_counter count; h2 = bus_write B p want h1; got = bus_read B p h2 in
                if got = want then (Inr (), h2) else (Inl VerifyFailed, h2))))"

definition bump_counter :: "'h bus \<Rightarrow> counter \<Rightarrow> 'h \<Rightarrow> (counter_error + nat) \<times> 'h" where
  "bump_counter B which h =
     (case read_counter B which h of
        (Inl e, h1) \<Rightarrow> (Inl e, h1)
      | (Inr n, h1) \<Rightarrow>
          (case write_counter B which (next_count n) h1 of
             (Inl e, h2) \<Rightarrow> (Inl e, h2)
           | (Inr _, h2) \<Rightarrow> (Inr (next_count n), h2)))"

definition clear_counter :: "'h bus \<Rightarrow> counter \<Rightarrow> 'h \<Rightarrow> (counter_error + unit) \<times> 'h" where
  "clear_counter B which h = write_counter B which 0 h"

subsection \<open>The handler\<close>

datatype panic_act = PanicReset | TryDfuThenReset

definition panic_action :: "nat \<Rightarrow> counter_error + nat \<Rightarrow> panic_act" where
  "panic_action depth bumped =
     (if 0 < depth then PanicReset
      else let count = (case bumped of Inl _ \<Rightarrow> u32_max | Inr n \<Rightarrow> n) in
        if past_threshold count then TryDfuThenReset else PanicReset)"

text \<open>One store of the reset request.\<close>

definition reset_once :: "'h bus \<Rightarrow> 'h \<Rightarrow> 'h" where
  "reset_once B h =
     (let prigroup = bus_read B SCB_AIRCR h AND AIRCR_PRIGROUP_MASK in
      bus_write B SCB_AIRCR (AIRCR_VECTKEY OR prigroup OR AIRCR_SYSRESETREQ) h)"

text \<open>\<open>system_reset\<close> repeats the store until the hardware takes the vector, which \<open>taken\<close> tells:
  \<open>None\<close> is a processor that spins for ever.\<close>

partial_function (option) system_reset :: "'h bus \<Rightarrow> ('h \<Rightarrow> bool) \<Rightarrow> 'h \<Rightarrow> 'h option" where
  "system_reset B taken h =
     (let h1 = reset_once B h in if taken h1 then Some h1 else system_reset B taken h1)"

text \<open>The machine the handler runs on: the word of \<open>PANIC_DEPTH\<close> in SRAM, the interrupt mask and
  the hardware. The gate may change the hardware.\<close>

record 'h panic_state =
  ps_depth_word :: u32
  ps_machine :: "'h machine"

definition panic_handler ::
  "'h bus \<Rightarrow> 'h gate_port \<Rightarrow> ('h \<Rightarrow> bool) \<Rightarrow> 'h panic_state \<Rightarrow> (panic_act \<times> 'h panic_state) option" where
  "panic_handler B G taken s0 =
     (let s1 = s0\<lparr>ps_machine := (ps_machine s0)\<lparr>mc_irq_masked := True\<rparr>\<rparr>;
          depth = decode_depth (ps_depth_word s1);
          s2 = s1\<lparr>ps_depth_word := encode_depth (u32_sat_add depth 1)\<rparr>;
          (bumped, h2) = (if depth = 0 then bump_counter B CtrPanic (mc_hw (ps_machine s2))
                          else (Inl VerifyFailed, mc_hw (ps_machine s2)));
          m2 = (ps_machine s2)\<lparr>mc_hw := h2\<rparr>;
          act = panic_action depth bumped;
          m3 = (if act = TryDfuThenReset then try_enter_dfu G m2 else m2) in
      case system_reset B taken (mc_hw m3) of
        None \<Rightarrow> None
      | Some h4 \<Rightarrow> Some (act, s2\<lparr>ps_machine := m3\<lparr>mc_hw := h4\<rparr>\<rparr>))"

subsection \<open>Boot health\<close>

record boot_health =
  bh_panics :: nat
  bh_rng_faults :: nat
  bh_counters_unavailable :: bool

definition in_reset_loop :: "boot_health \<Rightarrow> bool" where
  "in_reset_loop b \<longleftrightarrow> \<not> bh_counters_unavailable b \<and> past_threshold (bh_panics b)"

definition boot_health_read :: "'h bus \<Rightarrow> 'h \<Rightarrow> boot_health \<times> 'h" where
  "boot_health_read B h =
     (case read_counter B CtrPanic h of (panics, h1) \<Rightarrow>
        case read_counter B CtrRngFault h1 of (rng_faults, h2) \<Rightarrow>
          (\<lparr>bh_panics = (case panics of Inl _ \<Rightarrow> 0 | Inr n \<Rightarrow> n),
            bh_rng_faults = (case rng_faults of Inl _ \<Rightarrow> 0 | Inr n \<Rightarrow> n),
            bh_counters_unavailable = (\<not> is_ok panics \<or> \<not> is_ok rng_faults)\<rparr>, h2))"

end
