(* ===== verification/PanicCorrect.thy ===== *)
theory PanicCorrect
  imports Panic
begin

text \<open>
  What the panic handler of \<open>hal/src/panic.rs\<close> promises: the counter's encoding is lossless and
  rejects foreign words, the handler always ends in a reset that lands, and over a backup domain
  that keeps its registers the number of consecutive panics is counted exactly, so that the plain
  resets are bounded.
\<close>

subsection \<open>The tagged words\<close>

lemma masks_16: "(COUNTER_VALUE_MASK :: u32) = mask 16"
  by (simp add: COUNTER_VALUE_MASK_def mask_eq_exp_minus_1)

lemma unat_masked: "n \<le> 65535 \<Longrightarrow> unat ((word_of_nat n :: u32) AND COUNTER_VALUE_MASK) = n"
proof -
  assume n: "n \<le> 65535"
  have "unat ((word_of_nat n :: u32) AND COUNTER_VALUE_MASK) = take_bit 16 (unat (word_of_nat n :: u32))"
    by (simp add: masks_16 unsigned_take_bit_eq flip: take_bit_eq_mask)
  also have "unat (word_of_nat n :: u32) = n" using n by (simp add: unat_of_nat)
  finally show ?thesis using n by (simp add: take_bit_eq_mod)
qed

lemma tagged_parts:
  assumes "m AND COUNTER_VALUE_MASK = 0"
  shows "(m OR (w AND COUNTER_VALUE_MASK)) AND NOT COUNTER_VALUE_MASK = m"
    and "(m OR (w AND COUNTER_VALUE_MASK)) AND COUNTER_VALUE_MASK = w AND COUNTER_VALUE_MASK"
proof -
  have m: "\<not> (bit m n \<and> bit COUNTER_VALUE_MASK n)" for n
    using assms by (metis bit_and_iff bit_0_eq bot_apply bot_bool_def)
  show "(m OR (w AND COUNTER_VALUE_MASK)) AND NOT COUNTER_VALUE_MASK = m"
    by (rule bit_word_eqI) (use m in \<open>auto simp: bit_simps\<close>)
  show "(m OR (w AND COUNTER_VALUE_MASK)) AND COUNTER_VALUE_MASK = w AND COUNTER_VALUE_MASK"
    by (rule bit_word_eqI) (use m in \<open>auto simp: bit_simps\<close>)
qed

lemma decode_encode_counter: "decode_counter (encode_counter n) = Some (min n COUNTER_MAX)"
proof -
  have "COUNTER_MAGIC AND COUNTER_VALUE_MASK = 0" by (simp add: COUNTER_MAGIC_def COUNTER_VALUE_MASK_def)
  note parts = tagged_parts[OF this]
  show ?thesis
    unfolding decode_counter_def encode_counter_def parts
    by (simp add: unat_masked COUNTER_MAX_def)
qed

lemma decode_encode_depth: "decode_depth (encode_depth n) = min n COUNTER_MAX"
proof -
  have "DEPTH_MAGIC AND COUNTER_VALUE_MASK = 0" by (simp add: DEPTH_MAGIC_def COUNTER_VALUE_MASK_def)
  note parts = tagged_parts[OF this]
  show ?thesis
    unfolding decode_depth_def encode_depth_def parts
    by (simp add: unat_masked COUNTER_MAX_def)
qed

lemma decode_counter_bound: "decode_counter raw = Some n \<Longrightarrow> n \<le> COUNTER_MAX"
proof -
  have "unat (raw AND COUNTER_VALUE_MASK) < 2 ^ 16"
    using take_bit_nat_less_exp[of 16 "unat raw"]
    by (simp add: masks_16 unsigned_take_bit_eq flip: take_bit_eq_mask)
  then show "decode_counter raw = Some n \<Longrightarrow> n \<le> COUNTER_MAX"
    by (auto simp: decode_counter_def COUNTER_MAX_def split: if_splits)
qed

text \<open>What a raw register word counts for: nothing, when it is not one of ours.\<close>

definition counted :: "u32 \<Rightarrow> nat" where
  "counted raw = (case decode_counter raw of None \<Rightarrow> 0 | Some n \<Rightarrow> n)"

lemma counted_encode [simp]: "counted (encode_counter n) = min n COUNTER_MAX"
  by (simp add: counted_def decode_encode_counter)

lemma counted_foreign: "counted 0 = 0" "counted 0xFFFFFFFF = 0" "counted 0xdeadbeef = 0"
  by (simp_all add: counted_def decode_counter_def COUNTER_VALUE_MASK_def COUNTER_MAGIC_def)

lemma next_count_min: "n \<le> COUNTER_MAX \<Longrightarrow> next_count n = min (n + 1) COUNTER_MAX"
  by (simp add: next_count_def u32_sat_add_def u32_max_def COUNTER_MAX_def)

subsection \<open>The reset\<close>

lemma system_reset_lands:
  "taken ((reset_once B ^^ Suc n) h) \<Longrightarrow>
     \<exists>k. system_reset B taken h = Some ((reset_once B ^^ Suc k) h) \<and> taken ((reset_once B ^^ Suc k) h)"
proof (induction n arbitrary: h)
  case 0
  then show ?case by (subst system_reset.simps) (auto simp: Let_def intro!: exI[of _ 0])
next
  case (Suc n)
  show ?case
  proof (cases "taken (reset_once B h)")
    case True
    then show ?thesis by (subst system_reset.simps) (auto simp: Let_def intro!: exI[of _ 0])
  next
    case False
    have "taken ((reset_once B ^^ Suc n) (reset_once B h))"
      using Suc.prems by (simp add: funpow_swap1)
    from Suc.IH[OF this] obtain k where k: "system_reset B taken (reset_once B h) = Some ((reset_once B ^^ Suc k) (reset_once B h))"
      "taken ((reset_once B ^^ Suc k) (reset_once B h))" by blast
    then have "(reset_once B ^^ Suc k) (reset_once B h) = (reset_once B ^^ Suc (Suc k)) h"
      by (simp add: funpow_swap1)
    with k False have "system_reset B taken h = Some ((reset_once B ^^ Suc (Suc k)) h) \<and>
        taken ((reset_once B ^^ Suc (Suc k)) h)"
      by (subst system_reset.simps) (simp add: Let_def)
    then show ?thesis by (rule exI)
  qed
qed

definition resets_land :: "'h bus \<Rightarrow> ('h \<Rightarrow> bool) \<Rightarrow> bool" where
  "resets_land B taken \<longleftrightarrow> (\<forall>h. \<exists>n. taken ((reset_once B ^^ Suc n) h))"

lemma system_reset_returns:
  assumes "resets_land B taken"
  obtains k where "system_reset B taken h = Some ((reset_once B ^^ Suc k) h)" and "taken ((reset_once B ^^ Suc k) h)"
  using assms system_reset_lands[of taken _ B h] unfolding resets_land_def by blast

lemma funpow_invariant: "P h \<Longrightarrow> (\<And>h. P h \<Longrightarrow> P (f h)) \<Longrightarrow> P ((f ^^ n) h)"
  by (induction n) auto

text \<open>The handler, whatever the hardware does: it ends in a reset that landed; a nested entry
  leaves the counters and the gate alone.\<close>

lemma handler_resets:
  assumes "resets_land B taken"
  shows "\<exists>act s' k. panic_handler B G taken s = Some (act, s') \<and> taken (mc_hw (ps_machine s')) \<and>
     decode_depth (ps_depth_word s') = min (decode_depth (ps_depth_word s) + 1) COUNTER_MAX \<and>
     (0 < decode_depth (ps_depth_word s) \<longrightarrow> act = PanicReset \<and> ps_machine s' =
        (ps_machine s)\<lparr>mc_irq_masked := True, mc_hw := (reset_once B ^^ Suc k) (mc_hw (ps_machine s))\<rparr>)"
proof -
  let ?d = "decode_depth (ps_depth_word s)"
  let ?b = "if ?d = 0 then bump_counter B CtrPanic (mc_hw (ps_machine s)) else (Inl VerifyFailed, mc_hw (ps_machine s))"
  obtain bumped h2 where b: "?b = (bumped, h2)" by fastforce
  let ?m2 = "(ps_machine s)\<lparr>mc_irq_masked := True, mc_hw := h2\<rparr>"
  let ?m3 = "if panic_action ?d bumped = TryDfuThenReset then try_enter_dfu G ?m2 else ?m2"
  obtain k where k: "system_reset B taken (mc_hw ?m3) = Some ((reset_once B ^^ Suc k) (mc_hw ?m3))"
    "taken ((reset_once B ^^ Suc k) (mc_hw ?m3))"
    by (rule system_reset_returns[OF assms])
  let ?s' = "s\<lparr>ps_depth_word := encode_depth (u32_sat_add ?d 1), ps_machine := ?m3\<lparr>mc_hw := (reset_once B ^^ Suc k) (mc_hw ?m3)\<rparr>\<rparr>"
  have run: "panic_handler B G taken s = Some (panic_action ?d bumped, ?s')"
    using b k(1) by (simp add: panic_handler_def Let_def split del: if_split cong: if_cong)
  have depth: "decode_depth (encode_depth (u32_sat_add ?d 1)) = min (?d + 1) COUNTER_MAX"
    by (auto simp: decode_encode_depth u32_sat_add_def u32_max_def COUNTER_MAX_def)
  have nested: "0 < ?d \<Longrightarrow> panic_action ?d bumped = PanicReset \<and> h2 = mc_hw (ps_machine s)"
    using b by (simp add: panic_action_def)
  show ?thesis
    using run k(2) depth nested
    by (intro exI[of _ "panic_action ?d bumped"] exI[of _ ?s'] exI[of _ k]) simp
qed

subsection \<open>The backup domain\<close>

definition bkp_addr :: "counter \<Rightarrow> nat" where
  "bkp_addr c = RTC_BASE + 0x50 + 4 * ctr_index c"

lemma bkp_ptr_addr: "bkp_ptr c = Some (bkp_addr c)"
  by (cases c) (simp_all add: bkp_ptr_def bkp_offset_def BKP_COUNT_def ctr_index_def u32_checked_add_def
      bkp_addr_def RTC_BASE_def u32_lim_def)

text \<open>Interface clocks on and write protection off.\<close>

definition accessible :: "'h bus \<Rightarrow> 'h \<Rightarrow> bool" where
  "accessible B h \<longleftrightarrow> bit (bus_read B RCC_APB1ENR1 h) 10 \<and> bit (bus_read B RCC_APB1ENR1 h) 28
     \<and> bit (bus_read B PWR_CR1 h) 8"

text \<open>\<open>n\<close> boots in a row, each ending in a panic before anything cleared the counter: \<open>w\<close> is the word
  the depth cell holds when a boot starts, and \<open>reboot\<close> what happens to the hardware between the reset
  and the next panic.\<close>

fun panic_boots ::
  "'h bus \<Rightarrow> 'h gate_port \<Rightarrow> ('h \<Rightarrow> bool) \<Rightarrow> ('h \<Rightarrow> 'h) \<Rightarrow> u32 \<Rightarrow> nat \<Rightarrow> 'h \<Rightarrow> (panic_act list \<times> 'h) option" where
  "panic_boots B G taken reboot w 0 h = Some ([], h)"
| "panic_boots B G taken reboot w (Suc n) h =
     (case panic_boots B G taken reboot w n h of
        None \<Rightarrow> None
      | Some (acts, h1) \<Rightarrow>
          (case panic_handler B G taken
                  \<lparr>ps_depth_word = w, ps_machine = \<lparr>mc_irq_masked = False, mc_hw = reboot h1\<rparr>\<rparr> of
             None \<Rightarrow> None
           | Some (act, s) \<Rightarrow> Some (acts @ [act], mc_hw (ps_machine s))))"

definition budget_act :: "nat \<Rightarrow> nat \<Rightarrow> panic_act" where
  "budget_act c k = (if PANIC_RESET_THRESHOLD \<le> min (c + k + 1) COUNTER_MAX then TryDfuThenReset else PanicReset)"

lemma counted_bound: "counted raw \<le> COUNTER_MAX"
  using decode_counter_bound by (auto simp: counted_def split: option.splits)

lemma budget_resets: "length (filter (\<lambda>a. a = PanicReset) (map (budget_act c) [0 ..< n])) \<le> 2"
proof -
  have late: "2 \<le> k \<Longrightarrow> budget_act c k = TryDfuThenReset" for k
    by (auto simp: budget_act_def PANIC_RESET_THRESHOLD_def COUNTER_MAX_def)
  have sub: "{k. k < n \<and> budget_act c k = PanicReset} \<subseteq> {0, 1}"
  proof (rule subsetI)
    fix k assume "k \<in> {k. k < n \<and> budget_act c k = PanicReset}"
    then have "\<not> 2 \<le> k" using late[of k] by auto
    then show "k \<in> {0, 1}" by auto
  qed
  have "length (filter (\<lambda>a. a = PanicReset) (map (budget_act c) [0 ..< n]))
      = card (set (filter (\<lambda>k. budget_act c k = PanicReset) [0 ..< n]))"
    by (simp add: filter_map comp_def distinct_card del: set_filter)
  also have "\<dots> \<le> card {0 :: nat, 1}" using sub by (intro card_mono) auto
  finally show ?thesis by simp
qed

locale backup_domain =
  fixes B :: "'h bus" and G :: "'h gate_port" and bkp :: "'h \<Rightarrow> counter \<Rightarrow> u32" and reboot :: "'h \<Rightarrow> 'h"
  assumes rcc_back: "bus_read B RCC_APB1ENR1 (bus_write B RCC_APB1ENR1 w h) = w"
    and rcc_other: "a \<noteq> RCC_APB1ENR1 \<Longrightarrow> bus_read B RCC_APB1ENR1 (bus_write B a w h) = bus_read B RCC_APB1ENR1 h"
    and pwr_back: "bit (bus_read B RCC_APB1ENR1 h) 28 \<Longrightarrow> bus_read B PWR_CR1 (bus_write B PWR_CR1 w h) = w"
    and pwr_other: "a \<noteq> PWR_CR1 \<Longrightarrow> a \<noteq> RCC_APB1ENR1 \<Longrightarrow>
          bus_read B PWR_CR1 (bus_write B a w h) = bus_read B PWR_CR1 h"
    and bkp_read: "accessible B h \<Longrightarrow> bus_read B (bkp_addr c) h = bkp h c"
    and bkp_write: "accessible B h \<Longrightarrow> bkp (bus_write B (bkp_addr c) w h) = (bkp h)(c := w)"
    and bkp_other: "\<forall>c. a \<noteq> bkp_addr c \<Longrightarrow> bkp (bus_write B a w h) = bkp h"
    and bkp_reboot: "bkp (reboot h) = bkp h"
    and bkp_gate: "bkp (mc_hw (snd (snd (gt_blx G dest selector buf len arg2 m)))) = bkp (mc_hw m)"
begin

lemma addresses:
  "RCC_APB1ENR1 \<noteq> bkp_addr c" "PWR_CR1 \<noteq> bkp_addr c" "RTC_WPR \<noteq> bkp_addr c" "SCB_AIRCR \<noteq> bkp_addr c"
  "PWR_CR1 \<noteq> RCC_APB1ENR1" "RTC_WPR \<noteq> RCC_APB1ENR1" "RTC_WPR \<noteq> PWR_CR1"
  by (cases c; simp add: RCC_APB1ENR1_def PWR_CR1_def RTC_WPR_def SCB_AIRCR_def bkp_addr_def RTC_BASE_def ctr_index_def)+

lemma enable_works:
  obtains h' where "enable_backup_access B h = (Inr (), h')" and "accessible B h'" and "bkp h' = bkp h"
proof -
  define h1 where "h1 = bus_write B RCC_APB1ENR1 (bus_read B RCC_APB1ENR1 h OR RCC_APB1ENR1_PWREN OR RCC_APB1ENR1_RTCAPBEN) h"
  define h2 where "h2 = bus_write B PWR_CR1 (bus_read B PWR_CR1 h1 OR PWR_CR1_DBP) h1"
  define h4 where "h4 = bus_write B RTC_WPR RTC_WPR_KEY2 (bus_write B RTC_WPR RTC_WPR_KEY1 h2)"
  have r1: "bit (bus_read B RCC_APB1ENR1 h1) 10" "bit (bus_read B RCC_APB1ENR1 h1) 28"
    by (simp_all add: h1_def rcc_back bit_or_iff RCC_APB1ENR1_PWREN_def RCC_APB1ENR1_RTCAPBEN_def)
  have r2: "bit (bus_read B PWR_CR1 h2) 8"
    using r1(2) by (simp add: h2_def pwr_back bit_or_iff PWR_CR1_DBP_def)
  have n1: "bus_read B RCC_APB1ENR1 h1 AND RCC_APB1ENR1_RTCAPBEN \<noteq> 0"
    using r1(1) by (simp add: RCC_APB1ENR1_RTCAPBEN_def and_bitv)
  have n2: "bus_read B PWR_CR1 h2 AND PWR_CR1_DBP \<noteq> 0"
    using r2 by (simp add: PWR_CR1_DBP_def and_bitv)
  have "enable_backup_access B h = (Inr (), h4)"
    using n1 n2 unfolding enable_backup_access_def Let_def h1_def[symmetric] h2_def[symmetric] h4_def[symmetric]
    by simp
  moreover have "accessible B h4"
    using r1 r2 addresses by (simp add: accessible_def h4_def h2_def rcc_other pwr_other)
  moreover have "bkp h4 = bkp h"
    using addresses by (simp add: h4_def h2_def h1_def bkp_other)
  ultimately show thesis by (rule that)
qed

lemma read_works:
  obtains h' where "read_counter B c h = (Inr (counted (bkp h c)), h')" and "bkp h' = bkp h"
proof -
  obtain h' where h': "enable_backup_access B h = (Inr (), h')" "accessible B h'" "bkp h' = bkp h"
    by (rule enable_works)
  then have "read_counter B c h = (Inr (counted (bkp h c)), h')"
    by (simp add: read_counter_def bkp_ptr_addr bkp_read counted_def)
  with h'(3) show thesis by (rule that[rotated])
qed

lemma write_works:
  obtains h' where "write_counter B c n h = (Inr (), h')" and "bkp h' = (bkp h)(c := encode_counter n)"
proof -
  obtain h1 where h1: "enable_backup_access B h = (Inr (), h1)" "accessible B h1" "bkp h1 = bkp h"
    by (rule enable_works)
  let ?h2 = "bus_write B (bkp_addr c) (encode_counter n) h1"
  have "accessible B ?h2"
    using h1(2) addresses(1,2)[of c, symmetric] by (simp add: accessible_def rcc_other pwr_other)
  then have "bus_read B (bkp_addr c) ?h2 = encode_counter n"
    using h1(2) by (simp add: bkp_read bkp_write)
  then have "write_counter B c n h = (Inr (), ?h2)"
    using h1(1) by (simp add: write_counter_def bkp_ptr_addr Let_def)
  moreover have "bkp ?h2 = (bkp h)(c := encode_counter n)" using h1 by (simp add: bkp_write)
  ultimately show thesis by (rule that)
qed

lemma bump_works:
  obtains h' where "bump_counter B c h = (Inr (next_count (counted (bkp h c))), h')"
    and "bkp h' = (bkp h)(c := encode_counter (next_count (counted (bkp h c))))"
proof -
  obtain h1 where h1: "read_counter B c h = (Inr (counted (bkp h c)), h1)" "bkp h1 = bkp h" by (rule read_works)
  obtain h2 where h2: "write_counter B c (next_count (counted (bkp h c))) h1 = (Inr (), h2)"
    "bkp h2 = (bkp h1)(c := encode_counter (next_count (counted (bkp h c))))" by (rule write_works)
  from h1 h2 that[of h2] show thesis by (simp add: bump_counter_def)
qed

lemma gate_keeps: "bkp (mc_hw (try_enter_dfu G m)) = bkp (mc_hw m)"
proof -
  have "bkp (mc_hw (snd (snd (gate_raw G selector buf len arg2 m)))) = bkp (mc_hw m)" for selector buf len arg2 m
    by (simp add: gate_raw_def Let_def bkp_gate)
  from this[of SELECTOR_ENTER_DFU None 0 ENTER_DFU_ARG2_SAFE "m\<lparr>mc_irq_masked := True\<rparr>"] show ?thesis
    by (auto simp: try_enter_dfu_def gate_call_def with_irq_off_def Let_def split: prod.splits)
qed

lemma reset_keeps: "bkp ((reset_once B ^^ k) h) = bkp h"
  by (induction k) (simp_all add: reset_once_def Let_def bkp_other addresses)

lemma first_panic:
  assumes "resets_land B taken" and "decode_depth w = 0"
  shows "\<exists>s'. panic_handler B G taken \<lparr>ps_depth_word = w, ps_machine = m\<rparr> =
      Some (if past_threshold (next_count (counted (bkp (mc_hw m) CtrPanic))) then TryDfuThenReset else PanicReset, s')
    \<and> bkp (mc_hw (ps_machine s')) = (bkp (mc_hw m))(CtrPanic := encode_counter (next_count (counted (bkp (mc_hw m) CtrPanic))))"
proof -
  let ?n = "next_count (counted (bkp (mc_hw m) CtrPanic))"
  obtain h2 where h2: "bump_counter B CtrPanic (mc_hw m) = (Inr ?n, h2)"
    "bkp h2 = (bkp (mc_hw m))(CtrPanic := encode_counter ?n)" by (rule bump_works)
  let ?m2 = "m\<lparr>mc_irq_masked := True, mc_hw := h2\<rparr>"
  let ?m3 = "if past_threshold ?n then try_enter_dfu G ?m2 else ?m2"
  obtain k where k: "system_reset B taken (mc_hw ?m3) = Some ((reset_once B ^^ Suc k) (mc_hw ?m3))"
    by (rule system_reset_returns[OF assms(1)])
  have act: "panic_action 0 (Inr ?n) = (if past_threshold ?n then TryDfuThenReset else PanicReset)"
    by (simp add: panic_action_def)
  have "bkp ((reset_once B ^^ Suc k) (mc_hw ?m3)) = bkp h2"
    by (simp only: reset_keeps) (simp add: gate_keeps)
  then show ?thesis
    using k h2 assms(2) act
    by (cases "past_threshold ?n") (simp_all add: panic_handler_def Let_def cong: if_cong)
qed

lemma boots_counted:
  assumes "resets_land B taken" and "decode_depth w = 0"
  shows "\<exists>h'. panic_boots B G taken reboot w n h = Some (map (budget_act (counted (bkp h CtrPanic))) [0 ..< n], h')
     \<and> counted (bkp h' CtrPanic) = min (counted (bkp h CtrPanic) + n) COUNTER_MAX
     \<and> bkp h' CtrRngFault = bkp h CtrRngFault"
proof (induction n)
  case 0
  then show ?case using counted_bound[of "bkp h CtrPanic"] by simp
next
  case (Suc n)
  let ?c = "counted (bkp h CtrPanic)"
  from Suc.IH obtain h1 where h1: "panic_boots B G taken reboot w n h = Some (map (budget_act ?c) [0 ..< n], h1)"
    "counted (bkp h1 CtrPanic) = min (?c + n) COUNTER_MAX" "bkp h1 CtrRngFault = bkp h CtrRngFault" by blast
  have next_c: "next_count (min (?c + n) COUNTER_MAX) = min (?c + Suc n) COUNTER_MAX"
    by (simp add: next_count_min)
  from first_panic[OF assms, of "\<lparr>mc_irq_masked = False, mc_hw = reboot h1\<rparr>"] obtain s' where
    s': "panic_handler B G taken \<lparr>ps_depth_word = w, ps_machine = \<lparr>mc_irq_masked = False, mc_hw = reboot h1\<rparr>\<rparr>
        = Some (budget_act ?c n, s')"
      "bkp (mc_hw (ps_machine s')) = (bkp h1)(CtrPanic := encode_counter (min (?c + Suc n) COUNTER_MAX))"
    by (auto simp: bkp_reboot h1(2) next_c budget_act_def past_threshold_def)
  show ?case
    using h1 s' by (auto simp: min_def)
qed

lemma clear_forgets:
  obtains h' where "clear_counter B CtrPanic h = (Inr (), h')" and "counted (bkp h' CtrPanic) = 0"
proof -
  obtain h' where "write_counter B CtrPanic 0 h = (Inr (), h')" "bkp h' = (bkp h)(CtrPanic := encode_counter 0)"
    by (rule write_works)
  with that[of h'] show thesis by (simp add: clear_counter_def)
qed

end

subsection \<open>A simulated backup domain\<close>

text \<open>Registers by address; the power register needs its clock, the backup registers their clock and
  the write protection off, and a reset request with the key sets a flag the next boot clears.\<close>

record sim_chip =
  sc_regs :: "nat \<Rightarrow> u32"
  sc_bkp :: "counter \<Rightarrow> u32"
  sc_reset :: bool

definition sc_open :: "sim_chip \<Rightarrow> bool" where
  "sc_open c \<longleftrightarrow> bit (sc_regs c RCC_APB1ENR1) 10 \<and> bit (sc_regs c RCC_APB1ENR1) 28 \<and> bit (sc_regs c PWR_CR1) 8"

definition sc_read :: "nat \<Rightarrow> sim_chip \<Rightarrow> u32" where
  "sc_read a c =
     (if a = bkp_addr CtrPanic then (if sc_open c then sc_bkp c CtrPanic else 0)
      else if a = bkp_addr CtrRngFault then (if sc_open c then sc_bkp c CtrRngFault else 0)
      else sc_regs c a)"

definition sc_write :: "nat \<Rightarrow> u32 \<Rightarrow> sim_chip \<Rightarrow> sim_chip" where
  "sc_write a w c =
     (if a = bkp_addr CtrPanic then (if sc_open c then c\<lparr>sc_bkp := (sc_bkp c)(CtrPanic := w)\<rparr> else c)
      else if a = bkp_addr CtrRngFault then (if sc_open c then c\<lparr>sc_bkp := (sc_bkp c)(CtrRngFault := w)\<rparr> else c)
      else if a = PWR_CR1 \<and> \<not> bit (sc_regs c RCC_APB1ENR1) 28 then c
      else if a = SCB_AIRCR then (if drop_bit 16 w = 0x5FA \<and> bit w 2 then c\<lparr>sc_reset := True\<rparr> else c)
      else c\<lparr>sc_regs := (sc_regs c)(a := w)\<rparr>)"

definition sim_bus :: "sim_chip bus" where
  "sim_bus = \<lparr>bus_read = sc_read, bus_write = sc_write\<rparr>"

definition sim_reboot :: "sim_chip \<Rightarrow> sim_chip" where
  "sim_reboot c = c\<lparr>sc_regs := (\<lambda>a. 0), sc_reset := False\<rparr>"

text \<open>A production unit's gate: it refuses every entry.\<close>

definition refusing_gate :: "'h gate_port" where
  "refusing_gate = \<lparr>gt_table = (\<lambda>h. 0x08000305), gt_blx = (\<lambda>dest selector buf len arg2 m. (1, buf_bytes buf, m))\<rparr>"

definition sample_chip_garbage :: sim_chip where
  "sample_chip_garbage = \<lparr>sc_regs = (\<lambda>a. 0), sc_bkp = (\<lambda>c. 0xdeadbeef), sc_reset = False\<rparr>"

lemma sim_bus_simps [simp]: "bus_read sim_bus = sc_read" "bus_write sim_bus = sc_write"
  by (simp_all add: sim_bus_def)

lemma sim_addresses:
  "RCC_APB1ENR1 \<noteq> bkp_addr c" "PWR_CR1 \<noteq> bkp_addr c" "SCB_AIRCR \<noteq> bkp_addr c" "PWR_CR1 \<noteq> RCC_APB1ENR1"
  "SCB_AIRCR \<noteq> RCC_APB1ENR1" "SCB_AIRCR \<noteq> PWR_CR1" "bkp_addr CtrPanic \<noteq> bkp_addr CtrRngFault"
  by (cases c; simp add: RCC_APB1ENR1_def PWR_CR1_def SCB_AIRCR_def bkp_addr_def RTC_BASE_def ctr_index_def)+

interpretation sim_domain: backup_domain sim_bus refusing_gate sc_bkp sim_reboot
proof
  note regs = sim_addresses sim_addresses(1,2)[symmetric]
  show "bus_read sim_bus RCC_APB1ENR1 (bus_write sim_bus RCC_APB1ENR1 w h) = w" for w h
    using regs by (simp add: sc_read_def sc_write_def)
  show "bus_read sim_bus RCC_APB1ENR1 (bus_write sim_bus a w h) = bus_read sim_bus RCC_APB1ENR1 h"
    if "a \<noteq> RCC_APB1ENR1" for a w h
    using regs that by (simp add: sc_read_def sc_write_def)
  show "bus_read sim_bus PWR_CR1 (bus_write sim_bus PWR_CR1 w h) = w"
    if "bit (bus_read sim_bus RCC_APB1ENR1 h) 28" for w h
    using regs that by (simp add: sc_read_def sc_write_def)
  show "bus_read sim_bus PWR_CR1 (bus_write sim_bus a w h) = bus_read sim_bus PWR_CR1 h"
    if "a \<noteq> PWR_CR1" "a \<noteq> RCC_APB1ENR1" for a w h
    using regs that by (simp add: sc_read_def sc_write_def)
  have acc: "accessible sim_bus h = sc_open h" for h
    using regs by (simp add: accessible_def sc_open_def sc_read_def)
  show "bus_read sim_bus (bkp_addr c) h = sc_bkp h c" if "accessible sim_bus h" for h c
    using that sim_addresses(7) by (cases c) (auto simp: acc sc_read_def)
  show "sc_bkp (bus_write sim_bus (bkp_addr c) w h) = (sc_bkp h)(c := w)" if "accessible sim_bus h" for h c w
    using that sim_addresses(7) by (cases c) (auto simp: acc sc_write_def)
  show "sc_bkp (bus_write sim_bus a w h) = sc_bkp h" if "\<forall>c. a \<noteq> bkp_addr c" for a w h
    using that by (simp add: sc_write_def)
qed (simp_all add: sim_reboot_def refusing_gate_def)

lemma sim_resets_land: "resets_land sim_bus sc_reset"
proof -
  have "sc_reset (reset_once sim_bus c)" for c
  proof -
    define w where "w = AIRCR_VECTKEY OR (sc_read SCB_AIRCR c AND AIRCR_PRIGROUP_MASK) OR AIRCR_SYSRESETREQ"
    have "drop_bit 16 w = 0x5FA" "bit w 2"
      by (auto simp: w_def AIRCR_VECTKEY_def AIRCR_PRIGROUP_MASK_def AIRCR_SYSRESETREQ_def bit_simps
          drop_bit_push_bit intro!: bit_word_eqI)
    then show ?thesis
      using sim_addresses
      unfolding reset_once_def Let_def sim_bus_simps w_def[symmetric] by (simp add: sc_write_def)
  qed
  then have "sc_reset ((reset_once sim_bus ^^ Suc 0) c)" for c by simp
  then show ?thesis unfolding resets_land_def by blast
qed

end
