(* ===== verification/Psram.thy ===== *)
theory Psram
  imports Flash
begin

text \<open>
  \<open>hal/src/psram.rs\<close>: the memory a firmware image is staged in. The burn length derived
  from the staged header, the bounds every access goes through, the \<open>Psram\<close> trait as a
  record of operations, its two implementors (the memory-mapped part over an arbitrary bus, and
  the RAM-backed double), and the read-back self-test. What a working RAM promises is the contract
  \<open>psram_ram\<close>; both implementors discharge it.
\<close>

subsection \<open>Memory map\<close>

definition FLASH_ISR_BASE :: nat where "FLASH_ISR_BASE = 0x08020000"
definition FLASH_ISR_LEN :: nat where "FLASH_ISR_LEN = 16 * 1024"
definition FW_HEADER_SIZE :: nat where "FW_HEADER_SIZE = 128"
definition FW_HEADER_OFFSET :: nat where "FW_HEADER_OFFSET = FLASH_ISR_LEN - FW_HEADER_SIZE"
definition FW_MIN_BODY_LEN :: nat where "FW_MIN_BODY_LEN = 256 * 1024"
definition FW_BODY_ALIGN :: nat where "FW_BODY_ALIGN = 512"
definition PSRAM_BASE :: nat where "PSRAM_BASE = 0x90000000"
definition PSRAM_LEN :: nat where "PSRAM_LEN = 8 * 1024 * 1024"

definition BURN_BASE :: nat where "BURN_BASE = FLASH_ISR_BASE"
definition BURN_LEN_MAX :: nat where "BURN_LEN_MAX = FLASH_FS_BASE - FLASH_ISR_BASE"
definition BURN_LEN_MIN :: nat where "BURN_LEN_MIN = FW_MIN_BODY_LEN"
definition FW_LENGTH_FIELD_OFFSET :: nat where "FW_LENGTH_FIELD_OFFSET = 24"
definition PSRAM_STAGE_OFFSET :: nat where "PSRAM_STAGE_OFFSET = 0"
definition PSRAM_STAGE_LEN :: nat where "PSRAM_STAGE_LEN = PSRAM_LEN div 2"
definition WRITE_ALIGN :: nat where "WRITE_ALIGN = 4"
definition SELFTEST_CHUNK :: nat where "SELFTEST_CHUNK = 64"

lemmas psram_defs = FLASH_ISR_BASE_def FLASH_ISR_LEN_def FW_HEADER_SIZE_def FW_HEADER_OFFSET_def
  FW_MIN_BODY_LEN_def FW_BODY_ALIGN_def PSRAM_BASE_def PSRAM_LEN_def BURN_BASE_def
  BURN_LEN_MAX_def BURN_LEN_MIN_def FW_LENGTH_FIELD_OFFSET_def PSRAM_STAGE_OFFSET_def
  PSRAM_STAGE_LEN_def WRITE_ALIGN_def SELFTEST_CHUNK_def FLASH_FS_BASE_def

subsection \<open>The burn length\<close>

datatype stage_error =
    HeaderUnreadable | NotInStagingWindow | StageTooSmall | StageTooLarge | Truncated | LengthMismatch

definition staged_burn_len :: "bytes \<Rightarrow> stage_error + nat" where
  "staged_burn_len staged =
     (if PSRAM_STAGE_LEN < length staged then Inl NotInStagingWindow
      else if length staged < FW_HEADER_OFFSET + FW_HEADER_SIZE then Inl HeaderUnreadable
      else let len = of_le (window staged (FW_HEADER_OFFSET + FW_LENGTH_FIELD_OFFSET) 4) in
        if len < BURN_LEN_MIN then Inl StageTooSmall
        else case u32_checked_add BURN_BASE len of
               None \<Rightarrow> Inl StageTooLarge
             | Some burn_end \<Rightarrow>
                 if FLASH_FS_BASE < burn_end then Inl StageTooLarge
                 else if length staged < len then Inl Truncated
                 else Inr len)"

definition check_burn_len :: "bytes \<Rightarrow> nat \<Rightarrow> stage_error + nat" where
  "check_burn_len staged callgate_len =
     (case staged_burn_len staged of
        Inl e \<Rightarrow> Inl e
      | Inr len \<Rightarrow> if callgate_len \<noteq> len then Inl LengthMismatch else Inr len)"

subsection \<open>Bounds of an access\<close>

datatype psram_error = PsNotAligned | PsOutOfBounds | PsNotOnThisTarget | PsMismatch nat

definition check_read :: "nat \<Rightarrow> nat \<Rightarrow> psram_error + unit" where
  "check_read offset len =
     (case u32_checked_add offset len of
        None \<Rightarrow> Inl PsOutOfBounds
      | Some e \<Rightarrow> if PSRAM_STAGE_LEN < e then Inl PsOutOfBounds else Inr ())"

definition check_write :: "nat \<Rightarrow> nat \<Rightarrow> psram_error + unit" where
  "check_write offset len =
     (if offset mod WRITE_ALIGN \<noteq> 0 \<or> len mod WRITE_ALIGN \<noteq> 0 then Inl PsNotAligned
      else check_read offset len)"

lemma check_read_ok: "check_read offset len = Inr () \<longleftrightarrow> offset + len \<le> PSRAM_STAGE_LEN"
  by (auto simp: check_read_def psram_defs u32_checked_add_def u32_lim_def split: option.splits if_splits)

lemma check_write_ok:
  "check_write offset len = Inr () \<longleftrightarrow> 4 dvd offset \<and> 4 dvd len \<and> offset + len \<le> PSRAM_STAGE_LEN"
  by (auto simp: check_write_def check_read_ok WRITE_ALIGN_def mod_eq_0_iff_dvd)

lemma check_read_cases: "check_read offset len = Inr () \<or> check_read offset len = Inl PsOutOfBounds"
  by (auto simp: check_read_def split: option.splits)

subsection \<open>The trait\<close>

text \<open>
  A read is given the caller's buffer and returns it filled; a view is the first bytes of the
  window.
\<close>

record 'p psram =
  ps_write :: "nat \<Rightarrow> bytes \<Rightarrow> 'p \<Rightarrow> (psram_error + unit) \<times> 'p"
  ps_read :: "nat \<Rightarrow> bytes \<Rightarrow> 'p \<Rightarrow> (psram_error + unit) \<times> bytes \<times> 'p"
  ps_view :: "nat \<Rightarrow> 'p \<Rightarrow> psram_error + bytes"

text \<open>The body an implementor without a contiguous window inherits.\<close>

definition view_default :: "nat \<Rightarrow> 'p \<Rightarrow> psram_error + bytes" where
  "view_default len p = Inl PsNotOnThisTarget"

subsection \<open>The self-test\<close>

definition pattern_byte :: "nat \<Rightarrow> u8" where
  "pattern_byte offset =
     (let w = word_of_nat offset :: u32 in ucast (w XOR drop_bit 8 w XOR drop_bit 16 w))"

definition pattern :: "nat \<Rightarrow> nat \<Rightarrow> bytes" where
  "pattern at n = map (\<lambda>i. pattern_byte (u32_sat_add at i)) [0 ..< n]"

text \<open>The offset of the first byte that is not the pattern's; the count says how far it is.\<close>

fun first_mismatch :: "nat \<Rightarrow> nat \<Rightarrow> bytes \<Rightarrow> nat option" where
  "first_mismatch at i [] = None"
| "first_mismatch at i (got # rest) =
     (if got \<noteq> pattern_byte (u32_sat_add at i) then Some (u32_sat_add at i)
      else first_mismatch at (i + 1) rest)"

function readback_loop :: "'p psram \<Rightarrow> nat \<Rightarrow> nat \<Rightarrow> nat \<Rightarrow> 'p \<Rightarrow> (psram_error + unit) \<times> 'p" where
  "readback_loop P offset len pos p =
     (if len \<le> pos then (Inr (), p)
      else (let n = min SELFTEST_CHUNK (len - pos); at = u32_add offset pos; buf = pattern at n in
            case ps_write P at buf p of
              (Inl e, p1) \<Rightarrow> (Inl e, p1)
            | (Inr _, p1) \<Rightarrow>
               (case ps_read P at (map (\<lambda>b. NOT b) buf) p1 of
                  (Inl e, _, p2) \<Rightarrow> (Inl e, p2)
                | (Inr _, got, p2) \<Rightarrow>
                   (case first_mismatch at 0 got of
                      Some off \<Rightarrow> (Inl (PsMismatch off), p2)
                    | None \<Rightarrow> readback_loop P offset len (pos + n) p2))))"
  by pat_completeness auto
termination
  by (relation "measure (\<lambda>(_, _, len, pos, _). len - pos)") (auto simp: SELFTEST_CHUNK_def)

declare readback_loop.simps [simp del]

definition readback_selftest :: "'p psram \<Rightarrow> nat \<Rightarrow> nat \<Rightarrow> 'p \<Rightarrow> (psram_error + unit) \<times> 'p" where
  "readback_selftest P offset len p =
     (if len = 0 then (Inl PsOutOfBounds, p)
      else case check_write offset len of
             Inl e \<Rightarrow> (Inl e, p)
           | Inr _ \<Rightarrow> readback_loop P offset len 0 p)"

subsection \<open>The memory-mapped part\<close>

text \<open>
  The bus: a volatile word store and a volatile byte load at an address. \<open>on_arm\<close> is the
  target the code is compiled for.
\<close>

record 'h bus =
  bus_store :: "nat \<Rightarrow> u32 \<Rightarrow> 'h \<Rightarrow> 'h"
  bus_load :: "nat \<Rightarrow> 'h \<Rightarrow> u8"

fun store_words :: "'h bus \<Rightarrow> nat \<Rightarrow> bytes \<Rightarrow> 'h \<Rightarrow> 'h" where
  "store_words B a (b0 # b1 # b2 # b3 # rest) h =
     store_words B (u32_add a 4) rest (bus_store B a (word_of_nat (of_le [b0, b1, b2, b3])) h)"
| "store_words B a _ h = h"

definition mapped_write :: "bool \<Rightarrow> 'h bus \<Rightarrow> nat \<Rightarrow> bytes \<Rightarrow> 'h \<Rightarrow> (psram_error + unit) \<times> 'h" where
  "mapped_write on_arm B offset bs h =
     (case check_write offset (length bs) of
        Inl e \<Rightarrow> (Inl e, h)
      | Inr _ \<Rightarrow>
          if bs = [] then (Inr (), h)
          else if \<not> on_arm then (Inl PsNotOnThisTarget, h)
          else (Inr (), store_words B (u32_add PSRAM_BASE offset) bs h))"

definition mapped_read ::
  "bool \<Rightarrow> 'h bus \<Rightarrow> nat \<Rightarrow> bytes \<Rightarrow> 'h \<Rightarrow> (psram_error + unit) \<times> bytes \<times> 'h" where
  "mapped_read on_arm B offset out h =
     (case check_read offset (length out) of
        Inl e \<Rightarrow> (Inl e, out, h)
      | Inr _ \<Rightarrow>
          if out = [] then (Inr (), out, h)
          else if \<not> on_arm then (Inl PsNotOnThisTarget, out, h)
          else (Inr (), map (\<lambda>i. bus_load B (u32_add (u32_add PSRAM_BASE offset) i) h) [0 ..< length out], h))"

definition mapped_view :: "bool \<Rightarrow> 'h bus \<Rightarrow> nat \<Rightarrow> 'h \<Rightarrow> psram_error + bytes" where
  "mapped_view on_arm B len h =
     (case check_read PSRAM_STAGE_OFFSET len of
        Inl e \<Rightarrow> Inl e
      | Inr _ \<Rightarrow>
          if \<not> on_arm then Inl PsNotOnThisTarget
          else Inr (map (\<lambda>i. bus_load B (u32_add PSRAM_BASE i) h) [0 ..< len]))"

definition MappedPsram :: "bool \<Rightarrow> 'h bus \<Rightarrow> 'h psram" where
  "MappedPsram on_arm B =
     \<lparr>ps_write = mapped_write on_arm B, ps_read = mapped_read on_arm B, ps_view = mapped_view on_arm B\<rparr>"

subsection \<open>The double\<close>

record fake_psram =
  fp_cells :: bytes
  fp_corrupt_at :: "nat option"

text \<open>\<open>None\<close> is the constructor's panic.\<close>

definition fake_psram_new :: "nat \<Rightarrow> fake_psram option" where
  "fake_psram_new len =
     (if len = 0 \<or> PSRAM_STAGE_LEN < len then None
      else Some \<lparr>fp_cells = replicate len 0, fp_corrupt_at = None\<rparr>)"

definition corrupt_writes_at :: "nat \<Rightarrow> fake_psram \<Rightarrow> fake_psram" where
  "corrupt_writes_at offset f = f\<lparr>fp_corrupt_at := Some offset\<rparr>"

definition fake_span :: "fake_psram \<Rightarrow> nat \<Rightarrow> nat \<Rightarrow> psram_error + (nat \<times> nat)" where
  "fake_span f offset len =
     (case u32_checked_add offset len of
        Some e \<Rightarrow> if e \<le> length (fp_cells f) then Inr (offset, e) else Inl PsOutOfBounds
      | None \<Rightarrow> Inl PsOutOfBounds)"

definition fp_write :: "nat \<Rightarrow> bytes \<Rightarrow> fake_psram \<Rightarrow> (psram_error + unit) \<times> fake_psram" where
  "fp_write offset bs f =
     (case check_write offset (length bs) of
        Inl e \<Rightarrow> (Inl e, f)
      | Inr _ \<Rightarrow>
         (case fake_span f offset (length bs) of
            Inl e \<Rightarrow> (Inl e, f)
          | Inr (start, e) \<Rightarrow>
             (let cells = patch (fp_cells f) start bs in
              (Inr (), f\<lparr>fp_cells :=
                 (case fp_corrupt_at f of
                    Some at \<Rightarrow> if start \<le> at \<and> at < e then cells[at := cells ! at XOR 1] else cells
                  | None \<Rightarrow> cells)\<rparr>))))"

definition fp_read :: "nat \<Rightarrow> bytes \<Rightarrow> fake_psram \<Rightarrow> (psram_error + unit) \<times> bytes \<times> fake_psram" where
  "fp_read offset out f =
     (case check_read offset (length out) of
        Inl e \<Rightarrow> (Inl e, out, f)
      | Inr _ \<Rightarrow>
         (case fake_span f offset (length out) of
            Inl e \<Rightarrow> (Inl e, out, f)
          | Inr (start, e) \<Rightarrow> (Inr (), window (fp_cells f) start (e - start), f)))"

definition fp_view :: "nat \<Rightarrow> fake_psram \<Rightarrow> psram_error + bytes" where
  "fp_view len f =
     (case check_read PSRAM_STAGE_OFFSET len of
        Inl e \<Rightarrow> Inl e
      | Inr _ \<Rightarrow> if len \<le> length (fp_cells f) then Inr (take len (fp_cells f)) else Inl PsOutOfBounds)"

definition FakePsram :: "fake_psram psram" where
  "FakePsram = \<lparr>ps_write = fp_write, ps_read = fp_read, ps_view = fp_view\<rparr>"

end
