(* ===== verification/Upgrade.thy ===== *)
theory Upgrade
  imports Psram Comms Keypad
begin

text \<open>
  \<open>firmware/src/upgrade.rs\<close>, with \<open>firmware_digest\<close> of
  \<open>firmware/src/lib.rs\<close> and the boot-time hold check of \<open>firmware/src/main.rs\<close>:
  admitting the upgrade messages, streaming an image into PSRAM through a four-byte carry, judging
  it by reading it back, and the listener that owns the wire meanwhile. SHA-256 is the parameter
  \<open>H\<close>; \<open>bincode\<close> is the link's decoder.
\<close>

definition FIRMWARE_UPGRADE_CHUNK_LEN :: nat where "FIRMWARE_UPGRADE_CHUNK_LEN = 4096"
definition FIRMWARE_NEXT_CHUNK_READY_SIGNAL :: u8 where "FIRMWARE_NEXT_CHUNK_READY_SIGNAL = 0x11"

subsection \<open>The digest\<close>

definition firmware_digest :: "(bytes \<Rightarrow> bytes) \<Rightarrow> bytes \<Rightarrow> bytes option" where
  "firmware_digest H img =
     (let header_end = FW_HEADER_OFFSET + FW_HEADER_SIZE in
      if length img < header_end then None
      else let len = of_le (window (window img FW_HEADER_OFFSET FW_HEADER_SIZE) 24 4) in
        if len < FW_MIN_BODY_LEN \<or> len mod FW_BODY_ALIGN \<noteq> 0 \<or> length img < len then None
        else Some (H (take (header_end - 64) img @ window img header_end (len - header_end))))"

subsection \<open>The staging machine\<close>

datatype upgrade_message =
    PrepareUpgrade nat bytes
  | EnterUpgradeMode
  | PrepareUpgrade2 nat bytes

datatype refusal =
    Legacy | OutOfOrder | Unaligned | TooSmall | TooLarge | Selftest psram_error
  | RefusePsram psram_error | ExtraBytes | Unreadable | LengthDisagreement | Digest

datatype stage_state =
    Idle
  | Prepared nat
  | Streaming nat nat
  | Staged nat
  | Refused refusal

record 'p stager =
  sg_psram :: 'p
  sg_state :: stage_state
  sg_expected :: bytes
  sg_carry :: bytes
  sg_carry_len :: nat
  sg_written :: nat

definition stager_new :: "'p \<Rightarrow> 'p stager" where
  "stager_new p =
     \<lparr>sg_psram = p, sg_state = Idle, sg_expected = replicate 32 0,
      sg_carry = replicate WRITE_ALIGN 0, sg_carry_len = 0, sg_written = 0\<rparr>"

definition is_streaming :: "'p stager \<Rightarrow> bool" where
  "is_streaming s = (case sg_state s of Streaming _ _ \<Rightarrow> True | _ \<Rightarrow> False)"

definition refuse :: "refusal \<Rightarrow> 'p stager \<Rightarrow> (refusal + 'a) \<times> 'p stager" where
  "refuse why s = (Inl why, s\<lparr>sg_state := Refused why\<rparr>)"

fun admit :: "'p psram \<Rightarrow> upgrade_message \<Rightarrow> 'p stager \<Rightarrow> (refusal + unit) \<times> 'p stager" where
  "admit P (PrepareUpgrade _ _) s = refuse Legacy s"
| "admit P (PrepareUpgrade2 sz digest) s0 =
     (let s = s0\<lparr>sg_state := Idle, sg_written := 0, sg_carry_len := 0\<rparr> in
      if sz mod FW_BODY_ALIGN \<noteq> 0 then refuse Unaligned s
      else if sz < FW_MIN_BODY_LEN then refuse TooSmall s
      else if BURN_LEN_MAX < sz then refuse TooLarge s
      else case readback_selftest P PSRAM_STAGE_OFFSET sz (sg_psram s) of
             (Inl e, p) \<Rightarrow> refuse (Selftest e) (s\<lparr>sg_psram := p\<rparr>)
           | (Inr _, p) \<Rightarrow>
               (Inr (), s\<lparr>sg_psram := p, sg_expected := digest, sg_state := Prepared sz\<rparr>))"
| "admit P EnterUpgradeMode s =
     (case sg_state s of
        Prepared sz \<Rightarrow> (Inr (), s\<lparr>sg_state := Streaming sz 0\<rparr>)
      | _ \<Rightarrow> refuse OutOfOrder s)"

text \<open>One write at the staging cursor. A fault is returned with the state as it was.\<close>

definition put :: "'p psram \<Rightarrow> bytes \<Rightarrow> 'p stager \<Rightarrow> (refusal + unit) \<times> 'p stager" where
  "put P w s =
     (case ps_write P (u32_add PSRAM_STAGE_OFFSET (sg_written s)) w (sg_psram s) of
        (Inl e, p) \<Rightarrow> (Inl (RefusePsram e), s\<lparr>sg_psram := p\<rparr>)
      | (Inr _, p) \<Rightarrow> (Inr (), s\<lparr>sg_psram := p, sg_written := u32_add (sg_written s) (length w)\<rparr>))"

text \<open>Step 1 of \<open>feed\<close>: top the carry up to a word and flush it; what is left over.\<close>

definition feed_carry :: "'p psram \<Rightarrow> bytes \<Rightarrow> 'p stager \<Rightarrow> (refusal + bytes) \<times> 'p stager" where
  "feed_carry P bs s =
     (if 0 < sg_carry_len s then
        (let want = WRITE_ALIGN - sg_carry_len s;
             take_n = min want (length bs);
             s1 = s\<lparr>sg_carry := patch (sg_carry s) (sg_carry_len s) (take take_n bs),
                    sg_carry_len := sg_carry_len s + take_n\<rparr>;
             rest = drop take_n bs in
         if sg_carry_len s1 = WRITE_ALIGN then
           (case put P (sg_carry s1) s1 of
              (Inl e, s2) \<Rightarrow> (Inl e, s2)
            | (Inr _, s2) \<Rightarrow> (Inr rest, s2\<lparr>sg_carry_len := 0\<rparr>))
         else (Inr rest, s1))
      else (Inr bs, s))"

text \<open>Steps 2 and 3: whole words straight from the slice, the remainder into the carry.\<close>

definition feed_words :: "'p psram \<Rightarrow> bytes \<Rightarrow> 'p stager \<Rightarrow> (refusal + unit) \<times> 'p stager" where
  "feed_words P rest s =
     (if rest = [] then (Inr (), s)
      else (let whole = length rest - length rest mod WRITE_ALIGN;
                tail = drop whole rest in
        case (if 0 < whole then put P (take whole rest) s else (Inr (), s)) of
          (Inl e, s1) \<Rightarrow> (Inl e, s1)
        | (Inr _, s1) \<Rightarrow>
            (Inr (), s1\<lparr>sg_carry := patch (sg_carry s1) 0 tail, sg_carry_len := length tail\<rparr>)))"

text \<open>The ready bytes owed once \<open>r\<close> bytes have landed.\<close>

definition acks_at :: "nat \<Rightarrow> nat \<Rightarrow> nat" where
  "acks_at sz r =
     (if r = sz then (sz + FIRMWARE_UPGRADE_CHUNK_LEN - 1) div FIRMWARE_UPGRADE_CHUNK_LEN
      else r div FIRMWARE_UPGRADE_CHUNK_LEN)"

definition judge :: "(bytes \<Rightarrow> bytes) \<Rightarrow> nat \<Rightarrow> bytes \<Rightarrow> psram_error + bytes \<Rightarrow> refusal + unit" where
  "judge H sz expected viewed =
     (case viewed of
        Inl _ \<Rightarrow> Inl Unreadable
      | Inr view \<Rightarrow>
         (case staged_burn_len view of
            Inl e \<Rightarrow>
              if e \<in> {StageTooSmall, StageTooLarge, Truncated} then Inl LengthDisagreement else Inl Unreadable
          | Inr declared \<Rightarrow>
              if declared \<noteq> sz then Inl LengthDisagreement
              else case firmware_digest H view of
                     None \<Rightarrow> Inl Unreadable
                   | Some got \<Rightarrow> if got \<noteq> expected then Inl Digest else Inr ()))"

definition verify :: "(bytes \<Rightarrow> bytes) \<Rightarrow> 'p psram \<Rightarrow> 'p stager \<Rightarrow> (refusal + unit) \<times> 'p stager" where
  "verify H P s =
     (case sg_state s of
        Streaming sz _ \<Rightarrow>
         (case judge H sz (sg_expected s) (ps_view P sz (sg_psram s)) of
            Inr _ \<Rightarrow> (Inr (), s\<lparr>sg_state := Staged sz\<rparr>)
          | Inl why \<Rightarrow> refuse why s)
      | _ \<Rightarrow> refuse OutOfOrder s)"

text \<open>\<open>usize\<close> is the part's 32 bits, so a slice's length is always a \<open>u32\<close>.\<close>

definition feed :: "(bytes \<Rightarrow> bytes) \<Rightarrow> 'p psram \<Rightarrow> bytes \<Rightarrow> 'p stager \<Rightarrow> (refusal + nat) \<times> 'p stager" where
  "feed H P bs s =
     (case sg_state s of
        Streaming sz received \<Rightarrow>
         (if u32_lim \<le> length bs \<or> sz < u32_sat_add received (length bs) then refuse ExtraBytes s
          else case feed_carry P bs s of
            (Inl e, s1) \<Rightarrow> (Inl e, s1)
          | (Inr rest, s1) \<Rightarrow>
             (case feed_words P rest s1 of
                (Inl e, s2) \<Rightarrow> (Inl e, s2)
              | (Inr _, s2) \<Rightarrow>
                 (let received' = u32_add received (length bs);
                      s3 = s2\<lparr>sg_state := Streaming sz received'\<rparr>;
                      owed = acks_at sz received' - acks_at sz received in
                  if received' = sz then
                    (case verify H P s3 of
                       (Inl e, s4) \<Rightarrow> (Inl e, s4)
                     | (Inr _, s4) \<Rightarrow> (Inr owed, s4))
                  else (Inr owed, s3))))
      | _ \<Rightarrow> refuse OutOfOrder s)"

subsection \<open>The listener\<close>

datatype 'm receive_serial = RsMagicBytes | RsMessage 'm | RsConch | RsReset | RsUnused

datatype outcome = OutStaged nat | OutClosed

text \<open>The callback of \<open>poll\<close>: whether a reply is owed, and the stager.\<close>

fun on_frame ::
  "(bytes \<Rightarrow> inner_fault + (upgrade_message, 'b) send_body) \<Rightarrow> 'p psram \<Rightarrow> bool \<times> 'p stager \<Rightarrow>
   (upgrade_message, 'b) wire_body receive_serial \<Rightarrow> bool \<times> 'p stager" where
  "on_frame inner P (reply, s) RsMagicBytes = (True, s)"
| "on_frame inner P (reply, s) (RsMessage body) =
     (case decode_body inner body of
        Inr (BUpgrade u) \<Rightarrow> (reply, snd (admit P u s))
      | _ \<Rightarrow> (reply, s))"
| "on_frame inner P (reply, s) _ = (reply, s)"

text \<open>
  The loop over the packets the wire delivers, one list per read; the wire closes after the last.
  What is written, in order, is the second component.
\<close>

fun listen ::
  "(bytes \<Rightarrow> bytes) \<Rightarrow> (bytes \<Rightarrow> (upgrade_message, 'b) wire_body receive_serial decoded) \<Rightarrow>
   (bytes \<Rightarrow> inner_fault + (upgrade_message, 'b) send_body) \<Rightarrow> 'p psram \<Rightarrow> bytes list \<Rightarrow>
   'p stager \<Rightarrow> link \<Rightarrow> outcome \<times> bytes list \<times> 'p stager" where
  "listen H dec inner P [] s l = (OutClosed, [], s)"
| "listen H dec inner P (pkt # pkts) s l =
     (if is_streaming s then
        (case feed H P pkt s of (fed, s1) \<Rightarrow>
           let out = (case fed of Inr acks \<Rightarrow> replicate acks [FIRMWARE_NEXT_CHUNK_READY_SIGNAL] | Inl _ \<Rightarrow> []) in
           case sg_state s1 of
             Staged sz \<Rightarrow> (OutStaged sz, out, s1)
           | _ \<Rightarrow> (case listen H dec inner P pkts s1 l of (fin, later, s2) \<Rightarrow> (fin, out @ later, s2)))
      else
        (case poll dec pkt l of (polled, l1, frames) \<Rightarrow>
          (case foldl (on_frame inner P) (False, s) frames of (reply_magic, s1) \<Rightarrow>
             let out = (if is_ok polled \<and> reply_magic then [MAGIC_REPLY] else []) in
             (case listen H dec inner P pkts s1 l1 of (fin, later, s2) \<Rightarrow> (fin, out @ later, s2)))))"

definition run ::
  "(bytes \<Rightarrow> bytes) \<Rightarrow> (bytes \<Rightarrow> (upgrade_message, 'b) wire_body receive_serial decoded) \<Rightarrow>
   (bytes \<Rightarrow> inner_fault + (upgrade_message, 'b) send_body) \<Rightarrow> 'p psram \<Rightarrow> bytes list \<Rightarrow> 'p \<Rightarrow>
   outcome \<times> bytes list \<times> 'p stager" where
  "run H dec inner P pkts p = listen H dec inner P pkts (stager_new p) link_new"

subsection \<open>The hold at boot\<close>

definition UPGRADE_HOLD_KEY :: u8 where "UPGRADE_HOLD_KEY = 0x79"

text \<open>\<open>BootRng\<close>: a counter with an odd increment, wrapping.\<close>

definition boot_rng_next :: "u32 \<Rightarrow> u32 \<times> u32" where
  "boot_rng_next w = (let w' = w + 0x9e3779b9 in (w', w'))"

definition arms_upgrade :: "keypad_error + key_event \<Rightarrow> bool" where
  "arms_upgrade pressed =
     (case pressed of
        Inr (Down k) \<Rightarrow> k = UPGRADE_HOLD_KEY
      | Inr MultiKey \<Rightarrow> False
      | Inr Unsettled \<Rightarrow> False
      | Inr AllUp \<Rightarrow> False
      | Inl _ \<Rightarrow> False)"

definition upgrade_requested :: "'h gpio \<Rightarrow> 'h option \<Rightarrow> bool" where
  "upgrade_requested G pad =
     (case pad of
        None \<Rightarrow> False
      | Some h \<Rightarrow> arms_upgrade (Inr (fst (read_key G boot_rng_next (h, 1)))))"

end
