(* ===== verification/PsramCorrect.thy ===== *)
theory PsramCorrect
  imports Psram
begin

text \<open>
  What a working staging RAM promises (\<open>psram_ram\<close>), what follows for the self-test, and
  the two implementors that keep the promise: the double without an injected fault, and the
  memory-mapped part over any bus whose loads return what was stored (\<open>ram_bus\<close>). The
  self-test over the double with a fault names exactly the faulty cell.
\<close>

subsection \<open>Patterns and patches\<close>

lemma length_pattern [simp]: "length (pattern at n) = n"
  by (simp add: pattern_def)

lemma pattern_append:
  "pattern at (m + n) = pattern at m @ pattern (at + m) n" if "at + m + n \<le> u32_max"
  using that by (intro nth_equalityI) (auto simp: pattern_def nth_append u32_sat_add_def min_def)

lemma first_mismatch_None:
  "first_mismatch at i bs = None \<longleftrightarrow> (\<forall>j < length bs. bs ! j = pattern_byte (u32_sat_add at (i + j)))"
proof (induction at i bs rule: first_mismatch.induct)
  case (2 at i got rest)
  then show ?case by (auto simp: less_Suc_eq_0_disj nth_Cons')
qed simp

lemma first_mismatch_pattern [simp]: "first_mismatch at 0 (pattern at n) = None"
  by (simp add: first_mismatch_None pattern_def)

lemma first_mismatch_Some:
  "(\<forall>j < k. bs ! j = pattern_byte (u32_sat_add at (i + j))) \<Longrightarrow> k < length bs \<Longrightarrow>
   bs ! k \<noteq> pattern_byte (u32_sat_add at (i + k)) \<Longrightarrow> first_mismatch at i bs = Some (u32_sat_add at (i + k))"
proof (induction at i bs arbitrary: k rule: first_mismatch.induct)
  case (2 at i got rest)
  show ?case
  proof (cases k)
    case (Suc k')
    have "got = pattern_byte (u32_sat_add at i)" using "2.prems"(1) Suc by force
    moreover have "\<forall>j < k'. rest ! j = pattern_byte (u32_sat_add at (i + 1 + j))"
      using "2.prems"(1) Suc by (metis Suc_less_eq add.assoc nth_Cons_Suc plus_1_eq_Suc)
    ultimately show ?thesis using "2.IH"[of k'] "2.prems"(2,3) Suc by simp
  qed (use "2.prems" in auto)
qed simp

lemma patch_twice:
  "length ys = length zs \<Longrightarrow> off + length ys \<le> length xs \<Longrightarrow> patch (patch xs off ys) off zs = patch xs off zs"
  by (simp add: patch_def)

lemma patch_adjacent:
  "off + length ys + length zs \<le> length xs \<Longrightarrow>
   patch (patch xs off ys) (off + length ys) zs = patch xs off (ys @ zs)"
  by (intro nth_equalityI) (auto simp: nth_patch nth_append)

lemma take_patch: "off + length ys \<le> length xs \<Longrightarrow> take off (patch xs off ys) = take off xs"
  by (simp add: patch_def)

lemma take_patch_all: "length ys \<le> length xs \<Longrightarrow> take (length ys) (patch xs 0 ys) = ys"
  by (simp add: patch_def)

subsection \<open>The contract\<close>

locale psram_ram =
  fixes P :: "'p psram" and cells :: "'p \<Rightarrow> bytes" and ok :: "'p \<Rightarrow> bool"
  assumes write_ok: "ok p \<Longrightarrow> 4 dvd off \<Longrightarrow> 4 dvd length bs \<Longrightarrow> off + length bs \<le> length (cells p) \<Longrightarrow>
      \<exists>p'. ps_write P off bs p = (Inr (), p') \<and> ok p' \<and> cells p' = patch (cells p) off bs"
    and read_ok: "ok p \<Longrightarrow> off + length out \<le> length (cells p) \<Longrightarrow>
      \<exists>p'. ps_read P off out p = (Inr (), window (cells p) off (length out), p') \<and> ok p' \<and> cells p' = cells p"
    and view_ok: "ok p \<Longrightarrow> len \<le> length (cells p) \<Longrightarrow> ps_view P len p = Inr (take len (cells p))"
    and capacity: "ok p \<Longrightarrow> length (cells p) \<le> PSRAM_STAGE_LEN"
begin

lemma readback_loop_ok:
  "ok p \<Longrightarrow> 4 dvd offset \<Longrightarrow> 4 dvd len \<Longrightarrow> 4 dvd pos \<Longrightarrow> pos \<le> len \<Longrightarrow> offset + len \<le> length (cells p) \<Longrightarrow>
   \<exists>p'. readback_loop P offset len pos p = (Inr (), p') \<and> ok p' \<and>
     cells p' = patch (cells p) (offset + pos) (pattern (offset + pos) (len - pos))"
proof (induction "len - pos" arbitrary: pos p rule: less_induct)
  case less
  show ?case
  proof (cases "len \<le> pos")
    case True
    then show ?thesis using less.prems by (auto simp: readback_loop.simps[of P] pattern_def)
  next
    case False
    let ?n = "min SELFTEST_CHUNK (len - pos)" and ?at = "offset + pos"
    have n: "0 < ?n" "?n \<le> len - pos" "4 dvd ?n"
      using False less.prems by (auto simp: SELFTEST_CHUNK_def min_def)
    have cap: "offset + len \<le> u32_max"
      using capacity[OF less.prems(1)] less.prems(6) by (simp add: psram_defs u32_max_def)
    have at: "u32_add offset pos = ?at"
      using cap False by (simp add: u32_add_exact u32_max_def u32_lim_def)
    have fits: "?at + length (pattern ?at ?n) \<le> length (cells p)" using n less.prems False by simp
    obtain p1 where w: "ps_write P ?at (pattern ?at ?n) p = (Inr (), p1)" "ok p1"
        "cells p1 = patch (cells p) ?at (pattern ?at ?n)"
      using write_ok[OF less.prems(1) _ _ fits] less.prems n by auto
    have fits1: "?at + length (map (\<lambda>b. NOT b) (pattern ?at ?n)) \<le> length (cells p1)"
      using fits w(3) by simp
    obtain p2 where r: "ps_read P ?at (map (\<lambda>b. NOT b) (pattern ?at ?n)) p1 =
        (Inr (), window (cells p1) ?at ?n, p2)" "ok p2" "cells p2 = cells p1"
      using read_ok[OF w(2) fits1] by auto
    have got: "window (cells p1) ?at ?n = pattern ?at ?n"
      using window_patch_same[OF fits] w(3) by simp
    have c2: "length (cells p2) = length (cells p)" using r(3) w(3) fits by simp
    have "len - (pos + ?n) < len - pos" "4 dvd pos + ?n" "pos + ?n \<le> len"
      using n less.prems False by auto
    then obtain p' where l: "readback_loop P offset len (pos + ?n) p2 = (Inr (), p')" "ok p'"
        "cells p' = patch (cells p2) (offset + (pos + ?n)) (pattern (offset + (pos + ?n)) (len - (pos + ?n)))"
      using less.hyps[of "pos + ?n" p2] less.prems r(2) c2 by auto
    have "readback_loop P offset len pos p = (Inr (), p')"
      using False l(1) w(1) r(1) got by (simp add: readback_loop.simps[of P offset len pos p] Let_def at)
    moreover have "cells p' = patch (cells p) ?at (pattern ?at ?n @ pattern (?at + ?n) (len - pos - ?n))"
      using patch_adjacent[of ?at "pattern ?at ?n" "pattern (?at + ?n) (len - pos - ?n)" "cells p"]
        l(3) r(3) w(3) n less.prems by (simp add: add.assoc)
    moreover have "pattern ?at ?n @ pattern (?at + ?n) (len - pos - ?n) = pattern ?at (len - pos)"
      using pattern_append[of ?at ?n "len - pos - ?n"] n cap False by simp
    ultimately show ?thesis using l(2) by auto
  qed
qed

lemma selftest_ok:
  assumes "ok p" "4 dvd offset" "4 dvd len" "0 < len" "offset + len \<le> length (cells p)"
  shows "\<exists>p'. readback_selftest P offset len p = (Inr (), p') \<and> ok p' \<and>
    cells p' = patch (cells p) offset (pattern offset len)"
proof -
  have "check_write offset len = Inr ()"
    using assms capacity[OF assms(1)] by (simp add: check_write_ok)
  then show ?thesis using readback_loop_ok[OF assms(1,2,3) _ _ assms(5), of 0] assms(4)
    by (simp add: readback_selftest_def)
qed

end

lemma selftest_refuses:
  assumes "n = 0 \<or> \<not> 4 dvd off \<or> \<not> 4 dvd n \<or> PSRAM_STAGE_LEN < off + n"
  shows "\<exists>e. readback_selftest P off n p = (Inl e, p)"
proof (cases "check_write off n")
  case (Inr u)
  then have "n = 0" using assms check_write_ok[of off n] by auto
  then show ?thesis by (simp add: readback_selftest_def)
qed (simp add: readback_selftest_def)

subsection \<open>The double\<close>

lemma fake_span_ok:
  "length (fp_cells f) \<le> PSRAM_STAGE_LEN \<Longrightarrow> offset + len \<le> length (fp_cells f) \<Longrightarrow>
   fake_span f offset len = Inr (offset, offset + len)"
  by (auto simp: fake_span_def psram_defs u32_checked_add_def u32_lim_def)

definition fake_sound :: "fake_psram \<Rightarrow> bool" where
  "fake_sound f \<longleftrightarrow> fp_corrupt_at f = None \<and> length (fp_cells f) \<le> PSRAM_STAGE_LEN"

lemma fp_write_ok:
  assumes "length (fp_cells f) \<le> PSRAM_STAGE_LEN" "4 dvd off" "4 dvd length bs"
    and "off + length bs \<le> length (fp_cells f)"
  shows "fp_write off bs f = (Inr (), f\<lparr>fp_cells :=
    (let cells = patch (fp_cells f) off bs in
     case fp_corrupt_at f of
       Some at \<Rightarrow> if off \<le> at \<and> at < off + length bs then cells[at := cells ! at XOR 1] else cells
     | None \<Rightarrow> cells)\<rparr>)"
  using assms by (simp add: fp_write_def check_write_ok[THEN iffD2] fake_span_ok Let_def)

lemma fp_read_ok:
  assumes "length (fp_cells f) \<le> PSRAM_STAGE_LEN" "off + length out \<le> length (fp_cells f)"
  shows "fp_read off out f = (Inr (), window (fp_cells f) off (length out), f)"
  using assms by (simp add: fp_read_def check_read_ok[THEN iffD2] fake_span_ok)

interpretation fake: psram_ram FakePsram fp_cells fake_sound
proof
  show "\<exists>p'. ps_write FakePsram off bs p = (Inr (), p') \<and> fake_sound p' \<and> fp_cells p' = patch (fp_cells p) off bs"
    if "fake_sound p" "4 dvd off" "4 dvd length bs" "off + length bs \<le> length (fp_cells p)" for p off bs
    using that by (simp add: FakePsram_def fake_sound_def fp_write_ok Let_def)
  show "\<exists>p'. ps_read FakePsram off out p = (Inr (), window (fp_cells p) off (length out), p') \<and>
      fake_sound p' \<and> fp_cells p' = fp_cells p"
    if "fake_sound p" "off + length out \<le> length (fp_cells p)" for p off and out :: bytes
    using that by (simp add: FakePsram_def fake_sound_def fp_read_ok)
  show "ps_view FakePsram len p = Inr (take len (fp_cells p))"
    if "fake_sound p" "len \<le> length (fp_cells p)" for len p
    using that by (simp add: FakePsram_def fake_sound_def fp_view_def PSRAM_STAGE_OFFSET_def
        check_read_ok[THEN iffD2])
qed (simp add: fake_sound_def)

lemma fake_psram_new_sound: "fake_psram_new n = Some f \<Longrightarrow> fake_sound f \<and> length (fp_cells f) = n"
  by (auto simp: fake_psram_new_def fake_sound_def split: if_splits)

text \<open>
  With a faulty cell in the span, the test stops at it. Every chunk before it passes; in the chunk
  that covers it the flipped bit is the first difference.
\<close>

lemma flipped_differs: "(x :: u8) XOR 1 \<noteq> x"
proof
  assume "x XOR 1 = x"
  then have "x XOR (x XOR 1) = x XOR x" by simp
  then show False by (simp add: bit.xor_left_self)
qed

lemma faulty_chunk:
  assumes "4 dvd at" "4 dvd n" "at + n \<le> length (fp_cells f)" "length (fp_cells f) \<le> PSRAM_STAGE_LEN"
    and "fp_corrupt_at f = Some c"
  obtains f' where "fp_write at (pattern at n) f = (Inr (), f')" "fp_corrupt_at f' = Some c"
    "length (fp_cells f') = length (fp_cells f)"
    "first_mismatch at 0 (window (fp_cells f') at n) = (if at \<le> c \<and> c < at + n then Some c else None)"
proof -
  let ?q = "patch (fp_cells f) at (pattern at n)"
  let ?cells = "if at \<le> c \<and> c < at + n then ?q[c := ?q ! c XOR 1] else ?q"
  have w: "window ?q at n = pattern at n" using window_patch_same[of at "pattern at n"] assms by simp
  have "first_mismatch at 0 (window ?cells at n) = (if at \<le> c \<and> c < at + n then Some c else None)"
  proof (cases "at \<le> c \<and> c < at + n")
    case True
    have len: "length ?q = length (fp_cells f)" using assms by simp
    have at: "u32_sat_add at i = at + i" if "i < n" for i
      using that assms by (simp add: u32_sat_add_def psram_defs u32_max_def)
    have nth: "window ?cells at n ! j = (if at + j = c then pattern at n ! j XOR 1 else pattern at n ! j)"
      if "j < n" for j
      using that True len assms(3) nth_window[of at n ?q j] w by (auto simp: nth_window nth_list_update)
    have less: "c - at < n" using True by linarith
    have "first_mismatch at 0 (window ?cells at n) = Some (u32_sat_add at (0 + (c - at)))"
    proof (rule first_mismatch_Some)
      show "\<forall>j < c - at. window ?cells at n ! j = pattern_byte (u32_sat_add at (0 + j))"
        using nth True by (auto simp: pattern_def)
      show "c - at < length (window ?cells at n)" using less len assms(3) by (simp add: length_window)
      show "window ?cells at n ! (c - at) \<noteq> pattern_byte (u32_sat_add at (0 + (c - at)))"
        using nth[of "c - at"] True less flipped_differs by (simp add: pattern_def)
    qed
    then show ?thesis using True at[OF less] by simp
  next
    case False
    then have "?cells = ?q" by (rule if_not_P)
    then show ?thesis using False by (simp only: w first_mismatch_pattern if_False)
  qed
  with assms show thesis
    by (intro that[of "f\<lparr>fp_cells := ?cells\<rparr>"]) (auto simp: fp_write_ok Let_def)
qed

lemma faulty_loop:
  "4 dvd offset \<Longrightarrow> 4 dvd len \<Longrightarrow> 4 dvd pos \<Longrightarrow> offset + len \<le> length (fp_cells f) \<Longrightarrow>
   length (fp_cells f) \<le> PSRAM_STAGE_LEN \<Longrightarrow> fp_corrupt_at f = Some c \<Longrightarrow>
   offset + pos \<le> c \<Longrightarrow> c < offset + len \<Longrightarrow>
   \<exists>f'. readback_loop FakePsram offset len pos f = (Inl (PsMismatch c), f')"
proof (induction "len - pos" arbitrary: pos f rule: less_induct)
  case less
  let ?at = "offset + pos"
  define n where "n = min SELFTEST_CHUNK (len - pos)"
  have n: "0 < n" "4 dvd n" "?at + n \<le> offset + len"
    using less.prems by (auto simp: n_def SELFTEST_CHUNK_def min_def)
  have at: "u32_add offset pos = ?at"
    using less.prems by (simp add: u32_add_exact psram_defs u32_lim_def)
  obtain f1 where w: "fp_write ?at (pattern ?at n) f = (Inr (), f1)" "fp_corrupt_at f1 = Some c"
    "length (fp_cells f1) = length (fp_cells f)"
    "first_mismatch ?at 0 (window (fp_cells f1) ?at n) = (if ?at \<le> c \<and> c < ?at + n then Some c else None)"
    by (rule faulty_chunk[of ?at n f c]) (use less.prems n in auto)
  have r: "fp_read ?at (map (\<lambda>b. NOT b) (pattern ?at n)) f1 = (Inr (), window (fp_cells f1) ?at n, f1)"
    using fp_read_ok[of f1 ?at "map (\<lambda>b. NOT b) (pattern ?at n)"] w(3) less.prems n by simp
  have ops: "ps_write FakePsram = fp_write" "ps_read FakePsram = fp_read" by (simp_all add: FakePsram_def)
  have step: "readback_loop FakePsram offset len pos f =
      (if c < ?at + n then (Inl (PsMismatch c), f1) else readback_loop FakePsram offset len (pos + n) f1)"
    using w r less.prems
    by (simp add: readback_loop.simps[of FakePsram offset len pos f] Let_def at ops flip: n_def)
  show ?case
  proof (cases "c < ?at + n")
    case False
    then have "\<exists>f'. readback_loop FakePsram offset len (pos + n) f1 = (Inl (PsMismatch c), f')"
      using less.prems n w by (intro less.hyps) auto
    then show ?thesis using step False by simp
  qed (use step in simp)
qed

lemma faulty_selftest:
  assumes "4 dvd offset" "4 dvd len" "offset + len \<le> length (fp_cells f)"
    and "length (fp_cells f) \<le> PSRAM_STAGE_LEN" "offset \<le> c" "c < offset + len"
  shows "\<exists>f'. readback_selftest FakePsram offset len (corrupt_writes_at c f) = (Inl (PsMismatch c), f')"
proof -
  have "check_write offset len = Inr ()" using assms by (simp add: check_write_ok)
  then show ?thesis using faulty_loop[of offset len 0 "corrupt_writes_at c f" c] assms
    by (simp add: readback_selftest_def corrupt_writes_at_def)
qed

subsection \<open>The memory-mapped part\<close>

text \<open>
  A bus that works over the staging window: a load returns the byte of the last word stored over
  it, and a store changes nothing else there.
\<close>

locale ram_bus =
  fixes B :: "'h bus"
  assumes load_store: "4 dvd a \<Longrightarrow> PSRAM_BASE \<le> a \<Longrightarrow> a + 4 \<le> PSRAM_BASE + PSRAM_STAGE_LEN \<Longrightarrow>
      PSRAM_BASE \<le> x \<Longrightarrow> x < PSRAM_BASE + PSRAM_STAGE_LEN \<Longrightarrow>
      bus_load B x (bus_store B a v h) =
        (if a \<le> x \<and> x < a + 4 then le_bytes 4 (unat v) ! (x - a) else bus_load B x h)"
begin

lemma word_of_bytes: "length bs = 4 \<Longrightarrow> le_bytes 4 (unat (word_of_nat (of_le bs) :: u32)) = bs"
proof -
  assume l: "length bs = 4"
  have "of_le bs < 2 ^ 32" using of_le_bound[of bs] l by simp
  then have "unat (word_of_nat (of_le bs) :: u32) = of_le bs" by (simp add: unat_of_nat)
  then show ?thesis using le_bytes_of_le[of bs] l by simp
qed

lemma store_words_load:
  "4 dvd a \<Longrightarrow> 4 dvd length bs \<Longrightarrow> PSRAM_BASE \<le> a \<Longrightarrow> a + length bs \<le> PSRAM_BASE + PSRAM_STAGE_LEN \<Longrightarrow>
   PSRAM_BASE \<le> x \<Longrightarrow> x < PSRAM_BASE + PSRAM_STAGE_LEN \<Longrightarrow>
   bus_load B x (store_words B a bs h) =
     (if a \<le> x \<and> x < a + length bs then bs ! (x - a) else bus_load B x h)"
proof (induction "length bs" arbitrary: a bs h rule: less_induct)
  case less
  show ?case
  proof (cases "bs = []")
    case False
    then have "4 \<le> length bs" using less.prems(2) by (simp add: dvd_imp_le)
    then obtain b0 b1 b2 b3 rest where bs: "bs = b0 # b1 # b2 # b3 # rest"
      by (auto simp: Suc_le_length_iff eval_nat_numeral)
    have rest4: "4 dvd length rest" using less.prems(2) bs by (simp add: dvd_def, presburger)
    let ?h = "bus_store B a (word_of_nat (of_le [b0, b1, b2, b3])) h"
    have end_u32: "PSRAM_BASE + PSRAM_STAGE_LEN < u32_lim" by (simp add: psram_defs u32_lim_def)
    have a4: "u32_add a 4 = a + 4" using less.prems(4) end_u32 bs by (intro u32_add_exact) simp
    have tail: "bus_load B x (store_words B (a + 4) rest ?h) =
        (if a + 4 \<le> x \<and> x < a + 4 + length rest then rest ! (x - (a + 4)) else bus_load B x ?h)"
      using less.prems bs rest4 by (intro less.hyps) auto
    have hd: "bus_load B x ?h = (if a \<le> x \<and> x < a + 4 then [b0, b1, b2, b3] ! (x - a) else bus_load B x h)"
      using load_store[of a x "word_of_nat (of_le [b0, b1, b2, b3])" h] less.prems bs
        word_of_bytes[of "[b0, b1, b2, b3]"] by simp
    have nth: "bs ! k = (if k < 4 then [b0, b1, b2, b3] ! k else rest ! (k - 4))" for k
      using nth_append[of "[b0, b1, b2, b3]" rest k] by (simp add: bs eval_nat_numeral)
    show ?thesis
    proof (cases "a \<le> x \<and> x < a + length bs")
      case True
      then show ?thesis using tail hd nth[of "x - a"] a4 bs by auto
    qed (use tail hd a4 bs in auto)
  qed auto
qed

definition mapped_cells :: "'h \<Rightarrow> bytes" where
  "mapped_cells h = map (\<lambda>i. bus_load B (PSRAM_BASE + i) h) [0 ..< PSRAM_STAGE_LEN]"

lemma length_mapped_cells [simp]: "length (mapped_cells h) = PSRAM_STAGE_LEN"
  by (simp add: mapped_cells_def)

lemma mapped_add: "a + b \<le> PSRAM_STAGE_LEN \<Longrightarrow> u32_add (u32_add PSRAM_BASE a) b = PSRAM_BASE + a + b"
  by (simp add: u32_add_exact psram_defs u32_lim_def)

lemma mapped_write_ok:
  assumes "4 dvd off" "4 dvd length bs" "off + length bs \<le> PSRAM_STAGE_LEN"
  shows "\<exists>h'. mapped_write True B off bs h = (Inr (), h') \<and> mapped_cells h' = patch (mapped_cells h) off bs"
proof -
  let ?h = "store_words B (u32_add PSRAM_BASE off) bs h"
  have a: "u32_add PSRAM_BASE off = PSRAM_BASE + off" using mapped_add[of off 0] assms(3)
    by (simp add: u32_add_def)
  have d: "4 dvd PSRAM_BASE + off" using assms(1) by (simp add: PSRAM_BASE_def dvd_add)
  have "mapped_cells ?h = patch (mapped_cells h) off bs"
    using assms(2,3) d by (intro nth_equalityI) (auto simp: nth_patch a mapped_cells_def store_words_load)
  then show ?thesis using assms
    by (auto simp: mapped_write_def check_write_ok[THEN iffD2])
qed

lemma mapped_read_ok:
  assumes "off + length out \<le> PSRAM_STAGE_LEN"
  shows "mapped_read True B off out h = (Inr (), window (mapped_cells h) off (length out), h)"
proof -
  have "map (\<lambda>i. bus_load B (u32_add (u32_add PSRAM_BASE off) i) h) [0 ..< length out] =
      window (mapped_cells h) off (length out)"
    using assms by (intro nth_equalityI) (auto simp: nth_window length_window mapped_add mapped_cells_def add.assoc)
  then show ?thesis using assms by (auto simp: mapped_read_def check_read_ok[THEN iffD2])
qed

lemma mapped_view_ok:
  assumes "len \<le> PSRAM_STAGE_LEN"
  shows "mapped_view True B len h = Inr (take len (mapped_cells h))"
proof -
  have "u32_add PSRAM_BASE i = PSRAM_BASE + i" if "i < len" for i
    using that assms mapped_add[of i 0] by (simp add: u32_add_def)
  then have "map (\<lambda>i. bus_load B (u32_add PSRAM_BASE i) h) [0 ..< len] = take len (mapped_cells h)"
    using assms by (intro nth_equalityI) (auto simp: mapped_cells_def)
  then show ?thesis using assms by (simp add: mapped_view_def PSRAM_STAGE_OFFSET_def check_read_ok[THEN iffD2])
qed

end

text \<open>A working bus makes the memory-mapped part a working staging RAM.\<close>

sublocale ram_bus \<subseteq> mapped: psram_ram "MappedPsram True B" mapped_cells "\<lambda>_. True"
  by standard (use mapped_write_ok mapped_read_ok mapped_view_ok in \<open>auto simp: MappedPsram_def\<close>)

text \<open>Plain memory, byte by byte, is such a bus.\<close>

definition mem_bus :: "(nat \<Rightarrow> u8) bus" where
  "mem_bus = \<lparr>bus_store = (\<lambda>a v m x. if a \<le> x \<and> x < a + 4 then le_bytes 4 (unat v) ! (x - a) else m x),
              bus_load = (\<lambda>x m. m x)\<rparr>"

interpretation plain: ram_bus mem_bus
  by standard (simp add: mem_bus_def)

subsection \<open>The burn length\<close>

lemma staged_burn_len_ok:
  "staged_burn_len staged = Inr len \<longleftrightarrow>
     length staged \<le> PSRAM_STAGE_LEN \<and> FW_HEADER_OFFSET + FW_HEADER_SIZE \<le> length staged \<and>
     len = of_le (window staged (FW_HEADER_OFFSET + FW_LENGTH_FIELD_OFFSET) 4) \<and>
     BURN_LEN_MIN \<le> len \<and> len \<le> BURN_LEN_MAX \<and> len \<le> length staged"
  by (auto simp: staged_burn_len_def Let_def psram_defs u32_lim_def split: option.splits if_splits)

lemma staged_burn_len_error:
  assumes "staged_burn_len staged = Inl e"
  shows "e = NotInStagingWindow \<and> PSRAM_STAGE_LEN < length staged \<or>
    e = HeaderUnreadable \<and> length staged < FW_HEADER_OFFSET + FW_HEADER_SIZE \<or>
    e \<in> {StageTooSmall, StageTooLarge, Truncated} \<and>
      \<not> (BURN_LEN_MIN \<le> of_le (window staged (FW_HEADER_OFFSET + FW_LENGTH_FIELD_OFFSET) 4) \<and>
         of_le (window staged (FW_HEADER_OFFSET + FW_LENGTH_FIELD_OFFSET) 4) \<le> BURN_LEN_MAX \<and>
         of_le (window staged (FW_HEADER_OFFSET + FW_LENGTH_FIELD_OFFSET) 4) \<le> length staged)"
  using assms
  by (auto simp: staged_burn_len_def Let_def psram_defs u32_lim_def split: option.splits if_splits)

end
