(* ===== verification/UpgradeCorrect.thy ===== *)
theory UpgradeCorrect
  imports Upgrade PsramCorrect KeypadMatrix
begin

text \<open>
  The staging machine against its specification: a collector that appends what arrives and judges
  the whole when it is complete, with no carry, cursor or memory. \<open>staging\<close> relates the two;
  each operation is a simulation step over any working staging RAM. The facts about the listener
  are read off the collector.
\<close>

subsection \<open>The specification\<close>

record collector =
  co_state :: stage_state
  co_expected :: bytes
  co_body :: bytes

definition collector_new :: collector where
  "collector_new = \<lparr>co_state = Idle, co_expected = replicate 32 0, co_body = []\<rparr>"

definition admissible :: "nat \<Rightarrow> bool" where
  "admissible sz \<longleftrightarrow> FW_BODY_ALIGN dvd sz \<and> FW_MIN_BODY_LEN \<le> sz \<and> sz \<le> BURN_LEN_MAX"

definition declared_len :: "bytes \<Rightarrow> nat" where
  "declared_len img = of_le (window img (FW_HEADER_OFFSET + FW_LENGTH_FIELD_OFFSET) 4)"

definition signed_part :: "bytes \<Rightarrow> bytes" where
  "signed_part img = take (FLASH_ISR_LEN - 64) img @ drop FLASH_ISR_LEN img"

definition verdict_on :: "(bytes \<Rightarrow> bytes) \<Rightarrow> bytes \<Rightarrow> bytes \<Rightarrow> refusal + unit" where
  "verdict_on H expected img =
     (if declared_len img \<noteq> length img then Inl LengthDisagreement
      else if H (signed_part img) \<noteq> expected then Inl Digest
      else Inr ())"

definition co_refuse :: "refusal \<Rightarrow> collector \<Rightarrow> (refusal + nat) \<times> collector" where
  "co_refuse why c = (Inl why, c\<lparr>co_state := Refused why\<rparr>)"

fun co_admit :: "upgrade_message \<Rightarrow> collector \<Rightarrow> (refusal + nat) \<times> collector" where
  "co_admit (PrepareUpgrade _ _) c = co_refuse Legacy c"
| "co_admit (PrepareUpgrade2 sz digest) c =
     (if \<not> FW_BODY_ALIGN dvd sz then co_refuse Unaligned c
      else if sz < FW_MIN_BODY_LEN then co_refuse TooSmall c
      else if BURN_LEN_MAX < sz then co_refuse TooLarge c
      else (Inr 0, \<lparr>co_state = Prepared sz, co_expected = digest, co_body = []\<rparr>))"
| "co_admit EnterUpgradeMode c =
     (case co_state c of
        Prepared sz \<Rightarrow> (Inr 0, c\<lparr>co_state := Streaming sz 0\<rparr>)
      | _ \<Rightarrow> co_refuse OutOfOrder c)"

definition co_feed :: "(bytes \<Rightarrow> bytes) \<Rightarrow> bytes \<Rightarrow> collector \<Rightarrow> (refusal + nat) \<times> collector" where
  "co_feed H bs c =
     (case co_state c of
        Streaming sz received \<Rightarrow>
         (if sz < received + length bs then co_refuse ExtraBytes c
          else let body = co_body c @ bs; owed = acks_at sz (length body) - acks_at sz received in
            if length body < sz then (Inr owed, c\<lparr>co_body := body, co_state := Streaming sz (length body)\<rparr>)
            else case verdict_on H (co_expected c) body of
                   Inl why \<Rightarrow> co_refuse why (c\<lparr>co_body := body\<rparr>)
                 | Inr _ \<Rightarrow> (Inr owed, c\<lparr>co_body := body, co_state := Staged sz\<rparr>))
      | _ \<Rightarrow> co_refuse OutOfOrder c)"

text \<open>Histories: what the coordinator's frames and raw bytes ask of the machine, in order.\<close>

datatype stage_event = Admit upgrade_message | Feed bytes

fun co_step :: "(bytes \<Rightarrow> bytes) \<Rightarrow> stage_event \<Rightarrow> collector \<Rightarrow> (refusal + nat) \<times> collector" where
  "co_step H (Admit m) c = co_admit m c"
| "co_step H (Feed bs) c = co_feed H bs c"

fun stager_step :: "(bytes \<Rightarrow> bytes) \<Rightarrow> 'p psram \<Rightarrow> stage_event \<Rightarrow> 'p stager \<Rightarrow> (refusal + nat) \<times> 'p stager" where
  "stager_step H P (Admit m) s = (case admit P m s of (Inl why, s') \<Rightarrow> (Inl why, s') | (Inr _, s') \<Rightarrow> (Inr 0, s'))"
| "stager_step H P (Feed bs) s = feed H P bs s"

fun history :: "('e \<Rightarrow> 's \<Rightarrow> 'r \<times> 's) \<Rightarrow> 'e list \<Rightarrow> 's \<Rightarrow> 'r list \<times> 's" where
  "history step [] s = ([], s)"
| "history step (e # es) s = (case step e s of (r, s1) \<Rightarrow> (case history step es s1 of (rs, s2) \<Rightarrow> (r # rs, s2)))"

definition reached :: "(bytes \<Rightarrow> bytes) \<Rightarrow> 'p psram \<Rightarrow> 'p stager \<Rightarrow> 'p stager \<Rightarrow> bool" where
  "reached H P s s' \<longleftrightarrow> (\<exists>es. snd (history (stager_step H P) es s) = s')"

subsection \<open>The relation\<close>

text \<open>The bytes of \<open>body\<close> that make whole words are in the RAM, the rest in the carry.\<close>

definition landed :: "('p \<Rightarrow> bytes) \<Rightarrow> 'p stager \<Rightarrow> bytes \<Rightarrow> bool" where
  "landed cells s body \<longleftrightarrow>
     sg_written s + sg_carry_len s = length body \<and> 4 dvd sg_written s \<and> sg_carry_len s < 4 \<and>
     length body \<le> length (cells (sg_psram s)) \<and>
     take (sg_written s) (cells (sg_psram s)) = take (sg_written s) body \<and>
     take (sg_carry_len s) (sg_carry s) = drop (sg_written s) body"

definition holder :: "('p \<Rightarrow> bytes) \<Rightarrow> ('p \<Rightarrow> bool) \<Rightarrow> 'p stager \<Rightarrow> bool" where
  "holder cells ok s \<longleftrightarrow>
     ok (sg_psram s) \<and> length (sg_carry s) = 4 \<and> BURN_LEN_MAX \<le> length (cells (sg_psram s))"

definition phase :: "('p \<Rightarrow> bytes) \<Rightarrow> 'p stager \<Rightarrow> collector \<Rightarrow> (bytes \<Rightarrow> bytes) \<Rightarrow> bool" where
  "phase cells s c H =
     (case co_state c of
        Prepared sz \<Rightarrow> admissible sz \<and> co_body c = [] \<and> landed cells s []
      | Streaming sz received \<Rightarrow>
          admissible sz \<and> received = length (co_body c) \<and> received < sz \<and> landed cells s (co_body c)
      | Staged sz \<Rightarrow>
          admissible sz \<and> length (co_body c) = sz \<and> take sz (cells (sg_psram s)) = co_body c \<and>
          verdict_on H (co_expected c) (co_body c) = Inr ()
      | _ \<Rightarrow> True)"

definition staging ::
  "('p \<Rightarrow> bytes) \<Rightarrow> ('p \<Rightarrow> bool) \<Rightarrow> (bytes \<Rightarrow> bytes) \<Rightarrow> 'p stager \<Rightarrow> collector \<Rightarrow> bool" where
  "staging cells ok H s c \<longleftrightarrow>
     holder cells ok s \<and> sg_state s = co_state c \<and> sg_expected s = co_expected c \<and> phase cells s c H"

lemma admissible_bounds:
  "admissible sz \<Longrightarrow> 4 dvd sz \<and> 16384 < sz \<and> sz \<le> BURN_LEN_MAX \<and> sz \<le> PSRAM_STAGE_LEN \<and> sz < u32_max"
  by (auto simp: admissible_def psram_defs u32_max_def elim: dvd_trans[rotated])

lemma staging_new:
  "ok p \<Longrightarrow> BURN_LEN_MAX \<le> length (cells p) \<Longrightarrow> staging cells ok H (stager_new p) collector_new"
  by (simp add: staging_def holder_def phase_def stager_new_def collector_new_def WRITE_ALIGN_def)

lemma staging_refuse:
  "staging cells ok H s c \<Longrightarrow> staging cells ok H (s\<lparr>sg_state := Refused why\<rparr>) (c\<lparr>co_state := Refused why\<rparr>)"
  by (simp add: staging_def holder_def phase_def)

lemma acks_mono: "r \<le> r' \<Longrightarrow> r' \<le> sz \<Longrightarrow> acks_at sz r \<le> acks_at sz r'"
  by (auto simp: acks_at_def FIRMWARE_UPGRADE_CHUNK_LEN_def div_le_mono)

lemma acks_last: "r < sz \<Longrightarrow> acks_at sz r < acks_at sz sz"
proof -
  assume "r < sz"
  then have "r div 4096 \<le> (sz - 1) div 4096" by (intro div_le_mono) simp
  moreover have "(sz + 4096 - 1) div 4096 = (sz - 1) div 4096 + 1" using \<open>r < sz\<close> by (simp add: div_add_self2[symmetric])
  ultimately show ?thesis using \<open>r < sz\<close> by (simp add: acks_at_def FIRMWARE_UPGRADE_CHUNK_LEN_def)
qed

subsection \<open>The verdict\<close>

lemma judge_verdict:
  assumes "admissible (length img)"
  shows "judge H (length img) expected (Inr img) = verdict_on H expected img"
proof -
  have sz: "16384 < length img" "length img \<le> BURN_LEN_MAX" "length img \<le> PSRAM_STAGE_LEN"
    "FW_MIN_BODY_LEN \<le> length img" "FW_BODY_ALIGN dvd length img"
    using assms admissible_bounds[OF assms] by (auto simp: admissible_def)
  have d: "of_le (window img (FW_HEADER_OFFSET + FW_LENGTH_FIELD_OFFSET) 4) = declared_len img"
    by (simp add: declared_len_def)
  show ?thesis
  proof (cases "declared_len img = length img")
    case True
    have "staged_burn_len img = Inr (length img)"
      using sz d True by (simp add: staged_burn_len_ok) (simp add: psram_defs)
    moreover have "of_le (window (window img FW_HEADER_OFFSET FW_HEADER_SIZE) 24 4) = length img"
      using d True window_window[of 24 4 FW_HEADER_SIZE img FW_HEADER_OFFSET]
      by (simp add: FW_HEADER_SIZE_def FW_LENGTH_FIELD_OFFSET_def)
    then have "firmware_digest H img = Some (H (signed_part img))"
      using sz by (simp add: firmware_digest_def Let_def signed_part_def window_def dvd_eq_mod_eq_0)
        (simp add: psram_defs)
    ultimately show ?thesis using True by (simp add: judge_def verdict_on_def)
  next
    case False
    show ?thesis
    proof (cases "staged_burn_len img")
      case (Inl e)
      have "e \<in> {StageTooSmall, StageTooLarge, Truncated}"
        using staged_burn_len_error[OF Inl] sz by (auto simp: psram_defs)
      then show ?thesis using False Inl by (simp add: judge_def verdict_on_def)
    next
      case (Inr n)
      then have "n = declared_len img" using d by (simp add: staged_burn_len_ok)
      then show ?thesis using False Inr by (simp add: judge_def verdict_on_def)
    qed
  qed
qed

subsection \<open>One write, then the carry and the words\<close>

lemma landed_bounds: "landed cells s body \<Longrightarrow> sg_written s \<le> length body"
  by (simp add: landed_def)

text \<open>A body of whole words leaves nothing in the carry.\<close>

lemma whole_words:
  assumes "landed cells s body" "4 dvd length body"
  shows "take (length body) (cells (sg_psram s)) = body"
proof -
  have "4 dvd sg_carry_len s" using assms by (metis dvd_add_right_iff landed_def)
  then have "sg_carry_len s = 0" using assms(1) by (auto simp: landed_def dvd_def)
  then show ?thesis using assms(1) by (auto simp: landed_def)
qed

lemma landed_length: "landed cells s body \<Longrightarrow> sg_carry_len s = length body - sg_written s"
  by (auto simp: landed_def)

context psram_ram
begin

lemma put_ok:
  assumes "ok (sg_psram s)" "4 dvd sg_written s" "4 dvd length w"
    and "sg_written s + length w \<le> length (cells (sg_psram s))"
  shows "\<exists>p'. put P w s = (Inr (), s\<lparr>sg_psram := p', sg_written := sg_written s + length w\<rparr>) \<and> ok p' \<and>
    cells p' = patch (cells (sg_psram s)) (sg_written s) w"
proof -
  have cap: "sg_written s + length w < u32_lim"
    using capacity[OF assms(1)] assms(4) by (simp add: psram_defs u32_lim_def)
  have at: "u32_add PSRAM_STAGE_OFFSET (sg_written s) = sg_written s"
    using cap by (simp add: PSRAM_STAGE_OFFSET_def u32_add_def u32_lim_def)
  obtain p' where "ps_write P (sg_written s) w (sg_psram s) = (Inr (), p')" "ok p'"
    "cells p' = patch (cells (sg_psram s)) (sg_written s) w"
    using write_ok[OF assms] by blast
  then show ?thesis using cap by (intro exI[of _ p']) (simp add: put_def at u32_add_exact)
qed

text \<open>Writing the word or words that follow what has landed.\<close>

lemma put_lands:
  assumes "holder cells ok s" "4 dvd sg_written s" "4 dvd length w" "w = drop (sg_written s) (body @ bs)"
    and "sg_written s \<le> length body" "take (sg_written s) (cells (sg_psram s)) = take (sg_written s) body"
    and "length (body @ bs) \<le> length (cells (sg_psram s))"
  shows "\<exists>s'. put P w s = (Inr (), s') \<and> holder cells ok s' \<and> landed cells (s'\<lparr>sg_carry_len := 0\<rparr>) (body @ bs) \<and>
    length (cells (sg_psram s')) = length (cells (sg_psram s)) \<and>
    sg_state s' = sg_state s \<and> sg_expected s' = sg_expected s"
proof -
  let ?C = "cells (sg_psram s)"
  have w: "sg_written s + length w = length (body @ bs)"
    using assms(4,5) by simp
  obtain p' where p: "put P w s = (Inr (), s\<lparr>sg_psram := p', sg_written := sg_written s + length w\<rparr>)" "ok p'"
      "cells p' = patch ?C (sg_written s) w"
    using put_ok[of s w] assms w by (auto simp: holder_def)
  have "take (sg_written s + length w) (cells p') = take (sg_written s) ?C @ w"
    using w assms(7) by (simp add: p(3) patch_def)
  also have "\<dots> = body @ bs"
    using assms(4,5,6) by simp
  finally have "take (sg_written s + length w) (cells p') = body @ bs" .
  note taken = this
  have len: "length (cells p') = length ?C" using w assms(7) by (simp add: p(3))
  have dvd: "4 dvd length (body @ bs)" using w assms(2,3) by (metis dvd_add)
  let ?s = "s\<lparr>sg_psram := p', sg_written := sg_written s + length w\<rparr>"
  have "holder cells ok ?s" using assms(1) p(2) len by (simp add: holder_def)
  moreover have "landed cells (?s\<lparr>sg_carry_len := 0\<rparr>) (body @ bs)"
    using taken dvd assms(7) len w by (simp add: landed_def)
  ultimately show ?thesis using p(1) len by (intro exI[of _ ?s]) simp
qed

text \<open>Step 1: either the carry takes all there is, or it is empty afterwards.\<close>

lemma feed_carry_ok:
  assumes h: "holder cells ok s" and l: "landed cells s body"
    and fits: "length (body @ bs) \<le> length (cells (sg_psram s))"
  shows "\<exists>pre rest s'. feed_carry P bs s = (Inr rest, s') \<and> bs = pre @ rest \<and> (rest = [] \<or> sg_carry_len s' = 0) \<and>
    holder cells ok s' \<and> landed cells s' (body @ pre) \<and>
    length (cells (sg_psram s')) = length (cells (sg_psram s)) \<and>
    sg_state s' = sg_state s \<and> sg_expected s' = sg_expected s"
proof (cases "sg_carry_len s = 0")
  case True
  then show ?thesis using h l by (intro exI[of _ "[]"] exI[of _ bs] exI[of _ s]) (simp add: feed_carry_def)
next
  case False
  define k where "k = min (4 - sg_carry_len s) (length bs)"
  let ?pre = "take k bs" and ?rest = "drop k bs"
  let ?s1 = "s\<lparr>sg_carry := patch (sg_carry s) (sg_carry_len s) ?pre, sg_carry_len := sg_carry_len s + k\<rparr>"
  have c: "length (sg_carry s) = 4" "sg_carry_len s < 4" using h l by (auto simp: holder_def landed_def)
  have k: "length ?pre = k" "sg_carry_len s + k \<le> 4" using c by (auto simp: k_def)
  have lb: "length body = sg_written s + sg_carry_len s" using l by (simp add: landed_def)
  have carry: "take (sg_carry_len s + k) (sg_carry ?s1) = drop (sg_written s) (body @ ?pre)"
    using l c k lb by (simp add: patch_def landed_def)
  have h1: "holder cells ok ?s1" using h k c by (simp add: holder_def)
  have step: "feed_carry P bs s =
      (if sg_carry_len s + k = 4 then
         (case put P (sg_carry ?s1) ?s1 of
            (Inl e, s2) \<Rightarrow> (Inl e, s2) | (Inr _, s2) \<Rightarrow> (Inr ?rest, s2\<lparr>sg_carry_len := 0\<rparr>))
       else (Inr ?rest, ?s1))"
    using False unfolding feed_carry_def Let_def WRITE_ALIGN_def k_def[symmetric] by simp
  have fits1: "length (body @ ?pre) \<le> length (cells (sg_psram s))" using fits by simp
  show ?thesis
  proof (cases "sg_carry_len s + k = 4")
    case True
    have four: "length (sg_carry ?s1) = 4" using k c by simp
    have w: "sg_carry ?s1 = drop (sg_written s) (body @ ?pre)"
      using carry four True by simp
    obtain s2 where s2: "put P (sg_carry ?s1) ?s1 = (Inr (), s2)" "holder cells ok s2"
        "landed cells (s2\<lparr>sg_carry_len := 0\<rparr>) (body @ ?pre)"
        "length (cells (sg_psram s2)) = length (cells (sg_psram s))"
        "sg_state s2 = sg_state s" "sg_expected s2 = sg_expected s"
      using put_lands[of ?s1 "sg_carry ?s1" body ?pre] h1 w four l fits1 by (auto simp: landed_def)
    then show ?thesis using step True
      by (intro exI[of _ ?pre] exI[of _ ?rest] exI[of _ "s2\<lparr>sg_carry_len := 0\<rparr>"]) (simp add: holder_def)
  next
    case short: False
    then have "k = length bs" using k by (auto simp: k_def min_def split: if_splits)
    moreover have "landed cells ?s1 (body @ ?pre)"
      using l short k fits1 carry by (simp add: landed_def)
    ultimately show ?thesis using step short h1
      by (intro exI[of _ ?pre] exI[of _ ?rest] exI[of _ ?s1]) simp
  qed
qed

text \<open>Steps 2 and 3, once the carry is empty or nothing is left.\<close>

lemma feed_words_ok:
  assumes h: "holder cells ok s" and l: "landed cells s body"
    and fits: "length (body @ rest) \<le> length (cells (sg_psram s))"
    and empty: "rest = [] \<or> sg_carry_len s = 0"
  shows "\<exists>s'. feed_words P rest s = (Inr (), s') \<and> holder cells ok s' \<and> landed cells s' (body @ rest) \<and>
    length (cells (sg_psram s')) = length (cells (sg_psram s)) \<and>
    sg_state s' = sg_state s \<and> sg_expected s' = sg_expected s"
proof (cases "rest = []")
  case True
  then show ?thesis using h l by (intro exI[of _ s]) (simp add: feed_words_def)
next
  case False
  define n where "n = length rest - length rest mod 4"
  let ?w = "take n rest" and ?t = "drop n rest"
  have n: "n \<le> length rest" "4 dvd n" "length ?t < 4" by (simp_all add: n_def minus_mod_eq_mult_div)
  have c0: "sg_carry_len s = 0" using empty False by simp
  have at: "sg_written s = length body" "4 dvd length body" using l c0 by (auto simp: landed_def)
  have "\<exists>s1. (if 0 < n then put P ?w s else (Inr (), s)) = (Inr (), s1) \<and> holder cells ok s1 \<and>
      landed cells (s1\<lparr>sg_carry_len := 0\<rparr>) (body @ ?w) \<and>
      length (cells (sg_psram s1)) = length (cells (sg_psram s)) \<and>
      sg_state s1 = sg_state s \<and> sg_expected s1 = sg_expected s"
  proof (cases "0 < n")
    case True
    then show ?thesis using put_lands[of s ?w body ?w] h l n fits at by (simp add: landed_def)
  next
    case zero: False
    then show ?thesis using h l c0 by (intro exI[of _ s]) (auto simp: landed_def)
  qed
  then obtain s1 where s1: "(if 0 < n then put P ?w s else (Inr (), s)) = (Inr (), s1)" "holder cells ok s1"
      "landed cells (s1\<lparr>sg_carry_len := 0\<rparr>) (body @ ?w)"
      "length (cells (sg_psram s1)) = length (cells (sg_psram s))"
      "sg_state s1 = sg_state s" "sg_expected s1 = sg_expected s"
    by blast
  let ?s = "s1\<lparr>sg_carry := patch (sg_carry s1) 0 ?t, sg_carry_len := length ?t\<rparr>"
  have "feed_words P rest s = (Inr (), ?s)"
    using False s1(1) by (simp add: feed_words_def Let_def WRITE_ALIGN_def flip: n_def)
  moreover have "holder cells ok ?s" using s1(2) n(3) by (simp add: holder_def)
  moreover have "landed cells ?s (body @ rest)"
  proof -
    have written: "sg_written s1 = length (body @ ?w)" using s1(3) by (simp add: landed_def)
    have "take (length ?t) (patch (sg_carry s1) 0 ?t) = ?t" by (simp add: patch_def)
    moreover have "body @ rest = (body @ ?w) @ ?t" by simp
    ultimately show ?thesis using s1(3,4) n fits written by (simp add: landed_def)
  qed
  ultimately show ?thesis using s1 by (intro exI[of _ ?s]) simp
qed

lemma feed_lands:
  assumes "holder cells ok s" "landed cells s body" "length (body @ bs) \<le> length (cells (sg_psram s))"
  obtains rest s1 s2 where "feed_carry P bs s = (Inr rest, s1)" "feed_words P rest s1 = (Inr (), s2)"
    "holder cells ok s2" "landed cells s2 (body @ bs)" "sg_expected s2 = sg_expected s"
proof -
  obtain pre rest s1 where a: "feed_carry P bs s = (Inr rest, s1)" "bs = pre @ rest" "rest = [] \<or> sg_carry_len s1 = 0"
      "holder cells ok s1" "landed cells s1 (body @ pre)"
      "length (cells (sg_psram s1)) = length (cells (sg_psram s))" "sg_expected s1 = sg_expected s"
    using feed_carry_ok[OF assms] by blast
  obtain s2 where "feed_words P rest s1 = (Inr (), s2)" "holder cells ok s2" "landed cells s2 ((body @ pre) @ rest)"
      "sg_expected s2 = sg_expected s1"
    using feed_words_ok[OF a(4,5) _ a(3)] a(2,6) assms(3) by auto
  then show thesis using that a by simp
qed

subsection \<open>The simulation\<close>

lemma admit_simulates:
  assumes "staging cells ok H s c"
  shows "\<exists>r s' c'. stager_step H P (Admit m) s = (r, s') \<and> co_step H (Admit m) c = (r, c') \<and> staging cells ok H s' c'"
proof (cases m)
  case (PrepareUpgrade sz d)
  then show ?thesis using staging_refuse[OF assms] by (simp add: refuse_def co_refuse_def)
next
  case EnterUpgradeMode
  show ?thesis
  proof (cases "co_state c")
    case (Prepared sz)
    then show ?thesis using EnterUpgradeMode assms admissible_bounds[of sz]
      by (auto simp: staging_def phase_def holder_def landed_def)
  qed (use EnterUpgradeMode assms staging_refuse[OF assms] in \<open>auto simp: refuse_def co_refuse_def staging_def\<close>)
next
  case (PrepareUpgrade2 sz d)
  let ?s = "s\<lparr>sg_state := Idle, sg_written := 0, sg_carry_len := 0\<rparr>"
  have no: "staging cells ok H (?s\<lparr>sg_state := Refused why\<rparr>) (c\<lparr>co_state := Refused why\<rparr>)" for why
    using assms by (simp add: staging_def holder_def phase_def)
  show ?thesis
  proof (cases "admissible sz")
    case False
    then show ?thesis using PrepareUpgrade2 no
      by (auto simp: admissible_def refuse_def co_refuse_def Let_def dvd_eq_mod_eq_0)
  next
    case True
    have h: "ok (sg_psram s)" "sz \<le> length (cells (sg_psram s))"
      using assms admissible_bounds[OF True] by (auto simp: staging_def holder_def)
    obtain p where p: "readback_selftest P PSRAM_STAGE_OFFSET sz (sg_psram s) = (Inr (), p)" "ok p"
        "cells p = patch (cells (sg_psram s)) 0 (pattern 0 sz)"
      using selftest_ok[OF h(1), of 0 sz] admissible_bounds[OF True] h(2)
      by (auto simp: PSRAM_STAGE_OFFSET_def)
    let ?s' = "?s\<lparr>sg_psram := p, sg_expected := d, sg_state := Prepared sz\<rparr>"
    have "staging cells ok H ?s' \<lparr>co_state = Prepared sz, co_expected = d, co_body = []\<rparr>"
      using assms p h True by (simp add: staging_def holder_def phase_def landed_def)
    then show ?thesis using PrepareUpgrade2 True p(1)
      by (auto simp: admissible_def Let_def dvd_eq_mod_eq_0)
  qed
qed

lemma feed_simulates:
  assumes "staging cells ok H s c"
  shows "\<exists>r s' c'. stager_step H P (Feed bs) s = (r, s') \<and> co_step H (Feed bs) c = (r, c') \<and> staging cells ok H s' c'"
proof (cases "\<exists>sz received. co_state c = Streaming sz received")
  case False
  then show ?thesis using assms staging_refuse[OF assms]
    by (cases "co_state c") (auto simp: feed_def co_feed_def refuse_def co_refuse_def staging_def)
next
  case True
  then obtain sz where st: "co_state c = Streaming sz (length (co_body c))" "admissible sz"
      "length (co_body c) < sz" "landed cells s (co_body c)" "holder cells ok s"
      "sg_state s = co_state c" "sg_expected s = co_expected c"
    using assms by (auto simp: staging_def phase_def)
  note sz = admissible_bounds[OF st(2)]
  have over: "u32_lim \<le> length bs \<or> sz < u32_sat_add (length (co_body c)) (length bs) \<longleftrightarrow>
      sz < length (co_body c) + length bs"
    using sz by (auto simp: u32_sat_add_def u32_max_def u32_lim_def)
  show ?thesis
  proof (cases "sz < length (co_body c) + length bs")
    case True
    then show ?thesis using st over staging_refuse[OF assms]
      by (auto simp: feed_def co_feed_def refuse_def co_refuse_def)
  next
    case False
    let ?body = "co_body c @ bs" and ?n = "length (co_body c) + length bs"
    have cap: "sz \<le> length (cells (sg_psram s))" using st(5) sz by (simp add: holder_def)
    have "length ?body \<le> length (cells (sg_psram s))" using False cap by simp
    then obtain rest s1 s2 where f: "feed_carry P bs s = (Inr rest, s1)" "feed_words P rest s1 = (Inr (), s2)"
        "holder cells ok s2" "landed cells s2 ?body" "sg_expected s2 = sg_expected s"
      using feed_lands[OF st(5,4)] by blast
    have add: "u32_add (length (co_body c)) (length bs) = ?n"
      using False sz by (simp add: u32_add_exact u32_max_def u32_lim_def)
    let ?s3 = "s2\<lparr>sg_state := Streaming sz ?n\<rparr>"
    let ?owed = "acks_at sz ?n - acks_at sz (length (co_body c))"
    have feed: "feed H P bs s =
        (if ?n = sz then (case verify H P ?s3 of (Inl e, s4) \<Rightarrow> (Inl e, s4) | (Inr _, s4) \<Rightarrow> (Inr ?owed, s4))
         else (Inr ?owed, ?s3))"
      using st(1,6) over False f(1,2) by (simp add: feed_def add Let_def)
    show ?thesis
    proof (cases "?n = sz")
      case short: False
      have "staging cells ok H ?s3 (c\<lparr>co_body := ?body, co_state := Streaming sz ?n\<rparr>)"
        using st(2,7) f False short by (simp add: staging_def holder_def phase_def landed_def)
      then show ?thesis using feed short False st(1) by (auto simp: co_feed_def Let_def)
    next
      case full: True
      have view: "ps_view P sz (sg_psram s2) = Inr ?body"
        using view_ok[of "sg_psram s2" sz] f(3) whole_words[OF f(4)] full sz by (auto simp: holder_def)
      have v: "judge H sz (sg_expected s2) (ps_view P sz (sg_psram s2)) = verdict_on H (co_expected c) ?body"
        using judge_verdict[of ?body H] st(2,7) full f(5) by (simp add: view)
      show ?thesis
      proof (cases "verdict_on H (co_expected c) ?body")
        case (Inl why)
        have "staging cells ok H (?s3\<lparr>sg_state := Refused why\<rparr>) (c\<lparr>co_body := ?body, co_state := Refused why\<rparr>)"
          using st(7) f by (simp add: staging_def holder_def phase_def)
        then show ?thesis using feed full st(1) v Inl
          by (auto simp: co_feed_def Let_def verify_def refuse_def co_refuse_def)
      next
        case (Inr u)
        have "take sz (cells (sg_psram s2)) = ?body" using view view_ok[of "sg_psram s2" sz] f(3) sz
          by (simp add: holder_def)
        then have "staging cells ok H (?s3\<lparr>sg_state := Staged sz\<rparr>) (c\<lparr>co_body := ?body, co_state := Staged sz\<rparr>)"
          using st(2,7) f full Inr by (simp add: staging_def holder_def phase_def)
        then show ?thesis using feed full st(1) v Inr
          by (auto simp: co_feed_def Let_def verify_def)
      qed
    qed
  qed
qed

lemma step_simulates:
  assumes "staging cells ok H s c"
  obtains r s' c' where "stager_step H P e s = (r, s')" "co_step H e c = (r, c')" "staging cells ok H s' c'"
  using admit_simulates[OF assms] feed_simulates[OF assms] by (cases e) metis+

lemma history_simulates:
  "staging cells ok H s c \<Longrightarrow>
   \<exists>rs s' c'. history (stager_step H P) es s = (rs, s') \<and> history (co_step H) es c = (rs, c') \<and>
     staging cells ok H s' c'"
proof (induction es arbitrary: s c)
  case (Cons e es)
  obtain r s1 c1 where 1: "stager_step H P e s = (r, s1)" "co_step H e c = (r, c1)" "staging cells ok H s1 c1"
    by (rule step_simulates[OF Cons.prems])
  with Cons.IH[OF 1(3)] show ?case by auto
qed simp

lemma reached_staging:
  assumes "reached H P (stager_new p) s'" "ok p" "BURN_LEN_MAX \<le> length (cells p)"
  obtains es c where "snd (history (stager_step H P) es (stager_new p)) = s'"
    "snd (history (co_step H) es collector_new) = c" "staging cells ok H s' c"
proof -
  obtain es where es: "snd (history (stager_step H P) es (stager_new p)) = s'"
    using assms(1) by (auto simp: reached_def)
  show thesis
    using history_simulates[OF staging_new[where cells = cells and ok = ok, OF assms(2,3)], of H es] es that[of es]
    by auto
qed

subsection \<open>A transfer, however it is cut\<close>

text \<open>An announcement is accepted from any state; what the carry held is forgotten.\<close>

lemma announced_transfer:
  assumes "ok (sg_psram s0)" "length (sg_carry s0) = 4" "BURN_LEN_MAX \<le> length (cells (sg_psram s0))" "admissible sz"
  obtains s1 s2 where "admit P (PrepareUpgrade2 sz d) s0 = (Inr (), s1)" "admit P EnterUpgradeMode s1 = (Inr (), s2)"
    "staging cells ok H s2 \<lparr>co_state = Streaming sz 0, co_expected = d, co_body = []\<rparr>"
proof -
  let ?c0 = "\<lparr>co_state = Idle, co_expected = sg_expected s0, co_body = []\<rparr>"
  let ?c1 = "\<lparr>co_state = Prepared sz, co_expected = d, co_body = []\<rparr>"
  have 0: "staging cells ok H (s0\<lparr>sg_state := Idle\<rparr>) ?c0"
    using assms by (simp add: staging_def holder_def phase_def)
  have same: "admit P (PrepareUpgrade2 sz d) (s0\<lparr>sg_state := Idle\<rparr>) = admit P (PrepareUpgrade2 sz d) s0"
    by simp
  have co: "co_step H (Admit (PrepareUpgrade2 sz d)) ?c0 = (Inr 0, ?c1)"
    using assms(4) by (simp add: admissible_def)
  obtain s1 where s1: "admit P (PrepareUpgrade2 sz d) s0 = (Inr (), s1)" "staging cells ok H s1 ?c1"
    using admit_simulates[OF 0, of "PrepareUpgrade2 sz d"] unfolding co stager_step.simps same
    by (auto split: prod.splits sum.splits)
  obtain s2 where "admit P EnterUpgradeMode s1 = (Inr (), s2)"
      "staging cells ok H s2 \<lparr>co_state = Streaming sz 0, co_expected = d, co_body = []\<rparr>"
    using admit_simulates[OF s1(2), of EnterUpgradeMode] by (auto split: prod.splits sum.splits)
  with s1 that show thesis by blast
qed

lemma transfer_ends:
  "staging cells ok H s c \<Longrightarrow> co_state c = Streaming sz (length (co_body c)) \<Longrightarrow>
   co_body c @ concat ps = img \<Longrightarrow> length img = sz \<Longrightarrow> ps = [] \<or> last ps \<noteq> [] \<Longrightarrow>
   \<exists>s' n. (case verdict_on H (co_expected c) img of
       Inr _ \<Rightarrow> listen H dec inner P ps s l = (OutStaged sz, replicate n [FIRMWARE_NEXT_CHUNK_READY_SIGNAL], s') \<and>
         n = acks_at sz sz - acks_at sz (length (co_body c)) \<and> sg_state s' = Staged sz \<and>
         take sz (cells (sg_psram s')) = img
     | Inl why \<Rightarrow> listen H dec inner P ps s l = (OutClosed, replicate n [FIRMWARE_NEXT_CHUNK_READY_SIGNAL], s') \<and>
         n < acks_at sz sz - acks_at sz (length (co_body c)) \<and> sg_state s' = Refused why)"
proof (induction ps arbitrary: s c)
  case Nil
  then show ?case by (auto simp: staging_def phase_def)
next
  case (Cons p ps)
  obtain r s1 c1 where 1: "feed H P p s = (r, s1)" "co_feed H p c = (r, c1)" "staging cells ok H s1 c1"
    using step_simulates[OF Cons.prems(1), of "Feed p"] by auto
  have st: "is_streaming s" "sg_state s1 = co_state c1" "length (co_body c) < sz"
    using Cons.prems(1,2) 1(3) by (auto simp: is_streaming_def staging_def phase_def)
  let ?b = "co_body c @ p"
  have le: "length ?b \<le> sz" using Cons.prems(3,4) by auto
  have mono: "acks_at sz (length (co_body c)) \<le> acks_at sz (length ?b)" "acks_at sz (length ?b) \<le> acks_at sz sz"
    "acks_at sz (length (co_body c)) < acks_at sz sz"
    using st(3) le by (auto intro: acks_mono acks_last)
  show ?case
  proof (cases "length ?b < sz")
    case True
    have c1: "c1 = c\<lparr>co_body := ?b, co_state := Streaming sz (length ?b)\<rparr>"
        "r = Inr (acks_at sz (length ?b) - acks_at sz (length (co_body c)))"
      using 1(2) Cons.prems(2) True by (auto simp: co_feed_def Let_def)
    have "ps \<noteq> []" using Cons.prems(3,4) True by auto
    then obtain s' n where rec: "case verdict_on H (co_expected c1) img of
        Inr _ \<Rightarrow> listen H dec inner P ps s1 l = (OutStaged sz, replicate n [FIRMWARE_NEXT_CHUNK_READY_SIGNAL], s') \<and>
          n = acks_at sz sz - acks_at sz (length (co_body c1)) \<and> sg_state s' = Staged sz \<and>
          take sz (cells (sg_psram s')) = img
      | Inl why \<Rightarrow> listen H dec inner P ps s1 l = (OutClosed, replicate n [FIRMWARE_NEXT_CHUNK_READY_SIGNAL], s') \<and>
          n < acks_at sz sz - acks_at sz (length (co_body c1)) \<and> sg_state s' = Refused why"
      using Cons.IH[OF 1(3)] Cons.prems(3-5) c1 by auto
    define owed where "owed = acks_at sz (length ?b) - acks_at sz (length (co_body c))"
    have step: "listen H dec inner P (p # ps) s l = (case listen H dec inner P ps s1 l of
        (fin, later, s2) \<Rightarrow> (fin, replicate owed [FIRMWARE_NEXT_CHUNK_READY_SIGNAL] @ later, s2))"
      using st(1,2) 1(1) c1 by (simp add: owed_def)
    have cat: "replicate owed x @ replicate m x = replicate (owed + m) x" for x :: bytes and m
      by (rule replicate_add[symmetric])
    have sum: "owed + (acks_at sz sz - acks_at sz (length (co_body c1))) = acks_at sz sz - acks_at sz (length (co_body c))"
      using mono c1(1) by (simp add: owed_def)
    show ?thesis
    proof (cases "verdict_on H (co_expected c) img")
      case (Inl why)
      then show ?thesis using rec c1(1) sum
        by (intro exI[of _ s'] exI[of _ "owed + n"]) (simp add: step cat del: listen.simps)
    next
      case (Inr u)
      then show ?thesis using rec c1(1) sum
        by (intro exI[of _ s'] exI[of _ "owed + n"]) (simp add: step cat del: listen.simps)
    qed
  next
    case False
    then have full: "length ?b = sz" "?b = img" "ps = []"
      using le Cons.prems(3,4,5) by (auto split: if_splits)
    show ?thesis
    proof (cases "verdict_on H (co_expected c) img")
      case (Inl why)
      then have "r = Inl why" "co_state c1 = Refused why"
        using 1(2) Cons.prems(2) full by (auto simp: co_feed_def co_refuse_def Let_def)
      then show ?thesis using Inl full(3) st 1(1) mono by (intro exI[of _ s1] exI[of _ 0]) simp
    next
      case (Inr u)
      let ?owed = "acks_at sz sz - acks_at sz (length (co_body c))"
      have r: "r = Inr ?owed" "co_state c1 = Staged sz" "co_body c1 = img"
        using 1(2) Cons.prems(2) full Inr by (auto simp: co_feed_def Let_def)
      then have "take sz (cells (sg_psram s1)) = img" using 1(3) by (simp add: staging_def phase_def)
      then show ?thesis using Inr full(3) st 1(1) r by (intro exI[of _ s1] exI[of _ ?owed]) simp
    qed
  qed
qed

end

subsection \<open>What staged means\<close>

lemma burn_gate:
  assumes "admissible (length img)" "declared_len img = length img"
  shows "check_burn_len img n = Inr m \<longleftrightarrow> n = length img \<and> m = length img"
    and "BURN_BASE + length img \<le> FLASH_FS_BASE"
proof -
  have "staged_burn_len img = Inr (length img)"
    using assms admissible_bounds[OF assms(1)]
    by (simp add: staged_burn_len_ok admissible_def BURN_LEN_MIN_def declared_len_def)
       (simp add: psram_defs)
  then show "check_burn_len img n = Inr m \<longleftrightarrow> n = length img \<and> m = length img"
    by (auto simp: check_burn_len_def)
  show "BURN_BASE + length img \<le> FLASH_FS_BASE"
    using assms(1) by (simp add: admissible_def psram_defs)
qed

lemma staged_image:
  assumes "staging cells ok H s c" "sg_state s = Staged sz"
  obtains img where "take sz (cells (sg_psram s)) = img" "length img = sz" "admissible (length img)"
    "declared_len img = length img" "H (signed_part img) = sg_expected s"
proof -
  have "co_state c = Staged sz" using assms by (simp add: staging_def)
  then show thesis using assms(1) that[of "co_body c"]
    by (auto simp: staging_def phase_def verdict_on_def split: if_splits)
qed

subsection \<open>Histories of the collector\<close>

text \<open>The size and digest in force were announced.\<close>

definition in_force :: "collector \<Rightarrow> (nat \<times> bytes) set" where
  "in_force c =
     (case co_state c of
        Prepared sz \<Rightarrow> {(sz, co_expected c)}
      | Streaming sz _ \<Rightarrow> {(sz, co_expected c)}
      | Staged sz \<Rightarrow> {(sz, co_expected c)}
      | _ \<Rightarrow> {})"

lemma in_force_step:
  "co_step H e c = (r, c') \<Longrightarrow>
   in_force c' \<subseteq> in_force c \<union> {(sz, d). e = Admit (PrepareUpgrade2 sz d)}"
  by (cases e)
     (auto simp: in_force_def co_feed_def co_refuse_def Let_def
        elim!: co_admit.elims split: stage_state.splits if_splits sum.splits)

lemma in_force_announced:
  "history (co_step H) es c = (rs, c') \<Longrightarrow>
   in_force c' \<subseteq> in_force c \<union> {(sz, d). Admit (PrepareUpgrade2 sz d) \<in> set es}"
proof (induction es arbitrary: c rs)
  case (Cons e es)
  obtain r c1 where 1: "co_step H e c = (r, c1)" by (rule prod.exhaust)
  obtain rs1 where "history (co_step H) es c1 = (rs1, c')" using Cons.prems 1 by (auto split: prod.splits)
  from Cons.IH[OF this] in_force_step[OF 1] show ?case by auto
qed auto

subsection \<open>The listener\<close>

lemma history_append:
  "history step (xs @ ys) s =
     (case history step xs s of (rs, s1) \<Rightarrow> (case history step ys s1 of (rs', s2) \<Rightarrow> (rs @ rs', s2)))"
  by (induction xs arbitrary: s) (auto split: prod.splits)

lemma reached_refl [simp]: "reached H P s s"
  unfolding reached_def by (rule exI[of _ "[]"]) simp

lemma reached_trans: "reached H P s s1 \<Longrightarrow> reached H P s1 s2 \<Longrightarrow> reached H P s s2"
proof -
  assume "reached H P s s1" "reached H P s1 s2"
  then obtain es fs where "snd (history (stager_step H P) es s) = s1" "snd (history (stager_step H P) fs s1) = s2"
    by (auto simp: reached_def)
  then have "snd (history (stager_step H P) (es @ fs) s) = s2"
    by (auto simp: history_append split: prod.splits)
  then show ?thesis unfolding reached_def by blast
qed

lemma reached_step: "reached H P s (snd (stager_step H P e s))"
  unfolding reached_def by (rule exI[of _ "[e]"]) (simp split: prod.splits)

lemma reached_admit: "reached H P s (snd (admit P m s))"
  using reached_step[of H P s "Admit m"] by (cases "admit P m s"; cases "fst (admit P m s)") simp_all

definition not_staged :: "'p stager \<Rightarrow> bool" where
  "not_staged s \<longleftrightarrow> (\<forall>sz. sg_state s \<noteq> Staged sz)"

lemma admit_not_staged: "not_staged s \<Longrightarrow> not_staged (snd (admit P m s))"
  by (cases m) (auto simp: not_staged_def refuse_def Let_def split: prod.splits sum.splits stage_state.splits)

lemma on_frame_reached:
  "not_staged (snd st) \<Longrightarrow> not_staged (snd (on_frame inner P st f)) \<and> reached H P (snd st) (snd (on_frame inner P st f))"
proof (induction inner P st f rule: on_frame.induct)
  case (2 inner P reply s body)
  then show ?case using admit_not_staged[of s P] reached_admit[of H P s]
    by (auto split: sum.splits send_body.splits)
qed auto

lemma frames_reached:
  "not_staged (snd st) \<Longrightarrow>
   not_staged (snd (foldl (on_frame inner P) st fs)) \<and> reached H P (snd st) (snd (foldl (on_frame inner P) st fs))"
proof (induction fs arbitrary: st)
  case (Cons f fs)
  note 1 = on_frame_reached[OF Cons.prems, of inner P f H]
  with Cons.IH[of "on_frame inner P st f"] reached_trans[OF 1[THEN conjunct2]] show ?case by simp
qed simp

lemma feed_words_state: "feed_words P rest s = (r, s') \<Longrightarrow> sg_state s' = sg_state s"
  by (auto simp: feed_words_def put_def Let_def split: if_splits prod.splits sum.splits)

text \<open>Whatever the wire carries: what is written, and what staged means.\<close>

lemma listen_contained:
  "listen H dec inner P pkts s l = (fin, ws, s') \<Longrightarrow> not_staged s \<Longrightarrow>
   set ws \<subseteq> {MAGIC_REPLY, [FIRMWARE_NEXT_CHUNK_READY_SIGNAL]} \<and> reached H P s s' \<and>
   (\<forall>sz. fin = OutStaged sz \<longleftrightarrow> sg_state s' = Staged sz)"
proof (induction pkts arbitrary: s l fin ws s')
  case Nil
  then show ?case by (auto simp: not_staged_def)
next
  case (Cons p ps)
  show ?case
  proof (cases "is_streaming s")
    case True
    obtain fed s1 where f: "feed H P p s = (fed, s1)" by (rule prod.exhaust)
    have r1: "reached H P s s1" using reached_step[of H P s "Feed p"] f by simp
    show ?thesis
    proof (cases "not_staged s1")
      case False
      then show ?thesis using Cons.prems(1) True f r1
        by (auto simp: not_staged_def split: sum.splits)
    next
      case ns: True
      obtain fin2 ws2 s2 where l2: "listen H dec inner P ps s1 l = (fin2, ws2, s2)" by (rule prod_cases3)
      have eq: "fin = fin2" "s' = s2"
        "ws = (case fed of Inr acks \<Rightarrow> replicate acks [FIRMWARE_NEXT_CHUNK_READY_SIGNAL] | Inl _ \<Rightarrow> []) @ ws2"
        using Cons.prems(1) True f l2 ns by (cases "sg_state s1"; simp add: not_staged_def)+
      show ?thesis using Cons.IH[OF l2 ns] eq reached_trans[OF r1] by (auto split: sum.splits)
    qed
  next
    case False
    obtain polled l1 frames where p: "poll dec p l = (polled, l1, frames)" by (rule prod_cases3)
    obtain reply s1 where fr: "foldl (on_frame inner P) (False, s) frames = (reply, s1)" by (rule prod.exhaust)
    obtain fin2 ws2 s2 where l2: "listen H dec inner P ps s1 l1 = (fin2, ws2, s2)" by (rule prod_cases3)
    have s1: "not_staged s1" "reached H P s s1" using frames_reached[of "(False, s)" inner P frames H] fr Cons.prems(2) by auto
    have eq: "fin = fin2" "s' = s2" "ws = (if is_ok polled \<and> reply then [MAGIC_REPLY] else []) @ ws2"
      using Cons.prems(1) False p fr l2 by simp_all
    show ?thesis using Cons.IH[OF l2 s1(1)] eq reached_trans[OF s1(2)] by auto
  qed
qed

subsection \<open>The hold at boot\<close>

text \<open>Over a working pad the listener is armed by the OK contact alone, held by itself.\<close>

lemma hold_is_the_ok_contact:
  assumes "pad_port G low contacts" "configured G h"
  shows "upgrade_requested G (Some h) \<longleftrightarrow> held_event (contacts h) = Down KEY_OK"
proof -
  obtain h' r' where "read_key G boot_rng_next (h, 1) = (held_event (contacts h), h', r')"
    using pad_port.steady_window[OF assms, of boot_rng_next 1] by auto
  then show ?thesis
    by (simp add: upgrade_requested_def arms_upgrade_def UPGRADE_HOLD_KEY_def KEY_OK_def split: key_event.splits)
qed

subsection \<open>Samples\<close>

text \<open>An image of the smallest admissible size whose header declares it, and a digest function.\<close>

definition sample_firmware :: bytes where
  "sample_firmware = patch (replicate FW_MIN_BODY_LEN 0) (FW_HEADER_OFFSET + FW_LENGTH_FIELD_OFFSET) (le_bytes 4 FW_MIN_BODY_LEN)"

definition sample_sum :: "bytes \<Rightarrow> bytes" where
  "sample_sum bs = replicate 31 0 @ [foldr (+) bs 0]"

definition sample_ram :: fake_psram where
  "sample_ram = \<lparr>fp_cells = replicate BURN_LEN_MAX 0, fp_corrupt_at = None\<rparr>"

lemma sample_ram_ok: "fake_sound sample_ram" "length (fp_cells sample_ram) = BURN_LEN_MAX"
  by (simp_all add: sample_ram_def fake_sound_def) (simp add: psram_defs)

lemma sample_firmware_ok:
  "length sample_firmware = FW_MIN_BODY_LEN" "admissible FW_MIN_BODY_LEN" "declared_len sample_firmware = FW_MIN_BODY_LEN"
proof -
  have fits: "FW_HEADER_OFFSET + FW_LENGTH_FIELD_OFFSET + length (le_bytes 4 FW_MIN_BODY_LEN) \<le> length (replicate FW_MIN_BODY_LEN (0 :: u8))"
    by (simp add: psram_defs)
  then show "length sample_firmware = FW_MIN_BODY_LEN" by (simp only: sample_firmware_def length_patch length_replicate)
  show "admissible FW_MIN_BODY_LEN" by (simp add: admissible_def psram_defs)
  have "window sample_firmware (FW_HEADER_OFFSET + FW_LENGTH_FIELD_OFFSET) 4 = le_bytes 4 FW_MIN_BODY_LEN"
    using window_patch_same[OF fits] by (simp add: sample_firmware_def)
  then show "declared_len sample_firmware = FW_MIN_BODY_LEN"
    by (simp add: declared_len_def of_le_bytes FW_MIN_BODY_LEN_def)
qed

end
