(* ===== verification/Mnemonic.thy ===== *)
theory Mnemonic
  imports Signer Identity "HOL-Library.List_Lexorder" "HOL-Library.Char_ord"
begin

text \<open>
  \<open>frost_backup/src/bip39_words.rs\<close> and \<open>share_backup.rs\<close>: the word list, the
  letters that can follow a prefix, and a share as twenty-five words. The list itself (2,048 words
  of data) is the parameter \<open>W\<close>, with what the code relies on of it as \<open>wordlist\<close>;
  SHA-256 is \<open>H\<close>.
\<close>

subsection \<open>Standard library\<close>

text \<open>\<open>slice::partition_point\<close>, \<open>str::starts_with\<close> and
  \<open>str::strip_prefix\<close>. On a sorted list \<open>binary_search\<close> finds what
  \<open>iter_position\<close> finds.\<close>

definition partition_point :: "('a \<Rightarrow> bool) \<Rightarrow> 'a list \<Rightarrow> nat" where
  "partition_point P xs = length (takeWhile P xs)"

definition starts_with :: "string \<Rightarrow> string \<Rightarrow> bool" where
  "starts_with w p \<longleftrightarrow> take (length p) w = p"

definition strip_prefix :: "string \<Rightarrow> string \<Rightarrow> string option" where
  "strip_prefix p w = (if starts_with w p then Some (drop (length p) w) else None)"

subsection \<open>The word list\<close>

type_synonym words = "string list"

definition BITS_PER_WORD :: nat where "BITS_PER_WORD = 11"

definition word_to_index :: "words \<Rightarrow> string \<Rightarrow> nat option" where
  "word_to_index W w = iter_position (\<lambda>v. v = w) W"

definition is_valid_bip39_word :: "words \<Rightarrow> string \<Rightarrow> bool" where
  "is_valid_bip39_word W w \<longleftrightarrow> word_to_index W w \<noteq> None"

definition words_with_prefix :: "words \<Rightarrow> string \<Rightarrow> words" where
  "words_with_prefix W p =
     (if p = [] then W
      else takeWhile (\<lambda>w. starts_with w p) (drop (partition_point (\<lambda>w. w < p) W) W))"

subsection \<open>The letters that can follow\<close>

record valid_letters =
  vl_letters :: "bool list"
  vl_count :: nat

definition DEFAULT_VALID_LETTERS :: "bool list" where
  "DEFAULT_VALID_LETTERS = replicate 23 True @ [False] @ replicate 2 True"

definition vl_default :: valid_letters where
  "vl_default = \<lparr>vl_letters = DEFAULT_VALID_LETTERS,
                 vl_count = length (filter id DEFAULT_VALID_LETTERS)\<rparr>"

definition all_false :: valid_letters where
  "all_false = \<lparr>vl_letters = replicate 26 False, vl_count = 0\<rparr>"

definition all_valid :: valid_letters where
  "all_valid = \<lparr>vl_letters = replicate 26 True, vl_count = 26\<rparr>"

definition letter_to_index :: "char \<Rightarrow> nat option" where
  "letter_to_index c = (if 65 \<le> (of_char c :: nat) \<and> (of_char c :: nat) \<le> 90 then Some (of_char c - 65) else None)"

definition letter_at :: "nat \<Rightarrow> char" where
  "letter_at i = char_of (65 + i)"

definition vl_set :: "char \<Rightarrow> valid_letters \<Rightarrow> valid_letters" where
  "vl_set letter v =
     (case letter_to_index letter of
        None \<Rightarrow> v
      | Some idx \<Rightarrow>
          if vl_letters v ! idx then v
          else \<lparr>vl_letters = (vl_letters v)[idx := True], vl_count = vl_count v + 1\<rparr>)"

definition vl_is_valid :: "valid_letters \<Rightarrow> char \<Rightarrow> bool" where
  "vl_is_valid v letter = (case letter_to_index letter of None \<Rightarrow> False | Some idx \<Rightarrow> vl_letters v ! idx)"

definition iter_valid :: "valid_letters \<Rightarrow> string" where
  "iter_valid v = map (\<lambda>(idx, _). letter_at idx) (filter snd (enumerate 0 (vl_letters v)))"

text \<open>The loop over the words from the first that could match, stopped at the first that does not.\<close>

fun note_letters :: "string \<Rightarrow> words \<Rightarrow> valid_letters \<Rightarrow> valid_letters" where
  "note_letters p [] v = v"
| "note_letters p (w # ws) v =
     (case strip_prefix p w of
        None \<Rightarrow> v
      | Some rest \<Rightarrow> note_letters p ws (case rest of [] \<Rightarrow> v | c # _ \<Rightarrow> vl_set c v))"

definition get_valid_next_letters :: "words \<Rightarrow> string \<Rightarrow> valid_letters" where
  "get_valid_next_letters W p =
     (if p = [] then vl_default
      else note_letters p (drop (partition_point (\<lambda>w. take (min (length p) (length w)) w < p) W) W) all_false)"

subsection \<open>A share as words\<close>

definition NUM_WORDS :: nat where "NUM_WORDS = 25"
definition SCALAR_BITS :: nat where "SCALAR_BITS = 256"
definition POLY_CHECKSUM_BITS :: nat where "POLY_CHECKSUM_BITS = 8"
definition WORDS_CHECKSUM_BITS :: nat where "WORDS_CHECKSUM_BITS = 11"
definition POLY_CHECKSUM_START :: nat where "POLY_CHECKSUM_START = SCALAR_BITS"
definition WORDS_CHECKSUM_START :: nat where "WORDS_CHECKSUM_START = SCALAR_BITS + POLY_CHECKSUM_BITS"
definition TOTAL_BITS :: nat where "TOTAL_BITS = SCALAR_BITS + POLY_CHECKSUM_BITS + WORDS_CHECKSUM_BITS"

lemmas backup_defs = NUM_WORDS_def SCALAR_BITS_def POLY_CHECKSUM_BITS_def WORDS_CHECKSUM_BITS_def
  POLY_CHECKSUM_START_def WORDS_CHECKSUM_START_def TOTAL_BITS_def BITS_PER_WORD_def

datatype share_backup_error = InvalidBip39Word nat string | InvalidShareIndex | WordsChecksumFailed

definition be_bytes :: "nat \<Rightarrow> nat \<Rightarrow> bytes" where
  "be_bytes n v = rev (le_bytes n v)"

definition compute_words_checksum :: "(bytes \<Rightarrow> bytes) \<Rightarrow> nat \<Rightarrow> bytes \<Rightarrow> nat \<Rightarrow> nat" where
  "compute_words_checksum H index scalar poly =
     (let hash = H (be_bytes 4 index @ scalar @ be_bytes 2 poly) in
      of_be (take 2 hash) div 2 ^ (16 - WORDS_CHECKSUM_BITS))"

text \<open>\<open>set_bit\<close> on the two integer types it is used at.\<close>

definition set_bit :: "'a::len word \<Rightarrow> nat \<Rightarrow> nat \<Rightarrow> 'a word" where
  "set_bit target len index = target OR push_bit (len - 1 - index) 1"

text \<open>One bit of the word stream, at its place among the bits processed so far.\<close>

definition place_bit :: "nat \<times> bytes \<times> 16 word \<times> 16 word \<Rightarrow> bool \<Rightarrow> nat \<times> bytes \<times> 16 word \<times> 16 word" where
  "place_bit st b =
     (case st of (pos, scalar, poly, chk) \<Rightarrow>
       if \<not> b then (pos + 1, scalar, poly, chk)
       else if pos < SCALAR_BITS then
         (pos + 1, scalar[pos div 8 := set_bit (scalar ! (pos div 8)) 8 (pos mod 8)], poly, chk)
       else if pos < WORDS_CHECKSUM_START then
         (pos + 1, scalar, set_bit poly POLY_CHECKSUM_BITS (pos - POLY_CHECKSUM_START), chk)
       else if pos < TOTAL_BITS then
         (pos + 1, scalar, poly, set_bit chk WORDS_CHECKSUM_BITS (pos - WORDS_CHECKSUM_START))
       else (pos + 1, scalar, poly, chk))"

definition word_bits :: "nat \<Rightarrow> bool list" where
  "word_bits idx = map (\<lambda>k. bit idx k) (rev [0 ..< BITS_PER_WORD])"

fun word_indices_from :: "words \<Rightarrow> nat \<Rightarrow> words \<Rightarrow> share_backup_error + nat list" where
  "word_indices_from W i [] = Inr []"
| "word_indices_from W i (w # ws) =
     (case word_to_index W w of
        None \<Rightarrow> Inl (InvalidBip39Word i w)
      | Some idx \<Rightarrow>
         (case word_indices_from W (i + 1) ws of
            Inl e \<Rightarrow> Inl e
          | Inr idxs \<Rightarrow> Inr (idx mod 65536 # idxs)))"

definition from_words :: "(bytes \<Rightarrow> bytes) \<Rightarrow> words \<Rightarrow> nat \<Rightarrow> words \<Rightarrow> share_backup_error + share_backup" where
  "from_words H W index ws =
     (case word_indices_from W 0 ws of
        Inl e \<Rightarrow> Inl e
      | Inr idxs \<Rightarrow>
         (case foldl place_bit (0, replicate 32 0, 0, 0) (concat (map word_bits idxs)) of
            (_, scalar_bytes, poly, chk) \<Rightarrow>
              let scalar = be_bytes 32 (of_be scalar_bytes mod of_be SECP256K1_ORDER) in
              if compute_words_checksum H index scalar (unat poly) \<noteq> unat chk then Inl WordsChecksumFailed
              else if index = 0 then Inl InvalidShareIndex
              else Inr \<lparr>sb_index = index, sb_share = scalar, sb_poly_checksum = unat poly\<rparr>))"

text \<open>The accumulator of \<open>to_word_indices\<close>: whole words leave it from the top.\<close>

function emit_words :: "nat \<Rightarrow> nat \<Rightarrow> nat list \<Rightarrow> nat \<times> nat \<times> nat list" where
  "emit_words acc bits out =
     (if BITS_PER_WORD \<le> bits \<and> length out < NUM_WORDS then
        (let shift = bits - BITS_PER_WORD in
         emit_words (acc mod 2 ^ shift) shift (out @ [(acc div 2 ^ shift) mod 65536]))
      else (acc, bits, out))"
  by pat_completeness auto
termination
  by (relation "measure (\<lambda>(_, bits, _). bits)") (auto simp: BITS_PER_WORD_def)

declare emit_words.simps [simp del]

definition absorb_byte :: "nat \<times> nat \<times> nat list \<Rightarrow> u8 \<Rightarrow> nat \<times> nat \<times> nat list" where
  "absorb_byte st byte =
     (case st of (acc, bits, out) \<Rightarrow> emit_words ((acc * 256) mod u32_lim OR unat byte) (bits + 8) out)"

text \<open>\<open>None\<close> is the panic of an index that does not fit a \<open>u32\<close>.\<close>

definition to_word_indices :: "(bytes \<Rightarrow> bytes) \<Rightarrow> share_backup \<Rightarrow> nat list option" where
  "to_word_indices H b =
     (if u32_lim \<le> sb_index b then None
      else (case foldl absorb_byte (0, 0, []) (sb_share b) of (acc, _, out) \<Rightarrow>
        let indices = out @ replicate (NUM_WORDS - length out) 0;
            last_acc = (acc * 256) mod u32_lim OR sb_poly_checksum b in
        Some (indices[23 := last_acc mod 65536,
                      24 := compute_words_checksum H (sb_index b) (sb_share b) (sb_poly_checksum b)])))"

definition to_words :: "(bytes \<Rightarrow> bytes) \<Rightarrow> words \<Rightarrow> share_backup \<Rightarrow> words option" where
  "to_words H W b = map_option (map (\<lambda>idx. W ! idx)) (to_word_indices H b)"

end
