(* ===== verification/MnemonicCorrect.thy ===== *)
theory MnemonicCorrect
  imports Mnemonic
begin

text \<open>
  The words of a share read as one stream of 275 bits, from the scalar through the polynomial
  checksum to the words checksum; writing and reading the stream are inverse. What the word list
  promises, and the searches in it.
\<close>

subsection \<open>Big-endian bit strings\<close>

definition bits_n :: "nat \<Rightarrow> nat \<Rightarrow> bool list" where
  "bits_n n v = map (\<lambda>k. bit v k) (rev [0 ..< n])"

lemma length_bits_n [simp]: "length (bits_n n v) = n"
  by (simp add: bits_n_def)

lemma nth_bits_n: "i < n \<Longrightarrow> bits_n n v ! i = bit v (n - 1 - i)"
  by (simp add: bits_n_def rev_nth)

lemma word_bits_n: "word_bits v = bits_n 11 v"
  by (simp add: word_bits_def bits_n_def BITS_PER_WORD_def)

lemma bits_n_split: "bits_n (a + b) v = bits_n a (v div 2 ^ b) @ bits_n b (v mod 2 ^ b)"
proof (rule nth_equalityI)
  fix i assume i: "i < length (bits_n (a + b) v)"
  show "bits_n (a + b) v ! i = (bits_n a (v div 2 ^ b) @ bits_n b (v mod 2 ^ b)) ! i"
  proof (cases "i < a")
    case True
    then have "a + b - 1 - i = b + (a - 1 - i)" by simp
    then show ?thesis using True
      by (simp add: nth_append nth_bits_n bit_drop_bit_eq flip: drop_bit_eq_div)
  next
    case False
    have e: "i - a < b" "a + b - 1 - i = b - 1 - (i - a)" using False i by auto
    have "bits_n (a + b) v ! i = bit v (b - 1 - (i - a))"
      using i by (simp only: nth_bits_n length_bits_n e(2))
    moreover have "bits_n b (v mod 2 ^ b) ! (i - a) = bit v (b - 1 - (i - a))"
    proof -
      have "b - 1 - (i - a) < b" using e(1) by simp
      then show ?thesis by (simp add: nth_bits_n[OF e(1)] bit_take_bit_iff flip: take_bit_eq_mod)
    qed
    ultimately show ?thesis using False by (simp add: nth_append)
  qed
qed simp

lemma shift_or: "p < 256 \<Longrightarrow> (a * 256) OR p = a * 256 + (p :: nat)"
proof -
  assume "p < 256"
  then have "take_bit 8 p = p" by (simp add: take_bit_nat_eq_self_iff)
  then have "\<not> bit p n" if "8 \<le> n" for n using that by (metis bit_take_bit_iff not_le)
  moreover have "\<not> bit (a * 256) n" if "n < 8" for n
    using that by (simp add: bit_push_bit_iff flip: push_bit_eq_mult[of 8, simplified])
  ultimately show ?thesis by (intro disjunctive_add_eq_or[symmetric]) (auto simp: bit_eq_iff bit_and_iff not_le[symmetric])
qed

lemma bits_n_shift:
  "p < 256 \<Longrightarrow> bits_n (n + 8) ((a * 256) OR p) = bits_n n a @ bits_n 8 p"
  by (simp add: shift_or bits_n_split)

lemma shift_or_bound: "p < 256 \<Longrightarrow> a < 2 ^ n \<Longrightarrow> (a * 256) OR p < (2 :: nat) ^ (n + 8)"
proof -
  assume "p < 256" "a < 2 ^ n"
  then have "a * 256 + p < (a + 1) * 256" by simp
  also have "\<dots> \<le> 2 ^ n * 256" using \<open>a < 2 ^ n\<close> by (intro mult_le_mono1) simp
  finally show ?thesis using \<open>p < 256\<close> by (simp add: shift_or power_add)
qed

lemma bits_n_inj: "bits_n n v = bits_n n w \<Longrightarrow> v < 2 ^ n \<Longrightarrow> w < 2 ^ n \<Longrightarrow> v = w"
proof (rule bit_eqI)
  fix k
  assume e: "bits_n n v = bits_n n w" and l: "v < 2 ^ n" "w < 2 ^ n"
  show "bit v k = bit w k"
  proof (cases "k < n")
    case True
    then show ?thesis using nth_bits_n[of "n - 1 - k" n v] nth_bits_n[of "n - 1 - k" n w] e by simp
  next
    case False
    have "take_bit n v = v" "take_bit n w = w" using l by (simp_all add: take_bit_nat_eq_self_iff)
    then show ?thesis using False by (metis bit_take_bit_iff)
  qed
qed

subsection \<open>Writing the stream\<close>

lemma emit_words_stream:
  "acc < 2 ^ bits \<Longrightarrow> emit_words acc bits out = (acc', bits', out') \<Longrightarrow> \<forall>w \<in> set out. w < 2048 \<Longrightarrow>
   concat (map word_bits out') @ bits_n bits' acc' = concat (map word_bits out) @ bits_n bits acc \<and>
   acc' < 2 ^ bits' \<and> (bits' < 11 \<or> 25 \<le> length out') \<and> 11 * length out' + bits' = 11 * length out + bits \<and>
   (\<forall>w \<in> set out'. w < 2048)"
proof (induction acc bits out rule: emit_words.induct)
  case (1 acc bits out)
  show ?case
  proof (cases "11 \<le> bits \<and> length out < 25")
    case False
    then show ?thesis using "1.prems" by (auto simp: emit_words.simps[of acc] backup_defs)
  next
    case True
    let ?s = "bits - 11"
    have "acc < 2 ^ (11 + ?s)" using "1.prems"(1) True by simp
    then have w: "acc div 2 ^ ?s < 2048" by (simp add: power_add less_mult_imp_div_less)
    then have w': "(acc div 2 ^ ?s) mod 65536 = acc div 2 ^ ?s" by simp
    have e: "emit_words (acc mod 2 ^ ?s) ?s (out @ [acc div 2 ^ ?s]) = (acc', bits', out')"
      using "1.prems"(2) True w' by (simp add: emit_words.simps[of acc] backup_defs Let_def)
    have "bits_n bits acc = word_bits (acc div 2 ^ ?s) @ bits_n ?s (acc mod 2 ^ ?s)"
      using bits_n_split[of 11 ?s acc] True by (simp add: word_bits_n)
    then show ?thesis using "1.IH"[of ?s] e w w' "1.prems"(3) True
      by (simp add: backup_defs)
  qed
qed

lemma absorb_bytes_stream:
  "length bs \<le> 32 \<Longrightarrow> foldl absorb_byte (0, 0, []) bs = (acc, bits, out) \<Longrightarrow>
   concat (map word_bits out) @ bits_n bits acc = concat (map (\<lambda>b. bits_n 8 (unat b)) bs) \<and>
   acc < 2 ^ bits \<and> bits < 11 \<and> 11 * length out + bits = 8 * length bs \<and> (\<forall>w \<in> set out. w < 2048)"
proof (induction bs arbitrary: acc bits out rule: rev_induct)
  case Nil
  then show ?case by (simp add: bits_n_def)
next
  case (snoc b bs)
  obtain a k o1 where f: "foldl absorb_byte (0, 0, []) bs = (a, k, o1)" by (rule prod_cases3)
  have IH: "concat (map word_bits o1) @ bits_n k a = concat (map (\<lambda>b. bits_n 8 (unat b)) bs)"
    "a < 2 ^ k" "k < 11" "11 * length o1 + k = 8 * length bs" "\<forall>w \<in> set o1. w < 2048"
    using snoc.IH[OF _ f] snoc.prems(1) by simp_all
  have b: "unat b < 256" using unsigned_less[of b] by simp
  have "(2 :: nat) ^ k \<le> 2 ^ 10" using IH(3) by (intro power_increasing) simp_all
  then have "a < 2 ^ 10" using IH(2) by linarith
  then have "(a * 256) mod u32_lim = a * 256" by (simp add: u32_lim_def)
  then have e: "emit_words (a * 256 OR unat b) (k + 8) o1 = (acc, bits, out)"
    using snoc.prems(2) by (simp add: f absorb_byte_def[of "(a, k, o1)"])
  from emit_words_stream[OF shift_or_bound[OF b IH(2)] e IH(5)] IH(1,4) snoc.prems(1)
  show ?case by (auto simp: bits_n_shift[OF b])
qed

text \<open>The share as a stream.\<close>

definition share_stream :: "(bytes \<Rightarrow> bytes) \<Rightarrow> share_backup \<Rightarrow> bool list" where
  "share_stream H b =
     concat (map (\<lambda>x. bits_n 8 (unat x)) (sb_share b)) @ bits_n 8 (sb_poly_checksum b) @
     bits_n 11 (compute_words_checksum H (sb_index b) (sb_share b) (sb_poly_checksum b))"

definition share_wf :: "share_backup \<Rightarrow> bool" where
  "share_wf b \<longleftrightarrow> 0 < sb_index b \<and> sb_index b < u32_lim \<and> length (sb_share b) = 32 \<and>
     of_be (sb_share b) < of_be SECP256K1_ORDER \<and> sb_poly_checksum b < 256"

lemma of_be_two: "length bs \<le> 2 \<Longrightarrow> of_be bs < 65536"
proof -
  assume "length bs \<le> 2"
  then have "(256 :: nat) ^ length bs \<le> 256 ^ 2" by (intro power_increasing) simp_all
  then show ?thesis using of_be_bound[of bs] by simp
qed

lemma checksum_bound: "compute_words_checksum H index scalar poly < 2048"
  using of_be_two[of "take 2 (H (be_bytes 4 index @ scalar @ be_bytes 2 poly))"]
  by (simp add: compute_words_checksum_def backup_defs less_mult_imp_div_less)

lemma to_word_indices_stream:
  assumes "share_wf b"
  obtains idxs where "to_word_indices H b = Some idxs" "length idxs = 25" "\<forall>w \<in> set idxs. w < 2048"
    "concat (map word_bits idxs) = share_stream H b"
proof -
  have wf: "sb_index b < u32_lim" "length (sb_share b) = 32" "sb_poly_checksum b < 256"
    using assms by (simp_all add: share_wf_def)
  let ?c = "compute_words_checksum H (sb_index b) (sb_share b) (sb_poly_checksum b)"
  obtain acc bits out where f: "foldl absorb_byte (0, 0, []) (sb_share b) = (acc, bits, out)"
    by (rule prod_cases3)
  note A = absorb_bytes_stream[OF _ f] 
  have k: "length out = 23" "bits = 3" using A wf(2) by auto presburger+
  then have n: "length out = 23" "bits = 3" "acc < 8" using A wf(2) by auto
  let ?l = "acc * 256 OR sb_poly_checksum b"
  have l: "?l < 2048" "bits_n 11 ?l = bits_n 3 acc @ bits_n 8 (sb_poly_checksum b)"
    using shift_or_bound[OF wf(3), of acc 3] bits_n_shift[OF wf(3), of 3 acc] n by simp_all
  have pad: "replicate (NUM_WORDS - length out) 0 = [0 :: nat, 0]"
    using n(1) by (simp add: NUM_WORDS_def eval_nat_numeral)
  have upd: "(out @ [0, 0])[length out := x, Suc (length out) := y] = out @ [x, y]" for x y
    by (simp add: list_update_append)
  have "(acc * 256) mod u32_lim = acc * 256" "?l mod 65536 = ?l" using n(3) l(1) by (simp_all add: u32_lim_def)
  then have "to_word_indices H b = Some (out @ [?l, ?c])"
    using wf(1) upd[of ?l ?c] unfolding to_word_indices_def f prod.case Let_def pad
    by (simp add: n(1))
  moreover have "concat (map word_bits (out @ [?l, ?c])) = share_stream H b"
    using A wf(2) n l by (simp add: share_stream_def word_bits_n)
  ultimately show thesis using that n l A wf(2) checksum_bound by simp
qed

subsection \<open>Reading the stream\<close>

lemma bit_set_bit: "bit (set_bit (t :: 'a::len word) n i) k \<longleftrightarrow> bit t k \<or> k < LENGTH('a) \<and> k = n - 1 - i"
  by (auto simp: set_bit_def bit_simps)

text \<open>After the first bits of the stream: every target bit is the stream bit of its place.\<close>

definition decoded_bits :: "bool list \<Rightarrow> nat \<times> bytes \<times> 16 word \<times> 16 word \<Rightarrow> bool" where
  "decoded_bits bs st \<longleftrightarrow> (case st of (pos, scalar, poly, chk) \<Rightarrow>
     pos = length bs \<and> length scalar = 32 \<and>
     (\<forall>i < 32. \<forall>j < 8. bit (scalar ! i) j \<longleftrightarrow> 8 * i + 7 - j < length bs \<and> bs ! (8 * i + 7 - j)) \<and>
     (\<forall>j < 16. bit poly j \<longleftrightarrow> j < 8 \<and> 263 - j < length bs \<and> bs ! (263 - j)) \<and>
     (\<forall>j < 16. bit chk j \<longleftrightarrow> j < 11 \<and> 274 - j < length bs \<and> bs ! (274 - j)))"

lemma place_decodes:
  assumes d: "decoded_bits bs st" and l: "length bs < 275"
  shows "decoded_bits (bs @ [b]) (place_bit st b)"
proof -
  obtain pos sc po ch where st: "st = (pos, sc, po, ch)" by (rule prod_cases4)
  note D = d[unfolded decoded_bits_def st prod.case]
  have pos: "pos = length bs" "length sc = 32" using D by blast+
  have nth: "k < length (bs @ [b]) \<and> (bs @ [b]) ! k \<longleftrightarrow> k < length bs \<and> bs ! k \<or> b \<and> k = length bs" for k
    by (auto simp: nth_append less_Suc_eq)
  have scalar: "bit ((if b \<and> pos < 256 then sc[pos div 8 := set_bit (sc ! (pos div 8)) 8 (pos mod 8)] else sc) ! i) j \<longleftrightarrow>
      (8 * i + 7 - j < length bs \<and> bs ! (8 * i + 7 - j) \<or> b \<and> 8 * i + 7 - j = length bs)" if "i < 32" "j < 8" for i j
  proof (cases "b \<and> pos < 256 \<and> i = pos div 8")
    case True
    have "j = 8 - 1 - pos mod 8 \<longleftrightarrow> 8 * i + 7 - j = pos"
      using that(2) True mult_div_mod_eq[of 8 pos] mod_less_divisor[of 8 pos] by linarith
    then show ?thesis using True D that pos by (auto simp: bit_set_bit)
  next
    case False
    have "\<not> (b \<and> 8 * i + 7 - j = length bs)"
    proof
      assume a: "b \<and> 8 * i + 7 - j = length bs"
      then have "pos = 8 * i + (7 - j)" using that pos by simp
      then have "pos div 8 = i" "pos < 256" using that by simp_all
      then show False using False a by simp
    qed
    then show ?thesis using False D that pos by (auto simp: nth_list_update)
  qed
  have pst: "place_bit st b = (pos + 1,
      (if b \<and> pos < 256 then sc[pos div 8 := set_bit (sc ! (pos div 8)) 8 (pos mod 8)] else sc),
      (if b \<and> 256 \<le> pos \<and> pos < 264 then set_bit po 8 (pos - 256) else po),
      (if b \<and> 264 \<le> pos \<and> pos < 275 then set_bit ch 11 (pos - 264) else ch))"
    using l pos by (auto simp: st place_bit_def backup_defs)
  have poly: "bit (if b \<and> 256 \<le> pos \<and> pos < 264 then set_bit po 8 (pos - 256) else po) j \<longleftrightarrow>
      j < 8 \<and> (263 - j < length bs \<and> bs ! (263 - j) \<or> b \<and> 263 - j = length bs)" if "j < 16" for j
    using D that pos by (auto simp: bit_set_bit)
  have chk: "bit (if b \<and> 264 \<le> pos \<and> pos < 275 then set_bit ch 11 (pos - 264) else ch) j \<longleftrightarrow>
      j < 11 \<and> (274 - j < length bs \<and> bs ! (274 - j) \<or> b \<and> 274 - j = length bs)" if "j < 16" for j
    using D that pos by (auto simp: bit_set_bit)
  show ?thesis unfolding pst decoded_bits_def prod.case nth
    using scalar poly chk pos by simp
qed

lemma stream_decodes:
  "length bs \<le> 275 \<Longrightarrow> decoded_bits bs (foldl place_bit (0, replicate 32 0, 0, 0) bs)"
proof (induction bs rule: rev_induct)
  case Nil
  then show ?case by (simp add: decoded_bits_def)
next
  case (snoc b bs)
  then show ?case using place_decodes[of bs "foldl place_bit (0, replicate 32 0, 0, 0) bs" b] by simp
qed

lemma nth_byte_bits:
  "i < length bs \<Longrightarrow> k < 8 \<Longrightarrow> concat (map (\<lambda>x. bits_n 8 (unat x)) bs) ! (8 * i + k) = bit (bs ! i) (7 - k)"
proof (induction bs arbitrary: i)
  case (Cons b bs)
  show ?case
  proof (cases i)
    case 0
    then show ?thesis using Cons.prems(2) by (simp add: nth_append nth_bits_n bit_unsigned_iff)
  next
    case (Suc i')
    then have "8 * i + k = 8 + (8 * i' + k)" by simp
    then show ?thesis using Cons Suc by (simp only: list.map concat.simps nth_append) simp
  qed
qed simp

lemma length_byte_bits [simp]: "length (concat (map (\<lambda>x. bits_n 8 (unat x)) bs)) = 8 * length bs"
  by (induction bs) simp_all

lemma stream_read:
  assumes "share_wf b"
  shows "foldl place_bit (0, replicate 32 0, 0, 0) (share_stream H b) =
    (275, sb_share b, word_of_nat (sb_poly_checksum b),
     word_of_nat (compute_words_checksum H (sb_index b) (sb_share b) (sb_poly_checksum b)))"
proof -
  let ?S = "concat (map (\<lambda>x. bits_n 8 (unat x)) (sb_share b))"
  let ?p = "sb_poly_checksum b" and ?c = "compute_words_checksum H (sb_index b) (sb_share b) (sb_poly_checksum b)"
  have wf: "length (sb_share b) = 32" "?p < 2 ^ 8" "?c < 2 ^ 11"
    using assms checksum_bound[of H] by (simp_all add: share_wf_def)
  have len: "length (share_stream H b) = 275" by (simp add: share_stream_def wf(1))
  obtain pos sc po ch where st: "foldl place_bit (0, replicate 32 0, 0, 0) (share_stream H b) = (pos, sc, po, ch)"
    by (rule prod_cases4)
  note D = stream_decodes[of "share_stream H b", unfolded st decoded_bits_def prod.case len, simplified]
  have at: "share_stream H b ! (8 * i + 7 - j) = bit (sb_share b ! i) j" if "i < 32" "j < 8" for i j
  proof -
    have "8 * i + 7 - j = 8 * i + (7 - j)" "8 * i + (7 - j) < length ?S" using that by (simp_all add: wf(1))
    then show ?thesis using nth_byte_bits[of i "sb_share b" "7 - j"] that
      by (simp only: share_stream_def nth_append if_True wf(1)) simp
  qed
  have sc: "sc = sb_share b"
  proof (rule nth_equalityI)
    fix i assume "i < length sc"
    then have "i < 32" using D by simp
    then show "sc ! i = sb_share b ! i" using D at by (intro bit_word_eqI) auto
  qed (use D wf(1) in simp)
  have pat: "share_stream H b ! (263 - j) = bit ?p j" if "j < 8" for j
  proof -
    have at: "263 - j = 256 + (7 - j)" using that by simp
    have l: "length ?S = 256" by (simp add: wf(1))
    have "share_stream H b ! (263 - j) = (bits_n 8 ?p @ bits_n 11 ?c) ! (7 - j)"
      unfolding share_stream_def at using nth_append_length_plus[of ?S "bits_n 8 ?p @ bits_n 11 ?c" "7 - j"]
      by (simp only: l)
    moreover have "7 - j < 8" by linarith
    ultimately show ?thesis using that by (simp only: nth_append length_bits_n if_True nth_bits_n) simp
  qed
  have cat: "share_stream H b ! (274 - j) = bit ?c j" if "j < 11" for j
  proof -
    have at: "274 - j = 264 + (10 - j)" using that by simp
    have l: "length (?S @ bits_n 8 ?p) = 264" by (simp add: wf(1))
    have "share_stream H b ! (274 - j) = bits_n 11 ?c ! (10 - j)"
      unfolding share_stream_def at append_assoc[symmetric]
      using nth_append_length_plus[of "?S @ bits_n 8 ?p" "bits_n 11 ?c" "10 - j"] by (simp only: l)
    then show ?thesis using that by (simp add: nth_bits_n)
  qed
  have small: "263 - n < (275::nat)" "274 - n < (275::nat)" for n by linarith+
  have high: "\<not> bit v j" if "v < 2 ^ n" "n \<le> j" for v n j :: nat
    using that by (metis bit_take_bit_iff not_le take_bit_nat_eq_self_iff)
  have "po = word_of_nat ?p"
  proof (rule bit_word_eqI)
    fix n assume "n < LENGTH(16)"
    then show "bit po n \<longleftrightarrow> bit (word_of_nat ?p :: 16 word) n"
      using D pat[of n] high[OF wf(2), of n] by (cases "n < 8") (simp_all add: bit_of_nat_iff small)
  qed
  moreover have "ch = word_of_nat ?c"
  proof (rule bit_word_eqI)
    fix n assume "n < LENGTH(16)"
    then show "bit ch n \<longleftrightarrow> bit (word_of_nat ?c :: 16 word) n"
      using D cat[of n] high[OF wf(3), of n] by (cases "n < 11") (simp_all add: bit_of_nat_iff small)
  qed
  ultimately show ?thesis using sc D st by simp
qed

subsection \<open>The round trip\<close>

text \<open>What reading the words back relies on of the list: each of the 2,048 words is found where it
  is.\<close>

definition indexed :: "words \<Rightarrow> bool" where
  "indexed W \<longleftrightarrow> length W = 2048 \<and> (\<forall>i < 2048. word_to_index W (W ! i) = Some i)"

lemma distinct_indexed: "distinct W \<Longrightarrow> length W = 2048 \<Longrightarrow> indexed W"
  by (auto simp: indexed_def word_to_index_def position_Some nth_eq_iff_index_eq)

lemma indices_of_words:
  "indexed W \<Longrightarrow> \<forall>w \<in> set idxs. w < 2048 \<Longrightarrow> word_indices_from W i (map (\<lambda>idx. W ! idx) idxs) = Inr idxs"
  by (induction idxs arbitrary: i) (auto simp: indexed_def)

lemma of_be_append: "of_be (xs @ ys) = of_be xs * 256 ^ length ys + of_be ys"
  by (induction xs) (simp_all add: algebra_simps power_add)

lemma of_be_rev: "of_be bs = of_le (rev bs)"
proof (induction bs rule: rev_induct)
  case (snoc b bs)
  then show ?case by (simp add: of_be_append)
qed simp

lemma be_bytes_of_be: "be_bytes (length bs) (of_be bs) = bs"
  using le_bytes_of_le[of "rev bs"] by (simp add: be_bytes_def of_be_rev)

lemma words_read_back:
  assumes "share_wf b" "indexed W"
  shows "\<exists>ws. to_words H W b = Some ws \<and> length ws = 25 \<and> set ws \<subseteq> set W \<and>
    from_words H W (sb_index b) ws = Inr b"
proof -
  obtain idxs where t: "to_word_indices H b = Some idxs" "length idxs = 25" "\<forall>w \<in> set idxs. w < 2048"
    "concat (map word_bits idxs) = share_stream H b"
    by (rule to_word_indices_stream[OF assms(1)])
  let ?c = "compute_words_checksum H (sb_index b) (sb_share b) (sb_poly_checksum b)"
  have wf: "0 < sb_index b" "length (sb_share b) = 32" "of_be (sb_share b) < of_be SECP256K1_ORDER"
    "sb_poly_checksum b < 2 ^ 16" "?c < 2 ^ 16"
    using assms(1) less_trans[OF checksum_bound[of H "sb_index b" "sb_share b" "sb_poly_checksum b"], of "2 ^ 16"]
    by (auto simp: share_wf_def)
  have u: "unat (word_of_nat (sb_poly_checksum b) :: 16 word) = sb_poly_checksum b"
    "unat (word_of_nat ?c :: 16 word) = ?c"
    using wf(4,5) by (simp_all add: unat_of_nat)
  have sc: "be_bytes 32 (of_be (sb_share b) mod of_be SECP256K1_ORDER) = sb_share b"
    using wf(2,3) be_bytes_of_be[of "sb_share b"] by simp
  have "from_words H W (sb_index b) (map (\<lambda>idx. W ! idx) idxs) = Inr b"
    using wf(1) by (simp add: from_words_def indices_of_words[OF assms(2) t(3)] t(4) stream_read[OF assms(1)] u sc Let_def)
  moreover have "set (map (\<lambda>idx. W ! idx) idxs) \<subseteq> set W"
    using t(3) assms(2) by (auto simp: indexed_def)
  ultimately show ?thesis using t(1,2) by (simp add: to_words_def)
qed

text \<open>What is accepted is a share of its own words' checksum, and a changed checksum word is not.\<close>

lemma from_words_ok:
  assumes "from_words H W index ws = Inr b"
  shows "sb_index b = index \<and> 0 < index \<and> set ws \<subseteq> set W \<and> length (sb_share b) = 32 \<and>
    of_be (sb_share b) < of_be SECP256K1_ORDER"
proof -
  have w: "word_indices_from W i ws = Inr idxs \<Longrightarrow> set ws \<subseteq> set W" for i idxs
  proof (induction ws arbitrary: i idxs)
    case (Cons v vs)
    then show ?case by (force simp: word_to_index_def position_Some split: option.splits sum.splits)
  qed simp
  have "of_be (be_bytes 32 v) = v" if "v < of_be SECP256K1_ORDER" for v
  proof -
    have "v < 256 ^ 32" using that by (simp add: order_value)
    then show ?thesis by (simp add: be_bytes_def of_be_rev of_le_bytes)
  qed
  moreover have "0 < of_be SECP256K1_ORDER" by (simp add: order_value)
  ultimately show ?thesis using assms w
    by (auto simp: from_words_def Let_def be_bytes_def split: sum.splits prod.splits if_splits)
qed

end
