(* ===== verification/WordList.thy ===== *)
theory WordList
  imports MnemonicCorrect
begin

text \<open>
  \<open>BIP39_WORDS\<close> of \<open>frost_backup/src/bip39_words.rs\<close>: the 2,048 words as the
  source has them. What the code relies on of the list is the locale \<open>wordlist\<close>, whose
  lemmas say what the lookups of \<open>Mnemonic\<close> find; the list of the source is the instance,
  its order and its letters checked word by word.
\<close>

subsection \<open>The list\<close>

definition BIP39_WORDS :: words where
  "BIP39_WORDS =
    [''ABANDON'', ''ABILITY'', ''ABLE'', ''ABOUT'', ''ABOVE'', ''ABSENT'', ''ABSORB'', ''ABSTRACT'',
      ''ABSURD'', ''ABUSE'', ''ACCESS'', ''ACCIDENT'', ''ACCOUNT'', ''ACCUSE'', ''ACHIEVE'', ''ACID'',
      ''ACOUSTIC'', ''ACQUIRE'', ''ACROSS'', ''ACT'', ''ACTION'', ''ACTOR'', ''ACTRESS'', ''ACTUAL'',
      ''ADAPT'', ''ADD'', ''ADDICT'', ''ADDRESS'', ''ADJUST'', ''ADMIT'', ''ADULT'', ''ADVANCE'',
      ''ADVICE'', ''AEROBIC'', ''AFFAIR'', ''AFFORD'', ''AFRAID'', ''AGAIN'', ''AGE'', ''AGENT'',
      ''AGREE'', ''AHEAD'', ''AIM'', ''AIR'', ''AIRPORT'', ''AISLE'', ''ALARM'', ''ALBUM'', ''ALCOHOL'',
      ''ALERT'', ''ALIEN'', ''ALL'', ''ALLEY'', ''ALLOW'', ''ALMOST'', ''ALONE'', ''ALPHA'', ''ALREADY'',
      ''ALSO'', ''ALTER'', ''ALWAYS'', ''AMATEUR'', ''AMAZING'', ''AMONG'', ''AMOUNT'', ''AMUSED'',
      ''ANALYST'', ''ANCHOR'', ''ANCIENT'', ''ANGER'', ''ANGLE'', ''ANGRY'', ''ANIMAL'', ''ANKLE'',
      ''ANNOUNCE'', ''ANNUAL'', ''ANOTHER'', ''ANSWER'', ''ANTENNA'', ''ANTIQUE'', ''ANXIETY'', ''ANY'',
      ''APART'', ''APOLOGY'', ''APPEAR'', ''APPLE'', ''APPROVE'', ''APRIL'', ''ARCH'', ''ARCTIC'',
      ''AREA'', ''ARENA'', ''ARGUE'', ''ARM'', ''ARMED'', ''ARMOR'', ''ARMY'', ''AROUND'', ''ARRANGE'',
      ''ARREST'', ''ARRIVE'', ''ARROW'', ''ART'', ''ARTEFACT'', ''ARTIST'', ''ARTWORK'', ''ASK'',
      ''ASPECT'', ''ASSAULT'', ''ASSET'', ''ASSIST'', ''ASSUME'', ''ASTHMA'', ''ATHLETE'', ''ATOM'',
      ''ATTACK'', ''ATTEND'', ''ATTITUDE'', ''ATTRACT'', ''AUCTION'', ''AUDIT'', ''AUGUST'', ''AUNT'',
      ''AUTHOR'', ''AUTO'', ''AUTUMN'', ''AVERAGE'', ''AVOCADO'', ''AVOID'', ''AWAKE'', ''AWARE'',
      ''AWAY'', ''AWESOME'', ''AWFUL'', ''AWKWARD'', ''AXIS'', ''BABY'', ''BACHELOR'', ''BACON'',
      ''BADGE'', ''BAG'', ''BALANCE'', ''BALCONY'', ''BALL'', ''BAMBOO'', ''BANANA'', ''BANNER'',
      ''BAR'', ''BARELY'', ''BARGAIN'', ''BARREL'', ''BASE'', ''BASIC'', ''BASKET'', ''BATTLE'',
      ''BEACH'', ''BEAN'', ''BEAUTY'', ''BECAUSE'', ''BECOME'', ''BEEF'', ''BEFORE'', ''BEGIN'',
      ''BEHAVE'', ''BEHIND'', ''BELIEVE'', ''BELOW'', ''BELT'', ''BENCH'', ''BENEFIT'', ''BEST'',
      ''BETRAY'', ''BETTER'', ''BETWEEN'', ''BEYOND'', ''BICYCLE'', ''BID'', ''BIKE'', ''BIND'',
      ''BIOLOGY'', ''BIRD'', ''BIRTH'', ''BITTER'', ''BLACK'', ''BLADE'', ''BLAME'', ''BLANKET'',
      ''BLAST'', ''BLEAK'', ''BLESS'', ''BLIND'', ''BLOOD'', ''BLOSSOM'', ''BLOUSE'', ''BLUE'', ''BLUR'',
      ''BLUSH'', ''BOARD'', ''BOAT'', ''BODY'', ''BOIL'', ''BOMB'', ''BONE'', ''BONUS'', ''BOOK'',
      ''BOOST'', ''BORDER'', ''BORING'', ''BORROW'', ''BOSS'', ''BOTTOM'', ''BOUNCE'', ''BOX'', ''BOY'',
      ''BRACKET'', ''BRAIN'', ''BRAND'', ''BRASS'', ''BRAVE'', ''BREAD'', ''BREEZE'', ''BRICK'',
      ''BRIDGE'', ''BRIEF'', ''BRIGHT'', ''BRING'', ''BRISK'', ''BROCCOLI'', ''BROKEN'', ''BRONZE'',
      ''BROOM'', ''BROTHER'', ''BROWN'', ''BRUSH'', ''BUBBLE'', ''BUDDY'', ''BUDGET'', ''BUFFALO'',
      ''BUILD'', ''BULB'', ''BULK'', ''BULLET'', ''BUNDLE'', ''BUNKER'', ''BURDEN'', ''BURGER'',
      ''BURST'', ''BUS'', ''BUSINESS'', ''BUSY'', ''BUTTER'', ''BUYER'', ''BUZZ'', ''CABBAGE'',
      ''CABIN'', ''CABLE'', ''CACTUS'', ''CAGE'', ''CAKE'', ''CALL'', ''CALM'', ''CAMERA'', ''CAMP'',
      ''CAN'', ''CANAL'', ''CANCEL'', ''CANDY'', ''CANNON'', ''CANOE'', ''CANVAS'', ''CANYON'',
      ''CAPABLE'', ''CAPITAL'', ''CAPTAIN'', ''CAR'', ''CARBON'', ''CARD'', ''CARGO'', ''CARPET'',
      ''CARRY'', ''CART'', ''CASE'', ''CASH'', ''CASINO'', ''CASTLE'', ''CASUAL'', ''CAT'', ''CATALOG'',
      ''CATCH'', ''CATEGORY'', ''CATTLE'', ''CAUGHT'', ''CAUSE'', ''CAUTION'', ''CAVE'', ''CEILING'',
      ''CELERY'', ''CEMENT'', ''CENSUS'', ''CENTURY'', ''CEREAL'', ''CERTAIN'', ''CHAIR'', ''CHALK'',
      ''CHAMPION'', ''CHANGE'', ''CHAOS'', ''CHAPTER'', ''CHARGE'', ''CHASE'', ''CHAT'', ''CHEAP'',
      ''CHECK'', ''CHEESE'', ''CHEF'', ''CHERRY'', ''CHEST'', ''CHICKEN'', ''CHIEF'', ''CHILD'',
      ''CHIMNEY'', ''CHOICE'', ''CHOOSE'', ''CHRONIC'', ''CHUCKLE'', ''CHUNK'', ''CHURN'', ''CIGAR'',
      ''CINNAMON'', ''CIRCLE'', ''CITIZEN'', ''CITY'', ''CIVIL'', ''CLAIM'', ''CLAP'', ''CLARIFY'',
      ''CLAW'', ''CLAY'', ''CLEAN'', ''CLERK'', ''CLEVER'', ''CLICK'', ''CLIENT'', ''CLIFF'', ''CLIMB'',
      ''CLINIC'', ''CLIP'', ''CLOCK'', ''CLOG'', ''CLOSE'', ''CLOTH'', ''CLOUD'', ''CLOWN'', ''CLUB'',
      ''CLUMP'', ''CLUSTER'', ''CLUTCH'', ''COACH'', ''COAST'', ''COCONUT'', ''CODE'', ''COFFEE'',
      ''COIL'', ''COIN'', ''COLLECT'', ''COLOR'', ''COLUMN'', ''COMBINE'', ''COME'', ''COMFORT'',
      ''COMIC'', ''COMMON'', ''COMPANY'', ''CONCERT'', ''CONDUCT'', ''CONFIRM'', ''CONGRESS'',
      ''CONNECT'', ''CONSIDER'', ''CONTROL'', ''CONVINCE'', ''COOK'', ''COOL'', ''COPPER'', ''COPY'',
      ''CORAL'', ''CORE'', ''CORN'', ''CORRECT'', ''COST'', ''COTTON'', ''COUCH'', ''COUNTRY'',
      ''COUPLE'', ''COURSE'', ''COUSIN'', ''COVER'', ''COYOTE'', ''CRACK'', ''CRADLE'', ''CRAFT'',
      ''CRAM'', ''CRANE'', ''CRASH'', ''CRATER'', ''CRAWL'', ''CRAZY'', ''CREAM'', ''CREDIT'', ''CREEK'',
      ''CREW'', ''CRICKET'', ''CRIME'', ''CRISP'', ''CRITIC'', ''CROP'', ''CROSS'', ''CROUCH'',
      ''CROWD'', ''CRUCIAL'', ''CRUEL'', ''CRUISE'', ''CRUMBLE'', ''CRUNCH'', ''CRUSH'', ''CRY'',
      ''CRYSTAL'', ''CUBE'', ''CULTURE'', ''CUP'', ''CUPBOARD'', ''CURIOUS'', ''CURRENT'', ''CURTAIN'',
      ''CURVE'', ''CUSHION'', ''CUSTOM'', ''CUTE'', ''CYCLE'', ''DAD'', ''DAMAGE'', ''DAMP'', ''DANCE'',
      ''DANGER'', ''DARING'', ''DASH'', ''DAUGHTER'', ''DAWN'', ''DAY'', ''DEAL'', ''DEBATE'',
      ''DEBRIS'', ''DECADE'', ''DECEMBER'', ''DECIDE'', ''DECLINE'', ''DECORATE'', ''DECREASE'',
      ''DEER'', ''DEFENSE'', ''DEFINE'', ''DEFY'', ''DEGREE'', ''DELAY'', ''DELIVER'', ''DEMAND'',
      ''DEMISE'', ''DENIAL'', ''DENTIST'', ''DENY'', ''DEPART'', ''DEPEND'', ''DEPOSIT'', ''DEPTH'',
      ''DEPUTY'', ''DERIVE'', ''DESCRIBE'', ''DESERT'', ''DESIGN'', ''DESK'', ''DESPAIR'', ''DESTROY'',
      ''DETAIL'', ''DETECT'', ''DEVELOP'', ''DEVICE'', ''DEVOTE'', ''DIAGRAM'', ''DIAL'', ''DIAMOND'',
      ''DIARY'', ''DICE'', ''DIESEL'', ''DIET'', ''DIFFER'', ''DIGITAL'', ''DIGNITY'', ''DILEMMA'',
      ''DINNER'', ''DINOSAUR'', ''DIRECT'', ''DIRT'', ''DISAGREE'', ''DISCOVER'', ''DISEASE'', ''DISH'',
      ''DISMISS'', ''DISORDER'', ''DISPLAY'', ''DISTANCE'', ''DIVERT'', ''DIVIDE'', ''DIVORCE'',
      ''DIZZY'', ''DOCTOR'', ''DOCUMENT'', ''DOG'', ''DOLL'', ''DOLPHIN'', ''DOMAIN'', ''DONATE'',
      ''DONKEY'', ''DONOR'', ''DOOR'', ''DOSE'', ''DOUBLE'', ''DOVE'', ''DRAFT'', ''DRAGON'', ''DRAMA'',
      ''DRASTIC'', ''DRAW'', ''DREAM'', ''DRESS'', ''DRIFT'', ''DRILL'', ''DRINK'', ''DRIP'', ''DRIVE'',
      ''DROP'', ''DRUM'', ''DRY'', ''DUCK'', ''DUMB'', ''DUNE'', ''DURING'', ''DUST'', ''DUTCH'',
      ''DUTY'', ''DWARF'', ''DYNAMIC'', ''EAGER'', ''EAGLE'', ''EARLY'', ''EARN'', ''EARTH'', ''EASILY'',
      ''EAST'', ''EASY'', ''ECHO'', ''ECOLOGY'', ''ECONOMY'', ''EDGE'', ''EDIT'', ''EDUCATE'',
      ''EFFORT'', ''EGG'', ''EIGHT'', ''EITHER'', ''ELBOW'', ''ELDER'', ''ELECTRIC'', ''ELEGANT'',
      ''ELEMENT'', ''ELEPHANT'', ''ELEVATOR'', ''ELITE'', ''ELSE'', ''EMBARK'', ''EMBODY'', ''EMBRACE'',
      ''EMERGE'', ''EMOTION'', ''EMPLOY'', ''EMPOWER'', ''EMPTY'', ''ENABLE'', ''ENACT'', ''END'',
      ''ENDLESS'', ''ENDORSE'', ''ENEMY'', ''ENERGY'', ''ENFORCE'', ''ENGAGE'', ''ENGINE'', ''ENHANCE'',
      ''ENJOY'', ''ENLIST'', ''ENOUGH'', ''ENRICH'', ''ENROLL'', ''ENSURE'', ''ENTER'', ''ENTIRE'',
      ''ENTRY'', ''ENVELOPE'', ''EPISODE'', ''EQUAL'', ''EQUIP'', ''ERA'', ''ERASE'', ''ERODE'',
      ''EROSION'', ''ERROR'', ''ERUPT'', ''ESCAPE'', ''ESSAY'', ''ESSENCE'', ''ESTATE'', ''ETERNAL'',
      ''ETHICS'', ''EVIDENCE'', ''EVIL'', ''EVOKE'', ''EVOLVE'', ''EXACT'', ''EXAMPLE'', ''EXCESS'',
      ''EXCHANGE'', ''EXCITE'', ''EXCLUDE'', ''EXCUSE'', ''EXECUTE'', ''EXERCISE'', ''EXHAUST'',
      ''EXHIBIT'', ''EXILE'', ''EXIST'', ''EXIT'', ''EXOTIC'', ''EXPAND'', ''EXPECT'', ''EXPIRE'',
      ''EXPLAIN'', ''EXPOSE'', ''EXPRESS'', ''EXTEND'', ''EXTRA'', ''EYE'', ''EYEBROW'', ''FABRIC'',
      ''FACE'', ''FACULTY'', ''FADE'', ''FAINT'', ''FAITH'', ''FALL'', ''FALSE'', ''FAME'', ''FAMILY'',
      ''FAMOUS'', ''FAN'', ''FANCY'', ''FANTASY'', ''FARM'', ''FASHION'', ''FAT'', ''FATAL'', ''FATHER'',
      ''FATIGUE'', ''FAULT'', ''FAVORITE'', ''FEATURE'', ''FEBRUARY'', ''FEDERAL'', ''FEE'', ''FEED'',
      ''FEEL'', ''FEMALE'', ''FENCE'', ''FESTIVAL'', ''FETCH'', ''FEVER'', ''FEW'', ''FIBER'',
      ''FICTION'', ''FIELD'', ''FIGURE'', ''FILE'', ''FILM'', ''FILTER'', ''FINAL'', ''FIND'', ''FINE'',
      ''FINGER'', ''FINISH'', ''FIRE'', ''FIRM'', ''FIRST'', ''FISCAL'', ''FISH'', ''FIT'', ''FITNESS'',
      ''FIX'', ''FLAG'', ''FLAME'', ''FLASH'', ''FLAT'', ''FLAVOR'', ''FLEE'', ''FLIGHT'', ''FLIP'',
      ''FLOAT'', ''FLOCK'', ''FLOOR'', ''FLOWER'', ''FLUID'', ''FLUSH'', ''FLY'', ''FOAM'', ''FOCUS'',
      ''FOG'', ''FOIL'', ''FOLD'', ''FOLLOW'', ''FOOD'', ''FOOT'', ''FORCE'', ''FOREST'', ''FORGET'',
      ''FORK'', ''FORTUNE'', ''FORUM'', ''FORWARD'', ''FOSSIL'', ''FOSTER'', ''FOUND'', ''FOX'',
      ''FRAGILE'', ''FRAME'', ''FREQUENT'', ''FRESH'', ''FRIEND'', ''FRINGE'', ''FROG'', ''FRONT'',
      ''FROST'', ''FROWN'', ''FROZEN'', ''FRUIT'', ''FUEL'', ''FUN'', ''FUNNY'', ''FURNACE'', ''FURY'',
      ''FUTURE'', ''GADGET'', ''GAIN'', ''GALAXY'', ''GALLERY'', ''GAME'', ''GAP'', ''GARAGE'',
      ''GARBAGE'', ''GARDEN'', ''GARLIC'', ''GARMENT'', ''GAS'', ''GASP'', ''GATE'', ''GATHER'',
      ''GAUGE'', ''GAZE'', ''GENERAL'', ''GENIUS'', ''GENRE'', ''GENTLE'', ''GENUINE'', ''GESTURE'',
      ''GHOST'', ''GIANT'', ''GIFT'', ''GIGGLE'', ''GINGER'', ''GIRAFFE'', ''GIRL'', ''GIVE'', ''GLAD'',
      ''GLANCE'', ''GLARE'', ''GLASS'', ''GLIDE'', ''GLIMPSE'', ''GLOBE'', ''GLOOM'', ''GLORY'',
      ''GLOVE'', ''GLOW'', ''GLUE'', ''GOAT'', ''GODDESS'', ''GOLD'', ''GOOD'', ''GOOSE'', ''GORILLA'',
      ''GOSPEL'', ''GOSSIP'', ''GOVERN'', ''GOWN'', ''GRAB'', ''GRACE'', ''GRAIN'', ''GRANT'', ''GRAPE'',
      ''GRASS'', ''GRAVITY'', ''GREAT'', ''GREEN'', ''GRID'', ''GRIEF'', ''GRIT'', ''GROCERY'',
      ''GROUP'', ''GROW'', ''GRUNT'', ''GUARD'', ''GUESS'', ''GUIDE'', ''GUILT'', ''GUITAR'', ''GUN'',
      ''GYM'', ''HABIT'', ''HAIR'', ''HALF'', ''HAMMER'', ''HAMSTER'', ''HAND'', ''HAPPY'', ''HARBOR'',
      ''HARD'', ''HARSH'', ''HARVEST'', ''HAT'', ''HAVE'', ''HAWK'', ''HAZARD'', ''HEAD'', ''HEALTH'',
      ''HEART'', ''HEAVY'', ''HEDGEHOG'', ''HEIGHT'', ''HELLO'', ''HELMET'', ''HELP'', ''HEN'', ''HERO'',
      ''HIDDEN'', ''HIGH'', ''HILL'', ''HINT'', ''HIP'', ''HIRE'', ''HISTORY'', ''HOBBY'', ''HOCKEY'',
      ''HOLD'', ''HOLE'', ''HOLIDAY'', ''HOLLOW'', ''HOME'', ''HONEY'', ''HOOD'', ''HOPE'', ''HORN'',
      ''HORROR'', ''HORSE'', ''HOSPITAL'', ''HOST'', ''HOTEL'', ''HOUR'', ''HOVER'', ''HUB'', ''HUGE'',
      ''HUMAN'', ''HUMBLE'', ''HUMOR'', ''HUNDRED'', ''HUNGRY'', ''HUNT'', ''HURDLE'', ''HURRY'',
      ''HURT'', ''HUSBAND'', ''HYBRID'', ''ICE'', ''ICON'', ''IDEA'', ''IDENTIFY'', ''IDLE'', ''IGNORE'',
      ''ILL'', ''ILLEGAL'', ''ILLNESS'', ''IMAGE'', ''IMITATE'', ''IMMENSE'', ''IMMUNE'', ''IMPACT'',
      ''IMPOSE'', ''IMPROVE'', ''IMPULSE'', ''INCH'', ''INCLUDE'', ''INCOME'', ''INCREASE'', ''INDEX'',
      ''INDICATE'', ''INDOOR'', ''INDUSTRY'', ''INFANT'', ''INFLICT'', ''INFORM'', ''INHALE'',
      ''INHERIT'', ''INITIAL'', ''INJECT'', ''INJURY'', ''INMATE'', ''INNER'', ''INNOCENT'', ''INPUT'',
      ''INQUIRY'', ''INSANE'', ''INSECT'', ''INSIDE'', ''INSPIRE'', ''INSTALL'', ''INTACT'',
      ''INTEREST'', ''INTO'', ''INVEST'', ''INVITE'', ''INVOLVE'', ''IRON'', ''ISLAND'', ''ISOLATE'',
      ''ISSUE'', ''ITEM'', ''IVORY'', ''JACKET'', ''JAGUAR'', ''JAR'', ''JAZZ'', ''JEALOUS'', ''JEANS'',
      ''JELLY'', ''JEWEL'', ''JOB'', ''JOIN'', ''JOKE'', ''JOURNEY'', ''JOY'', ''JUDGE'', ''JUICE'',
      ''JUMP'', ''JUNGLE'', ''JUNIOR'', ''JUNK'', ''JUST'', ''KANGAROO'', ''KEEN'', ''KEEP'',
      ''KETCHUP'', ''KEY'', ''KICK'', ''KID'', ''KIDNEY'', ''KIND'', ''KINGDOM'', ''KISS'', ''KIT'',
      ''KITCHEN'', ''KITE'', ''KITTEN'', ''KIWI'', ''KNEE'', ''KNIFE'', ''KNOCK'', ''KNOW'', ''LAB'',
      ''LABEL'', ''LABOR'', ''LADDER'', ''LADY'', ''LAKE'', ''LAMP'', ''LANGUAGE'', ''LAPTOP'',
      ''LARGE'', ''LATER'', ''LATIN'', ''LAUGH'', ''LAUNDRY'', ''LAVA'', ''LAW'', ''LAWN'', ''LAWSUIT'',
      ''LAYER'', ''LAZY'', ''LEADER'', ''LEAF'', ''LEARN'', ''LEAVE'', ''LECTURE'', ''LEFT'', ''LEG'',
      ''LEGAL'', ''LEGEND'', ''LEISURE'', ''LEMON'', ''LEND'', ''LENGTH'', ''LENS'', ''LEOPARD'',
      ''LESSON'', ''LETTER'', ''LEVEL'', ''LIAR'', ''LIBERTY'', ''LIBRARY'', ''LICENSE'', ''LIFE'',
      ''LIFT'', ''LIGHT'', ''LIKE'', ''LIMB'', ''LIMIT'', ''LINK'', ''LION'', ''LIQUID'', ''LIST'',
      ''LITTLE'', ''LIVE'', ''LIZARD'', ''LOAD'', ''LOAN'', ''LOBSTER'', ''LOCAL'', ''LOCK'', ''LOGIC'',
      ''LONELY'', ''LONG'', ''LOOP'', ''LOTTERY'', ''LOUD'', ''LOUNGE'', ''LOVE'', ''LOYAL'', ''LUCKY'',
      ''LUGGAGE'', ''LUMBER'', ''LUNAR'', ''LUNCH'', ''LUXURY'', ''LYRICS'', ''MACHINE'', ''MAD'',
      ''MAGIC'', ''MAGNET'', ''MAID'', ''MAIL'', ''MAIN'', ''MAJOR'', ''MAKE'', ''MAMMAL'', ''MAN'',
      ''MANAGE'', ''MANDATE'', ''MANGO'', ''MANSION'', ''MANUAL'', ''MAPLE'', ''MARBLE'', ''MARCH'',
      ''MARGIN'', ''MARINE'', ''MARKET'', ''MARRIAGE'', ''MASK'', ''MASS'', ''MASTER'', ''MATCH'',
      ''MATERIAL'', ''MATH'', ''MATRIX'', ''MATTER'', ''MAXIMUM'', ''MAZE'', ''MEADOW'', ''MEAN'',
      ''MEASURE'', ''MEAT'', ''MECHANIC'', ''MEDAL'', ''MEDIA'', ''MELODY'', ''MELT'', ''MEMBER'',
      ''MEMORY'', ''MENTION'', ''MENU'', ''MERCY'', ''MERGE'', ''MERIT'', ''MERRY'', ''MESH'',
      ''MESSAGE'', ''METAL'', ''METHOD'', ''MIDDLE'', ''MIDNIGHT'', ''MILK'', ''MILLION'', ''MIMIC'',
      ''MIND'', ''MINIMUM'', ''MINOR'', ''MINUTE'', ''MIRACLE'', ''MIRROR'', ''MISERY'', ''MISS'',
      ''MISTAKE'', ''MIX'', ''MIXED'', ''MIXTURE'', ''MOBILE'', ''MODEL'', ''MODIFY'', ''MOM'',
      ''MOMENT'', ''MONITOR'', ''MONKEY'', ''MONSTER'', ''MONTH'', ''MOON'', ''MORAL'', ''MORE'',
      ''MORNING'', ''MOSQUITO'', ''MOTHER'', ''MOTION'', ''MOTOR'', ''MOUNTAIN'', ''MOUSE'', ''MOVE'',
      ''MOVIE'', ''MUCH'', ''MUFFIN'', ''MULE'', ''MULTIPLY'', ''MUSCLE'', ''MUSEUM'', ''MUSHROOM'',
      ''MUSIC'', ''MUST'', ''MUTUAL'', ''MYSELF'', ''MYSTERY'', ''MYTH'', ''NAIVE'', ''NAME'',
      ''NAPKIN'', ''NARROW'', ''NASTY'', ''NATION'', ''NATURE'', ''NEAR'', ''NECK'', ''NEED'',
      ''NEGATIVE'', ''NEGLECT'', ''NEITHER'', ''NEPHEW'', ''NERVE'', ''NEST'', ''NET'', ''NETWORK'',
      ''NEUTRAL'', ''NEVER'', ''NEWS'', ''NEXT'', ''NICE'', ''NIGHT'', ''NOBLE'', ''NOISE'', ''NOMINEE'',
      ''NOODLE'', ''NORMAL'', ''NORTH'', ''NOSE'', ''NOTABLE'', ''NOTE'', ''NOTHING'', ''NOTICE'',
      ''NOVEL'', ''NOW'', ''NUCLEAR'', ''NUMBER'', ''NURSE'', ''NUT'', ''OAK'', ''OBEY'', ''OBJECT'',
      ''OBLIGE'', ''OBSCURE'', ''OBSERVE'', ''OBTAIN'', ''OBVIOUS'', ''OCCUR'', ''OCEAN'', ''OCTOBER'',
      ''ODOR'', ''OFF'', ''OFFER'', ''OFFICE'', ''OFTEN'', ''OIL'', ''OKAY'', ''OLD'', ''OLIVE'',
      ''OLYMPIC'', ''OMIT'', ''ONCE'', ''ONE'', ''ONION'', ''ONLINE'', ''ONLY'', ''OPEN'', ''OPERA'',
      ''OPINION'', ''OPPOSE'', ''OPTION'', ''ORANGE'', ''ORBIT'', ''ORCHARD'', ''ORDER'', ''ORDINARY'',
      ''ORGAN'', ''ORIENT'', ''ORIGINAL'', ''ORPHAN'', ''OSTRICH'', ''OTHER'', ''OUTDOOR'', ''OUTER'',
      ''OUTPUT'', ''OUTSIDE'', ''OVAL'', ''OVEN'', ''OVER'', ''OWN'', ''OWNER'', ''OXYGEN'', ''OYSTER'',
      ''OZONE'', ''PACT'', ''PADDLE'', ''PAGE'', ''PAIR'', ''PALACE'', ''PALM'', ''PANDA'', ''PANEL'',
      ''PANIC'', ''PANTHER'', ''PAPER'', ''PARADE'', ''PARENT'', ''PARK'', ''PARROT'', ''PARTY'',
      ''PASS'', ''PATCH'', ''PATH'', ''PATIENT'', ''PATROL'', ''PATTERN'', ''PAUSE'', ''PAVE'',
      ''PAYMENT'', ''PEACE'', ''PEANUT'', ''PEAR'', ''PEASANT'', ''PELICAN'', ''PEN'', ''PENALTY'',
      ''PENCIL'', ''PEOPLE'', ''PEPPER'', ''PERFECT'', ''PERMIT'', ''PERSON'', ''PET'', ''PHONE'',
      ''PHOTO'', ''PHRASE'', ''PHYSICAL'', ''PIANO'', ''PICNIC'', ''PICTURE'', ''PIECE'', ''PIG'',
      ''PIGEON'', ''PILL'', ''PILOT'', ''PINK'', ''PIONEER'', ''PIPE'', ''PISTOL'', ''PITCH'', ''PIZZA'',
      ''PLACE'', ''PLANET'', ''PLASTIC'', ''PLATE'', ''PLAY'', ''PLEASE'', ''PLEDGE'', ''PLUCK'',
      ''PLUG'', ''PLUNGE'', ''POEM'', ''POET'', ''POINT'', ''POLAR'', ''POLE'', ''POLICE'', ''POND'',
      ''PONY'', ''POOL'', ''POPULAR'', ''PORTION'', ''POSITION'', ''POSSIBLE'', ''POST'', ''POTATO'',
      ''POTTERY'', ''POVERTY'', ''POWDER'', ''POWER'', ''PRACTICE'', ''PRAISE'', ''PREDICT'', ''PREFER'',
      ''PREPARE'', ''PRESENT'', ''PRETTY'', ''PREVENT'', ''PRICE'', ''PRIDE'', ''PRIMARY'', ''PRINT'',
      ''PRIORITY'', ''PRISON'', ''PRIVATE'', ''PRIZE'', ''PROBLEM'', ''PROCESS'', ''PRODUCE'',
      ''PROFIT'', ''PROGRAM'', ''PROJECT'', ''PROMOTE'', ''PROOF'', ''PROPERTY'', ''PROSPER'',
      ''PROTECT'', ''PROUD'', ''PROVIDE'', ''PUBLIC'', ''PUDDING'', ''PULL'', ''PULP'', ''PULSE'',
      ''PUMPKIN'', ''PUNCH'', ''PUPIL'', ''PUPPY'', ''PURCHASE'', ''PURITY'', ''PURPOSE'', ''PURSE'',
      ''PUSH'', ''PUT'', ''PUZZLE'', ''PYRAMID'', ''QUALITY'', ''QUANTUM'', ''QUARTER'', ''QUESTION'',
      ''QUICK'', ''QUIT'', ''QUIZ'', ''QUOTE'', ''RABBIT'', ''RACCOON'', ''RACE'', ''RACK'', ''RADAR'',
      ''RADIO'', ''RAIL'', ''RAIN'', ''RAISE'', ''RALLY'', ''RAMP'', ''RANCH'', ''RANDOM'', ''RANGE'',
      ''RAPID'', ''RARE'', ''RATE'', ''RATHER'', ''RAVEN'', ''RAW'', ''RAZOR'', ''READY'', ''REAL'',
      ''REASON'', ''REBEL'', ''REBUILD'', ''RECALL'', ''RECEIVE'', ''RECIPE'', ''RECORD'', ''RECYCLE'',
      ''REDUCE'', ''REFLECT'', ''REFORM'', ''REFUSE'', ''REGION'', ''REGRET'', ''REGULAR'', ''REJECT'',
      ''RELAX'', ''RELEASE'', ''RELIEF'', ''RELY'', ''REMAIN'', ''REMEMBER'', ''REMIND'', ''REMOVE'',
      ''RENDER'', ''RENEW'', ''RENT'', ''REOPEN'', ''REPAIR'', ''REPEAT'', ''REPLACE'', ''REPORT'',
      ''REQUIRE'', ''RESCUE'', ''RESEMBLE'', ''RESIST'', ''RESOURCE'', ''RESPONSE'', ''RESULT'',
      ''RETIRE'', ''RETREAT'', ''RETURN'', ''REUNION'', ''REVEAL'', ''REVIEW'', ''REWARD'', ''RHYTHM'',
      ''RIB'', ''RIBBON'', ''RICE'', ''RICH'', ''RIDE'', ''RIDGE'', ''RIFLE'', ''RIGHT'', ''RIGID'',
      ''RING'', ''RIOT'', ''RIPPLE'', ''RISK'', ''RITUAL'', ''RIVAL'', ''RIVER'', ''ROAD'', ''ROAST'',
      ''ROBOT'', ''ROBUST'', ''ROCKET'', ''ROMANCE'', ''ROOF'', ''ROOKIE'', ''ROOM'', ''ROSE'',
      ''ROTATE'', ''ROUGH'', ''ROUND'', ''ROUTE'', ''ROYAL'', ''RUBBER'', ''RUDE'', ''RUG'', ''RULE'',
      ''RUN'', ''RUNWAY'', ''RURAL'', ''SAD'', ''SADDLE'', ''SADNESS'', ''SAFE'', ''SAIL'', ''SALAD'',
      ''SALMON'', ''SALON'', ''SALT'', ''SALUTE'', ''SAME'', ''SAMPLE'', ''SAND'', ''SATISFY'',
      ''SATOSHI'', ''SAUCE'', ''SAUSAGE'', ''SAVE'', ''SAY'', ''SCALE'', ''SCAN'', ''SCARE'',
      ''SCATTER'', ''SCENE'', ''SCHEME'', ''SCHOOL'', ''SCIENCE'', ''SCISSORS'', ''SCORPION'', ''SCOUT'',
      ''SCRAP'', ''SCREEN'', ''SCRIPT'', ''SCRUB'', ''SEA'', ''SEARCH'', ''SEASON'', ''SEAT'',
      ''SECOND'', ''SECRET'', ''SECTION'', ''SECURITY'', ''SEED'', ''SEEK'', ''SEGMENT'', ''SELECT'',
      ''SELL'', ''SEMINAR'', ''SENIOR'', ''SENSE'', ''SENTENCE'', ''SERIES'', ''SERVICE'', ''SESSION'',
      ''SETTLE'', ''SETUP'', ''SEVEN'', ''SHADOW'', ''SHAFT'', ''SHALLOW'', ''SHARE'', ''SHED'',
      ''SHELL'', ''SHERIFF'', ''SHIELD'', ''SHIFT'', ''SHINE'', ''SHIP'', ''SHIVER'', ''SHOCK'',
      ''SHOE'', ''SHOOT'', ''SHOP'', ''SHORT'', ''SHOULDER'', ''SHOVE'', ''SHRIMP'', ''SHRUG'',
      ''SHUFFLE'', ''SHY'', ''SIBLING'', ''SICK'', ''SIDE'', ''SIEGE'', ''SIGHT'', ''SIGN'', ''SILENT'',
      ''SILK'', ''SILLY'', ''SILVER'', ''SIMILAR'', ''SIMPLE'', ''SINCE'', ''SING'', ''SIREN'',
      ''SISTER'', ''SITUATE'', ''SIX'', ''SIZE'', ''SKATE'', ''SKETCH'', ''SKI'', ''SKILL'', ''SKIN'',
      ''SKIRT'', ''SKULL'', ''SLAB'', ''SLAM'', ''SLEEP'', ''SLENDER'', ''SLICE'', ''SLIDE'', ''SLIGHT'',
      ''SLIM'', ''SLOGAN'', ''SLOT'', ''SLOW'', ''SLUSH'', ''SMALL'', ''SMART'', ''SMILE'', ''SMOKE'',
      ''SMOOTH'', ''SNACK'', ''SNAKE'', ''SNAP'', ''SNIFF'', ''SNOW'', ''SOAP'', ''SOCCER'', ''SOCIAL'',
      ''SOCK'', ''SODA'', ''SOFT'', ''SOLAR'', ''SOLDIER'', ''SOLID'', ''SOLUTION'', ''SOLVE'',
      ''SOMEONE'', ''SONG'', ''SOON'', ''SORRY'', ''SORT'', ''SOUL'', ''SOUND'', ''SOUP'', ''SOURCE'',
      ''SOUTH'', ''SPACE'', ''SPARE'', ''SPATIAL'', ''SPAWN'', ''SPEAK'', ''SPECIAL'', ''SPEED'',
      ''SPELL'', ''SPEND'', ''SPHERE'', ''SPICE'', ''SPIDER'', ''SPIKE'', ''SPIN'', ''SPIRIT'',
      ''SPLIT'', ''SPOIL'', ''SPONSOR'', ''SPOON'', ''SPORT'', ''SPOT'', ''SPRAY'', ''SPREAD'',
      ''SPRING'', ''SPY'', ''SQUARE'', ''SQUEEZE'', ''SQUIRREL'', ''STABLE'', ''STADIUM'', ''STAFF'',
      ''STAGE'', ''STAIRS'', ''STAMP'', ''STAND'', ''START'', ''STATE'', ''STAY'', ''STEAK'', ''STEEL'',
      ''STEM'', ''STEP'', ''STEREO'', ''STICK'', ''STILL'', ''STING'', ''STOCK'', ''STOMACH'', ''STONE'',
      ''STOOL'', ''STORY'', ''STOVE'', ''STRATEGY'', ''STREET'', ''STRIKE'', ''STRONG'', ''STRUGGLE'',
      ''STUDENT'', ''STUFF'', ''STUMBLE'', ''STYLE'', ''SUBJECT'', ''SUBMIT'', ''SUBWAY'', ''SUCCESS'',
      ''SUCH'', ''SUDDEN'', ''SUFFER'', ''SUGAR'', ''SUGGEST'', ''SUIT'', ''SUMMER'', ''SUN'', ''SUNNY'',
      ''SUNSET'', ''SUPER'', ''SUPPLY'', ''SUPREME'', ''SURE'', ''SURFACE'', ''SURGE'', ''SURPRISE'',
      ''SURROUND'', ''SURVEY'', ''SUSPECT'', ''SUSTAIN'', ''SWALLOW'', ''SWAMP'', ''SWAP'', ''SWARM'',
      ''SWEAR'', ''SWEET'', ''SWIFT'', ''SWIM'', ''SWING'', ''SWITCH'', ''SWORD'', ''SYMBOL'',
      ''SYMPTOM'', ''SYRUP'', ''SYSTEM'', ''TABLE'', ''TACKLE'', ''TAG'', ''TAIL'', ''TALENT'', ''TALK'',
      ''TANK'', ''TAPE'', ''TARGET'', ''TASK'', ''TASTE'', ''TATTOO'', ''TAXI'', ''TEACH'', ''TEAM'',
      ''TELL'', ''TEN'', ''TENANT'', ''TENNIS'', ''TENT'', ''TERM'', ''TEST'', ''TEXT'', ''THANK'',
      ''THAT'', ''THEME'', ''THEN'', ''THEORY'', ''THERE'', ''THEY'', ''THING'', ''THIS'', ''THOUGHT'',
      ''THREE'', ''THRIVE'', ''THROW'', ''THUMB'', ''THUNDER'', ''TICKET'', ''TIDE'', ''TIGER'',
      ''TILT'', ''TIMBER'', ''TIME'', ''TINY'', ''TIP'', ''TIRED'', ''TISSUE'', ''TITLE'', ''TOAST'',
      ''TOBACCO'', ''TODAY'', ''TODDLER'', ''TOE'', ''TOGETHER'', ''TOILET'', ''TOKEN'', ''TOMATO'',
      ''TOMORROW'', ''TONE'', ''TONGUE'', ''TONIGHT'', ''TOOL'', ''TOOTH'', ''TOP'', ''TOPIC'',
      ''TOPPLE'', ''TORCH'', ''TORNADO'', ''TORTOISE'', ''TOSS'', ''TOTAL'', ''TOURIST'', ''TOWARD'',
      ''TOWER'', ''TOWN'', ''TOY'', ''TRACK'', ''TRADE'', ''TRAFFIC'', ''TRAGIC'', ''TRAIN'',
      ''TRANSFER'', ''TRAP'', ''TRASH'', ''TRAVEL'', ''TRAY'', ''TREAT'', ''TREE'', ''TREND'', ''TRIAL'',
      ''TRIBE'', ''TRICK'', ''TRIGGER'', ''TRIM'', ''TRIP'', ''TROPHY'', ''TROUBLE'', ''TRUCK'',
      ''TRUE'', ''TRULY'', ''TRUMPET'', ''TRUST'', ''TRUTH'', ''TRY'', ''TUBE'', ''TUITION'', ''TUMBLE'',
      ''TUNA'', ''TUNNEL'', ''TURKEY'', ''TURN'', ''TURTLE'', ''TWELVE'', ''TWENTY'', ''TWICE'',
      ''TWIN'', ''TWIST'', ''TWO'', ''TYPE'', ''TYPICAL'', ''UGLY'', ''UMBRELLA'', ''UNABLE'',
      ''UNAWARE'', ''UNCLE'', ''UNCOVER'', ''UNDER'', ''UNDO'', ''UNFAIR'', ''UNFOLD'', ''UNHAPPY'',
      ''UNIFORM'', ''UNIQUE'', ''UNIT'', ''UNIVERSE'', ''UNKNOWN'', ''UNLOCK'', ''UNTIL'', ''UNUSUAL'',
      ''UNVEIL'', ''UPDATE'', ''UPGRADE'', ''UPHOLD'', ''UPON'', ''UPPER'', ''UPSET'', ''URBAN'',
      ''URGE'', ''USAGE'', ''USE'', ''USED'', ''USEFUL'', ''USELESS'', ''USUAL'', ''UTILITY'',
      ''VACANT'', ''VACUUM'', ''VAGUE'', ''VALID'', ''VALLEY'', ''VALVE'', ''VAN'', ''VANISH'',
      ''VAPOR'', ''VARIOUS'', ''VAST'', ''VAULT'', ''VEHICLE'', ''VELVET'', ''VENDOR'', ''VENTURE'',
      ''VENUE'', ''VERB'', ''VERIFY'', ''VERSION'', ''VERY'', ''VESSEL'', ''VETERAN'', ''VIABLE'',
      ''VIBRANT'', ''VICIOUS'', ''VICTORY'', ''VIDEO'', ''VIEW'', ''VILLAGE'', ''VINTAGE'', ''VIOLIN'',
      ''VIRTUAL'', ''VIRUS'', ''VISA'', ''VISIT'', ''VISUAL'', ''VITAL'', ''VIVID'', ''VOCAL'',
      ''VOICE'', ''VOID'', ''VOLCANO'', ''VOLUME'', ''VOTE'', ''VOYAGE'', ''WAGE'', ''WAGON'', ''WAIT'',
      ''WALK'', ''WALL'', ''WALNUT'', ''WANT'', ''WARFARE'', ''WARM'', ''WARRIOR'', ''WASH'', ''WASP'',
      ''WASTE'', ''WATER'', ''WAVE'', ''WAY'', ''WEALTH'', ''WEAPON'', ''WEAR'', ''WEASEL'', ''WEATHER'',
      ''WEB'', ''WEDDING'', ''WEEKEND'', ''WEIRD'', ''WELCOME'', ''WEST'', ''WET'', ''WHALE'', ''WHAT'',
      ''WHEAT'', ''WHEEL'', ''WHEN'', ''WHERE'', ''WHIP'', ''WHISPER'', ''WIDE'', ''WIDTH'', ''WIFE'',
      ''WILD'', ''WILL'', ''WIN'', ''WINDOW'', ''WINE'', ''WING'', ''WINK'', ''WINNER'', ''WINTER'',
      ''WIRE'', ''WISDOM'', ''WISE'', ''WISH'', ''WITNESS'', ''WOLF'', ''WOMAN'', ''WONDER'', ''WOOD'',
      ''WOOL'', ''WORD'', ''WORK'', ''WORLD'', ''WORRY'', ''WORTH'', ''WRAP'', ''WRECK'', ''WRESTLE'',
      ''WRIST'', ''WRITE'', ''WRONG'', ''YARD'', ''YEAR'', ''YELLOW'', ''YOU'', ''YOUNG'', ''YOUTH'',
      ''ZEBRA'', ''ZERO'', ''ZONE'', ''ZOO'']"

subsection \<open>Checking it\<close>

text \<open>The code points of the capitals, as rewrite rules of one step.\<close>

lemma capital_codes:
  "of_char (CHR ''A'') = (65::nat)" "of_char (CHR ''B'') = (66::nat)"
  "of_char (CHR ''C'') = (67::nat)" "of_char (CHR ''D'') = (68::nat)"
  "of_char (CHR ''E'') = (69::nat)" "of_char (CHR ''F'') = (70::nat)"
  "of_char (CHR ''G'') = (71::nat)" "of_char (CHR ''H'') = (72::nat)"
  "of_char (CHR ''I'') = (73::nat)" "of_char (CHR ''J'') = (74::nat)"
  "of_char (CHR ''K'') = (75::nat)" "of_char (CHR ''L'') = (76::nat)"
  "of_char (CHR ''M'') = (77::nat)" "of_char (CHR ''N'') = (78::nat)"
  "of_char (CHR ''O'') = (79::nat)" "of_char (CHR ''P'') = (80::nat)"
  "of_char (CHR ''Q'') = (81::nat)" "of_char (CHR ''R'') = (82::nat)"
  "of_char (CHR ''S'') = (83::nat)" "of_char (CHR ''T'') = (84::nat)"
  "of_char (CHR ''U'') = (85::nat)" "of_char (CHR ''V'') = (86::nat)"
  "of_char (CHR ''W'') = (87::nat)" "of_char (CHR ''X'') = (88::nat)"
  "of_char (CHR ''Y'') = (89::nat)" "of_char (CHR ''Z'') = (90::nat)"
  by simp_all

fun before :: "string \<Rightarrow> string \<Rightarrow> bool" where
  "before [] ys \<longleftrightarrow> ys \<noteq> []"
| "before (x # xs) [] \<longleftrightarrow> False"
| "before (x # xs) (y # ys) \<longleftrightarrow>
     (if (of_char x :: nat) = of_char y then before xs ys else (of_char x :: nat) < of_char y)"

fun ascending :: "words \<Rightarrow> bool" where
  "ascending (v # w # ws) \<longleftrightarrow> before v w \<and> ascending (w # ws)"
| "ascending _ \<longleftrightarrow> True"

definition capital :: "char \<Rightarrow> bool" where
  "capital c \<longleftrightarrow> 65 \<le> (of_char c :: nat) \<and> (of_char c :: nat) \<le> 90"

fun capitals :: "nat \<Rightarrow> string \<Rightarrow> bool" where
  "capitals n [] \<longleftrightarrow> True"
| "capitals 0 (c # cs) \<longleftrightarrow> False"
| "capitals (Suc n) (c # cs) \<longleftrightarrow> 65 \<le> (of_char c :: nat) \<and> (of_char c :: nat) \<le> 90 \<and> capitals n cs"

text \<open>The first letters, once for each block of words that share it.\<close>

fun heads :: "words \<Rightarrow> string" where
  "heads (v # w # ws) = (if (of_char (hd v) :: nat) = of_char (hd w) then heads (w # ws) else hd v # heads (w # ws))"
| "heads ws = map hd ws"

subsection \<open>A set of letters\<close>

text \<open>The letters of a \<open>ValidLetters\<close>, in the order \<open>iter_valid\<close> gives them.\<close>

definition alphabet :: string where
  "alphabet = map letter_at [0 ..< 26]"

lemma capital_letter_at: "i < 26 \<Longrightarrow> capital (letter_at i) \<and> letter_to_index (letter_at i) = Some i"
  by (simp add: capital_def letter_at_def letter_to_index_def of_char_of)

lemma letter_to_index_Some: "letter_to_index c = Some i \<longleftrightarrow> i < 26 \<and> c = letter_at i"
  by (auto simp: letter_at_def letter_to_index_def of_char_of char_of_def[symmetric] split: if_splits)

lemma letter_at_inject: "i < 26 \<Longrightarrow> j < 26 \<Longrightarrow> letter_at i = letter_at j \<longleftrightarrow> i = j"
  by (metis letter_to_index_Some option.inject)

lemma letter_to_index_None: "letter_to_index c = None \<longleftrightarrow> \<not> capital c"
  by (auto simp: letter_to_index_def capital_def)

lemma capital_alphabet: "c \<in> set alphabet \<Longrightarrow> capital c"
  by (auto simp: alphabet_def capital_letter_at)

lemma set_alphabet: "set alphabet = {c. capital c}"
proof (rule set_eqI)
  fix c
  have "c \<in> set alphabet" if "letter_to_index c = Some i" for i
    using that by (auto simp: letter_to_index_Some alphabet_def)
  then show "c \<in> set alphabet \<longleftrightarrow> c \<in> {c. capital c}"
    using letter_to_index_None[of c] capital_alphabet[of c] by (cases "letter_to_index c") auto
qed

lemma iter_valid_alt:
  "length (vl_letters v) = 26 \<Longrightarrow> iter_valid v = filter (vl_is_valid v) alphabet"
proof -
  assume l: "length (vl_letters v) = 26"
  have "enumerate 0 (vl_letters v) = map (\<lambda>i. (i, vl_letters v ! i)) [0 ..< 26]"
    by (rule nth_equalityI) (simp_all add: l nth_enumerate_eq)
  then have "iter_valid v = map letter_at (filter (\<lambda>i. vl_letters v ! i) [0 ..< 26])"
    by (simp add: iter_valid_def filter_map o_def case_prod_unfold)
  also have "\<dots> = map letter_at (filter (\<lambda>i. vl_is_valid v (letter_at i)) [0 ..< 26])"
    by (rule arg_cong[where f = "map letter_at"], rule filter_cong) (simp_all add: vl_is_valid_def capital_letter_at)
  finally show ?thesis by (simp add: alphabet_def filter_map o_def)
qed

lemma vl_is_valid_set:
  "length (vl_letters v) = 26 \<Longrightarrow> vl_is_valid (vl_set c v) d \<longleftrightarrow> vl_is_valid v d \<or> (capital c \<and> d = c)"
  by (auto simp: vl_is_valid_def vl_set_def letter_to_index_Some letter_to_index_None letter_at_inject nth_list_update capital_letter_at split: option.splits)

lemma length_vl_set [simp]: "length (vl_letters (vl_set c v)) = length (vl_letters v)"
  by (simp add: vl_set_def split: option.splits)

lemma default_letters_all:
  "list_all (\<lambda>c. vl_is_valid vl_default c \<longleftrightarrow> c \<in> set ''ABCDEFGHIJKLMNOPQRSTUVWYZ'') alphabet"
  by code_simp

lemma default_letters:
  "c \<in> set alphabet \<Longrightarrow> vl_is_valid vl_default c \<longleftrightarrow> c \<in> set ''ABCDEFGHIJKLMNOPQRSTUVWYZ''"
  using default_letters_all unfolding list_all_iff by blast
lemma before_less: "before v w \<longleftrightarrow> v < w"
  by (induction v w rule: before.induct) (auto simp: less_char_def neq_Nil_conv list_less_def)

lemma ascending_sorted: "ascending ws \<Longrightarrow> sorted_wrt (<) ws"
  by (induction ws rule: ascending.induct) (auto simp: before_less)

lemma capitals_iff: "capitals n w \<longleftrightarrow> length w \<le> n \<and> (\<forall>c \<in> set w. capital c)"
  by (induction n w rule: capitals.induct) (auto simp: capital_def)

lemma set_heads: "set (heads ws) = hd ` set ws"
  by (induction ws rule: heads.induct) auto

lemmas list_checks = capital_codes if_True if_False simp_thms rel_simps list.distinct

lemma list_ascends: "ascending BIP39_WORDS"
  unfolding BIP39_WORDS_def by (simp only: ascending.simps before.simps list_checks)

lemma list_capitals: "list_all (capitals (Suc (Suc (Suc (Suc (Suc (Suc (Suc (Suc 0))))))))) BIP39_WORDS"
  unfolding BIP39_WORDS_def by (simp only: list.pred_inject capitals.simps list_checks)

lemma list_nonempty: "list_all (\<lambda>w. w \<noteq> []) BIP39_WORDS"
  unfolding BIP39_WORDS_def by (simp only: list.pred_inject list_checks not_False_eq_True)

lemma list_length: "length BIP39_WORDS = 2048"
  unfolding BIP39_WORDS_def by simp

text \<open>One rewrite step a word, which never looks at the rest of the list twice.\<close>

lemma heads_same: "(of_char (hd v) :: nat) = of_char (hd w) \<Longrightarrow> heads (v # w # ws) = heads (w # ws)"
  by simp

lemma heads_next: "(of_char (hd v) :: nat) \<noteq> of_char (hd w) \<Longrightarrow> heads (v # w # ws) = hd v # heads (w # ws)"
  by simp

lemma heads_last: "heads [w] = [hd w]"
  by simp

lemma list_heads: "heads BIP39_WORDS = ''ABCDEFGHIJKLMNOPQRSTUVWYZ''"
  unfolding BIP39_WORDS_def by (simp only: heads_same heads_next heads_last list.sel list_checks not_False_eq_True)

subsection \<open>What the lookups find\<close>

text \<open>Blocks of a sorted list.\<close>

lemma takeWhile_block:
  "sorted_wrt R ws \<Longrightarrow> \<forall>v w. R v w \<and> \<not> P v \<and> \<not> Q v \<and> \<not> P w \<longrightarrow> \<not> Q w \<Longrightarrow> \<forall>w \<in> set ws. \<not> P w \<Longrightarrow>
   takeWhile Q ws = filter Q ws"
proof (induction ws)
  case (Cons w ws)
  show ?case
  proof (cases "Q w")
    case True
    then show ?thesis using Cons by simp
  next
    case False
    then have "filter Q ws = []" using Cons.prems unfolding filter_empty_conv by (metis list.set_intros sorted_wrt.simps(2))
    then show ?thesis using False by simp
  qed
qed simp

lemma block_of_sorted:
  "sorted_wrt R ws \<Longrightarrow> \<forall>v w. R v w \<and> P w \<longrightarrow> P v \<Longrightarrow> \<forall>w. P w \<longrightarrow> \<not> Q w \<Longrightarrow>
   \<forall>v w. R v w \<and> \<not> P v \<and> \<not> Q v \<and> \<not> P w \<longrightarrow> \<not> Q w \<Longrightarrow>
   takeWhile Q (drop (partition_point P ws) ws) = filter Q ws"
proof (induction ws)
  case (Cons w ws)
  show ?case
  proof (cases "P w")
    case True
    then show ?thesis using Cons by (simp add: partition_point_def)
  next
    case False
    then have none: "\<forall>u \<in> set (w # ws). \<not> P u" using Cons.prems(1,2) by auto
    then show ?thesis using takeWhile_block[OF Cons.prems(1,4) none] False by (simp add: partition_point_def)
  qed
qed (simp add: partition_point_def)

lemma starts_with_simps [simp]:
  "starts_with w []"
  "\<not> starts_with [] (c # p)"
  "starts_with (d # w) (c # p) \<longleftrightarrow> d = c \<and> starts_with w p"
  by (auto simp: starts_with_def)

lemma starts_with_one: "starts_with w [c] \<longleftrightarrow> (\<exists>v. w = c # v)"
  by (cases w) auto

lemma starts_with_snoc: "starts_with w (p @ [c]) \<longleftrightarrow> starts_with w p \<and> (\<exists>rest. drop (length p) w = c # rest)"
proof (induction p arbitrary: w)
  case (Cons d p)
  then show ?case by (cases w) auto
qed (simp add: starts_with_one)

lemma not_less_prefix: "w < p \<Longrightarrow> \<not> starts_with w p"
proof (induction p arbitrary: w)
  case (Cons c p)
  then show ?case by (cases w) auto
qed simp

lemma past_prefix: "v < w \<Longrightarrow> \<not> v < p \<Longrightarrow> \<not> starts_with v p \<Longrightarrow> \<not> starts_with w p"
proof (induction p arbitrary: v w)
  case (Cons c p)
  show ?case
  proof (cases v)
    case Nil
    then show ?thesis using Cons.prems by simp
  next
    case v: (Cons d v')
    then show ?thesis using Cons by (cases w) auto
  qed
qed simp

lemma clipped_less: "take (min (length p) (length w)) w < p \<longleftrightarrow> w < p"
proof (induction p arbitrary: w)
  case (Cons c p)
  then show ?case by (cases w) auto
qed simp

text \<open>What the code relies on of the list, and what its lookups then find: a word at its own index,
  the words that start with a prefix, and the letters some word of the list continues a prefix
  with.\<close>

locale wordlist =
  fixes W :: words
  assumes len: "length W = 2048"
    and sorted: "sorted_wrt (<) W"
    and shape: "w \<in> set W \<Longrightarrow> w \<noteq> [] \<and> length w \<le> 8 \<and> (\<forall>c \<in> set w. capital c)"
    and first_letters: "(\<exists>w. c # w \<in> set W) \<longleftrightarrow> c \<in> set ''ABCDEFGHIJKLMNOPQRSTUVWYZ''"
begin

lemma distinct: "distinct W"
  using sorted by (simp add: strict_sorted_iff)

lemma indexed: "indexed W"
  by (rule distinct_indexed[OF distinct len])

lemma index_iff: "word_to_index W p = Some i \<longleftrightarrow> i < 2048 \<and> W ! i = p"
  using indexed len by (auto simp: indexed_def word_to_index_def position_Some)

lemma prefix_block: "words_with_prefix W p = filter (\<lambda>w. starts_with w p) W"
proof (cases "p = []")
  case True
  then show ?thesis by (simp add: words_with_prefix_def)
next
  case False
  have "takeWhile (\<lambda>w. starts_with w p) (drop (partition_point (\<lambda>w. w < p) W) W) = filter (\<lambda>w. starts_with w p) W"
    by (rule block_of_sorted[OF sorted]) (auto intro: less_trans dest: not_less_prefix past_prefix)
  then show ?thesis using False by (simp add: words_with_prefix_def)
qed

lemma word_itself: "p \<in> set W \<Longrightarrow> \<exists>ws. words_with_prefix W p = p # ws"
proof -
  assume p: "p \<in> set W"
  then obtain us vs where W: "W = us @ p # vs" by (meson split_list)
  have "\<not> starts_with u p" if "u \<in> set us" for u
    using sorted that not_less_prefix unfolding W by (auto simp: sorted_wrt_append)
  moreover have "starts_with p p" by (simp add: starts_with_def)
  ultimately show ?thesis unfolding prefix_block unfolding W by simp
qed

text \<open>The letters that follow a prefix in the list: exactly those some word has there.\<close>

lemma next_words: "note_letters p (drop (partition_point (\<lambda>w. take (min (length p) (length w)) w < p) W) W) v =
    foldl (\<lambda>v w. case drop (length p) w of [] \<Rightarrow> v | c # _ \<Rightarrow> vl_set c v) v (filter (\<lambda>w. starts_with w p) W)"
proof -
  have scan: "note_letters p ws v = foldl (\<lambda>v w. case drop (length p) w of [] \<Rightarrow> v | c # _ \<Rightarrow> vl_set c v) v
      (takeWhile (\<lambda>w. starts_with w p) ws)" for ws v
    by (induction ws arbitrary: v) (simp_all add: strip_prefix_def)
  have "takeWhile (\<lambda>w. starts_with w p) (drop (partition_point (\<lambda>w. w < p) W) W) = filter (\<lambda>w. starts_with w p) W"
    by (rule block_of_sorted[OF sorted]) (auto intro: less_trans dest: not_less_prefix past_prefix)
  then show ?thesis by (simp only: scan clipped_less)
qed

lemma next_letters:
  "iter_valid (get_valid_next_letters W p) = filter (\<lambda>c. \<exists>w \<in> set W. starts_with w (p @ [c])) alphabet"
proof (cases "p = []")
  case True
  have "vl_is_valid vl_default c \<longleftrightarrow> (\<exists>w \<in> set W. starts_with w [c])" if "c \<in> set alphabet" for c
  proof -
    have "vl_is_valid vl_default c \<longleftrightarrow> c \<in> set ''ABCDEFGHIJKLMNOPQRSTUVWYZ''"
      using that default_letters by simp
    then show ?thesis unfolding first_letters[symmetric] by (force simp: starts_with_one)
  qed
  moreover have "length (vl_letters vl_default) = 26" by (simp add: vl_default_def DEFAULT_VALID_LETTERS_def)
  ultimately show ?thesis using True by (simp add: get_valid_next_letters_def iter_valid_alt cong: filter_cong)
next
  case False
  let ?next = "\<lambda>v w. case drop (length p) w of [] \<Rightarrow> v | c # _ \<Rightarrow> vl_set c v"
  have note_all: "length (vl_letters v) = 26 \<Longrightarrow> length (vl_letters (foldl ?next v ws)) = 26 \<and>
      (vl_is_valid (foldl ?next v ws) d \<longleftrightarrow>
        vl_is_valid v d \<or> capital d \<and> (\<exists>w \<in> set ws. \<exists>rest. drop (length p) w = d # rest))" for v ws d
  proof (induction ws arbitrary: v)
    case (Cons w ws)
    have l: "length (vl_letters (?next v w)) = 26" using Cons.prems by (simp split: list.split)
    have s: "vl_is_valid (?next v w) d \<longleftrightarrow> vl_is_valid v d \<or> capital d \<and> (\<exists>rest. drop (length p) w = d # rest)"
      using Cons.prems by (auto simp: vl_is_valid_set split: list.split)
    show ?case using Cons.IH[OF l] s by auto
  qed simp
  have l0: "length (vl_letters all_false) = 26" by (simp add: all_false_def)
  have "\<not> vl_is_valid all_false d" for d
    by (auto simp: vl_is_valid_def all_false_def letter_to_index_Some split: option.split)
  then have "vl_is_valid (get_valid_next_letters W p) c \<longleftrightarrow> (\<exists>w \<in> set W. starts_with w (p @ [c]))"
    if "c \<in> set alphabet" for c
    using that False note_all[OF l0] capital_alphabet[OF that]
    by (auto simp: get_valid_next_letters_def next_words starts_with_snoc)
  moreover have "length (vl_letters (get_valid_next_letters W p)) = 26"
    using False note_all[OF l0] by (simp add: get_valid_next_letters_def next_words)
  ultimately show ?thesis by (simp add: iter_valid_alt cong: filter_cong)
qed

end

interpretation bip39: wordlist BIP39_WORDS
proof
  show "length BIP39_WORDS = 2048" by (rule list_length)
  show "sorted_wrt (<) BIP39_WORDS" by (rule ascending_sorted[OF list_ascends])
next
  fix w assume "w \<in> set BIP39_WORDS"
  then show "w \<noteq> [] \<and> length w \<le> 8 \<and> (\<forall>c \<in> set w. capital c)"
    using list_capitals list_nonempty unfolding list_all_iff capitals_iff by (simp add: eval_nat_numeral)
next
  fix c
  have "(\<exists>w. c # w \<in> set BIP39_WORDS) \<longleftrightarrow> c \<in> hd ` set BIP39_WORDS"
    using list_nonempty unfolding list_all_iff by (force simp: image_iff neq_Nil_conv)
  then show "(\<exists>w. c # w \<in> set BIP39_WORDS) \<longleftrightarrow> c \<in> set ''ABCDEFGHIJKLMNOPQRSTUVWYZ''"
    by (simp only: set_heads[symmetric] list_heads)
qed

text \<open>The words the samples use.\<close>

lemma first_words: "''ABANDON'' \<in> set BIP39_WORDS \<and> ''ABILITY'' \<in> set BIP39_WORDS"
proof -
  have "\<exists>ws. BIP39_WORDS = ''ABANDON'' # ''ABILITY'' # ws"
    unfolding BIP39_WORDS_def by (rule exI, rule refl)
  then obtain ws where ws: "BIP39_WORDS = ''ABANDON'' # ''ABILITY'' # ws" ..
  show ?thesis unfolding ws by (simp only: list.set insert_iff simp_thms)
qed

end
