(* ===== verification/WordEntry.thy ===== *)
theory WordEntry
  imports WordList
begin

text \<open>
  \<open>firmware/src/wordentry.rs\<close>: typing a backup in, one key at a time, with the page
  arithmetic of \<open>ui::WordEntry\<close>. The fixed buffers of \<open>Uppercase\<close> are their text and
  their capacity (what lies past the length is never read). A key is answered by what changed and
  the new machine; \<open>None\<close> is the panic of an index out of bounds.
\<close>

subsection \<open>The keys and the bounds, from ui.rs\<close>

definition ENTRY_LETTER_KEYS :: bytes where "ENTRY_LETTER_KEYS = [49, 50, 51, 52, 53, 54, 55, 56, 57]"
definition ENTRY_LETTERS_PER_PAGE :: nat where "ENTRY_LETTERS_PER_PAGE = length ENTRY_LETTER_KEYS"
definition ENTRY_PAGE_KEY :: u8 where "ENTRY_PAGE_KEY = 48"
definition ENTRY_OK_KEY :: u8 where "ENTRY_OK_KEY = 121"
definition ENTRY_DELETE_KEY :: u8 where "ENTRY_DELETE_KEY = 120"
definition MAX_CANDIDATE_LETTERS :: nat where "MAX_CANDIDATE_LETTERS = 26"
definition MAX_WORD_LEN :: nat where "MAX_WORD_LEN = 8"
definition BACKUP_WORDS :: nat where "BACKUP_WORDS = 25"

lemmas entry_consts = ENTRY_LETTERS_PER_PAGE_def ENTRY_LETTER_KEYS_def ENTRY_PAGE_KEY_def
  ENTRY_OK_KEY_def ENTRY_DELETE_KEY_def MAX_CANDIDATE_LETTERS_def MAX_WORD_LEN_def BACKUP_WORDS_def

subsection \<open>Uppercase\<close>

definition is_ascii_uppercase :: "char \<Rightarrow> bool" where
  "is_ascii_uppercase c \<longleftrightarrow> 65 \<le> (of_char c :: nat) \<and> (of_char c :: nat) \<le> 90"

definition up_push :: "nat \<Rightarrow> char \<Rightarrow> string \<Rightarrow> bool \<times> string" where
  "up_push cap letter s =
     (if \<not> is_ascii_uppercase letter then (False, s)
      else if length s < cap then (True, s @ [letter])
      else (False, s))"

definition up_pop :: "string \<Rightarrow> bool \<times> string" where
  "up_pop s = (if s = [] then (False, s) else (True, butlast s))"

fun up_load_from :: "nat \<Rightarrow> string \<Rightarrow> string \<Rightarrow> bool \<times> string" where
  "up_load_from cap [] s = (True, s)"
| "up_load_from cap (c # cs) s =
     (case up_push cap c s of
        (True, s') \<Rightarrow> up_load_from cap cs s'
      | (False, _) \<Rightarrow> (False, []))"

definition up_load :: "nat \<Rightarrow> string \<Rightarrow> bool \<times> string" where
  "up_load cap w = up_load_from cap w []"

subsection \<open>The machine\<close>

datatype entry_stage = StageIndex | StageWord | StageFailed

datatype entry_step = StepUnchanged | StepRedraw | StepAbort | StepEntered share_backup

record entry =
  en_id :: bytes
  en_stage :: entry_stage
  en_index :: nat
  en_words :: "string option list"
  en_cursor :: nat
  en_prefix :: string
  en_letters :: string
  en_page :: nat

definition refresh :: "words \<Rightarrow> entry \<Rightarrow> entry" where
  "refresh W e = e\<lparr>
     en_letters := foldl (\<lambda>s c. snd (up_push MAX_CANDIDATE_LETTERS c s)) []
                     (iter_valid (get_valid_next_letters W (en_prefix e))),
     en_page := 0\<rparr>"

definition entry_new :: "words \<Rightarrow> bytes \<Rightarrow> entry" where
  "entry_new W i = refresh W
     \<lparr>en_id = i, en_stage = StageIndex, en_index = 0, en_words = replicate BACKUP_WORDS None,
      en_cursor = 0, en_prefix = [], en_letters = [], en_page = 0\<rparr>"

definition enter_physical_id :: "entry \<Rightarrow> bytes" where
  "enter_physical_id e = en_id e"

definition entry_slot :: "entry \<Rightarrow> u8 \<Rightarrow> char option" where
  "entry_slot e key =
     (if en_stage e \<noteq> StageWord then None
      else case iter_position (\<lambda>k. k = key) ENTRY_LETTER_KEYS of
        None \<Rightarrow> None
      | Some index \<Rightarrow>
          (let at = en_page e * ENTRY_LETTERS_PER_PAGE + index in
           if at < length (en_letters e) then Some (en_letters e ! at) else None))"

definition unique :: "words \<Rightarrow> entry \<Rightarrow> string option" where
  "unique W e = (case words_with_prefix W (en_prefix e) of [only] \<Rightarrow> Some only | _ \<Rightarrow> None)"

definition whole_word :: "words \<Rightarrow> entry \<Rightarrow> string option" where
  "whole_word W e =
     (case words_with_prefix W (en_prefix e) of
        [] \<Rightarrow> None
      | word # _ \<Rightarrow> if word = en_prefix e then Some word else None)"

definition accept :: "words \<Rightarrow> entry \<Rightarrow> string option" where
  "accept W e = (case unique W e of Some word \<Rightarrow> Some word | None \<Rightarrow> whole_word W e)"

text \<open>\<open>ui::WordEntry\<close>, the page as the renderer receives it.\<close>

record word_entry_view =
  we_number :: nat
  we_partial :: string
  we_previous :: "string option"
  we_candidates :: string
  we_page :: nat
  we_complete :: bool

definition word_entry :: "words \<Rightarrow> entry \<Rightarrow> word_entry_view" where
  "word_entry W e =
     \<lparr>we_number = en_cursor e + 1, we_partial = en_prefix e,
      we_previous = (if en_cursor e = 0 then None else en_words e ! (en_cursor e - 1)),
      we_candidates = en_letters e, we_page = en_page e, we_complete = accept W e \<noteq> None\<rparr>"

definition we_pages :: "word_entry_view \<Rightarrow> nat" where
  "we_pages v = max 1 ((length (we_candidates v) + (ENTRY_LETTERS_PER_PAGE - 1)) div ENTRY_LETTERS_PER_PAGE)"

definition letter_for_key :: "word_entry_view \<Rightarrow> u8 \<Rightarrow> char option" where
  "letter_for_key v key =
     (case iter_position (\<lambda>k. k = key) ENTRY_LETTER_KEYS of
        None \<Rightarrow> None
      | Some s \<Rightarrow>
          (let at = (we_page v mod we_pages v) * ENTRY_LETTERS_PER_PAGE + s in
           if at < length (we_candidates v) then
             (let c = we_candidates v ! at in
              if is_ascii_uppercase c \<or> 97 \<le> (of_char c :: nat) \<and> (of_char c :: nat) \<le> 122 then Some c else None)
           else None))"

definition entry_pages :: "words \<Rightarrow> entry \<Rightarrow> nat" where
  "entry_pages W e = we_pages (word_entry W e)"

datatype entry_screen = ScreenShareIndex "nat option" | ScreenWord word_entry_view | ScreenFailed

definition entry_screen :: "words \<Rightarrow> entry \<Rightarrow> entry_screen" where
  "entry_screen W e =
     (case en_stage e of
        StageIndex \<Rightarrow> ScreenShareIndex (if 0 < en_index e then Some (en_index e) else None)
      | StageWord \<Rightarrow> ScreenWord (word_entry W e)
      | StageFailed \<Rightarrow> ScreenFailed)"

definition go_to :: "words \<Rightarrow> nat \<Rightarrow> entry \<Rightarrow> entry_step \<times> entry" where
  "go_to W cursor e =
     (let e = e\<lparr>en_cursor := min cursor (BACKUP_WORDS - 1)\<rparr>;
          e = (case en_words e ! en_cursor e of
                 Some word \<Rightarrow> e\<lparr>en_prefix := snd (up_load MAX_WORD_LEN word)\<rparr>
               | None \<Rightarrow> e\<lparr>en_prefix := []\<rparr>) in
      (StepRedraw, refresh W e))"

definition submit :: "(bytes \<Rightarrow> bytes) \<Rightarrow> words \<Rightarrow> entry \<Rightarrow> entry_step \<times> entry" where
  "submit H W e =
     (case iter_position (\<lambda>w. w = None) (en_words e) of
        Some missing \<Rightarrow> go_to W missing e
      | None \<Rightarrow>
         (case from_words H W (en_index e) (map (\<lambda>w. case w of Some v \<Rightarrow> v | None \<Rightarrow> []) (en_words e)) of
            Inr backup \<Rightarrow> (StepEntered backup, e)
          | Inl _ \<Rightarrow> (StepRedraw, e\<lparr>en_stage := StageFailed\<rparr>)))"

definition index_key :: "words \<Rightarrow> u8 \<Rightarrow> entry \<Rightarrow> entry_step \<times> entry" where
  "index_key W key e =
     (if 48 \<le> key \<and> key \<le> 57 then
        (let digit = unat (key - 48); index = en_index e * 10 + digit in
         if en_index e * 10 < u32_lim \<and> index < u32_lim \<and> index \<noteq> en_index e
         then (StepRedraw, e\<lparr>en_index := index\<rparr>)
         else (StepUnchanged, e))
      else if key = ENTRY_OK_KEY \<and> 0 < en_index e then go_to W 0 (e\<lparr>en_stage := StageWord\<rparr>)
      else if key = ENTRY_DELETE_KEY \<and> 0 < en_index e then
        (StepRedraw, e\<lparr>en_index := en_index e div 10\<rparr>)
      else if key = ENTRY_DELETE_KEY then (StepAbort, e)
      else (StepUnchanged, e))"

definition word_key :: "(bytes \<Rightarrow> bytes) \<Rightarrow> words \<Rightarrow> u8 \<Rightarrow> entry \<Rightarrow> (entry_step \<times> entry) option" where
  "word_key H W key e =
     (case entry_slot e key of
        Some letter \<Rightarrow>
          (case up_push MAX_WORD_LEN letter (en_prefix e) of
             (True, p) \<Rightarrow> Some (StepRedraw, refresh W (e\<lparr>en_prefix := p\<rparr>))
           | (False, _) \<Rightarrow> Some (StepUnchanged, e))
      | None \<Rightarrow>
          if key = ENTRY_PAGE_KEY then
            (let pages = entry_pages W e in
             if 1 < pages then Some (StepRedraw, e\<lparr>en_page := (en_page e + 1) mod pages\<rparr>)
             else Some (StepUnchanged, e))
          else if key = ENTRY_DELETE_KEY then
            (case up_pop (en_prefix e) of
               (True, p) \<Rightarrow> Some (StepRedraw, refresh W (e\<lparr>en_prefix := p\<rparr>))
             | (False, _) \<Rightarrow>
                 if 0 < en_cursor e then Some (go_to W (en_cursor e - 1) e)
                 else Some (StepRedraw, e\<lparr>en_stage := StageIndex\<rparr>))
          else if key = ENTRY_OK_KEY then
            (case accept W e of
               Some word \<Rightarrow>
                 if en_cursor e < length (en_words e) then
                   (let e = e\<lparr>en_words := (en_words e)[en_cursor e := Some word]\<rparr> in
                    if en_cursor e + 1 < BACKUP_WORDS then Some (go_to W (en_cursor e + 1) e)
                    else Some (submit H W e))
                 else None
             | None \<Rightarrow> Some (StepUnchanged, e))
          else Some (StepUnchanged, e))"

definition entry_key :: "(bytes \<Rightarrow> bytes) \<Rightarrow> words \<Rightarrow> u8 \<Rightarrow> entry \<Rightarrow> (entry_step \<times> entry) option" where
  "entry_key H W key e =
     (case en_stage e of
        StageIndex \<Rightarrow> Some (index_key W key e)
      | StageWord \<Rightarrow> word_key H W key e
      | StageFailed \<Rightarrow> Some (go_to W (BACKUP_WORDS - 1) (e\<lparr>en_stage := StageWord\<rparr>)))"

text \<open>The keys of a session, up to the first that ends it: the answers so far are redraws or
  nothing.\<close>

fun entry_keys :: "(bytes \<Rightarrow> bytes) \<Rightarrow> words \<Rightarrow> bytes \<Rightarrow> entry \<Rightarrow> (entry_step \<times> entry) option" where
  "entry_keys H W [] e = Some (StepUnchanged, e)"
| "entry_keys H W (k # ks) e =
     (case entry_key H W k e of
        None \<Rightarrow> None
      | Some (StepAbort, e') \<Rightarrow> Some (StepAbort, e')
      | Some (StepEntered b, e') \<Rightarrow> Some (StepEntered b, e')
      | Some (_, e') \<Rightarrow> entry_keys H W ks e')"

end
