(* ===== verification/WordEntryCorrect.thy ===== *)
theory WordEntryCorrect
  imports WordEntry
begin

text \<open>
  The backup entry machine over any list with the contract \<open>wordlist\<close>: what holds of it
  between two keys, the letters it offers, what it can end with, that any valid backup can be typed,
  and that deleting walks out of it.
\<close>

subsection \<open>Buffers\<close>

lemma is_ascii_uppercase_capital: "is_ascii_uppercase c \<longleftrightarrow> capital c"
  by (simp add: is_ascii_uppercase_def capital_def)

lemma push_all:
  "\<forall>c \<in> set cs. capital c \<Longrightarrow> length s + length cs \<le> cap \<Longrightarrow>
   foldl (\<lambda>s c. snd (up_push cap c s)) s cs = s @ cs"
  by (induction cs arbitrary: s) (simp_all add: up_push_def is_ascii_uppercase_capital)

lemma load_all:
  "\<forall>c \<in> set cs. capital c \<Longrightarrow> length s + length cs \<le> cap \<Longrightarrow> up_load_from cap cs s = (True, s @ cs)"
  by (induction cs arbitrary: s) (simp_all add: up_push_def is_ascii_uppercase_capital)

lemma length_alphabet: "length (filter P alphabet) \<le> 26"
  using length_filter_le[of P alphabet] by (simp add: alphabet_def)

lemma iter_capital:
  "length (vl_letters v) = 26 \<Longrightarrow> c \<in> set (iter_valid v) \<Longrightarrow> capital c"
  by (auto simp: iter_valid_alt capital_alphabet)

lemma starts_with_append: "starts_with w (p @ q) \<Longrightarrow> starts_with w p"
proof (induction p arbitrary: w)
  case (Cons c p)
  then show ?case by (cases w) auto
qed simp

lemma starts_with_self: "starts_with w w"
  by (simp add: starts_with_def)

lemma starts_with_length: "starts_with w p \<Longrightarrow> length p \<le> length w"
  by (metis starts_with_def length_take min.cobounded1 min_def)

lemma letter_key_position:
  "iter_position (\<lambda>k. k = key) ENTRY_LETTER_KEYS = Some i \<longleftrightarrow> i < 9 \<and> key = ENTRY_LETTER_KEYS ! i"
  by (auto simp: position_Some ENTRY_LETTER_KEYS_def nth_Cons' split: if_splits)

lemma letters_per_page: "ENTRY_LETTERS_PER_PAGE = 9"
  by (simp add: entry_consts)

lemma not_letter_key:
  "iter_position (\<lambda>k. k = ENTRY_PAGE_KEY) ENTRY_LETTER_KEYS = None"
  "iter_position (\<lambda>k. k = ENTRY_OK_KEY) ENTRY_LETTER_KEYS = None"
  "iter_position (\<lambda>k. k = ENTRY_DELETE_KEY) ENTRY_LETTER_KEYS = None"
  by (simp_all add: entry_consts)

lemma entry_slot_special [simp]:
  "entry_slot e ENTRY_PAGE_KEY = None" "entry_slot e ENTRY_OK_KEY = None" "entry_slot e ENTRY_DELETE_KEY = None"
  by (simp_all add: entry_slot_def not_letter_key)

lemma key_consts [simp]:
  "ENTRY_OK_KEY \<noteq> ENTRY_PAGE_KEY" "ENTRY_DELETE_KEY \<noteq> ENTRY_PAGE_KEY" "ENTRY_OK_KEY \<noteq> ENTRY_DELETE_KEY"
  "ENTRY_DELETE_KEY \<noteq> ENTRY_OK_KEY"
  "\<not> (48 \<le> ENTRY_OK_KEY \<and> ENTRY_OK_KEY \<le> 57)" "\<not> (48 \<le> ENTRY_DELETE_KEY \<and> ENTRY_DELETE_KEY \<le> 57)"
  by (simp_all add: entry_consts)

lemma refresh_simps [simp]:
  "en_id (refresh W e) = en_id e" "en_stage (refresh W e) = en_stage e" "en_index (refresh W e) = en_index e"
  "en_words (refresh W e) = en_words e" "en_cursor (refresh W e) = en_cursor e"
  "en_prefix (refresh W e) = en_prefix e" "en_page (refresh W e) = 0"
  by (simp_all add: refresh_def)

subsection \<open>Between two keys\<close>

definition entry_wf :: "words \<Rightarrow> entry \<Rightarrow> bool" where
  "entry_wf W e \<longleftrightarrow>
     length (en_words e) = BACKUP_WORDS \<and> en_cursor e < BACKUP_WORDS \<and> en_index e < u32_lim \<and>
     (\<forall>w. Some w \<in> set (en_words e) \<longrightarrow> w \<in> set W) \<and>
     (\<exists>w \<in> set W. starts_with w (en_prefix e)) \<and>
     en_letters e = iter_valid (get_valid_next_letters W (en_prefix e)) \<and>
     en_page e < entry_pages W e \<and>
     (en_stage e \<noteq> StageIndex \<longrightarrow> 0 < en_index e) \<and>
     (en_stage e = StageFailed \<longrightarrow> None \<notin> set (en_words e))"

lemma entry_pages_alt: "entry_pages W e = max 1 ((length (en_letters e) + 8) div 9)"
  by (simp add: entry_pages_def we_pages_def word_entry_def entry_consts)

lemma entry_pages_update [simp]:
  "entry_pages W (e\<lparr>en_stage := s\<rparr>) = entry_pages W e" "entry_pages W (e\<lparr>en_words := ws\<rparr>) = entry_pages W e"
  "entry_pages W (e\<lparr>en_index := n\<rparr>) = entry_pages W e" "entry_pages W (e\<lparr>en_page := n\<rparr>) = entry_pages W e"
  by (simp_all add: entry_pages_alt)

lemma entry_pages_pos [simp]: "0 < entry_pages W e"
  by (simp add: entry_pages_alt)

lemma go_to_redraws [simp]: "fst (go_to W c e) = StepRedraw"
  by (simp add: go_to_def Let_def)

lemma go_to_pair: "go_to W c e = (StepRedraw, snd (go_to W c e))"
  by (simp add: prod_eq_iff)

lemma go_to_not_entered [simp]: "go_to W c e \<noteq> (StepEntered b, e')" "go_to W c e \<noteq> (StepAbort, e')"
  by (simp_all add: prod_eq_iff)

lemma keys_append:
  "entry_keys H W ks e = Some (StepUnchanged, e') \<Longrightarrow> entry_keys H W (ks @ ls) e = entry_keys H W ls e'"
  by (induction ks arbitrary: e) (auto split: option.splits entry_step.splits)

lemma refresh_twice: "refresh W (refresh W e) = refresh W e"
  by (simp add: refresh_def)

context wordlist
begin

lemma letters_spec:
  "en_letters (refresh W e) = filter (\<lambda>c. \<exists>w \<in> set W. starts_with w (en_prefix e @ [c])) alphabet"
  using push_all[of "filter (\<lambda>c. \<exists>w \<in> set W. starts_with w (en_prefix e @ [c])) alphabet" "[]" 26]
    length_alphabet[of "\<lambda>c. \<exists>w \<in> set W. starts_with w (en_prefix e @ [c])"]
  by (simp add: refresh_def next_letters MAX_CANDIDATE_LETTERS_def capital_alphabet)

lemma load_word: "w \<in> set W \<Longrightarrow> up_load MAX_WORD_LEN w = (True, w)"
  using shape[of w] load_all[of w "[]" 8] by (simp add: up_load_def MAX_WORD_LEN_def)

lemma some_word: "\<exists>w. w \<in> set W"
  using len by (metis in_set_conv_nth zero_less_numeral)

lemma refresh_wf:
  assumes "length (en_words e) = BACKUP_WORDS" "en_cursor e < BACKUP_WORDS" "en_index e < u32_lim"
    "\<forall>w. Some w \<in> set (en_words e) \<longrightarrow> w \<in> set W" "\<exists>w \<in> set W. starts_with w (en_prefix e)"
    "en_stage e \<noteq> StageIndex \<longrightarrow> 0 < en_index e" "en_stage e = StageFailed \<longrightarrow> None \<notin> set (en_words e)"
  shows "entry_wf W (refresh W e)"
  using assms by (simp add: entry_wf_def letters_spec next_letters)

lemma go_to_wf:
  assumes "length (en_words e) = BACKUP_WORDS" "en_index e < u32_lim"
    "\<forall>w. Some w \<in> set (en_words e) \<longrightarrow> w \<in> set W"
    "en_stage e \<noteq> StageIndex \<longrightarrow> 0 < en_index e" "en_stage e = StageFailed \<longrightarrow> None \<notin> set (en_words e)"
  shows "entry_wf W (snd (go_to W c e)) \<and> fst (go_to W c e) = StepRedraw"
proof -
  have at: "min c (BACKUP_WORDS - 1) < BACKUP_WORDS" by (simp add: BACKUP_WORDS_def)
  then have "w \<in> set W" if "en_words e ! min c (BACKUP_WORDS - 1) = Some w" for w
    using that assms(1,3) nth_mem by (metis (no_types))
  moreover have "\<exists>w \<in> set W. starts_with w v" if "v \<in> set W" for v
    using that starts_with_self by blast
  ultimately show ?thesis using assms at some_word
    by (auto simp: go_to_def Let_def load_word intro!: refresh_wf split: option.split)
qed

lemma new_wf: "entry_wf W (entry_new W i)"
  using some_word by (auto simp: entry_new_def BACKUP_WORDS_def u32_lim_def intro!: refresh_wf)

lemma slot_letter:
  assumes "entry_wf W e" "entry_slot e key = Some c"
  shows "capital c \<and> length (en_prefix e) < 8 \<and> (\<exists>w \<in> set W. starts_with w (en_prefix e @ [c]))"
proof -
  have "c \<in> set (en_letters e)"
    using assms(2) by (auto simp: entry_slot_def Let_def split: if_splits option.splits)
  then have c: "capital c" "\<exists>w \<in> set W. starts_with w (en_prefix e @ [c])"
    using assms(1) by (auto simp: entry_wf_def next_letters capital_alphabet)
  then obtain w where "w \<in> set W" "starts_with w (en_prefix e @ [c])" by blast
  then show ?thesis using c shape[of w] starts_with_length[of w "en_prefix e @ [c]"] by simp
qed

lemma unique_in: "unique W e = Some w \<Longrightarrow> w \<in> set W \<and> starts_with w (en_prefix e)"
proof -
  assume "unique W e = Some w"
  then have "filter (\<lambda>w. starts_with w (en_prefix e)) W = [w]"
    by (simp add: unique_def prefix_block split: list.splits)
  then have "w \<in> set (filter (\<lambda>w. starts_with w (en_prefix e)) W)" by simp
  then show ?thesis by simp
qed

lemma whole_word_in: "whole_word W e = Some w \<Longrightarrow> w \<in> set W \<and> w = en_prefix e"
proof -
  assume w: "whole_word W e = Some w"
  then obtain ws where "filter (\<lambda>w. starts_with w (en_prefix e)) W = w # ws" "w = en_prefix e"
    by (auto simp: whole_word_def prefix_block split: list.splits if_splits)
  then have "w \<in> set (filter (\<lambda>w. starts_with w (en_prefix e)) W)" by simp
  then show ?thesis using \<open>w = en_prefix e\<close> by simp
qed

lemma accept_in: "accept W e = Some w \<Longrightarrow> w \<in> set W"
  using unique_in whole_word_in by (auto simp: accept_def split: option.splits)

lemma accept_word: "en_prefix e \<in> set W \<Longrightarrow> accept W e = Some (en_prefix e)"
  using word_itself[of "en_prefix e"] by (auto simp: accept_def unique_def whole_word_def split: list.splits)

subsection \<open>One key\<close>

lemma wf_simps:
  assumes "entry_wf W e"
  shows "length (en_words e) = BACKUP_WORDS" "en_cursor e < BACKUP_WORDS" "en_index e < u32_lim"
    "\<forall>w. Some w \<in> set (en_words e) \<longrightarrow> w \<in> set W" "\<exists>w \<in> set W. starts_with w (en_prefix e)"
    "en_letters e = iter_valid (get_valid_next_letters W (en_prefix e))" "en_page e < entry_pages W e"
    "en_stage e \<noteq> StageIndex \<Longrightarrow> 0 < en_index e" "en_stage e = StageFailed \<Longrightarrow> None \<notin> set (en_words e)"
  using assms by (simp_all add: entry_wf_def)

lemma submit_wf:
  assumes "entry_wf W e" "0 < en_index e"
  shows "entry_wf W (snd (submit H W e)) \<and> fst (submit H W e) \<notin> {StepUnchanged, StepAbort}"
proof (cases "iter_position (\<lambda>w. w = None) (en_words e)")
  case None
  then have "None \<notin> set (en_words e)" by (auto simp: position_None)
  then have "entry_wf W (e\<lparr>en_stage := StageFailed\<rparr>)"
    using assms by (simp add: entry_wf_def)
  then show ?thesis using assms(1) None by (auto simp: submit_def split: sum.split)
next
  case (Some k)
  then show ?thesis using go_to_wf[of e k] wf_simps[OF assms(1)] by (auto simp: submit_def)
qed

lemma index_wf: "entry_wf W e \<Longrightarrow> n < u32_lim \<Longrightarrow> en_stage e = StageIndex \<Longrightarrow> entry_wf W (e\<lparr>en_index := n\<rparr>)"
  by (simp add: entry_wf_def)

lemma index_key_wf:
  assumes "entry_wf W e" "en_stage e = StageIndex"
  shows "entry_wf W (snd (index_key W key e))"
proof -
  have "entry_wf W (snd (go_to W 0 (e\<lparr>en_stage := StageWord\<rparr>)))" if "0 < en_index e"
    using go_to_wf[of "e\<lparr>en_stage := StageWord\<rparr>" 0] wf_simps(1,3,4)[OF assms(1)] that by simp
  moreover have "en_index e div 10 < u32_lim" using wf_simps(3)[OF assms(1)] by (meson div_le_dividend le_less_trans)
  ultimately show ?thesis
    unfolding index_key_def Let_def using assms by (simp add: index_wf split: if_split)
qed

lemma prefix_wf:
  assumes "entry_wf W e" "\<exists>w \<in> set W. starts_with w p"
  shows "entry_wf W (refresh W (e\<lparr>en_prefix := p\<rparr>))"
proof (rule refresh_wf, goal_cases)
  case 4
  then show ?case using wf_simps(4)[OF assms(1)] by simp
next
  case 5
  then show ?case using assms(2) by simp
qed (use wf_simps(1-3,8,9)[OF assms(1)] in simp_all)

lemma pop_wf: "entry_wf W e \<Longrightarrow> entry_wf W (refresh W (e\<lparr>en_prefix := butlast (en_prefix e)\<rparr>))"
proof (rule prefix_wf)
  assume "entry_wf W e"
  then obtain w where w: "w \<in> set W" "starts_with w (en_prefix e)" by (auto simp: entry_wf_def)
  then have "starts_with w (butlast (en_prefix e))"
    by (metis append_butlast_last_id butlast.simps(1) starts_with_append)
  then show "\<exists>w \<in> set W. starts_with w (butlast (en_prefix e))" using w(1) by blast
qed

lemma page_wf: "entry_wf W e \<Longrightarrow> entry_wf W (e\<lparr>en_page := k mod entry_pages W e\<rparr>)"
  by (simp add: entry_wf_def)

lemma accepted_wf:
  assumes "entry_wf W e" "w \<in> set W"
  shows "entry_wf W (e\<lparr>en_words := (en_words e)[en_cursor e := Some w]\<rparr>)"
proof -
  have "\<forall>v. Some v \<in> set ((en_words e)[en_cursor e := Some w]) \<longrightarrow> v \<in> set W"
    using assms set_update_subset_insert[of "en_words e" "en_cursor e" "Some w"] by (auto simp: entry_wf_def)
  moreover have "None \<notin> set ((en_words e)[en_cursor e := Some w])" if "None \<notin> set (en_words e)"
    using that set_update_subset_insert[of "en_words e" "en_cursor e" "Some w"] by auto
  ultimately show ?thesis using assms(1) by (simp add: entry_wf_def)
qed

lemma word_key_wf:
  assumes "entry_wf W e" "en_stage e = StageWord"
  shows "\<exists>st e'. word_key H W key e = Some (st, e') \<and> entry_wf W e'"
proof -
  have ix: "0 < en_index e" using assms by (simp add: entry_wf_def)
  have goes: "entry_wf W e1 \<Longrightarrow> entry_wf W (snd (go_to W c e1))" for c e1
    using go_to_wf[of e1 c] by (simp add: entry_wf_def)
  consider (letter) c where "entry_slot e key = Some c" | (page) "entry_slot e key = None" "key = ENTRY_PAGE_KEY"
    | (delete) "entry_slot e key = None" "key = ENTRY_DELETE_KEY" | (ok) "entry_slot e key = None" "key = ENTRY_OK_KEY"
    | (none) "entry_slot e key = None" "key \<notin> {ENTRY_PAGE_KEY, ENTRY_DELETE_KEY, ENTRY_OK_KEY}"
    by (cases "entry_slot e key") auto
  then show ?thesis
  proof cases
    case letter
    then show ?thesis using slot_letter[OF assms(1)] prefix_wf[OF assms(1), of "en_prefix e @ [c]"]
      by (simp add: word_key_def up_push_def is_ascii_uppercase_capital MAX_WORD_LEN_def)
  next
    case page
    then show ?thesis using page_wf[OF assms(1)] assms(1) by (simp add: word_key_def Let_def)
  next
    case delete
    have "entry_wf W (e\<lparr>en_stage := StageIndex\<rparr>)" using assms(1) by (simp add: entry_wf_def)
    then show ?thesis using delete pop_wf[OF assms(1)] goes[OF assms(1), of "en_cursor e - 1"]
      by (auto simp: word_key_def up_pop_def go_to_def Let_def)
  next
    case ok
    show ?thesis
    proof (cases "accept W e")
      case (Some w)
      let ?e = "e\<lparr>en_words := (en_words e)[en_cursor e := Some w]\<rparr>"
      have "entry_wf W ?e" by (rule accepted_wf[OF assms(1) accept_in[OF Some]])
      then have "entry_wf W (snd (go_to W (en_cursor e + 1) ?e))" "entry_wf W (snd (submit H W ?e))"
        using goes submit_wf[of ?e H] ix by simp_all
      then show ?thesis using ok Some wf_simps(1,2)[OF assms(1)]
        by (simp add: word_key_def Let_def) (metis surjective_pairing)
    qed (use ok assms(1) in \<open>simp add: word_key_def\<close>)
  qed (use assms(1) in \<open>simp add: word_key_def\<close>)
qed

lemma key_wf:
  assumes "entry_wf W e"
  shows "\<exists>st e'. entry_key H W key e = Some (st, e') \<and> entry_wf W e'"
proof (cases "en_stage e")
  case StageIndex
  then show ?thesis using index_key_wf[OF assms, of key] by (simp add: entry_key_def) (metis surjective_pairing)
next
  case StageWord
  then show ?thesis using word_key_wf[OF assms] by (simp add: entry_key_def)
next
  case StageFailed
  then have "entry_wf W (e\<lparr>en_stage := StageWord\<rparr>)" using assms by (simp add: entry_wf_def)
  then show ?thesis using go_to_wf[of "e\<lparr>en_stage := StageWord\<rparr>" "BACKUP_WORDS - 1"] StageFailed
    by (simp add: entry_key_def entry_wf_def) (metis surjective_pairing)
qed

lemma keys_wf:
  "entry_wf W e \<Longrightarrow> \<exists>st e'. entry_keys H W ks e = Some (st, e') \<and> entry_wf W e' \<and> (st \<noteq> StepRedraw)"
proof (induction ks arbitrary: e)
  case (Cons k ks)
  obtain st e' where k: "entry_key H W k e = Some (st, e')" "entry_wf W e'" using key_wf[OF Cons.prems] by metis
  then show ?case using Cons.IH[OF k(2)] by (cases st) simp_all
qed simp

subsection \<open>What it ends with\<close>

lemma key_entered:
  assumes "entry_wf W e" "entry_key H W key e = Some (StepEntered b, e')"
  shows "\<exists>ws. map Some ws = en_words e' \<and> set ws \<subseteq> set W \<and> from_words H W (en_index e') ws = Inr b"
proof -
  have "index_key W key e \<noteq> (StepEntered b, e')" by (simp add: index_key_def Let_def)
  then have "en_stage e = StageWord"
    using assms(2) by (cases "en_stage e") (simp_all add: entry_key_def)
  then have wk: "word_key H W key e = Some (StepEntered b, e')" using assms(2) by (simp add: entry_key_def)
  obtain w where "accept W e = Some w"
    and sub: "submit H W (e\<lparr>en_words := (en_words e)[en_cursor e := Some w]\<rparr>) = (StepEntered b, e')"
    using wk by (auto simp: word_key_def Let_def up_pop_def up_push_def split: option.splits if_splits)
  then have wf: "entry_wf W (e\<lparr>en_words := (en_words e)[en_cursor e := Some w]\<rparr>)" (is "entry_wf W ?e")
    using accepted_wf[OF assms(1) accept_in] by blast
  let ?ws = "map (\<lambda>w. case w of Some v \<Rightarrow> v | None \<Rightarrow> []) (en_words ?e)"
  have none: "iter_position (\<lambda>w. w = None) (en_words ?e) = None" and e: "e' = ?e"
    and ok: "from_words H W (en_index ?e) ?ws = Inr b"
    using sub by (auto simp: submit_def split: option.splits sum.splits)
  have all: "w \<noteq> None" if "w \<in> set (en_words ?e)" for w using none that by (auto simp: position_None)
  then have "map Some ?ws = en_words ?e" by (simp add: map_idI o_def) (force intro!: map_idI)
  moreover have "set ?ws \<subseteq> set W" using wf all unfolding entry_wf_def by (force split: option.split)
  ultimately show ?thesis using ok e by blast
qed

subsection \<open>Typing a backup in\<close>

lemma page_keys:
  "en_stage e = StageWord \<Longrightarrow> en_page e = 0 \<Longrightarrow> j < entry_pages W e \<Longrightarrow>
   entry_keys H W (replicate j ENTRY_PAGE_KEY) e = Some (StepUnchanged, e\<lparr>en_page := j\<rparr>)"
proof (induction j)
  case (Suc j)
  then have "entry_key H W ENTRY_PAGE_KEY (e\<lparr>en_page := j\<rparr>) = Some (StepRedraw, e\<lparr>en_page := Suc j\<rparr>)"
    by (simp add: entry_key_def word_key_def Let_def)
  moreover have "entry_keys H W (replicate j ENTRY_PAGE_KEY) e = Some (StepUnchanged, e\<lparr>en_page := j\<rparr>)"
    using Suc by simp
  moreover have "replicate (Suc j) ENTRY_PAGE_KEY = replicate j ENTRY_PAGE_KEY @ [ENTRY_PAGE_KEY]"
    by (simp add: replicate_append_same)
  ultimately show ?case by (simp only: keys_append) simp
qed simp

lemma letter_keys:
  assumes "entry_wf W e" "en_stage e = StageWord" "en_page e = 0" "w \<in> set W" "starts_with w (en_prefix e @ [c])"
  shows "\<exists>ks. entry_keys H W ks e = Some (StepUnchanged, refresh W (e\<lparr>en_prefix := en_prefix e @ [c]\<rparr>))"
proof -
  have short: "length (en_prefix e) < 8" using starts_with_length[OF assms(5)] shape[OF assms(4)] by simp
  have c: "capital c"
  proof -
    have "c \<in> set (take (length (en_prefix e @ [c])) w)" using assms(5) by (simp add: starts_with_def)
    then show ?thesis using shape[OF assms(4)] by (meson in_set_takeD)
  qed
  have "c \<in> set (en_letters e)" using assms(1,4,5) c by (auto simp: entry_wf_def next_letters set_alphabet)
  then obtain i where i: "i < length (en_letters e)" "en_letters e ! i = c" by (meson in_set_conv_nth)
  have "i div 9 < entry_pages W e" using i(1) by (simp add: entry_pages_alt)
  note pages = page_keys[OF assms(2,3) this, of H]
  let ?e = "e\<lparr>en_page := i div 9\<rparr>" and ?k = "ENTRY_LETTER_KEYS ! (i mod 9)"
  have "iter_position (\<lambda>k. k = ?k) ENTRY_LETTER_KEYS = Some (i mod 9)" by (simp add: letter_key_position)
  then have "entry_slot ?e ?k = Some c" using i assms(2) by (simp add: entry_slot_def Let_def letters_per_page)
  then have "entry_key H W ?k ?e = Some (StepRedraw, refresh W (?e\<lparr>en_prefix := en_prefix e @ [c]\<rparr>))"
    using assms(2) c short
    by (simp add: entry_key_def word_key_def up_push_def is_ascii_uppercase_capital MAX_WORD_LEN_def)
  moreover have "refresh W (?e\<lparr>en_prefix := en_prefix e @ [c]\<rparr>) = refresh W (e\<lparr>en_prefix := en_prefix e @ [c]\<rparr>)"
    by (simp add: refresh_def)
  ultimately show ?thesis
    by (intro exI[of _ "replicate (i div 9) ENTRY_PAGE_KEY @ [?k]"]) (simp add: keys_append[OF pages])
qed

lemma spell_keys:
  "entry_wf W e \<Longrightarrow> en_stage e = StageWord \<Longrightarrow> refresh W e = e \<Longrightarrow> w \<in> set W \<Longrightarrow>
   starts_with w (en_prefix e @ p) \<Longrightarrow>
   \<exists>ks. entry_keys H W ks e = Some (StepUnchanged, refresh W (e\<lparr>en_prefix := en_prefix e @ p\<rparr>))"
proof (induction p arbitrary: e)
  case Nil
  then show ?case by (intro exI[of _ "[]"]) simp
next
  case (Cons c p)
  let ?e = "refresh W (e\<lparr>en_prefix := en_prefix e @ [c]\<rparr>)"
  have sw: "starts_with w (en_prefix e @ [c])" using Cons.prems(5) starts_with_append[of w "en_prefix e @ [c]" p] by simp
  have "en_page e = 0" using Cons.prems(3) refresh_simps(7) by metis
  then obtain ks where ks: "entry_keys H W ks e = Some (StepUnchanged, ?e)"
    using letter_keys[OF Cons.prems(1,2) _ Cons.prems(4) sw] by blast
  have "entry_wf W ?e" using prefix_wf[OF Cons.prems(1)] Cons.prems(4) sw by blast
  then obtain ls where "entry_keys H W ls ?e = Some (StepUnchanged, refresh W (?e\<lparr>en_prefix := en_prefix ?e @ p\<rparr>))"
    using Cons.IH[of ?e] Cons.prems by (auto simp: refresh_twice)
  moreover have "refresh W (?e\<lparr>en_prefix := en_prefix ?e @ p\<rparr>) = refresh W (e\<lparr>en_prefix := en_prefix e @ c # p\<rparr>)"
    by (simp add: refresh_def)
  ultimately show ?case by (intro exI[of _ "ks @ ls"]) (simp add: keys_append[OF ks])
qed

text \<open>The machine at word \<open>length ws\<close>, the words before it entered and the rest not.\<close>

definition typed :: "nat \<Rightarrow> words \<Rightarrow> entry \<Rightarrow> bool" where
  "typed ix ws e \<longleftrightarrow> entry_wf W e \<and> en_stage e = StageWord \<and> refresh W e = e \<and> en_prefix e = [] \<and> en_index e = ix \<and>
     en_cursor e = length ws \<and> en_words e = map Some ws @ replicate (BACKUP_WORDS - length ws) None"

lemma word_ok:
  assumes "typed ix ws e" "w \<in> set W" "length ws < BACKUP_WORDS"
    and E: "E = (refresh W (e\<lparr>en_prefix := w\<rparr>))
      \<lparr>en_words := map Some (ws @ [w]) @ replicate (BACKUP_WORDS - length ws - 1) None\<rparr>"
  shows "entry_key H W ENTRY_OK_KEY (refresh W (e\<lparr>en_prefix := w\<rparr>)) =
      Some (if length ws + 1 < BACKUP_WORDS then go_to W (length ws + 1) E else submit H W E)" "entry_wf W E"
proof -
  note t = assms(1)[unfolded typed_def]
  let ?e = "refresh W (e\<lparr>en_prefix := w\<rparr>)"
  have wf: "entry_wf W ?e" using prefix_wf[of e w] t assms(2) starts_with_self[of w] by blast
  have a: "accept W ?e = Some w" using accept_word[of ?e] assms(2) by simp
  obtain n where n: "BACKUP_WORDS - length ws = Suc n" using assms(3) by (metis Suc_diff_Suc)
  have u: "(en_words ?e)[en_cursor ?e := Some w] = map Some (ws @ [w]) @ replicate (BACKUP_WORDS - length ws - 1) None"
    using t by (simp add: n list_update_append)
  show "entry_key H W ENTRY_OK_KEY ?e =
      Some (if length ws + 1 < BACKUP_WORDS then go_to W (length ws + 1) E else submit H W E)"
    using wf_simps(1,2)[OF wf] t unfolding E u[symmetric]
    by (simp add: entry_key_def word_key_def Let_def a del: map_append)
  show "entry_wf W E" using accepted_wf[OF wf assms(2)] unfolding E u .
qed

lemma go_next:
  assumes "typed ix ws e" "w \<in> set W" "length ws + 1 < BACKUP_WORDS"
    and E: "E = (refresh W (e\<lparr>en_prefix := w\<rparr>))
      \<lparr>en_words := map Some (ws @ [w]) @ replicate (BACKUP_WORDS - length ws - 1) None\<rparr>"
  shows "typed ix (ws @ [w]) (snd (go_to W (length ws + 1) E))"
proof -
  have wf: "entry_wf W E" by (rule word_ok(2)[OF assms(1,2) _ E]) (use assms(3) in simp)
  have l: "min (length ws + 1) (BACKUP_WORDS - 1) = length ws + 1" using assms(3) by simp
  obtain n where n: "BACKUP_WORDS - Suc (length ws) = Suc n" using assms(3) by (metis Suc_diff_Suc Suc_eq_plus1)
  have "en_words E ! (length ws + 1) = None" by (simp add: E n nth_append)
  then have g: "snd (go_to W (length ws + 1) E) = refresh W (E\<lparr>en_cursor := length ws + 1, en_prefix := []\<rparr>)"
    unfolding go_to_def l by (simp add: Let_def)
  have "entry_wf W (snd (go_to W (length ws + 1) E))"
    using go_to_wf[of E "length ws + 1"] wf_simps(1,3,4,8,9)[OF wf] by blast
  moreover have "en_words E = map Some (ws @ [w]) @ replicate (BACKUP_WORDS - length (ws @ [w])) None"
    by (simp add: E)
  ultimately show ?thesis using assms(1) unfolding typed_def g
    by (simp only: refresh_twice refresh_simps entry.simps) (simp add: E)
qed

lemma backup_keys:
  "typed ix ws e \<Longrightarrow> set vs \<subseteq> set W \<Longrightarrow> vs \<noteq> [] \<Longrightarrow> length ws + length vs = BACKUP_WORDS \<Longrightarrow>
   from_words H W ix (ws @ vs) = Inr b \<Longrightarrow> \<exists>ks e'. entry_keys H W ks e = Some (StepEntered b, e')"
proof (induction vs arbitrary: ws e)
  case (Cons w vs)
  let ?e = "refresh W (e\<lparr>en_prefix := w\<rparr>)"
  let ?E = "?e\<lparr>en_words := map Some (ws @ [w]) @ replicate (BACKUP_WORDS - length ws - 1) None\<rparr>"
  have w: "w \<in> set W" and l: "length ws < BACKUP_WORDS" using Cons.prems(2,4) by auto
  obtain ks where ks: "entry_keys H W ks e = Some (StepUnchanged, ?e)"
    using spell_keys[of e w w] Cons.prems(1) w starts_with_self[of w] by (auto simp: typed_def)
  note ok = word_ok(1)[OF Cons.prems(1) w l refl, of H]
  show ?case
  proof (cases vs)
    case Nil
    then have last: "length ws + 1 = BACKUP_WORDS" using Cons.prems(4) by simp
    then have words: "en_words ?E = map Some (ws @ [w])" by simp
    then have "iter_position (\<lambda>w. w = None) (en_words ?E) = None" unfolding position_None by auto
    then have "submit H W ?E = (StepEntered b, ?E)"
      using Cons.prems(1,5) Nil unfolding submit_def words by (simp add: o_def typed_def)
    then show ?thesis using last ok
      by (intro exI[of _ "ks @ [ENTRY_OK_KEY]"]) (simp add: keys_append[OF ks] del: map_append)
  next
    case (Cons v vs')
    then have more: "length ws + 1 < BACKUP_WORDS" using Cons.prems(4) by simp
    obtain e2 where e2: "go_to W (length ws + 1) ?E = (StepRedraw, e2)" by (metis go_to_pair)
    obtain ls e' where "entry_keys H W ls e2 = Some (StepEntered b, e')"
      using Cons.IH[OF go_next[OF Cons.prems(1) w more refl]] Cons.prems Cons e2 by auto
    then show ?thesis using more ok e2
      by (intro exI[of _ "ks @ ENTRY_OK_KEY # ls"]) (simp add: keys_append[OF ks] del: map_append)
  qed
qed simp

lemma index_keys:
  "0 < n \<Longrightarrow> n < u32_lim \<Longrightarrow> en_stage e = StageIndex \<Longrightarrow> en_index e = 0 \<Longrightarrow>
   \<exists>ks. entry_keys H W ks e = Some (StepUnchanged, e\<lparr>en_index := n\<rparr>)"
proof (induction n rule: less_induct)
  case (less n)
  have digit: "entry_key H W (word_of_nat (48 + n mod 10)) (e\<lparr>en_index := n div 10\<rparr>) =
      Some (StepRedraw, e\<lparr>en_index := n\<rparr>)"
  proof -
    let ?k = "word_of_nat (48 + n mod 10) :: u8"
    have small: "unat (word_of_nat m :: u8) = m" if "m < 256" for m
      using that by (simp add: unat_of_nat)
    have u: "unat ?k = 48 + n mod 10" by (rule small) simp
    then have k: "48 \<le> ?k \<and> ?k \<le> 57" by (simp add: word_le_nat_alt)
    have d: "unat (?k - 48) = n mod 10" using small[of "n mod 10"] by simp
    have v: "n div 10 * 10 + n mod 10 = n" "n div 10 * 10 < u32_lim" "n \<noteq> n div 10"
      using less.prems(1,2) by (simp, linarith+)
    have "0 < n div 10 \<or> 0 < n mod 10" using less.prems(1) by (cases "n div 10 = 0") auto
    then show ?thesis using less.prems(3) k d v by (simp add: entry_key_def index_key_def Let_def less.prems)
  qed
  show ?case
  proof (cases "n div 10 = 0")
    case True
    then have "e\<lparr>en_index := n div 10\<rparr> = e" using less.prems(4) by (cases e) simp
    then show ?thesis using digit by (intro exI[of _ "[word_of_nat (48 + n mod 10)]"]) simp
  next
    case False
    then have "n div 10 < n" "0 < n div 10" "n div 10 < u32_lim" using less.prems(1,2) by auto
    then obtain ks where ks: "entry_keys H W ks e = Some (StepUnchanged, e\<lparr>en_index := n div 10\<rparr>)"
      using less.IH[of "n div 10"] less.prems(3,4) by auto
    show ?thesis using digit
      by (intro exI[of _ "ks @ [word_of_nat (48 + n mod 10)]"]) (simp add: keys_append[OF ks])
  qed
qed

lemma backup_entered:
  assumes "from_words H W ix ws = Inr b" "length ws = BACKUP_WORDS" "set ws \<subseteq> set W" "0 < ix" "ix < u32_lim"
  shows "\<exists>ks e'. entry_keys H W ks (entry_new W i) = Some (StepEntered b, e')"
proof -
  let ?n = "(entry_new W i)\<lparr>en_index := ix\<rparr>"
  let ?s = "snd (go_to W 0 (?n\<lparr>en_stage := StageWord\<rparr>))"
  have new: "en_stage (entry_new W i) = StageIndex" "en_index (entry_new W i) = 0"
    "en_words (entry_new W i) = replicate BACKUP_WORDS None" by (simp_all add: entry_new_def)
  obtain ks where ks: "entry_keys H W ks (entry_new W i) = Some (StepUnchanged, ?n)"
    using index_keys[OF assms(4,5) new(1,2)] by blast
  have ok: "entry_key H W ENTRY_OK_KEY ?n = Some (StepRedraw, ?s)"
    using assms(4) new by (simp add: entry_key_def index_key_def go_to_pair[symmetric])
  have wf: "entry_wf W ?s" using go_to_wf[of "?n\<lparr>en_stage := StageWord\<rparr>" 0] assms(4,5) new by simp
  have "0 < BACKUP_WORDS" by (simp add: BACKUP_WORDS_def)
  then have "?s = refresh W (?n\<lparr>en_stage := StageWord, en_cursor := 0, en_prefix := []\<rparr>)"
    using new by (simp add: go_to_def Let_def)
  then have "typed ix [] ?s" using wf new by (simp add: typed_def refresh_twice)
  moreover have "ws \<noteq> []" using assms(2) by (auto simp: BACKUP_WORDS_def)
  ultimately obtain ls e' where "entry_keys H W ls ?s = Some (StepEntered b, e')"
    using backup_keys[of ix "[]" ?s ws H b] assms by auto
  then show ?thesis using ok
    by (intro exI[of _ "ks @ ENTRY_OK_KEY # ls"]) (simp add: keys_append[OF ks])
qed

subsection \<open>Deleting\<close>

lemma delete_index:
  "en_stage e = StageIndex \<Longrightarrow> en_index e < 10 ^ k \<Longrightarrow>
   \<exists>n \<le> k. \<exists>e'. entry_keys H W (replicate (Suc n) ENTRY_DELETE_KEY) e = Some (StepAbort, e')"
proof (induction k arbitrary: e)
  case 0
  then show ?case by (simp add: entry_key_def index_key_def)
next
  case (Suc k)
  show ?case
  proof (cases "en_index e = 0")
    case True
    then show ?thesis using Suc.prems by (intro exI[of _ 0]) (simp add: entry_key_def index_key_def)
  next
    case False
    then have k: "entry_key H W ENTRY_DELETE_KEY e = Some (StepRedraw, e\<lparr>en_index := en_index e div 10\<rparr>)"
      using Suc.prems(1) by (simp add: entry_key_def index_key_def)
    have "en_index (e\<lparr>en_index := en_index e div 10\<rparr>) < 10 ^ k" using Suc.prems(2) by (simp add: div_less_iff_less_mult mult.commute)
    then obtain n e' where n: "n \<le> k"
      "entry_keys H W (replicate (Suc n) ENTRY_DELETE_KEY) (e\<lparr>en_index := en_index e div 10\<rparr>) = Some (StepAbort, e')"
      using Suc.IH[of "e\<lparr>en_index := en_index e div 10\<rparr>"] Suc.prems(1) by auto
    have "entry_keys H W (replicate (Suc (Suc n)) ENTRY_DELETE_KEY) e = Some (StepAbort, e')"
      by (subst replicate_Suc) (simp only: entry_keys.simps k option.case prod.case entry_step.case n(2))
    then show ?thesis using n(1) by (intro exI[of _ "Suc n"]) blast
  qed
qed

lemma delete_word:
  "entry_wf W e \<Longrightarrow> en_stage e = StageWord \<Longrightarrow> 9 * en_cursor e + length (en_prefix e) \<le> m \<Longrightarrow>
   \<exists>n \<le> m. \<exists>e'. entry_keys H W (replicate (Suc n) ENTRY_DELETE_KEY) e = Some (StepUnchanged, e') \<and>
     entry_wf W e' \<and> en_stage e' = StageIndex"
proof (induction m arbitrary: e)
  case 0
  then have "entry_key H W ENTRY_DELETE_KEY e = Some (StepRedraw, e\<lparr>en_stage := StageIndex\<rparr>)"
    by (simp add: entry_key_def word_key_def up_pop_def)
  moreover have "entry_wf W (e\<lparr>en_stage := StageIndex\<rparr>)" using 0 by (simp add: entry_wf_def)
  ultimately show ?case by simp
next
  case (Suc m)
  have step: "\<exists>n \<le> Suc m. \<exists>e'. entry_keys H W (replicate (Suc n) ENTRY_DELETE_KEY) e = Some (StepUnchanged, e') \<and>
      entry_wf W e' \<and> en_stage e' = StageIndex"
    if k: "entry_key H W ENTRY_DELETE_KEY e = Some (StepRedraw, e1)" and wf: "entry_wf W e1"
      and st: "en_stage e1 = StageWord" and less: "9 * en_cursor e1 + length (en_prefix e1) \<le> m" for e1
  proof -
    obtain n e' where n: "n \<le> m" "entry_keys H W (replicate (Suc n) ENTRY_DELETE_KEY) e1 = Some (StepUnchanged, e')"
      "entry_wf W e'" "en_stage e' = StageIndex" using Suc.IH[OF wf st less] by blast
    have "entry_keys H W (replicate (Suc (Suc n)) ENTRY_DELETE_KEY) e = Some (StepUnchanged, e')"
      by (subst replicate_Suc) (simp only: entry_keys.simps k option.case prod.case entry_step.case n(2))
    then show ?thesis using n by (intro exI[of _ "Suc n"]) blast
  qed
  consider (letter) "en_prefix e \<noteq> []" | (previous) "en_prefix e = []" "0 < en_cursor e" | (leave) "en_prefix e = []" "en_cursor e = 0"
    by blast
  then show ?case
  proof cases
    case letter
    then have "entry_key H W ENTRY_DELETE_KEY e = Some (StepRedraw, refresh W (e\<lparr>en_prefix := butlast (en_prefix e)\<rparr>))"
      using Suc.prems(2) by (simp add: entry_key_def word_key_def up_pop_def)
    moreover have "9 * en_cursor e + length (butlast (en_prefix e)) \<le> m"
      using letter Suc.prems(3) length_greater_0_conv[of "en_prefix e"] unfolding length_butlast by linarith
    ultimately show ?thesis using step[OF _ pop_wf[OF Suc.prems(1)]] Suc.prems(2) by simp
  next
    case previous
    let ?e = "snd (go_to W (en_cursor e - 1) e)"
    have k: "entry_key H W ENTRY_DELETE_KEY e = Some (StepRedraw, ?e)"
      using previous Suc.prems(2) by (simp add: entry_key_def word_key_def up_pop_def go_to_pair[symmetric])
    have wf: "entry_wf W ?e" using go_to_wf[of e "en_cursor e - 1"] wf_simps[OF Suc.prems(1)] by simp
    have "en_stage ?e = StageWord" using Suc.prems(2) by (simp add: go_to_def Let_def split: option.split)
    moreover have "en_cursor ?e = en_cursor e - 1" using wf_simps(2)[OF Suc.prems(1)]
      by (auto simp: go_to_def Let_def split: option.split)
    moreover have "length (en_prefix ?e) \<le> 8"
      using wf_simps(5)[OF wf] shape starts_with_length by (meson le_trans)
    ultimately show ?thesis using previous(2) Suc.prems(3) previous(1) step[OF k wf] by simp
  next
    case leave
    then have "entry_key H W ENTRY_DELETE_KEY e = Some (StepRedraw, e\<lparr>en_stage := StageIndex\<rparr>)"
      using Suc.prems(2) by (simp add: entry_key_def word_key_def up_pop_def)
    moreover have "entry_wf W (e\<lparr>en_stage := StageIndex\<rparr>)" using Suc.prems(1) by (simp add: entry_wf_def)
    ultimately show ?thesis by (intro exI[of _ 0]) simp
  qed
qed

lemma delete_out:
  assumes "entry_wf W e"
  shows "\<exists>n \<le> 237. \<exists>e'. entry_keys H W (replicate n ENTRY_DELETE_KEY) e = Some (StepAbort, e')"
proof -
  have word: "\<exists>n \<le> 236. \<exists>e'. entry_keys H W (replicate n ENTRY_DELETE_KEY) e1 = Some (StepAbort, e')"
    if wf: "entry_wf W e1" and st: "en_stage e1 = StageWord" for e1
  proof -
    have "length (en_prefix e1) \<le> 8" using wf_simps(5)[OF wf] shape starts_with_length by (meson le_trans)
    then have "9 * en_cursor e1 + length (en_prefix e1) \<le> 224" using wf_simps(2)[OF wf] by (simp add: BACKUP_WORDS_def)
    then obtain n e2 where n: "n \<le> 224" "entry_keys H W (replicate (Suc n) ENTRY_DELETE_KEY) e1 = Some (StepUnchanged, e2)"
      "entry_wf W e2" "en_stage e2 = StageIndex" using delete_word[OF wf st] by blast
    have "en_index e2 < 10 ^ 10" using wf_simps(3)[OF n(3)] by (simp add: u32_lim_def)
    then obtain m e' where m: "m \<le> 10" "entry_keys H W (replicate (Suc m) ENTRY_DELETE_KEY) e2 = Some (StepAbort, e')"
      using delete_index[OF n(4)] by blast
    have "entry_keys H W (replicate (Suc n + Suc m) ENTRY_DELETE_KEY) e1 = Some (StepAbort, e')"
      unfolding replicate_add by (simp only: keys_append[OF n(2)] m(2))
    then show ?thesis using n(1) m(1) by (intro exI[of _ "Suc n + Suc m"] conjI exI[of _ e']) simp_all
  qed
  show ?thesis
  proof (cases "en_stage e")
    case StageIndex
    have "en_index e < 10 ^ 10" using wf_simps(3)[OF assms] by (simp add: u32_lim_def)
    then obtain n e' where "n \<le> 10" "entry_keys H W (replicate (Suc n) ENTRY_DELETE_KEY) e = Some (StepAbort, e')"
      using delete_index[OF StageIndex] by blast
    then show ?thesis by (intro exI[of _ "Suc n"] conjI exI[of _ e']) simp_all
  next
    case StageWord
    obtain n e' where "n \<le> 236" "entry_keys H W (replicate n ENTRY_DELETE_KEY) e = Some (StepAbort, e')"
      using word[OF assms StageWord] by blast
    then show ?thesis by (intro exI[of _ n] conjI exI[of _ e']) simp_all
  next
    case StageFailed
    let ?e = "snd (go_to W (BACKUP_WORDS - 1) (e\<lparr>en_stage := StageWord\<rparr>))"
    have k: "entry_key H W ENTRY_DELETE_KEY e = Some (StepRedraw, ?e)"
      using StageFailed by (simp add: entry_key_def go_to_pair[symmetric])
    have "entry_wf W ?e" "en_stage ?e = StageWord"
      using go_to_wf[of "e\<lparr>en_stage := StageWord\<rparr>" "BACKUP_WORDS - 1"] wf_simps[OF assms] StageFailed
      by (simp_all add: go_to_def Let_def split: option.split)
    from word[OF this] obtain n e' where "n \<le> 236" "entry_keys H W (replicate n ENTRY_DELETE_KEY) ?e = Some (StepAbort, e')"
      by blast
    then show ?thesis using k by (intro exI[of _ "Suc n"] conjI exI[of _ e']) simp_all
  qed
qed

subsection \<open>The letters on the screen\<close>

lemma drawn_letter:
  assumes "entry_wf W e" "en_stage e = StageWord"
  shows "letter_for_key (word_entry W e) key = entry_slot e key"
proof -
  have p: "we_page (word_entry W e) mod we_pages (word_entry W e) = en_page e"
    using wf_simps(7)[OF assms(1)] unfolding entry_pages_def[symmetric] by (simp add: word_entry_def)
  have "capital c" if "c \<in> set (en_letters e)" for c
    using that wf_simps(6)[OF assms(1)] by (simp add: next_letters capital_alphabet)
  then show ?thesis using assms(2) unfolding letter_for_key_def p entry_slot_def
    by (auto simp: word_entry_def is_ascii_uppercase_capital Let_def split: option.split)
qed

text \<open>What a session from a fresh machine can end with: exactly the backups whose words check.\<close>

lemma keys_entered:
  "entry_wf W e \<Longrightarrow> entry_keys H W ks e = Some (StepEntered b, e') \<Longrightarrow>
   \<exists>ws. map Some ws = en_words e' \<and> length ws = BACKUP_WORDS \<and> set ws \<subseteq> set W \<and> en_index e' < u32_lim \<and>
     from_words H W (en_index e') ws = Inr b"
proof (induction ks arbitrary: e)
  case (Cons k ks)
  obtain st e1 where k: "entry_key H W k e = Some (st, e1)" "entry_wf W e1" using key_wf[OF Cons.prems(1)] by metis
  show ?case
  proof (cases st)
    case (StepEntered b1)
    then have eq: "b1 = b" "e1 = e'" using Cons.prems(2) k(1) by auto
    then obtain ws where ws: "map Some ws = en_words e'" "set ws \<subseteq> set W" "from_words H W (en_index e') ws = Inr b"
      using key_entered[OF Cons.prems(1), of H k b e'] k(1) StepEntered by blast
    have "length ws = BACKUP_WORDS" using arg_cong[OF ws(1), of length] wf_simps(1)[OF k(2)] eq(2) by simp
    then show ?thesis using ws wf_simps(3)[OF k(2)] eq(2) by blast
  qed (use Cons.prems(2) k Cons.IH[OF k(2)] in simp_all)
qed simp

lemma enters_exactly:
  "(\<exists>ks e'. entry_keys H W ks (entry_new W i) = Some (StepEntered b, e')) \<longleftrightarrow>
   (\<exists>ws ix. length ws = BACKUP_WORDS \<and> ix < u32_lim \<and> from_words H W ix ws = Inr b)"
proof
  assume "\<exists>ks e'. entry_keys H W ks (entry_new W i) = Some (StepEntered b, e')"
  then show "\<exists>ws ix. length ws = BACKUP_WORDS \<and> ix < u32_lim \<and> from_words H W ix ws = Inr b"
    using keys_entered[OF new_wf] by blast
next
  assume "\<exists>ws ix. length ws = BACKUP_WORDS \<and> ix < u32_lim \<and> from_words H W ix ws = Inr b"
  then obtain ws ix where ws: "length ws = BACKUP_WORDS" "ix < u32_lim" "from_words H W ix ws = Inr b" by blast
  then show "\<exists>ks e'. entry_keys H W ks (entry_new W i) = Some (StepEntered b, e')"
    using backup_entered[OF ws(3,1) _ _ ws(2)] from_words_ok[OF ws(3)] by blast
qed

end

end
