(* ===== verification/Quiz.thy ===== *)
theory Quiz
  imports WordList
begin

text \<open>
  \<open>firmware/src/quiz.rs\<close>: the check that a backup was written down. The random source is
  the parameter \<open>N\<close>, one \<open>next_u32\<close> of it: a value of 32 bits and what follows.
\<close>

definition QUIZ_KEYS :: bytes where "QUIZ_KEYS = [49, 50, 51]"
definition QUIZ_CANCEL :: u8 where "QUIZ_CANCEL = 120"
definition QUIZ_WORDS :: nat where "QUIZ_WORDS = 25"
definition QUIZ_POSITIONS :: nat where "QUIZ_POSITIONS = QUIZ_WORDS div 3"
definition QUIZ_OPTIONS :: nat where "QUIZ_OPTIONS = length QUIZ_KEYS"
definition LAST_POSITION :: nat where "LAST_POSITION = QUIZ_WORDS - 1"
definition DRAW_TRIES :: nat where "DRAW_TRIES = 32"

lemmas quiz_consts = QUIZ_KEYS_def QUIZ_CANCEL_def QUIZ_WORDS_def QUIZ_POSITIONS_def QUIZ_OPTIONS_def
  LAST_POSITION_def DRAW_TRIES_def

subsection \<open>Drawing\<close>

definition below :: "('r \<Rightarrow> u32 \<times> 'r) \<Rightarrow> nat \<Rightarrow> 'r \<Rightarrow> nat \<times> 'r" where
  "below N bound r =
     (if bound < u32_lim \<and> 0 < bound then (case N r of (v, r') \<Rightarrow> (unat v * bound div 2 ^ 32, r'))
      else (0, r))"

fun shuffle_from :: "('r \<Rightarrow> u32 \<times> 'r) \<Rightarrow> nat \<Rightarrow> 'a list \<Rightarrow> 'r \<Rightarrow> 'a list \<times> 'r" where
  "shuffle_from N 0 xs r = (xs, r)"
| "shuffle_from N (Suc i) xs r =
     (if 0 < i then (case below N (i + 1) r of (j, r') \<Rightarrow> shuffle_from N i (swap_at i j xs) r') else (xs, r))"

definition shuffle :: "('r \<Rightarrow> u32 \<times> 'r) \<Rightarrow> 'a list \<Rightarrow> 'r \<Rightarrow> 'a list \<times> 'r" where
  "shuffle N xs r = shuffle_from N (length xs) xs r"

fun draw_tries :: "('r \<Rightarrow> u32 \<times> 'r) \<Rightarrow> nat \<Rightarrow> words \<Rightarrow> words \<Rightarrow> 'r \<Rightarrow> string option \<times> 'r" where
  "draw_tries N 0 pool taken r = (find (\<lambda>word. word \<notin> set taken) pool, r)"
| "draw_tries N (Suc n) pool taken r =
     (case below N (length pool) r of (i, r') \<Rightarrow>
       if length pool \<le> i then (None, r')
       else if pool ! i \<notin> set taken then (Some (pool ! i), r')
       else draw_tries N n pool taken r')"

definition draw_distinct :: "('r \<Rightarrow> u32 \<times> 'r) \<Rightarrow> words \<Rightarrow> words \<Rightarrow> 'r \<Rightarrow> string option \<times> 'r" where
  "draw_distinct N pool taken r = draw_tries N DRAW_TRIES pool taken r"

definition draw_order :: "('r \<Rightarrow> u32 \<times> 'r) \<Rightarrow> 'r \<Rightarrow> nat list \<times> 'r" where
  "draw_order N r =
     (case shuffle N [0 ..< QUIZ_WORDS - 1] r of (pool, r') \<Rightarrow>
        shuffle N (take (QUIZ_POSITIONS - 1) pool @
                   replicate (QUIZ_POSITIONS - length (take (QUIZ_POSITIONS - 1) pool)) LAST_POSITION) r')"

definition is_bip39 :: "words \<Rightarrow> string \<Rightarrow> bool" where
  "is_bip39 W w \<longleftrightarrow> (case words_with_prefix W w of [] \<Rightarrow> False | v # _ \<Rightarrow> v = w)"

subsection \<open>The quiz\<close>

datatype quiz_step = QuizUnchanged | QuizRedraw | QuizAbort | QuizPassed

record quiz =
  qz_words :: words
  qz_order :: "nat list"
  qz_asked :: nat
  qz_options :: words
  qz_wrong :: bool

definition quiz_position :: "quiz \<Rightarrow> nat option" where
  "quiz_position q = (if qz_asked q < length (qz_order q) then Some (qz_order q ! qz_asked q) else None)"

definition quiz_truth :: "quiz \<Rightarrow> string option" where
  "quiz_truth q =
     (case quiz_position q of
        None \<Rightarrow> None
      | Some p \<Rightarrow> if p < length (qz_words q) then Some (qz_words q ! p) else None)"

definition draw_options :: "('r \<Rightarrow> u32 \<times> 'r) \<Rightarrow> words \<Rightarrow> quiz \<Rightarrow> 'r \<Rightarrow> (unit option \<times> quiz) \<times> 'r" where
  "draw_options N W q r =
     (case quiz_truth q of
        None \<Rightarrow> ((None, q), r)
      | Some truth \<Rightarrow>
         (case draw_distinct N (qz_words q) [truth] r of
            (None, r) \<Rightarrow> ((None, q), r)
          | (Some own, r) \<Rightarrow>
             (case draw_distinct N W [truth, own] r of
                (None, r) \<Rightarrow> ((None, q), r)
              | (Some any, r) \<Rightarrow>
                 (case shuffle N [truth, own, any] r of (options, r) \<Rightarrow>
                    ((Some (), q\<lparr>qz_options := options\<rparr>), r)))))"

definition quiz_new :: "('r \<Rightarrow> u32 \<times> 'r) \<Rightarrow> words \<Rightarrow> words \<Rightarrow> 'r \<Rightarrow> quiz option \<times> 'r" where
  "quiz_new N W ws r =
     (if \<not> list_all (is_bip39 W) ws then (None, r)
      else case draw_order N r of (order, r) \<Rightarrow>
        (case draw_options N W
            \<lparr>qz_words = ws, qz_order = order, qz_asked = 0, qz_options = replicate QUIZ_OPTIONS [],
             qz_wrong = False\<rparr> r of
           ((None, _), r) \<Rightarrow> (None, r)
         | ((Some _, q), r) \<Rightarrow> (Some q, r)))"

definition quiz_ask :: "('r \<Rightarrow> u32 \<times> 'r) \<Rightarrow> words \<Rightarrow> quiz \<Rightarrow> 'r \<Rightarrow> (quiz_step \<times> quiz) \<times> 'r" where
  "quiz_ask N W q r =
     (case draw_options N W q r of
        ((Some _, q'), r') \<Rightarrow> ((QuizRedraw, q'), r')
      | ((None, q'), r') \<Rightarrow> ((QuizAbort, q'), r'))"

definition quiz_key :: "('r \<Rightarrow> u32 \<times> 'r) \<Rightarrow> words \<Rightarrow> u8 \<Rightarrow> quiz \<Rightarrow> 'r \<Rightarrow> (quiz_step \<times> quiz) \<times> 'r" where
  "quiz_key N W key q r =
     (case quiz_truth q of
        None \<Rightarrow> ((QuizUnchanged, q), r)
      | Some truth \<Rightarrow>
          if key = QUIZ_CANCEL then ((QuizAbort, q), r)
          else (case iter_position (\<lambda>k. k = key) QUIZ_KEYS of
            None \<Rightarrow> ((QuizUnchanged, q), r)
          | Some slot \<Rightarrow>
              if length (qz_options q) \<le> slot then ((QuizUnchanged, q), r)
              else if qz_options q ! slot \<noteq> truth then quiz_ask N W (q\<lparr>qz_wrong := True\<rparr>) r
              else
                (let q = q\<lparr>qz_wrong := False, qz_asked := qz_asked q + 1\<rparr> in
                 if QUIZ_POSITIONS \<le> qz_asked q then ((QuizPassed, q), r)
                 else quiz_ask N W q r)))"

record quiz_word =
  qw_number :: nat
  qw_asked :: nat
  qw_total :: nat
  qw_retry :: bool

datatype quiz_screen = ScreenQuizWord quiz_word words | ScreenQuizPassed nat

definition quiz_screen :: "quiz \<Rightarrow> quiz_screen" where
  "quiz_screen q =
     (case quiz_position q of
        Some p \<Rightarrow> ScreenQuizWord \<lparr>qw_number = p + 1, qw_asked = qz_asked q, qw_total = QUIZ_POSITIONS,
                                 qw_retry = qz_wrong q\<rparr> (qz_options q)
      | None \<Rightarrow> ScreenQuizPassed QUIZ_POSITIONS)"

text \<open>The keys of a session up to its end, with what was answered to which word.\<close>

definition quiz_answer :: "quiz \<Rightarrow> u8 \<Rightarrow> (nat \<times> string) list" where
  "quiz_answer q key =
     (case (quiz_position q, iter_position (\<lambda>k. k = key) QUIZ_KEYS) of
        (Some p, Some slot) \<Rightarrow> if slot < length (qz_options q) then [(p, qz_options q ! slot)] else []
      | _ \<Rightarrow> [])"

fun quiz_keys :: "('r \<Rightarrow> u32 \<times> 'r) \<Rightarrow> words \<Rightarrow> bytes \<Rightarrow> quiz \<Rightarrow> 'r \<Rightarrow> (quiz_step \<times> quiz) \<times> (nat \<times> string) list" where
  "quiz_keys N W [] q r = ((QuizUnchanged, q), [])"
| "quiz_keys N W (k # ks) q r =
     (case quiz_key N W k q r of
        ((QuizAbort, q'), _) \<Rightarrow> ((QuizAbort, q'), quiz_answer q k)
      | ((QuizPassed, q'), _) \<Rightarrow> ((QuizPassed, q'), quiz_answer q k)
      | ((_, q'), r') \<Rightarrow> (case quiz_keys N W ks q' r' of (out, log) \<Rightarrow> (out, quiz_answer q k @ log)))"

end
