(* ===== verification/QuizCorrect.thy ===== *)
theory QuizCorrect
  imports Quiz
begin

text \<open>
  What the quiz asks and when it passes, over any list with the contract \<open>wordlist\<close> and any
  random source: draws end inside their pools, the options of a question are three words of which one
  is right, and only eight right answers, the last word's among them, pass.
\<close>

subsection \<open>Draws\<close>

lemma below_bound: "0 < n \<Longrightarrow> n < u32_lim \<Longrightarrow> fst (below N n r) < n"
proof -
  assume n: "0 < n" "n < u32_lim"
  obtain v r' where v: "N r = (v, r')" by fastforce
  have "unat v < 2 ^ 32" using unsigned_less[of v] by simp
  then have "unat v * n < 2 ^ 32 * n" using n(1) by (intro mult_strict_right_mono)
  then have "unat v * n div 2 ^ 32 < n" by (simp add: div_less_iff_less_mult mult.commute)
  then show ?thesis using n by (simp add: below_def v)
qed

lemma shuffle_from_same:
  "i \<le> length xs \<Longrightarrow> length xs < u32_lim \<Longrightarrow> shuffle_from N i xs r = (ys, r') \<Longrightarrow>
   length ys = length xs \<and> set ys = set xs \<and> (distinct ys \<longleftrightarrow> distinct xs)"
proof (induction i arbitrary: xs r)
  case (Suc i)
  show ?case
  proof (cases "0 < i")
    case True
    obtain j r1 where j: "below N (i + 1) r = (j, r1)" by fastforce
    then have lt: "i < length xs" "j < length xs" using below_bound[of "i + 1" N r] Suc.prems(1,2) by auto
    show ?thesis using Suc.IH[of "swap_at i j xs" r1] Suc.prems lt True j by simp
  qed (use Suc.prems in simp)
qed simp

lemma shuffle_same:
  "length xs < u32_lim \<Longrightarrow> shuffle N xs r = (ys, r') \<Longrightarrow>
   length ys = length xs \<and> set ys = set xs \<and> (distinct ys \<longleftrightarrow> distinct xs)"
  unfolding shuffle_def by (rule shuffle_from_same) simp_all

lemma find_outside: "(case find (\<lambda>w. w \<notin> set taken) pool of
    Some w \<Rightarrow> w \<in> set pool - set taken | None \<Rightarrow> set pool \<subseteq> set taken)"
  by (induction pool) (auto split: option.splits)

lemma draw_tries_spec:
  "pool \<noteq> [] \<Longrightarrow> length pool < u32_lim \<Longrightarrow>
   (case fst (draw_tries N n pool taken r) of Some w \<Rightarrow> w \<in> set pool - set taken | None \<Rightarrow> set pool \<subseteq> set taken)"
proof (induction n arbitrary: r)
  case (Suc n)
  obtain i r1 where i: "below N (length pool) r = (i, r1)" by fastforce
  then have "i < length pool" using below_bound[of "length pool" N r] Suc.prems by simp
  then show ?case using Suc i by simp
qed (simp add: find_outside)

lemma draw_distinct_spec:
  "pool \<noteq> [] \<Longrightarrow> length pool < u32_lim \<Longrightarrow> draw_distinct N pool taken r = (res, r') \<Longrightarrow>
   (case res of Some w \<Rightarrow> w \<in> set pool - set taken | None \<Rightarrow> set pool \<subseteq> set taken)"
  using draw_tries_spec[of pool taken N DRAW_TRIES r] by (simp add: draw_distinct_def)

lemma draw_order_spec:
  "draw_order N r = (order, r') \<Longrightarrow>
   length order = QUIZ_POSITIONS \<and> distinct order \<and> LAST_POSITION \<in> set order \<and> (\<forall>p \<in> set order. p < QUIZ_WORDS)"
proof -
  assume d: "draw_order N r = (order, r')"
  obtain pool r1 where p: "shuffle N [0 ..< QUIZ_WORDS - 1] r = (pool, r1)" by fastforce
  have pool: "length pool = 24" "set pool = {0 ..< 24}" "distinct pool"
    using shuffle_same[OF _ p] by (simp_all add: quiz_consts u32_lim_def)
  let ?o = "take 7 pool @ [24]"
  have o: "shuffle N ?o r1 = (order, r')" using d p pool(1) by (simp add: draw_order_def quiz_consts)
  have "set (take 7 pool) \<subseteq> {0 ..< 24}" "distinct (take 7 pool)"
    using pool set_take_subset[of 7 pool] by auto
  then have "distinct ?o" "\<forall>p \<in> set ?o. p < 25" by auto
  then show ?thesis using shuffle_same[OF _ o] pool(1) by (simp add: quiz_consts u32_lim_def)
qed

subsection \<open>Between two keys\<close>

definition quiz_ready :: "words \<Rightarrow> quiz \<Rightarrow> bool" where
  "quiz_ready W q \<longleftrightarrow>
     length (qz_words q) = QUIZ_WORDS \<and> set (qz_words q) \<subseteq> set W \<and> (\<exists>u \<in> set (qz_words q). \<exists>v \<in> set (qz_words q). u \<noteq> v) \<and>
     length (qz_order q) = QUIZ_POSITIONS \<and> distinct (qz_order q) \<and> LAST_POSITION \<in> set (qz_order q) \<and>
     (\<forall>p \<in> set (qz_order q). p < QUIZ_WORDS) \<and> qz_asked q \<le> QUIZ_POSITIONS"

definition quiz_wf :: "words \<Rightarrow> quiz \<Rightarrow> bool" where
  "quiz_wf W q \<longleftrightarrow> quiz_ready W q \<and>
     (qz_asked q < QUIZ_POSITIONS \<longrightarrow>
        length (qz_options q) = QUIZ_OPTIONS \<and> distinct (qz_options q) \<and> set (qz_options q) \<subseteq> set W \<and>
        qz_words q ! (qz_order q ! qz_asked q) \<in> set (qz_options q) \<and>
        (\<exists>own \<in> set (qz_options q). own \<in> set (qz_words q) \<and> own \<noteq> qz_words q ! (qz_order q ! qz_asked q)))"

lemma quiz_truth_ready:
  "quiz_ready W q \<Longrightarrow> quiz_truth q =
    (if qz_asked q < QUIZ_POSITIONS then Some (qz_words q ! (qz_order q ! qz_asked q)) else None)"
  by (auto simp: quiz_ready_def quiz_truth_def quiz_position_def)

lemma quiz_key_position: "iter_position (\<lambda>k. k = key) QUIZ_KEYS = Some i \<longleftrightarrow> i < 3 \<and> key = QUIZ_KEYS ! i"
  by (auto simp: position_Some QUIZ_KEYS_def nth_Cons' split: if_splits)

lemma cancel_not_answer: "iter_position (\<lambda>k. k = QUIZ_CANCEL) QUIZ_KEYS = None"
  by (simp add: quiz_consts)

context wordlist
begin

lemma is_bip39_iff: "is_bip39 W w \<longleftrightarrow> w \<in> set W"
proof
  assume "is_bip39 W w"
  then obtain ws where "filter (\<lambda>v. starts_with v w) W = w # ws"
    by (auto simp: is_bip39_def prefix_block split: list.splits)
  then have "w \<in> set (filter (\<lambda>v. starts_with v w) W)" by simp
  then show "w \<in> set W" by simp
next
  assume "w \<in> set W"
  then show "is_bip39 W w" using word_itself[of w] by (auto simp: is_bip39_def)
qed

lemma draw_options_spec:
  assumes "quiz_ready W q" "qz_asked q < QUIZ_POSITIONS"
  shows "\<exists>opts r'. draw_options N W q r = ((Some (), q\<lparr>qz_options := opts\<rparr>), r') \<and> quiz_wf W (q\<lparr>qz_options := opts\<rparr>)"
proof -
  let ?t = "qz_words q ! (qz_order q ! qz_asked q)"
  note R = assms(1)[unfolded quiz_ready_def]
  have t: "quiz_truth q = Some ?t" "?t \<in> set (qz_words q)"
    using quiz_truth_ready[OF assms(1)] assms R by (auto simp: nth_mem)
  have p: "qz_words q \<noteq> []" "length (qz_words q) < u32_lim" "W \<noteq> []" "length W < u32_lim"
    using R len by (auto simp: quiz_consts u32_lim_def)
  obtain o1 r1 where d1: "draw_distinct N (qz_words q) [?t] r = (o1, r1)" by fastforce
  have "\<not> set (qz_words q) \<subseteq> {?t}" using R by (metis singletonD subset_iff)
  then obtain own where own: "o1 = Some own" "own \<in> set (qz_words q)" "own \<noteq> ?t"
    using draw_distinct_spec[OF p(1,2) d1] by (auto split: option.splits)
  obtain o2 r2 where d2: "draw_distinct N W [?t, own] r1 = (o2, r2)" by fastforce
  have "\<not> set W \<subseteq> {?t, own}"
    using card_mono[of "{?t, own}" "set W"] card_insert_le_m1[of 2 "{own}" ?t] distinct_card[OF distinct] len by auto
  then obtain any where any: "o2 = Some any" "any \<in> set W" "any \<noteq> ?t" "any \<noteq> own"
    using draw_distinct_spec[OF p(3,4) d2] by (auto split: option.splits)
  obtain options r3 where s: "shuffle N [?t, own, any] r2 = (options, r3)" by fastforce
  have "length options = 3 \<and> set options = {?t, own, any} \<and> distinct options"
    using shuffle_same[OF _ s] own(3) any(3,4) by (auto simp: u32_lim_def)
  moreover have "quiz_ready W (q\<lparr>qz_options := options\<rparr>)" using assms(1) by (simp add: quiz_ready_def)
  ultimately have "quiz_wf W (q\<lparr>qz_options := options\<rparr>)"
    using R own(2,3) any(2) t(2) unfolding quiz_wf_def by (auto simp: QUIZ_OPTIONS_def QUIZ_KEYS_def)
  moreover have "draw_options N W q r = ((Some (), q\<lparr>qz_options := options\<rparr>), r3)"
    using t(1) d1 own(1) d2 any(1) s by (simp add: draw_options_def)
  ultimately show ?thesis by blast
qed

lemma ask_spec:
  assumes "quiz_ready W q" "qz_asked q < QUIZ_POSITIONS"
  shows "\<exists>opts r'. quiz_ask N W q r = ((QuizRedraw, q\<lparr>qz_options := opts\<rparr>), r') \<and> quiz_wf W (q\<lparr>qz_options := opts\<rparr>)"
proof -
  obtain opts r' where "draw_options N W q r = ((Some (), q\<lparr>qz_options := opts\<rparr>), r')" "quiz_wf W (q\<lparr>qz_options := opts\<rparr>)"
    using draw_options_spec[OF assms, of N r] by blast
  then show ?thesis unfolding quiz_ask_def by auto
qed

lemma new_spec:
  assumes "length ws = QUIZ_WORDS"
  shows "case fst (quiz_new N W ws r) of
      Some q \<Rightarrow> quiz_wf W q \<and> qz_words q = ws \<and> qz_asked q = 0 \<and> \<not> qz_wrong q
    | None \<Rightarrow> \<not> set ws \<subseteq> set W \<or> (\<forall>u \<in> set ws. \<forall>v \<in> set ws. u = v)"
proof (cases "set ws \<subseteq> set W \<and> (\<exists>u \<in> set ws. \<exists>v \<in> set ws. u \<noteq> v)")
  case True
  obtain order r1 where o: "draw_order N r = (order, r1)" by fastforce
  let ?q = "\<lparr>qz_words = ws, qz_order = order, qz_asked = 0, qz_options = replicate QUIZ_OPTIONS [], qz_wrong = False\<rparr>"
  have "quiz_ready W ?q" using True assms draw_order_spec[OF o] by (simp add: quiz_ready_def)
  moreover have "qz_asked ?q < QUIZ_POSITIONS" by (simp add: quiz_consts)
  ultimately obtain opts r' where q: "draw_options N W ?q r1 = ((Some (), ?q\<lparr>qz_options := opts\<rparr>), r')"
    "quiz_wf W (?q\<lparr>qz_options := opts\<rparr>)" using draw_options_spec[of ?q N r1] by blast
  have "list_all (is_bip39 W) ws" using True by (auto simp: list_all_iff is_bip39_iff)
  then show ?thesis using o q by (simp add: quiz_new_def)
next
  case False
  show ?thesis
  proof (cases "set ws \<subseteq> set W")
    case sub: True
    obtain order r1 where o: "draw_order N r = (order, r1)" by fastforce
    let ?q = "\<lparr>qz_words = ws, qz_order = order, qz_asked = 0, qz_options = replicate QUIZ_OPTIONS [], qz_wrong = False\<rparr>"
    have p: "ws \<noteq> []" "length ws < u32_lim" using assms by (auto simp: quiz_consts u32_lim_def)
    have "fst (fst (draw_options N W ?q r1)) = None"
    proof (cases "quiz_truth ?q")
      case (Some t)
      obtain o1 r2 where d: "draw_distinct N ws [t] r1 = (o1, r2)" by fastforce
      have "t \<in> set ws" using Some by (auto simp: quiz_truth_def split: option.splits if_splits)
      then have "o1 = None" using draw_distinct_spec[OF p d] False sub by (auto split: option.splits)
      then show ?thesis using Some d by (simp add: draw_options_def)
    qed (simp add: draw_options_def)
    then have "fst (quiz_new N W ws r) = None" using o by (auto simp: quiz_new_def split: prod.split option.split)
    then show ?thesis using False by simp
  next
    case notin: False
    then have "\<not> list_all (is_bip39 W) ws" by (auto simp: list_all_iff is_bip39_iff)
    then show ?thesis using notin by (simp add: quiz_new_def)
  qed
qed

subsection \<open>One key\<close>

text \<open>The three things a key can do to a question, and that every question has its right key.\<close>

lemma key_spec:
  assumes "quiz_wf W q" "qz_asked q < QUIZ_POSITIONS"
  defines "t \<equiv> qz_words q ! (qz_order q ! qz_asked q)"
  shows "(key = QUIZ_CANCEL \<and> quiz_key N W key q r = ((QuizAbort, q), r) \<and> quiz_answer q key = []) \<or>
    (key \<notin> set QUIZ_KEYS \<and> key \<noteq> QUIZ_CANCEL \<and> quiz_key N W key q r = ((QuizUnchanged, q), r) \<and> quiz_answer q key = []) \<or>
    (\<exists>v opts r'. v \<noteq> t \<and> quiz_answer q key = [(qz_order q ! qz_asked q, v)] \<and>
       quiz_key N W key q r = ((QuizRedraw, q\<lparr>qz_wrong := True, qz_options := opts\<rparr>), r') \<and>
       quiz_wf W (q\<lparr>qz_wrong := True, qz_options := opts\<rparr>)) \<or>
    (quiz_answer q key = [(qz_order q ! qz_asked q, t)] \<and>
       (\<exists>opts r'. quiz_key N W key q r =
          (if qz_asked q + 1 < QUIZ_POSITIONS
           then ((QuizRedraw, q\<lparr>qz_wrong := False, qz_asked := qz_asked q + 1, qz_options := opts\<rparr>), r')
           else ((QuizPassed, q\<lparr>qz_wrong := False, qz_asked := qz_asked q + 1\<rparr>), r)) \<and>
          quiz_wf W (q\<lparr>qz_wrong := False, qz_asked := qz_asked q + 1, qz_options := opts\<rparr>)))"
proof -
  have R: "quiz_ready W q" using assms(1) by (simp add: quiz_wf_def)
  have tr: "quiz_truth q = Some t" using quiz_truth_ready[OF R] assms(2) by (simp add: t_def)
  have pos: "quiz_position q = Some (qz_order q ! qz_asked q)"
    using R assms(2) by (simp add: quiz_position_def quiz_ready_def)
  have lo: "length (qz_options q) = 3" using assms(1,2) by (simp add: quiz_wf_def QUIZ_OPTIONS_def QUIZ_KEYS_def)
  show ?thesis
  proof (cases "iter_position (\<lambda>k. k = key) QUIZ_KEYS")
    case None
    then have "key \<notin> set QUIZ_KEYS" by (auto simp: position_None)
    then show ?thesis using None tr by (cases "key = QUIZ_CANCEL") (simp_all add: quiz_key_def quiz_answer_def split: option.split)
  next
    case (Some slot)
    then have nc: "key \<noteq> QUIZ_CANCEL" and sl: "slot < 3"
      using cancel_not_answer quiz_key_position[of key slot] by (metis option.distinct(1), blast)
    have ans: "quiz_answer q key = [(qz_order q ! qz_asked q, qz_options q ! slot)]"
      using pos Some sl lo by (simp add: quiz_answer_def)
    show ?thesis
    proof (cases "qz_options q ! slot = t")
      case False
      have "quiz_ready W (q\<lparr>qz_wrong := True\<rparr>)" using R by (simp add: quiz_ready_def)
      from ask_spec[OF this, of N r] obtain opts r' where
        "quiz_ask N W (q\<lparr>qz_wrong := True\<rparr>) r = ((QuizRedraw, q\<lparr>qz_wrong := True, qz_options := opts\<rparr>), r')"
        "quiz_wf W (q\<lparr>qz_wrong := True, qz_options := opts\<rparr>)" using assms(2) by auto
      moreover have "quiz_key N W key q r = quiz_ask N W (q\<lparr>qz_wrong := True\<rparr>) r"
        using False tr nc Some sl lo by (simp add: quiz_key_def)
      ultimately show ?thesis using False ans by auto
    next
      case True
      let ?q = "q\<lparr>qz_wrong := False, qz_asked := qz_asked q + 1\<rparr>"
      have ready: "quiz_ready W ?q" using R assms(2) by (simp add: quiz_ready_def)
      have key: "quiz_key N W key q r = (if QUIZ_POSITIONS \<le> qz_asked q + 1 then ((QuizPassed, ?q), r) else quiz_ask N W ?q r)"
        using True tr nc Some sl lo by (simp add: quiz_key_def Let_def)
      show ?thesis
      proof (cases "qz_asked q + 1 < QUIZ_POSITIONS")
        case more: True
        from ask_spec[OF ready, of N r] more obtain opts r' where
          "quiz_ask N W ?q r = ((QuizRedraw, ?q\<lparr>qz_options := opts\<rparr>), r')" "quiz_wf W (?q\<lparr>qz_options := opts\<rparr>)" by auto
        then show ?thesis using key ans True more by auto
      next
        case last: False
        have "quiz_ready W (?q\<lparr>qz_options := []\<rparr>)" using ready by (simp add: quiz_ready_def)
        then have "quiz_wf W (?q\<lparr>qz_options := []\<rparr>)" using last by (simp add: quiz_wf_def)
        then show ?thesis using key ans True last by auto
      qed
    qed
  qed
qed

lemma finished_spec:
  "quiz_wf W q \<Longrightarrow> \<not> qz_asked q < QUIZ_POSITIONS \<Longrightarrow> quiz_key N W key q r = ((QuizUnchanged, q), r)"
  using quiz_truth_ready[of W q] by (simp add: quiz_key_def quiz_wf_def)

text \<open>A run that passes answered every question still open with its word.\<close>

lemma passed_answers:
  "quiz_wf W q \<Longrightarrow> quiz_keys N W ks q r = ((QuizPassed, q'), log) \<Longrightarrow> qz_asked q \<le> i \<Longrightarrow> i < QUIZ_POSITIONS \<Longrightarrow>
   (qz_order q ! i, qz_words q ! (qz_order q ! i)) \<in> set log"
proof (induction ks arbitrary: q r log)
  case (Cons k ks)
  have a: "qz_asked q < QUIZ_POSITIONS" using Cons.prems(3,4) by simp
  consider (cancel) "quiz_key N W k q r = ((QuizAbort, q), r)" "quiz_answer q k = []"
    | (ignored) "quiz_key N W k q r = ((QuizUnchanged, q), r)" "quiz_answer q k = []"
    | (wrong) opts r' v where "quiz_key N W k q r = ((QuizRedraw, q\<lparr>qz_wrong := True, qz_options := opts\<rparr>), r')"
       "quiz_wf W (q\<lparr>qz_wrong := True, qz_options := opts\<rparr>)"
       "quiz_answer q k = [(qz_order q ! qz_asked q, v)]"
    | (right) opts r' where "quiz_key N W k q r =
          (if qz_asked q + 1 < QUIZ_POSITIONS
           then ((QuizRedraw, q\<lparr>qz_wrong := False, qz_asked := qz_asked q + 1, qz_options := opts\<rparr>), r')
           else ((QuizPassed, q\<lparr>qz_wrong := False, qz_asked := qz_asked q + 1\<rparr>), r))"
       "quiz_wf W (q\<lparr>qz_wrong := False, qz_asked := qz_asked q + 1, qz_options := opts\<rparr>)"
       "quiz_answer q k = [(qz_order q ! qz_asked q, qz_words q ! (qz_order q ! qz_asked q))]"
    using key_spec[OF Cons.prems(1) a, of k N r] by blast
  then show ?case
  proof cases
    case cancel
    then show ?thesis using Cons.prems(2) by simp
  next
    case ignored
    then show ?thesis using Cons.prems Cons.IH[of q r] by (auto split: prod.splits)
  next
    case wrong
    obtain out log' where run: "quiz_keys N W ks (q\<lparr>qz_wrong := True, qz_options := opts\<rparr>) r' = (out, log')" by fastforce
    then have "out = (QuizPassed, q')" "log = quiz_answer q k @ log'" using wrong(1) Cons.prems(2) by auto
    then show ?thesis using Cons.IH[OF wrong(2), of r' log'] run Cons.prems(3,4) by simp
  next
    case right
    show ?thesis
    proof (cases "i = qz_asked q")
      case True
      have "set (quiz_answer q k) \<subseteq> set log"
        using right(1) Cons.prems(2) by (auto split: if_splits prod.splits)
      then show ?thesis using True right(3) by simp
    next
      case False
      then have more: "qz_asked q + 1 < QUIZ_POSITIONS" and le: "qz_asked q + 1 \<le> i" using Cons.prems(3,4) by auto
      obtain out log' where run: "quiz_keys N W ks (q\<lparr>qz_wrong := False, qz_asked := qz_asked q + 1, qz_options := opts\<rparr>) r' = (out, log')"
        by fastforce
      then have "out = (QuizPassed, q')" "log = quiz_answer q k @ log'" using right(1) more Cons.prems(2) by auto
      then show ?thesis using Cons.IH[OF right(2), of r' log'] run le Cons.prems(4) by simp
    qed
  qed
qed simp

text \<open>Some key is the right one, so as many keys as there are open questions pass.\<close>

lemma right_key:
  assumes "quiz_wf W q" "qz_asked q < QUIZ_POSITIONS"
  shows "\<exists>k. quiz_answer q k = [(qz_order q ! qz_asked q, qz_words q ! (qz_order q ! qz_asked q))]"
proof -
  obtain i where i: "i < length (qz_options q)" "qz_options q ! i = qz_words q ! (qz_order q ! qz_asked q)"
    using assms by (auto simp: quiz_wf_def in_set_conv_nth)
  then have "i < 3" using assms by (simp add: quiz_wf_def QUIZ_OPTIONS_def QUIZ_KEYS_def)
  then have "iter_position (\<lambda>k. k = QUIZ_KEYS ! i) QUIZ_KEYS = Some i" by (simp add: quiz_key_position)
  moreover have "quiz_position q = Some (qz_order q ! qz_asked q)"
    using assms by (simp add: quiz_position_def quiz_wf_def quiz_ready_def)
  ultimately show ?thesis using i by (intro exI[of _ "QUIZ_KEYS ! i"]) (simp add: quiz_answer_def)
qed

lemma pass_keys:
  "quiz_wf W q \<Longrightarrow> qz_asked q < QUIZ_POSITIONS \<Longrightarrow> n = QUIZ_POSITIONS - qz_asked q \<Longrightarrow>
   \<exists>ks. length ks = n \<and> fst (fst (quiz_keys N W ks q r)) = QuizPassed"
proof (induction n arbitrary: q r)
  case (Suc n)
  obtain k where k: "quiz_answer q k = [(qz_order q ! qz_asked q, qz_words q ! (qz_order q ! qz_asked q))]"
    using right_key[OF Suc.prems(1,2)] by blast
  obtain opts r' where step: "quiz_key N W k q r =
        (if qz_asked q + 1 < QUIZ_POSITIONS
         then ((QuizRedraw, q\<lparr>qz_wrong := False, qz_asked := qz_asked q + 1, qz_options := opts\<rparr>), r')
         else ((QuizPassed, q\<lparr>qz_wrong := False, qz_asked := qz_asked q + 1\<rparr>), r))"
     "quiz_wf W (q\<lparr>qz_wrong := False, qz_asked := qz_asked q + 1, qz_options := opts\<rparr>)"
    using key_spec[OF Suc.prems(1,2), of k N r] k by auto
  show ?case
  proof (cases "qz_asked q + 1 < QUIZ_POSITIONS")
    case True
    have "n = QUIZ_POSITIONS - (qz_asked q + 1)" using Suc.prems(3) by simp
    then obtain ks where "length ks = n" "fst (fst (quiz_keys N W ks
        (q\<lparr>qz_wrong := False, qz_asked := qz_asked q + 1, qz_options := opts\<rparr>) r')) = QuizPassed"
      using Suc.IH[OF step(2), of r'] True by auto
    then show ?thesis using step(1) True by (intro exI[of _ "k # ks"]) (auto split: prod.split)
  next
    case False
    then show ?thesis using step(1) Suc.prems(2,3) by (intro exI[of _ "[k]"]) auto
  qed
qed simp

lemma passed_order:
  assumes "length ws = QUIZ_WORDS" "quiz_new N W ws r = (Some q, r1)" "quiz_keys N W ks q r1 = ((QuizPassed, q'), log)"
  shows "\<exists>order. length order = QUIZ_POSITIONS \<and> distinct order \<and> LAST_POSITION \<in> set order \<and>
    (\<forall>p \<in> set order. p < QUIZ_WORDS \<and> (p, ws ! p) \<in> set log)"
proof (rule exI[of _ "qz_order q"])
  have q: "quiz_wf W q" "qz_words q = ws" "qz_asked q = 0" using new_spec[OF assms(1), of N r] assms(2) by simp_all
  then have R: "length (qz_order q) = QUIZ_POSITIONS" "distinct (qz_order q)" "LAST_POSITION \<in> set (qz_order q)"
    "\<forall>p \<in> set (qz_order q). p < QUIZ_WORDS" by (simp_all add: quiz_wf_def quiz_ready_def)
  have "(p, ws ! p) \<in> set log" if "p \<in> set (qz_order q)" for p
    using that passed_answers[OF q(1) assms(3)] q(2,3) R(1) by (auto simp: in_set_conv_nth)
  then show "length (qz_order q) = QUIZ_POSITIONS \<and> distinct (qz_order q) \<and> LAST_POSITION \<in> set (qz_order q) \<and>
    (\<forall>p \<in> set (qz_order q). p < QUIZ_WORDS \<and> (p, ws ! p) \<in> set log)" using R by blast
qed

text \<open>Nothing but the cancel key gives up, and the answers that pass are always there.\<close>

lemma abort_key:
  assumes "quiz_wf W q" "qz_asked q < QUIZ_POSITIONS"
  shows "fst (fst (quiz_key N W key q r)) = QuizAbort \<longleftrightarrow> key = QUIZ_CANCEL"
proof -
  have "QUIZ_CANCEL \<notin> set QUIZ_KEYS" by (simp add: quiz_consts)
  moreover have "quiz_answer q QUIZ_CANCEL = []" by (simp add: quiz_answer_def cancel_not_answer split: option.split)
  ultimately show ?thesis using key_spec[OF assms, of key N r] by (auto split: if_splits)
qed

end

end
