(* ===== verification/Screen.thy ===== *)
theory Screen
  imports Prelude
begin

text \<open>
  \<open>hal/src/ui.rs\<close>, the glass: the frame of 1,024 bytes in the panel's own order, the font, the
  text routines, and the fixed text buffers the pages are composed in. A string is the list of its
  code points.
\<close>

subsection \<open>Geometry and font\<close>

type_synonym frame = bytes
type_synonym code_points = "nat list"

definition str :: "string \<Rightarrow> code_points" where
  "str s = map of_char s"

definition WIDTH :: nat where "WIDTH = 128"
definition HEIGHT :: nat where "HEIGHT = 64"
definition FRAME_BYTES :: nat where "FRAME_BYTES = WIDTH * HEIGHT div 8"
definition CELL :: nat where "CELL = 8"
definition COLS :: nat where "COLS = WIDTH div CELL"
definition ROWS :: nat where "ROWS = HEIGHT div CELL"
definition SENSITIVE_MIN :: nat where "SENSITIVE_MIN = 2"
definition SENSITIVE_MAX :: nat where "SENSITIVE_MAX = 31"
definition FONT_FIRST :: nat where "FONT_FIRST = 32"
definition FONT_LAST :: nat where "FONT_LAST = 127"
definition MISSING_GLYPH :: nat where "MISSING_GLYPH = 95"

lemmas glass_defs = WIDTH_def HEIGHT_def FRAME_BYTES_def CELL_def COLS_def ROWS_def SENSITIVE_MIN_def
  SENSITIVE_MAX_def FONT_FIRST_def FONT_LAST_def MISSING_GLYPH_def

definition DOUBLE_NIBBLE :: bytes where
  "DOUBLE_NIBBLE =
    [0x00, 0x03, 0x0C, 0x0F, 0x30, 0x33, 0x3C, 0x3F, 0xC0, 0xC3, 0xCC, 0xCF, 0xF0, 0xF3, 0xFC, 0xFF]"

definition FONT :: bytes where
  "FONT =
    [0x00, 0x00, 0x00, 0x00, 0x00, 0x00, 0x00, 0x00,
     0x00, 0x00, 0x00, 0x4F, 0x4F, 0x00, 0x00, 0x00,
     0x00, 0x07, 0x07, 0x00, 0x00, 0x07, 0x07, 0x00,
     0x14, 0x7F, 0x7F, 0x14, 0x14, 0x7F, 0x7F, 0x14,
     0x00, 0x24, 0x2E, 0x6B, 0x6B, 0x3A, 0x12, 0x00,
     0x00, 0x63, 0x33, 0x18, 0x0C, 0x66, 0x63, 0x00,
     0x00, 0x32, 0x7F, 0x4D, 0x4D, 0x77, 0x72, 0x50,
     0x00, 0x00, 0x00, 0x04, 0x06, 0x03, 0x01, 0x00,
     0x00, 0x00, 0x1C, 0x3E, 0x63, 0x41, 0x00, 0x00,
     0x00, 0x00, 0x41, 0x63, 0x3E, 0x1C, 0x00, 0x00,
     0x08, 0x2A, 0x3E, 0x1C, 0x1C, 0x3E, 0x2A, 0x08,
     0x00, 0x08, 0x08, 0x3E, 0x3E, 0x08, 0x08, 0x00,
     0x00, 0x00, 0x80, 0xE0, 0x60, 0x00, 0x00, 0x00,
     0x00, 0x08, 0x08, 0x08, 0x08, 0x08, 0x08, 0x00,
     0x00, 0x00, 0x00, 0x60, 0x60, 0x00, 0x00, 0x00,
     0x00, 0x40, 0x60, 0x30, 0x18, 0x0C, 0x06, 0x02,
     0x00, 0x3E, 0x7F, 0x49, 0x45, 0x7F, 0x3E, 0x00,
     0x00, 0x40, 0x44, 0x7F, 0x7F, 0x40, 0x40, 0x00,
     0x00, 0x62, 0x73, 0x51, 0x49, 0x4F, 0x46, 0x00,
     0x00, 0x22, 0x63, 0x49, 0x49, 0x7F, 0x36, 0x00,
     0x00, 0x18, 0x18, 0x14, 0x16, 0x7F, 0x7F, 0x10,
     0x00, 0x27, 0x67, 0x45, 0x45, 0x7D, 0x39, 0x00,
     0x00, 0x3E, 0x7F, 0x49, 0x49, 0x7B, 0x32, 0x00,
     0x00, 0x03, 0x03, 0x79, 0x7D, 0x07, 0x03, 0x00,
     0x00, 0x36, 0x7F, 0x49, 0x49, 0x7F, 0x36, 0x00,
     0x00, 0x26, 0x6F, 0x49, 0x49, 0x7F, 0x3E, 0x00,
     0x00, 0x00, 0x00, 0x24, 0x24, 0x00, 0x00, 0x00,
     0x00, 0x00, 0x80, 0xE4, 0x64, 0x00, 0x00, 0x00,
     0x00, 0x08, 0x1C, 0x36, 0x63, 0x41, 0x41, 0x00,
     0x00, 0x14, 0x14, 0x14, 0x14, 0x14, 0x14, 0x00,
     0x00, 0x41, 0x41, 0x63, 0x36, 0x1C, 0x08, 0x00,
     0x00, 0x02, 0x03, 0x51, 0x59, 0x0F, 0x06, 0x00,
     0x00, 0x3E, 0x7F, 0x41, 0x4D, 0x4F, 0x2E, 0x00,
     0x00, 0x7C, 0x7E, 0x0B, 0x0B, 0x7E, 0x7C, 0x00,
     0x00, 0x7F, 0x7F, 0x49, 0x49, 0x7F, 0x36, 0x00,
     0x00, 0x3E, 0x7F, 0x41, 0x41, 0x63, 0x22, 0x00,
     0x00, 0x7F, 0x7F, 0x41, 0x63, 0x3E, 0x1C, 0x00,
     0x00, 0x7F, 0x7F, 0x49, 0x49, 0x41, 0x41, 0x00,
     0x00, 0x7F, 0x7F, 0x09, 0x09, 0x01, 0x01, 0x00,
     0x00, 0x3E, 0x7F, 0x41, 0x49, 0x7B, 0x3A, 0x00,
     0x00, 0x7F, 0x7F, 0x08, 0x08, 0x7F, 0x7F, 0x00,
     0x00, 0x00, 0x41, 0x7F, 0x7F, 0x41, 0x00, 0x00,
     0x00, 0x20, 0x60, 0x41, 0x7F, 0x3F, 0x01, 0x00,
     0x00, 0x7F, 0x7F, 0x1C, 0x36, 0x63, 0x41, 0x00,
     0x00, 0x7F, 0x7F, 0x40, 0x40, 0x40, 0x40, 0x00,
     0x00, 0x7F, 0x7F, 0x06, 0x0C, 0x06, 0x7F, 0x7F,
     0x00, 0x7F, 0x7F, 0x0E, 0x1C, 0x7F, 0x7F, 0x00,
     0x00, 0x3E, 0x7F, 0x41, 0x41, 0x7F, 0x3E, 0x00,
     0x00, 0x7F, 0x7F, 0x09, 0x09, 0x0F, 0x06, 0x00,
     0x00, 0x1E, 0x3F, 0x21, 0x61, 0x7F, 0x5E, 0x00,
     0x00, 0x7F, 0x7F, 0x19, 0x39, 0x6F, 0x46, 0x00,
     0x00, 0x26, 0x6F, 0x49, 0x49, 0x7B, 0x32, 0x00,
     0x00, 0x01, 0x01, 0x7F, 0x7F, 0x01, 0x01, 0x00,
     0x00, 0x3F, 0x7F, 0x40, 0x40, 0x7F, 0x3F, 0x00,
     0x00, 0x1F, 0x3F, 0x60, 0x60, 0x3F, 0x1F, 0x00,
     0x00, 0x7F, 0x7F, 0x30, 0x18, 0x30, 0x7F, 0x7F,
     0x00, 0x63, 0x77, 0x1C, 0x1C, 0x77, 0x63, 0x00,
     0x00, 0x07, 0x0F, 0x78, 0x78, 0x0F, 0x07, 0x00,
     0x00, 0x61, 0x71, 0x59, 0x4D, 0x47, 0x43, 0x00,
     0x00, 0x00, 0x7F, 0x7F, 0x41, 0x41, 0x00, 0x00,
     0x00, 0x02, 0x06, 0x0C, 0x18, 0x30, 0x60, 0x40,
     0x00, 0x00, 0x41, 0x41, 0x7F, 0x7F, 0x00, 0x00,
     0x00, 0x08, 0x0C, 0x06, 0x06, 0x0C, 0x08, 0x00,
     0xC0, 0xC0, 0xC0, 0xC0, 0xC0, 0xC0, 0xC0, 0xC0,
     0x00, 0x00, 0x01, 0x03, 0x06, 0x04, 0x00, 0x00,
     0x00, 0x20, 0x74, 0x54, 0x54, 0x7C, 0x78, 0x00,
     0x00, 0x7F, 0x7F, 0x44, 0x44, 0x7C, 0x38, 0x00,
     0x00, 0x38, 0x7C, 0x44, 0x44, 0x6C, 0x28, 0x00,
     0x00, 0x38, 0x7C, 0x44, 0x44, 0x7F, 0x7F, 0x00,
     0x00, 0x38, 0x7C, 0x54, 0x54, 0x5C, 0x58, 0x00,
     0x00, 0x08, 0x7E, 0x7F, 0x09, 0x03, 0x02, 0x00,
     0x00, 0x98, 0xBC, 0xA4, 0xA4, 0xFC, 0x7C, 0x00,
     0x00, 0x7F, 0x7F, 0x04, 0x04, 0x7C, 0x78, 0x00,
     0x00, 0x00, 0x00, 0x7D, 0x7D, 0x00, 0x00, 0x00,
     0x00, 0x40, 0xC0, 0x80, 0x80, 0xFD, 0x7D, 0x00,
     0x00, 0x7F, 0x7F, 0x30, 0x38, 0x6C, 0x44, 0x00,
     0x00, 0x00, 0x41, 0x7F, 0x7F, 0x40, 0x00, 0x00,
     0x00, 0x7C, 0x7C, 0x18, 0x30, 0x18, 0x7C, 0x7C,
     0x00, 0x7C, 0x7C, 0x04, 0x04, 0x7C, 0x78, 0x00,
     0x00, 0x38, 0x7C, 0x44, 0x44, 0x7C, 0x38, 0x00,
     0x00, 0xFC, 0xFC, 0x24, 0x24, 0x3C, 0x18, 0x00,
     0x00, 0x18, 0x3C, 0x24, 0x24, 0xFC, 0xFC, 0x00,
     0x00, 0x7C, 0x7C, 0x04, 0x04, 0x0C, 0x08, 0x00,
     0x00, 0x48, 0x5C, 0x54, 0x54, 0x74, 0x20, 0x00,
     0x04, 0x04, 0x3F, 0x7F, 0x44, 0x64, 0x20, 0x00,
     0x00, 0x3C, 0x7C, 0x40, 0x40, 0x7C, 0x3C, 0x00,
     0x00, 0x1C, 0x3C, 0x60, 0x60, 0x3C, 0x1C, 0x00,
     0x00, 0x1C, 0x7C, 0x30, 0x18, 0x30, 0x7C, 0x1C,
     0x00, 0x44, 0x6C, 0x38, 0x38, 0x6C, 0x44, 0x00,
     0x00, 0x9C, 0xBC, 0xA0, 0xA0, 0xFC, 0x7C, 0x00,
     0x00, 0x44, 0x64, 0x74, 0x5C, 0x4C, 0x44, 0x00,
     0x00, 0x08, 0x08, 0x3E, 0x77, 0x41, 0x41, 0x00,
     0x00, 0x00, 0x00, 0xFF, 0xFF, 0x00, 0x00, 0x00,
     0x00, 0x41, 0x41, 0x77, 0x3E, 0x08, 0x08, 0x00,
     0x00, 0x02, 0x03, 0x01, 0x03, 0x02, 0x03, 0x01,
     0xAA, 0x55, 0xAA, 0x55, 0xAA, 0x55, 0xAA, 0x55]"

definition glyph :: "nat \<Rightarrow> nat" where
  "glyph c = (if FONT_FIRST \<le> c \<and> c < FONT_LAST then c - FONT_FIRST else MISSING_GLYPH)"

subsection \<open>The frame\<close>

definition frame_new :: frame where
  "frame_new = replicate FRAME_BYTES 0"

definition frame_clear :: "frame \<Rightarrow> frame" where
  "frame_clear f = replicate FRAME_BYTES 0"

definition set_pixel :: "nat \<Rightarrow> nat \<Rightarrow> bool \<Rightarrow> frame \<Rightarrow> frame" where
  "set_pixel x y on f =
     (if WIDTH \<le> x \<or> HEIGHT \<le> y then f
      else let at = (y div CELL) * WIDTH + x; mask = push_bit (y mod CELL) (1 :: u8) in
        if length f \<le> at then f
        else if on then f[at := f ! at OR mask] else f[at := f ! at AND NOT mask])"

definition pixel :: "nat \<Rightarrow> nat \<Rightarrow> frame \<Rightarrow> bool" where
  "pixel x y f =
     (if WIDTH \<le> x \<or> HEIGHT \<le> y then False
      else let at = (y div CELL) * WIDTH + x in
        if at < length f then f ! at AND push_bit (y mod CELL) 1 \<noteq> 0 else False)"

text \<open>One scan line of noise, from the right edge, and the eight of a row.\<close>

fun noise_line :: "nat list \<Rightarrow> nat \<Rightarrow> frame \<Rightarrow> frame" where
  "noise_line [] y f = f"
| "noise_line (x # xs) y f = noise_line xs y (set_pixel x y True f)"

fun noise_lines :: "('r \<Rightarrow> u32 \<times> 'r) \<Rightarrow> nat list \<Rightarrow> frame \<Rightarrow> 'r \<Rightarrow> frame \<times> 'r" where
  "noise_lines N [] f r = (f, r)"
| "noise_lines N (y # ys) f r =
     (case N r of (v, r') \<Rightarrow>
       let run = max (unat v mod (SENSITIVE_MAX + 1)) SENSITIVE_MIN in
       noise_lines N ys (noise_line [WIDTH - run ..< WIDTH] y f) r')"

definition mark_sensitive :: "('r \<Rightarrow> u32 \<times> 'r) \<Rightarrow> nat \<Rightarrow> frame \<Rightarrow> 'r \<Rightarrow> frame \<times> 'r" where
  "mark_sensitive N row f r = noise_lines N [row * CELL ..< row * CELL + CELL] f r"

text \<open>Text in cells of one glyph: how many were drawn, and the frame.\<close>

fun text_from :: "bool \<Rightarrow> nat \<Rightarrow> nat \<Rightarrow> nat \<Rightarrow> code_points \<Rightarrow> frame \<Rightarrow> nat \<times> frame" where
  "text_from invert col row drawn [] f = (drawn, f)"
| "text_from invert col row drawn (c # cs) f =
     (let x = col + drawn; g = glyph c * CELL; base = row * WIDTH + x * CELL in
      if COLS \<le> x then (drawn, f)
      else if length FONT < g + CELL then (drawn, f)
      else if length f < base + CELL then (drawn, f)
      else let src = window FONT g CELL in
        text_from invert col row (drawn + 1) cs (patch f base (if invert then map NOT src else src)))"

definition text_styled :: "nat \<Rightarrow> nat \<Rightarrow> code_points \<Rightarrow> bool \<Rightarrow> frame \<Rightarrow> nat \<times> frame" where
  "text_styled col row s invert f = (if ROWS \<le> row then (0, f) else text_from invert col row 0 s f)"

definition frame_text :: "nat \<Rightarrow> nat \<Rightarrow> code_points \<Rightarrow> frame \<Rightarrow> nat \<times> frame" where
  "frame_text col row s f = text_styled col row s False f"

definition text_inverted :: "nat \<Rightarrow> nat \<Rightarrow> code_points \<Rightarrow> frame \<Rightarrow> nat \<times> frame" where
  "text_inverted col row s f = text_styled col row s True f"

text \<open>Glyphs of twice the size: a glyph column is two byte columns, its low nibble in the row and its
  high nibble in the row below.\<close>

fun text_2x_from :: "nat \<Rightarrow> nat \<Rightarrow> nat \<Rightarrow> code_points \<Rightarrow> frame \<Rightarrow> nat \<times> frame" where
  "text_2x_from col row drawn [] f = (drawn, f)"
| "text_2x_from col row drawn (c # cs) f =
     (let x = col + drawn * 2; g = glyph c * CELL in
      if COLS < x + 2 then (drawn, f)
      else if length FONT < g + CELL then (drawn, f)
      else let src = window FONT g CELL;
        lo = concat (map (\<lambda>b. replicate 2 (DOUBLE_NIBBLE ! unat (b AND 0xF))) src);
        hi = concat (map (\<lambda>b. replicate 2 (DOUBLE_NIBBLE ! unat (drop_bit 4 b))) src) in
        text_2x_from col row (drawn + 1) cs
          (patch (patch f (row * WIDTH + x * CELL) lo) ((row + 1) * WIDTH + x * CELL) hi))"

definition text_2x :: "nat \<Rightarrow> nat \<Rightarrow> code_points \<Rightarrow> frame \<Rightarrow> nat \<times> frame" where
  "text_2x col row s f = (if ROWS \<le> row \<or> ROWS \<le> row + 1 then (0, f) else text_2x_from col row 0 s f)"

text \<open>Most callers look at the frame only.\<close>

definition put_text :: "nat \<Rightarrow> nat \<Rightarrow> code_points \<Rightarrow> frame \<Rightarrow> frame" where
  "put_text col row s f = snd (frame_text col row s f)"

text \<open>One row of \<open>wrap\<close> from the column with \<open>k\<close> cells left: whether the walk is
  over, how many characters are drawn, and what is left of them.\<close>

fun wrap_row :: "nat \<Rightarrow> nat \<Rightarrow> nat \<Rightarrow> code_points \<Rightarrow> frame \<Rightarrow> bool \<times> nat \<times> code_points \<times> frame" where
  "wrap_row y 0 drawn s f = (False, drawn, s, f)"
| "wrap_row y (Suc k) drawn [] f = (True, drawn, [], f)"
| "wrap_row y (Suc k) drawn (c # cs) f =
     (case frame_text (COLS - Suc k) y [c] f of
        (n, f') \<Rightarrow> if n = 0 then (True, drawn, cs, f') else wrap_row y k (drawn + 1) cs f')"

fun wrap_rows :: "nat \<Rightarrow> nat \<Rightarrow> nat \<Rightarrow> code_points \<Rightarrow> frame \<Rightarrow> nat \<times> frame" where
  "wrap_rows y 0 drawn s f = (drawn, f)"
| "wrap_rows y (Suc k) drawn s f =
     (if ROWS \<le> y then (drawn, f)
      else case wrap_row y COLS drawn s f of
        (True, drawn', _, f') \<Rightarrow> (drawn', f')
      | (False, drawn', s', f') \<Rightarrow> wrap_rows (y + 1) k drawn' s' f')"

definition wrap :: "nat \<Rightarrow> nat \<Rightarrow> code_points \<Rightarrow> frame \<Rightarrow> nat \<times> frame" where
  "wrap row rows s f = wrap_rows row rows 0 s f"

fun invert_from :: "nat \<Rightarrow> nat \<Rightarrow> nat \<Rightarrow> frame \<Rightarrow> frame" where
  "invert_from col row 0 f = f"
| "invert_from col row (Suc n) f =
     (let base = row * WIDTH + col * CELL in
      if COLS \<le> col then f
      else if base + CELL \<le> length f then invert_from (col + 1) row n (patch f base (map NOT (window f base CELL)))
      else invert_from (col + 1) row n f)"

definition invert_cells :: "nat \<Rightarrow> nat \<Rightarrow> nat \<Rightarrow> frame \<Rightarrow> frame" where
  "invert_cells col row n f = (if ROWS \<le> row then f else invert_from col row n f)"

text \<open>What a cell shows: the code of the glyph, and whether it is inverted.\<close>

fun cell_scan :: "bytes \<Rightarrow> nat list \<Rightarrow> (nat \<times> bool) option" where
  "cell_scan got [] = None"
| "cell_scan got (i # is) =
     (let src = window FONT (i * CELL) CELL in
      if got = src then Some (FONT_FIRST + i, False)
      else if got = map NOT src then Some (FONT_FIRST + i, True)
      else cell_scan got is)"

definition frame_cell :: "nat \<Rightarrow> nat \<Rightarrow> frame \<Rightarrow> (nat \<times> bool) option" where
  "frame_cell col row f =
     (let base = row * WIDTH + col * CELL in
      if COLS \<le> col \<or> ROWS \<le> row then None
      else if length f < base + CELL then None
      else cell_scan (window f base CELL) [0 ..< 96])"

subsection \<open>Text buffers\<close>

record text_buf =
  tb_text :: code_points
  tb_truncated :: bool

definition buf_new :: text_buf where
  "buf_new = \<lparr>tb_text = [], tb_truncated = False\<rparr>"

definition buf_push :: "nat \<Rightarrow> nat \<Rightarrow> text_buf \<Rightarrow> text_buf" where
  "buf_push n c b =
     (if length (tb_text b) < n then b\<lparr>tb_text := tb_text b @ [c]\<rparr> else b\<lparr>tb_truncated := True\<rparr>)"

definition push_str :: "nat \<Rightarrow> code_points \<Rightarrow> text_buf \<Rightarrow> text_buf" where
  "push_str n s b =
     foldl (\<lambda>b c. buf_push n (if FONT_FIRST \<le> c \<and> c < FONT_LAST then c else FONT_LAST) b) b s"

text \<open>The digits of a number, least significant first into a field of \<open>i\<close> places.\<close>

fun digits_into :: "nat \<Rightarrow> nat \<Rightarrow> code_points \<Rightarrow> code_points" where
  "digits_into 0 v ds = ds"
| "digits_into (Suc i) v ds =
     (let ds' = (48 + v mod 10) # ds in
      if v div 10 = 0 \<or> i = 0 then ds' else digits_into i (v div 10) ds')"

definition push_u64 :: "nat \<Rightarrow> nat \<Rightarrow> text_buf \<Rightarrow> text_buf" where
  "push_u64 n v b = foldl (\<lambda>b d. buf_push n d b) b (digits_into 20 v [])"

definition push_u8_pad2 :: "nat \<Rightarrow> nat \<Rightarrow> text_buf \<Rightarrow> text_buf" where
  "push_u8_pad2 n v b = buf_push n (48 + v mod 10) (buf_push n (48 + (v div 10) mod 10) b)"

definition hex_digit :: "nat \<Rightarrow> nat" where
  "hex_digit v = (if v < 16 then str ''0123456789abcdef'' ! v else 63)"

definition push_hex :: "nat \<Rightarrow> u8 \<Rightarrow> text_buf \<Rightarrow> text_buf" where
  "push_hex n b t = buf_push n (hex_digit (unat (b AND 0xF))) (buf_push n (hex_digit (unat (drop_bit 4 b))) t)"

end
