(* ===== verification/Pages.thy ===== *)
theory Pages
  imports Screen
begin

text \<open>
  \<open>hal/src/ui.rs\<close>, the pages: signing requests, the test message, addresses, key generation
  and the backup, each with what it refuses to draw. A page takes the frame and gives it back with
  whether it was drawn.
\<close>

subsection \<open>Constants and legends\<close>

definition ADDRESS_ROWS :: nat where "ADDRESS_ROWS = 5"
definition CHUNK :: nat where "CHUNK = 4"
definition MAX_RECIPIENTS :: nat where "MAX_RECIPIENTS = 32"
definition WORDS_PER_PAGE :: nat where "WORDS_PER_PAGE = 4"
definition SHOWN_WORDS :: nat where "SHOWN_WORDS = 25"
definition SHOWN_WORD_LEN :: nat where "SHOWN_WORD_LEN = 8"
definition SENSITIVE_LABEL_CELLS :: nat where "SENSITIVE_LABEL_CELLS = length (str ''NN: '')"
definition SENSITIVE_TEXT_CELLS :: nat where "SENSITIVE_TEXT_CELLS = SENSITIVE_LABEL_CELLS + SHOWN_WORD_LEN"
definition HIGH_FEE_SATS :: nat where "HIGH_FEE_SATS = 100000"
definition HIGH_FEE_PERCENT :: nat where "HIGH_FEE_PERCENT = 5"
definition FOOTER_ROW :: nat where "FOOTER_ROW = ROWS - 1"
definition MESSAGE_ROWS :: nat where "MESSAGE_ROWS = 4"
definition CONFIRM_CHARSET :: code_points where "CONFIRM_CHARSET = str ''12346''"
definition NEXT_KEY :: nat where "NEXT_KEY = 57"
definition BACK_KEY :: nat where "BACK_KEY = 55"
definition NEXT_LEGEND :: code_points where "NEXT_LEGEND = str '' (9)next''"
definition BACKUP_NEXT_LEGEND :: code_points where "BACKUP_NEXT_LEGEND = str ''(9)next''"
definition BACKUP_BACK_LEGEND :: code_points where "BACKUP_BACK_LEGEND = str ''(9)next (7)back''"
definition FEE_UNVERIFIED_1 :: code_points where "FEE_UNVERIFIED_1 = str ''NOT VERIFIED BY''"
definition FEE_UNVERIFIED_2 :: code_points where "FEE_UNVERIFIED_2 = str ''THIS DEVICE''"
definition KEYGEN_COMPARE_1 :: code_points where "KEYGEN_COMPARE_1 = str ''Compare code on''"
definition KEYGEN_COMPARE_2 :: code_points where "KEYGEN_COMPARE_2 = str ''EVERY device:''"
definition ADDRESS_VERIFY_LEGEND :: code_points where "ADDRESS_VERIFY_LEGEND = str ''compare only''"

lemmas page_defs = ADDRESS_ROWS_def CHUNK_def MAX_RECIPIENTS_def WORDS_PER_PAGE_def SHOWN_WORDS_def
  SHOWN_WORD_LEN_def SENSITIVE_LABEL_CELLS_def SENSITIVE_TEXT_CELLS_def FOOTER_ROW_def MESSAGE_ROWS_def

datatype unrenderable = TooLong | NotAscii | TooManyRecipients | BadWordList

text \<open>The digit that confirms, drawn anew for each screen; it is one of five that no paging key is.\<close>

definition draw_confirm :: "('r \<Rightarrow> u32 \<times> 'r) \<Rightarrow> 'r \<Rightarrow> nat \<times> 'r" where
  "draw_confirm N r = (case N r of (v, r') \<Rightarrow> (CONFIRM_CHARSET ! (unat v mod length CONFIRM_CHARSET), r'))"

definition confirm_accepts :: "nat \<Rightarrow> nat \<Rightarrow> bool" where
  "confirm_accepts confirm key \<longleftrightarrow> key = confirm"

definition press_legend :: "nat \<Rightarrow> text_buf" where
  "press_legend confirm =
     push_str 16 (str '')'') (push_str 16 [confirm] (push_str 16 (str ''Press ('') buf_new))"

definition page_of :: "nat \<Rightarrow> nat \<Rightarrow> text_buf" where
  "page_of index len =
     push_u64 16 len (push_str 16 (str ''/'') (push_u64 16 (index + 1) (push_str 16 (str ''pg '') buf_new)))"

definition counter_text :: "nat \<Rightarrow> nat \<Rightarrow> text_buf" where
  "counter_text index of_n =
     push_u64 16 of_n (push_str 16 (str '' of '') (push_u64 16 (index + 1) (push_str 16 (str ''#'') buf_new)))"

definition refusal_page :: "frame \<Rightarrow> frame" where
  "refusal_page f =
     put_text 0 7 (str ''x to dismiss'')
      (put_text 0 4 (str ''to sign it.'')
       (put_text 0 3 (str ''full. Refusing'')
        (put_text 0 2 (str ''this request in'')
         (put_text 0 0 (str ''CANNOT DISPLAY'') (frame_clear f)))))"

subsection \<open>Addresses\<close>

definition is_ascii_graphic :: "nat \<Rightarrow> bool" where
  "is_ascii_graphic b \<longleftrightarrow> 33 \<le> b \<and> b \<le> 126"

definition check_address :: "code_points \<Rightarrow> unrenderable + unit" where
  "check_address address =
     (if \<not> list_all is_ascii_graphic address \<or> address = [] then Inl NotAscii
      else if ADDRESS_ROWS * COLS < length address then Inl TooLong
      else Inr ())"

definition pick_highlights :: "nat \<Rightarrow> nat \<Rightarrow> (nat \<times> nat) option" where
  "pick_highlights seed chunks =
     (if chunks \<le> 2 then None
      else
       (let interior = chunks - 2;
            a = 1 + seed mod interior in
        if interior = 1 then None
        else
         (let b = 1 + (seed * 0x9E3779B9 mod u32_lim) mod interior;
              b = (if b = a then 1 + a mod interior else b) in
          Some (a, b))))"

definition invert_chunk :: "nat \<Rightarrow> nat \<Rightarrow> frame \<Rightarrow> frame" where
  "invert_chunk row c f = (let start = c * CHUNK in invert_cells (start mod COLS) (row + start div COLS) CHUNK f)"

definition address_block :: "nat \<Rightarrow> code_points \<Rightarrow> nat \<Rightarrow> frame \<Rightarrow> (unrenderable + unit) \<times> frame" where
  "address_block row address seed f =
     (case check_address address of
        Inl e \<Rightarrow> (Inl e, f)
      | Inr _ \<Rightarrow>
         (case wrap row ADDRESS_ROWS address f of
            (drawn, f) \<Rightarrow>
              if drawn \<noteq> length address then (Inl TooLong, f)
              else case pick_highlights seed (length address div CHUNK) of
                None \<Rightarrow> (Inr (), f)
              | Some (a, b) \<Rightarrow> (Inr (), invert_chunk row b (invert_chunk row a f))))"

definition address_verify :: "code_points \<Rightarrow> code_points \<Rightarrow> nat \<Rightarrow> frame \<Rightarrow> (unrenderable + unit) \<times> frame" where
  "address_verify address path seed f =
     (case check_address address of
        Inl e \<Rightarrow> (Inl e, f)
      | Inr _ \<Rightarrow>
         (case address_block 2 address seed (put_text 0 0 path (frame_clear f)) of
            (Inl e, f) \<Rightarrow> (Inl e, f)
          | (Inr _, f) \<Rightarrow> (Inr (), put_text 0 FOOTER_ROW ADDRESS_VERIFY_LEGEND f)))"

subsection \<open>Signing requests\<close>

record recipient =
  rc_address :: code_points
  rc_sats :: nat

datatype sign_page_kind = SelfSend | Amount nat nat nat | Address nat nat code_points | HighFeeWarning nat nat
  | Fee nat | Confirm

record sign_pages =
  pg_recipients :: "recipient list"
  pg_fee :: nat
  pg_confirm :: "nat option"

fun check_recipients :: "recipient list \<Rightarrow> unrenderable + unit" where
  "check_recipients [] = Inr ()"
| "check_recipients (r # rs) =
     (case check_address (rc_address r) of Inl e \<Rightarrow> Inl e | Inr _ \<Rightarrow> check_recipients rs)"

definition sign_pages_new :: "recipient list \<Rightarrow> nat \<Rightarrow> unrenderable + sign_pages" where
  "sign_pages_new recipients fee_sats =
     (if MAX_RECIPIENTS < length recipients then Inl TooManyRecipients
      else case check_recipients recipients of
        Inl e \<Rightarrow> Inl e
      | Inr _ \<Rightarrow> Inr \<lparr>pg_recipients = recipients, pg_fee = fee_sats, pg_confirm = None\<rparr>)"

definition confirming :: "nat \<Rightarrow> sign_pages \<Rightarrow> sign_pages" where
  "confirming confirm p = p\<lparr>pg_confirm := Some confirm\<rparr>"

definition sent_sats :: "sign_pages \<Rightarrow> nat" where
  "sent_sats p = sum_list (map rc_sats (pg_recipients p))"

definition high_fee :: "sign_pages \<Rightarrow> bool" where
  "high_fee p \<longleftrightarrow> HIGH_FEE_SATS < pg_fee p \<or>
     (0 < sent_sats p \<and> sent_sats p * HIGH_FEE_PERCENT < pg_fee p * 100)"

definition recipient_pages :: "sign_pages \<Rightarrow> nat" where
  "recipient_pages p = (if pg_recipients p = [] then 1 else length (pg_recipients p) * 2)"

definition sign_len :: "sign_pages \<Rightarrow> nat" where
  "sign_len p = recipient_pages p + (if high_fee p then 1 else 0) + 2"

definition is_last :: "sign_pages \<Rightarrow> nat \<Rightarrow> bool" where
  "is_last p index \<longleftrightarrow> index = sign_len p - 1"

definition sign_page :: "sign_pages \<Rightarrow> nat \<Rightarrow> sign_page_kind option" where
  "sign_page p index =
     (let n = length (pg_recipients p); rp = recipient_pages p in
      if index < rp then
        if n = 0 then Some SelfSend
        else let recipient = index div 2 in
          if n \<le> recipient then None
          else let r = pg_recipients p ! recipient in
            Some (if index mod 2 = 0 then Amount recipient n (rc_sats r) else Address recipient n (rc_address r))
      else let i = index - rp in
        if high_fee p \<and> i = 0 then Some (HighFeeWarning (pg_fee p) (min (sent_sats p) (2 ^ 64 - 1)))
        else let i = (if high_fee p then i - 1 else i) in
          if i = 0 then Some (Fee (pg_fee p)) else if i = 1 then Some Confirm else None)"

definition footer :: "sign_pages \<Rightarrow> nat \<Rightarrow> frame \<Rightarrow> frame" where
  "footer p index f =
     (if \<not> is_last p index then put_text 0 FOOTER_ROW (tb_text (push_str 16 NEXT_LEGEND (page_of index (sign_len p)))) f
      else case pg_confirm p of
        Some confirm \<Rightarrow> put_text 0 FOOTER_ROW (tb_text (push_str 16 (str '' x=no'') (press_legend confirm))) f
      | None \<Rightarrow> f)"

definition amount_text :: "nat \<Rightarrow> code_points" where
  "amount_text sats = tb_text (push_u64 20 sats buf_new)"

definition fee_page :: "nat \<Rightarrow> frame \<Rightarrow> frame" where
  "fee_page sats f =
     put_text 0 6 FEE_UNVERIFIED_2
      (put_text 0 5 FEE_UNVERIFIED_1
       (put_text 0 3 (str ''sats'')
        (snd (wrap 1 2 (amount_text sats) (put_text 0 0 (str ''Network fee:'') f)))))"

text \<open>The body of a page, on a frame already cleared.\<close>

definition draw_page :: "sign_pages \<Rightarrow> nat \<Rightarrow> sign_page_kind \<Rightarrow> frame \<Rightarrow> bool \<times> frame" where
  "draw_page p index page f =
     (case page of
        SelfSend \<Rightarrow>
          (True, put_text 0 4 (str ''wallet.'') (put_text 0 3 (str ''back to this'')
            (put_text 0 2 (str ''all outputs go'') (put_text 0 0 (str ''No recipients:'') f))))
      | Amount index of_n sats \<Rightarrow>
          (True, put_text 0 6 (str ''sats'') (snd (wrap 3 2 (amount_text sats)
            (put_text 0 1 (tb_text (counter_text index of_n)) (put_text 0 0 (str ''Send amount'') f)))))
      | Address index of_n address \<Rightarrow>
          (case address_block 2 address (index mod u32_lim)
              (put_text 0 1 (tb_text (counter_text index of_n)) (put_text 0 0 (str ''To address'') f)) of
             (Inl _, f) \<Rightarrow> (False, refusal_page f)
           | (Inr _, f) \<Rightarrow> (True, f))
      | HighFeeWarning fee_sats sent \<Rightarrow>
          (True, put_text 0 6 (amount_text sent) (put_text 0 5 (str ''sent sats:'')
            (put_text 0 3 (amount_text fee_sats) (put_text 0 2 (str ''fee sats:'')
              (put_text 0 0 (str ''!! HIGH FEE !!'') f)))))
      | Fee sats \<Rightarrow> (True, fee_page sats f)
      | Confirm \<Rightarrow>
          (True, put_text 0 6 (str ''x to cancel'') (put_text 0 3 (tb_text (page_of index (sign_len p)))
            (put_text 0 1 (str ''sign?'') (put_text 0 0 (str ''Approve and'') f)))))"

definition sign_render :: "sign_pages \<Rightarrow> nat \<Rightarrow> frame \<Rightarrow> bool \<times> frame" where
  "sign_render p index f =
     (case sign_page p index of
        None \<Rightarrow> (False, f)
      | Some page \<Rightarrow>
         (case draw_page p index page (frame_clear f) of
            (False, f) \<Rightarrow> (False, f)
          | (True, f) \<Rightarrow> (True, footer p index f)))"

subsection \<open>A test message\<close>

definition test_message :: "code_points \<Rightarrow> nat option \<Rightarrow> frame \<Rightarrow> (unrenderable + unit) \<times> frame" where
  "test_message message confirm f =
     (if \<not> list_all (\<lambda>b. is_ascii_graphic b \<or> b = 32) message then (Inl NotAscii, f)
      else if MESSAGE_ROWS * COLS < length message then (Inl TooLong, f)
      else case wrap 2 MESSAGE_ROWS message (put_text 0 0 (str ''Sign message?'') (frame_clear f)) of
        (drawn, f) \<Rightarrow>
          if drawn \<noteq> length message then (Inl TooLong, f)
          else case confirm of
            Some confirm \<Rightarrow> (Inr (), put_text 0 7 (tb_text (push_str 16 (str '' x=no'') (press_legend confirm))) f)
          | None \<Rightarrow> (Inr (), put_text 0 7 (str ''x=no'') f))"

definition sign_test_message :: "code_points \<Rightarrow> frame \<Rightarrow> (unrenderable + unit) \<times> frame" where
  "sign_test_message message f = test_message message None f"

definition sign_test_message_confirm :: "code_points \<Rightarrow> nat \<Rightarrow> frame \<Rightarrow> (unrenderable + unit) \<times> frame" where
  "sign_test_message_confirm message confirm f = test_message message (Some confirm) f"

subsection \<open>Key generation\<close>

definition keygen_code :: "bytes \<Rightarrow> text_buf" where
  "keygen_code code =
     push_hex 9 (code ! 3) (push_hex 9 (code ! 2) (push_str 9 (str '' '')
      (push_hex 9 (code ! 1) (push_hex 9 (code ! 0) buf_new))))"

definition keygen_check :: "nat \<Rightarrow> nat \<Rightarrow> bytes \<Rightarrow> code_points \<Rightarrow> nat \<Rightarrow> frame \<Rightarrow> frame" where
  "keygen_check threshold parties code key_name confirm f =
     (let s = tb_text (keygen_code code);
          hi = (if 9 \<le> length s then take 4 s else s);
          lo = (if 9 \<le> length s then window s 5 4 else []);
          b = tb_text (push_str 16 (str '' '') (push_u64 16 parties (push_str 16 (str ''-of-'') (push_u64 16 threshold buf_new))))
      in put_text 0 FOOTER_ROW (tb_text (push_str 16 (str '' x=no'') (press_legend confirm)))
          (put_text (min (length b) COLS) 6 key_name
           (put_text 0 6 b
            (snd (text_2x ((COLS - 8) div 2) 4 lo
             (snd (text_2x ((COLS - 8) div 2) 2 hi
              (put_text 0 1 KEYGEN_COMPARE_2 (put_text 0 0 KEYGEN_COMPARE_1 (frame_clear f))))))))))"

subsection \<open>The backup\<close>

datatype backup_page_kind = ShareIndex nat | BackupWords nat "code_points list"

record backup_pages =
  bk_share_index :: nat
  bk_words :: "code_points list"

definition check_letters :: "code_points \<Rightarrow> nat \<Rightarrow> unrenderable + unit" where
  "check_letters s mx =
     (if mx < length s then Inl BadWordList
      else if \<not> (list_all (\<lambda>b. 65 \<le> b \<and> b \<le> 90) s \<or> list_all (\<lambda>b. 97 \<le> b \<and> b \<le> 122) s) then Inl BadWordList
      else Inr ())"

definition check_word :: "code_points \<Rightarrow> unrenderable + unit" where
  "check_word w = (if w = [] then Inl BadWordList else check_letters w SHOWN_WORD_LEN)"

fun check_all_words :: "code_points list \<Rightarrow> unrenderable + unit" where
  "check_all_words [] = Inr ()"
| "check_all_words (w # ws) = (case check_word w of Inl e \<Rightarrow> Inl e | Inr _ \<Rightarrow> check_all_words ws)"

definition backup_pages_new :: "nat \<Rightarrow> code_points list \<Rightarrow> unrenderable + backup_pages" where
  "backup_pages_new share_index ws =
     (if length ws \<noteq> SHOWN_WORDS then Inl BadWordList
      else case check_all_words ws of
        Inl e \<Rightarrow> Inl e
      | Inr _ \<Rightarrow> Inr \<lparr>bk_share_index = share_index, bk_words = ws\<rparr>)"

definition backup_len :: "backup_pages \<Rightarrow> nat" where
  "backup_len p = 1 + (length (bk_words p) + (WORDS_PER_PAGE - 1)) div WORDS_PER_PAGE"

definition backup_page :: "backup_pages \<Rightarrow> nat \<Rightarrow> backup_page_kind option" where
  "backup_page p index =
     (if index = 0 then Some (ShareIndex (bk_share_index p))
      else let start = (index - 1) * WORDS_PER_PAGE;
               last = min (start + WORDS_PER_PAGE) (length (bk_words p)) in
        if last < start then None
        else let ws = window (bk_words p) start (last - start) in
          if ws = [] then None else Some (BackupWords (start + 1) ws))"

definition sensitive_row :: "('r \<Rightarrow> u32 \<times> 'r) \<Rightarrow> nat \<Rightarrow> code_points \<Rightarrow> frame \<Rightarrow> 'r \<Rightarrow> frame \<times> 'r" where
  "sensitive_row N row s f r = mark_sensitive N row (put_text 0 row s f) r"

definition word_label :: "nat \<Rightarrow> code_points \<Rightarrow> code_points" where
  "word_label number w =
     tb_text (push_str SENSITIVE_TEXT_CELLS w (push_str SENSITIVE_TEXT_CELLS (str '': '')
       (push_u8_pad2 SENSITIVE_TEXT_CELLS number buf_new)))"

fun word_rows :: "('r \<Rightarrow> u32 \<times> 'r) \<Rightarrow> nat \<Rightarrow> nat \<Rightarrow> code_points list \<Rightarrow> frame \<Rightarrow> 'r \<Rightarrow> frame \<times> 'r" where
  "word_rows N first i [] f r = (f, r)"
| "word_rows N first i (w # ws) f r =
     (case sensitive_row N (2 + i) (word_label (first + i) w) f r of
        (f', r') \<Rightarrow> word_rows N first (i + 1) ws f' r')"

definition backup_render :: "('r \<Rightarrow> u32 \<times> 'r) \<Rightarrow> backup_pages \<Rightarrow> nat \<Rightarrow> frame \<Rightarrow> 'r \<Rightarrow> bool \<times> frame \<times> 'r" where
  "backup_render N p index f r =
     (case backup_page p index of
        None \<Rightarrow> (False, f, r)
      | Some (ShareIndex i) \<Rightarrow>
          (True, put_text 0 7 BACKUP_NEXT_LEGEND
            (put_text 0 4 (tb_text (push_u64 16 i (push_str 16 (str ''#'') buf_new)))
             (put_text 0 2 (str ''Share index:'') (put_text 0 0 (str ''Write this down'') (frame_clear f)))), r)
      | Some (BackupWords first ws) \<Rightarrow>
          (let head = tb_text (push_u64 16 (first + length ws - 1) (push_str 16 (str ''-'')
                 (push_u64 16 first (push_str 16 (str ''words '') buf_new)))) in
           case word_rows N first 0 ws (put_text 0 0 head (frame_clear f)) r of
             (f, r) \<Rightarrow> (True, put_text 0 7 BACKUP_BACK_LEGEND f, r)))"

definition backup_recorded_page :: "nat \<Rightarrow> frame \<Rightarrow> frame" where
  "backup_recorded_page confirm f =
     put_text 0 FOOTER_ROW (tb_text (push_str 16 (str '' x=no'') (press_legend confirm)))
      (put_text 0 5 (str ''shown again.'')
       (put_text 0 4 (str ''No word is'')
        (put_text 0 2 (str ''share index?'')
         (put_text 0 1 (str ''25 words + the'')
          (put_text 0 0 (str ''Wrote down all'') (frame_clear f))))))"

end
