(* ===== verification/ScreenCorrect.thy ===== *)
theory ScreenCorrect
  imports Screen
begin

text \<open>
  What can be read off the glass: the glyphs of the font and their inverses are all different, so a
  cell decodes to the character drawn in it; text, wrapped text, inversion and noise change the
  cells they name and no others.
\<close>

subsection \<open>The font can be read back\<close>

fun eights :: "bytes \<Rightarrow> bytes list" where
  "eights (a # b # c # d # e # g # h # i # xs) = [a, b, c, d, e, g, h, i] # eights xs"
| "eights _ = []"

lemma nth_eights: "i < length (eights xs) \<Longrightarrow> eights xs ! i = window xs (i * 8) 8"
proof (induction xs arbitrary: i rule: eights.induct)
  case (1 a b c d e g h i xs j)
  have d: "drop 8 (a # b # c # d # e # g # h # i # xs) = xs" by (simp add: eval_nat_numeral)
  show ?case
  proof (cases j)
    case 0
    then show ?thesis by (simp add: window_def eval_nat_numeral)
  next
    case (Suc k)
    have "drop (j * 8) (a # b # c # d # e # g # h # i # xs) = drop (k * 8) (drop 8 (a # b # c # d # e # g # h # i # xs))"
      unfolding drop_drop Suc by (simp add: add.commute)
    then show ?thesis using 1 Suc unfolding d window_def by simp
  qed
qed simp_all

lemma font_numbers: "map of_le (eights FONT) =
    [0, 340627816448, 1978021418829568, 1477038927020785428, 5130782614889472, 27978224826016512,
     5796826844275618304, 284799348506624, 71894499590144, 31054278754304, 588350991779113480,
     2260863235393536, 416083345408, 2260630401189888, 413927473152, 145817335966482432,
     17591384118607360, 18085314849685504, 19790424687469056, 15339601482949120,
     1188808559452231680, 16181810143110912, 14209303531437568, 852660412678912, 15339601484789248,
     17591401297421824, 155222802432, 433330323456, 18367767851567104, 5651576002974720,
     2282819732717824, 1705726145921536, 13035042158624256, 35041483014700032, 15339601484807936,
     9679281131044352, 7949895369457408, 18367656507703040, 282613302394624, 16461103210905088,
     35886994521292544, 72015851618304, 351290766925824, 18404957543694080, 18085043213664000,
     9187068413577494272, 35887080521301760, 17591366804520448, 1705381348736768, 26598702957141504,
     19825539401350912, 14209303530382848, 283122079957248, 17872837469486848, 8795407442190080,
     9187114645310111488, 27996985314730752, 1987334921717504, 18937220978270464, 71749567709184,
     4638760496030679552, 140184532353024, 2265019824474112, 13889313184910721216, 4423866712064,
     33913698841272320, 15899231344623360, 11378039530993664, 35887253225748480, 24871315214972928,
     566289281976320, 35180681180780544, 33913353902456576, 538968064000, 35463100446556160,
     19259287003954944, 70916339990528, 8970071152663493632, 33913353902259200, 15899231344408576,
     6821525378104320, 71208926288025600, 2265011208354816, 9135104796149760, 9117444610130948,
     17025114004274176, 7947683976977408, 2052568410624891904, 19259287136912384, 35180663933803520,
     19224258389754880, 18367853883820032, 1099494850560, 2260864195444992, 72904230893191680,
     6172840429334713770]"
  unfolding FONT_def by simp

lemma font_length: "length (eights FONT) = 96" "length FONT = 768"
  unfolding FONT_def by simp_all

definition glyph_at :: "nat \<Rightarrow> bytes" where
  "glyph_at g = window FONT (g * CELL) CELL"

lemma glyph_at_eights: "g < 96 \<Longrightarrow> glyph_at g = eights FONT ! g"
  using nth_eights[of g FONT] font_length by (simp add: glyph_at_def CELL_def)

lemma length_glyph_at [simp]: "g < 96 \<Longrightarrow> length (glyph_at g) = 8"
  using font_length by (simp add: glyph_at_def CELL_def length_window)

lemma of_le_not: "of_le (map NOT bs) = 256 ^ length bs - 1 - of_le bs"
proof (induction bs)
  case (Cons b bs)
  have small: "unat b < 2 ^ LENGTH(8)" by (rule unsigned_less)
  have "NOT b = 255 - b" by (simp add: not_eq_complement)
  moreover have "b \<le> 255" using small by (simp add: word_le_nat_alt)
  ultimately have u: "unat (NOT b) = 255 - unat b" by (simp add: unat_sub)
  have "unat b < 256" using small by simp
  then have b: "unat b \<le> 255" by linarith
  have "of_le bs < 256 ^ length bs" by (rule of_le_bound)
  then show ?case using Cons b by (simp add: u diff_mult_distrib2)
qed simp

text \<open>As numbers, the glyphs and their inverses are 192 different ones.\<close>

lemma font_distinct:
  "distinct (map of_le (eights FONT) @ map (\<lambda>n. 256 ^ 8 - 1 - n) (map of_le (eights FONT)))"
  unfolding font_numbers by simp

lemma glyph_numbers:
  assumes "g < 96" "k < 96"
  shows "glyph_at g = glyph_at k \<longleftrightarrow> g = k" "glyph_at g \<noteq> map NOT (glyph_at k)" 
proof -
  let ?n = "map of_le (eights FONT)"
  have l: "length ?n = 96" using font_length by simp
  have at: "of_le (glyph_at j) = ?n ! j" if "j < 96" for j using that glyph_at_eights font_length by simp
  have "?n ! g = ?n ! k \<longleftrightarrow> g = k"
    using font_distinct assms l by (simp only: distinct_append nth_eq_iff_index_eq)
  then show "glyph_at g = glyph_at k \<longleftrightarrow> g = k" using at[OF assms(1)] at[OF assms(2)] by metis
  have "set ?n \<inter> set (map (\<lambda>n. 256 ^ 8 - 1 - n) ?n) = {}" using font_distinct by (simp only: distinct_append)
  moreover have "?n ! g \<in> set ?n" using assms l by (metis nth_mem)
  moreover have "256 ^ 8 - 1 - ?n ! k \<in> set (map (\<lambda>n. 256 ^ 8 - 1 - n) ?n)"
    unfolding set_map[of "\<lambda>n. 256 ^ 8 - 1 - n"] using assms l by (metis imageI nth_mem)
  ultimately have "?n ! g \<noteq> 256 ^ 8 - 1 - ?n ! k" by (metis disjoint_iff)
  moreover have "of_le (map NOT (glyph_at k)) = 256 ^ 8 - 1 - ?n ! k"
    using of_le_not[of "glyph_at k"] assms(2) at[OF assms(2)] by simp
  ultimately show "glyph_at g \<noteq> map NOT (glyph_at k)" using at[OF assms(1)] by metis
qed

lemma map_not_inj: "map NOT xs = map NOT ys \<longleftrightarrow> xs = (ys :: bytes)"
proof -
  have "inj (NOT :: u8 \<Rightarrow> u8)" by (rule injI) (metis bit.double_compl)
  then show ?thesis by (metis inj_map_eq_map)
qed

lemma scan_glyph:
  assumes "g < 96" "g \<in> set is" "\<forall>i \<in> set is. i < 96"
  shows "cell_scan (glyph_at g) is = Some (FONT_FIRST + g, False)"
    "cell_scan (map NOT (glyph_at g)) is = Some (FONT_FIRST + g, True)"
proof -
  have "cell_scan (glyph_at g) is = Some (FONT_FIRST + g, False) \<and>
      cell_scan (map NOT (glyph_at g)) is = Some (FONT_FIRST + g, True)"
    using assms(2,3)
  proof (induction "is")
    case (Cons i "is")
    have i: "i < 96" using Cons.prems by simp
    have m: "map NOT (glyph_at g) \<noteq> glyph_at i" using glyph_numbers(2)[OF i assms(1)] by metis
    show ?case
    proof (cases "i = g")
      case True
      then show ?thesis using m by (simp add: glyph_at_def[symmetric] Let_def)
    next
      case False
      then have "glyph_at g \<noteq> glyph_at i" using glyph_numbers(1)[OF assms(1) i] by simp
      then show ?thesis using False Cons m glyph_numbers(2)[OF assms(1) i]
        by (simp add: glyph_at_def[symmetric] Let_def map_not_inj)
    qed
  qed simp
  then show "cell_scan (glyph_at g) is = Some (FONT_FIRST + g, False)"
    "cell_scan (map NOT (glyph_at g)) is = Some (FONT_FIRST + g, True)" by blast+
qed

subsection \<open>Cells\<close>

definition cell_bytes :: "nat \<Rightarrow> nat \<Rightarrow> frame \<Rightarrow> bytes" where
  "cell_bytes x y f = window f (y * WIDTH + x * CELL) CELL"

text \<open>What a character reads back as: itself, or the box of an unmapped one.\<close>

definition shown_as :: "nat \<Rightarrow> nat" where
  "shown_as c = (if FONT_FIRST \<le> c \<and> c < FONT_LAST then c else FONT_LAST)"

definition printable :: "nat \<Rightarrow> bool" where
  "printable c \<longleftrightarrow> FONT_FIRST \<le> c \<and> c < FONT_LAST"

lemma shown_printable [simp]: "printable c \<Longrightarrow> shown_as c = c"
  by (simp add: shown_as_def printable_def)

lemma shown_as_glyph: "FONT_FIRST + glyph c = shown_as c" and glyph_less [simp]: "glyph c < 96"
  by (auto simp: glyph_def shown_as_def glass_defs)

lemma frame_cell_bytes:
  "length f = FRAME_BYTES \<Longrightarrow>
   frame_cell x y f = (if x < COLS \<and> y < ROWS then cell_scan (cell_bytes x y f) [0 ..< 96] else None)"
  by (auto simp: frame_cell_def cell_bytes_def Let_def glass_defs)

lemma frame_cell_glyph:
  assumes "length f = FRAME_BYTES" "x < COLS" "y < ROWS"
    "cell_bytes x y f = (if flip then map NOT (glyph_at (glyph c)) else glyph_at (glyph c))"
  shows "frame_cell x y f = Some (shown_as c, flip)"
  using assms scan_glyph[of "glyph c" "[0 ..< 96]"] by (simp add: frame_cell_bytes shown_as_glyph)

lemma cell_patch:
  assumes "length f = FRAME_BYTES" "x < COLS" "y < ROWS" "x' < COLS" "y' < ROWS" "length bs = CELL"
  shows "cell_bytes x y (patch f (y' * WIDTH + x' * CELL) bs) = (if x = x' \<and> y = y' then bs else cell_bytes x y f)"
proof -
  have l: "y' * 128 + x' * 8 + length bs \<le> length f" "y * 128 + x * 8 + 8 \<le> length f"
    using assms by (simp_all add: glass_defs)
  show ?thesis
  proof (cases "x = x' \<and> y = y'")
    case True
    then show ?thesis using window_patch_same[OF l(1)] assms(6) by (simp add: cell_bytes_def glass_defs)
  next
    case False
    have "y * 128 + x * 8 + 8 \<le> y' * 128 + x' * 8 \<or> y' * 128 + x' * 8 + 8 \<le> y * 128 + x * 8"
    proof (cases "y = y'")
      case True
      then show ?thesis using False by auto
    next
      case ne: False
      then have "y + 1 \<le> y' \<or> y' + 1 \<le> y" by auto
      then show ?thesis using assms(2,4) by (auto simp: glass_defs)
    qed
    then show ?thesis using window_patch_other[OF l] assms(6) unfolding if_not_P[OF False]
      by (simp add: cell_bytes_def glass_defs)
  qed
qed

text \<open>Only the cells in \<open>A\<close> differ.\<close>

definition changes_only :: "(nat \<times> nat) set \<Rightarrow> frame \<Rightarrow> frame \<Rightarrow> bool" where
  "changes_only A f f' \<longleftrightarrow> length f = FRAME_BYTES \<and> length f' = FRAME_BYTES \<and>
     (\<forall>x < COLS. \<forall>y < ROWS. (x, y) \<notin> A \<longrightarrow> cell_bytes x y f' = cell_bytes x y f)"

lemma changes_refl: "length f = FRAME_BYTES \<Longrightarrow> changes_only A f f"
  by (simp add: changes_only_def)

lemma changes_mono: "changes_only A f g \<Longrightarrow> A \<subseteq> C \<Longrightarrow> changes_only C f g"
  unfolding changes_only_def by blast

lemma changes_trans: "changes_only A f g \<Longrightarrow> changes_only B g h \<Longrightarrow> A \<subseteq> C \<Longrightarrow> B \<subseteq> C \<Longrightarrow> changes_only C f h"
  by (drule changes_mono, assumption)+ (simp add: changes_only_def)

lemma changes_cell: "changes_only A f f' \<Longrightarrow> (x, y) \<notin> A \<Longrightarrow> frame_cell x y f' = frame_cell x y f"
  by (auto simp: changes_only_def frame_cell_bytes)

lemma changes_length: "changes_only A f f' \<Longrightarrow> length f' = FRAME_BYTES"
  by (simp add: changes_only_def)

lemma patch_changes:
  assumes "length f = FRAME_BYTES" "x < COLS" "y < ROWS" "length bs = CELL"
  shows "changes_only {(x, y)} f (patch f (y * WIDTH + x * CELL) bs)"
  using assms cell_patch[OF assms(1) _ _ assms(2,3,4)] by (auto simp: changes_only_def glass_defs)

subsection \<open>Text\<close>

lemma text_from_shows:
  "length f = FRAME_BYTES \<Longrightarrow> row < ROWS \<Longrightarrow> col + drawn \<le> COLS \<Longrightarrow> text_from invert col row drawn s f = (n, f') \<Longrightarrow>
   n = drawn + min (length s) (COLS - col - drawn) \<and>
   changes_only {(x, row) |x. col + drawn \<le> x \<and> x < col + n} f f' \<and>
   (\<forall>i. drawn + i < n \<longrightarrow> frame_cell (col + drawn + i) row f' = Some (shown_as (s ! i), invert))"
proof (induction s arbitrary: drawn f)
  case Nil
  then show ?case by (simp add: changes_refl)
next
  case (Cons c s)
  show ?case
  proof (cases "COLS \<le> col + drawn")
    case True
    then show ?thesis using Cons.prems by (auto simp: changes_refl)
  next
    case False
    let ?bs = "if invert then map NOT (glyph_at (glyph c)) else glyph_at (glyph c)"
    let ?f = "patch f (row * WIDTH + (col + drawn) * CELL) ?bs"
    have x: "col + drawn < COLS" using False by simp
    have lb: "length ?bs = CELL" by (simp add: CELL_def)
    have fits: "\<not> length f < row * WIDTH + (col + drawn) * CELL + CELL"
      using Cons.prems(1,2) x by (simp add: glass_defs)
    have fit: "\<not> length FONT < glyph c * CELL + CELL" using glyph_less[of c] font_length(2) unfolding CELL_def by linarith
    have ch: "changes_only {(col + drawn, row)} f ?f" by (rule patch_changes[OF Cons.prems(1) x Cons.prems(2) lb])
    have rest: "text_from invert col row (drawn + 1) s ?f = (n, f')"
      using Cons.prems(4) x fits fit by (simp add: Let_def glyph_at_def split: if_splits)
    have IH: "n = drawn + 1 + min (length s) (COLS - col - (drawn + 1))"
      "changes_only {(x, row) |x. col + (drawn + 1) \<le> x \<and> x < col + n} ?f f'"
      "\<And>i. drawn + 1 + i < n \<Longrightarrow> frame_cell (col + (drawn + 1) + i) row f' = Some (shown_as (s ! i), invert)"
      using Cons.IH[OF changes_length[OF ch] Cons.prems(2) _ rest] x by auto
    have "frame_cell (col + drawn) row ?f = Some (shown_as c, invert)"
      using cell_patch[OF Cons.prems(1) x Cons.prems(2) x Cons.prems(2) lb]
      by (intro frame_cell_glyph[OF changes_length[OF ch] x Cons.prems(2)]) simp
    then have first: "frame_cell (col + drawn) row f' = Some (shown_as c, invert)"
      using changes_cell[OF IH(2), of "col + drawn" row] by simp
    have "frame_cell (col + drawn + i) row f' = Some (shown_as ((c # s) ! i), invert)" if "drawn + i < n" for i
      using that first IH(3)[of "i - 1"] by (cases i) auto
    moreover have "changes_only {(x, row) |x. col + drawn \<le> x \<and> x < col + n} f f'"
      by (rule changes_trans[OF ch IH(2)]) (use IH(1) in auto)
    ultimately show ?thesis using IH(1) x by auto
  qed
qed

lemma frame_text_shows:
  assumes "length f = FRAME_BYTES" "row < ROWS" "col \<le> COLS" "frame_text col row s f = (n, f')"
  shows "n = min (length s) (COLS - col)" "changes_only {(x, row) |x. col \<le> x \<and> x < col + n} f f'"
    "i < n \<Longrightarrow> frame_cell (col + i) row f' = Some (shown_as (s ! i), False)"
proof -
  have "text_from False col row 0 s f = (n, f')"
    using assms(2,4) by (simp add: frame_text_def text_styled_def)
  note t = text_from_shows[OF assms(1,2) _ this, simplified, OF assms(3)]
  show "n = min (length s) (COLS - col)" using t by blast
  show "changes_only {(x, row) |x. col \<le> x \<and> x < col + n} f f'" using t by blast
  show "i < n \<Longrightarrow> frame_cell (col + i) row f' = Some (shown_as (s ! i), False)" using t by blast
qed

lemma put_text_shows:
  assumes "length f = FRAME_BYTES" "row < ROWS" "col + length s \<le> COLS"
  shows "changes_only {(x, row) |x. col \<le> x \<and> x < col + length s} f (put_text col row s f)"
    "i < length s \<Longrightarrow> frame_cell (col + i) row (put_text col row s f) = Some (shown_as (s ! i), False)"
proof -
  obtain n f' where t: "frame_text col row s f = (n, f')" by fastforce
  have c: "col \<le> COLS" using assms(3) by simp
  have n: "n = length s" using frame_text_shows(1)[OF assms(1,2) c t] assms(3) by simp
  show "changes_only {(x, row) |x. col \<le> x \<and> x < col + length s} f (put_text col row s f)"
    using frame_text_shows(2)[OF assms(1,2) c t] unfolding n by (simp add: put_text_def t)
  show "i < length s \<Longrightarrow> frame_cell (col + i) row (put_text col row s f) = Some (shown_as (s ! i), False)"
    using frame_text_shows(3)[OF assms(1,2) c t, of i] unfolding n by (simp add: put_text_def t)
qed

text \<open>Whatever the text, only its row changes.\<close>

lemma put_text_row:
  assumes "length f = FRAME_BYTES"
  shows "changes_only {(x, row) |x. True} f (put_text col row s f)"
proof (cases "row < ROWS \<and> col \<le> COLS")
  case True
  then have "changes_only {(x, row) |x. col \<le> x \<and> x < col + fst (frame_text col row s f)} f (put_text col row s f)"
    using frame_text_shows(2)[OF assms, of row col s "fst (frame_text col row s f)" "snd (frame_text col row s f)"]
    by (simp add: put_text_def)
  then show ?thesis by (rule changes_mono) auto
next
  case False
  have "text_from False col row 0 s f = (0, f)" if "COLS < col" using that by (cases s) (simp_all add: Let_def)
  then have "put_text col row s f = f" using False
    by (auto simp: put_text_def frame_text_def text_styled_def)
  then show ?thesis using assms by (simp add: changes_refl)
qed

subsection \<open>Wrapped text\<close>

lemma wrap_row_shows:
  "length f = FRAME_BYTES \<Longrightarrow> y < ROWS \<Longrightarrow> k \<le> COLS \<Longrightarrow> wrap_row y k drawn s f = (fin, n, rest, f') \<Longrightarrow>
   fin = (length s < k) \<and> n = drawn + min (length s) k \<and> rest = drop k s \<and>
   changes_only {(x, y) |x. COLS - k \<le> x \<and> x < COLS - k + min (length s) k} f f' \<and>
   (\<forall>i < min (length s) k. frame_cell (COLS - k + i) y f' = Some (shown_as (s ! i), False))"
proof (induction y k drawn s f rule: wrap_row.induct)
  case (3 y k drawn c cs f)
  obtain m g where t: "frame_text (COLS - Suc k) y [c] f = (m, g)" by fastforce
  have col: "COLS - Suc k < COLS" "COLS - Suc k \<le> COLS" using 3(4) by auto
  have m: "m = 1" using frame_text_shows(1)[OF 3(2,3) col(2) t] col by simp
  have ch: "changes_only {(x, y) |x. COLS - Suc k \<le> x \<and> x < COLS - Suc k + 1} f g"
    using frame_text_shows(2)[OF 3(2,3) col(2) t] unfolding m .
  have c: "frame_cell (COLS - Suc k) y g = Some (shown_as c, False)"
    using frame_text_shows(3)[OF 3(2,3) col(2) t, of 0] m by simp
  have tail: "wrap_row y k (drawn + 1) cs g = (fin, n, rest, f')" using 3(5) t m by simp
  have k: "k \<le> COLS" using 3(4) by simp
  have IH: "fin = (length cs < k) \<and> n = drawn + 1 + min (length cs) k \<and> rest = drop k cs \<and>
     changes_only {(x, y) |x. COLS - k \<le> x \<and> x < COLS - k + min (length cs) k} g f' \<and>
     (\<forall>i < min (length cs) k. frame_cell (COLS - k + i) y f' = Some (shown_as (cs ! i), False))"
    using 3(1)[OF t[symmetric] _ changes_length[OF ch] 3(3) k tail] m by simp
  have past: "COLS - k = COLS - Suc k + 1" using 3(4) by simp
  have "frame_cell (COLS - Suc k) y f' = frame_cell (COLS - Suc k) y g"
    using IH by (intro changes_cell) (auto simp: past)
  then have first: "frame_cell (COLS - Suc k) y f' = Some (shown_as c, False)" using c by simp
  have cells: "frame_cell (COLS - Suc k + i) y f' = Some (shown_as ((c # cs) ! i), False)"
    if "i < min (length (c # cs)) (Suc k)" for i
  proof (cases i)
    case (Suc j)
    then have at: "COLS - Suc k + i = COLS - k + j" using 3(4) by simp
    show ?thesis unfolding at using IH that Suc by simp
  qed (use first in simp)
  have "changes_only {(x, y) |x. COLS - Suc k \<le> x \<and> x < COLS - Suc k + min (length (c # cs)) (Suc k)} f f'"
    by (rule changes_trans[OF ch, of "{(x, y) |x. COLS - k \<le> x \<and> x < COLS - k + min (length cs) k}"])
      (use IH past in auto)
  then show ?case using IH cells by simp
qed (auto simp: changes_refl)

lemma wrap_rows_shows:
  "length f = FRAME_BYTES \<Longrightarrow> y + k \<le> ROWS \<Longrightarrow> wrap_rows y k drawn s f = (n, f') \<Longrightarrow>
   n = drawn + min (length s) (k * COLS) \<and>
   changes_only {(x, y'). y \<le> y' \<and> x < COLS \<and> (y' - y) * COLS + x < min (length s) (k * COLS)} f f' \<and>
   (\<forall>i < min (length s) (k * COLS). frame_cell (i mod COLS) (y + i div COLS) f' = Some (shown_as (s ! i), False))"
proof (induction k arbitrary: y drawn s f)
  case 0
  then show ?case by (simp add: changes_refl)
next
  case (Suc k)
  obtain fin m rest g where r: "wrap_row y COLS drawn s f = (fin, m, rest, g)" using prod_cases4 by blast
  have y: "y < ROWS" using Suc.prems(2) by simp
  note R = wrap_row_shows[OF Suc.prems(1) y le_refl r]
  have P: "0 < COLS" by (simp add: glass_defs)
  have first: "frame_cell (i mod COLS) (y + i div COLS) g = Some (shown_as (s ! i), False)"
    if "i < min (length s) COLS" for i
    using R that by simp
  show ?case
  proof (cases fin)
    case True
    then have "n = m" "f' = g" using Suc.prems(3) r y by auto
    moreover have "changes_only {(x, y'). y \<le> y' \<and> x < COLS \<and> (y' - y) * COLS + x < min (length s) (Suc k * COLS)} f g"
      by (rule changes_mono[of "{(x, y) |x. COLS - COLS \<le> x \<and> x < COLS - COLS + min (length s) COLS}"]) (use R in auto)
    moreover have "min (length s) (Suc k * COLS) = length s" "min (length s) COLS = length s" using R True by auto
    ultimately show ?thesis using R True first by simp
  next
    case False
    then have tail: "wrap_rows (y + 1) k m rest g = (n, f')" using Suc.prems(3) r y by simp
    have long: "COLS \<le> length s" using R False by simp
    have g: "length g = FRAME_BYTES" using R changes_length by blast
    let ?B = "{(x, y'). y + 1 \<le> y' \<and> x < COLS \<and> (y' - (y + 1)) * COLS + x < min (length rest) (k * COLS)}"
    have IH: "n = m + min (length rest) (k * COLS)" "changes_only ?B g f'"
      "\<And>i. i < min (length rest) (k * COLS) \<Longrightarrow>
        frame_cell (i mod COLS) (y + 1 + i div COLS) f' = Some (shown_as (rest ! i), False)"
      using Suc.IH[OF g _ tail] Suc.prems(2) by auto
    have rest: "rest = drop COLS s" "m = drawn + COLS" using R long by auto
    have cells: "frame_cell (i mod COLS) (y + i div COLS) f' = Some (shown_as (s ! i), False)"
      if i: "i < min (length s) (Suc k * COLS)" for i
    proof (cases "i < COLS")
      case True
      then show ?thesis using first[of i] long changes_cell[OF IH(2), of "i mod COLS" "y + i div COLS"] by simp
    next
      case F: False
      then obtain j where j: "i = COLS + j" using le_Suc_ex by (metis not_less)
      have d: "(COLS + j) div COLS = Suc (j div COLS)" "(COLS + j) mod COLS = j mod COLS" using P by (simp_all add: div_add_self1)
      have "j < min (length rest) (k * COLS)" using i rest(1) unfolding j by auto
      then show ?thesis using IH(3)[of j] long rest(1) unfolding j d by simp
    qed
    have below: "(y' - y) * COLS = (y' - (y + 1)) * COLS + COLS" if "y + 1 \<le> y'" for y'
      using that by (metis Suc_diff_le Suc_eq_plus1 add.commute diff_Suc_Suc mult_Suc)
    have "changes_only {(x, y'). y \<le> y' \<and> x < COLS \<and> (y' - y) * COLS + x < min (length s) (Suc k * COLS)} f f'"
      by (rule changes_trans[of "{(x, y) |x. COLS - COLS \<le> x \<and> x < COLS - COLS + min (length s) COLS}" f g, OF _ IH(2)])
        (use R long rest in \<open>auto simp: below\<close>)
    moreover have "n = drawn + min (length s) (Suc k * COLS)" using IH(1) rest long by auto
    ultimately show ?thesis using cells by blast
  qed
qed

lemma wrap_shows:
  assumes "length f = FRAME_BYTES" "row + rows \<le> ROWS" "length s \<le> rows * COLS" "wrap row rows s f = (n, f')"
  shows "n = length s" "changes_only {(x, y). row \<le> y \<and> x < COLS \<and> (y - row) * COLS + x < length s} f f'"
    "i < length s \<Longrightarrow> frame_cell (i mod COLS) (row + i div COLS) f' = Some (shown_as (s ! i), False)"
  using wrap_rows_shows[OF assms(1,2), of 0 s n f'] assms(3,4) by (auto simp: wrap_def min_def split: if_splits)

subsection \<open>Inversion\<close>

lemma scan_Some:
  "cell_scan got is = Some (c, b) \<Longrightarrow> \<exists>i \<in> set is. c = FONT_FIRST + i \<and> got = (if b then map NOT (glyph_at i) else glyph_at i)"
  by (induction "is") (auto simp: glyph_at_def Let_def split: if_splits)

lemma scan_not:
  assumes "cell_scan got [0 ..< 96] = Some (c, b)"
  shows "cell_scan (map NOT got) [0 ..< 96] = Some (c, \<not> b)"
proof -
  obtain i where i: "i < 96" "c = FONT_FIRST + i" "got = (if b then map NOT (glyph_at i) else glyph_at i)"
    using scan_Some[OF assms] by auto
  have "map NOT (map NOT xs) = (xs :: bytes)" for xs by (simp add: o_def)
  then show ?thesis using scan_glyph[OF i(1), of "[0 ..< 96]"] i by auto
qed

lemma length_cell_bytes: "length f = FRAME_BYTES \<Longrightarrow> x < COLS \<Longrightarrow> y < ROWS \<Longrightarrow> length (cell_bytes x y f) = CELL"
  unfolding cell_bytes_def by (rule length_window) (simp add: glass_defs)

text \<open>A cell shows a character, the right way round or inverted.\<close>

definition shows_char :: "frame \<Rightarrow> nat \<Rightarrow> nat \<Rightarrow> nat \<Rightarrow> bool" where
  "shows_char f x y c \<longleftrightarrow> (\<exists>flip. frame_cell x y f = Some (c, flip))"

lemma invert_from_shows:
  "length f = FRAME_BYTES \<Longrightarrow> row < ROWS \<Longrightarrow>
   changes_only {(x, row) |x. True} f (invert_from col row n f) \<and>
   (\<forall>x y c. shows_char f x y c \<longrightarrow> shows_char (invert_from col row n f) x y c)"
proof (induction n arbitrary: col f)
  case 0
  then show ?case by (simp add: changes_refl)
next
  case (Suc n)
  show ?case
  proof (cases "col < COLS")
    case False
    then show ?thesis using Suc.prems by (simp add: changes_refl)
  next
    case True
    let ?g = "patch f (row * WIDTH + col * CELL) (map NOT (cell_bytes col row f))"
    have lb: "length (map NOT (cell_bytes col row f)) = CELL" using length_cell_bytes[OF Suc.prems(1) True Suc.prems(2)] by simp
    have ch: "changes_only {(col, row)} f ?g" by (rule patch_changes[OF Suc.prems(1) True Suc.prems(2) lb])
    have step: "invert_from col row (Suc n) f = invert_from (col + 1) row n ?g"
      using True Suc.prems by (simp add: Let_def cell_bytes_def glass_defs)
    have "shows_char ?g x y c" if s: "shows_char f x y c" for x y c
    proof (cases "x = col \<and> y = row")
      case here: True
      obtain b where "cell_scan (cell_bytes col row f) [0 ..< 96] = Some (c, b)"
        using s here True Suc.prems by (auto simp: shows_char_def frame_cell_bytes split: if_splits)
      then have "cell_scan (map NOT (cell_bytes col row f)) [0 ..< 96] = Some (c, \<not> b)" by (rule scan_not)
      then show ?thesis using here True Suc.prems(2) cell_patch[OF Suc.prems(1) True Suc.prems(2) True Suc.prems(2) lb]
        by (auto simp: shows_char_def frame_cell_bytes[OF changes_length[OF ch]])
    next
      case F: False
      then show ?thesis using s changes_cell[OF ch, of x y] by (auto simp: shows_char_def)
    qed
    moreover note IH = Suc.IH[OF changes_length[OF ch] Suc.prems(2), of "col + 1"]
    moreover have "changes_only {(x, row) |x. True} f (invert_from (col + 1) row n ?g)"
      by (rule changes_trans[OF ch, of "{(x, row) |x. True}"]) (use IH in auto)
    ultimately show ?thesis unfolding step by blast
  qed
qed

lemma invert_shows:
  assumes "length f = FRAME_BYTES"
  shows "changes_only {(x, row) |x. True} f (invert_cells col row n f)"
    "shows_char f x y c \<Longrightarrow> shows_char (invert_cells col row n f) x y c"
  using invert_from_shows[OF assms, of row col n] changes_refl[OF assms] by (auto simp: invert_cells_def)

subsection \<open>Noise\<close>

lemma set_pixel_changes:
  assumes "length f = FRAME_BYTES" "x < WIDTH" "y < HEIGHT"
  shows "changes_only {(x div CELL, y div CELL)} f (set_pixel x y on f)"
proof -
  have at: "cell_bytes x' y' (f[y div 8 * 128 + x := v]) = cell_bytes x' y' f"
    if "x' < 16" "y' < 8" "(x', y') \<noteq> (x div 8, y div 8)" for x' y' v
  proof -
    have "y' * 128 + x' * 8 + i \<noteq> y div 8 * 128 + x" if i: "i < 8" for i
    proof
      assume eq: "y' * 128 + x' * 8 + i = y div 8 * 128 + x"
      have "x < 128" "x' * 8 + i < 128" using assms(2) \<open>x' < 16\<close> i by (simp_all add: glass_defs)
      then have "y' = (y' * 128 + (x' * 8 + i)) div 128" "y div 8 = (y div 8 * 128 + x) div 128" by simp_all
      then have row: "y' = y div 8" using eq by (metis add.assoc)
      then have "x' * 8 + i = x" using eq by simp
      then show False using row \<open>(x', y') \<noteq> (x div 8, y div 8)\<close> i by auto
    qed
    note off = this
    have "k \<noteq> y div 8 * 128 + x" if "y' * 128 + x' * 8 \<le> k" "k < y' * 128 + x' * 8 + 8" for k
      using that off[of "k - (y' * 128 + x' * 8)"] by (metis le_add_diff_inverse less_diff_conv2 add.commute)
    then have keep: "f[y div 8 * 128 + x := v] ! k = f ! k" if "y' * 128 + x' * 8 \<le> k" "k < y' * 128 + x' * 8 + 8" for k
      using that by (metis nth_list_update_neq)
    show ?thesis unfolding cell_bytes_def
      by (rule window_eqI) (use that(1,2) assms(1) keep in \<open>simp_all add: glass_defs\<close>)
  qed
  then show ?thesis using assms by (auto simp: changes_only_def set_pixel_def Let_def glass_defs)
qed

lemma noise_line_changes:
  "length f = FRAME_BYTES \<Longrightarrow> y < HEIGHT \<Longrightarrow> \<forall>x \<in> set xs. 12 * CELL \<le> x \<and> x < WIDTH \<Longrightarrow>
   changes_only {(x, y div CELL) |x. 12 \<le> x} f (noise_line xs y f)"
proof (induction xs arbitrary: f)
  case (Cons x xs)
  have ch: "changes_only {(x div CELL, y div CELL)} f (set_pixel x y True f)"
    using Cons.prems by (intro set_pixel_changes) auto
  have "12 \<le> x div CELL" using Cons.prems(3) by (simp add: CELL_def less_eq_div_iff_mult_less_eq)
  then show ?case unfolding noise_line.simps
    by (intro changes_trans[OF ch Cons.IH[OF changes_length[OF ch] Cons.prems(2)]]) (use Cons.prems(3) in auto)
qed (simp add: changes_refl)

lemma noise_lines_changes:
  "length f = FRAME_BYTES \<Longrightarrow> row < ROWS \<Longrightarrow> \<forall>y \<in> set ys. y div CELL = row \<and> y < HEIGHT \<Longrightarrow>
   changes_only {(x, row) |x. 12 \<le> x} f (fst (noise_lines N ys f r))"
proof (induction ys arbitrary: f r)
  case (Cons y ys)
  obtain v r' where v: "N r = (v, r')" by fastforce
  let ?run = "max (unat v mod (SENSITIVE_MAX + 1)) SENSITIVE_MIN"
  have "?run \<le> 31" by (simp add: glass_defs)
  then have "\<forall>x \<in> set [WIDTH - ?run ..< WIDTH]. 12 * CELL \<le> x \<and> x < WIDTH" by (auto simp: WIDTH_def CELL_def)
  then have ch: "changes_only {(x, row) |x. 12 \<le> x} f (noise_line [WIDTH - ?run ..< WIDTH] y f)"
    using noise_line_changes[OF Cons.prems(1), of y "[WIDTH - ?run ..< WIDTH]"] Cons.prems(3) by simp
  show ?case using changes_trans[OF ch Cons.IH[OF changes_length[OF ch] Cons.prems(2), of r']] Cons.prems(3)
    by (simp add: v Let_def)
qed (simp add: changes_refl)

lemma mark_sensitive_changes:
  "length f = FRAME_BYTES \<Longrightarrow> row < ROWS \<Longrightarrow>
   changes_only {(x, row) |x. 12 \<le> x} f (fst (mark_sensitive N row f r))"
  unfolding mark_sensitive_def by (rule noise_lines_changes) (auto simp: glass_defs)

end
