(* ===== verification/PagesCorrect.thy ===== *)
theory PagesCorrect
  imports Pages ScreenCorrect
begin

text \<open>
  What the pages put on the glass, read back cell by cell: numbers as their decimal digits, an
  address to its last character, a backup word with its number and nothing after it; and which page
  confirms.
\<close>

subsection \<open>Buffers and digits\<close>

lemma push_str_fits:
  "length (tb_text b) + length s \<le> n \<Longrightarrow>
   tb_text (push_str n s b) = tb_text b @ map shown_as s \<and> tb_truncated (push_str n s b) = tb_truncated b"
  unfolding push_str_def by (induction s arbitrary: b) (simp_all add: buf_push_def shown_as_def)

lemma push_all_fits:
  "length (tb_text b) + length s \<le> n \<Longrightarrow>
   tb_text (foldl (\<lambda>b d. buf_push n d b) b s) = tb_text b @ s \<and> tb_truncated (foldl (\<lambda>b d. buf_push n d b) b s) = tb_truncated b"
  by (induction s arbitrary: b) (simp_all add: buf_push_def)

lemma length_push_str: "length (tb_text b) \<le> n \<Longrightarrow> length (tb_text (push_str n s b)) \<le> n"
  unfolding push_str_def by (induction s arbitrary: b) (simp_all add: buf_push_def)

lemma length_push_all: "length (tb_text b) \<le> n \<Longrightarrow> length (tb_text (foldl (\<lambda>b d. buf_push n d b) b s)) \<le> n"
  by (induction s arbitrary: b) (simp_all add: buf_push_def)

lemma length_push_u64: "length (tb_text b) \<le> n \<Longrightarrow> length (tb_text (push_u64 n v b)) \<le> n"
  unfolding push_u64_def by (rule length_push_all)

lemma length_buf_new [simp]: "length (tb_text buf_new) = 0"
  by (simp add: buf_new_def)

definition decimal :: "code_points \<Rightarrow> nat" where
  "decimal ds = foldl (\<lambda>a d. a * 10 + (d - 48)) 0 ds"

lemma digits_into_spec:
  "v < 10 ^ i \<Longrightarrow> 0 < i \<Longrightarrow>
   \<exists>D. digits_into i v ds = D @ ds \<and> D \<noteq> [] \<and> length D \<le> i \<and> (\<forall>d \<in> set D. 48 \<le> d \<and> d \<le> 57) \<and> decimal D = v"
proof (induction i arbitrary: v ds)
  case (Suc i)
  have d: "48 \<le> 48 + v mod 10 \<and> 48 + v mod 10 \<le> 57" by simp
  show ?case
  proof (cases "v div 10 = 0 \<or> i = 0")
    case True
    then have "v mod 10 = v" using Suc.prems(1) by auto
    then show ?thesis using True d by (intro exI[of _ "[48 + v mod 10]"]) (auto simp: Let_def decimal_def)
  next
    case False
    then have "v div 10 < 10 ^ i" "0 < i" using Suc.prems(1) by (auto simp: div_less_iff_less_mult mult.commute)
    then obtain D where D: "digits_into i (v div 10) ((48 + v mod 10) # ds) = D @ (48 + v mod 10) # ds" "length D \<le> i"
      "\<forall>d \<in> set D. 48 \<le> d \<and> d \<le> 57" "decimal D = v div 10" using Suc.IH by blast
    then show ?thesis using False d
      by (intro exI[of _ "D @ [48 + v mod 10]"]) (auto simp: Let_def decimal_def)
  qed
qed simp

lemma amount_text_spec:
  assumes "sats < 2 ^ 64"
  shows "length (amount_text sats) \<le> 20" "amount_text sats \<noteq> []" "\<forall>d \<in> set (amount_text sats). 48 \<le> d \<and> d \<le> 57"
    "decimal (amount_text sats) = sats"
proof -
  have "sats < 10 ^ 20" using assms by simp
  then obtain D where D: "digits_into 20 sats [] = D" "length D \<le> 20" "D \<noteq> []" "\<forall>d \<in> set D. 48 \<le> d \<and> d \<le> 57" "decimal D = sats"
    using digits_into_spec[of sats 20 "[]"] by auto
  have "amount_text sats = D" using push_all_fits[of buf_new D 20] D(1,2)
    by (simp add: amount_text_def push_u64_def buf_new_def)
  then show "length (amount_text sats) \<le> 20" "amount_text sats \<noteq> []" "\<forall>d \<in> set (amount_text sats). 48 \<le> d \<and> d \<le> 57"
    "decimal (amount_text sats) = sats" using D by simp_all
qed

subsection \<open>Composing\<close>

lemma length_frame_clear [simp]: "length (frame_clear f) = FRAME_BYTES"
  by (simp add: frame_clear_def)

lemma length_put_text [simp]: "length f = FRAME_BYTES \<Longrightarrow> length (put_text col row s f) = FRAME_BYTES"
  by (rule changes_length[OF put_text_row])

lemma put_text_keeps [simp]:
  "length f = FRAME_BYTES \<Longrightarrow> y \<noteq> row \<Longrightarrow> frame_cell x y (put_text col row s f) = frame_cell x y f"
  using changes_cell[OF put_text_row] by simp

lemma wrap_keeps:
  assumes "length f = FRAME_BYTES" "row + rows \<le> ROWS"
  shows "length (snd (wrap row rows s f)) = FRAME_BYTES"
    "y < row \<or> row + rows \<le> y \<Longrightarrow> frame_cell x y (snd (wrap row rows s f)) = frame_cell x y f"
proof -
  have c: "changes_only {(x, y'). row \<le> y' \<and> x < COLS \<and> (y' - row) * COLS + x < min (length s) (rows * COLS)} f (snd (wrap row rows s f))"
    using wrap_rows_shows[OF assms, of 0 s "fst (wrap row rows s f)" "snd (wrap row rows s f)"] by (simp add: wrap_def)
  show "length (snd (wrap row rows s f)) = FRAME_BYTES" by (rule changes_length[OF c])
  have C: "COLS = 16" by (simp add: glass_defs)
  have "row + rows \<le> y \<Longrightarrow> \<not> (y - row) * COLS + x < rows * COLS" unfolding C by linarith
  then show "y < row \<or> row + rows \<le> y \<Longrightarrow> frame_cell x y (snd (wrap row rows s f)) = frame_cell x y f"
    using changes_cell[OF c, of x y] by (cases "y < row") simp_all
qed

lemma blank_cell: "x < COLS \<Longrightarrow> y < ROWS \<Longrightarrow> frame_cell x y (frame_clear f) = Some (32, False)"
proof -
  assume xy: "x < COLS" "y < ROWS"
  have "glyph_at 0 = replicate 8 0"
    unfolding glyph_at_def FONT_def by (simp add: window_def CELL_def eval_nat_numeral)
  moreover have "cell_bytes x y (frame_clear f) = replicate 8 0"
    unfolding cell_bytes_def frame_clear_def CELL_def
    by (rule window_replicate) (use xy in \<open>simp add: glass_defs\<close>)
  ultimately have "cell_bytes x y (frame_clear f) = glyph_at (glyph 32)" by (simp add: glyph_def glass_defs)
  then show ?thesis using frame_cell_glyph[of "frame_clear f" x y False 32] xy by (simp add: shown_as_def glass_defs)
qed

lemma length_str [simp]: "length (str s) = length s"
  by (simp add: str_def)

lemma footer_cell:
  assumes "length f = FRAME_BYTES" "i < length s" "i < COLS"
  shows "frame_cell i FOOTER_ROW (put_text 0 FOOTER_ROW s f) = Some (shown_as (s ! i), False)"
proof -
  obtain n f' where t: "frame_text 0 FOOTER_ROW s f = (n, f')" by fastforce
  have r: "FOOTER_ROW < ROWS" by (simp add: FOOTER_ROW_def glass_defs)
  have "n = min (length s) COLS" using frame_text_shows(1)[OF assms(1) r _ t] by simp
  then show ?thesis using frame_text_shows(3)[OF assms(1) r _ t, of i] assms(2,3) by (simp add: put_text_def t)
qed

subsection \<open>Addresses\<close>

lemma check_address_ok:
  "check_address a = Inr () \<longleftrightarrow> a \<noteq> [] \<and> length a \<le> ADDRESS_ROWS * COLS \<and> (\<forall>c \<in> set a. is_ascii_graphic c)"
  by (auto simp: check_address_def list_all_iff)

lemma graphic_printable: "is_ascii_graphic c \<Longrightarrow> shown_as c = c"
  by (simp add: is_ascii_graphic_def shown_as_def glass_defs)

lemma invert_chunk_shows:
  assumes "length f = FRAME_BYTES"
  shows "length (invert_chunk row c f) = FRAME_BYTES" "shows_char f x y k \<Longrightarrow> shows_char (invert_chunk row c f) x y k"
  using changes_length[OF invert_shows(1)[OF assms]] invert_shows(2)[OF assms] by (simp_all add: invert_chunk_def Let_def)

lemma address_block_shows:
  assumes "length f = FRAME_BYTES" "check_address a = Inr ()"
  shows "\<exists>g. address_block 2 a seed f = (Inr (), g) \<and> length g = FRAME_BYTES \<and>
    (\<forall>i < length a. shows_char g (i mod COLS) (2 + i div COLS) (a ! i))"
proof -
  obtain n h where w: "wrap 2 ADDRESS_ROWS a f = (n, h)" by fastforce
  have rows: "2 + ADDRESS_ROWS \<le> ROWS" by (simp add: ADDRESS_ROWS_def glass_defs)
  have l: "length a \<le> ADDRESS_ROWS * COLS" using assms(2) by (simp add: check_address_ok)
  note W = wrap_shows[OF assms(1) rows l w]
  have h: "length h = FRAME_BYTES" by (rule changes_length[OF W(2)])
  have "shows_char h (i mod COLS) (2 + i div COLS) (a ! i)" if "i < length a" for i
    using W(3)[OF that] that assms(2) by (auto simp: shows_char_def check_address_ok graphic_printable)
  then show ?thesis using w W(1) h invert_chunk_shows assms(2)
    by (cases "pick_highlights seed (length a div CHUNK)") (auto simp: address_block_def)
qed

subsection \<open>Signing requests\<close>

lemma check_recipients_ok: "check_recipients rs = Inr () \<longleftrightarrow> (\<forall>r \<in> set rs. check_address (rc_address r) = Inr ())"
  by (induction rs) (auto split: sum.splits)

lemma sign_pages_new_ok:
  "sign_pages_new rs fee = Inr p \<longleftrightarrow> length rs \<le> MAX_RECIPIENTS \<and> (\<forall>r \<in> set rs. check_address (rc_address r) = Inr ()) \<and>
     p = \<lparr>pg_recipients = rs, pg_fee = fee, pg_confirm = None\<rparr>"
  by (auto simp: sign_pages_new_def check_recipients_ok[symmetric] split: sum.splits)

lemma draw_page_draws:
  assumes "length f = FRAME_BYTES" "\<And>k n a. page = Address k n a \<Longrightarrow> check_address a = Inr ()"
  shows "\<exists>g. draw_page p index page f = (True, g) \<and> length g = FRAME_BYTES"
proof (cases page)
  case (Address k n a)
  let ?h = "put_text 0 1 (tb_text (counter_text k n)) (put_text 0 0 (str ''To address'') f)"
  have "length ?h = FRAME_BYTES" using assms(1) by simp
  then obtain g where "address_block 2 a (k mod u32_lim) ?h = (Inr (), g)" "length g = FRAME_BYTES"
    using address_block_shows[OF _ assms(2)[OF Address], of ?h "k mod u32_lim"] by blast
  then show ?thesis by (simp add: draw_page_def Address)
qed (use assms(1) in \<open>simp_all add: draw_page_def fee_page_def wrap_keeps glass_defs\<close>)

lemma sign_page_Some: "sign_page p index \<noteq> None \<longleftrightarrow> index < sign_len p"
  by (cases "pg_recipients p") (auto simp: sign_page_def sign_len_def recipient_pages_def Let_def)

lemma sign_page_address:
  "sign_page p index = Some (Address k n a) \<Longrightarrow> \<exists>r \<in> set (pg_recipients p). a = rc_address r"
  by (auto simp: sign_page_def Let_def split: if_splits)

lemma length_footer [simp]: "length f = FRAME_BYTES \<Longrightarrow> length (footer p index f) = FRAME_BYTES"
  by (simp add: footer_def split: option.split)

lemma footer_keeps [simp]: "length f = FRAME_BYTES \<Longrightarrow> y \<noteq> FOOTER_ROW \<Longrightarrow> frame_cell x y (footer p index f) = frame_cell x y f"
  by (simp add: footer_def split: option.split)

lemma sign_render_draws:
  assumes "\<forall>r \<in> set (pg_recipients p). check_address (rc_address r) = Inr ()"
  shows "fst (sign_render p index f) \<longleftrightarrow> index < sign_len p"
    "sign_page p index = Some page \<Longrightarrow>
      \<exists>g. draw_page p index page (frame_clear f) = (True, g) \<and> length g = FRAME_BYTES \<and>
        sign_render p index f = (True, footer p index g)"
proof -
  have drawn: "\<exists>g. draw_page p index page (frame_clear f) = (True, g) \<and> length g = FRAME_BYTES \<and>
        sign_render p index f = (True, footer p index g)" if page: "sign_page p index = Some page" for page
  proof -
    have "check_address a = Inr ()" if "page = Address k n a" for k n a
      using sign_page_address[of p index k n a] page that assms by auto
    then show ?thesis using draw_page_draws[of "frame_clear f" page p index] page by (auto simp: sign_render_def)
  qed
  show "fst (sign_render p index f) \<longleftrightarrow> index < sign_len p"
    using drawn sign_page_Some[of p index] by (cases "sign_page p index") (auto simp: sign_render_def)
  show "sign_page p index = Some page \<Longrightarrow>
      \<exists>g. draw_page p index page (frame_clear f) = (True, g) \<and> length g = FRAME_BYTES \<and>
        sign_render p index f = (True, footer p index g)" by (rule drawn)
qed

text \<open>A line of text on the glass, and a number: its decimal digits, wrapped, and then a blank.\<close>

definition shows_text :: "frame \<Rightarrow> nat \<Rightarrow> nat \<Rightarrow> code_points \<Rightarrow> bool" where
  "shows_text f x y s \<longleftrightarrow> (\<forall>i < length s. frame_cell (x + i) y f = Some (s ! i, False))"

definition shows_number :: "frame \<Rightarrow> nat \<Rightarrow> nat \<Rightarrow> bool" where
  "shows_number f row v \<longleftrightarrow>
     (\<exists>ds. ds \<noteq> [] \<and> length ds \<le> 20 \<and> (\<forall>d \<in> set ds. 48 \<le> d \<and> d \<le> 57) \<and> decimal ds = v \<and>
        (\<forall>i < length ds. frame_cell (i mod COLS) (row + i div COLS) f = Some (ds ! i, False)) \<and>
        frame_cell (length ds mod COLS) (row + length ds div COLS) f = Some (32, False))"

lemma digits_shown: "\<forall>d \<in> set ds. 48 \<le> d \<and> d \<le> 57 \<Longrightarrow> i < length ds \<Longrightarrow> shown_as (ds ! i) = ds ! i"
  using nth_mem[of i ds] by (fastforce simp: shown_as_def glass_defs)

lemma wrap_number:
  assumes "length f = FRAME_BYTES" "row + 2 \<le> ROWS" "v < 2 ^ 64"
    "\<And>x y. x < COLS \<Longrightarrow> row \<le> y \<Longrightarrow> y < row + 2 \<Longrightarrow> frame_cell x y f = Some (32, False)"
  shows "shows_number (snd (wrap row 2 (amount_text v) f)) row v"
proof -
  let ?ds = "amount_text v" and ?g = "snd (wrap row 2 (amount_text v) f)"
  note A = amount_text_spec[OF assms(3)]
  have l: "length ?ds \<le> 2 * COLS" using A(1) by (simp add: glass_defs)
  obtain n h where w: "wrap row 2 ?ds f = (n, h)" by fastforce
  note W = wrap_shows[OF assms(1,2) l w]
  have "frame_cell (length ?ds mod COLS) (row + length ?ds div COLS) h = frame_cell (length ?ds mod COLS) (row + length ?ds div COLS) f"
    by (rule changes_cell[OF W(2)]) simp
  also have "\<dots> = Some (32, False)" using A(1) by (intro assms(4)) (auto simp: glass_defs)
  finally have "frame_cell (length ?ds mod COLS) (row + length ?ds div COLS) h = Some (32, False)" .
  then show ?thesis unfolding shows_number_def
    using A W(3) digits_shown[OF A(3)] by (intro exI[of _ ?ds]) (simp add: w)
qed

lemma shows_number_keeps:
  assumes "shows_number f row v" "\<And>x y. row \<le> y \<Longrightarrow> y < row + 2 \<Longrightarrow> frame_cell x y g = frame_cell x y f"
  shows "shows_number g row v"
proof -
  obtain ds where D: "ds \<noteq> []" "length ds \<le> 20" "\<forall>d \<in> set ds. 48 \<le> d \<and> d \<le> 57" "decimal ds = v"
    "\<And>i. i < length ds \<Longrightarrow> frame_cell (i mod COLS) (row + i div COLS) f = Some (ds ! i, False)"
    "frame_cell (length ds mod COLS) (row + length ds div COLS) f = Some (32, False)"
    using assms(1) unfolding shows_number_def by blast
  have "row + i div COLS < row + 2" if "i \<le> length ds" for i using that D(2) by (simp add: glass_defs)
  then show ?thesis unfolding shows_number_def using D assms(2) by (intro exI[of _ ds]) simp
qed

lemma shows_number_put:
  "shows_number f row v \<Longrightarrow> length f = FRAME_BYTES \<Longrightarrow> row' < row \<or> row + 2 \<le> row' \<Longrightarrow> shows_number (put_text col row' s f) row v"
  by (erule shows_number_keeps) auto

lemma shows_number_footer:
  "shows_number f row v \<Longrightarrow> length f = FRAME_BYTES \<Longrightarrow> row + 2 \<le> FOOTER_ROW \<Longrightarrow> shows_number (footer p index f) row v"
  by (erule shows_number_keeps) auto

lemma amount_page:
  assumes "v < 2 ^ 64"
  shows "\<exists>g. draw_page p index (Amount k n v) (frame_clear f) = (True, g) \<and> length g = FRAME_BYTES \<and> shows_number g 3 v"
proof -
  let ?h = "put_text 0 1 (tb_text (counter_text k n)) (put_text 0 0 (str ''Send amount'') (frame_clear f))"
  have r: "(3::nat) + 2 \<le> ROWS" by (simp add: glass_defs)
  have "shows_number (snd (wrap 3 2 (amount_text v) ?h)) 3 v"
    by (rule wrap_number[OF _ r assms]) (simp_all add: blank_cell glass_defs)
  then show ?thesis using wrap_keeps(1)[OF _ r, of ?h] by (simp add: draw_page_def shows_number_put)
qed

lemma fee_page_shows:
  assumes "v < 2 ^ 64"
  shows "length (fee_page v (frame_clear f)) = FRAME_BYTES" "shows_number (fee_page v (frame_clear f)) 1 v"
proof -
  let ?h = "put_text 0 0 (str ''Network fee:'') (frame_clear f)"
  have r: "(1::nat) + 2 \<le> ROWS" by (simp add: glass_defs)
  have "shows_number (snd (wrap 1 2 (amount_text v) ?h)) 1 v"
    by (rule wrap_number[OF _ r assms]) (simp_all add: blank_cell glass_defs)
  then show "length (fee_page v (frame_clear f)) = FRAME_BYTES" "shows_number (fee_page v (frame_clear f)) 1 v"
    using wrap_keeps(1)[OF _ r, of ?h] by (simp_all add: fee_page_def shows_number_put)
qed

definition shows_address :: "frame \<Rightarrow> nat \<Rightarrow> code_points \<Rightarrow> bool" where
  "shows_address f row a \<longleftrightarrow> (\<forall>i < length a. shows_char f (i mod COLS) (row + i div COLS) (a ! i))"

lemma address_page:
  assumes "check_address a = Inr ()"
  shows "\<exists>g. draw_page p index (Address k n a) (frame_clear f) = (True, g) \<and> length g = FRAME_BYTES \<and> shows_address g 2 a"
proof -
  let ?h = "put_text 0 1 (tb_text (counter_text k n)) (put_text 0 0 (str ''To address'') (frame_clear f))"
  have "length ?h = FRAME_BYTES" by simp
  then show ?thesis using address_block_shows[OF _ assms, of ?h "k mod u32_lim"]
    by (auto simp: draw_page_def shows_address_def)
qed

lemma address_footer:
  assumes "shows_address f 2 a" "length f = FRAME_BYTES" "length a \<le> ADDRESS_ROWS * COLS"
  shows "shows_address (footer p index f) 2 a"
proof -
  have "2 + i div COLS \<noteq> FOOTER_ROW" if "i < length a" for i
    using that assms(3) by (simp add: page_defs glass_defs)
  then show ?thesis using assms(1,2) by (simp add: shows_address_def shows_char_def)
qed

subsection \<open>The footer\<close>

lemma digits_small: "v < 100 \<Longrightarrow> length (digits_into 20 v []) \<le> 2"
proof -
  have n: "(20 :: nat) = Suc (Suc 18)" by simp
  show "v < 100 \<Longrightarrow> length (digits_into 20 v []) \<le> 2" unfolding n digits_into.simps Let_def by simp
qed

lemma shows_put:
  assumes "length f = FRAME_BYTES" "length s \<le> COLS" "row < ROWS" "\<forall>c \<in> set s. printable c"
  shows "shows_text (put_text 0 row s f) 0 row s"
proof -
  obtain n f' where t: "frame_text 0 row s f = (n, f')" by fastforce
  have "n = length s" using frame_text_shows(1)[OF assms(1,3) _ t] assms(2) by simp
  then show ?thesis using frame_text_shows(3)[OF assms(1,3) _ t] assms(4) by (simp add: put_text_def t shows_text_def)
qed


lemma shows_text_append: "shows_text f x y (s @ t) \<longleftrightarrow> shows_text f x y s \<and> shows_text f (x + length s) y t"
proof -
  have "(\<forall>i < length s + length t. P i) \<longleftrightarrow> (\<forall>i < length s. P i) \<and> (\<forall>j < length t. P (length s + j))" for P
  proof safe
    fix i assume "\<forall>i < length s. P i" "\<forall>j < length t. P (length s + j)" "i < length s + length t"
    then show "P i" by (cases "i < length s") (auto dest: spec[of _ "i - length s"])
  qed auto
  from this[of "\<lambda>i. frame_cell (x + i) y f = Some ((s @ t) ! i, False)"]
  show ?thesis by (simp add: shows_text_def nth_append add.assoc)
qed

text \<open>A small number in a buffer: two digits at most.\<close>

lemma push_small:
  assumes "v < 100" "length (tb_text b) + 2 \<le> n"
  shows "\<exists>ds. ds \<noteq> [] \<and> length ds \<le> 2 \<and> (\<forall>d \<in> set ds. 48 \<le> d \<and> d \<le> 57) \<and> decimal ds = v \<and>
    tb_text (push_u64 n v b) = tb_text b @ ds"
proof -
  have "v < 10 ^ 20" using assms(1) by simp
  then obtain D where D: "digits_into 20 v [] = D" "D \<noteq> []" "\<forall>d \<in> set D. 48 \<le> d \<and> d \<le> 57" "decimal D = v"
    using digits_into_spec[of v 20 "[]"] by auto
  moreover have "length D \<le> 2" using digits_small[OF assms(1)] D(1) by simp
  moreover have "tb_text (push_u64 n v b) = tb_text b @ D"
    using push_all_fits[of b D n] D(1) assms(2) \<open>length D \<le> 2\<close> by (simp add: push_u64_def)
  ultimately show ?thesis by blast
qed

lemma str_printable: "list_all printable (str s) \<Longrightarrow> map shown_as (str s) = str s"
  by (simp add: list_all_iff map_idI)

lemma paging_footer:
  assumes "index + 1 < 100" "len < 100"
  shows "\<exists>ds es. decimal ds = index + 1 \<and> decimal es = len \<and>
    (\<forall>d \<in> set (ds @ es). 48 \<le> d \<and> d \<le> 57) \<and> length ds \<le> 2 \<and> length es \<le> 2 \<and>
    tb_text (push_str 16 NEXT_LEGEND (page_of index len)) = str ''pg '' @ ds @ str ''/'' @ es @ str '' (9)next''"
proof -
  have lit: "map shown_as (str ''pg '') = str ''pg ''" "map shown_as (str ''/'') = str ''/''"
    "map shown_as (str '' (9)next'') = str '' (9)next''"
    by (simp_all add: str_def shown_as_def glass_defs)
  let ?b1 = "push_str 16 (str ''pg '') buf_new"
  have b1: "tb_text ?b1 = str ''pg ''" using push_str_fits[of buf_new "str ''pg ''" 16] lit by (simp add: buf_new_def)
  then obtain ds where ds: "length ds \<le> 2" "\<forall>d \<in> set ds. 48 \<le> d \<and> d \<le> 57" "decimal ds = index + 1"
    "tb_text (push_u64 16 (index + 1) ?b1) = str ''pg '' @ ds"
    using push_small[OF assms(1), of ?b1 16] by auto
  let ?b2 = "push_str 16 (str ''/'') (push_u64 16 (index + 1) ?b1)"
  have b2: "tb_text ?b2 = str ''pg '' @ ds @ str ''/''"
    using push_str_fits[of "push_u64 16 (index + 1) ?b1" "str ''/''" 16] ds lit by simp
  then obtain es where es: "length es \<le> 2" "\<forall>d \<in> set es. 48 \<le> d \<and> d \<le> 57" "decimal es = len"
    "tb_text (push_u64 16 len ?b2) = str ''pg '' @ ds @ str ''/'' @ es"
    using push_small[OF assms(2), of ?b2 16] ds(1) by auto
  have "tb_text (push_str 16 NEXT_LEGEND (page_of index len)) = str ''pg '' @ ds @ str ''/'' @ es @ str '' (9)next''"
    using push_str_fits[of "page_of index len" NEXT_LEGEND 16] es ds(1) lit by (simp add: page_of_def NEXT_LEGEND_def)
  then show ?thesis using ds es by (intro exI[of _ ds] exI[of _ es]) auto
qed

lemma confirm_footer:
  assumes "confirm \<in> set CONFIRM_CHARSET"
  shows "tb_text (push_str 16 (str '' x=no'') (press_legend confirm)) = str ''Press ('' @ [confirm] @ str '') x=no''"
proof -
  have "map shown_as (str ''Press ('') = str ''Press (''" "map shown_as (str '')'') = str '')''"
    "map shown_as (str '' x=no'') = str '' x=no''"
    by (simp_all add: str_def shown_as_def glass_defs)
  moreover have "shown_as confirm = confirm" using assms by (auto simp: CONFIRM_CHARSET_def str_def shown_as_def glass_defs)
  ultimately show ?thesis by (simp add: press_legend_def push_str_fits buf_new_def) (simp add: str_def)
qed


lemma sign_len_small: "length (pg_recipients p) \<le> MAX_RECIPIENTS \<Longrightarrow> sign_len p < 100"
  by (auto simp: sign_len_def recipient_pages_def MAX_RECIPIENTS_def)

text \<open>The footer of each page: the page counter, or the digit that confirms on the last.\<close>

lemma footer_shows:
  assumes "length f = FRAME_BYTES" "sign_len p < 100" "index < sign_len p" "pg_confirm p = Some confirm"
    "confirm \<in> set CONFIRM_CHARSET"
  shows "if index + 1 = sign_len p
    then shows_text (footer p index f) 0 FOOTER_ROW (str ''Press ('' @ [confirm] @ str '') x=no'')
    else \<exists>ds es. decimal ds = index + 1 \<and> decimal es = sign_len p \<and>
      shows_text (footer p index f) 0 FOOTER_ROW (str ''pg '' @ ds @ str ''/'' @ es @ str '' (9)next'')"
proof -
  have r: "FOOTER_ROW < ROWS" by (simp add: FOOTER_ROW_def glass_defs)
  have lits: "\<forall>c \<in> set (str ''pg '' @ str ''/'' @ str '' (9)next'' @ str ''Press ('' @ str '') x=no''). printable c"
    by (simp add: str_def printable_def glass_defs)
  show ?thesis
  proof (cases "index + 1 = sign_len p")
    case True
    have "printable confirm" using assms(5) by (auto simp: CONFIRM_CHARSET_def str_def printable_def glass_defs)
    then have "shows_text (put_text 0 FOOTER_ROW (str ''Press ('' @ [confirm] @ str '') x=no'') f) 0 FOOTER_ROW
        (str ''Press ('' @ [confirm] @ str '') x=no'')"
      using lits by (intro shows_put[OF assms(1) _ r]) (auto simp: COLS_def WIDTH_def CELL_def)
    moreover have "is_last p index" using True by (simp add: is_last_def flip: True)
    ultimately show ?thesis using True assms(4) confirm_footer[OF assms(5)] by (simp add: footer_def)
  next
    case False
    have i: "index + 1 < 100" using assms(2,3) by simp
    obtain ds es where d: "decimal ds = index + 1" "decimal es = sign_len p" "\<forall>d \<in> set (ds @ es). 48 \<le> d \<and> d \<le> 57"
      "length ds \<le> 2" "length es \<le> 2"
      "tb_text (push_str 16 NEXT_LEGEND (page_of index (sign_len p))) = str ''pg '' @ ds @ str ''/'' @ es @ str '' (9)next''"
      using paging_footer[OF i assms(2)] by blast
    have p: "\<forall>d \<in> set (ds @ es). printable d" using d(3) by (fastforce simp: printable_def glass_defs)
    have "shows_text (put_text 0 FOOTER_ROW (str ''pg '' @ ds @ str ''/'' @ es @ str '' (9)next'') f) 0 FOOTER_ROW
        (str ''pg '' @ ds @ str ''/'' @ es @ str '' (9)next'')"
      using lits p d(4,5) by (intro shows_put[OF assms(1) _ r]) (auto simp: COLS_def WIDTH_def CELL_def)
    moreover have "\<not> is_last p index" using False assms(3) by (simp add: is_last_def)
    ultimately show ?thesis using False d by (auto simp: footer_def)
  qed
qed

lemma sign_page_at:
  assumes "k < length (pg_recipients p)"
  shows "sign_page p (2 * k) = Some (Amount k (length (pg_recipients p)) (rc_sats (pg_recipients p ! k)))"
    "sign_page p (2 * k + 1) = Some (Address k (length (pg_recipients p)) (rc_address (pg_recipients p ! k)))"
  using assms by (auto simp: sign_page_def recipient_pages_def Let_def)

lemma sign_page_fee:
  "sign_page p (sign_len p - 2) = Some (Fee (pg_fee p))" "sign_page p (sign_len p - 1) = Some Confirm"
  by (auto simp: sign_page_def sign_len_def Let_def)

lemma sign_render_page:
  assumes "\<forall>r \<in> set (pg_recipients p). check_address (rc_address r) = Inr ()" "sign_page p index = Some page"
    "draw_page p index page (frame_clear f) = (True, g)"
  shows "sign_render p index f = (True, footer p index g)"
  using assms(2,3) by (simp add: sign_render_def)

text \<open>Every recipient's amount and whole address, and the fee, each on its page.\<close>

lemma signing_shows:
  assumes "\<forall>r \<in> set (pg_recipients p). check_address (rc_address r) = Inr ()"
    "\<forall>r \<in> set (pg_recipients p). rc_sats r < 2 ^ 64" "pg_fee p < 2 ^ 64"
  shows "k < length (pg_recipients p) \<Longrightarrow>
      (case sign_render p (2 * k) f of (drawn, g) \<Rightarrow> drawn \<and> shows_number g 3 (rc_sats (pg_recipients p ! k)))"
    "k < length (pg_recipients p) \<Longrightarrow>
      (case sign_render p (2 * k + 1) f of (drawn, g) \<Rightarrow> drawn \<and> shows_address g 2 (rc_address (pg_recipients p ! k)))"
    "case sign_render p (sign_len p - 2) f of (drawn, g) \<Rightarrow> drawn \<and> shows_number g 1 (pg_fee p)"
proof -
  have F: "(3::nat) + 2 \<le> FOOTER_ROW" "(1::nat) + 2 \<le> FOOTER_ROW" by (simp_all add: FOOTER_ROW_def glass_defs)
  show "case sign_render p (2 * k) f of (drawn, g) \<Rightarrow> drawn \<and> shows_number g 3 (rc_sats (pg_recipients p ! k))"
    if k: "k < length (pg_recipients p)"
  proof -
    have "rc_sats (pg_recipients p ! k) < 2 ^ 64" using assms(2) nth_mem[OF k] by blast
    then obtain g where g: "draw_page p (2 * k) (Amount k (length (pg_recipients p)) (rc_sats (pg_recipients p ! k))) (frame_clear f) = (True, g)"
      "length g = FRAME_BYTES" "shows_number g 3 (rc_sats (pg_recipients p ! k))" using amount_page by blast
    show ?thesis using sign_render_page[OF assms(1) sign_page_at(1)[OF k] g(1)] shows_number_footer[OF g(3,2) F(1)] by simp
  qed
  show "case sign_render p (2 * k + 1) f of (drawn, g) \<Rightarrow> drawn \<and> shows_address g 2 (rc_address (pg_recipients p ! k))"
    if k: "k < length (pg_recipients p)"
  proof -
    have a: "check_address (rc_address (pg_recipients p ! k)) = Inr ()" using assms(1) nth_mem[OF k] by blast
    then obtain g where g: "draw_page p (2 * k + 1) (Address k (length (pg_recipients p)) (rc_address (pg_recipients p ! k))) (frame_clear f) = (True, g)"
      "length g = FRAME_BYTES" "shows_address g 2 (rc_address (pg_recipients p ! k))" using address_page by blast
    have "length (rc_address (pg_recipients p ! k)) \<le> ADDRESS_ROWS * COLS" using a by (simp add: check_address_ok)
    then show ?thesis using sign_render_page[OF assms(1) sign_page_at(2)[OF k] g(1)] address_footer[OF g(3,2)] by simp
  qed
  have d: "draw_page p (sign_len p - 2) (Fee (pg_fee p)) (frame_clear f) = (True, fee_page (pg_fee p) (frame_clear f))"
    by (simp add: draw_page_def)
  show "case sign_render p (sign_len p - 2) f of (drawn, g) \<Rightarrow> drawn \<and> shows_number g 1 (pg_fee p)"
    using sign_render_page[OF assms(1) sign_page_fee(1) d] fee_page_shows[OF assms(3), of f]
      shows_number_footer[of "fee_page (pg_fee p) (frame_clear f)" 1] F(2) by simp
qed

subsection \<open>The backup\<close>

lemma check_all_words_ok: "check_all_words ws = Inr () \<longleftrightarrow> (\<forall>w \<in> set ws. check_word w = Inr ())"
  by (induction ws) (auto split: sum.splits)

lemma check_word_ok:
  assumes "check_word w = Inr ()"
  shows "w \<noteq> []" "length w \<le> SHOWN_WORD_LEN" "\<forall>c \<in> set w. printable c"
  using assms by (auto simp: check_word_def check_letters_def list_all_iff printable_def glass_defs split: if_splits)

lemma backup_pages_new_ok:
  "backup_pages_new i ws = Inr p \<longleftrightarrow> length ws = SHOWN_WORDS \<and> (\<forall>w \<in> set ws. check_word w = Inr ()) \<and>
     p = \<lparr>bk_share_index = i, bk_words = ws\<rparr>"
  by (auto simp: backup_pages_new_def check_all_words_ok[symmetric] split: sum.splits)

lemma word_label_text:
  assumes "check_word w = Inr ()" "number < 100"
  shows "word_label number w = [48 + number div 10, 48 + number mod 10] @ str '': '' @ w"
proof -
  have n: "number div 10 mod 10 = number div 10" using assms(2) by simp
  have c: "map shown_as (str '': '') = str '': ''" by (simp add: str_def shown_as_def glass_defs)
  have w: "map shown_as w = w" using check_word_ok(3)[OF assms(1)] by (simp add: map_idI)
  have T: "SENSITIVE_TEXT_CELLS = 12" by (simp add: page_defs str_def)
  have l: "length w \<le> 8" using check_word_ok(2)[OF assms(1)] by (simp add: SHOWN_WORD_LEN_def)
  let ?b = "push_u8_pad2 12 number buf_new"
  have b: "tb_text ?b = [48 + number div 10, 48 + number mod 10]"
    unfolding push_u8_pad2_def n by (simp add: buf_push_def buf_new_def)
  then have "length (tb_text ?b) + length (str '': '') \<le> 12" by simp
  then have b2: "tb_text (push_str 12 (str '': '') ?b) = tb_text ?b @ str '': ''"
    using push_str_fits[of ?b "str '': ''" 12] c by simp
  then have "length (tb_text (push_str 12 (str '': '') ?b)) + length w \<le> 12" using b l by simp
  then have "tb_text (push_str 12 w (push_str 12 (str '': '') ?b)) = tb_text (push_str 12 (str '': '') ?b) @ w"
    using push_str_fits[of "push_str 12 (str '': '') ?b" w 12] w by simp
  then show ?thesis unfolding word_label_def T using b b2 by simp
qed

lemma sensitive_row_shows:
  assumes "length f = FRAME_BYTES" "row < ROWS" "length s \<le> 12" "\<forall>c \<in> set s. printable c"
  shows "changes_only {(x, row) |x. True} f (fst (sensitive_row N row s f r))"
    "shows_text (fst (sensitive_row N row s f r)) 0 row s"
    "length s \<le> x \<Longrightarrow> x < 12 \<Longrightarrow> frame_cell x row (fst (sensitive_row N row s f r)) = frame_cell x row f"
proof -
  have l: "length (put_text 0 row s f) = FRAME_BYTES" using assms(1) by simp
  have c: "changes_only {(x, row) |x. 12 \<le> x} (put_text 0 row s f) (fst (sensitive_row N row s f r))"
    unfolding sensitive_row_def by (rule mark_sensitive_changes[OF l assms(2)])
  have p: "changes_only {(x, row) |x. x < length s} f (put_text 0 row s f)"
  proof -
    obtain n f' where t: "frame_text 0 row s f = (n, f')" by fastforce
    have "n \<le> length s" using frame_text_shows(1)[OF assms(1,2) le0 t] by simp
    then have "{(x, row) |x. 0 \<le> x \<and> x < 0 + n} \<subseteq> {(x, row) |x. x < length s}" by auto
    with frame_text_shows(2)[OF assms(1,2) le0 t] show ?thesis unfolding put_text_def t by (simp add: changes_mono)
  qed
  show "changes_only {(x, row) |x. True} f (fst (sensitive_row N row s f r))"
    by (rule changes_trans[OF p c]) auto
  have "length s \<le> COLS" using assms(3) by (simp add: glass_defs)
  then have "shows_text (put_text 0 row s f) 0 row s" by (rule shows_put[OF assms(1) _ assms(2,4)])
  moreover have "frame_cell x row (fst (sensitive_row N row s f r)) = frame_cell x row (put_text 0 row s f)" if "x < 12" for x
    by (rule changes_cell[OF c]) (use that in simp)
  ultimately show "shows_text (fst (sensitive_row N row s f r)) 0 row s"
    "length s \<le> x \<Longrightarrow> x < 12 \<Longrightarrow> frame_cell x row (fst (sensitive_row N row s f r)) = frame_cell x row f"
    using assms(3) changes_cell[OF p, of x row] by (simp_all add: shows_text_def)
qed


text \<open>A word's row: its number, the word, and blanks up to where the noise may start.\<close>

definition word_row_shows :: "frame \<Rightarrow> nat \<Rightarrow> nat \<Rightarrow> code_points \<Rightarrow> bool" where
  "word_row_shows f row number w \<longleftrightarrow>
     shows_text f 0 row ([48 + number div 10, 48 + number mod 10] @ str '': '' @ w) \<and>
     (\<forall>x. 4 + length w \<le> x \<and> x < 12 \<longrightarrow> frame_cell x row f = Some (32, False))"

lemma word_row_keeps:
  assumes "word_row_shows f row number w" "\<And>x. frame_cell x row g = frame_cell x row f"
  shows "word_row_shows g row number w"
  using assms by (simp add: word_row_shows_def shows_text_def)

lemma word_rows_shows:
  "length f = FRAME_BYTES \<Longrightarrow> 2 + i + length ws \<le> ROWS \<Longrightarrow> first + i + length ws \<le> 100 \<Longrightarrow>
   \<forall>w \<in> set ws. check_word w = Inr () \<Longrightarrow>
   (\<And>x y. x < COLS \<Longrightarrow> 2 + i \<le> y \<Longrightarrow> y < ROWS \<Longrightarrow> frame_cell x y f = Some (32, False)) \<Longrightarrow>
   word_rows N first i ws f r = (g, r') \<Longrightarrow>
   changes_only {(x, y). 2 + i \<le> y \<and> y < 2 + i + length ws} f g \<and>
   (\<forall>j < length ws. word_row_shows g (2 + i + j) (first + i + j) (ws ! j))"
proof (induction ws arbitrary: i f r)
  case Nil
  then show ?case by (simp add: changes_refl)
next
  case (Cons w ws)
  obtain h r1 where s: "sensitive_row N (2 + i) (word_label (first + i) w) f r = (h, r1)" by fastforce
  have cw: "check_word w = Inr ()" and row: "2 + i < ROWS" and num: "first + i < 100" using Cons.prems(2-4) by auto
  note L = word_label_text[OF cw num]
  have len: "length (word_label (first + i) w) = 4 + length w" unfolding L by simp
  have fits: "length (word_label (first + i) w) \<le> 12" using check_word_ok(2)[OF cw] len by (simp add: SHOWN_WORD_LEN_def)
  have pr: "\<forall>c \<in> set (word_label (first + i) w). printable c" unfolding L
    using check_word_ok(3)[OF cw] num by (auto simp: printable_def glass_defs str_def)
  note S = sensitive_row_shows[OF Cons.prems(1) row fits pr, where N = N and r = r, unfolded s fst_conv]
  have h: "length h = FRAME_BYTES" by (rule changes_length[OF S(1)])
  have blank: "frame_cell x (2 + i) h = Some (32, False)" if "4 + length w \<le> x" "x < 12" for x
  proof -
    have "x < COLS" using that(2) by (simp add: glass_defs)
    then show ?thesis using S(3)[of x] that len Cons.prems(5)[of x "2 + i"] row by simp
  qed
  have mine: "word_row_shows h (2 + i) (first + i) w"
    unfolding word_row_shows_def using S(2) blank unfolding L by blast
  have rest: "word_rows N first (i + 1) ws h r1 = (g, r')" using Cons.prems(6) s by simp
  have bl: "frame_cell x y h = Some (32, False)" if "x < COLS" "2 + (i + 1) \<le> y" "y < ROWS" for x y
    using changes_cell[OF S(1), of x y] that Cons.prems(5)[of x y] by simp
  have IH: "changes_only {(x, y). 2 + (i + 1) \<le> y \<and> y < 2 + (i + 1) + length ws} h g"
    "\<And>j. j < length ws \<Longrightarrow> word_row_shows g (2 + (i + 1) + j) (first + (i + 1) + j) (ws ! j)"
    using Cons.IH[OF h _ _ _ bl rest] Cons.prems(2-4) by auto
  have "word_row_shows g (2 + i) (first + i) w" by (rule word_row_keeps[OF mine]) (rule changes_cell[OF IH(1)], simp)
  then have "word_row_shows g (2 + i + j) (first + i + j) ((w # ws) ! j)" if "j < length (w # ws)" for j
    using IH(2)[of "j - 1"] that by (cases j) simp_all
  moreover have "changes_only {(x, y). 2 + i \<le> y \<and> y < 2 + i + length (w # ws)} f g"
    by (rule changes_trans[OF S(1) IH(1)]) auto
  ultimately show ?case by blast
qed

lemma backup_page_words:
  assumes "length (bk_words p) = SHOWN_WORDS" "i < SHOWN_WORDS"
  shows "backup_page p (1 + i div 4) =
      Some (BackupWords (i div 4 * 4 + 1) (window (bk_words p) (i div 4 * 4) (min 4 (SHOWN_WORDS - i div 4 * 4))))"
    "backup_len p = 8"
proof -
  have n: "i div 4 * 4 \<le> i" "i < SHOWN_WORDS" using assms(2) by simp_all
  then have "length (window (bk_words p) (i div 4 * 4) (min 4 (SHOWN_WORDS - i div 4 * 4))) = min 4 (SHOWN_WORDS - i div 4 * 4)"
    using assms(1) by (intro length_window) simp
  then have "window (bk_words p) (i div 4 * 4) (min 4 (SHOWN_WORDS - i div 4 * 4)) \<noteq> []" using n by fastforce
  moreover have "min (i div 4 * 4 + 4) SHOWN_WORDS - i div 4 * 4 = min 4 (SHOWN_WORDS - i div 4 * 4)" using n by linarith
  ultimately show "backup_page p (1 + i div 4) =
      Some (BackupWords (i div 4 * 4 + 1) (window (bk_words p) (i div 4 * 4) (min 4 (SHOWN_WORDS - i div 4 * 4))))"
    using assms(1) n by (auto simp: backup_page_def Let_def WORDS_PER_PAGE_def)
  show "backup_len p = 8" using assms(1) by (simp add: backup_len_def page_defs)
qed

lemma backup_words_show:
  assumes "backup_pages_new share ws = Inr p" "i < SHOWN_WORDS"
  shows "case backup_render N p (1 + i div 4) f r of (drawn, g, r') \<Rightarrow>
    drawn \<and> word_row_shows g (2 + i mod 4) (i + 1) (ws ! i)"
proof -
  have p: "length (bk_words p) = SHOWN_WORDS" "bk_words p = ws" "\<forall>w \<in> set ws. check_word w = Inr ()"
    using assms(1) by (auto simp: backup_pages_new_ok)
  let ?ws = "window ws (i div 4 * 4) (min 4 (SHOWN_WORDS - i div 4 * 4))" and ?first = "i div 4 * 4 + 1"
  note page = backup_page_words(1)[OF p(1) assms(2), unfolded p(2)]
  have n: "i div 4 * 4 + i mod 4 = i" "i mod 4 < 4" by simp_all
  have l: "length ?ws = min 4 (SHOWN_WORDS - i div 4 * 4)" using p(1) n(1) assms(2) unfolding p(2) by (intro length_window) linarith
  have l2: "length ?ws \<le> 4" "i div 4 * 4 + length ?ws \<le> SHOWN_WORDS" using l n(1) assms(2) by linarith+
  let ?head = "tb_text (push_u64 16 (?first + length ?ws - 1) (push_str 16 (str ''-'')
                 (push_u64 16 ?first (push_str 16 (str ''words '') buf_new))))"
  let ?f = "put_text 0 0 ?head (frame_clear f)"
  obtain g r' where g: "word_rows N ?first 0 ?ws ?f r = (g, r')" by fastforce
  have W: "changes_only {(x, y). 2 \<le> y \<and> y < 2 + length ?ws} ?f g"
    "\<And>j. j < length ?ws \<Longrightarrow> word_row_shows g (2 + j) (?first + j) (?ws ! j)"
  proof -
    have a: "length ?f = FRAME_BYTES" "2 + 0 + length ?ws \<le> ROWS" "?first + 0 + length ?ws \<le> 100"
      using l2 assms(2) by (simp_all add: glass_defs SHOWN_WORDS_def)
    have b: "\<forall>w \<in> set ?ws. check_word w = Inr ()" using p(3) by (auto simp: window_def dest: in_set_takeD in_set_dropD)
    have c: "frame_cell x y ?f = Some (32, False)" if "x < COLS" "2 + 0 \<le> y" "y < ROWS" for x y
      using that by (simp add: blank_cell)
    show "changes_only {(x, y). 2 \<le> y \<and> y < 2 + length ?ws} ?f g"
      "\<And>j. j < length ?ws \<Longrightarrow> word_row_shows g (2 + j) (?first + j) (?ws ! j)"
      using word_rows_shows[OF a b c g] by auto
  qed
  have j: "i mod 4 < length ?ws" using n assms(2) unfolding l by linarith
  have "?ws ! (i mod 4) = ws ! i" using j n p by (simp add: window_def)
  then have row: "word_row_shows g (2 + i mod 4) (i + 1) (ws ! i)" using W(2)[OF j] n(1) by simp
  have "2 + i mod 4 \<noteq> 7" using n(2) by linarith
  then have "word_row_shows (put_text 0 7 BACKUP_BACK_LEGEND g) (2 + i mod 4) (i + 1) (ws ! i)"
    using changes_length[OF W(1)] by (intro word_row_keeps[OF row]) simp
  then show ?thesis unfolding backup_render_def page option.case backup_page_kind.case Let_def g by simp
qed

end
