(* ===== verification/Names.thy ===== *)
theory Names
  imports Store Mnemonic
begin

text \<open>
  What the session derives from the identity secret and the device's name on flash
  (\<open>firmware/src/lib.rs\<close>): the tagged hash, \<open>Secrets\<close>, \<open>NameStore\<close>, with
  \<open>FixedString\<close> of \<open>frostsnap_comms/src/fixed_string.rs\<close>. A string is its UTF-8 bytes.
\<close>

subsection \<open>Tagged hashes\<close>

text \<open>What \<open>tagged\<close> feeds the hash: the domain, then each part behind its length as a \<open>u32\<close>.\<close>

definition tagged_transcript :: "bytes \<Rightarrow> bytes list \<Rightarrow> bytes" where
  "tagged_transcript domain parts = domain @ concat (map (\<lambda>part. le_bytes 4 (length part mod u32_lim) @ part) parts)"

definition tagged :: "(bytes \<Rightarrow> bytes) \<Rightarrow> bytes \<Rightarrow> bytes list \<Rightarrow> bytes" where
  "tagged H domain parts = H (tagged_transcript domain parts)"

record secrets =
  sc_seed :: bytes

definition secrets_new :: "bytes \<Rightarrow> secrets" where
  "secrets_new secret = \<lparr>sc_seed = secret\<rparr>"

definition SHARE_DOMAIN :: bytes where "SHARE_DOMAIN = ascii ''coldsnap/share-encryption/v1''"
definition NONCE_DOMAIN :: bytes where "NONCE_DOMAIN = ascii ''coldsnap/nonce-seed/v1''"
definition NAME_DOMAIN :: bytes where "NAME_DOMAIN = ascii ''coldsnap/device-name/v1''"

definition share_key_parts :: "secrets \<Rightarrow> access_structure_ref \<Rightarrow> bytes \<Rightarrow> bytes \<Rightarrow> bytes list" where
  "share_key_parts s r party_index coord_key =
     [sc_seed s, ar_key_id r, ar_access_structure_id r, party_index, coord_key]"

definition get_share_encryption_key ::
  "(bytes \<Rightarrow> bytes) \<Rightarrow> secrets \<Rightarrow> access_structure_ref \<Rightarrow> bytes \<Rightarrow> bytes \<Rightarrow> bytes" where
  "get_share_encryption_key H s r party_index coord_key =
     tagged H SHARE_DOMAIN (share_key_parts s r party_index coord_key)"

definition nonce_seed_parts :: "secrets \<Rightarrow> bytes \<Rightarrow> nat \<Rightarrow> bytes \<Rightarrow> bytes list" where
  "nonce_seed_parts s nonce_stream_id index seed_material =
     [sc_seed s, nonce_stream_id, be_bytes 4 index, seed_material]"

definition derive_nonce_seed :: "(bytes \<Rightarrow> bytes) \<Rightarrow> secrets \<Rightarrow> bytes \<Rightarrow> nat \<Rightarrow> bytes \<Rightarrow> bytes" where
  "derive_nonce_seed H s nonce_stream_id index seed_material =
     tagged H NONCE_DOMAIN (nonce_seed_parts s nonce_stream_id index seed_material)"

subsection \<open>Names of bounded length\<close>

definition DEVICE_NAME_MAX_LENGTH :: nat where "DEVICE_NAME_MAX_LENGTH = 14"

definition chars_of :: "bytes \<Rightarrow> bytes list" where
  "chars_of s = (case utf8_split s of None \<Rightarrow> [] | Some cs \<Rightarrow> cs)"

record string_too_long =
  max_len :: nat
  actual_len :: nat

definition fixed_new :: "nat \<Rightarrow> bytes \<Rightarrow> string_too_long + bytes" where
  "fixed_new n s =
     (let char_count = length (chars_of s) in
      if n < char_count then Inl \<lparr>max_len = n, actual_len = char_count\<rparr> else Inr s)"

definition fixed_truncate :: "nat \<Rightarrow> bytes \<Rightarrow> bytes" where
  "fixed_truncate n s =
     (let char_count = length (chars_of s) in
      if n < char_count then concat (take n (chars_of s)) else s)"

definition fixed_len :: "bytes \<Rightarrow> nat" where
  "fixed_len s = length (chars_of s)"

text \<open>What a \<open>DeviceName\<close> is: a string of at most fourteen characters.\<close>

definition device_name :: "bytes \<Rightarrow> bool" where
  "device_name s \<longleftrightarrow> utf8_valid s \<and> fixed_len s \<le> DEVICE_NAME_MAX_LENGTH"

subsection \<open>The record\<close>

definition DEVICE_NAME_MAX_BYTES :: nat where "DEVICE_NAME_MAX_BYTES = 4 * DEVICE_NAME_MAX_LENGTH"
definition NAME_OFF :: nat where "NAME_OFF = 1"
definition NAME_TAG_OFF :: nat where "NAME_TAG_OFF = 64"
definition NAME_RECORD_LEN :: nat where "NAME_RECORD_LEN = NAME_TAG_OFF + 8"
definition NAME_OFFSET_SECTOR :: nat where "NAME_OFFSET_SECTOR = FS_NAME_OFFSET div SECTOR_SIZE"
definition NAME_SECTORS :: nat where "NAME_SECTORS = FS_NAME_LEN div SECTOR_SIZE"

lemmas name_lens = DEVICE_NAME_MAX_BYTES_def DEVICE_NAME_MAX_LENGTH_def NAME_OFF_def NAME_TAG_OFF_def NAME_RECORD_LEN_def

definition name_tag :: "(bytes \<Rightarrow> bytes) \<Rightarrow> bytes \<Rightarrow> bytes" where
  "name_tag H body = take 8 (tagged H NAME_DOMAIN [body])"

definition name_open :: "ab_slot option" where
  "name_open = ab_new \<lparr>offset_sector = NAME_OFFSET_SECTOR, n_sectors = NAME_SECTORS\<rparr>"

definition name_record :: "(bytes \<Rightarrow> bytes) \<Rightarrow> bytes \<Rightarrow> bytes" where
  "name_record H name =
     (let record = replicate NAME_RECORD_LEN 0;
          record = record[0 := word_of_nat (length name)];
          record = patch record NAME_OFF name;
          tag = name_tag H (take NAME_TAG_OFF record) in
      patch record NAME_TAG_OFF tag)"

definition name_save ::
  "'s nor_ops \<Rightarrow> (bytes \<Rightarrow> bytes) \<Rightarrow> ab_slot \<Rightarrow> bytes \<Rightarrow> 's \<Rightarrow> (store_fault + unit) \<times> 's" where
  "name_save F H ab name s =
     (if DEVICE_NAME_MAX_BYTES < length name then (Inl TooBig, s)
      else (case ab_try_write F (array_codec NAME_RECORD_LEN) ab (name_record H name) s of
              (Committed, s') \<Rightarrow> (Inr (), s')
            | (CommittedSingleCopy _, s') \<Rightarrow> (Inr (), s')
            | (NotCommitted e, s') \<Rightarrow> (Inl (SFlash e), s')))"

definition name_parse :: "(bytes \<Rightarrow> bytes) \<Rightarrow> bytes \<Rightarrow> bytes option" where
  "name_parse H record =
     (let body = take NAME_TAG_OFF record; tag = drop NAME_TAG_OFF record in
      if tag \<noteq> name_tag H body then None
      else (let len = unat (record ! 0) in
        if DEVICE_NAME_MAX_BYTES < len then None
        else (let bs = window body NAME_OFF len in if utf8_valid bs then Some bs else None)))"

definition name_load :: "'s nor_ops \<Rightarrow> (bytes \<Rightarrow> bytes) \<Rightarrow> ab_slot \<Rightarrow> 's \<Rightarrow> bytes option" where
  "name_load F H ab s =
     (case ab_read F (array_codec NAME_RECORD_LEN) ab s of
        None \<Rightarrow> None
      | Some record \<Rightarrow> name_parse H record)"

subsection \<open>Transcripts are read one way\<close>

lemma parts_inject:
  assumes "\<forall>p \<in> set ps. length p < u32_lim" "\<forall>q \<in> set qs. length q < u32_lim"
    "concat (map (\<lambda>part. le_bytes 4 (length part mod u32_lim) @ part) ps) =
     concat (map (\<lambda>part. le_bytes 4 (length part mod u32_lim) @ part) qs)"
  shows "ps = qs"
  using assms
proof (induction ps arbitrary: qs)
  case Nil
  have "le_bytes 4 n \<noteq> []" for n using length_le_bytes[of 4 n] by (metis list.size(3) zero_neq_numeral)
  then show ?case using Nil by (cases qs) auto
next
  case (Cons p ps)
  have ne: "le_bytes 4 n \<noteq> []" for n using length_le_bytes[of 4 n] by (metis list.size(3) zero_neq_numeral)
  show ?case
  proof (cases qs)
    case Nil
    then show ?thesis using Cons.prems(3) ne by simp
  next
    case (Cons q qs')
    have "le_bytes 4 (length p) = le_bytes 4 (length q) \<and>
        p @ concat (map (\<lambda>part. le_bytes 4 (length part mod u32_lim) @ part) ps) =
        q @ concat (map (\<lambda>part. le_bytes 4 (length part mod u32_lim) @ part) qs')"
      using Cons.prems unfolding Cons by (simp add: append_eq_append_conv)
    moreover have "length p < 256 ^ 4" "length q < 256 ^ 4"
      using Cons.prems(1,2) unfolding Cons by (simp_all add: u32_lim_def)
    ultimately have "length p = length q" by (metis le_bytes_inject)
    then show ?thesis using \<open>_ \<and> _\<close> Cons.IH[of qs'] Cons.prems unfolding Cons by simp
  qed
qed

lemma tagged_transcript_inject:
  assumes "tagged_transcript d ps = tagged_transcript e qs" "d \<in> {SHARE_DOMAIN, NONCE_DOMAIN, NAME_DOMAIN}"
    "e \<in> {SHARE_DOMAIN, NONCE_DOMAIN, NAME_DOMAIN}"
    "\<forall>p \<in> set ps. length p < u32_lim" "\<forall>q \<in> set qs. length q < u32_lim"
  shows "d = e \<and> ps = qs"
proof -
  have pre: "take 11 (tagged_transcript d ps) = take 11 d" "take 11 (tagged_transcript e qs) = take 11 e"
    using assms(2,3) by (auto simp: tagged_transcript_def SHARE_DOMAIN_def NONCE_DOMAIN_def NAME_DOMAIN_def ascii_def)
  have "take 11 d = take 11 e \<Longrightarrow> d = e"
    using assms(2,3) by (auto simp: SHARE_DOMAIN_def NONCE_DOMAIN_def NAME_DOMAIN_def ascii_def)
  then have "d = e" using pre assms(1) by simp
  then show ?thesis using assms(1,4,5) by (auto simp: tagged_transcript_def intro: parts_inject)
qed

subsection \<open>Reading a record back\<close>

lemma name_nums:
  "DEVICE_NAME_MAX_BYTES = 56" "DEVICE_NAME_MAX_LENGTH = 14" "NAME_OFF = 1" "NAME_TAG_OFF = 64" "NAME_RECORD_LEN = 72"
  by (simp_all add: name_lens)

lemma name_tag_length: "hash_ok H \<Longrightarrow> length (name_tag H body) = 8"
  by (simp add: name_tag_def tagged_def hash_ok_def)

lemma name_record_parts:
  assumes "hash_ok H" "length name \<le> 56"
  shows "name_record H name =
    (word_of_nat (length name) # name @ replicate (63 - length name) 0) @
    name_tag H (word_of_nat (length name) # name @ replicate (63 - length name) 0)"
proof -
  let ?n = "length name"
  have "(replicate 72 (0 :: u8))[0 := word_of_nat ?n] = word_of_nat ?n # replicate 71 0"
    by (simp add: eval_nat_numeral)
  moreover have "patch (word_of_nat ?n # replicate 71 0) 1 name = word_of_nat ?n # name @ replicate (71 - ?n) 0"
    by (simp add: patch_def)
  moreover have "replicate (71 - ?n) (0 :: u8) = replicate (63 - ?n) 0 @ replicate 8 0"
    using assms(2) by (simp add: replicate_add[symmetric])
  ultimately show ?thesis using assms(2) name_tag_length[OF assms(1)]
    by (simp add: name_record_def Let_def name_nums patch_def)
qed

lemma name_record_length: "hash_ok H \<Longrightarrow> length name \<le> 56 \<Longrightarrow> length (name_record H name) = 72"
  by (simp add: name_record_parts name_tag_length)

lemma name_parse_record:
  assumes "hash_ok H" "length name \<le> 56" "utf8_valid name"
  shows "name_parse H (name_record H name) = Some name"
proof -
  let ?b = "word_of_nat (length name) # name @ replicate (63 - length name) (0 :: u8)"
  have l: "length ?b = 64" using assms(2) by simp
  have n: "unat (word_of_nat (length name) :: u8) = length name" using assms(2) by (simp add: unat_of_nat take_bit_nat_eq_self)
  have w: "window ?b 1 (length name) = name" by (simp add: window_def)
  show ?thesis unfolding name_parse_def name_record_parts[OF assms(1,2)] name_nums Let_def
    using assms l n w by (simp add: nth_append)
qed

lemma name_parse_valid: "name_parse H record = Some name \<Longrightarrow> utf8_valid name \<and> length name \<le> 56"
  by (auto simp: name_parse_def name_nums Let_def window_def split: if_splits)

text \<open>Fourteen characters are at most fifty-six bytes, so every device name fits.\<close>

lemma device_name_fits:
  assumes "device_name s"
  shows "length s \<le> 56"
proof -
  obtain cs where cs: "utf8_split s = Some cs" using assms by (auto simp: device_name_def utf8_valid_def)
  then have "concat cs = s" "\<forall>c \<in> set cs. length c \<le> 4" "length cs \<le> 14"
    using utf8_split_Some[OF cs] utf8_char_length assms
    by (auto simp: device_name_def fixed_len_def chars_of_def DEVICE_NAME_MAX_LENGTH_def)
  then show ?thesis using concat_length_le[of cs] by simp
qed

lemma fixed_truncate_name:
  assumes "utf8_valid s"
  shows "device_name (fixed_truncate DEVICE_NAME_MAX_LENGTH s)" "device_name s \<Longrightarrow> fixed_truncate DEVICE_NAME_MAX_LENGTH s = s"
proof -
  obtain cs where cs: "utf8_split s = Some cs" using assms by (auto simp: utf8_valid_def)
  note ch = utf8_split_Some[OF cs]
  have "\<forall>c \<in> set (take DEVICE_NAME_MAX_LENGTH cs). utf8_char c" using ch by (auto dest: in_set_takeD)
  from utf8_split_concat[OF this] cs show "device_name (fixed_truncate DEVICE_NAME_MAX_LENGTH s)"
    by (auto simp: device_name_def fixed_truncate_def fixed_len_def chars_of_def utf8_valid_def Let_def)
  show "device_name s \<Longrightarrow> fixed_truncate DEVICE_NAME_MAX_LENGTH s = s"
    by (simp add: device_name_def fixed_truncate_def fixed_len_def Let_def)
qed

subsection \<open>Saving\<close>

sublocale nor_flash_atomic \<subseteq> name_slot: ab_store_atomic F mem "array_codec 72" "\<lambda>bs. length bs = 72"
  by unfold_locales

context nor_flash_atomic
begin

text \<open>A record is one write buffer, so whatever the flash refuses the name is the new one or the old.\<close>

lemma name_saved_or_kept:
  assumes "ab_ok (length (mem s)) ab" "hash_ok H" "utf8_valid name" "name_save F H ab name s = (res, s')"
  shows "name_load F H ab s' = (if res = Inr () then Some name else name_load F H ab s)"
proof (cases "length name \<le> 56")
  case False
  then show ?thesis using assms(4) by (auto simp: name_save_def name_nums)
next
  case True
  obtain out t where w: "ab_try_write F (array_codec 72) ab (name_record H name) s = (out, t)" by fastforce
  have res: "s' = t" "res = Inr () \<longleftrightarrow> is_committed out"
    using assms(4) w True by (auto simp: name_save_def name_nums split: ab_outcome.splits)
  have len: "length (name_record H name) = 72" by (rule name_record_length[OF assms(2) True])
  have "ab_read F (array_codec 72) ab t = (if is_committed out then Some (name_record H name) else ab_read F (array_codec 72) ab s)"
    by (rule name_slot.one_buffer_atomic[OF assms(1) _ len w]) (simp add: len)
  then show ?thesis using res name_parse_record[OF assms(2) True assms(3)] by (simp add: name_load_def name_nums)
qed

end

subsection \<open>On the shipped flash\<close>

lemma name_open_slots:
  "name_open = Some \<lparr>slot_a = \<lparr>offset_sector = 14, n_sectors = 2\<rparr>,
                     slot_b = \<lparr>offset_sector = 16, n_sectors = 2\<rparr>\<rparr>"
  by (simp add: name_open_def ab_new_def split_off_end_def NAME_OFFSET_SECTOR_def NAME_SECTORS_def
      FS_NAME_OFFSET_def FS_NAME_LEN_def FS_SHARE_LEN_def FS_SHARE_OFFSET_def FS_NONCE_OFFSET_def FS_IDENTITY_OFFSET_def
      FS_IDENTITY_LEN_def FS_NONCE_LEN_def SECTOR_SIZE_def Let_def u32_add_def u32_lim_def)

lemma name_slots_ok:
  assumes "name_open = Some ab" "FLASH_FS_LEN \<le> cap" "cap \<le> u32_max"
  shows "ab_ok cap ab"
  using assms by (auto simp: name_open_slots ab_ok_def part_ok_def disjoint_parts_def
      part_base_def part_size_def FLASH_FS_LEN_def u32_max_def)

end
