(* ===== verification/Consent.thy ===== *)
theory Consent
  imports Names PagesCorrect
begin

text \<open>
  What the owner is asked (\<open>firmware/src/lib.rs\<close>): the messages for the user, of
  \<open>frostsnap_core/src/device/device_to_user.rs\<close> and \<open>restoration.rs\<close>, and
  \<open>prompt_screen_at\<close>, which draws one and says whether it can be confirmed. What the session
  passes on unread is of type \<open>'x\<close>. The address of a script and the recipients and fee of a
  transaction are functions of \<open>rust-bitcoin\<close> and arrive computed.
\<close>

subsection \<open>Messages for the user\<close>

record 'x keygen_phase3 =
  k3_threshold :: nat
  k3_parties :: nat
  k3_session_hash :: bytes
  k3_key_name :: code_points
  k3_rest :: 'x

datatype 'x sign_task = TestTask code_points | NostrTask 'x | BitcoinTask 'x

record 'x sign_phase1 =
  s1_sign_task :: "'x sign_task"
  s1_rest :: 'x

record 'x backup_display_phase =
  bd_access_structure_ref :: access_structure_ref
  bd_share_index :: nat
  bd_rest :: 'x

record 'x consolidate_phase =
  cp_key_name :: code_points
  cp_share_index :: nat
  cp_threshold :: nat
  cp_rest :: 'x

datatype 'x to_user_restoration =
    EnterBackup bytes
  | BackupSaved 'x
  | ConsolidateBackup "'x consolidate_phase"
  | DisplayBackup code_points "'x backup_display_phase"
  | CheckBackup code_points "'x backup_display_phase"

datatype 'x prompt =
    FinalizeKeyGen code_points
  | CheckKeyGen "'x keygen_phase3"
  | SignatureRequest "'x sign_phase1"
  | VerifyAddress code_points nat
  | UserRestoration "'x to_user_restoration"
  | NonceJobs 'x

datatype session_refusal = FirmwareUpgrade | DataErase | GenuineChallenge | RefuseDisplayBackup | RefusePhysicalBackup
  | AddressVerify | GroupTooLarge | Undisplayable

datatype shown = ShownNothing | ShownInfo | ShownPage bool

subsection \<open>Consent screens\<close>

definition REVEAL_QUESTION :: code_points where "REVEAL_QUESTION = str ''Reveal backup?''"
definition CHECK_QUESTION :: code_points where "CHECK_QUESTION = str ''Check backup?''"

text \<open>The lines of a question, every other row: whether each was drawn to its last character.\<close>

fun consent_lines :: "nat \<Rightarrow> code_points list \<Rightarrow> frame \<Rightarrow> bool \<times> frame" where
  "consent_lines row [] f = (True, f)"
| "consent_lines row (line # lines) f =
     (case frame_text 0 (row * 2) line f of
        (n, f') \<Rightarrow> (case consent_lines (row + 1) lines f' of (whole, f'') \<Rightarrow> (n = length line \<and> whole, f'')))"

definition consent_screen :: "code_points list \<Rightarrow> nat \<Rightarrow> frame \<Rightarrow> bool \<times> frame" where
  "consent_screen lines confirm f =
     (case consent_lines 0 lines (frame_clear f) of
        (whole, f) \<Rightarrow>
          let legend = push_str 16 (str '') x=no'') (push_str 16 [confirm] (push_str 16 (str ''Press ('') buf_new)) in
          (whole \<and> \<not> tb_truncated legend, put_text 0 7 (tb_text legend) f))"

definition backup_consent :: "code_points \<Rightarrow> code_points \<Rightarrow> nat \<Rightarrow> nat \<Rightarrow> frame \<Rightarrow> bool \<times> frame" where
  "backup_consent question key_name share_index confirm f =
     (let what = push_u64 16 share_index (push_str 16 (str ''share #'') buf_new) in
      if tb_truncated what then (False, f)
      else consent_screen [question, key_name, tb_text what, str ''SECRET on glass''] confirm f)"

definition entry_consent :: "nat \<Rightarrow> frame \<Rightarrow> bool \<times> frame" where
  "entry_consent confirm f =
     (let ws = push_str 16 (str '' words'') (push_u64 16 SHOWN_WORDS buf_new) in
      consent_screen [str ''Type a backup?'', tb_text ws, str ''onto THIS device'', str ''SECRET on glass''] confirm f)"

definition consolidate_consent :: "code_points \<Rightarrow> nat \<Rightarrow> nat \<Rightarrow> nat \<Rightarrow> frame \<Rightarrow> bool \<times> frame" where
  "consolidate_consent key_name share_index threshold confirm f =
     (let what = push_str 16 (str ''-of-n'') (push_u64 16 threshold (push_str 16 (str '' of '')
                   (push_u64 16 share_index (push_str 16 (str ''#'') buf_new)))) in
      if tb_truncated what then (False, f)
      else consent_screen [str ''Store share?'', key_name, tb_text what, str ''REPLACES stored''] confirm f)"

definition try_u32 :: "nat \<Rightarrow> nat option" where
  "try_u32 share_index = (if share_index < u32_lim then Some share_index else None)"

subsection \<open>Signing requests\<close>

text \<open>
  \<open>sign_consent\<close> gives its pages to a closure; here they are the result. \<open>ask\<close> is
  \<open>user_prompt\<close> of the transaction on its network.
\<close>

definition sign_consent :: "('x \<Rightarrow> (recipient list \<times> nat) option) \<Rightarrow> 'x sign_task \<Rightarrow> session_refusal + sign_pages option" where
  "sign_consent ask task =
     (case task of
        TestTask _ \<Rightarrow> Inr None
      | NostrTask _ \<Rightarrow> Inl Undisplayable
      | BitcoinTask tx \<Rightarrow>
         (case ask tx of
            None \<Rightarrow> Inl Undisplayable
          | Some (recipients, fee) \<Rightarrow>
             (case sign_pages_new recipients fee of
                Inl _ \<Rightarrow> Inl Undisplayable
              | Inr pages \<Rightarrow> Inr (Some pages))))"

definition sign_task_page ::
  "('x \<Rightarrow> (recipient list \<times> nat) option) \<Rightarrow> 'x sign_task \<Rightarrow> nat \<Rightarrow> nat \<Rightarrow> frame \<Rightarrow> (session_refusal + shown) \<times> frame" where
  "sign_task_page ask task confirm page f =
     (case sign_consent ask task of
        Inl refused \<Rightarrow> (Inl refused, f)
      | Inr None \<Rightarrow> (Inl Undisplayable, f)
      | Inr (Some pages) \<Rightarrow>
         (let pages = confirming confirm pages in
          case sign_render pages page f of
            (True, f') \<Rightarrow> (Inr (ShownPage (is_last pages page)), f')
          | (False, f') \<Rightarrow> (Inl Undisplayable, f')))"

text \<open>A question on its only page.\<close>

definition one_question :: "session_refusal \<Rightarrow> bool \<times> frame \<Rightarrow> (session_refusal + shown) \<times> frame" where
  "one_question refused asked =
     (case asked of (True, f) \<Rightarrow> (Inr (ShownPage True), f) | (False, f) \<Rightarrow> (Inl refused, f))"

definition restoration_screen ::
  "'x to_user_restoration \<Rightarrow> nat \<Rightarrow> nat \<Rightarrow> frame \<Rightarrow> (session_refusal + shown) \<times> frame" where
  "restoration_screen restoration confirm page f =
     (case restoration of
        DisplayBackup key_name phase \<Rightarrow>
         (case try_u32 (bd_share_index phase) of
            Some index \<Rightarrow>
              if page = 0 then one_question RefuseDisplayBackup (backup_consent REVEAL_QUESTION key_name index confirm f)
              else (Inl RefuseDisplayBackup, f)
          | None \<Rightarrow> (Inl RefuseDisplayBackup, f))
      | CheckBackup key_name phase \<Rightarrow>
         (case try_u32 (bd_share_index phase) of
            Some index \<Rightarrow>
              if page = 0 then one_question RefuseDisplayBackup (backup_consent CHECK_QUESTION key_name index confirm f)
              else (Inl RefuseDisplayBackup, f)
          | None \<Rightarrow> (Inl RefuseDisplayBackup, f))
      | EnterBackup _ \<Rightarrow>
          if page = 0 then one_question RefusePhysicalBackup (entry_consent confirm f) else (Inr ShownNothing, f)
      | ConsolidateBackup phase \<Rightarrow>
          if page = 0
          then (case try_u32 (cp_share_index phase) of
                  Some index \<Rightarrow> one_question RefusePhysicalBackup
                    (consolidate_consent (cp_key_name phase) index (cp_threshold phase) confirm f)
                | None \<Rightarrow> (Inl RefusePhysicalBackup, f))
          else (Inr ShownNothing, f)
      | BackupSaved _ \<Rightarrow> (Inr ShownNothing, f))"

definition prompt_screen_at ::
  "('x \<Rightarrow> (recipient list \<times> nat) option) \<Rightarrow> 'x prompt \<Rightarrow> nat \<Rightarrow> nat \<Rightarrow> frame \<Rightarrow> (session_refusal + shown) \<times> frame" where
  "prompt_screen_at ask prompt confirm page f =
     (case (case prompt of
              CheckKeyGen phase \<Rightarrow>
                (Inr (ShownPage True),
                 keygen_check (k3_threshold phase) (k3_parties phase) (take 4 (k3_session_hash phase)) (k3_key_name phase) confirm f)
            | SignatureRequest phase \<Rightarrow>
               (case s1_sign_task phase of
                  TestTask message \<Rightarrow>
                   (case sign_test_message_confirm message confirm f of
                      (Inr _, f) \<Rightarrow> (Inr (ShownPage True), f)
                    | (Inl _, f) \<Rightarrow> (Inl Undisplayable, f))
                | _ \<Rightarrow> sign_task_page ask (s1_sign_task phase) confirm page f)
            | UserRestoration restoration \<Rightarrow> restoration_screen restoration confirm page f
            | VerifyAddress address index \<Rightarrow>
               (let label = push_u64 16 index (push_str 16 (str ''Recv #'') buf_new) in
                case address_verify address (tb_text label) index f of
                  (Inr _, f) \<Rightarrow> (Inr ShownInfo, f)
                | (Inl _, f) \<Rightarrow> (Inl Undisplayable, f))
            | FinalizeKeyGen _ \<Rightarrow> (Inr ShownNothing, f)
            | NonceJobs _ \<Rightarrow> (Inr ShownNothing, f)) of
        (Inl refused, f) \<Rightarrow> (Inl refused, refusal_page f)
      | (Inr s, f) \<Rightarrow> (Inr s, f))"

definition prompt_screen ::
  "('x \<Rightarrow> (recipient list \<times> nat) option) \<Rightarrow> 'x prompt \<Rightarrow> nat \<Rightarrow> frame \<Rightarrow> (session_refusal + bool) \<times> frame" where
  "prompt_screen ask prompt confirm f =
     (case prompt_screen_at ask prompt confirm 0 f of
        (Inl refused, f) \<Rightarrow> (Inl refused, f)
      | (Inr s, f) \<Rightarrow> (Inr (s = ShownPage True), f))"

end
