(* ===== verification/Outbox.thy ===== *)
theory Outbox
  imports Names Comms
begin

text \<open>
  What the session sends (\<open>Outbox\<close> of \<open>firmware/src/lib.rs\<close>): device messages, each a frame
  of the coordinator link. The encoder of a frame is a parameter, as in \<open>Comms\<close>, and stamps it
  with the device's id, which an outbox never changes; \<open>'x\<close> is
  what the session passes on without looking at it.
\<close>

definition DEBUG_MESSAGE_LIMIT :: nat where "DEBUG_MESSAGE_LIMIT = 256"

datatype 'x core_reply = NonceResponse "'x list" | OtherReply 'x

text \<open>\<open>OtherBody\<close> stands for the variants the session never sends.\<close>

datatype 'x dev_body = DevCore "'x core_reply" | DebugMessage bytes | Announce bytes | SetName bytes | NeedName
  | BackupRecorded | BackupChecked access_structure_ref nat | OtherBody 'x

record outbox =
  ob_bytes :: bytes
  ob_frames :: nat

definition outbox_new :: outbox where
  "outbox_new = \<lparr>ob_bytes = [], ob_frames = 0\<rparr>"

definition outbox_take :: "outbox \<Rightarrow> bytes \<times> outbox" where
  "outbox_take ob = (ob_bytes ob, ob\<lparr>ob_bytes := [], ob_frames := 0\<rparr>)"

definition is_char_boundary :: "bytes \<Rightarrow> nat \<Rightarrow> bool" where
  "is_char_boundary s i \<longleftrightarrow>
     (if i = 0 then True else if length s \<le> i then i = length s else \<not> is_cont (s ! i))"

text \<open>The walk down to a boundary; zero is one.\<close>

fun boundary_below :: "bytes \<Rightarrow> nat \<Rightarrow> nat" where
  "boundary_below s 0 = 0"
| "boundary_below s (Suc i) = (if is_char_boundary s (Suc i) then Suc i else boundary_below s i)"

definition truncate_debug :: "bytes \<Rightarrow> bytes" where
  "truncate_debug message =
     (if length message \<le> DEBUG_MESSAGE_LIMIT then message
      else take (boundary_below message DEBUG_MESSAGE_LIMIT) message)"

definition outbox_encode :: "('x dev_body \<Rightarrow> bytes option) \<Rightarrow> 'x dev_body \<Rightarrow> outbox \<Rightarrow> (comms_error + unit) \<times> outbox" where
  "outbox_encode E body ob =
     (case encode_frame E body of
        Inl e \<Rightarrow> (Inl e, ob)
      | Inr frame \<Rightarrow> (Inr (), ob\<lparr>ob_bytes := ob_bytes ob @ frame, ob_frames := ob_frames ob + 1\<rparr>))"

fun push_segments :: "('x dev_body \<Rightarrow> bytes option) \<Rightarrow> 'x list \<Rightarrow> outbox \<Rightarrow> (comms_error + unit) \<times> outbox" where
  "push_segments E [] ob = (Inr (), ob)"
| "push_segments E (segment # segments) ob =
     (case outbox_encode E (DevCore (NonceResponse [segment])) ob of
        (Inl e, ob) \<Rightarrow> (Inl e, ob)
      | (Inr _, ob) \<Rightarrow> push_segments E segments ob)"

definition outbox_push :: "('x dev_body \<Rightarrow> bytes option) \<Rightarrow> 'x dev_body \<Rightarrow> outbox \<Rightarrow> (comms_error + unit) \<times> outbox" where
  "outbox_push E body ob =
     (case body of
        DevCore (NonceResponse segments) \<Rightarrow>
          if 1 < length segments then push_segments E segments ob else outbox_encode E body ob
      | DebugMessage message \<Rightarrow> outbox_encode E (DebugMessage (truncate_debug message)) ob
      | _ \<Rightarrow> outbox_encode E body ob)"

subsection \<open>What a push adds\<close>

text \<open>The messages a body leaves as.\<close>

definition sent_as :: "'x dev_body \<Rightarrow> 'x dev_body list" where
  "sent_as body =
     (case body of
        DevCore (NonceResponse segments) \<Rightarrow>
          if 1 < length segments then map (\<lambda>segment. DevCore (NonceResponse [segment])) segments else [body]
      | DebugMessage message \<Rightarrow> [DebugMessage (truncate_debug message)]
      | _ \<Rightarrow> [body])"

definition frame_of :: "('x dev_body \<Rightarrow> bytes option) \<Rightarrow> 'x dev_body \<Rightarrow> bytes" where
  "frame_of E body = (case E body of None \<Rightarrow> [] | Some bs \<Rightarrow> bs)"

definition fits_frame :: "('x dev_body \<Rightarrow> bytes option) \<Rightarrow> 'x dev_body \<Rightarrow> bool" where
  "fits_frame E body \<longleftrightarrow> (\<exists>bs. E body = Some bs \<and> length bs \<le> FRAME_LIMIT)"

definition appended :: "('x dev_body \<Rightarrow> bytes option) \<Rightarrow> 'x dev_body list \<Rightarrow> outbox \<Rightarrow> outbox \<Rightarrow> bool" where
  "appended E bodies ob ob' \<longleftrightarrow> ob_bytes ob' = ob_bytes ob @ concat (map (frame_of E) bodies) \<and>
     ob_frames ob' = ob_frames ob + length bodies \<and> (\<forall>body \<in> set bodies. fits_frame E body)"

lemma appended_refl [simp]: "appended E [] ob ob"
  by (simp add: appended_def)

lemma appended_trans: "appended E xs a b \<Longrightarrow> appended E ys b c \<Longrightarrow> appended E (xs @ ys) a c"
  by (auto simp: appended_def)

lemma encode_appends:
  "outbox_encode E body ob = (res, ob') \<Longrightarrow>
   (case res of Inr _ \<Rightarrow> appended E [body] ob ob' | Inl _ \<Rightarrow> ob' = ob \<and> \<not> fits_frame E body)"
  by (auto simp: outbox_encode_def encode_frame_def appended_def frame_of_def fits_frame_def
      split: option.splits if_splits)

lemma push_segments_appends:
  "push_segments E segments ob = (res, ob') \<Longrightarrow>
   \<exists>n \<le> length segments. appended E (map (\<lambda>segment. DevCore (NonceResponse [segment])) (take n segments)) ob ob' \<and>
     (case res of Inr _ \<Rightarrow> n = length segments
      | Inl _ \<Rightarrow> n < length segments \<and> \<not> fits_frame E (DevCore (NonceResponse [segments ! n])))"
proof (induction segments arbitrary: ob)
  case Nil
  then show ?case by (intro exI[of _ 0]) auto
next
  case (Cons segment segments)
  obtain r1 ob1 where e: "outbox_encode E (DevCore (NonceResponse [segment])) ob = (r1, ob1)" by fastforce
  note E = encode_appends[OF e]
  show ?case
  proof (cases r1)
    case (Inl err)
    then show ?thesis using E e Cons.prems by (intro exI[of _ 0]) auto
  next
    case (Inr u)
    then have "push_segments E segments ob1 = (res, ob')" using e Cons.prems by simp
    then obtain n where n: "n \<le> length segments"
      "appended E (map (\<lambda>segment. DevCore (NonceResponse [segment])) (take n segments)) ob1 ob'"
      "case res of Inr _ \<Rightarrow> n = length segments
       | Inl _ \<Rightarrow> n < length segments \<and> \<not> fits_frame E (DevCore (NonceResponse [segments ! n]))"
      using Cons.IH by blast
    have "appended E [DevCore (NonceResponse [segment])] ob ob1" using E Inr by simp
    from appended_trans[OF this n(2)] n(1,3) show ?thesis
      by (intro exI[of _ "Suc n"]) (auto split: sum.splits)
  qed
qed

text \<open>A push that succeeds leaves every message it stands for; one that fails leaves a prefix of them.\<close>

lemma push_appends:
  assumes "outbox_push E body ob = (res, ob')"
  shows "\<exists>n \<le> length (sent_as body). appended E (take n (sent_as body)) ob ob' \<and>
    (case res of Inr _ \<Rightarrow> n = length (sent_as body) | Inl _ \<Rightarrow> n < length (sent_as body) \<and> \<not> fits_frame E (sent_as body ! n))"
proof -
  have single: "\<exists>n \<le> length [b]. appended E (take n [b]) ob ob' \<and>
      (case res of Inr _ \<Rightarrow> n = length [b] | Inl _ \<Rightarrow> n < length [b] \<and> \<not> fits_frame E ([b] ! n))"
    if "outbox_encode E b ob = (res, ob')" for b
    using encode_appends[OF that] by (cases res) (auto intro: exI[of _ 0] exI[of _ 1])
  show ?thesis
  proof (cases "\<exists>segments. body = DevCore (NonceResponse segments) \<and> 1 < length segments")
    case True
    then obtain segments where b: "body = DevCore (NonceResponse segments)" "1 < length segments" by blast
    then have "push_segments E segments ob = (res, ob')" using assms by (simp add: outbox_push_def)
    then obtain n where n: "n \<le> length segments"
      "appended E (map (\<lambda>segment. DevCore (NonceResponse [segment])) (take n segments)) ob ob'"
      "case res of Inr _ \<Rightarrow> n = length segments
       | Inl _ \<Rightarrow> n < length segments \<and> \<not> fits_frame E (DevCore (NonceResponse [segments ! n]))"
      using push_segments_appends by blast
    then show ?thesis using b by (intro exI[of _ n]) (auto simp: sent_as_def take_map split: sum.splits)
  next
    case False
    then have "outbox_encode E (hd (sent_as body)) ob = (res, ob')" "sent_as body = [hd (sent_as body)]"
      using assms by (auto simp: outbox_push_def sent_as_def split: dev_body.splits core_reply.splits if_splits)
    then show ?thesis using single by metis
  qed
qed

text \<open>The cut of a debug message: the longest prefix within the limit that ends between characters.\<close>

lemma boundary_below_spec:
  "boundary_below s i \<le> i \<and> is_char_boundary s (boundary_below s i) \<and>
   (\<forall>j. boundary_below s i < j \<and> j \<le> i \<longrightarrow> \<not> is_char_boundary s j)"
proof (induction i)
  case 0
  then show ?case by (auto simp: is_char_boundary_def)
next
  case (Suc i)
  then show ?case by (auto simp: le_Suc_eq)
qed

end
