(* ===== verification/Session.thy ===== *)
theory Session
  imports NonceSlots Consent Outbox WordEntry Quiz WordList
begin

text \<open>
  The session (\<open>firmware/src/lib.rs\<close>): what one connection to the coordinator may do to the
  device. It owns the signer, the share and name stores, a backup on show, a backup being typed and
  a quiz, and it turns coordinator messages, the owner's consent and keys into frames. The signer's
  message handlers, its secrets and the address of a script are the fields of \<open>deps\<close>, about
  which nothing is assumed; they may change the signer and the flash it shares.
\<close>

definition MAX_PARTIES :: nat where "MAX_PARTIES = 12"

datatype 'e fault = IdentityScalar | FaultComms comms_error | FaultSigner 'e | FaultAction 'e
  | FaultRefused session_refusal | NotConfirmable | FaultStore store_fault | Panicked

datatype 'x core_msg =
    KeygenBegin nat nat 'x
  | KeygenMsg 'x
  | SigningMsg 'x
  | RestorationMsg 'x
  | ScreenVerify 'x nat

datatype name_command = Preview bytes | RetiredPrompt bytes

datatype 'x coordinator_body =
    CoordCore "'x core_msg"
  | Naming name_command
  | AnnounceAck
  | Cancel
  | UpgradeBody 'x
  | DataEraseBody
  | ChallengeBody 'x

datatype 'x device_send = ToCoordinator "'x core_reply" | ToUser "'x prompt"

text \<open>
  What a session is built over. \<open>dp_nonce_jobs\<close> is \<open>run_until_finished\<close> and
  \<open>into_segments\<close> of a batch, \<open>dp_signer\<close> is \<open>FrostSigner::new\<close> on the key pair of the
  scalar and the nonce slots, \<open>dp_decrypt\<close> is \<open>decrypt_to_backup\<close>,
  \<open>dp_address\<close> the script and address of a derivation on a network.
\<close>

record ('s, 'f, 'r, 'x, 'e) deps =
  dp_flash :: "'f nor_ops"
  dp_hash :: "bytes \<Rightarrow> bytes"
  dp_cenc :: "coded \<Rightarrow> bytes"
  dp_cdec :: "bytes \<Rightarrow> (coded \<times> nat) option"
  dp_rng :: "'r \<Rightarrow> u32 \<times> 'r"
  dp_encode :: "'x dev_body \<Rightarrow> bytes option"
  dp_ask :: "'x \<Rightarrow> (recipient list \<times> nat) option"
  dp_decrypt :: "secrets \<Rightarrow> 'x backup_display_phase \<Rightarrow> 'e + share_backup"
  dp_nonce_jobs :: "secrets \<Rightarrow> 'x \<Rightarrow> 'x list"
  dp_address :: "'x \<Rightarrow> nat \<Rightarrow> 'x \<Rightarrow> code_points option"
  dp_signer :: "bytes \<Rightarrow> ab_slot list \<Rightarrow> 's"
  dp_apply :: "mutation \<Rightarrow> 's \<Rightarrow> 's"
  dp_staged :: "'s \<Rightarrow> mutation list"
  dp_set_staged :: "mutation list \<Rightarrow> 's \<Rightarrow> 's"
  dp_clear_tmp :: "'s \<Rightarrow> 's"
  dp_network :: "'x \<Rightarrow> 's \<Rightarrow> 'x option"
  dp_recv :: "'x core_msg \<Rightarrow> 's \<Rightarrow> 'f \<Rightarrow> 'r \<Rightarrow> ('e + 'x device_send list) \<times> 's \<times> 'f \<times> 'r"
  dp_keygen_ack :: "'x keygen_phase3 \<Rightarrow> secrets \<Rightarrow> 's \<Rightarrow> 'f \<Rightarrow> 'r \<Rightarrow> ('e + 'x device_send list) \<times> 's \<times> 'f \<times> 'r"
  dp_sign_ack :: "'x sign_phase1 \<Rightarrow> secrets \<Rightarrow> 's \<Rightarrow> 'f \<Rightarrow> ('e + 'x device_send list) \<times> 's \<times> 'f"
  dp_consolidate :: "'x consolidate_phase \<Rightarrow> secrets \<Rightarrow> 's \<Rightarrow> 'f \<Rightarrow> 'r \<Rightarrow> 'x device_send list \<times> 's \<times> 'f \<times> 'r"
  dp_tell_backup :: "bytes \<Rightarrow> share_backup \<Rightarrow> 's \<Rightarrow> 'x device_send list \<times> 's"

record backup_checking =
  ck_quiz :: quiz
  ck_access_structure_ref :: access_structure_ref
  ck_share_index :: nat

record ('s, 'f, 'x) session =
  ss_signer :: 's
  ss_flash :: 'f
  ss_coordinator_acked :: bool
  ss_secrets :: secrets
  ss_shares :: ab_slot
  ss_names :: ab_slot
  ss_pending_name :: "bytes option"
  ss_reveal :: "'x backup_display_phase option"
  ss_record_pending :: bool
  ss_seen_pages :: u32
  ss_entry :: "entry option"
  ss_check :: "backup_checking option"

subsection \<open>Opening, and what is said first\<close>

text \<open>\<open>None\<close> is the panic of \<open>AbSlot::new\<close> on a partition it cannot halve.\<close>

definition session_open :: "('s, 'f, 'r, 'x, 'e) deps \<Rightarrow> bytes \<Rightarrow> 'f \<Rightarrow> ('e fault + ('s, 'f, 'x) session) option" where
  "session_open D secret f =
     (if \<not> scalar_is_in_range secret then Some (Inl IdentityScalar)
      else (case (load_slots \<lparr>offset_sector = NONCE_OFFSET_SECTOR, n_sectors = NONCE_SECTORS\<rparr>, store_open, name_open) of
        (Some slots, Some shares, Some names) \<Rightarrow>
          (let signer = dp_signer D secret slots;
               signer = (case store_load (dp_flash D) (dp_hash D) (dp_cdec D) shares f of
                   SShare reload \<Rightarrow> fold (dp_apply D) (reload_mutations reload) signer
                 | _ \<Rightarrow> signer) in
           Some (Inr \<lparr>ss_signer = signer, ss_flash = f, ss_coordinator_acked = False,
             ss_secrets = secrets_new secret, ss_shares = shares, ss_names = names,
             ss_pending_name = None, ss_reveal = None, ss_record_pending = False, ss_seen_pages = 0,
             ss_entry = None, ss_check = None\<rparr>))
      | _ \<Rightarrow> None))"

definition stored_name :: "('s, 'f, 'r, 'x, 'e) deps \<Rightarrow> ('s, 'f, 'x) session \<Rightarrow> bytes option" where
  "stored_name D S = name_load (dp_flash D) (dp_hash D) (ss_names S) (ss_flash S)"

definition announce :: "('s, 'f, 'r, 'x, 'e) deps \<Rightarrow> ('s, 'f, 'x) session \<Rightarrow> bytes \<Rightarrow> outbox \<Rightarrow> ('e fault + unit) \<times> outbox" where
  "announce D S digest ob =
     (case outbox_push (dp_encode D) (Announce digest) ob of
        (Inl e, ob) \<Rightarrow> (Inl (FaultComms e), ob)
      | (Inr _, ob) \<Rightarrow>
         (case outbox_push (dp_encode D)
             (case stored_name D S of
                Some name \<Rightarrow> SetName (fixed_truncate DEVICE_NAME_MAX_LENGTH name)
              | None \<Rightarrow> NeedName) ob of
            (Inl e, ob) \<Rightarrow> (Inl (FaultComms e), ob)
          | (Inr _, ob) \<Rightarrow> (Inr (), ob)))"

subsection \<open>Carrying out what the signer asks for\<close>

definition commit_name ::
  "('s, 'f, 'r, 'x, 'e) deps \<Rightarrow> ('s, 'f, 'x) session \<Rightarrow> outbox \<Rightarrow> ('e fault + unit) \<times> ('s, 'f, 'x) session \<times> outbox" where
  "commit_name D S ob =
     (case ss_pending_name S of
        None \<Rightarrow> (Inr (), S, ob)
      | Some name \<Rightarrow>
         (case name_save (dp_flash D) (dp_hash D) (ss_names S) name (ss_flash S) of
            (res, f) \<Rightarrow>
              (let S = S\<lparr>ss_pending_name := None, ss_flash := f\<rparr> in
               case res of
                 Inl e \<Rightarrow> (Inl (FaultStore e), S, ob)
               | Inr _ \<Rightarrow>
                  (case outbox_push (dp_encode D) (SetName name) ob of
                     (Inl e, ob) \<Rightarrow> (Inl (FaultComms e), S, ob)
                   | (Inr _, ob) \<Rightarrow> (Inr (), S, ob)))))"

fun run_sends ::
  "('s, 'f, 'r, 'x, 'e) deps \<Rightarrow> 'x device_send list \<Rightarrow> 'x prompt list \<Rightarrow> ('s, 'f, 'x) session \<Rightarrow> outbox \<Rightarrow>
     ('e fault + 'x prompt list) \<times> ('s, 'f, 'x) session \<times> outbox" where
  "run_sends D [] prompts S ob = (Inr prompts, S, ob)"
| "run_sends D (ToCoordinator msg # work) prompts S ob =
     (case outbox_push (dp_encode D) (DevCore msg) ob of
        (Inl e, ob) \<Rightarrow> (Inl (FaultComms e), S, ob)
      | (Inr _, ob) \<Rightarrow> run_sends D work prompts S ob)"
| "run_sends D (ToUser (NonceJobs batch) # work) prompts S ob =
     (case outbox_push (dp_encode D) (DevCore (NonceResponse (dp_nonce_jobs D (ss_secrets S) batch))) ob of
        (Inl e, ob) \<Rightarrow> (Inl (FaultComms e), S, ob)
      | (Inr _, ob) \<Rightarrow> run_sends D work prompts S ob)"
| "run_sends D (ToUser (FinalizeKeyGen key_name) # work) prompts S ob =
     (case commit_name D S ob of
        (Inl e, S, ob) \<Rightarrow> (Inl e, S, ob)
      | (Inr _, S, ob) \<Rightarrow> run_sends D work (prompts @ [FinalizeKeyGen key_name]) S ob)"
| "run_sends D (ToUser other # work) prompts S ob = run_sends D work (prompts @ [other]) S ob"

definition session_run ::
  "('s, 'f, 'r, 'x, 'e) deps \<Rightarrow> 'x device_send list \<Rightarrow> ('s, 'f, 'x) session \<Rightarrow> outbox \<Rightarrow>
     ('e fault + 'x prompt list) \<times> ('s, 'f, 'x) session \<times> outbox" where
  "session_run D sends S ob =
     (case persist_staged (dp_flash D) (dp_hash D) (dp_cenc D) (ss_shares S) (dp_staged D (ss_signer S)) (ss_flash S) of
        (res, staged, f) \<Rightarrow>
          (let S = S\<lparr>ss_signer := dp_set_staged D staged (ss_signer S), ss_flash := f\<rparr> in
           case res of
             Inl e \<Rightarrow> (Inl (FaultStore e), S, ob)
           | Inr _ \<Rightarrow> run_sends D sends [] S ob))"

subsection \<open>Coordinator messages\<close>

definition verify_prompt ::
  "('s, 'f, 'r, 'x, 'e) deps \<Rightarrow> ('s, 'f, 'x) session \<Rightarrow> 'x \<Rightarrow> nat \<Rightarrow> 'e fault + 'x prompt" where
  "verify_prompt D S master_appkey index =
     (case dp_network D master_appkey (ss_signer S) of
        None \<Rightarrow> Inl (FaultRefused AddressVerify)
      | Some network \<Rightarrow>
         (case dp_address D master_appkey index network of
            None \<Rightarrow> Inl (FaultRefused Undisplayable)
          | Some address \<Rightarrow> Inr (VerifyAddress address index)))"

text \<open>The answer, the session, the random source and the outbox.\<close>

type_synonym ('s, 'f, 'r, 'x, 'e, 'a) session_outcome = "('e fault + 'a) \<times> ('s, 'f, 'x) session \<times> 'r \<times> outbox"

definition ran :: "'r \<Rightarrow> ('e fault + 'a) \<times> ('s, 'f, 'x) session \<times> outbox \<Rightarrow> ('s, 'f, 'r, 'x, 'e, 'a) session_outcome" where
  "ran r res = (case res of (a, S, ob) \<Rightarrow> (a, S, r, ob))"

text \<open>Hand a message to the signer, then carry out what it answers.\<close>

definition signer_step ::
  "('s, 'f, 'r, 'x, 'e) deps \<Rightarrow> ('e \<Rightarrow> 'e fault) \<Rightarrow> ('e + 'x device_send list) \<times> 's \<times> 'f \<times> 'r \<Rightarrow> ('s, 'f, 'x) session \<Rightarrow> outbox \<Rightarrow>
     ('s, 'f, 'r, 'x, 'e, 'x prompt list) session_outcome" where
  "signer_step D fault answered S ob =
     (case answered of
        (res, signer, f, r) \<Rightarrow>
          (let S = S\<lparr>ss_signer := signer, ss_flash := f\<rparr> in
           case res of
             Inl e \<Rightarrow> (Inl (fault e), S, r, ob)
           | Inr sends \<Rightarrow> ran r (session_run D sends S ob)))"

definition recv_core ::
  "('s, 'f, 'r, 'x, 'e) deps \<Rightarrow> 'x core_msg \<Rightarrow> ('s, 'f, 'x) session \<Rightarrow> 'r \<Rightarrow> outbox \<Rightarrow> ('s, 'f, 'r, 'x, 'e, 'x prompt list) session_outcome" where
  "recv_core D core S r ob =
     (case core of
        ScreenVerify master_appkey index \<Rightarrow>
         (case verify_prompt D S master_appkey index of
            Inl e \<Rightarrow> (Inl e, S, r, ob)
          | Inr prompt \<Rightarrow> ran r (session_run D [ToUser prompt] S ob))
      | _ \<Rightarrow>
         (if (case core of
                KeygenBegin devices threshold _ \<Rightarrow> MAX_PARTIES < devices \<or> threshold = 0 \<or> devices < threshold
              | _ \<Rightarrow> False)
          then (Inl (FaultRefused GroupTooLarge), S, r, ob)
          else signer_step D FaultSigner (dp_recv D core (ss_signer S) (ss_flash S) r) S ob))"

definition recv ::
  "('s, 'f, 'r, 'x, 'e) deps \<Rightarrow> 'x coordinator_body \<Rightarrow> ('s, 'f, 'x) session \<Rightarrow> 'r \<Rightarrow> outbox \<Rightarrow> ('s, 'f, 'r, 'x, 'e, 'x prompt list) session_outcome" where
  "recv D body S r ob =
     (case body of
        CoordCore core \<Rightarrow> recv_core D core S r ob
      | Naming (Preview name) \<Rightarrow> (Inr [], S\<lparr>ss_pending_name := Some name\<rparr>, r, ob)
      | Naming (RetiredPrompt _) \<Rightarrow> (Inr [], S, r, ob)
      | AnnounceAck \<Rightarrow> (Inr [], S\<lparr>ss_coordinator_acked := True\<rparr>, r, ob)
      | Cancel \<Rightarrow>
          (Inr [], S\<lparr>ss_signer := dp_clear_tmp D (ss_signer S), ss_pending_name := None, ss_reveal := None,
                    ss_record_pending := False, ss_entry := None, ss_check := None\<rparr>, r, ob)
      | UpgradeBody _ \<Rightarrow> (Inl (FaultRefused FirmwareUpgrade), S, r, ob)
      | DataEraseBody \<Rightarrow> (Inl (FaultRefused DataErase), S, r, ob)
      | ChallengeBody _ \<Rightarrow> (Inl (FaultRefused GenuineChallenge), S, r, ob))"

subsection \<open>Backups on the glass\<close>

definition page_bit :: "nat \<Rightarrow> u32 option" where
  "page_bit page = (if page < 32 then Some (push_bit page 1) else None)"

definition all_pages :: "nat \<Rightarrow> u32 option" where
  "all_pages len =
     (case page_bit len of
        None \<Rightarrow> None
      | Some bits \<Rightarrow> if bits = 1 then None else Some (bits - 1))"

definition backup_words :: "('s, 'f, 'r, 'x, 'e) deps \<Rightarrow> 'x backup_display_phase \<Rightarrow> secrets \<Rightarrow> 'e fault + words" where
  "backup_words D phase secrets =
     (case dp_decrypt D secrets phase of
        Inl e \<Rightarrow> Inl (FaultAction e)
      | Inr backup \<Rightarrow>
         (case to_words (dp_hash D) BIP39_WORDS backup of
            None \<Rightarrow> Inl Panicked
          | Some ws \<Rightarrow> Inr ws))"

definition backup_pages_of :: "('s, 'f, 'r, 'x, 'e) deps \<Rightarrow> 'x backup_display_phase \<Rightarrow> secrets \<Rightarrow> 'e fault + backup_pages" where
  "backup_pages_of D phase secrets =
     (case backup_words D phase secrets of
        Inl e \<Rightarrow> Inl e
      | Inr ws \<Rightarrow>
         (case try_u32 (bd_share_index phase) of
            None \<Rightarrow> Inl (FaultRefused RefuseDisplayBackup)
          | Some index \<Rightarrow>
             (case backup_pages_new index (map str ws) of
                Inl _ \<Rightarrow> Inl (FaultRefused RefuseDisplayBackup)
              | Inr pages \<Rightarrow> Inr pages)))"

definition show_backup ::
  "('s, 'f, 'r, 'x, 'e) deps \<Rightarrow> nat \<Rightarrow> frame \<Rightarrow> ('s, 'f, 'x) session \<Rightarrow> 'r \<Rightarrow> ('e fault + bool) \<times> ('s, 'f, 'x) session \<times> frame \<times> 'r" where
  "show_backup D page f S r =
     (case ss_reveal S of
        None \<Rightarrow> (Inl (FaultRefused RefuseDisplayBackup), S, f, r)
      | Some phase \<Rightarrow>
         (let S = S\<lparr>ss_reveal := None\<rparr> in
          case backup_pages_of D phase (ss_secrets S) of
            Inl e \<Rightarrow> (Inl e, S, f, r)
          | Inr pages \<Rightarrow>
             (case backup_render (dp_rng D) pages page f r of
                (True, f, r) \<Rightarrow>
                  (Inr True, S\<lparr>ss_seen_pages := ss_seen_pages S OR (case page_bit page of None \<Rightarrow> 0 | Some bits \<Rightarrow> bits),
                              ss_reveal := Some phase\<rparr>, f, r)
              | (False, f, r) \<Rightarrow>
                  (Inr False, S\<lparr>ss_record_pending :=
                     (case all_pages (backup_len pages) of None \<Rightarrow> False | Some all_seen \<Rightarrow> ss_seen_pages S = all_seen)\<rparr>, f, r))))"

definition backup_recorded ::
  "('s, 'f, 'r, 'x, 'e) deps \<Rightarrow> ('s, 'f, 'x) session \<Rightarrow> outbox \<Rightarrow> ('e fault + unit) \<times> ('s, 'f, 'x) session \<times> outbox" where
  "backup_recorded D S ob =
     (let pending = ss_record_pending S; S = S\<lparr>ss_record_pending := False\<rparr> in
      if \<not> pending then (Inl (FaultRefused RefuseDisplayBackup), S, ob)
      else (case outbox_push (dp_encode D) BackupRecorded ob of
              (Inl e, ob) \<Rightarrow> (Inl (FaultComms e), S, ob)
            | (Inr _, ob) \<Rightarrow> (Inr (), S, ob)))"

subsection \<open>Consent\<close>

text \<open>What consent to a prompt does, the screen having been drawn to the last page.\<close>

definition carry_out ::
  "('s, 'f, 'r, 'x, 'e) deps \<Rightarrow> 'x prompt \<Rightarrow> ('s, 'f, 'x) session \<Rightarrow> 'r \<Rightarrow> outbox \<Rightarrow> ('s, 'f, 'r, 'x, 'e, 'x prompt list) session_outcome" where
  "carry_out D prompt S r ob =
     (case prompt of
        CheckKeyGen phase \<Rightarrow>
          signer_step D FaultAction (dp_keygen_ack D phase (ss_secrets S) (ss_signer S) (ss_flash S) r) S ob
      | SignatureRequest phase \<Rightarrow>
          signer_step D FaultAction
            (case dp_sign_ack D phase (ss_secrets S) (ss_signer S) (ss_flash S) of (res, signer, f) \<Rightarrow> (res, signer, f, r)) S ob
      | UserRestoration (DisplayBackup _ phase) \<Rightarrow>
         (case backup_pages_of D phase (ss_secrets S) of
            Inl e \<Rightarrow> (Inl e, S, r, ob)
          | Inr _ \<Rightarrow>
             (Inr [], S\<lparr>ss_record_pending := False, ss_seen_pages := 0, ss_reveal := Some phase\<rparr>, r, ob))
      | UserRestoration (EnterBackup i) \<Rightarrow>
          (Inr [], S\<lparr>ss_entry := Some (entry_new BIP39_WORDS i)\<rparr>, r, ob)
      | UserRestoration (ConsolidateBackup phase) \<Rightarrow>
         (case dp_consolidate D phase (ss_secrets S) (ss_signer S) (ss_flash S) r of
            (sends, signer, f, r) \<Rightarrow> ran r (session_run D sends (S\<lparr>ss_signer := signer, ss_flash := f\<rparr>) ob))
      | UserRestoration (CheckBackup _ phase) \<Rightarrow>
         (case backup_words D phase (ss_secrets S) of
            Inl e \<Rightarrow> (Inl e, S, r, ob)
          | Inr ws \<Rightarrow>
             (case quiz_new (dp_rng D) BIP39_WORDS ws r of
                (None, r) \<Rightarrow> (Inl (FaultRefused RefusePhysicalBackup), S, r, ob)
              | (Some quiz, r) \<Rightarrow>
                  (Inr [], S\<lparr>ss_check := Some \<lparr>ck_quiz = quiz, ck_access_structure_ref = bd_access_structure_ref phase,
                                             ck_share_index = bd_share_index phase\<rparr>\<rparr>, r, ob)))
      | _ \<Rightarrow> (Inl NotConfirmable, S, r, ob))"

definition confirm_at ::
  "('s, 'f, 'r, 'x, 'e) deps \<Rightarrow> 'x prompt \<Rightarrow> nat \<Rightarrow> ('s, 'f, 'x) session \<Rightarrow> 'r \<Rightarrow> outbox \<Rightarrow> ('s, 'f, 'r, 'x, 'e, 'x prompt list) session_outcome" where
  "confirm_at D prompt page S r ob =
     (case draw_confirm (dp_rng D) r of
        (confirm, r) \<Rightarrow>
         (case fst (prompt_screen_at (dp_ask D) prompt confirm page frame_new) of
            Inr (ShownPage True) \<Rightarrow> carry_out D prompt S r ob
          | Inr _ \<Rightarrow> (Inl NotConfirmable, S, r, ob)
          | Inl refused \<Rightarrow> (Inl (FaultRefused refused), S, r, ob)))"

definition session_confirm ::
  "('s, 'f, 'r, 'x, 'e) deps \<Rightarrow> 'x prompt \<Rightarrow> ('s, 'f, 'x) session \<Rightarrow> 'r \<Rightarrow> outbox \<Rightarrow> ('s, 'f, 'r, 'x, 'e, 'x prompt list) session_outcome" where
  "session_confirm D prompt S r ob = confirm_at D prompt 0 S r ob"

subsection \<open>Keys\<close>

datatype 'x typed_step = TypedUnchanged | TypedRedraw | TypedEnded "'x prompt list"

datatype checked = CheckedUnchanged | CheckedRedraw | CheckedEnded "nat option"

definition session_entry_screen :: "('s, 'f, 'x) session \<Rightarrow> entry_screen option" where
  "session_entry_screen S = map_option (entry_screen BIP39_WORDS) (ss_entry S)"

definition session_entry_key ::
  "('s, 'f, 'r, 'x, 'e) deps \<Rightarrow> u8 \<Rightarrow> ('s, 'f, 'x) session \<Rightarrow> outbox \<Rightarrow> ('e fault + 'x typed_step) \<times> ('s, 'f, 'x) session \<times> outbox" where
  "session_entry_key D key S ob =
     (case ss_entry S of
        None \<Rightarrow> (Inl (FaultRefused RefusePhysicalBackup), S, ob)
      | Some entry \<Rightarrow>
         (let S = S\<lparr>ss_entry := None\<rparr> in
          case entry_key (dp_hash D) BIP39_WORDS key entry of
            None \<Rightarrow> (Inl Panicked, S, ob)
          | Some (StepUnchanged, entry) \<Rightarrow> (Inr TypedUnchanged, S\<lparr>ss_entry := Some entry\<rparr>, ob)
          | Some (StepRedraw, entry) \<Rightarrow> (Inr TypedRedraw, S\<lparr>ss_entry := Some entry\<rparr>, ob)
          | Some (StepAbort, _) \<Rightarrow> (Inr (TypedEnded []), S, ob)
          | Some (StepEntered backup, entry) \<Rightarrow>
             (case dp_tell_backup D (enter_physical_id entry) backup (ss_signer S) of
                (sends, signer) \<Rightarrow>
                 (case session_run D sends (S\<lparr>ss_signer := signer\<rparr>) ob of
                    (Inl e, S, ob) \<Rightarrow> (Inl e, S, ob)
                  | (Inr prompts, S, ob) \<Rightarrow> (Inr (TypedEnded prompts), S, ob)))))"

definition session_quiz_screen :: "('s, 'f, 'x) session \<Rightarrow> quiz_screen option" where
  "session_quiz_screen S = map_option (\<lambda>c. quiz_screen (ck_quiz c)) (ss_check S)"

definition session_quiz_key ::
  "('s, 'f, 'r, 'x, 'e) deps \<Rightarrow> u8 \<Rightarrow> ('s, 'f, 'x) session \<Rightarrow> 'r \<Rightarrow> outbox \<Rightarrow> ('s, 'f, 'r, 'x, 'e, checked) session_outcome" where
  "session_quiz_key D key S r ob =
     (case ss_check S of
        None \<Rightarrow> (Inl (FaultRefused RefusePhysicalBackup), S, r, ob)
      | Some check \<Rightarrow>
         (let S = S\<lparr>ss_check := None\<rparr> in
          case quiz_key (dp_rng D) BIP39_WORDS key (ck_quiz check) r of
            ((QuizUnchanged, quiz), r) \<Rightarrow> (Inr CheckedUnchanged, S\<lparr>ss_check := Some (check\<lparr>ck_quiz := quiz\<rparr>)\<rparr>, r, ob)
          | ((QuizRedraw, quiz), r) \<Rightarrow> (Inr CheckedRedraw, S\<lparr>ss_check := Some (check\<lparr>ck_quiz := quiz\<rparr>)\<rparr>, r, ob)
          | ((QuizAbort, _), r) \<Rightarrow> (Inr (CheckedEnded None), S, r, ob)
          | ((QuizPassed, _), r) \<Rightarrow>
             (case outbox_push (dp_encode D) (BackupChecked (ck_access_structure_ref check) (ck_share_index check)) ob of
                (Inl e, ob) \<Rightarrow> (Inl (FaultComms e), S, r, ob)
              | (Inr _, ob) \<Rightarrow> (Inr (CheckedEnded (Some QUIZ_POSITIONS)), S, r, ob))))"

end
