(* ===== verification/Ceremony.thy ===== *)
theory Ceremony
  imports Pages WordEntry Quiz
begin

text \<open>
  \<open>hal/src/ui.rs\<close>, the screens of typing and checking a backup and of standing by, and the two
  functions of \<open>firmware/src/main.rs\<close> that choose among them. Like the other pages they refuse
  what they cannot draw whole; the rows that hold words are noised.
\<close>

subsection \<open>Standing by\<close>

definition standby :: "code_points \<Rightarrow> code_points \<Rightarrow> nat option \<Rightarrow> frame \<Rightarrow> frame" where
  "standby device_name key_name held_share f =
     (let f = put_text 0 2 key_name (put_text 0 0 device_name (frame_clear f)) in
      case held_share of
        Some index \<Rightarrow> put_text 0 4 (tb_text (push_u64 16 index (push_str 16 (str ''share #'') buf_new))) f
      | None \<Rightarrow> put_text 0 4 (str ''no share held'') f)"

definition identity_fault_page :: "code_points \<Rightarrow> frame \<Rightarrow> frame" where
  "identity_fault_page reason f =
     put_text 0 7 (str ''Will not start'')
      (put_text 0 5 (str ''this is.'')
       (put_text 0 4 (str ''which device'')
        (put_text 0 3 (str ''Cannot prove'')
         (put_text 0 1 reason
          (put_text 0 0 (str ''IDENTITY FAULT'') (frame_clear f))))))"

subsection \<open>Typing a backup\<close>

definition ENTRY_OK_LEGEND :: code_points where "ENTRY_OK_LEGEND = str ''(y)ok ''"
definition ENTRY_DELETE_LEGEND :: code_points where "ENTRY_DELETE_LEGEND = str ''(x)del''"
definition ENTRY_PAGE_LEGEND :: code_points where "ENTRY_PAGE_LEGEND = str ''(0)+''"
definition ENTRY_PAGE_LABEL :: code_points where "ENTRY_PAGE_LABEL = str ''letters ''"

text \<open>The keys that have a letter on the page, over the letters they type.\<close>

fun letter_rows :: "word_entry_view \<Rightarrow> u8 list \<Rightarrow> text_buf \<Rightarrow> text_buf \<Rightarrow> text_buf \<times> text_buf" where
  "letter_rows v [] ruler letters = (ruler, letters)"
| "letter_rows v (key # keys) ruler letters =
     (case letter_for_key v key of
        None \<Rightarrow> (ruler, letters)
      | Some letter \<Rightarrow>
          letter_rows v keys (buf_push SENSITIVE_TEXT_CELLS (unat key) ruler)
            (buf_push SENSITIVE_TEXT_CELLS (of_char letter) letters))"

definition word_entry_check :: "word_entry_view \<Rightarrow> unrenderable + unit" where
  "word_entry_check v =
     (if we_number v < 1 \<or> SHOWN_WORDS < we_number v then Inl BadWordList
      else case (if we_partial v = [] then Inr () else check_word (str (we_partial v))) of
        Inl e \<Rightarrow> Inl e
      | Inr _ \<Rightarrow>
         (case (case we_previous v of None \<Rightarrow> Inr () | Some p \<Rightarrow> check_word (str p)) of
            Inl e \<Rightarrow> Inl e
          | Inr _ \<Rightarrow> check_letters (str (we_candidates v)) MAX_CANDIDATE_LETTERS))"

definition word_entry_footer :: "word_entry_view \<Rightarrow> code_points" where
  "word_entry_footer v =
     (let b = buf_new;
          b = (if we_complete v then push_str 16 ENTRY_OK_LEGEND b else b);
          b = push_str 16 ENTRY_DELETE_LEGEND b;
          b = (if 1 < we_pages v then push_str 16 ENTRY_PAGE_LEGEND b else b) in
      tb_text b)"

definition word_entry_render ::
  "('r \<Rightarrow> u32 \<times> 'r) \<Rightarrow> word_entry_view \<Rightarrow> frame \<Rightarrow> 'r \<Rightarrow> (unrenderable + unit) \<times> frame \<times> 'r" where
  "word_entry_render N v f r =
     (case word_entry_check v of
        Inl e \<Rightarrow> (Inl e, f, r)
      | Inr _ \<Rightarrow>
         (let n = SENSITIVE_TEXT_CELLS;
              pages = we_pages v;
              head = push_u64 16 SHOWN_WORDS (push_str 16 (str '' of '') (push_u64 16 (we_number v) (push_str 16 (str ''word '') buf_new)));
              f = put_text 0 0 (tb_text head) (frame_clear f);
              pg = (if 1 < pages
                    then push_u64 n pages (push_str n (str ''/'') (push_u64 n (we_page v mod pages + 1) (push_str n ENTRY_PAGE_LABEL buf_new)))
                    else buf_new) in
          case sensitive_row N 1 (tb_text pg) f r of (f, r) \<Rightarrow>
          case (case we_previous v of
                  None \<Rightarrow> (f, r)
                | Some p \<Rightarrow>
                    sensitive_row N 2 (tb_text (push_str n (str p) (push_str n (str '': '') (push_u8_pad2 n (we_number v - 1) buf_new)))) f r)
            of (f, r) \<Rightarrow>
          case sensitive_row N 4 (tb_text (push_str n (str ''_'') (push_str n (str (we_partial v)) (push_str n (str '': '')
                 (push_u8_pad2 n (we_number v) buf_new))))) f r of (f, r) \<Rightarrow>
          case letter_rows v ENTRY_LETTER_KEYS buf_new buf_new of (ruler, letters) \<Rightarrow>
          case sensitive_row N 5 (tb_text ruler) f r of (f, r) \<Rightarrow>
          case sensitive_row N 6 (tb_text letters) f r of (f, r) \<Rightarrow>
            (Inr (), put_text 0 FOOTER_ROW (word_entry_footer v) f, r)))"

datatype entry_page_kind = EntryShareIndex code_points | EntryWord nat string "string option"

record entry_pages_view =
  ep_share_index :: "nat option"
  ep_words :: words
  ep_partial :: string

definition entry_page :: "entry_pages_view \<Rightarrow> nat \<Rightarrow> entry_page_kind option" where
  "entry_page p index =
     (if index = 0 then Some (EntryShareIndex (str (ep_partial p)))
      else if SHOWN_WORDS < index then None
      else Some (EntryWord index
        (if index - 1 = length (ep_words p) then ep_partial p else [])
        (if 2 \<le> index \<and> index - 2 < length (ep_words p) then Some (ep_words p ! (index - 2)) else None)))"

definition entry_pages_cursor :: "entry_pages_view \<Rightarrow> nat" where
  "entry_pages_cursor p = (if ep_share_index p = None then 0 else 1 + min (length (ep_words p)) (SHOWN_WORDS - 1))"

definition entry_index_page :: "code_points \<Rightarrow> frame \<Rightarrow> frame" where
  "entry_index_page partial f =
     (let b = push_str 16 (str ''_'') (push_str 16 partial buf_new);
          l = push_str 16 ENTRY_DELETE_LEGEND (if partial = [] then buf_new else push_str 16 ENTRY_OK_LEGEND buf_new) in
      put_text 0 FOOTER_ROW (tb_text l)
       (put_text 0 4 (tb_text b)
        (put_text 0 2 (str ''share index:'')
         (put_text 0 0 (str ''Restore backup'') (frame_clear f)))))"

definition entry_pages_render ::
  "('r \<Rightarrow> u32 \<times> 'r) \<Rightarrow> entry_pages_view \<Rightarrow> nat \<Rightarrow> frame \<Rightarrow> 'r \<Rightarrow> bool \<times> frame \<times> 'r" where
  "entry_pages_render N p index f r =
     (case entry_page p index of
        None \<Rightarrow> (False, f, r)
      | Some (EntryShareIndex partial) \<Rightarrow> (True, entry_index_page partial f, r)
      | Some (EntryWord number partial previous) \<Rightarrow>
         (case word_entry_render N \<lparr>we_number = number, we_partial = partial, we_previous = previous, we_candidates = [],
                                    we_page = 0, we_complete = False\<rparr> f r of
            (Inl _, f, r) \<Rightarrow> (False, f, r)
          | (Inr _, f, r) \<Rightarrow> (True, f, r)))"

text \<open>The digits of the share index arrive as text.\<close>

definition digits_text :: "nat \<Rightarrow> string" where
  "digits_text n = map (\<lambda>d. char_of d) (tb_text (push_u64 16 n buf_new))"

definition entry_frame :: "('r \<Rightarrow> u32 \<times> 'r) \<Rightarrow> entry_screen \<Rightarrow> frame \<Rightarrow> 'r \<Rightarrow> bool \<times> frame \<times> 'r" where
  "entry_frame N screen f r =
     (case screen of
        ScreenShareIndex index \<Rightarrow>
          entry_pages_render N \<lparr>ep_share_index = None, ep_words = [],
            ep_partial = (case index of None \<Rightarrow> [] | Some i \<Rightarrow> digits_text i)\<rparr> 0 f r
      | ScreenWord v \<Rightarrow>
         (case word_entry_render N v f r of (Inl _, f, r) \<Rightarrow> (False, f, r) | (Inr _, f, r) \<Rightarrow> (True, f, r))
      | ScreenFailed \<Rightarrow>
          (True, put_text 0 (ROWS - 1) (str ''any key=word 25'')
                  (put_text 0 6 (str ''against paper.'')
                   (put_text 0 5 (str ''Check them'')
                    (put_text 0 3 (str ''are still held.'')
                     (put_text 0 2 (str ''All 25 words'')
                      (put_text 0 0 (str ''CHECKSUM FAILED'') (frame_clear f)))))), r))"

subsection \<open>Checking a backup\<close>

definition QUIZ_REFUSE_LEGEND :: code_points where "QUIZ_REFUSE_LEGEND = str ''(x)no''"
definition QUIZ_DONE_LEGEND :: code_points where "QUIZ_DONE_LEGEND = str ''(x)done''"
definition QUIZ_RETRY :: code_points where "QUIZ_RETRY = str ''No - try again''"

fun quiz_option_rows :: "('r \<Rightarrow> u32 \<times> 'r) \<Rightarrow> nat \<Rightarrow> words \<Rightarrow> frame \<Rightarrow> 'r \<Rightarrow> frame \<times> 'r" where
  "quiz_option_rows N i [] f r = (f, r)"
| "quiz_option_rows N i (opt # opts) f r =
     (let n = SENSITIVE_TEXT_CELLS;
          key = (if i < length QUIZ_KEYS then unat (QUIZ_KEYS ! i) else 63);
          b = push_str n (str opt) (push_str n (str '') '') (buf_push n key buf_new)) in
      case sensitive_row N (2 + i * 2) (tb_text b) f r of (f, r) \<Rightarrow> quiz_option_rows N (i + 1) opts f r)"

definition backup_quiz_word ::
  "('r \<Rightarrow> u32 \<times> 'r) \<Rightarrow> quiz_word \<Rightarrow> words \<Rightarrow> frame \<Rightarrow> 'r \<Rightarrow> (unrenderable + unit) \<times> frame \<times> 'r" where
  "backup_quiz_word N q options f r =
     (if qw_number q < 1 \<or> SHOWN_WORDS < qw_number q \<or> qw_total q < 1 \<or> SHOWN_WORDS < qw_total q then (Inl BadWordList, f, r)
      else if qw_total q \<le> qw_asked q then (Inl BadWordList, f, r)
      else case check_all_words (map str options) of
        Inl e \<Rightarrow> (Inl e, f, r)
      | Inr _ \<Rightarrow>
         (let head = push_str 16 (str '' was?'') (push_u64 16 (qw_number q) (push_str 16 (str ''word '') buf_new));
              f = put_text 0 0 (tb_text head) (frame_clear f);
              f = (if qw_retry q then snd (text_inverted 0 1 QUIZ_RETRY f) else f) in
          case quiz_option_rows N 0 options f r of (f, r) \<Rightarrow>
            (let footer = push_str 16 QUIZ_REFUSE_LEGEND (push_str 16 (str '' '') (page_of (qw_asked q) (qw_total q))) in
             (Inr (), put_text 0 FOOTER_ROW (tb_text footer) f, r))))"

definition backup_quiz_passed :: "nat \<Rightarrow> frame \<Rightarrow> (unrenderable + unit) \<times> frame" where
  "backup_quiz_passed checked f =
     (if checked < 1 \<or> SHOWN_WORDS < checked then (Inl BadWordList, f)
      else (let b = push_str 16 (str '' words'') (push_u64 16 SHOWN_WORDS (push_str 16 (str '' of '') (push_u64 16 checked buf_new)));
                f = put_text 0 3 (str ''matched.'') (put_text 0 2 (tb_text b) (put_text 0 0 (str ''Quiz passed'') (frame_clear f)));
                f = (if checked < SHOWN_WORDS
                     then put_text 0 6 (str ''not checked.'') (put_text 0 5 (str ''The rest were'') f) else f) in
            (Inr (), put_text 0 FOOTER_ROW QUIZ_DONE_LEGEND f)))"

definition quiz_frame :: "('r \<Rightarrow> u32 \<times> 'r) \<Rightarrow> quiz_screen \<Rightarrow> frame \<Rightarrow> 'r \<Rightarrow> bool \<times> frame \<times> 'r" where
  "quiz_frame N screen f r =
     (case screen of
        ScreenQuizWord question options \<Rightarrow>
         (case backup_quiz_word N question options f r of (Inl _, f, r) \<Rightarrow> (False, f, r) | (Inr _, f, r) \<Rightarrow> (True, f, r))
      | ScreenQuizPassed checked \<Rightarrow>
         (case backup_quiz_passed checked f of (Inl _, f) \<Rightarrow> (False, f, r) | (Inr _, f) \<Rightarrow> (True, f, r)))"

end
