(* ===== verification/MainLoop.thy ===== *)
theory MainLoop
  imports Session Ceremony Keypad Panic
begin

text \<open>
  \<open>firmware/src/main.rs\<close>: what a key means to the screen it is pressed on, and one turn of the
  loop of \<open>boot\<close>, which hands packets to the session, draws what it answers and services either the
  one prompt waiting for a digit or the one flow on the glass. What the panel was given is kept in
  full, newest first; a write the panel itself refuses is ignored by the code and here.
\<close>

subsection \<open>One key, one screen\<close>

datatype answer = AnsWait | AnsNext | AnsBack | AnsYes | AnsNo | AnsKey u8

datatype 'x consent = ConsentPrompt "'x prompt" nat | ConsentQuestion nat | ConsentPages | ConsentEntry | ConsentQuiz

definition answer :: "keypad_error + key_event \<Rightarrow> 'x consent \<Rightarrow> bool \<Rightarrow> answer" where
  "answer event consent asks =
     (case event of
        Inr AllUp \<Rightarrow> AnsWait
      | Inr Unsettled \<Rightarrow> AnsWait
      | Inr (Down key) \<Rightarrow>
          (if consent = ConsentEntry \<or> consent = ConsentQuiz then AnsKey key
           else if unat key = NEXT_KEY then if asks then AnsWait else AnsNext
           else if unat key = BACK_KEY \<and> consent = ConsentPages then AnsBack
           else if \<not> asks then AnsNo
           else (case consent of
                   ConsentEntry \<Rightarrow> AnsKey key
                 | ConsentQuiz \<Rightarrow> AnsKey key
                 | ConsentPages \<Rightarrow> AnsNo
                 | ConsentQuestion confirm \<Rightarrow> if confirm_accepts confirm (unat key) then AnsYes else AnsNo
                 | ConsentPrompt _ confirm \<Rightarrow> if confirm_accepts confirm (unat key) then AnsYes else AnsNo))
      | Inr MultiKey \<Rightarrow> AnsNo
      | Inl _ \<Rightarrow> AnsNo)"

definition ask ::
  "'h gpio \<Rightarrow> ('r \<Rightarrow> u32 \<times> 'r) \<Rightarrow> 'h option \<Rightarrow> 'r \<Rightarrow> 'x consent \<Rightarrow> bool \<Rightarrow> answer \<times> 'h option \<times> 'r" where
  "ask G N pad r consent asks =
     (case pad of
        None \<Rightarrow> (AnsNo, None, r)
      | Some h \<Rightarrow> (case read_key G N (h, r) of (event, h, r) \<Rightarrow> (answer (Inr event) consent asks, Some h, r)))"

subsection \<open>The flows of a backup\<close>

datatype reveal = RevealPage nat | RevealRecorded nat

definition BACKUP_END :: nat where
  "BACKUP_END = 1 + (SHOWN_WORDS + (WORDS_PER_PAGE - 1)) div WORDS_PER_PAGE"

definition reveal_consent :: "reveal \<Rightarrow> 'x consent \<times> bool" where
  "reveal_consent state =
     (case state of RevealPage _ \<Rightarrow> (ConsentPages, False) | RevealRecorded confirm \<Rightarrow> (ConsentQuestion confirm, True))"

datatype reveal_turn = RevealPark | RevealShow nat | RevealAck | RevealIdle

datatype reveal_screen = ScreenPage | ScreenRecorded nat | ScreenIdle | ScreenRefuse

definition reveal_draw :: "nat \<Rightarrow> unit + bool \<Rightarrow> bool \<Rightarrow> nat \<Rightarrow> reveal_screen \<times> reveal option" where
  "reveal_draw page shown record_pending confirm =
     (case shown of
        Inr True \<Rightarrow> (ScreenPage, Some (RevealPage page))
      | Inr False \<Rightarrow>
          if record_pending then (ScreenRecorded confirm, Some (RevealRecorded confirm)) else (ScreenIdle, None)
      | Inl _ \<Rightarrow> (ScreenRefuse, None))"

text \<open>\<open>usize\<close> has 32 bits on the chip, so the cursor saturates.\<close>

definition reveal_step :: "reveal \<Rightarrow> answer \<Rightarrow> nat \<Rightarrow> reveal_turn" where
  "reveal_step state ans end_page =
     (case (state, ans) of
        (_, AnsWait) \<Rightarrow> RevealPark
      | (RevealPage page, AnsNext) \<Rightarrow> RevealShow (u32_sat_add page 1)
      | (RevealPage page, AnsBack) \<Rightarrow> RevealShow (page - 1)
      | (RevealPage _, _) \<Rightarrow> RevealShow end_page
      | (RevealRecorded _, AnsYes) \<Rightarrow> RevealAck
      | (RevealRecorded _, _) \<Rightarrow> RevealIdle)"

datatype check_flow = CheckAsking | CheckPassed

datatype flow = FlowReveal reveal | FlowEntry | FlowCheck check_flow

definition flow_consent :: "flow \<Rightarrow> 'x consent \<times> bool" where
  "flow_consent flow =
     (case flow of
        FlowReveal state \<Rightarrow> reveal_consent state
      | FlowEntry \<Rightarrow> (ConsentEntry, True)
      | FlowCheck _ \<Rightarrow> (ConsentQuiz, True))"

datatype entry_turn = EntryPark | EntryKeyed u8 | EntryEnd

definition entry_step_of :: "answer \<Rightarrow> entry_turn" where
  "entry_step_of ans = (case ans of AnsWait \<Rightarrow> EntryPark | AnsKey key \<Rightarrow> EntryKeyed key | _ \<Rightarrow> EntryEnd)"

datatype check_turn = CheckPark | CheckKeyed u8 | CheckDone

definition check_step :: "check_flow \<Rightarrow> answer \<Rightarrow> check_turn" where
  "check_step state ans =
     (case (state, ans) of
        (_, AnsWait) \<Rightarrow> CheckPark
      | (CheckAsking, AnsKey key) \<Rightarrow> CheckKeyed key
      | _ \<Rightarrow> CheckDone)"

datatype grant = GrantReveal | GrantEntry | GrantCheck

definition grants :: "'x prompt \<Rightarrow> grant option" where
  "grants prompt =
     (case prompt of
        UserRestoration (DisplayBackup _ _) \<Rightarrow> Some GrantReveal
      | UserRestoration (EnterBackup _) \<Rightarrow> Some GrantEntry
      | UserRestoration (CheckBackup _ _) \<Rightarrow> Some GrantCheck
      | _ \<Rightarrow> None)"

subsection \<open>The state of the loop\<close>

text \<open>A prompt on the glass: the message, the digit it was drawn with, its page and whether that page asks.\<close>

type_synonym 'x parked = "'x prompt \<times> nat \<times> nat \<times> bool"

text \<open>
  What \<open>boot\<close> holds across turns. The panel keeps every frame it was given, newest first; \<open>None\<close>
  is a board without a panel. \<open>lp_written\<close> are the writes to USB, newest last. \<open>lp_backup\<close> is the
  hardware of the backup registers.
\<close>

record ('s, 'f, 'r, 'x, 'h, 'b) loop =
  lp_session :: "('s, 'f, 'x) session"
  lp_rng :: 'r
  lp_outbox :: outbox
  lp_parked :: "'x parked option"
  lp_glass :: "flow option"
  lp_panel :: "frame list option"
  lp_pad :: "'h option"
  lp_link :: link
  lp_magic_reply :: bool
  lp_written :: "bytes list"
  lp_cleared :: bool
  lp_backup :: 'b

text \<open>\<open>ReceiveSerial\<close>; the nine unused variants are numbered.\<close>

datatype 'x serial = SerialMagic | SerialMessage "('x, 'x coordinator_body) wire_body" | SerialConch | SerialReset | SerialUnused nat

text \<open>\<open>bd_frame\<close> and \<open>bd_inner\<close> are the decoders \<open>bincode\<close> derives for frames and encapsulated bodies.\<close>

record ('s, 'f, 'r, 'x, 'e, 'h, 'b) board =
  bd_deps :: "('s, 'f, 'r, 'x, 'e) deps"
  bd_gpio :: "'h gpio"
  bd_bus :: "'b bus"
  bd_health :: boot_health
  bd_digest :: bytes
  bd_frame :: "bytes \<Rightarrow> 'x serial decoded"
  bd_inner :: "bytes \<Rightarrow> inner_fault + ('x, 'x coordinator_body) send_body"

subsection \<open>Drawing\<close>

definition panel_show :: "frame \<Rightarrow> ('s, 'f, 'r, 'x, 'h, 'b) loop \<Rightarrow> ('s, 'f, 'r, 'x, 'h, 'b) loop" where
  "panel_show f L = L\<lparr>lp_panel := map_option (Cons f) (lp_panel L)\<rparr>"

definition take_glass :: "frame \<Rightarrow> ('s, 'f, 'r, 'x, 'h, 'b) loop \<Rightarrow> ('s, 'f, 'r, 'x, 'h, 'b) loop" where
  "take_glass f L = panel_show f (L\<lparr>lp_glass := None\<rparr>)"

definition refuse_on_glass :: "('s, 'f, 'r, 'x, 'h, 'b) loop \<Rightarrow> ('s, 'f, 'r, 'x, 'h, 'b) loop" where
  "refuse_on_glass L = (if lp_panel L = None then L else take_glass (refusal_page frame_new) L)"

definition draw_prompt ::
  "('s, 'f, 'r, 'x, 'e) deps \<Rightarrow> 'x prompt \<Rightarrow> nat \<Rightarrow> nat \<Rightarrow> ('s, 'f, 'r, 'x, 'h, 'b) loop \<Rightarrow> bool option \<times> ('s, 'f, 'r, 'x, 'h, 'b) loop" where
  "draw_prompt D prompt confirm page L =
     (case prompt_screen_at (dp_ask D) prompt confirm page frame_new of
        (Inr ShownNothing, _) \<Rightarrow> (None, L)
      | (Inr (ShownPage asks), f) \<Rightarrow> (Some asks, take_glass f L)
      | (_, f) \<Rightarrow> (None, take_glass f L))"

text \<open>Each prompt of a batch under a digit of its own; the last one that can be answered is kept.\<close>

fun draw_batch ::
  "('s, 'f, 'r, 'x, 'e) deps \<Rightarrow> 'x prompt list \<Rightarrow> 'x parked option \<Rightarrow> ('s, 'f, 'r, 'x, 'h, 'b) loop \<Rightarrow>
     'x parked option \<times> ('s, 'f, 'r, 'x, 'h, 'b) loop" where
  "draw_batch D [] parked L = (parked, L)"
| "draw_batch D (prompt # prompts) parked L =
     (case draw_confirm (dp_rng D) (lp_rng L) of
        (confirm, r) \<Rightarrow>
         (case draw_prompt D prompt confirm 0 (L\<lparr>lp_rng := r\<rparr>) of
            (Some asks, L) \<Rightarrow> draw_batch D prompts (Some (prompt, confirm, 0, asks)) L
          | (None, L) \<Rightarrow> draw_batch D prompts parked L))"

text \<open>\<open>draw_batch\<close> where it is called: with a panel only, and a prompt already parked is kept if it parks none.\<close>

definition park_batch ::
  "('s, 'f, 'r, 'x, 'e) deps \<Rightarrow> 'x prompt list \<Rightarrow> ('s, 'f, 'r, 'x, 'h, 'b) loop \<Rightarrow> ('s, 'f, 'r, 'x, 'h, 'b) loop" where
  "park_batch D prompts L =
     (if lp_panel L = None then L
      else (case draw_batch D prompts None L of
              (Some next, L) \<Rightarrow> L\<lparr>lp_parked := Some next\<rparr>
            | (None, L) \<Rightarrow> L))"

definition code_point :: "bytes \<Rightarrow> nat" where
  "code_point c =
     (let tail = foldl (\<lambda>n b. n * 64 + unat b mod 64) in
      case c of
        [] \<Rightarrow> 0
      | [a] \<Rightarrow> unat a
      | [a, b] \<Rightarrow> tail (unat a mod 32) [b]
      | [a, b, d] \<Rightarrow> tail (unat a mod 16) [b, d]
      | a # bs \<Rightarrow> tail (unat a mod 8) bs)"

definition utf8_text :: "bytes \<Rightarrow> code_points" where
  "utf8_text name = (case utf8_split name of None \<Rightarrow> [] | Some cs \<Rightarrow> map code_point cs)"

definition idle :: "('s, 'f, 'r, 'x, 'e) deps \<Rightarrow> ('s, 'f, 'r, 'x, 'h, 'b) loop \<Rightarrow> ('s, 'f, 'r, 'x, 'h, 'b) loop" where
  "idle D L =
     panel_show (standby (case stored_name D (lp_session L) of Some name \<Rightarrow> utf8_text name | None \<Rightarrow> str ''no name'')
                   [] None frame_new) L"

text \<open>The three screens a flow may put on the glass; \<open>None\<close> is a panic.\<close>

definition show_backup_page ::
  "('s, 'f, 'r, 'x, 'e) deps \<Rightarrow> nat \<Rightarrow> ('s, 'f, 'r, 'x, 'h, 'b) loop \<Rightarrow> (reveal option \<times> ('s, 'f, 'r, 'x, 'h, 'b) loop) option" where
  "show_backup_page D page L =
     (case draw_confirm (dp_rng D) (lp_rng L) of
        (confirm, r) \<Rightarrow>
         (case show_backup D page frame_new (lp_session L) r of
            (Inl Panicked, _) \<Rightarrow> None
          | (shown, S, f, r) \<Rightarrow>
             (let L = L\<lparr>lp_session := S, lp_rng := r\<rparr> in
              case reveal_draw page (case shown of Inl _ \<Rightarrow> Inl () | Inr drawn \<Rightarrow> Inr drawn) (ss_record_pending S) confirm of
                (ScreenPage, next) \<Rightarrow> Some (next, panel_show f L)
              | (ScreenRecorded digit, next) \<Rightarrow> Some (next, panel_show (backup_recorded_page digit f) L)
              | (ScreenIdle, next) \<Rightarrow> Some (next, idle D L)
              | (ScreenRefuse, next) \<Rightarrow> Some (next, panel_show (refusal_page f) L))))"

definition show_entry_page ::
  "('s, 'f, 'r, 'x, 'e) deps \<Rightarrow> ('s, 'f, 'r, 'x, 'h, 'b) loop \<Rightarrow> bool \<times> ('s, 'f, 'r, 'x, 'h, 'b) loop" where
  "show_entry_page D L =
     (case session_entry_screen (lp_session L) of
        None \<Rightarrow> (False, idle D L)
      | Some screen \<Rightarrow>
         (case entry_frame (dp_rng D) screen frame_new (lp_rng L) of
            (False, f, r) \<Rightarrow> (False, panel_show (refusal_page f) (L\<lparr>lp_rng := r\<rparr>))
          | (True, f, r) \<Rightarrow> (True, panel_show f (L\<lparr>lp_rng := r\<rparr>))))"

definition show_quiz ::
  "('s, 'f, 'r, 'x, 'e) deps \<Rightarrow> quiz_screen option \<Rightarrow> ('s, 'f, 'r, 'x, 'h, 'b) loop \<Rightarrow>
     check_flow option \<times> ('s, 'f, 'r, 'x, 'h, 'b) loop" where
  "show_quiz D screen L =
     (case screen of
        None \<Rightarrow> (None, idle D L)
      | Some screen \<Rightarrow>
         (case quiz_frame (dp_rng D) screen frame_new (lp_rng L) of
            (False, f, r) \<Rightarrow> (None, panel_show (refusal_page f) (L\<lparr>lp_rng := r\<rparr>))
          | (True, f, r) \<Rightarrow>
              (Some (case screen of ScreenQuizWord _ _ \<Rightarrow> CheckAsking | ScreenQuizPassed _ \<Rightarrow> CheckPassed),
               panel_show f (L\<lparr>lp_rng := r\<rparr>))))"

subsection \<open>Packets\<close>

definition coordinator_body_of :: "('x, 'x coordinator_body) send_body \<Rightarrow> 'x coordinator_body" where
  "coordinator_body_of body =
     (case body of BAnnounceAck \<Rightarrow> AnnounceAck | BCancel \<Rightarrow> Cancel | BUpgrade u \<Rightarrow> UpgradeBody u | BInner b \<Rightarrow> b)"

text \<open>The closure given to \<open>poll\<close>; the second result is \<open>handled_frame\<close>, \<open>None\<close> a panic.\<close>

definition hear_frame ::
  "('s, 'f, 'r, 'x, 'e, 'h, 'b) board \<Rightarrow> 'x serial \<Rightarrow> ('s, 'f, 'r, 'x, 'h, 'b) loop \<Rightarrow>
     (bool \<times> ('s, 'f, 'r, 'x, 'h, 'b) loop) option" where
  "hear_frame B frame L =
     (case frame of
        SerialMagic \<Rightarrow> Some (False, L\<lparr>lp_magic_reply := True\<rparr>)
      | SerialMessage message \<Rightarrow>
         (case decode_body (bd_inner B) message of
            Inl _ \<Rightarrow> Some (False, L)
          | Inr body \<Rightarrow>
             (case recv (bd_deps B) (coordinator_body_of body) (lp_session L) (lp_rng L) (lp_outbox L) of
                (res, S, r, ob) \<Rightarrow>
                 (let L = L\<lparr>lp_session := S, lp_rng := r, lp_outbox := ob\<rparr> in
                  case res of
                    Inr prompts \<Rightarrow> Some (True, park_batch (bd_deps B) prompts L)
                  | Inl Panicked \<Rightarrow> None
                  | Inl (FaultRefused _) \<Rightarrow> Some (True, refuse_on_glass L)
                  | Inl (FaultStore _) \<Rightarrow> Some (True, refuse_on_glass L)
                  | Inl _ \<Rightarrow> Some (True, L))))
      | _ \<Rightarrow> Some (False, L))"

fun hear_frames ::
  "('s, 'f, 'r, 'x, 'e, 'h, 'b) board \<Rightarrow> 'x serial list \<Rightarrow> bool \<Rightarrow> ('s, 'f, 'r, 'x, 'h, 'b) loop \<Rightarrow>
     (bool \<times> ('s, 'f, 'r, 'x, 'h, 'b) loop) option" where
  "hear_frames B [] handled L = Some (handled, L)"
| "hear_frames B (frame # frames) handled L =
     (case hear_frame B frame L of
        None \<Rightarrow> None
      | Some (h, L) \<Rightarrow> hear_frames B frames (handled \<or> h) L)"

text \<open>
  From \<open>poll\<close> to the announcement. The frames are handled as they are decoded, also those before a
  fault; the first result tells whether the turn goes on.
\<close>

definition hear ::
  "('s, 'f, 'r, 'x, 'e, 'h, 'b) board \<Rightarrow> bytes \<Rightarrow> ('s, 'f, 'r, 'x, 'h, 'b) loop \<Rightarrow>
     (bool \<times> bool \<times> ('s, 'f, 'r, 'x, 'h, 'b) loop) option" where
  "hear B packet L =
     (case poll (bd_frame B) packet (lp_link L) of
        (polled, link, frames) \<Rightarrow>
         (let was_linked = l_linked (lp_link L) in
          case hear_frames B frames False (L\<lparr>lp_link := link\<rparr>) of
            None \<Rightarrow> None
          | Some (handled, L) \<Rightarrow>
             (case polled of
                Inl _ \<Rightarrow> Some (False, handled, L)
              | Inr _ \<Rightarrow>
                 (let L = (if lp_magic_reply L
                           then L\<lparr>lp_magic_reply := False, lp_written := lp_written L @ [MAGIC_REPLY]\<rparr> else L);
                      L = (if \<not> was_linked \<and> l_linked (lp_link L)
                           then L\<lparr>lp_outbox := snd (announce (bd_deps B) (lp_session L) (bd_digest B) (lp_outbox L))\<rparr>
                           else L) in
                  Some (True, handled, L)))))"

subsection \<open>Keys\<close>

text \<open>The pad is read through \<open>ask\<close>, with the random source the session uses.\<close>

definition ask_key ::
  "('s, 'f, 'r, 'x, 'e, 'h, 'b) board \<Rightarrow> 'x consent \<times> bool \<Rightarrow> ('s, 'f, 'r, 'x, 'h, 'b) loop \<Rightarrow>
     answer \<times> ('s, 'f, 'r, 'x, 'h, 'b) loop" where
  "ask_key B asked L =
     (case ask (bd_gpio B) (dp_rng (bd_deps B)) (lp_pad L) (lp_rng L) (fst asked) (snd asked) of
        (ans, pad, r) \<Rightarrow> (ans, L\<lparr>lp_pad := pad, lp_rng := r\<rparr>))"

text \<open>What a yes to a prompt puts on the glass.\<close>

definition granted ::
  "('s, 'f, 'r, 'x, 'e) deps \<Rightarrow> grant option \<Rightarrow> 'x prompt list \<Rightarrow> ('s, 'f, 'r, 'x, 'h, 'b) loop \<Rightarrow>
     ('s, 'f, 'r, 'x, 'h, 'b) loop option" where
  "granted D grant prompts L =
     (if lp_panel L = None then Some L
      else case grant of
        Some GrantReveal \<Rightarrow>
         (case show_backup_page D 0 L of
            None \<Rightarrow> None
          | Some (next, L) \<Rightarrow> Some (L\<lparr>lp_glass := map_option FlowReveal next\<rparr>))
      | Some GrantEntry \<Rightarrow>
         (case show_entry_page D L of (drawn, L) \<Rightarrow> Some (L\<lparr>lp_glass := if drawn then Some FlowEntry else None\<rparr>))
      | Some GrantCheck \<Rightarrow>
         (case show_quiz D (session_quiz_screen (lp_session L)) L of
            (next, L) \<Rightarrow> Some (L\<lparr>lp_glass := map_option FlowCheck next\<rparr>))
      | None \<Rightarrow> Some (park_batch D prompts L))"

text \<open>A parked prompt, already taken out of the state.\<close>

definition serve_prompt ::
  "('s, 'f, 'r, 'x, 'e, 'h, 'b) board \<Rightarrow> 'x parked \<Rightarrow> ('s, 'f, 'r, 'x, 'h, 'b) loop \<Rightarrow> ('s, 'f, 'r, 'x, 'h, 'b) loop option" where
  "serve_prompt B parked L =
     (case parked of (prompt, confirm, page, asks) \<Rightarrow>
        case ask_key B (ConsentPrompt prompt confirm, asks) L of
          (AnsWait, L) \<Rightarrow> Some (L\<lparr>lp_parked := Some (prompt, confirm, page, asks)\<rparr>)
        | (AnsNext, L) \<Rightarrow>
            (if lp_panel L = None then Some L
             else (case draw_prompt (bd_deps B) prompt confirm (u32_sat_add page 1) L of
                     (Some asks, L) \<Rightarrow> Some (L\<lparr>lp_parked := Some (prompt, confirm, u32_sat_add page 1, asks)\<rparr>)
                   | (None, L) \<Rightarrow> Some L))
        | (AnsYes, L) \<Rightarrow>
            (case confirm_at (bd_deps B) prompt page (lp_session L) (lp_rng L) (lp_outbox L) of
               (res, S, r, ob) \<Rightarrow>
                (let L = L\<lparr>lp_session := S, lp_rng := r, lp_outbox := ob\<rparr> in
                 case res of
                   Inr prompts \<Rightarrow> granted (bd_deps B) (grants prompt) prompts L
                 | Inl Panicked \<Rightarrow> None
                 | Inl _ \<Rightarrow> Some (refuse_on_glass L)))
        | (_, L) \<Rightarrow> Some (refuse_on_glass L))"

definition idle_if_panel :: "('s, 'f, 'r, 'x, 'e) deps \<Rightarrow> ('s, 'f, 'r, 'x, 'h, 'b) loop \<Rightarrow> ('s, 'f, 'r, 'x, 'h, 'b) loop" where
  "idle_if_panel D L = (if lp_panel L = None then L else idle D L)"

text \<open>The flows, already taken off the glass.\<close>

definition serve_reveal ::
  "('s, 'f, 'r, 'x, 'e, 'h, 'b) board \<Rightarrow> reveal \<Rightarrow> answer \<Rightarrow> ('s, 'f, 'r, 'x, 'h, 'b) loop \<Rightarrow> ('s, 'f, 'r, 'x, 'h, 'b) loop option" where
  "serve_reveal B state ans L =
     (case reveal_step state ans BACKUP_END of
        RevealPark \<Rightarrow> Some (L\<lparr>lp_glass := Some (FlowReveal state)\<rparr>)
      | RevealShow page \<Rightarrow>
          (if lp_panel L = None then Some L
           else (case show_backup_page (bd_deps B) page L of
                   None \<Rightarrow> None
                 | Some (next, L) \<Rightarrow> Some (L\<lparr>lp_glass := map_option FlowReveal next\<rparr>)))
      | RevealAck \<Rightarrow>
         (case backup_recorded (bd_deps B) (lp_session L) (lp_outbox L) of
            (_, S, ob) \<Rightarrow> Some (idle_if_panel (bd_deps B) (L\<lparr>lp_session := S, lp_outbox := ob\<rparr>)))
      | RevealIdle \<Rightarrow> Some (idle_if_panel (bd_deps B) L))"

definition serve_entry ::
  "('s, 'f, 'r, 'x, 'e, 'h, 'b) board \<Rightarrow> answer \<Rightarrow> ('s, 'f, 'r, 'x, 'h, 'b) loop \<Rightarrow> ('s, 'f, 'r, 'x, 'h, 'b) loop option" where
  "serve_entry B ans L =
     (case (if session_entry_screen (lp_session L) \<noteq> None then entry_step_of ans else EntryEnd) of
        EntryPark \<Rightarrow> Some (L\<lparr>lp_glass := Some FlowEntry\<rparr>)
      | EntryKeyed key \<Rightarrow>
         (case session_entry_key (bd_deps B) key (lp_session L) (lp_outbox L) of
            (res, S, ob) \<Rightarrow>
             (let L = L\<lparr>lp_session := S, lp_outbox := ob\<rparr> in
              case res of
                Inr TypedUnchanged \<Rightarrow> Some (L\<lparr>lp_glass := Some FlowEntry\<rparr>)
              | Inr TypedRedraw \<Rightarrow>
                  (if lp_panel L = None then Some L
                   else (case show_entry_page (bd_deps B) L of
                           (drawn, L) \<Rightarrow> Some (L\<lparr>lp_glass := if drawn then Some FlowEntry else None\<rparr>)))
              | Inr (TypedEnded prompts) \<Rightarrow> Some (park_batch (bd_deps B) prompts (idle_if_panel (bd_deps B) L))
              | Inl Panicked \<Rightarrow> None
              | Inl _ \<Rightarrow> Some (refuse_on_glass L)))
      | EntryEnd \<Rightarrow> Some (idle_if_panel (bd_deps B) L))"

definition serve_check ::
  "('s, 'f, 'r, 'x, 'e, 'h, 'b) board \<Rightarrow> check_flow \<Rightarrow> answer \<Rightarrow> ('s, 'f, 'r, 'x, 'h, 'b) loop \<Rightarrow> ('s, 'f, 'r, 'x, 'h, 'b) loop option" where
  "serve_check B state ans L =
     (let show = (\<lambda>screen L. if lp_panel L = None then L
                   else (case show_quiz (bd_deps B) screen L of (next, L) \<Rightarrow> L\<lparr>lp_glass := map_option FlowCheck next\<rparr>)) in
      case (if state = CheckAsking \<and> session_quiz_screen (lp_session L) = None then CheckDone else check_step state ans) of
        CheckPark \<Rightarrow> Some (L\<lparr>lp_glass := Some (FlowCheck state)\<rparr>)
      | CheckKeyed key \<Rightarrow>
         (case session_quiz_key (bd_deps B) key (lp_session L) (lp_rng L) (lp_outbox L) of
            (res, S, r, ob) \<Rightarrow>
             (let L = L\<lparr>lp_session := S, lp_rng := r, lp_outbox := ob\<rparr> in
              case res of
                Inr CheckedUnchanged \<Rightarrow> Some (L\<lparr>lp_glass := Some (FlowCheck state)\<rparr>)
              | Inr CheckedRedraw \<Rightarrow> Some (show (session_quiz_screen (lp_session L)) L)
              | Inr (CheckedEnded (Some checked)) \<Rightarrow> Some (show (Some (ScreenQuizPassed checked)) L)
              | Inr (CheckedEnded None) \<Rightarrow> Some (idle_if_panel (bd_deps B) L)
              | Inl Panicked \<Rightarrow> None
              | Inl _ \<Rightarrow> Some (refuse_on_glass L)))
      | CheckDone \<Rightarrow> Some (idle_if_panel (bd_deps B) L))"

text \<open>The one read of the pad a turn makes, for the prompt waiting or else the flow on the glass.\<close>

definition serve ::
  "('s, 'f, 'r, 'x, 'e, 'h, 'b) board \<Rightarrow> ('s, 'f, 'r, 'x, 'h, 'b) loop \<Rightarrow> ('s, 'f, 'r, 'x, 'h, 'b) loop option" where
  "serve B L =
     (case lp_parked L of
        Some parked \<Rightarrow> serve_prompt B parked (L\<lparr>lp_parked := None\<rparr>)
      | None \<Rightarrow>
         (case lp_glass L of
            None \<Rightarrow> Some L
          | Some flow \<Rightarrow>
             (case ask_key B (flow_consent flow) (L\<lparr>lp_glass := None\<rparr>) of
                (ans, L) \<Rightarrow>
                 (case flow of
                    FlowReveal state \<Rightarrow> serve_reveal B state ans L
                  | FlowEntry \<Rightarrow> serve_entry B ans L
                  | FlowCheck state \<Rightarrow> serve_check B state ans L))))"

subsection \<open>A turn\<close>

definition flush :: "('s, 'f, 'r, 'x, 'e, 'h, 'b) board \<Rightarrow> bool \<Rightarrow> ('s, 'f, 'r, 'x, 'h, 'b) loop \<Rightarrow> ('s, 'f, 'r, 'x, 'h, 'b) loop" where
  "flush B handled L =
     (let L = (if 0 < ob_frames (lp_outbox L)
               then (case outbox_take (lp_outbox L) of (bs, ob) \<Rightarrow> L\<lparr>lp_outbox := ob, lp_written := lp_written L @ [bs]\<rparr>)
               else L) in
      if handled \<and> \<not> lp_cleared L \<and> \<not> in_reset_loop (bd_health B)
      then L\<lparr>lp_cleared := True, lp_backup := snd (clear_counter (bd_bus B) CtrPanic (lp_backup L))\<rparr>
      else L)"

definition loop_turn ::
  "('s, 'f, 'r, 'x, 'e, 'h, 'b) board \<Rightarrow> bytes \<Rightarrow> ('s, 'f, 'r, 'x, 'h, 'b) loop \<Rightarrow> ('s, 'f, 'r, 'x, 'h, 'b) loop option" where
  "loop_turn B packet L =
     (case hear B packet L of
        None \<Rightarrow> None
      | Some (False, handled, L) \<Rightarrow> Some L
      | Some (True, handled, L) \<Rightarrow> map_option (flush B handled) (serve B L))"

text \<open>The state the loop is entered in, the standby screen drawn.\<close>

definition loop_start ::
  "('s, 'f, 'r, 'x, 'e, 'h, 'b) board \<Rightarrow> ('s, 'f, 'x) session \<Rightarrow> 'r \<Rightarrow> bool \<Rightarrow> 'h option \<Rightarrow> 'b \<Rightarrow> ('s, 'f, 'r, 'x, 'h, 'b) loop" where
  "loop_start B S r panel pad backup =
     idle_if_panel (bd_deps B)
       \<lparr>lp_session = S, lp_rng = r, lp_outbox = outbox_new, lp_parked = None, lp_glass = None,
        lp_panel = (if panel then Some [] else None), lp_pad = pad, lp_link = link_new, lp_magic_reply = False,
        lp_written = [], lp_cleared = False, lp_backup = backup\<rparr>"

text \<open>Turn after turn, one packet each; \<open>None\<close> is a panic on the way.\<close>

fun loop_turns ::
  "('s, 'f, 'r, 'x, 'e, 'h, 'b) board \<Rightarrow> bytes list \<Rightarrow> ('s, 'f, 'r, 'x, 'h, 'b) loop \<Rightarrow> ('s, 'f, 'r, 'x, 'h, 'b) loop option" where
  "loop_turns B [] L = Some L"
| "loop_turns B (packet # packets) L =
     (case loop_turn B packet L of None \<Rightarrow> None | Some L \<Rightarrow> loop_turns B packets L)"

end
