(* ===== verification/SessionCorrect.thy ===== *)
theory SessionCorrect
  imports Session MnemonicCorrect QuizCorrect
begin

text \<open>
  What a session can be held to: every screen that can be confirmed shows the digit that confirms
  it; nothing is sent before what the signer staged is on flash; a backup is reported as recorded
  only after all of its pages were drawn, and as checked only after its words were given.
\<close>

subsection \<open>Screens that ask\<close>

definition asks_with :: "nat \<Rightarrow> frame \<Rightarrow> bool" where
  "asks_with confirm f \<longleftrightarrow> shows_text f 0 FOOTER_ROW (str ''Press ('' @ [confirm] @ str '') x=no'')"

lemma drawn_digit: "draw_confirm N r = (c, r') \<Longrightarrow> c \<in> set CONFIRM_CHARSET"
proof -
  assume "draw_confirm N r = (c, r')"
  then obtain v where c0: "c = CONFIRM_CHARSET ! (unat (v :: u32) mod length CONFIRM_CHARSET)"
    by (auto simp: draw_confirm_def split: prod.splits)
  show "c \<in> set CONFIRM_CHARSET" unfolding c0 by (intro nth_mem) (simp add: CONFIRM_CHARSET_def)
qed

lemma asks_put:
  assumes "length f = FRAME_BYTES" "confirm \<in> set CONFIRM_CHARSET"
  shows "asks_with confirm (put_text 0 FOOTER_ROW (str ''Press ('' @ [confirm] @ str '') x=no'') f)"
proof -
  have "printable confirm" using assms(2) by (auto simp: CONFIRM_CHARSET_def str_def printable_def glass_defs)
  moreover have "\<forall>c \<in> set (str ''Press ('' @ str '') x=no''). printable c" by (simp add: str_def printable_def glass_defs)
  ultimately show ?thesis unfolding asks_with_def
    by (intro shows_put[OF assms(1)]) (auto simp: COLS_def WIDTH_def CELL_def FOOTER_ROW_def glass_defs)
qed

lemma legend_text:
  assumes "confirm \<in> set CONFIRM_CHARSET"
  shows "tb_text (push_str 16 (str '') x=no'') (push_str 16 [confirm] (push_str 16 (str ''Press ('') buf_new))) =
    str ''Press ('' @ [confirm] @ str '') x=no''"
proof -
  have "map shown_as (str ''Press ('') = str ''Press (''" "map shown_as (str '') x=no'') = str '') x=no''"
    by (simp_all add: str_def shown_as_def glass_defs)
  moreover have "shown_as confirm = confirm" using assms by (auto simp: CONFIRM_CHARSET_def str_def shown_as_def glass_defs)
  ultimately show ?thesis by (simp add: push_str_fits buf_new_def)
qed

lemma consent_lines_length:
  "length f = FRAME_BYTES \<Longrightarrow> row + length lines \<le> 4 \<Longrightarrow> length (snd (consent_lines row lines f)) = FRAME_BYTES"
proof (induction lines arbitrary: row f)
  case (Cons line lines)
  obtain n f' where t: "frame_text 0 (row * 2) line f = (n, f')" by fastforce
  have "length (put_text 0 (row * 2) line f) = FRAME_BYTES" using Cons.prems(1) by simp
  then have "length f' = FRAME_BYTES" by (simp add: put_text_def t)
  from Cons.IH[OF this, of "row + 1"] Cons.prems(2) t show ?case by (simp add: split_beta)
qed simp

lemma consent_screen_asks:
  assumes "consent_screen lines confirm f = (True, g)" "length lines \<le> 4" "confirm \<in> set CONFIRM_CHARSET"
  shows "asks_with confirm g"
proof -
  have "length (snd (consent_lines 0 lines (frame_clear f))) = FRAME_BYTES"
    by (rule consent_lines_length) (use assms(2) in simp_all)
  from asks_put[OF this assms(3)] show ?thesis
    using assms(1) legend_text[OF assms(3)] by (auto simp: consent_screen_def Let_def FOOTER_ROW_def ROWS_def HEIGHT_def CELL_def split: prod.splits)
qed

lemma text_2x_from_length:
  "length f = FRAME_BYTES \<Longrightarrow> row + 1 < ROWS \<Longrightarrow> length (snd (text_2x_from col row drawn s f)) = FRAME_BYTES"
proof (induction col row drawn s f rule: text_2x_from.induct)
  case (2 col row drawn c cs f)
  let ?x = "col + drawn * 2"
  show ?case
  proof (cases "COLS < ?x + 2 \<or> length FONT < glyph c * CELL + CELL")
    case False
    have src: "length (window FONT (glyph c * CELL) CELL) = 8" using False by (simp add: length_window CELL_def)
    have d: "length (concat (map (\<lambda>b. replicate 2 (q b)) bs)) = 2 * length bs" for q :: "u8 \<Rightarrow> u8" and bs
      by (induction bs) simp_all
    have b: "row * 128 + ?x * 8 + 16 \<le> 1024" "(row + 1) * 128 + ?x * 8 + 16 \<le> 1024"
      using False 2(3) by (auto simp: glass_defs)
    let ?g = "\<lambda>lo hi. patch (patch f (row * WIDTH + ?x * CELL) lo) ((row + 1) * WIDTH + ?x * CELL) hi"
    have "length (?g lo hi) = FRAME_BYTES" if "length lo = 16" "length hi = 16" for lo hi
      using that b 2(2) by (simp add: glass_defs)
    then show ?thesis using False 2 src d by (simp add: Let_def)
  qed (use 2 in \<open>auto simp: Let_def\<close>)
qed simp

lemma text_2x_length: "length f = FRAME_BYTES \<Longrightarrow> length (snd (text_2x col row s f)) = FRAME_BYTES"
  by (simp add: text_2x_def text_2x_from_length)

lemma keygen_check_asks:
  assumes "confirm \<in> set CONFIRM_CHARSET"
  shows "asks_with confirm (keygen_check threshold parties code key_name confirm f)"
  unfolding keygen_check_def Let_def confirm_footer[OF assms]
  by (rule asks_put[OF _ assms]) (simp add: text_2x_length)

lemma test_message_asks:
  assumes "sign_test_message_confirm message confirm f = (Inr u, g)" "confirm \<in> set CONFIRM_CHARSET"
  shows "asks_with confirm g"
proof -
  have r: "2 + MESSAGE_ROWS \<le> ROWS" by (simp add: MESSAGE_ROWS_def glass_defs)
  have "length (snd (wrap 2 MESSAGE_ROWS message (put_text 0 0 (str ''Sign message?'') (frame_clear f)))) = FRAME_BYTES"
    by (rule wrap_keeps(1)[OF _ r]) simp
  from asks_put[OF this assms(2)] show ?thesis
    using assms(1) confirm_footer[OF assms(2)]
    by (auto simp: sign_test_message_confirm_def test_message_def FOOTER_ROW_def ROWS_def HEIGHT_def CELL_def split: if_splits prod.splits)
qed

lemma sign_task_page_asks:
  assumes "sign_task_page ask task confirm page f = (Inr (ShownPage True), g)" "confirm \<in> set CONFIRM_CHARSET"
  shows "asks_with confirm g \<and> (\<exists>tx recipients fee pages. task = BitcoinTask tx \<and> ask tx = Some (recipients, fee) \<and>
    sign_pages_new recipients fee = Inr pages \<and> page + 1 = sign_len pages)"
proof -
  from assms(1) obtain tx recipients fee pages where t: "task = BitcoinTask tx" "ask tx = Some (recipients, fee)"
    "sign_pages_new recipients fee = Inr pages" "sign_render (confirming confirm pages) page f = (True, g)"
    "is_last (confirming confirm pages) page"
    by (auto simp: sign_task_page_def sign_consent_def Let_def split: sum.splits option.splits sign_task.splits prod.splits bool.splits)
  let ?p = "confirming confirm pages"
  have p: "\<forall>r \<in> set (pg_recipients ?p). check_address (rc_address r) = Inr ()"
    "length (pg_recipients ?p) \<le> MAX_RECIPIENTS" "pg_confirm ?p = Some confirm"
    using t(3) by (auto simp: sign_pages_new_ok confirming_def)
  have l: "sign_len ?p = sign_len pages"
    by (simp add: confirming_def sign_len_def recipient_pages_def high_fee_def sent_sats_def)
  have i: "page < sign_len ?p" using sign_render_draws(1)[OF p(1), of page f] t(4) by simp
  then obtain pg where "sign_page ?p page = Some pg" using sign_page_Some[of ?p page] by blast
  then obtain h where h: "length h = FRAME_BYTES" "sign_render ?p page f = (True, footer ?p page h)"
    using sign_render_draws(2)[OF p(1)] by blast
  have last: "page + 1 = sign_len ?p" using t(5) i by (simp add: is_last_def)
  have "asks_with confirm g"
    using footer_shows[OF h(1) sign_len_small[OF p(2)] i p(3) assms(2)] h(2) t(4) last by (simp add: asks_with_def)
  then show ?thesis using t(1-3) last l by auto
qed

lemma one_question_True: "one_question e asked = (Inr (ShownPage True), g) \<longleftrightarrow> asked = (True, g)"
  by (auto simp: one_question_def split: prod.splits bool.splits)

lemma restoration_screen_asks:
  assumes "restoration_screen restoration confirm page f = (Inr (ShownPage b), g)" "confirm \<in> set CONFIRM_CHARSET"
  shows "b \<and> asks_with confirm g \<and> page = 0 \<and> (\<forall>x. restoration \<noteq> BackupSaved x)"
proof -
  have b: "b" and p: "page = 0"
    using assms(1) by (auto simp: restoration_screen_def one_question_def split: to_user_restoration.splits option.splits if_splits prod.splits bool.splits)
  have "asks_with confirm g"
  proof (cases restoration)
    case (EnterBackup i)
    then have "entry_consent confirm f = (True, g)" using assms(1) b p by (simp add: restoration_screen_def one_question_True)
    then show ?thesis unfolding entry_consent_def Let_def by (rule consent_screen_asks[OF _ _ assms(2)]) simp
  next
    case (ConsolidateBackup ph)
    then obtain index where "consolidate_consent (cp_key_name ph) index (cp_threshold ph) confirm f = (True, g)"
      using assms(1) b p by (auto simp: restoration_screen_def one_question_True split: option.splits)
    then show ?thesis
      by (auto simp: consolidate_consent_def Let_def split: if_splits intro: consent_screen_asks[OF _ _ assms(2)])
  next
    case (DisplayBackup key_name ph)
    then obtain index where "backup_consent REVEAL_QUESTION key_name index confirm f = (True, g)"
      using assms(1) b p by (auto simp: restoration_screen_def one_question_True split: option.splits)
    then show ?thesis
      by (auto simp: backup_consent_def Let_def split: if_splits intro: consent_screen_asks[OF _ _ assms(2)])
  next
    case (CheckBackup key_name ph)
    then obtain index where "backup_consent CHECK_QUESTION key_name index confirm f = (True, g)"
      using assms(1) b p by (auto simp: restoration_screen_def one_question_True split: option.splits)
    then show ?thesis
      by (auto simp: backup_consent_def Let_def split: if_splits intro: consent_screen_asks[OF _ _ assms(2)])
  qed (use assms(1) in \<open>simp add: restoration_screen_def\<close>)
  then show ?thesis using b p assms(1) by (auto simp: restoration_screen_def)
qed

text \<open>Of a transaction it is the last of its pages that asks; a prompt with no question never does.\<close>

lemma prompt_asks:
  assumes "prompt_screen_at ask prompt confirm page f = (Inr (ShownPage True), g)" "confirm \<in> set CONFIRM_CHARSET"
  shows "asks_with confirm g \<and>
    (\<forall>phase tx. prompt = SignatureRequest phase \<longrightarrow> s1_sign_task phase = BitcoinTask tx \<longrightarrow>
      (\<exists>recipients fee pages. ask tx = Some (recipients, fee) \<and> sign_pages_new recipients fee = Inr pages \<and>
        page + 1 = sign_len pages))"
proof (cases prompt)
  case (CheckKeyGen phase)
  then show ?thesis using assms keygen_check_asks[OF assms(2)] by (auto simp: prompt_screen_at_def)
next
  case (SignatureRequest phase)
  show ?thesis
  proof (cases "s1_sign_task phase")
    case (TestTask message)
    then have "fst (sign_test_message_confirm message confirm f) = Inr () \<and> snd (sign_test_message_confirm message confirm f) = g"
      using assms(1) SignatureRequest by (auto simp: prompt_screen_at_def split: sum.splits prod.splits)
    then show ?thesis using test_message_asks[of message confirm f "()" g] assms(2) SignatureRequest TestTask by (simp add: prod_eq_iff)
  next
    case (NostrTask x)
    then show ?thesis using assms(1) SignatureRequest by (simp add: prompt_screen_at_def sign_task_page_def sign_consent_def)
  next
    case (BitcoinTask tx)
    then have "sign_task_page ask (s1_sign_task phase) confirm page f = (Inr (ShownPage True), g)"
      using assms(1) SignatureRequest by (auto simp: prompt_screen_at_def split: sum.splits prod.splits)
    from sign_task_page_asks[OF this assms(2)] show ?thesis using SignatureRequest BitcoinTask by auto
  qed
next
  case (UserRestoration restoration)
  then have "restoration_screen restoration confirm page f = (Inr (ShownPage True), g)"
    using assms(1) by (auto simp: prompt_screen_at_def split: sum.splits prod.splits)
  from restoration_screen_asks[OF this assms(2)] show ?thesis using UserRestoration by simp
qed (use assms(1) in \<open>auto simp: prompt_screen_at_def Let_def split: sum.splits prod.splits\<close>)

text \<open>A confirmation that finds no such screen leaves everything but the random source as it was.\<close>

lemma confirm_at_cases:
  obtains (shown) c r1 g where "draw_confirm (dp_rng D) r = (c, r1)"
      "prompt_screen_at (dp_ask D) prompt c page frame_new = (Inr (ShownPage True), g)"
      "confirm_at D prompt page S r ob = carry_out D prompt S r1 ob"
  | (refused) e r1 where "confirm_at D prompt page S r ob = (Inl e, S, r1, ob)"
proof -
  obtain c r1 where d: "draw_confirm (dp_rng D) r = (c, r1)" by fastforce
  obtain res g where p: "prompt_screen_at (dp_ask D) prompt c page frame_new = (res, g)" by fastforce
  show thesis
  proof (cases "res = Inr (ShownPage True)")
    case True
    then show ?thesis using shown[OF d] p by (simp add: confirm_at_def d)
  next
    case False
    have "\<exists>e. confirm_at D prompt page S r ob = (Inl e, S, r1, ob)"
      using False by (auto simp: confirm_at_def d p split: sum.splits shown.splits bool.splits)
    then show ?thesis using refused by blast
  qed
qed

subsection \<open>Neither the digit nor the frame decides what a screen says\<close>

lemma legend_fits:
  assumes "confirm \<in> set CONFIRM_CHARSET"
  shows "\<not> tb_truncated (push_str 16 (str '') x=no'') (push_str 16 [confirm] (push_str 16 (str ''Press ('') buf_new)))"
  using assms by (auto simp: push_str_fits buf_new_def str_def)

lemma consent_screen_says:
  assumes "c \<in> set CONFIRM_CHARSET" "c' \<in> set CONFIRM_CHARSET"
  shows "fst (consent_screen lines c f) = fst (consent_screen lines c' f')"
  using legend_fits[OF assms(1)] legend_fits[OF assms(2)] by (simp add: consent_screen_def frame_clear_def Let_def split: prod.split)

lemma test_message_says: "fst (sign_test_message_confirm message c f) = fst (sign_test_message_confirm message c' f')"
  by (simp add: sign_test_message_confirm_def test_message_def frame_clear_def split: prod.split)

lemma sign_task_page_says:
  "fst (sign_task_page ask task c page f) = fst (sign_task_page ask task c' page f')"
proof (cases "sign_consent ask task")
  case (Inr opt)
  show ?thesis
  proof (cases opt)
    case (Some pages)
    then obtain recipients fee where new: "sign_pages_new recipients fee = Inr pages"
      using Inr by (auto simp: sign_consent_def split: sign_task.splits option.splits sum.splits)
    have ok: "\<forall>r \<in> set (pg_recipients (confirming d pages)). check_address (rc_address r) = Inr ()" for d
      using new by (auto simp: sign_pages_new_ok confirming_def)
    have l: "sign_len (confirming d pages) = sign_len pages" for d
      by (simp add: confirming_def sign_len_def recipient_pages_def high_fee_def sent_sats_def)
    have "fst (sign_render (confirming c pages) page f) = fst (sign_render (confirming c' pages) page f')"
      by (simp add: sign_render_draws(1)[OF ok] l)
    then show ?thesis using Inr Some
      by (auto simp: sign_task_page_def Let_def is_last_def l split: prod.splits bool.splits)
  qed (use Inr in \<open>simp add: sign_task_page_def\<close>)
qed (simp add: sign_task_page_def)

lemma one_question_says: "fst asked = fst asked' \<Longrightarrow> fst (one_question e asked) = fst (one_question e asked')"
  by (auto simp: one_question_def split: prod.splits bool.splits)

lemma restoration_screen_says:
  assumes "c \<in> set CONFIRM_CHARSET" "c' \<in> set CONFIRM_CHARSET"
  shows "fst (restoration_screen restoration c page f) = fst (restoration_screen restoration c' page f')"
  by (cases restoration)
    (auto simp: restoration_screen_def backup_consent_def entry_consent_def consolidate_consent_def Let_def
      split: option.split intro!: one_question_says consent_screen_says[OF assms])

lemma address_verify_says: "fst (address_verify address path i f) = fst (address_verify address path i f')"
  by (simp add: address_verify_def frame_clear_def split: prod.split sum.split)

lemma prompt_screen_says:
  assumes "c \<in> set CONFIRM_CHARSET" "c' \<in> set CONFIRM_CHARSET"
  shows "fst (prompt_screen_at ask prompt c page f) = fst (prompt_screen_at ask prompt c' page f')"
proof -
  have refusing: "fst (case x of (Inl e, h) \<Rightarrow> (Inl e, refusal_page h) | (Inr s, h) \<Rightarrow> (Inr s, h)) = fst x"
    for x :: "(session_refusal + shown) \<times> frame" by (auto split: prod.splits sum.splits)
  have answered: "fst (case x of (Inl _, h) \<Rightarrow> (Inl e, h) | (Inr _, h) \<Rightarrow> (Inr s, h)) = (case fst x of Inl _ \<Rightarrow> Inl e | Inr _ \<Rightarrow> Inr s)"
    for x :: "('u + unit) \<times> frame" and e :: session_refusal and s :: shown by (auto split: prod.splits sum.splits)
  show ?thesis unfolding prompt_screen_at_def refusing
    by (cases prompt)
      (auto simp: answered Let_def restoration_screen_says[OF assms, of _ page f f'] sign_task_page_says[of ask _ c page f c' f']
        test_message_says[of _ c f c' f'] address_verify_says[of _ _ _ f f'] split: sign_task.split)
qed

subsection \<open>What running the signer's answers leaves alone\<close>

definition untouched :: "('s, 'f, 'x) session \<Rightarrow> ('s, 'f, 'x) session \<Rightarrow> bool" where
  "untouched S S' \<longleftrightarrow> ss_reveal S' = ss_reveal S \<and> ss_record_pending S' = ss_record_pending S \<and>
     ss_seen_pages S' = ss_seen_pages S \<and> ss_entry S' = ss_entry S \<and> ss_check S' = ss_check S \<and>
     ss_secrets S' = ss_secrets S \<and> ss_shares S' = ss_shares S \<and> ss_names S' = ss_names S"

lemma untouched_refl [simp]: "untouched S S"
  by (simp add: untouched_def)

lemma untouched_trans: "untouched A B \<Longrightarrow> untouched B C \<Longrightarrow> untouched A C"
  by (simp add: untouched_def)

lemma commit_name_untouched: "commit_name D S ob = (res, S', ob') \<Longrightarrow> untouched S S'"
  by (auto simp: commit_name_def untouched_def Let_def split: option.splits prod.splits sum.splits)

lemma run_sends_untouched: "run_sends D sends prompts S ob = (res, S', ob') \<Longrightarrow> untouched S S'"
proof (induction D sends prompts S ob rule: run_sends.induct)
  case (4 D key_name work prompts S ob)
  obtain r S1 ob1 where c: "commit_name D S ob = (r, S1, ob1)" using prod_cases3 by blast
  then show ?case using 4 commit_name_untouched[OF c] by (auto split: sum.splits intro: untouched_trans)
qed (auto split: prod.splits sum.splits)

lemma session_run_untouched: "session_run D sends S ob = (res, S', ob') \<Longrightarrow> untouched S S'"
proof -
  assume run: "session_run D sends S ob = (res, S', ob')"
  obtain r staged f where p: "persist_staged (dp_flash D) (dp_hash D) (dp_cenc D) (ss_shares S) (dp_staged D (ss_signer S)) (ss_flash S) = (r, staged, f)"
    using prod_cases3 by blast
  let ?S = "S\<lparr>ss_signer := dp_set_staged D staged (ss_signer S), ss_flash := f\<rparr>"
  have "untouched S ?S" by (simp add: untouched_def)
  then show ?thesis using run p run_sends_untouched[of D sends "[]" ?S ob res S' ob']
    by (auto simp: session_run_def Let_def split: sum.splits intro: untouched_trans)
qed

lemma signer_step_untouched:
  assumes "signer_step D fault answered S ob = (res, S', r', ob')"
  shows "untouched S S'"
proof -
  obtain a signer f r where ans: "answered = (a, signer, f, r)" using prod_cases4 by blast
  let ?S = "S\<lparr>ss_signer := signer, ss_flash := f\<rparr>"
  have "untouched S ?S" by (simp add: untouched_def)
  then show ?thesis using assms ans session_run_untouched[of D _ ?S ob res S' ob']
    by (auto simp: signer_step_def Let_def ran_def split: sum.splits prod.splits intro: untouched_trans)
qed

lemma recv_untouched:
  assumes "recv D body S r ob = (res, S', r', ob')" "body \<noteq> Cancel"
  shows "untouched S S'"
proof (cases body)
  case (CoordCore core)
  show ?thesis
  proof (cases core)
    case (ScreenVerify key index)
    then show ?thesis using assms CoordCore
      by (auto simp: recv_def recv_core_def ran_def split: sum.splits prod.splits intro: session_run_untouched)
  qed (use assms CoordCore in \<open>auto simp: recv_def recv_core_def split: if_splits intro: signer_step_untouched\<close>)
qed (use assms in \<open>auto simp: recv_def untouched_def split: name_command.splits\<close>)

subsection \<open>What a run sends\<close>

text \<open>The messages the signer's answers stand for, and the prompts that are handed up.\<close>

fun replies :: "('s, 'f, 'r, 'x, 'e) deps \<Rightarrow> secrets \<Rightarrow> bytes option \<Rightarrow> 'x device_send list \<Rightarrow> 'x dev_body list" where
  "replies D secrets name [] = []"
| "replies D secrets name (ToCoordinator msg # sends) = sent_as (DevCore msg) @ replies D secrets name sends"
| "replies D secrets name (ToUser (NonceJobs batch) # sends) =
     sent_as (DevCore (NonceResponse (dp_nonce_jobs D secrets batch))) @ replies D secrets name sends"
| "replies D secrets name (ToUser (FinalizeKeyGen key_name) # sends) =
     (case name of None \<Rightarrow> [] | Some n \<Rightarrow> [SetName n]) @ replies D secrets None sends"
| "replies D secrets name (ToUser other # sends) = replies D secrets name sends"

fun handed_up :: "'x device_send list \<Rightarrow> 'x prompt list" where
  "handed_up [] = []"
| "handed_up (ToCoordinator msg # sends) = handed_up sends"
| "handed_up (ToUser (NonceJobs batch) # sends) = handed_up sends"
| "handed_up (ToUser other # sends) = other # handed_up sends"

text \<open>A prefix of the messages left, all of them exactly on success.\<close>

definition sent_prefix :: "('x dev_body \<Rightarrow> bytes option) \<Rightarrow> 'x dev_body list \<Rightarrow> outbox \<Rightarrow> outbox \<Rightarrow> bool \<Rightarrow> bool" where
  "sent_prefix E bodies ob ob' ok \<longleftrightarrow>
     (\<exists>n \<le> length bodies. appended E (take n bodies) ob ob' \<and> (ok \<longleftrightarrow> n = length bodies))"

lemma sent_prefix_step:
  assumes "appended E xs a b" "sent_prefix E ys b c ok"
  shows "sent_prefix E (xs @ ys) a c ok"
proof -
  obtain n where n: "n \<le> length ys" "appended E (take n ys) b c" "ok \<longleftrightarrow> n = length ys"
    using assms(2) by (auto simp: sent_prefix_def)
  have "take (length xs + n) (xs @ ys) = xs @ take n ys" by simp
  then show ?thesis using n appended_trans[OF assms(1) n(2)] unfolding sent_prefix_def
    by (intro exI[of _ "length xs + n"]) simp
qed

lemma sent_prefix_stop:
  assumes "outbox_push E body ob = (Inl e, ob')"
  shows "sent_prefix E (sent_as body @ ys) ob ob' False"
proof -
  obtain n where n: "n < length (sent_as body)" "appended E (take n (sent_as body)) ob ob'"
    using push_appends[OF assms] by auto
  then have "take n (sent_as body @ ys) = take n (sent_as body)" "n < length (sent_as body @ ys)" by simp_all
  then show ?thesis unfolding sent_prefix_def by (intro exI[of _ n]) (use n(2) in \<open>simp del: take_append length_append\<close>)
qed

lemma push_sent: "outbox_push E body ob = (Inr u, ob') \<Longrightarrow> appended E (sent_as body) ob ob'"
  using push_appends[of E body ob "Inr u" ob'] by auto

lemma commit_name_sends:
  assumes "commit_name D S ob = (res, S', ob')"
  shows "ss_pending_name S' = None \<and>
    (case res of
       Inr _ \<Rightarrow> appended (dp_encode D) (case ss_pending_name S of None \<Rightarrow> [] | Some name \<Rightarrow> [SetName name]) ob ob'
     | Inl _ \<Rightarrow> ob' = ob \<and> ss_pending_name S \<noteq> None)"
proof (cases "ss_pending_name S")
  case None
  then show ?thesis using assms by (auto simp: commit_name_def)
next
  case (Some name)
  obtain r ob1 where p: "outbox_push (dp_encode D) (SetName name) ob = (r, ob1)" by fastforce
  have "case r of Inr _ \<Rightarrow> appended (dp_encode D) [SetName name] ob ob1 | Inl _ \<Rightarrow> ob1 = ob"
    using push_appends[OF p] by (cases r) (auto simp: sent_as_def appended_def)
  then show ?thesis using assms Some p
    by (auto simp: commit_name_def Let_def split: prod.splits sum.splits)
qed

lemma run_sends_replies:
  "run_sends D sends prompts S ob = (res, S', ob') \<Longrightarrow>
   sent_prefix (dp_encode D) (replies D (ss_secrets S) (ss_pending_name S) sends) ob ob' (\<exists>ps. res = Inr ps) \<and>
   (\<forall>ps. res = Inr ps \<longrightarrow> ps = prompts @ handed_up sends)"
proof (induction D sends prompts S ob rule: run_sends.induct)
  case (1 D prompts S ob)
  then show ?case by (auto simp: sent_prefix_def)
next
  case (2 D msg work prompts S ob)
  obtain r ob1 where p: "outbox_push (dp_encode D) (DevCore msg) ob = (r, ob1)" by fastforce
  then show ?case using 2 sent_prefix_stop sent_prefix_step[OF push_sent] by (cases r) fastforce+
next
  case (3 D batch work prompts S ob)
  obtain r ob1 where p: "outbox_push (dp_encode D) (DevCore (NonceResponse (dp_nonce_jobs D (ss_secrets S) batch))) ob = (r, ob1)"
    by fastforce
  then show ?case using 3 sent_prefix_stop sent_prefix_step[OF push_sent] by (cases r) fastforce+
next
  case (4 D key_name work prompts S ob)
  obtain r S1 ob1 where c: "commit_name D S ob = (r, S1, ob1)" using prod_cases3 by blast
  note C = commit_name_sends[OF c]
  show ?case
  proof (cases r)
    case (Inl e)
    then show ?thesis using 4 c C unfolding sent_prefix_def
      by (auto intro!: exI[of _ 0])
  next
    case (Inr u)
    have s: "ss_secrets S1 = ss_secrets S" using commit_name_untouched[OF c] by (simp add: untouched_def)
    have "sent_prefix (dp_encode D) (replies D (ss_secrets S1) (ss_pending_name S1) work) ob1 ob' (\<exists>ps. res = Inr ps) \<and>
      (\<forall>ps. res = Inr ps \<longrightarrow> ps = (prompts @ [FinalizeKeyGen key_name]) @ handed_up work)"
      using 4 c Inr by simp
    then show ?thesis using C Inr s sent_prefix_step by fastforce
  qed
qed simp_all


subsection \<open>Histories\<close>

datatype 'x session_op =
    OpRecv "'x coordinator_body"
  | OpConfirm "'x prompt" nat
  | OpShowBackup nat
  | OpBackupRecorded
  | OpEntryKey u8
  | OpQuizKey u8

text \<open>What an operation achieved, as far as backups are concerned.\<close>

datatype 'x session_event =
    Revealed "'x backup_display_phase"
  | PageDrawn nat
  | Recorded
  | Cancelled
  | QuizBegun access_structure_ref nat words
  | Answered "(nat \<times> string) list"
  | CheckReported access_structure_ref nat "(nat \<times> string) list"
  | Quiet

record ('s, 'f, 'r, 'x) world =
  wd_session :: "('s, 'f, 'x) session"
  wd_rng :: 'r
  wd_outbox :: outbox
  wd_frame :: frame

definition confirm_event :: "('s, 'f, 'r, 'x, 'e) deps \<Rightarrow> 'x prompt \<Rightarrow> ('s, 'f, 'x) session \<Rightarrow> 'e fault + 'a \<Rightarrow> 'x session_event" where
  "confirm_event D prompt S res =
     (case (res, prompt) of
        (Inr _, UserRestoration (DisplayBackup _ phase)) \<Rightarrow> Revealed phase
      | (Inr _, UserRestoration (CheckBackup _ phase)) \<Rightarrow>
         (case backup_words D phase (ss_secrets S) of
            Inr ws \<Rightarrow> QuizBegun (bd_access_structure_ref phase) (bd_share_index phase) ws
          | Inl _ \<Rightarrow> Quiet)
      | _ \<Rightarrow> Quiet)"

definition quiz_event :: "u8 \<Rightarrow> ('s, 'f, 'x) session \<Rightarrow> 'e fault + checked \<Rightarrow> 'x session_event" where
  "quiz_event key S res =
     (case (ss_check S, res) of
        (Some check, Inr (CheckedEnded (Some _))) \<Rightarrow>
          CheckReported (ck_access_structure_ref check) (ck_share_index check) (quiz_answer (ck_quiz check) key)
      | (Some check, _) \<Rightarrow> Answered (quiz_answer (ck_quiz check) key)
      | (None, _) \<Rightarrow> Quiet)"

definition session_step ::
  "('s, 'f, 'r, 'x, 'e) deps \<Rightarrow> 'x session_op \<Rightarrow> ('s, 'f, 'r, 'x) world \<Rightarrow> 'x session_event \<times> ('s, 'f, 'r, 'x) world" where
  "session_step D op w =
     (let S = wd_session w; r = wd_rng w; ob = wd_outbox w in
      case op of
        OpRecv body \<Rightarrow>
         (case recv D body S r ob of (res, S', r', ob') \<Rightarrow>
            (if body = Cancel then Cancelled else Quiet, w\<lparr>wd_session := S', wd_rng := r', wd_outbox := ob'\<rparr>))
      | OpConfirm prompt page \<Rightarrow>
         (case confirm_at D prompt page S r ob of (res, S', r', ob') \<Rightarrow>
            (confirm_event D prompt S res, w\<lparr>wd_session := S', wd_rng := r', wd_outbox := ob'\<rparr>))
      | OpShowBackup page \<Rightarrow>
         (case show_backup D page (wd_frame w) S r of (res, S', f', r') \<Rightarrow>
            (if res = Inr True then PageDrawn page else Quiet, w\<lparr>wd_session := S', wd_rng := r', wd_frame := f'\<rparr>))
      | OpBackupRecorded \<Rightarrow>
         (case backup_recorded D S ob of (res, S', ob') \<Rightarrow>
            (if res = Inr () then Recorded else Quiet, w\<lparr>wd_session := S', wd_outbox := ob'\<rparr>))
      | OpEntryKey key \<Rightarrow>
         (case session_entry_key D key S ob of (res, S', ob') \<Rightarrow> (Quiet, w\<lparr>wd_session := S', wd_outbox := ob'\<rparr>))
      | OpQuizKey key \<Rightarrow>
         (case session_quiz_key D key S r ob of (res, S', r', ob') \<Rightarrow>
            (quiz_event key S res, w\<lparr>wd_session := S', wd_rng := r', wd_outbox := ob'\<rparr>)))"

text \<open>The reachable worlds, with the events that led there, oldest first.\<close>

inductive session_runs :: "('s, 'f, 'r, 'x, 'e) deps \<Rightarrow> ('s, 'f, 'r, 'x) world \<Rightarrow> 'x session_event list \<Rightarrow> ('s, 'f, 'r, 'x) world \<Rightarrow> bool"
  for D w where
  runs_start: "session_runs D w [] w"
| runs_step: "session_runs D w es w' \<Longrightarrow> session_step D op w' = (e, w'') \<Longrightarrow> session_runs D w (es @ [e]) w''"

inductive_cases session_runs_snoc: "session_runs D w (es @ [e]) w''"

lemma runs_prefix:
  "session_runs D w es w' \<Longrightarrow> es = pre @ e # post \<Longrightarrow>
   \<exists>w1 op w2. session_runs D w pre w1 \<and> session_step D op w1 = (e, w2)"
proof (induction arbitrary: post rule: session_runs.induct)
  case (runs_step es w' op e' w'')
  show ?case
  proof (cases post rule: rev_cases)
    case Nil
    then show ?thesis using runs_step by auto
  next
    case (snoc post' x)
    then show ?thesis using runs_step by auto
  qed
qed simp

subsection \<open>A backup on show\<close>

definition unfinished :: "'x session_event \<Rightarrow> bool" where
  "unfinished e \<longleftrightarrow> e \<noteq> Cancelled \<and> e \<noteq> Recorded \<and> (\<forall>phase. e \<noteq> Revealed phase)"

text \<open>Since the last consent to a reveal nothing ended it, and the pages in \<open>P\<close> were drawn.\<close>

definition revealed_since :: "'x backup_display_phase \<Rightarrow> nat set \<Rightarrow> 'x session_event list \<Rightarrow> bool" where
  "revealed_since phase P es \<longleftrightarrow>
     (\<exists>a mid. es = a @ Revealed phase # mid \<and> (\<forall>e \<in> set mid. unfinished e) \<and> (\<forall>page \<in> P. PageDrawn page \<in> set mid))"

lemma revealed_since_snoc: "revealed_since phase P es \<Longrightarrow> unfinished e \<Longrightarrow> revealed_since phase P (es @ [e])"
  unfolding revealed_since_def by (elim exE conjE, rule exI, rule exI[of _ "_ @ [e]"]) auto

lemma revealed_since_drawn: "revealed_since phase P es \<Longrightarrow> revealed_since phase (insert page P) (es @ [PageDrawn page])"
  unfolding revealed_since_def by (elim exE conjE, rule exI, rule exI[of _ "_ @ [PageDrawn page]"]) (auto simp: unfinished_def)

lemma revealed_since_new: "revealed_since phase {} (es @ [Revealed phase])"
  unfolding revealed_since_def by (intro exI[of _ es] exI[of _ "[]"]) simp

lemma revealed_since_mono: "revealed_since phase P es \<Longrightarrow> Q \<subseteq> P \<Longrightarrow> revealed_since phase Q es"
  unfolding revealed_since_def by blast

definition seen_set :: "u32 \<Rightarrow> nat set" where
  "seen_set seen = {page. page < 32 \<and> bit seen page}"

definition showing_ok :: "'x session_event list \<Rightarrow> ('s, 'f, 'x) session \<Rightarrow> bool" where
  "showing_ok es S \<longleftrightarrow>
     (\<forall>phase. ss_reveal S = Some phase \<longrightarrow> revealed_since phase (seen_set (ss_seen_pages S)) es \<and> \<not> ss_record_pending S) \<and>
     (ss_record_pending S \<longrightarrow> (\<exists>phase. revealed_since phase {..< 8} es))"

lemma showing_ok_untouched:
  "showing_ok es S \<Longrightarrow> untouched S S' \<Longrightarrow> unfinished e \<Longrightarrow> showing_ok (es @ [e]) S'"
  by (auto simp: showing_ok_def untouched_def intro: revealed_since_snoc)

lemma showing_ok_fields:
  assumes "showing_ok es S" "unfinished e" "ss_reveal S' = ss_reveal S" "ss_record_pending S' = ss_record_pending S"
    "ss_seen_pages S' = ss_seen_pages S"
  shows "showing_ok (es @ [e]) S'"
  using assms by (auto simp: showing_ok_def intro: revealed_since_snoc)

lemma seen_bit: "seen_set (seen OR (case page_bit page of None \<Rightarrow> 0 | Some bits \<Rightarrow> bits)) \<subseteq> insert page (seen_set seen)"
  by (auto simp: seen_set_def page_bit_def bit_simps split: if_splits)

lemma all_eight: "all_pages 8 = Some 255"
  by (simp add: all_pages_def page_bit_def)

lemma seen_all: "{..< 8} \<subseteq> seen_set 255"
proof -
  have "bit (255 :: u32) page" if "page < 8" for page
  proof -
    have "page \<in> {0, 1, 2, 3, 4, 5, 6, 7}" using that by auto
    then show ?thesis by (auto simp: bit_iff_odd)
  qed
  then show ?thesis by (auto simp: seen_set_def)
qed

lemma backup_pages_of_len:
  assumes "backup_pages_of D phase secrets = Inr pages"
  shows "backup_len pages = 8"
proof -
  obtain index ws where "backup_pages_new index (map str ws) = Inr pages"
    using assms by (auto simp: backup_pages_of_def split: sum.splits option.splits)
  then have "length (bk_words pages) = SHOWN_WORDS" by (auto simp: backup_pages_new_ok)
  then show ?thesis by (rule backup_page_words(2)[of _ 0]) (simp add: SHOWN_WORDS_def)
qed

lemma show_backup_showing:
  assumes "show_backup D page f S r = (res, S', f', r')" "showing_ok es S"
  shows "showing_ok (es @ [if res = Inr True then PageDrawn page else Quiet]) S'"
proof (cases "ss_reveal S")
  case None
  then show ?thesis using assms by (auto simp: show_backup_def unfinished_def intro: showing_ok_fields)
next
  case (Some phase)
  have since: "revealed_since phase (seen_set (ss_seen_pages S)) es" "\<not> ss_record_pending S"
    using assms(2) Some by (auto simp: showing_ok_def)
  show ?thesis
  proof (cases "backup_pages_of D phase (ss_secrets S)")
    case (Inl e)
    then show ?thesis using assms(1) Some since by (auto simp: show_backup_def showing_ok_def)
  next
    case (Inr pages)
    obtain drawn g r1 where render: "backup_render (dp_rng D) pages page f r = (drawn, g, r1)" using prod_cases3 by blast
    show ?thesis
    proof (cases drawn)
      case True
      then show ?thesis using assms(1) Some Inr render since
        by (auto simp: show_backup_def showing_ok_def intro: revealed_since_mono[OF revealed_since_drawn seen_bit])
    next
      case False
      have "revealed_since phase {..< 8} (es @ [Quiet])" if "ss_seen_pages S = 255"
        by (rule revealed_since_snoc[OF revealed_since_mono[OF since(1)]]) (use that seen_all in \<open>simp_all add: unfinished_def\<close>)
      then show ?thesis using assms(1) Some Inr render False backup_pages_of_len[OF Inr]
        by (auto simp: show_backup_def showing_ok_def all_eight)
    qed
  qed
qed

lemma carry_out_touches:
  assumes "carry_out D prompt S r ob = (res, S', r', ob')"
  shows "untouched S S' \<or> (\<exists>i x. prompt = UserRestoration (EnterBackup i) \<and> S' = S\<lparr>ss_entry := x\<rparr>) \<or>
    (\<exists>k phase x. prompt = UserRestoration (CheckBackup k phase) \<and> S' = S\<lparr>ss_check := x\<rparr>) \<or>
    (\<exists>k phase. prompt = UserRestoration (DisplayBackup k phase))"
proof (cases prompt)
  case (UserRestoration restoration)
  show ?thesis
  proof (cases restoration)
    case (ConsolidateBackup phase)
    obtain sends signer fl r2 where c: "dp_consolidate D phase (ss_secrets S) (ss_signer S) (ss_flash S) r = (sends, signer, fl, r2)"
      using prod_cases4 by blast
    then have "session_run D sends (S\<lparr>ss_signer := signer, ss_flash := fl\<rparr>) ob = (res, S', ob')"
      using assms UserRestoration ConsolidateBackup by (auto simp: carry_out_def ran_def split: prod.splits)
    from session_run_untouched[OF this] show ?thesis by (simp add: untouched_def)
  next
    case (CheckBackup k phase)
    have "S' = S \<or> (\<exists>x. S' = S\<lparr>ss_check := x\<rparr>)"
      using assms UserRestoration CheckBackup
      by (auto simp: carry_out_def split: sum.splits option.splits prod.splits)
    then show ?thesis using UserRestoration CheckBackup by auto
  qed (use assms UserRestoration in \<open>auto simp: carry_out_def\<close>)
next
  case (CheckKeyGen phase)
  then show ?thesis using assms signer_step_untouched by (fastforce simp: carry_out_def)
next
  case (SignatureRequest phase)
  then have "untouched S S'" using assms by (intro signer_step_untouched) (simp add: carry_out_def)
  then show ?thesis by blast
qed (use assms in \<open>auto simp: carry_out_def\<close>)

lemma confirm_at_showing:
  assumes "confirm_at D prompt page S r ob = (res, S', r', ob')" "showing_ok es S"
  shows "showing_ok (es @ [confirm_event D prompt S res]) S'"
proof (cases rule: confirm_at_cases[of D r prompt page S ob])
  case (refused e r1)
  then show ?thesis using assms by (auto simp: confirm_event_def unfinished_def intro: showing_ok_fields)
next
  case (shown c r1 g)
  note go = assms(1)[unfolded shown(3)]
  show ?thesis
  proof (cases "\<exists>k phase. prompt = UserRestoration (DisplayBackup k phase)")
    case True
    then obtain k phase where p: "prompt = UserRestoration (DisplayBackup k phase)" by blast
    show ?thesis
    proof (cases "backup_pages_of D phase (ss_secrets S)")
      case (Inl e)
      then show ?thesis using go p assms(2) by (auto simp: carry_out_def confirm_event_def unfinished_def intro: showing_ok_fields)
    next
      case (Inr pages)
      then show ?thesis using go p revealed_since_new[of phase es]
        by (auto simp: carry_out_def confirm_event_def showing_ok_def seen_set_def)
    qed
  next
    case False
    then have un: "unfinished (confirm_event D prompt S res)"
      by (auto simp: confirm_event_def unfinished_def split: prompt.splits to_user_restoration.splits sum.splits)
    have "ss_reveal S' = ss_reveal S \<and> ss_record_pending S' = ss_record_pending S \<and> ss_seen_pages S' = ss_seen_pages S"
      using carry_out_touches[OF go] False by (auto simp: untouched_def)
    then show ?thesis using showing_ok_fields[OF assms(2) un] by blast
  qed
qed

lemma entry_key_touches:
  assumes "session_entry_key D key S ob = (res, S', ob')"
  shows "\<exists>x. untouched (S\<lparr>ss_entry := x\<rparr>) S'"
proof (cases "ss_entry S")
  case None
  then have "untouched (S\<lparr>ss_entry := None\<rparr>) S'" using assms by (auto simp: session_entry_key_def untouched_def)
  then show ?thesis ..
next
  case (Some entry)
  show ?thesis
  proof (cases "\<exists>backup entry'. entry_key (dp_hash D) BIP39_WORDS key entry = Some (StepEntered backup, entry')")
    case True
    then obtain backup entry' where e: "entry_key (dp_hash D) BIP39_WORDS key entry = Some (StepEntered backup, entry')" by blast
    obtain sends signer where t: "dp_tell_backup D (enter_physical_id entry') backup (ss_signer S) = (sends, signer)" by fastforce
    obtain res1 S1 ob1 where c: "session_run D sends (S\<lparr>ss_entry := None, ss_signer := signer\<rparr>) ob = (res1, S1, ob1)"
      using prod_cases3 by blast
    have "S1 = S'" using assms Some e t c by (auto simp: session_entry_key_def Let_def split: sum.splits)
    then have "untouched (S\<lparr>ss_entry := None\<rparr>) S'" using session_run_untouched[OF c] by (simp add: untouched_def)
    then show ?thesis ..
  next
    case False
    have "\<exists>x. S' = S\<lparr>ss_entry := x\<rparr>"
      using assms Some False by (auto simp: session_entry_key_def Let_def split: option.splits entry_step.splits)
    then show ?thesis using untouched_refl by metis
  qed
qed

lemma quiz_key_touches:
  "session_quiz_key D key S r ob = (res, S', r', ob') \<Longrightarrow> \<exists>x. S' = S\<lparr>ss_check := x\<rparr>"
  by (cases "ss_check S")
    (auto simp: session_quiz_key_def Let_def split: prod.splits quiz_step.splits sum.splits intro: exI[of _ "ss_check S"])

lemma backup_recorded_touches:
  "backup_recorded D S ob = (res, S', ob') \<Longrightarrow> S' = S\<lparr>ss_record_pending := False\<rparr> \<and> (res = Inr () \<longrightarrow> ss_record_pending S)"
  by (auto simp: backup_recorded_def Let_def split: if_splits prod.splits sum.splits)

lemma step_showing:
  assumes "session_step D op w = (e, w')" "showing_ok es (wd_session w)"
  shows "showing_ok (es @ [e]) (wd_session w') \<and> (e = Recorded \<longrightarrow> (\<exists>phase. revealed_since phase {..< 8} es))"
proof (cases op)
  case (OpRecv body)
  obtain res S' r' ob' where s: "recv D body (wd_session w) (wd_rng w) (wd_outbox w) = (res, S', r', ob')"
    using prod_cases4 by blast
  show ?thesis
  proof (cases "body = Cancel")
    case True
    then show ?thesis using assms s OpRecv by (auto simp: session_step_def showing_ok_def recv_def)
  next
    case False
    then show ?thesis using assms s OpRecv showing_ok_untouched[OF assms(2) recv_untouched[OF s False], of Quiet]
      by (auto simp: session_step_def unfinished_def)
  qed
next
  case (OpConfirm prompt page)
  obtain res S' r' ob' where s: "confirm_at D prompt page (wd_session w) (wd_rng w) (wd_outbox w) = (res, S', r', ob')"
    using prod_cases4 by blast
  have "confirm_event D prompt (wd_session w) res \<noteq> Recorded"
    by (auto simp: confirm_event_def split: sum.splits prompt.splits to_user_restoration.splits)
  then show ?thesis using assms s OpConfirm confirm_at_showing[OF s assms(2)] by (auto simp: session_step_def)
next
  case (OpShowBackup page)
  obtain res S' f' r' where s: "show_backup D page (wd_frame w) (wd_session w) (wd_rng w) = (res, S', f', r')"
    using prod_cases4 by blast
  then show ?thesis using assms OpShowBackup show_backup_showing[OF s assms(2)]
    by (auto simp: session_step_def split: if_splits)
next
  case OpBackupRecorded
  obtain res S' ob' where s: "backup_recorded D (wd_session w) (wd_outbox w) = (res, S', ob')" using prod_cases3 by blast
  note t = backup_recorded_touches[OF s]
  have "\<not> (ss_record_pending (wd_session w) \<and> ss_reveal (wd_session w) \<noteq> None)"
    using assms(2) by (auto simp: showing_ok_def)
  then show ?thesis using assms s t OpBackupRecorded
    by (auto simp: session_step_def showing_ok_def unfinished_def intro: revealed_since_snoc)
next
  case (OpEntryKey key)
  obtain res S' ob' where s: "session_entry_key D key (wd_session w) (wd_outbox w) = (res, S', ob')" using prod_cases3 by blast
  have "ss_reveal S' = ss_reveal (wd_session w)" "ss_record_pending S' = ss_record_pending (wd_session w)"
    "ss_seen_pages S' = ss_seen_pages (wd_session w)"
    using entry_key_touches[OF s] by (auto simp: untouched_def)
  then show ?thesis using assms s OpEntryKey showing_ok_fields[OF assms(2), of Quiet S']
    by (auto simp: session_step_def unfinished_def)
next
  case (OpQuizKey key)
  obtain res S' r' ob' where s: "session_quiz_key D key (wd_session w) (wd_rng w) (wd_outbox w) = (res, S', r', ob')"
    using prod_cases4 by blast
  have "unfinished (quiz_event key (wd_session w) res)"
    by (auto simp: quiz_event_def unfinished_def split: option.splits sum.splits checked.splits)
  moreover have "ss_reveal S' = ss_reveal (wd_session w)" "ss_record_pending S' = ss_record_pending (wd_session w)"
    "ss_seen_pages S' = ss_seen_pages (wd_session w)"
    using quiz_key_touches[OF s] by auto
  ultimately have "showing_ok (es @ [quiz_event key (wd_session w) res]) S'" by (intro showing_ok_fields[OF assms(2)])
  moreover have "quiz_event key (wd_session w) res \<noteq> Recorded"
    by (auto simp: quiz_event_def split: option.splits sum.splits checked.splits)
  ultimately show ?thesis using assms(1) s OpQuizKey by (auto simp: session_step_def)
qed

lemma runs_showing:
  "session_runs D w es w' \<Longrightarrow> showing_ok [] (wd_session w) \<Longrightarrow> showing_ok es (wd_session w')"
  by (induction rule: session_runs.induct) (use step_showing in blast)+

lemma recorded_after_all_pages:
  assumes "session_runs D w (pre @ Recorded # post) w'" "showing_ok [] (wd_session w)"
  shows "\<exists>phase. revealed_since phase {..< 8} pre"
  using runs_prefix[OF assms(1) refl] runs_showing[OF _ assms(2)] step_showing by metis

subsection \<open>A backup being checked\<close>

definition answers_in :: "'x session_event list \<Rightarrow> (nat \<times> string) set" where
  "answers_in es = (\<Union>e \<in> set es. case e of Answered log \<Rightarrow> set log | CheckReported _ _ log \<Rightarrow> set log | _ \<Rightarrow> {})"

definition still_checking :: "'x session_event \<Rightarrow> bool" where
  "still_checking e \<longleftrightarrow> e \<noteq> Cancelled \<and> (\<forall>a b c. e \<noteq> CheckReported a b c) \<and> (\<forall>a b c. e \<noteq> QuizBegun a b c)"

definition checking_since :: "access_structure_ref \<Rightarrow> nat \<Rightarrow> words \<Rightarrow> (nat \<times> string) set \<Rightarrow> 'x session_event list \<Rightarrow> bool" where
  "checking_since ref i ws L es \<longleftrightarrow>
     (\<exists>a mid. es = a @ QuizBegun ref i ws # mid \<and> (\<forall>e \<in> set mid. still_checking e) \<and> L \<subseteq> answers_in mid)"

lemma checking_since_snoc:
  "checking_since ref i ws L es \<Longrightarrow> still_checking e \<Longrightarrow> checking_since ref i ws (L \<union> answers_in [e]) (es @ [e])"
  unfolding checking_since_def by (elim exE conjE, rule exI, rule exI[of _ "_ @ [e]"]) (auto simp: answers_in_def)

lemma checking_since_mono: "checking_since ref i ws L es \<Longrightarrow> M \<subseteq> L \<Longrightarrow> checking_since ref i ws M es"
  unfolding checking_since_def by blast

text \<open>The words given so far, by position.\<close>

definition given :: "quiz \<Rightarrow> (nat \<times> string) set" where
  "given q = (\<lambda>k. (qz_order q ! k, qz_words q ! (qz_order q ! k))) ` {..< qz_asked q}"

definition checking_ok :: "'x session_event list \<Rightarrow> ('s, 'f, 'x) session \<Rightarrow> bool" where
  "checking_ok es S \<longleftrightarrow>
     (\<forall>c. ss_check S = Some c \<longrightarrow>
        quiz_wf BIP39_WORDS (ck_quiz c) \<and> qz_asked (ck_quiz c) < QUIZ_POSITIONS \<and>
        checking_since (ck_access_structure_ref c) (ck_share_index c) (qz_words (ck_quiz c)) (given (ck_quiz c)) es)"

lemma checking_ok_same:
  assumes "checking_ok es S" "ss_check S' = ss_check S" "still_checking e"
  shows "checking_ok (es @ [e]) S'"
  using assms checking_since_mono[OF checking_since_snoc] by (fastforce simp: checking_ok_def)

lemma checking_ok_none: "ss_check S = None \<Longrightarrow> checking_ok es S"
  by (simp add: checking_ok_def)

text \<open>What the share type and the curve arithmetic behind \<open>decrypt_to_backup\<close> provide: a well-formed share.\<close>

definition decrypts_shares :: "('s, 'f, 'r, 'x, 'e) deps \<Rightarrow> bool" where
  "decrypts_shares D \<longleftrightarrow> (\<forall>secrets phase b. dp_decrypt D secrets phase = Inr b \<longrightarrow> share_wf b)"

lemma backup_words_length:
  assumes "decrypts_shares D" "backup_words D phase secrets = Inr ws"
  shows "length ws = QUIZ_WORDS"
proof -
  obtain b where b: "dp_decrypt D secrets phase = Inr b" "to_words (dp_hash D) BIP39_WORDS b = Some ws"
    using assms(2) by (auto simp: backup_words_def split: sum.splits option.splits)
  then have "share_wf b" using assms(1) by (auto simp: decrypts_shares_def)
  from words_read_back[OF this bip39.indexed, of "dp_hash D"] b(2) show ?thesis by (auto simp: QUIZ_WORDS_def)
qed

lemma quiz_key_checking:
  assumes "session_quiz_key D key S r ob = (res, S', r', ob')" "checking_ok es S"
  shows "checking_ok (es @ [quiz_event key S res]) S' \<and>
    (\<forall>ref i log. quiz_event key S res = CheckReported ref i log \<longrightarrow>
      (\<exists>ws L order. checking_since ref i ws L es \<and> length order = QUIZ_POSITIONS \<and> distinct order \<and> LAST_POSITION \<in> set order \<and>
        (\<forall>p \<in> set order. p < QUIZ_WORDS \<and> (p, ws ! p) \<in> L \<union> set log)))"
proof (cases "ss_check S")
  case None
  then show ?thesis using assms by (auto simp: session_quiz_key_def quiz_event_def checking_ok_def)
next
  case (Some c)
  let ?q = "ck_quiz c"
  have ok: "quiz_wf BIP39_WORDS ?q" "qz_asked ?q < QUIZ_POSITIONS"
    "checking_since (ck_access_structure_ref c) (ck_share_index c) (qz_words ?q) (given ?q) es"
    using assms(2) Some by (auto simp: checking_ok_def)
  have R: "length (qz_order ?q) = QUIZ_POSITIONS" "distinct (qz_order ?q)" "LAST_POSITION \<in> set (qz_order ?q)"
    "\<forall>p \<in> set (qz_order ?q). p < QUIZ_WORDS" using ok(1) by (simp_all add: quiz_wf_def quiz_ready_def)
  let ?log = "quiz_answer ?q key"
  note since = checking_since_snoc[OF ok(3), of "Answered ?log"]
  have ans: "answers_in [Answered ?log] = set ?log" by (simp add: answers_in_def)
  have kept: "checking_since (ck_access_structure_ref c) (ck_share_index c) (qz_words ?q) (given ?q) (es @ [Answered ?log])"
    by (rule checking_since_mono[OF since]) (simp_all add: still_checking_def)
  consider (cancel) "quiz_key (dp_rng D) BIP39_WORDS key ?q r = ((QuizAbort, ?q), r)"
    | (ignored) "quiz_key (dp_rng D) BIP39_WORDS key ?q r = ((QuizUnchanged, ?q), r)"
    | (wrong) opts r1 where "quiz_key (dp_rng D) BIP39_WORDS key ?q r = ((QuizRedraw, ?q\<lparr>qz_wrong := True, qz_options := opts\<rparr>), r1)"
       "quiz_wf BIP39_WORDS (?q\<lparr>qz_wrong := True, qz_options := opts\<rparr>)"
    | (right) opts r1 where "quiz_key (dp_rng D) BIP39_WORDS key ?q r =
          (if qz_asked ?q + 1 < QUIZ_POSITIONS
           then ((QuizRedraw, ?q\<lparr>qz_wrong := False, qz_asked := qz_asked ?q + 1, qz_options := opts\<rparr>), r1)
           else ((QuizPassed, ?q\<lparr>qz_wrong := False, qz_asked := qz_asked ?q + 1\<rparr>), r))"
       "quiz_wf BIP39_WORDS (?q\<lparr>qz_wrong := False, qz_asked := qz_asked ?q + 1, qz_options := opts\<rparr>)"
       "?log = [(qz_order ?q ! qz_asked ?q, qz_words ?q ! (qz_order ?q ! qz_asked ?q))]"
    using bip39.key_spec[OF ok(1,2), of key "dp_rng D" r] by blast
  then show ?thesis
  proof cases
    case cancel
    then show ?thesis using assms(1) Some by (auto simp: session_quiz_key_def quiz_event_def checking_ok_def)
  next
    case ignored
    then show ?thesis using assms(1) Some ok kept
      by (auto simp: session_quiz_key_def quiz_event_def checking_ok_def)
  next
    case wrong
    have "given (?q\<lparr>qz_wrong := True, qz_options := opts\<rparr>) = given ?q" by (simp add: given_def)
    then show ?thesis using wrong assms(1) Some ok(2) kept
      by (auto simp: session_quiz_key_def quiz_event_def checking_ok_def)
  next
    case right
    let ?n = "?q\<lparr>qz_wrong := False, qz_asked := qz_asked ?q + 1, qz_options := opts\<rparr>"
    have g: "given ?n = given ?q \<union> set ?log"
      unfolding right(3) given_def by (auto simp: lessThan_Suc)
    show ?thesis
    proof (cases "qz_asked ?q + 1 < QUIZ_POSITIONS")
      case True
      have "checking_since (ck_access_structure_ref c) (ck_share_index c) (qz_words ?q) (given ?n) (es @ [Answered ?log])"
        unfolding g using since by (simp add: still_checking_def ans)
      then show ?thesis using right True assms(1) Some
        by (auto simp: session_quiz_key_def quiz_event_def checking_ok_def)
    next
      case False
      have all: "(p, qz_words ?q ! p) \<in> given ?q \<union> set ?log" if p: "p \<in> set (qz_order ?q)" for p
      proof -
        obtain k where k: "k < QUIZ_POSITIONS" "p = qz_order ?q ! k" using p R(1) by (auto simp: in_set_conv_nth)
        then have "k < qz_asked ?q + 1" using False by simp
        then have "(p, qz_words ?q ! p) \<in> given ?n" using k(2) by (auto simp: given_def)
        then show ?thesis unfolding g .
      qed
      have key: "quiz_key (dp_rng D) BIP39_WORDS key ?q r = ((QuizPassed, ?q\<lparr>qz_wrong := False, qz_asked := qz_asked ?q + 1\<rparr>), r)"
        using right(1) False by simp
      have S': "ss_check S' = None"
        using assms(1) Some key by (auto simp: session_quiz_key_def Let_def split: prod.splits sum.splits)
      have ev: "ref = ck_access_structure_ref c \<and> i = ck_share_index c \<and> log = ?log"
        if "quiz_event key S res = CheckReported ref i log" for ref i log
        using that Some by (auto simp: quiz_event_def split: sum.splits checked.splits option.splits)
      show ?thesis using ok(3) R all ev checking_ok_none[OF S'] by metis
    qed
  qed
qed

lemma confirm_at_checking:
  assumes "confirm_at D prompt page S r ob = (res, S', r', ob')" "checking_ok es S" "decrypts_shares D"
  shows "checking_ok (es @ [confirm_event D prompt S res]) S'"
proof (cases rule: confirm_at_cases[of D r prompt page S ob])
  case (refused e r1)
  then show ?thesis using assms(1,2) by (auto simp: confirm_event_def still_checking_def intro: checking_ok_same)
next
  case (shown c r1 g)
  note go = assms(1)[unfolded shown(3)]
  show ?thesis
  proof (cases "\<exists>k phase. prompt = UserRestoration (CheckBackup k phase)")
    case True
    then obtain k phase where p: "prompt = UserRestoration (CheckBackup k phase)" by blast
    show ?thesis
    proof (cases "backup_words D phase (ss_secrets S)")
      case (Inl e)
      then show ?thesis using go p assms(2) by (auto simp: carry_out_def confirm_event_def still_checking_def intro: checking_ok_same)
    next
      case (Inr ws)
      obtain oq r2 where n: "quiz_new (dp_rng D) BIP39_WORDS ws r1 = (oq, r2)" by fastforce
      show ?thesis
      proof (cases oq)
        case None
        then show ?thesis using go p Inr n assms(2)
          by (auto simp: carry_out_def confirm_event_def still_checking_def intro: checking_ok_same)
      next
        case (Some q)
        have q: "quiz_wf BIP39_WORDS q" "qz_words q = ws" "qz_asked q = 0"
          using bip39.new_spec[OF backup_words_length[OF assms(3) Inr], of "dp_rng D" r1] n Some by simp_all
        have "checking_since ref i ws {} (es @ [QuizBegun ref i ws])" for ref i
          unfolding checking_since_def by (intro exI[of _ es] exI[of _ "[]"]) simp
        then show ?thesis using go p Inr n Some q
          by (auto simp: carry_out_def confirm_event_def checking_ok_def given_def QUIZ_POSITIONS_def QUIZ_WORDS_def)
      qed
    qed
  next
    case False
    then have un: "still_checking (confirm_event D prompt S res)"
      by (auto simp: confirm_event_def still_checking_def split: prompt.splits to_user_restoration.splits sum.splits)
    have "ss_check S' = ss_check S"
    proof (cases "\<exists>k phase. prompt = UserRestoration (DisplayBackup k phase)")
      case True
      then show ?thesis using go by (auto simp: carry_out_def split: sum.splits)
    next
      case no: False
      then show ?thesis using carry_out_touches[OF go] False by (auto simp: untouched_def)
    qed
    then show ?thesis using checking_ok_same[OF assms(2) _ un] by blast
  qed
qed

lemma show_backup_touches:
  "show_backup D page f S r = (res, S', f', r') \<Longrightarrow> ss_check S' = ss_check S \<and> ss_entry S' = ss_entry S"
  by (cases "ss_reveal S") (auto simp: show_backup_def Let_def split: sum.splits prod.splits bool.splits)

lemma step_checking:
  assumes "session_step D op w = (e, w')" "checking_ok es (wd_session w)" "decrypts_shares D"
  shows "checking_ok (es @ [e]) (wd_session w') \<and>
    (\<forall>ref i log. e = CheckReported ref i log \<longrightarrow>
      (\<exists>ws L order. checking_since ref i ws L es \<and> length order = QUIZ_POSITIONS \<and> distinct order \<and> LAST_POSITION \<in> set order \<and>
        (\<forall>p \<in> set order. p < QUIZ_WORDS \<and> (p, ws ! p) \<in> L \<union> set log)))"
proof (cases op)
  case (OpRecv body)
  obtain res S' r' ob' where s: "recv D body (wd_session w) (wd_rng w) (wd_outbox w) = (res, S', r', ob')"
    using prod_cases4 by blast
  show ?thesis
  proof (cases "body = Cancel")
    case True
    then show ?thesis using assms s OpRecv by (auto simp: session_step_def checking_ok_def recv_def)
  next
    case False
    have "ss_check S' = ss_check (wd_session w)" using recv_untouched[OF s False] by (simp add: untouched_def)
    then show ?thesis using assms(1) s OpRecv False checking_ok_same[OF assms(2), of S' Quiet]
      by (auto simp: session_step_def still_checking_def)
  qed
next
  case (OpConfirm prompt page)
  obtain res S' r' ob' where s: "confirm_at D prompt page (wd_session w) (wd_rng w) (wd_outbox w) = (res, S', r', ob')"
    using prod_cases4 by blast
  have "confirm_event D prompt (wd_session w) res \<noteq> CheckReported ref i log" for ref i log
    by (auto simp: confirm_event_def split: sum.splits prompt.splits to_user_restoration.splits)
  then show ?thesis using assms(1) s OpConfirm confirm_at_checking[OF s assms(2,3)] by (auto simp: session_step_def)
next
  case (OpShowBackup page)
  obtain res S' f' r' where s: "show_backup D page (wd_frame w) (wd_session w) (wd_rng w) = (res, S', f', r')"
    using prod_cases4 by blast
  then show ?thesis using assms(1) OpShowBackup show_backup_touches[OF s]
      checking_ok_same[OF assms(2), of S' "if res = Inr True then PageDrawn page else Quiet"]
    by (auto simp: session_step_def still_checking_def split: if_splits)
next
  case OpBackupRecorded
  obtain res S' ob' where s: "backup_recorded D (wd_session w) (wd_outbox w) = (res, S', ob')" using prod_cases3 by blast
  then show ?thesis using assms(1) OpBackupRecorded backup_recorded_touches[OF s]
      checking_ok_same[OF assms(2), of S' "if res = Inr () then Recorded else Quiet"]
    by (auto simp: session_step_def still_checking_def split: if_splits)
next
  case (OpEntryKey key)
  obtain res S' ob' where s: "session_entry_key D key (wd_session w) (wd_outbox w) = (res, S', ob')" using prod_cases3 by blast
  have "ss_check S' = ss_check (wd_session w)" using entry_key_touches[OF s] by (auto simp: untouched_def)
  then show ?thesis using assms(1) s OpEntryKey checking_ok_same[OF assms(2), of S' Quiet]
    by (auto simp: session_step_def still_checking_def)
next
  case (OpQuizKey key)
  obtain res S' r' ob' where s: "session_quiz_key D key (wd_session w) (wd_rng w) (wd_outbox w) = (res, S', r', ob')"
    using prod_cases4 by blast
  then show ?thesis using assms(1) OpQuizKey quiz_key_checking[OF s assms(2)] by (auto simp: session_step_def)
qed

lemma runs_checking:
  "session_runs D w es w' \<Longrightarrow> checking_ok [] (wd_session w) \<Longrightarrow> decrypts_shares D \<Longrightarrow> checking_ok es (wd_session w')"
  by (induction rule: session_runs.induct) (use step_checking in blast)+

text \<open>Since the consent to the check every position asked was given its word.\<close>

lemma checked_after_eight_words:
  assumes "session_runs D w (pre @ CheckReported ref i log # post) w'" "checking_ok [] (wd_session w)" "decrypts_shares D"
  shows "\<exists>a ws mid order. pre = a @ QuizBegun ref i ws # mid \<and> (\<forall>e \<in> set mid. still_checking e) \<and>
    length order = QUIZ_POSITIONS \<and> distinct order \<and> LAST_POSITION \<in> set order \<and>
    (\<forall>p \<in> set order. p < QUIZ_WORDS \<and> (p, ws ! p) \<in> answers_in (mid @ [CheckReported ref i log]))"
proof -
  obtain w1 op w2 where s: "session_runs D w pre w1" "session_step D op w1 = (CheckReported ref i log, w2)"
    using runs_prefix[OF assms(1) refl] by blast
  obtain ws L order where o: "checking_since ref i ws L pre" "length order = QUIZ_POSITIONS" "distinct order"
    "LAST_POSITION \<in> set order" "\<forall>p \<in> set order. p < QUIZ_WORDS \<and> (p, ws ! p) \<in> L \<union> set log"
    using step_checking[OF s(2) runs_checking[OF s(1) assms(2,3)] assms(3)] by blast
  obtain a mid where m: "pre = a @ QuizBegun ref i ws # mid" "\<forall>e \<in> set mid. still_checking e" "L \<subseteq> answers_in mid"
    using o(1) by (auto simp: checking_since_def)
  have "answers_in (mid @ [CheckReported ref i log]) = answers_in mid \<union> set log" by (auto simp: answers_in_def)
  then have "\<forall>p \<in> set order. p < QUIZ_WORDS \<and> (p, ws ! p) \<in> answers_in (mid @ [CheckReported ref i log])"
    using o(5) m(3) by blast
  then show ?thesis using m(1,2) o(2-4) by blast
qed

end
