(* ===== verification/MainLoopCorrect.thy ===== *)
theory MainLoopCorrect
  imports MainLoop SessionCorrect
begin

text \<open>
  The loop of \<open>firmware/src/main.rs\<close>: what is on the panel when a prompt waits or a flow runs, what a
  key must be to consent, and what a refused message leaves behind.
\<close>

subsection \<open>What was drawn\<close>

text \<open>A parked prompt was drawn, at some time, at its page, under one of the five digits.\<close>

definition prompt_drawn :: "('s, 'f, 'r, 'x, 'e) deps \<Rightarrow> 'x parked \<Rightarrow> frame list \<Rightarrow> bool" where
  "prompt_drawn D parked frames \<longleftrightarrow>
     (case parked of (prompt, confirm, page, asks) \<Rightarrow> confirm \<in> set CONFIRM_CHARSET \<and>
        (\<exists>f \<in> set frames. prompt_screen_at (dp_ask D) prompt confirm page frame_new = (Inr (ShownPage asks), f)))"

text \<open>The screen a flow answers for.\<close>

definition reveal_drawn :: "('s, 'f, 'r, 'x, 'e) deps \<Rightarrow> reveal \<Rightarrow> frame \<Rightarrow> bool" where
  "reveal_drawn D state f \<longleftrightarrow>
     (case state of
        RevealPage page \<Rightarrow> \<exists>pages r r'. backup_render (dp_rng D) pages page frame_new r = (True, f, r')
      | RevealRecorded confirm \<Rightarrow> confirm \<in> set CONFIRM_CHARSET \<and> (\<exists>g. f = backup_recorded_page confirm g))"

definition check_drawn :: "('s, 'f, 'r, 'x, 'e) deps \<Rightarrow> check_flow \<Rightarrow> frame \<Rightarrow> bool" where
  "check_drawn D state f \<longleftrightarrow>
     (case state of
        CheckAsking \<Rightarrow> \<exists>question options r r'. quiz_frame (dp_rng D) (ScreenQuizWord question options) frame_new r = (True, f, r')
      | CheckPassed \<Rightarrow> \<exists>checked r r'. quiz_frame (dp_rng D) (ScreenQuizPassed checked) frame_new r = (True, f, r'))"

definition flow_drawn :: "('s, 'f, 'r, 'x, 'e) deps \<Rightarrow> flow \<Rightarrow> frame \<Rightarrow> bool" where
  "flow_drawn D flow f \<longleftrightarrow>
     (case flow of
        FlowReveal state \<Rightarrow> reveal_drawn D state f
      | FlowEntry \<Rightarrow> \<exists>screen r r'. entry_frame (dp_rng D) screen frame_new r = (True, f, r')
      | FlowCheck state \<Rightarrow> check_drawn D state f)"

text \<open>A prompt and a flow never wait together; a flow is on the glass while it waits.\<close>

definition in_step :: "('s, 'f, 'r, 'x, 'e) deps \<Rightarrow> 'x parked option \<Rightarrow> flow option \<Rightarrow> frame list option \<Rightarrow> bool" where
  "in_step D parked glass panel \<longleftrightarrow>
     (case parked of None \<Rightarrow> True | Some p \<Rightarrow> glass = None \<and> (\<exists>frames. panel = Some frames \<and> prompt_drawn D p frames)) \<and>
     (case glass of None \<Rightarrow> True | Some flow \<Rightarrow> \<exists>f frames. panel = Some (f # frames) \<and> flow_drawn D flow f)"

abbreviation loop_in_step :: "('s, 'f, 'r, 'x, 'e) deps \<Rightarrow> ('s, 'f, 'r, 'x, 'h, 'b) loop \<Rightarrow> bool" where
  "loop_in_step D L \<equiv> in_step D (lp_parked L) (lp_glass L) (lp_panel L)"

lemma flow_drawn_simps [simp]:
  "flow_drawn D (FlowReveal state) f \<longleftrightarrow> reveal_drawn D state f"
  "flow_drawn D (FlowCheck asked) f \<longleftrightarrow> check_drawn D asked f"
  by (simp_all add: flow_drawn_def)

lemma in_step_none [simp]: "in_step D None None panel"
  by (simp add: in_step_def)

lemma in_step_flow: "in_step D None (Some flow) panel \<longleftrightarrow> (\<exists>f frames. panel = Some (f # frames) \<and> flow_drawn D flow f)"
  by (simp add: in_step_def)

lemma in_step_parked: "in_step D (Some p) glass panel \<longleftrightarrow> glass = None \<and> (\<exists>frames. panel = Some frames \<and> prompt_drawn D p frames)"
  by (auto simp: in_step_def)

lemma prompt_drawn_more: "prompt_drawn D p frames \<Longrightarrow> prompt_drawn D p (f # frames)"
  by (auto simp: prompt_drawn_def split: prod.splits)

lemma in_step_covered: "in_step D parked glass panel \<Longrightarrow> in_step D parked None (map_option (Cons f) panel)"
  by (cases parked) (auto simp: in_step_parked dest: prompt_drawn_more)

lemma in_step_taken: "in_step D parked glass panel \<Longrightarrow> in_step D parked None panel"
  by (cases parked) (auto simp: in_step_parked)

lemma panel_show_simps [simp]:
  "lp_session (panel_show f L) = lp_session L" "lp_rng (panel_show f L) = lp_rng L"
  "lp_outbox (panel_show f L) = lp_outbox L" "lp_parked (panel_show f L) = lp_parked L"
  "lp_glass (panel_show f L) = lp_glass L" "lp_panel (panel_show f L) = map_option (Cons f) (lp_panel L)"
  "lp_written (panel_show f L) = lp_written L"
  by (simp_all add: panel_show_def)

lemma take_glass_simps [simp]:
  "lp_session (take_glass f L) = lp_session L" "lp_outbox (take_glass f L) = lp_outbox L"
  "lp_parked (take_glass f L) = lp_parked L" "lp_glass (take_glass f L) = None"
  "lp_panel (take_glass f L) = map_option (Cons f) (lp_panel L)" "lp_written (take_glass f L) = lp_written L"
  by (simp_all add: take_glass_def)

lemma idle_simps [simp]:
  "lp_session (idle D L) = lp_session L" "lp_outbox (idle D L) = lp_outbox L"
  "lp_parked (idle D L) = lp_parked L" "lp_glass (idle D L) = lp_glass L"
  by (simp_all add: idle_def)

lemma refuse_on_glass_simps [simp]:
  "lp_session (refuse_on_glass L) = lp_session L" "lp_outbox (refuse_on_glass L) = lp_outbox L"
  "lp_parked (refuse_on_glass L) = lp_parked L"
  by (simp_all add: refuse_on_glass_def)

lemma idle_if_panel_simps [simp]:
  "lp_session (idle_if_panel D L) = lp_session L" "lp_outbox (idle_if_panel D L) = lp_outbox L"
  "lp_parked (idle_if_panel D L) = lp_parked L" "lp_glass (idle_if_panel D L) = lp_glass L"
  by (simp_all add: idle_if_panel_def)

subsection \<open>Drawing keeps prompts and flows in step\<close>

lemma refuse_in_step: "loop_in_step D L \<Longrightarrow> loop_in_step D (refuse_on_glass L)"
  by (auto simp: refuse_on_glass_def intro: in_step_covered[where parked = "lp_parked L"])

lemma draw_prompt_same:
  "draw_prompt D prompt confirm page L = (shown, L') \<Longrightarrow>
   lp_session L' = lp_session L \<and> lp_outbox L' = lp_outbox L \<and> lp_parked L' = lp_parked L \<and> lp_written L' = lp_written L"
  by (auto simp: draw_prompt_def split: prod.splits sum.splits shown.splits)

lemma draw_prompt_in_step:
  "draw_prompt D prompt confirm page L = (shown, L') \<Longrightarrow> loop_in_step D L \<Longrightarrow> loop_in_step D L'"
  by (auto simp: draw_prompt_def split: prod.splits sum.splits shown.splits intro: in_step_covered)

lemma draw_prompt_shown:
  assumes "draw_prompt D prompt confirm page L = (Some asks, L')" "lp_panel L = Some frames" "confirm \<in> set CONFIRM_CHARSET"
  shows "lp_glass L' = None \<and> (\<exists>frames'. lp_panel L' = Some frames' \<and> prompt_drawn D (prompt, confirm, page, asks) frames')"
  using assms by (auto simp: draw_prompt_def prompt_drawn_def split: prod.splits sum.splits shown.splits)

lemma draw_prompt_panel:
  "draw_prompt D prompt confirm page L = (shown, L') \<Longrightarrow> lp_panel L = Some frames \<Longrightarrow>
   (\<exists>frames'. lp_panel L' = Some frames' \<and> set frames \<subseteq> set frames') \<and> (lp_glass L = None \<longrightarrow> lp_glass L' = None)"
  by (auto simp: draw_prompt_def split: prod.splits sum.splits shown.splits)

text \<open>What a batch would park is drawn by the time the batch is.\<close>

lemma draw_batch_in_step:
  "draw_batch D prompts acc L = (acc', L') \<Longrightarrow> lp_panel L = Some frames \<Longrightarrow> loop_in_step D L \<Longrightarrow>
   in_step D acc (if acc = None then None else lp_glass L) (lp_panel L) \<Longrightarrow>
   lp_session L' = lp_session L \<and> lp_outbox L' = lp_outbox L \<and> lp_written L' = lp_written L \<and>
   lp_parked L' = lp_parked L \<and> loop_in_step D L' \<and>
   in_step D acc' (if acc' = None then None else lp_glass L') (lp_panel L')"
proof (induction prompts arbitrary: acc L frames)
  case (Cons prompt prompts)
  obtain confirm r where c: "draw_confirm (dp_rng D) (lp_rng L) = (confirm, r)" by fastforce
  obtain shown L1 where d: "draw_prompt D prompt confirm 0 (L\<lparr>lp_rng := r\<rparr>) = (shown, L1)" by fastforce
  note same = draw_prompt_same[OF d] and step = draw_prompt_in_step[OF d] and panel = draw_prompt_panel[OF d]
  obtain frames1 where f1: "lp_panel L1 = Some frames1" "set frames \<subseteq> set frames1" "lp_glass L = None \<longrightarrow> lp_glass L1 = None"
    using panel Cons.prems(2) by auto
  have s1: "loop_in_step D L1" using step Cons.prems(3) by simp
  have kept: "in_step D acc (if acc = None then None else lp_glass L1) (lp_panel L1)"
    using Cons.prems(2,4) f1 by (cases acc) (auto simp: in_step_parked prompt_drawn_def split: prod.splits)
  show ?case
  proof (cases shown)
    case None
    then have "draw_batch D prompts acc L1 = (acc', L')" using Cons.prems(1) c d by simp
    from Cons.IH[OF this f1(1) s1 kept] show ?thesis using same by auto
  next
    case (Some asks)
    then have "draw_batch D prompts (Some (prompt, confirm, 0, asks)) L1 = (acc', L')" using Cons.prems(1) c d by simp
    moreover have "in_step D (Some (prompt, confirm, 0, asks)) (lp_glass L1) (lp_panel L1)"
      using draw_prompt_shown[OF d[unfolded Some], of frames] Cons.prems(2) drawn_digit[OF c] by (simp add: in_step_parked)
    then have "in_step D (Some (prompt, confirm, 0, asks)) (if Some (prompt, confirm, 0, asks) = None then None else lp_glass L1) (lp_panel L1)"
      by (simp only: option.distinct if_False)
    ultimately have "lp_session L' = lp_session L1 \<and> lp_outbox L' = lp_outbox L1 \<and> lp_written L' = lp_written L1 \<and>
        lp_parked L' = lp_parked L1 \<and> loop_in_step D L' \<and>
        in_step D acc' (if acc' = None then None else lp_glass L') (lp_panel L')"
      by (intro Cons.IH[OF _ f1(1) s1])
    then show ?thesis using same by auto
  qed
qed simp

lemma park_batch_in_step:
  assumes "loop_in_step D L"
  shows "loop_in_step D (park_batch D prompts L)"
proof (cases "lp_panel L")
  case (Some frames)
  obtain parked L' where d: "draw_batch D prompts None L = (parked, L')" by fastforce
  from draw_batch_in_step[OF d Some assms] show ?thesis
    using Some d by (cases parked) (auto simp: park_batch_def in_step_parked)
qed (use assms in \<open>simp add: park_batch_def\<close>)

lemma park_batch_same:
  "lp_session (park_batch D prompts L) = lp_session L" "lp_outbox (park_batch D prompts L) = lp_outbox L"
  "lp_written (park_batch D prompts L) = lp_written L"
proof -
  have "draw_batch D prompts acc L = (acc', L') \<Longrightarrow>
    lp_session L' = lp_session L \<and> lp_outbox L' = lp_outbox L \<and> lp_written L' = lp_written L" for acc acc' L L'
  proof (induction prompts arbitrary: acc L)
    case (Cons prompt prompts)
    obtain confirm r where c: "draw_confirm (dp_rng D) (lp_rng L) = (confirm, r)" by fastforce
    obtain shown L1 where d: "draw_prompt D prompt confirm 0 (L\<lparr>lp_rng := r\<rparr>) = (shown, L1)" by fastforce
    show ?case using Cons draw_prompt_same[OF d] c d by (cases shown) auto
  qed simp
  then show "lp_session (park_batch D prompts L) = lp_session L" "lp_outbox (park_batch D prompts L) = lp_outbox L"
    "lp_written (park_batch D prompts L) = lp_written L"
    by (auto simp: park_batch_def split: prod.splits option.splits)
qed

lemma hear_frame_in_step:
  "hear_frame B frame L = Some (h, L') \<Longrightarrow> loop_in_step (bd_deps B) L \<Longrightarrow> loop_in_step (bd_deps B) L'"
  by (auto simp: hear_frame_def Let_def intro!: park_batch_in_step refuse_in_step
      split: serial.splits sum.splits prod.splits fault.splits)

lemma hear_frames_in_step:
  "hear_frames B frames h L = Some (h', L') \<Longrightarrow> loop_in_step (bd_deps B) L \<Longrightarrow> loop_in_step (bd_deps B) L'"
proof (induction frames arbitrary: h L)
  case (Cons frame frames)
  then obtain h1 L1 where f: "hear_frame B frame L = Some (h1, L1)" by (auto split: option.splits)
  show ?case using Cons.IH[OF _ hear_frame_in_step[OF f Cons.prems(2)]] Cons.prems(1) f by simp
qed simp

lemma hear_in_step:
  "hear B packet L = Some (on, h, L') \<Longrightarrow> loop_in_step (bd_deps B) L \<Longrightarrow> loop_in_step (bd_deps B) L'"
  by (auto simp: hear_def Let_def split: prod.splits option.splits sum.splits if_splits dest!: hear_frames_in_step)

lemma ask_key_same:
  "ask_key B asked L = (ans, L') \<Longrightarrow>
   lp_session L' = lp_session L \<and> lp_outbox L' = lp_outbox L \<and> lp_parked L' = lp_parked L \<and>
   lp_glass L' = lp_glass L \<and> lp_panel L' = lp_panel L \<and> lp_written L' = lp_written L"
  by (auto simp: ask_key_def split: prod.splits)

subsection \<open>Flows are drawn before they wait\<close>

lemma show_backup_drawn:
  "show_backup D page f S r = (Inr True, S', f', r') \<Longrightarrow> \<exists>pages r0. backup_render (dp_rng D) pages page f r0 = (True, f', r')"
  by (auto simp: show_backup_def Let_def split: option.splits sum.splits prod.splits bool.splits)

lemma flow_drawnI:
  "backup_render (dp_rng D) pages page frame_new r = (True, f, r') \<Longrightarrow> reveal_drawn D (RevealPage page) f"
  "confirm \<in> set CONFIRM_CHARSET \<Longrightarrow> reveal_drawn D (RevealRecorded confirm) (backup_recorded_page confirm g)"
  "entry_frame (dp_rng D) entering frame_new r = (True, f, r') \<Longrightarrow> flow_drawn D FlowEntry f"
  "quiz_frame (dp_rng D) (ScreenQuizWord question options) frame_new r = (True, f, r') \<Longrightarrow> check_drawn D CheckAsking f"
  "quiz_frame (dp_rng D) (ScreenQuizPassed checked) frame_new r = (True, f, r') \<Longrightarrow> check_drawn D CheckPassed f"
  unfolding reveal_drawn_def check_drawn_def flow_drawn_def by (simp; blast)+

lemma show_backup_page_drawn:
  assumes "show_backup_page D page L = Some (state, L')" "lp_panel L = Some frames"
  shows "lp_parked L' = lp_parked L \<and> (\<exists>f. lp_panel L' = Some (f # frames) \<and>
    (case state of None \<Rightarrow> True | Some st \<Rightarrow> reveal_drawn D st f))"
proof -
  obtain confirm r where c: "draw_confirm (dp_rng D) (lp_rng L) = (confirm, r)" by fastforce
  obtain shown S f r1 where s: "show_backup D page frame_new (lp_session L) r = (shown, S, f, r1)"
    by (rule prod_cases4)
  have digit: "confirm \<in> set CONFIRM_CHARSET" by (rule drawn_digit[OF c])
  show ?thesis
  proof (cases shown)
    case (Inl e)
    then show ?thesis using assms c s
      by (cases e) (auto simp: show_backup_page_def Let_def reveal_draw_def)
  next
    case (Inr drawn)
    then show ?thesis using assms c s digit s
      by (cases drawn) (auto simp: show_backup_page_def Let_def reveal_draw_def idle_def intro: flow_drawnI
        dest!: show_backup_drawn split: if_splits)
  qed
qed

lemma show_entry_page_drawn:
  assumes "show_entry_page D L = (drawn, L')" "lp_panel L = Some frames"
  shows "lp_parked L' = lp_parked L \<and> (\<exists>f. lp_panel L' = Some (f # frames) \<and> (drawn \<longrightarrow> flow_drawn D FlowEntry f))"
  using assms by (auto simp: show_entry_page_def idle_def intro: flow_drawnI split: option.splits prod.splits bool.splits)

lemma show_quiz_drawn:
  assumes "show_quiz D screen L = (state, L')" "lp_panel L = Some frames"
  shows "lp_parked L' = lp_parked L \<and> (\<exists>f. lp_panel L' = Some (f # frames) \<and>
    (case state of None \<Rightarrow> True | Some st \<Rightarrow> check_drawn D st f))"
  using assms
  by (auto simp: show_quiz_def idle_def intro: flow_drawnI split: option.splits prod.splits bool.splits quiz_screen.splits)

lemma granted_in_step:
  assumes "granted D grant prompts L = Some L'" "lp_parked L = None" "lp_glass L = None"
  shows "loop_in_step D L'"
proof (cases "lp_panel L")
  case None
  then show ?thesis using assms by (simp add: granted_def)
next
  case (Some frames)
  show ?thesis
  proof (cases grant)
    case None
    then show ?thesis using assms Some by (auto simp: granted_def intro!: park_batch_in_step)
  next
    case g: (Some kind)
    show ?thesis
    proof (cases kind)
      case GrantReveal
      then obtain state L1 where "show_backup_page D 0 L = Some (state, L1)" "L' = L1\<lparr>lp_glass := map_option FlowReveal state\<rparr>"
        using assms(1) Some g by (auto simp: granted_def split: option.splits)
      then show ?thesis using show_backup_page_drawn[OF _ Some, of D 0 state L1] assms(2)
        by (cases state) (auto simp: in_step_flow)
    next
      case GrantEntry
      then obtain drawn L1 where "show_entry_page D L = (drawn, L1)" "L' = L1\<lparr>lp_glass := if drawn then Some FlowEntry else None\<rparr>"
        using assms(1) Some g by (auto simp: granted_def split: prod.splits)
      then show ?thesis using show_entry_page_drawn[OF _ Some, of D drawn L1] assms(2) by (auto simp: in_step_flow)
    next
      case GrantCheck
      then obtain state L1 where "show_quiz D (session_quiz_screen (lp_session L)) L = (state, L1)"
        "L' = L1\<lparr>lp_glass := map_option FlowCheck state\<rparr>"
        using assms(1) Some g by (auto simp: granted_def split: prod.splits)
      then show ?thesis using show_quiz_drawn[OF _ Some, of D "session_quiz_screen (lp_session L)" state L1] assms(2)
        by (cases state) (auto simp: in_step_flow)
    qed
  qed
qed

subsection \<open>Serving\<close>

lemma serve_prompt_in_step:
  assumes "serve_prompt B parked L = Some L'" "lp_parked L = None" "lp_glass L = None"
    "lp_panel L = Some frames" "prompt_drawn (bd_deps B) parked frames"
  shows "loop_in_step (bd_deps B) L'"
proof -
  obtain prompt confirm page asks where p: "parked = (prompt, confirm, page, asks)" by (cases parked)
  obtain ans L1 where a: "ask_key B (ConsentPrompt prompt confirm, asks) L = (ans, L1)" by fastforce
  note same = ask_key_same[OF a]
  have idle: "loop_in_step (bd_deps B) L1" using same assms(2,3) by simp
  show ?thesis
  proof (cases ans)
    case AnsWait
    then show ?thesis using assms a p same by (auto simp: serve_prompt_def in_step_parked)
  next
    case AnsNext
    obtain shown L2 where d: "draw_prompt (bd_deps B) prompt confirm (u32_sat_add page 1) L1 = (shown, L2)" by fastforce
    have digit: "confirm \<in> set CONFIRM_CHARSET" using assms(5) p by (simp add: prompt_drawn_def)
    show ?thesis
    proof (cases shown)
      case None
      then show ?thesis using assms(1,4) a p d AnsNext same draw_prompt_in_step[OF d idle]
        by (auto simp: serve_prompt_def)
    next
      case (Some asks')
      then show ?thesis using assms(1,4) a p d AnsNext same draw_prompt_shown[OF d[unfolded Some] _ digit, of frames]
        by (auto simp: serve_prompt_def in_step_parked)
    qed
  next
    case AnsYes
    then show ?thesis using assms(1-3) a p same
      by (auto simp: serve_prompt_def Let_def intro!: refuse_in_step dest: granted_in_step
          split: prod.splits sum.splits fault.splits)
  qed (use assms(1) a p idle in \<open>auto simp: serve_prompt_def intro: refuse_in_step\<close>)
qed

lemma idle_if_panel_in_step: "lp_parked L = None \<Longrightarrow> lp_glass L = None \<Longrightarrow> loop_in_step D (idle_if_panel D L)"
  by simp

lemma serve_reveal_in_step:
  assumes "serve_reveal B state ans L = Some L'" "lp_parked L = None" "lp_glass L = None"
    "lp_panel L = Some (f # frames)" "reveal_drawn (bd_deps B) state f"
  shows "loop_in_step (bd_deps B) L'"
proof (cases "reveal_step state ans BACKUP_END")
  case (RevealShow page)
  then obtain next_state L1 where "show_backup_page (bd_deps B) page L = Some (next_state, L1)"
    "L' = L1\<lparr>lp_glass := map_option FlowReveal next_state\<rparr>"
    using assms(1,4) by (auto simp: serve_reveal_def split: option.splits)
  then show ?thesis using show_backup_page_drawn[OF _ assms(4), of "bd_deps B" page next_state L1] assms(2)
    by (cases next_state) (auto simp: in_step_flow)
qed (use assms in \<open>auto simp: serve_reveal_def in_step_flow split: prod.splits\<close>)

lemma serve_entry_in_step:
  assumes "serve_entry B ans L = Some L'" "lp_parked L = None" "lp_glass L = None"
    "lp_panel L = Some (f # frames)" "flow_drawn (bd_deps B) FlowEntry f"
  shows "loop_in_step (bd_deps B) L'"
proof -
  have drawn: "in_step (bd_deps B) (lp_parked M') (if d then Some FlowEntry else None) (lp_panel M')"
    if "show_entry_page (bd_deps B) M = (d, M')" "lp_parked M = None" "lp_panel M = Some (f # frames)" for M d M'
    using show_entry_page_drawn[OF that(1,3)] that(2) by (auto simp: in_step_flow)
  show ?thesis
  proof (cases "session_entry_screen (lp_session L) \<noteq> None \<and> (\<exists>key. entry_step_of ans = EntryKeyed key)")
    case True
    then obtain key where key: "session_entry_screen (lp_session L) \<noteq> None" "entry_step_of ans = EntryKeyed key" by blast
    obtain res S ob where e: "session_entry_key (bd_deps B) key (lp_session L) (lp_outbox L) = (res, S, ob)" by (rule prod_cases3)
    show ?thesis
    proof (cases "res = Inr TypedRedraw")
      case True
      obtain d M' where m: "show_entry_page (bd_deps B) (L\<lparr>lp_session := S, lp_outbox := ob\<rparr>) = (d, M')" by fastforce
      show ?thesis using drawn[OF m] assms(1,2,4) True e key m by (auto simp: serve_entry_def)
    next
      case False
      then show ?thesis using assms e key
        by (auto simp: serve_entry_def Let_def in_step_flow intro!: park_batch_in_step refuse_in_step
            split: typed_step.splits sum.splits fault.splits)
    qed
  next
    case False
    then show ?thesis using assms
      by (auto simp: serve_entry_def in_step_flow split: entry_turn.splits if_splits)
  qed
qed

lemma serve_check_in_step:
  assumes "serve_check B state ans L = Some L'" "lp_parked L = None" "lp_glass L = None"
    "lp_panel L = Some (f # frames)" "check_drawn (bd_deps B) state f"
  shows "loop_in_step (bd_deps B) L'"
proof -
  have drawn: "in_step (bd_deps B) (lp_parked M') (map_option FlowCheck next_state) (lp_panel M')"
    if "show_quiz (bd_deps B) screen M = (next_state, M')" "lp_parked M = None" "lp_panel M = Some (f # frames)" for screen M next_state M'
    using show_quiz_drawn[OF that(1,3)] that(2) by (cases next_state) (auto simp: in_step_flow)
  show ?thesis
  proof (cases "(if state = CheckAsking \<and> session_quiz_screen (lp_session L) = None then CheckDone else check_step state ans)")
    case (CheckKeyed key)
    obtain res S r ob where e: "session_quiz_key (bd_deps B) key (lp_session L) (lp_rng L) (lp_outbox L) = (res, S, r, ob)"
      by (rule prod_cases4)
    let ?L = "L\<lparr>lp_session := S, lp_rng := r, lp_outbox := ob\<rparr>"
    have shown: "loop_in_step (bd_deps B) (M'\<lparr>lp_glass := map_option FlowCheck next_state\<rparr>)"
      if "show_quiz (bd_deps B) screen ?L = (next_state, M')" for screen next_state M'
      using drawn[OF that] assms(2,4) by simp
    show ?thesis using assms e CheckKeyed
      by (auto simp: serve_check_def Let_def in_step_flow intro!: refuse_in_step dest: shown
          split: checked.splits sum.splits fault.splits option.splits prod.splits)
  qed (use assms in \<open>auto simp: serve_check_def in_step_flow\<close>)
qed

lemma serve_in_step:
  assumes "serve B L = Some L'" "loop_in_step (bd_deps B) L"
  shows "loop_in_step (bd_deps B) L'"
proof (cases "lp_parked L")
  case (Some parked)
  then obtain frames where "lp_glass L = None" "lp_panel L = Some frames" "prompt_drawn (bd_deps B) parked frames"
    using assms(2) by (auto simp: in_step_parked)
  then show ?thesis using assms(1) Some serve_prompt_in_step[of B parked "L\<lparr>lp_parked := None\<rparr>" L' frames]
    by (simp add: serve_def)
next
  case None
  show ?thesis
  proof (cases "lp_glass L")
    case None
    then show ?thesis using assms \<open>lp_parked L = None\<close> by (simp add: serve_def)
  next
    case (Some flow)
    then obtain f frames where f: "lp_panel L = Some (f # frames)" "flow_drawn (bd_deps B) flow f"
      using assms(2) None by (auto simp: in_step_flow)
    obtain ans L1 where a: "ask_key B (flow_consent flow) (L\<lparr>lp_glass := None\<rparr>) = (ans, L1)" by fastforce
    have L1: "lp_parked L1 = None" "lp_glass L1 = None" "lp_panel L1 = Some (f # frames)"
      using ask_key_same[OF a] None f(1) by simp_all
    show ?thesis using assms(1) None Some a f(2) serve_reveal_in_step[OF _ L1] serve_entry_in_step[OF _ L1]
        serve_check_in_step[OF _ L1]
      by (cases flow) (auto simp: serve_def)
  qed
qed

lemma flush_same:
  "lp_session (flush B h L) = lp_session L" "lp_parked (flush B h L) = lp_parked L"
  "lp_glass (flush B h L) = lp_glass L" "lp_panel (flush B h L) = lp_panel L"
  by (simp_all add: flush_def Let_def split: prod.splits)

lemma loop_turn_in_step:
  "loop_turn B packet L = Some L' \<Longrightarrow> loop_in_step (bd_deps B) L \<Longrightarrow> loop_in_step (bd_deps B) L'"
  by (auto simp: loop_turn_def flush_same split: option.splits prod.splits bool.splits
      dest!: hear_in_step intro: serve_in_step)

lemma loop_turns_in_step:
  "loop_turns B packets L = Some L' \<Longrightarrow> loop_in_step (bd_deps B) L \<Longrightarrow> loop_in_step (bd_deps B) L'"
proof (induction packets arbitrary: L)
  case (Cons packet packets)
  then obtain L1 where t: "loop_turn B packet L = Some L1" by (auto split: option.splits)
  show ?case using Cons.IH[OF _ loop_turn_in_step[OF t Cons.prems(2)]] Cons.prems(1) t by simp
qed simp

lemma start_in_step: "loop_in_step D (loop_start B S r panel pad backup)"
  by (simp add: loop_start_def)

subsection \<open>A key consents\<close>

lemma asks_yes:
  assumes "ask_key B (ConsentPrompt prompt confirm, asks) L = (AnsYes, L')"
  shows "asks \<and> (\<exists>h h' key r'. lp_pad L = Some h \<and>
    read_key (bd_gpio B) (dp_rng (bd_deps B)) (h, lp_rng L) = (Down key, h', r') \<and> unat key = confirm)"
  using assms
  by (auto simp: ask_key_def ask_def answer_def confirm_accepts_def split: option.splits prod.splits key_event.splits if_splits)

text \<open>Serving a prompt leaves the session and what is to be sent alone unless its digit is pressed on a page that asks.\<close>

lemma serve_prompt_needs_digit:
  assumes "serve B L = Some L'" "lp_parked L = Some (prompt, confirm, page, asks)"
  shows "(lp_session L' = lp_session L \<and> lp_outbox L' = lp_outbox L) \<or>
    asks \<and> (\<exists>h h' key r'. lp_pad L = Some h \<and>
      read_key (bd_gpio B) (dp_rng (bd_deps B)) (h, lp_rng L) = (Down key, h', r') \<and> unat key = confirm)"
proof -
  obtain ans L1 where a: "ask_key B (ConsentPrompt prompt confirm, asks) (L\<lparr>lp_parked := None\<rparr>) = (ans, L1)" by fastforce
  note same = ask_key_same[OF a]
  have served: "serve_prompt B (prompt, confirm, page, asks) (L\<lparr>lp_parked := None\<rparr>) = Some L'"
    using assms by (simp add: serve_def)
  obtain shown L2 where d: "draw_prompt (bd_deps B) prompt confirm (u32_sat_add page 1) L1 = (shown, L2)" by fastforce
  show ?thesis
  proof (cases ans)
    case AnsYes
    then show ?thesis using asks_yes[OF a[unfolded AnsYes]] by simp
  next
    case AnsNext
    then have "(case shown of Some asks' \<Rightarrow> L2\<lparr>lp_parked := Some (prompt, confirm, u32_sat_add page 1, asks')\<rparr> | None \<Rightarrow> L2) = L' \<or> L1 = L'"
      using served a d by (auto simp: serve_prompt_def split: if_splits option.splits)
    then show ?thesis using same draw_prompt_same[OF d] by (cases shown) auto
  qed (use served a same in \<open>auto simp: serve_prompt_def\<close>)
qed

subsection \<open>A refusal over a prompt\<close>

text \<open>One turn with an erase in its packet and no key pressed: the refusal is on the glass, the prompt still parked.\<close>

lemma erase_covers_prompt:
  assumes "lp_parked L = Some (prompt, confirm, page, asks)" "lp_panel L = Some frames" "lp_pad L = Some h"
    "l_linked (lp_link L)" "poll (bd_frame B) packet (lp_link L) = (Inr (), link, [SerialMessage message])"
    "decode_body (bd_inner B) message = Inr (BInner DataEraseBody)"
    "read_key (bd_gpio B) (dp_rng (bd_deps B)) (h, lp_rng L) = (AllUp, h', r')"
    "ob_frames (lp_outbox L) = 0"
  obtains L' where "loop_turn B packet L = Some L'" "lp_parked L' = lp_parked L" "lp_glass L' = None"
    "lp_panel L' = Some (refusal_page frame_new # frames)" "lp_pad L' = Some h'" "lp_rng L' = r'"
    "lp_session L' = lp_session L" "lp_outbox L' = lp_outbox L" "lp_link L' = link" "\<not> lp_magic_reply L'"
proof -
  have recv: "recv (bd_deps B) DataEraseBody (lp_session L) (lp_rng L) (lp_outbox L) =
      (Inl (FaultRefused DataErase), lp_session L, lp_rng L, lp_outbox L)"
    by (simp add: recv_def)
  let ?L = "the (loop_turn B packet L)"
  have "loop_turn B packet L \<noteq> None \<and> lp_parked ?L = lp_parked L \<and> lp_glass ?L = None \<and>
      lp_panel ?L = Some (refusal_page frame_new # frames) \<and> lp_pad ?L = Some h' \<and> lp_rng ?L = r' \<and>
      lp_session ?L = lp_session L \<and> lp_outbox ?L = lp_outbox L \<and> lp_link ?L = link \<and> \<not> lp_magic_reply ?L"
    using assms
    by (simp add: loop_turn_def hear_def hear_frame_def coordinator_body_of_def recv refuse_on_glass_def take_glass_def
        panel_show_def serve_def serve_prompt_def ask_key_def ask_def answer_def flush_def Let_def)
  then show thesis using that[of ?L] by auto
qed

text \<open>The digit in a turn with nothing in its packet: the prompt is confirmed and its replies leave.\<close>

lemma digit_confirms:
  assumes "lp_parked L = Some (prompt, confirm, page, True)" "lp_pad L = Some h" "\<not> lp_magic_reply L"
    "l_linked (lp_link L)" "poll (bd_frame B) packet (lp_link L) = (Inr (), link, [])"
    "read_key (bd_gpio B) (dp_rng (bd_deps B)) (h, lp_rng L) = (Down key, h', r')" "unat key = confirm"
    "confirm \<in> set CONFIRM_CHARSET" "grants prompt = None"
    "confirm_at (bd_deps B) prompt page (lp_session L) r' (lp_outbox L) = (Inr prompts, S', r'', ob')"
  obtains L' where "loop_turn B packet L = Some L'" "lp_session L' = S'"
    "lp_written L' = lp_written L @ (if 0 < ob_frames ob' then [ob_bytes ob'] else [])"
proof -
  have "unat key \<noteq> NEXT_KEY" using assms(7,8) by (auto simp: CONFIRM_CHARSET_def NEXT_KEY_def str_def)
  then have yes: "answer (Inr (Down key)) (ConsentPrompt prompt confirm) True = AnsYes"
    using assms(7) by (simp add: answer_def confirm_accepts_def)
  let ?M = "L\<lparr>lp_link := link, lp_parked := None, lp_pad := Some h', lp_session := S', lp_rng := r'', lp_outbox := ob'\<rparr>"
  have "loop_turn B packet L = map_option (flush B False) (granted (bd_deps B) None prompts ?M)"
    using assms yes by (simp add: loop_turn_def hear_def serve_def serve_prompt_def ask_key_def ask_def Let_def)
  moreover obtain M where m: "granted (bd_deps B) None prompts ?M = Some M" "lp_session M = S'" "lp_outbox M = ob'" "lp_written M = lp_written L"
    by (cases "lp_panel ?M") (auto simp: granted_def park_batch_same)
  ultimately show thesis using that[of "flush B False M"]
    by (simp add: flush_same) (simp add: flush_def outbox_take_def Let_def)
qed

text \<open>The refusal shows no digit: its last row is another.\<close>

lemma refusal_asks_nothing: "\<not> asks_with confirm (refusal_page f)"
proof -
  let ?g = "put_text 0 4 (str ''to sign it.'') (put_text 0 3 (str ''full. Refusing'')
    (put_text 0 2 (str ''this request in'') (put_text 0 0 (str ''CANNOT DISPLAY'') (frame_clear f))))"
  have "frame_cell (0 + 0) 7 (put_text 0 7 (str ''x to dismiss'') ?g) = Some (shown_as (str ''x to dismiss'' ! 0), False)"
    by (rule put_text_shows(2)) (simp_all add: str_def glass_defs)
  then have "frame_cell 0 FOOTER_ROW (refusal_page f) = Some (120, False)"
    by (simp add: refusal_page_def FOOTER_ROW_def ROWS_def HEIGHT_def CELL_def str_def shown_as_def glass_defs)
  then show ?thesis by (auto simp: asks_with_def shows_text_def str_def dest!: spec[of _ 0])
qed

end
