(* ===== verification/SessionLive.thy ===== *)
theory SessionLive
  imports SessionCorrect Samples
begin

text \<open>
  What a session can always reach: a share it can decrypt is shown, recorded and checked by the
  owner's keys alone; and the concrete session the properties are evaluated on.
\<close>

subsection \<open>Every word of the list can be shown\<close>

lemma bip39_shown: "w \<in> set BIP39_WORDS \<Longrightarrow> check_word (str w) = Inr ()"
  using bip39.shape[of w]
  by (auto simp: check_word_def check_letters_def SHOWN_WORD_LEN_def str_def list_all_iff capital_def)

lemma share_words:
  assumes "dp_decrypt D secrets phase = Inr b" "share_wf b"
  shows "\<exists>ws. backup_words D phase secrets = Inr ws \<and> length ws = QUIZ_WORDS \<and> set ws \<subseteq> set BIP39_WORDS"
  using words_read_back[OF assms(2) bip39.indexed, of "dp_hash D"] assms(1) by (auto simp: backup_words_def QUIZ_WORDS_def)

lemma share_pages:
  assumes "dp_decrypt D secrets phase = Inr b" "share_wf b" "bd_share_index phase < u32_lim"
  shows "\<exists>ws pages. backup_pages_of D phase secrets = Inr pages \<and> backup_pages_new (bd_share_index phase) ws = Inr pages"
proof -
  obtain ws where ws: "backup_words D phase secrets = Inr ws" "length ws = QUIZ_WORDS" "set ws \<subseteq> set BIP39_WORDS"
    using share_words[OF assms(1,2)] by blast
  let ?p = "\<lparr>bk_share_index = bd_share_index phase, bk_words = map str ws\<rparr>"
  have "backup_pages_new (bd_share_index phase) (map str ws) = Inr ?p"
    using ws(2,3) bip39_shown by (auto simp: backup_pages_new_ok QUIZ_WORDS_def SHOWN_WORDS_def)
  then show ?thesis using ws(1) assms(3) by (auto simp: backup_pages_of_def try_u32_def)
qed

lemma backup_draws:
  assumes "backup_pages_new i ws = Inr pages"
  shows "fst (backup_render N pages page f r) \<longleftrightarrow> page < 8"
proof -
  have l: "length (bk_words pages) = SHOWN_WORDS" using assms by (auto simp: backup_pages_new_ok)
  consider "page = 0" | "0 < page" "page < 8" | "8 \<le> page" by linarith
  then show ?thesis
  proof cases
    case 1
    then show ?thesis by (simp add: backup_render_def backup_page_def)
  next
    case 2
    have "4 * (page - 1) < SHOWN_WORDS" using 2(2) by (simp add: SHOWN_WORDS_def)
    from backup_words_show[OF assms this, of N f r] show ?thesis using 2 by (auto split: prod.splits)
  next
    case 3
    have "backup_len pages = 8" by (rule backup_page_words(2)[OF l, of 0]) (simp add: SHOWN_WORDS_def)
    then show ?thesis using 3 l by (auto simp: backup_render_def backup_page_def Let_def page_defs WORDS_PER_PAGE_def)
  qed
qed

subsection \<open>Recording a backup\<close>

lemma push_fits:
  assumes "\<forall>b \<in> set (sent_as body). fits_frame E b"
  shows "\<exists>ob'. outbox_push E body ob = (Inr (), ob') \<and> appended E (sent_as body) ob ob'"
proof -
  obtain res ob' where p: "outbox_push E body ob = (res, ob')" by fastforce
  then show ?thesis using push_appends[OF p] assms by (cases res) auto
qed

lemma runs_trans: "session_runs D w' es' w'' \<Longrightarrow> session_runs D w es w' \<Longrightarrow> session_runs D w (es @ es') w''"
  by (induction rule: session_runs.induct) (auto simp flip: append_assoc intro: session_runs.intros)

lemma runs_one: "session_step D op w = (e, w') \<Longrightarrow> session_runs D w [e] w'"
  using runs_step[OF runs_start] by fastforce

text \<open>Pages drawn in order leave one bit each.\<close>

lemma pages_drawn:
  assumes "backup_pages_of D phase secrets = Inr pages" "backup_pages_new i ws = Inr pages"
    "ss_reveal (wd_session w) = Some phase" "ss_seen_pages (wd_session w) = 0" "ss_secrets (wd_session w) = secrets" "n \<le> 8"
  shows "\<exists>w'. session_runs D w (map PageDrawn [0 ..< n]) w' \<and> ss_reveal (wd_session w') = Some phase \<and>
    ss_seen_pages (wd_session w') = mask n \<and> ss_secrets (wd_session w') = secrets \<and> wd_outbox w' = wd_outbox w"
  using assms(6)
proof (induction n)
  case 0
  then show ?case using assms(3-5) by (auto intro: runs_start)
next
  case (Suc n)
  then obtain w1 where w1: "session_runs D w (map PageDrawn [0 ..< n]) w1" "ss_reveal (wd_session w1) = Some phase"
    "ss_seen_pages (wd_session w1) = mask n" "ss_secrets (wd_session w1) = secrets" "wd_outbox w1 = wd_outbox w" by auto
  obtain g r1 where d: "backup_render (dp_rng D) pages n (wd_frame w1) (wd_rng w1) = (True, g, r1)"
    using backup_draws[OF assms(2), of "dp_rng D" n "wd_frame w1" "wd_rng w1"] Suc.prems by (cases "backup_render (dp_rng D) pages n (wd_frame w1) (wd_rng w1)") auto
  have b: "page_bit n = Some (push_bit n 1)" using Suc.prems by (simp add: page_bit_def)
  have m: "mask n OR push_bit n 1 = (mask (Suc n) :: u32)"
    by (rule bit_eqI) (auto simp: bit_simps less_Suc_eq)
  let ?S = "(wd_session w1)\<lparr>ss_seen_pages := mask (Suc n), ss_reveal := Some phase\<rparr>"
  have "session_step D (OpShowBackup n) w1 = (PageDrawn n, w1\<lparr>wd_session := ?S, wd_rng := r1, wd_frame := g\<rparr>)"
    using w1(2-4) assms(1) d b m by (simp add: session_step_def show_backup_def Let_def)
  from runs_step[OF w1(1) this] show ?case using w1(4,5) by auto
qed

lemma reveal_is_recorded:
  assumes "backup_pages_of D phase secrets = Inr pages" "backup_pages_new i ws = Inr pages"
    "ss_reveal (wd_session w) = Some phase" "ss_seen_pages (wd_session w) = 0" "ss_secrets (wd_session w) = secrets"
    "fits_frame (dp_encode D) BackupRecorded"
  shows "\<exists>w'. session_runs D w (map PageDrawn [0 ..< 8] @ [Quiet, Recorded]) w' \<and>
    appended (dp_encode D) [BackupRecorded] (wd_outbox w) (wd_outbox w')"
proof -
  obtain w1 where w1: "session_runs D w (map PageDrawn [0 ..< 8]) w1" "ss_reveal (wd_session w1) = Some phase"
    "ss_seen_pages (wd_session w1) = mask 8" "ss_secrets (wd_session w1) = secrets" "wd_outbox w1 = wd_outbox w"
    using pages_drawn[OF assms(1-5), of 8] by auto
  obtain g r1 where d: "backup_render (dp_rng D) pages 8 (wd_frame w1) (wd_rng w1) = (False, g, r1)"
    using backup_draws[OF assms(2), of "dp_rng D" 8 "wd_frame w1" "wd_rng w1"] by (cases "backup_render (dp_rng D) pages 8 (wd_frame w1) (wd_rng w1)") auto
  let ?w2 = "w1\<lparr>wd_session := (wd_session w1)\<lparr>ss_reveal := None, ss_record_pending := True\<rparr>, wd_rng := r1, wd_frame := g\<rparr>"
  have m: "(mask 8 :: u32) = 255" by (simp add: mask_eq_exp_minus_1)
  have s2: "session_step D (OpShowBackup 8) w1 = (Quiet, ?w2)"
    using w1(2-4) assms(1) d backup_pages_of_len[OF assms(1)] m by (simp add: session_step_def show_backup_def Let_def all_eight)
  obtain ob where p: "outbox_push (dp_encode D) BackupRecorded (wd_outbox w) = (Inr (), ob)"
    "appended (dp_encode D) [BackupRecorded] (wd_outbox w) ob"
    using push_fits[of BackupRecorded "dp_encode D" "wd_outbox w"] assms(6) by (auto simp: sent_as_def)
  have "session_step D OpBackupRecorded ?w2 = (Recorded, ?w2\<lparr>wd_session := (wd_session ?w2)\<lparr>ss_record_pending := False\<rparr>, wd_outbox := ob\<rparr>)"
    using p(1) w1(5) by (simp add: session_step_def backup_recorded_def Let_def)
  from runs_step[OF runs_step[OF w1(1) s2] this] p(2) show ?thesis by (intro exI) (auto simp: append_assoc)
qed

subsection \<open>Consent\<close>

lemma consent_goes:
  assumes "fst (prompt_screen_at (dp_ask D) prompt c page f) = Inr (ShownPage True)" "c \<in> set CONFIRM_CHARSET"
  shows "\<exists>r1. confirm_at D prompt page S r ob = carry_out D prompt S r1 ob"
proof -
  obtain d r1 where d: "draw_confirm (dp_rng D) r = (d, r1)" by fastforce
  have "fst (prompt_screen_at (dp_ask D) prompt d page frame_new) = Inr (ShownPage True)"
    using prompt_screen_says[OF drawn_digit[OF d] assms(2), of "dp_ask D" prompt page frame_new f] assms(1) by simp
  then show ?thesis using d by (auto simp: confirm_at_def)
qed

lemma backup_is_recorded:
  assumes "fst (prompt_screen_at (dp_ask D) (UserRestoration (DisplayBackup k phase)) c 0 f) = Inr (ShownPage True)"
    "c \<in> set CONFIRM_CHARSET" "dp_decrypt D (ss_secrets (wd_session w)) phase = Inr b" "share_wf b"
    "bd_share_index phase < u32_lim" "fits_frame (dp_encode D) BackupRecorded"
  shows "\<exists>w'. session_runs D w (Revealed phase # map PageDrawn [0 ..< 8] @ [Quiet, Recorded]) w' \<and>
    appended (dp_encode D) [BackupRecorded] (wd_outbox w) (wd_outbox w')"
proof -
  obtain ws pages where pg: "backup_pages_of D phase (ss_secrets (wd_session w)) = Inr pages"
    "backup_pages_new (bd_share_index phase) ws = Inr pages" using share_pages[OF assms(3,4,5)] by blast
  let ?S = "(wd_session w)\<lparr>ss_record_pending := False, ss_seen_pages := 0, ss_reveal := Some phase\<rparr>"
  obtain r1 where "confirm_at D (UserRestoration (DisplayBackup k phase)) 0 (wd_session w) (wd_rng w) (wd_outbox w) = (Inr [], ?S, r1, wd_outbox w)"
    using consent_goes[OF assms(1,2), of "wd_session w" "wd_rng w" "wd_outbox w"] pg(1) by (auto simp: carry_out_def)
  then have "session_step D (OpConfirm (UserRestoration (DisplayBackup k phase)) 0) w =
      (Revealed phase, w\<lparr>wd_session := ?S, wd_rng := r1\<rparr>)"
    by (simp add: session_step_def confirm_event_def)
  from runs_trans[OF _ runs_one[OF this]] reveal_is_recorded[OF pg, of "w\<lparr>wd_session := ?S, wd_rng := r1\<rparr>"] assms(6)
  show ?thesis by fastforce
qed

subsection \<open>Checking a backup\<close>

lemma quiz_is_reported:
  "ss_check (wd_session w) = Some c \<Longrightarrow> fst (fst (quiz_keys (dp_rng D) BIP39_WORDS ks (ck_quiz c) (wd_rng w))) = QuizPassed \<Longrightarrow>
   fits_frame (dp_encode D) (BackupChecked (ck_access_structure_ref c) (ck_share_index c)) \<Longrightarrow>
   \<exists>es log w'. session_runs D w (es @ [CheckReported (ck_access_structure_ref c) (ck_share_index c) log]) w' \<and> length es < length ks \<and>
     appended (dp_encode D) [BackupChecked (ck_access_structure_ref c) (ck_share_index c)] (wd_outbox w) (wd_outbox w')"
proof (induction ks arbitrary: w c)
  case (Cons k ks)
  let ?S = "wd_session w"
  obtain st q r1 where key: "quiz_key (dp_rng D) BIP39_WORDS k (ck_quiz c) (wd_rng w) = ((st, q), r1)" using prod.exhaust by metis
  show ?case
  proof (cases "st = QuizUnchanged \<or> st = QuizRedraw")
    case True
    then have rest: "fst (fst (quiz_keys (dp_rng D) BIP39_WORDS ks q r1)) = QuizPassed"
      using Cons.prems(2) key by (auto split: prod.splits)
    let ?w = "w\<lparr>wd_session := ?S\<lparr>ss_check := Some (c\<lparr>ck_quiz := q\<rparr>)\<rparr>, wd_rng := r1\<rparr>"
    have "\<exists>e. session_step D (OpQuizKey k) w = (e, ?w)"
      using True Cons.prems(1) key by (auto simp: session_step_def session_quiz_key_def Let_def)
    then obtain e where e: "session_step D (OpQuizKey k) w = (e, ?w)" ..
    obtain es log w' where r: "session_runs D ?w (es @ [CheckReported (ck_access_structure_ref c) (ck_share_index c) log]) w'"
      "length es < length ks"
      "appended (dp_encode D) [BackupChecked (ck_access_structure_ref c) (ck_share_index c)] (wd_outbox w) (wd_outbox w')"
      using Cons.IH[of ?w "c\<lparr>ck_quiz := q\<rparr>"] rest Cons.prems(3) by auto
    have "session_runs D w ((e # es) @ [CheckReported (ck_access_structure_ref c) (ck_share_index c) log]) w'"
      using runs_trans[OF r(1) runs_one[OF e]] by simp
    then show ?thesis using r(2,3) by (metis length_Cons Suc_less_eq)
  next
    case False
    then have st: "st = QuizPassed" using Cons.prems(2) key by (cases st) (auto split: prod.splits)
    obtain ob where p: "outbox_push (dp_encode D) (BackupChecked (ck_access_structure_ref c) (ck_share_index c)) (wd_outbox w) = (Inr (), ob)"
      "appended (dp_encode D) [BackupChecked (ck_access_structure_ref c) (ck_share_index c)] (wd_outbox w) ob"
      using push_fits[of "BackupChecked (ck_access_structure_ref c) (ck_share_index c)" "dp_encode D" "wd_outbox w"] Cons.prems(3)
      by (auto simp: sent_as_def)
    have "\<exists>S'. session_step D (OpQuizKey k) w =
        (CheckReported (ck_access_structure_ref c) (ck_share_index c) (quiz_answer (ck_quiz c) k),
         w\<lparr>wd_session := S', wd_rng := r1, wd_outbox := ob\<rparr>)"
      using Cons.prems(1) key st p(1) by (auto simp: session_step_def session_quiz_key_def quiz_event_def Let_def)
    then obtain S' where "session_step D (OpQuizKey k) w =
        (CheckReported (ck_access_structure_ref c) (ck_share_index c) (quiz_answer (ck_quiz c) k),
         w\<lparr>wd_session := S', wd_rng := r1, wd_outbox := ob\<rparr>)" ..
    from runs_one[OF this] p(2) show ?thesis
      by (intro exI[of _ "[] :: 'c session_event list"] exI[of _ "quiz_answer (ck_quiz c) k"]) auto
  qed
qed simp

lemma backup_is_checked:
  assumes "fst (prompt_screen_at (dp_ask D) (UserRestoration (CheckBackup k phase)) c 0 f) = Inr (ShownPage True)"
    "c \<in> set CONFIRM_CHARSET" "dp_decrypt D (ss_secrets (wd_session w)) phase = Inr b" "share_wf b"
    "to_words (dp_hash D) BIP39_WORDS b = Some ws" "u \<in> set ws" "v \<in> set ws" "u \<noteq> v"
    "fits_frame (dp_encode D) (BackupChecked (bd_access_structure_ref phase) (bd_share_index phase))"
  shows "\<exists>es log w'. session_runs D w (QuizBegun (bd_access_structure_ref phase) (bd_share_index phase) ws # es @
      [CheckReported (bd_access_structure_ref phase) (bd_share_index phase) log]) w' \<and> length es < QUIZ_POSITIONS \<and>
    appended (dp_encode D) [BackupChecked (bd_access_structure_ref phase) (bd_share_index phase)] (wd_outbox w) (wd_outbox w')"
proof -
  have ws: "backup_words D phase (ss_secrets (wd_session w)) = Inr ws" "length ws = QUIZ_WORDS" "set ws \<subseteq> set BIP39_WORDS"
    using share_words[OF assms(3,4)] assms(3,5) by (auto simp: backup_words_def)
  let ?p = "UserRestoration (CheckBackup k phase)"
  obtain r1 where c: "confirm_at D ?p 0 (wd_session w) (wd_rng w) (wd_outbox w) = carry_out D ?p (wd_session w) r1 (wd_outbox w)"
    using consent_goes[OF assms(1,2)] by blast
  obtain oq r2 where n: "quiz_new (dp_rng D) BIP39_WORDS ws r1 = (oq, r2)" by fastforce
  then obtain q where q: "oq = Some q" "quiz_wf BIP39_WORDS q" "qz_asked q = 0"
    using bip39.new_spec[OF ws(2), of "dp_rng D" r1] ws(3) assms(6-8) by (auto split: option.splits)
  let ?c = "\<lparr>ck_quiz = q, ck_access_structure_ref = bd_access_structure_ref phase, ck_share_index = bd_share_index phase\<rparr>"
  let ?w = "w\<lparr>wd_session := (wd_session w)\<lparr>ss_check := Some ?c\<rparr>, wd_rng := r2\<rparr>"
  have s: "session_step D (OpConfirm ?p 0) w = (QuizBegun (bd_access_structure_ref phase) (bd_share_index phase) ws, ?w)"
    using c ws(1) n q(1) by (simp add: session_step_def confirm_event_def carry_out_def)
  have "qz_asked q < QUIZ_POSITIONS" by (simp add: q(3) quiz_consts)
  then obtain ks where "length ks = QUIZ_POSITIONS" "fst (fst (quiz_keys (dp_rng D) BIP39_WORDS ks q r2)) = QuizPassed"
    using bip39.pass_keys[OF q(2) _ refl, of "dp_rng D" r2] q(3) by auto
  with quiz_is_reported[of ?w ?c D ks] assms(9) obtain es log w' where
    "session_runs D ?w (es @ [CheckReported (bd_access_structure_ref phase) (bd_share_index phase) log]) w'" "length es < QUIZ_POSITIONS"
    "appended (dp_encode D) [BackupChecked (bd_access_structure_ref phase) (bd_share_index phase)] (wd_outbox w) (wd_outbox w')"
    by auto
  with runs_trans[OF this(1) runs_one[OF s]] show ?thesis by fastforce
qed

subsection \<open>A session to evaluate\<close>

lemma consent_lines_fit:
  "length f = FRAME_BYTES \<Longrightarrow> row + length lines \<le> 4 \<Longrightarrow>
   fst (consent_lines row lines f) \<longleftrightarrow> (\<forall>line \<in> set lines. length line \<le> COLS)"
proof (induction lines arbitrary: row f)
  case (Cons line lines)
  obtain n g where t: "frame_text 0 (row * 2) line f = (n, g)" by fastforce
  have r: "row * 2 < ROWS" "0 \<le> COLS" using Cons.prems(2) by (simp_all add: glass_defs)
  have "length (put_text 0 (row * 2) line f) = FRAME_BYTES" using Cons.prems(1) by simp
  then have "length g = FRAME_BYTES" by (simp add: put_text_def t)
  from Cons.IH[OF this, of "row + 1"] Cons.prems(2) frame_text_shows(1)[OF Cons.prems(1) r t] t show ?case
    by (auto simp: split_beta)
qed simp

lemma consent_screen_fits:
  assumes "length lines \<le> 4" "confirm \<in> set CONFIRM_CHARSET" "\<forall>line \<in> set lines. length line \<le> COLS"
  shows "fst (consent_screen lines confirm f)"
  using consent_lines_fit[of "frame_clear f" 0 lines] legend_fits[OF assms(2)] assms(1,3)
  by (auto simp: consent_screen_def Let_def split: prod.split)

definition glass_backup :: share_backup where
  "glass_backup = \<lparr>sb_index = 3, sb_share = replicate 30 0 @ [1, 2], sb_poly_checksum = 0xA5\<rparr>"

definition glass_phase :: "unit backup_display_phase" where
  "glass_phase = \<lparr>bd_access_structure_ref = \<lparr>ar_key_id = replicate 32 1, ar_access_structure_id = replicate 32 2\<rparr>,
     bd_share_index = 3, bd_rest = ()\<rparr>"

text \<open>A signer that answers nothing and holds one share; its state is the queue of mutations.\<close>

definition sample_deps :: "(mutation list, fake_flash, nat, unit, unit) deps" where
  "sample_deps = \<lparr>dp_flash = fake_ops, dp_hash = sample_hash, dp_cenc = sample_cenc, dp_cdec = sample_cdec,
     dp_rng = (\<lambda>n. (word_of_nat n, Suc n)), dp_encode = (\<lambda>_. Some [0, 1]),
     dp_ask = (\<lambda>_. None), dp_decrypt = (\<lambda>_ _. Inr glass_backup), dp_nonce_jobs = (\<lambda>_ _. [(), ()]),
     dp_address = (\<lambda>_ _ _. None), dp_signer = (\<lambda>_ _. []), dp_apply = (\<lambda>_ s. s), dp_staged = (\<lambda>s. s),
     dp_set_staged = (\<lambda>q _. q), dp_clear_tmp = (\<lambda>s. s), dp_network = (\<lambda>_ _. None),
     dp_recv = (\<lambda>_ s f r. (Inr [], s, f, r)), dp_keygen_ack = (\<lambda>_ _ s f r. (Inr [], s, f, r)),
     dp_sign_ack = (\<lambda>_ _ s f. (Inr [], s, f)), dp_consolidate = (\<lambda>_ _ s f r. ([], s, f, r)),
     dp_tell_backup = (\<lambda>_ _ s. ([], s))\<rparr>"

definition sample_connection :: "(mutation list, fake_flash, unit) session" where
  "sample_connection = \<lparr>ss_signer = [], ss_flash = blank_flash, ss_coordinator_acked = False,
     ss_secrets = secrets_new (replicate 32 5), ss_shares = sample_pair,
     ss_names = \<lparr>slot_a = \<lparr>offset_sector = 14, n_sectors = 2\<rparr>, slot_b = \<lparr>offset_sector = 16, n_sectors = 2\<rparr>\<rparr>,
     ss_pending_name = Some (ascii ''alice''), ss_reveal = None, ss_record_pending = False, ss_seen_pages = 0,
     ss_entry = None, ss_check = None\<rparr>"

definition sample_world :: "(mutation list, fake_flash, nat, unit) world" where
  "sample_world = \<lparr>wd_session = sample_connection, wd_rng = 0, wd_outbox = outbox_new, wd_frame = frame_new\<rparr>"

lemma glass_backup_wf: "share_wf glass_backup"
proof -
  have "of_be (replicate n 0) = 0" for n by (induction n) simp_all
  then show ?thesis by (simp add: share_wf_def glass_backup_def order_value u32_lim_def of_be_append)
qed

lemma sample_decrypts: "decrypts_shares sample_deps"
  by (simp add: decrypts_shares_def sample_deps_def glass_backup_wf)

lemma glass_words:
  obtains ws u v where "to_words sample_hash BIP39_WORDS glass_backup = Some ws" "u \<in> set ws" "v \<in> set ws" "u \<noteq> v"
proof -
  obtain idxs where idxs: "to_word_indices sample_hash glass_backup = Some idxs" "length idxs = 25" "\<forall>w \<in> set idxs. w < 2048"
    "concat (map word_bits idxs) = share_stream sample_hash glass_backup"
    by (rule to_word_indices_stream[OF glass_backup_wf])
  obtain i js where i: "idxs = i # js" using idxs(2) by (cases idxs) auto
  have "bits_n 8 (sb_poly_checksum glass_backup) = [True, False, True, False, False, True, False, True]" by code_simp
  then have "True \<in> set (share_stream sample_hash glass_backup)" by (simp add: share_stream_def)
  then obtain j where j: "j \<in> set idxs" "True \<in> set (word_bits j)" unfolding idxs(4)[symmetric] by auto
  have "word_bits i = take 11 (share_stream sample_hash glass_backup)"
    unfolding idxs(4)[symmetric] i by (simp add: word_bits_n)
  also have "\<dots> = replicate 11 False"
    by (simp add: share_stream_def glass_backup_def bits_n_def eval_nat_numeral)
  finally have "i \<noteq> j" using j(2) by auto
  then have "BIP39_WORDS ! i \<noteq> BIP39_WORDS ! j"
    using idxs(3) j(1) i bip39.distinct bip39.len by (simp add: nth_eq_iff_index_eq)
  with that[of "map (\<lambda>i. BIP39_WORDS ! i) idxs" "BIP39_WORDS ! i" "BIP39_WORDS ! j"] idxs(1) j(1) i show ?thesis
    by (auto simp: to_words_def)
qed

lemma glass_consents:
  "fst (prompt_screen_at (dp_ask sample_deps) (UserRestoration (DisplayBackup (str ''Savings'') glass_phase)) 49 0 frame_new) =
     Inr (ShownPage True)"
  "fst (prompt_screen_at (dp_ask sample_deps) (UserRestoration (CheckBackup (str ''Savings'') glass_phase)) 49 0 frame_new) =
     Inr (ShownPage True)"
  "49 \<in> set CONFIRM_CHARSET"
proof -
  have t: "\<not> tb_truncated (push_u64 16 3 (push_str 16 (str ''share #'') buf_new))"
    "length (tb_text (push_u64 16 3 (push_str 16 (str ''share #'') buf_new))) \<le> 16" by code_simp+
  show c: "49 \<in> set CONFIRM_CHARSET" by (simp add: CONFIRM_CHARSET_def str_def)
  have "fst (backup_consent q (str ''Savings'') 3 49 frame_new)" if "length q \<le> 16" for q
    using t that unfolding backup_consent_def Let_def
    by (simp, intro consent_screen_fits[OF _ c]) (auto simp: str_def COLS_def WIDTH_def CELL_def)
  from this[of REVEAL_QUESTION] this[of CHECK_QUESTION]
  show "fst (prompt_screen_at (dp_ask sample_deps) (UserRestoration (DisplayBackup (str ''Savings'') glass_phase)) 49 0 frame_new) =
     Inr (ShownPage True)"
  "fst (prompt_screen_at (dp_ask sample_deps) (UserRestoration (CheckBackup (str ''Savings'') glass_phase)) 49 0 frame_new) =
     Inr (ShownPage True)"
    by (auto simp: prompt_screen_at_def restoration_screen_def glass_phase_def try_u32_def u32_lim_def one_question_def
        REVEAL_QUESTION_def CHECK_QUESTION_def str_def split: prod.splits)
qed

lemma sample_fits: "fits_frame (dp_encode sample_deps) body"
  by (simp add: sample_deps_def fits_frame_def FRAME_LIMIT_def)

end
