(* ===== verification/MainLoopSample.thy ===== *)
theory MainLoopSample
  imports MainLoopCorrect SessionLive
begin

text \<open>
  A board on which a key generation is asked for, a message is refused and the digit is then pressed:
  the instance the properties of the loop are checked on.
\<close>

text \<open>A pad nobody touches during two reads, then the key 1 held down. Its state counts the writes.\<close>

definition late_gpio :: "(nat \<times> u32) gpio" where
  "late_gpio = \<lparr>gp_read = (\<lambda>reg (n, w). if 30 < n \<and> w = row_select 3 then 3 else 7),
                gp_write = (\<lambda>reg w (n, _). (Suc n, w))\<rparr>"

definition glass_phase3 :: "unit keygen_phase3" where
  "glass_phase3 = \<lparr>k3_threshold = 2, k3_parties = 3, k3_session_hash = replicate 32 7, k3_key_name = str ''Savings'', k3_rest = ()\<rparr>"

definition keygen_deps :: "(mutation list, fake_flash, nat, unit, unit) deps" where
  "keygen_deps = sample_deps\<lparr>dp_recv := (\<lambda>_ s f r. (Inr [ToUser (CheckKeyGen glass_phase3)], s, f, r)),
     dp_keygen_ack := (\<lambda>_ _ s f r. (Inr [ToCoordinator (OtherReply ())], s, f, r))\<rparr>"

text \<open>Frames of one byte: a 1 is a message of the key generation, anything else an erase.\<close>

definition glass_board :: "(mutation list, fake_flash, nat, unit, unit, nat \<times> u32, unit) board" where
  "glass_board = \<lparr>bd_deps = keygen_deps, bd_gpio = late_gpio, bd_bus = \<lparr>bus_read = (\<lambda>_ _. 0), bus_write = (\<lambda>_ _ h. h)\<rparr>,
     bd_health = \<lparr>bh_panics = 0, bh_rng_faults = 0, bh_counters_unavailable = True\<rparr>, bd_digest = replicate 32 0,
     bd_frame = (\<lambda>rx. case rx of [] \<Rightarrow> More | b # _ \<Rightarrow> Got (SerialMessage (WEncapsV0 [b])) 1),
     bd_inner = (\<lambda>bs. Inr (BInner (if bs = [1] then CoordCore (KeygenMsg ()) else DataEraseBody)))\<rparr>"

definition glass_magic :: bytes where
  "glass_magic = 0x00 # take 6 MAGICBYTES_RECV_UPSTREAM @ [0x5b]"

lemma late_reads:
  "read_key late_gpio (dp_rng keygen_deps) ((0, 0), 1) = (AllUp, (15, ROWS_ALL_LOW), 10)"
  "read_key late_gpio (dp_rng keygen_deps) ((15, ROWS_ALL_LOW), 10) = (AllUp, (30, ROWS_ALL_LOW), 19)"
  "read_key late_gpio (dp_rng keygen_deps) ((30, ROWS_ALL_LOW), 19) = (Down 49, (45, ROWS_ALL_LOW), 28)"
proof -
  have N: "dp_rng keygen_deps = (\<lambda>n. (word_of_nat n, Suc n))" by (simp add: keygen_deps_def sample_deps_def)
  show "read_key late_gpio (dp_rng keygen_deps) ((0, 0), 1) = (AllUp, (15, ROWS_ALL_LOW), 10)"
    unfolding N by code_simp
  show "read_key late_gpio (dp_rng keygen_deps) ((15, ROWS_ALL_LOW), 10) = (AllUp, (30, ROWS_ALL_LOW), 19)"
    unfolding N by code_simp
  show "read_key late_gpio (dp_rng keygen_deps) ((30, ROWS_ALL_LOW), 19) = (Down 49, (45, ROWS_ALL_LOW), 28)"
    unfolding N by code_simp
qed

abbreviation glass_link :: link where "glass_link \<equiv> \<lparr>l_rx = [], l_magic_progress = 0, l_linked = True\<rparr>"

abbreviation glass_parked :: "unit parked" where "glass_parked \<equiv> (CheckKeyGen glass_phase3, 49, 0, True)"

text \<open>Between turns: linked, nothing to send, the session as it was.\<close>

definition glass_rest :: "nat \<Rightarrow> nat \<Rightarrow> u32 \<Rightarrow> unit parked option \<Rightarrow> (mutation list, fake_flash, nat, unit, nat \<times> u32, unit) loop \<Rightarrow> bool" where
  "glass_rest n i w parked L \<longleftrightarrow> lp_session L = sample_connection \<and> lp_rng L = n \<and> lp_outbox L = outbox_new \<and>
     lp_parked L = parked \<and> lp_glass L = None \<and> lp_panel L \<noteq> None \<and> lp_pad L = Some (i, w) \<and> lp_link L = glass_link \<and>
     \<not> lp_magic_reply L"

definition glass_start :: "(mutation list, fake_flash, nat, unit, nat \<times> u32, unit) loop" where
  "glass_start = loop_start glass_board sample_connection 0 True (Some (0, 0)) ()"

lemma poll_magic: "poll decode glass_magic link_new = (Inr (), glass_link, [])"
proof -
  have "scan_magic glass_magic link_new = (8, glass_link)" by (simp add: glass_magic_def) code_simp
  then show ?thesis
    by (simp add: poll_def link_new_def glass_magic_def MAGICBYTES_RECV_UPSTREAM_def drain_link_def drain.simps)
qed

lemma poll_one:
  "poll (bd_frame glass_board) [b] glass_link = (Inr (), glass_link, [SerialMessage (WEncapsV0 [b])])"
  by (simp add: poll_def drain_link_def drain.simps glass_board_def FRAME_LIMIT_def)

lemma poll_none: "poll (bd_frame glass_board) [] glass_link = (Inr (), glass_link, [])"
  by (simp add: poll_def drain_link_def drain.simps)

lemma glass_announce: "0 < ob_frames (snd (announce keygen_deps S digest outbox_new))"
proof -
  have "outbox_encode (dp_encode keygen_deps) body ob = (Inr (), ob\<lparr>ob_bytes := ob_bytes ob @ [0, 1], ob_frames := ob_frames ob + 1\<rparr>)"
    for body ob
    by (simp add: outbox_encode_def keygen_deps_def sample_deps_def encode_frame_def FRAME_LIMIT_def)
  then show ?thesis by (simp add: announce_def outbox_push_def outbox_new_def split: option.splits)
qed

lemma glass_unlinked: "\<not> l_linked link_new"
  by (simp add: link_new_def)

lemma glass_linked:
  obtains L where "loop_turn glass_board glass_magic glass_start = Some L" "glass_rest 0 0 0 None L"
proof -
  have "loop_turn glass_board glass_magic glass_start \<noteq> None \<and>
    glass_rest 0 0 0 None (the (loop_turn glass_board glass_magic glass_start))"
    using glass_announce[of sample_connection "replicate 32 0"]
    by (simp add: loop_turn_def hear_def poll_magic glass_start_def loop_start_def idle_if_panel_def idle_def panel_show_def
        serve_def flush_def glass_rest_def outbox_take_def glass_board_def in_reset_loop_def Let_def glass_unlinked
       ) (simp add: outbox_new_def)
  then show thesis using that by auto
qed

text \<open>A message of the key generation parks its code, under the digit 1.\<close>

lemma glass_run:
  "session_run keygen_deps sends sample_connection ob = run_sends keygen_deps sends [] sample_connection ob"
  by (simp add: session_run_def keygen_deps_def sample_deps_def sample_connection_def persist_staged_def)

lemma glass_asked:
  assumes "glass_rest 0 0 0 None L"
  obtains L' where "loop_turn glass_board [1] L = Some L'" "glass_rest 10 15 ROWS_ALL_LOW (Some glass_parked) L'"
proof -
  have heard: "recv keygen_deps (CoordCore (KeygenMsg ())) sample_connection 0 outbox_new =
    (Inr [CheckKeyGen glass_phase3], sample_connection, 0, outbox_new)"
  proof -
    have "dp_recv keygen_deps (KeygenMsg ()) (ss_signer sample_connection) (ss_flash sample_connection) 0 =
      (Inr [ToUser (CheckKeyGen glass_phase3)], ss_signer sample_connection, ss_flash sample_connection, 0)"
      by (simp add: keygen_deps_def)
    then show ?thesis by (simp add: recv_def recv_core_def signer_step_def glass_run ran_def)
  qed
  have digit: "draw_confirm (dp_rng keygen_deps) 0 = (49, 1)"
    by (simp add: draw_confirm_def keygen_deps_def sample_deps_def CONFIRM_CHARSET_def str_def)
  have board: "bd_deps glass_board = keygen_deps" "bd_gpio glass_board = late_gpio"
    "bd_inner glass_board [1] = Inr (BInner (CoordCore (KeygenMsg ())))" "\<not> 0 < ob_frames outbox_new"
    "\<not> in_reset_loop (bd_health glass_board) \<longleftrightarrow> True"
    by (simp_all add: glass_board_def outbox_new_def in_reset_loop_def)
  have "loop_turn glass_board [1] L \<noteq> None \<and>
    glass_rest 10 15 ROWS_ALL_LOW (Some glass_parked) (the (loop_turn glass_board [1] L))"
    using assms
    by (auto simp: glass_rest_def loop_turn_def hear_def poll_one hear_frame_def decode_body_def board coordinator_body_of_def
        heard park_batch_def digit draw_prompt_def prompt_screen_at_def take_glass_def panel_show_def serve_def serve_prompt_def
        ask_key_def ask_def late_reads(1)[unfolded One_nat_def] answer_def flush_def Let_def)
  then show thesis using that by auto
qed

text \<open>An erase is refused over it, and nobody presses anything.\<close>

lemma glass_refused:
  assumes "glass_rest 10 15 ROWS_ALL_LOW (Some glass_parked) L"
  obtains L' where "loop_turn glass_board [2] L = Some L'" "glass_rest 19 30 ROWS_ALL_LOW (Some glass_parked) L'"
proof -
  note L = assms[unfolded glass_rest_def]
  obtain frames where frames: "lp_panel L = Some frames" using L by auto
  have "poll (bd_frame glass_board) [2] (lp_link L) = (Inr (), glass_link, [SerialMessage (WEncapsV0 [2])])"
    using L poll_one[of 2] by simp
  moreover have "decode_body (bd_inner glass_board) (WEncapsV0 [2]) = Inr (BInner DataEraseBody)"
    by (simp add: decode_body_def glass_board_def)
  moreover have "read_key (bd_gpio glass_board) (dp_rng (bd_deps glass_board)) ((15, ROWS_ALL_LOW), lp_rng L) =
      (AllUp, (30, ROWS_ALL_LOW), 19)"
    using L late_reads(2) by (simp add: glass_board_def)
  ultimately show thesis
    using erase_covers_prompt[of L _ _ _ _ frames "(15, ROWS_ALL_LOW)" glass_board "[2]" glass_link "WEncapsV0 [2]"
        "(30, ROWS_ALL_LOW)" 19] L frames that
    by (metis (no_types, lifting) glass_rest_def option.distinct(1) link.select_convs(3) outbox_new_def outbox.select_convs(2))
qed

text \<open>The run up to there, and what its digit does.\<close>

lemma glass_waits:
  obtains L where "loop_turns glass_board [glass_magic, [1], [2]] glass_start = Some L"
    "glass_rest 19 30 ROWS_ALL_LOW (Some glass_parked) L"
proof -
  obtain L1 where a: "loop_turn glass_board glass_magic glass_start = Some L1" "glass_rest 0 0 0 None L1" by (rule glass_linked)
  obtain L2 where b: "loop_turn glass_board [1] L1 = Some L2" "glass_rest 10 15 ROWS_ALL_LOW (Some glass_parked) L2"
    by (rule glass_asked[OF a(2)])
  obtain L3 where c: "loop_turn glass_board [2] L2 = Some L3" "glass_rest 19 30 ROWS_ALL_LOW (Some glass_parked) L3"
    by (rule glass_refused[OF b(2)])
  show thesis by (rule that[of L3]) (simp_all add: a b c)
qed

lemma glass_confirms:
  "confirm_at keygen_deps (CheckKeyGen glass_phase3) 0 sample_connection 28 outbox_new =
     (Inr [], sample_connection, 29, \<lparr>ob_bytes = [0, 1], ob_frames = 1\<rparr>)"
proof -
  obtain d where d: "draw_confirm (dp_rng keygen_deps) 28 = (d, 29)"
    by (simp add: draw_confirm_def keygen_deps_def sample_deps_def)
  have "dp_keygen_ack keygen_deps glass_phase3 (ss_secrets sample_connection) (ss_signer sample_connection) (ss_flash sample_connection) 29 =
      (Inr [ToCoordinator (OtherReply ())], ss_signer sample_connection, ss_flash sample_connection, 29)"
    by (simp add: keygen_deps_def)
  moreover have "outbox_push (dp_encode keygen_deps) (DevCore (OtherReply ())) outbox_new =
      (Inr (), \<lparr>ob_bytes = [0, 1], ob_frames = 1\<rparr>)"
    by (simp add: outbox_push_def outbox_encode_def keygen_deps_def sample_deps_def encode_frame_def FRAME_LIMIT_def outbox_new_def)
  ultimately show ?thesis
    by (simp add: confirm_at_def d prompt_screen_at_def carry_out_def signer_step_def glass_run ran_def)
qed

end
