(* ===== verification/Usb.thy ===== *)
theory Usb
  imports Identity
begin

text \<open>
  The CDC serial device on the OTG core (\<open>hal/src/usb.rs\<close>): its descriptors, the decision on every
  control request, transfer sizes, the shared FIFO, the polled driver and its bring-up. The driver
  runs over an arbitrary core, whose reads may change it, and keeps the trace of its register
  accesses. Barriers, delays and the interrupt mask around the clock writes have no effect here.
\<close>

subsection \<open>Descriptors\<close>

definition VID :: nat where "VID = 0x303A"
definition PID :: nat where "PID = 0x1001"
definition MAX_PACKET_SIZE :: nat where "MAX_PACKET_SIZE = 64"
definition EP_NOTIFY_IN :: u8 where "EP_NOTIFY_IN = 0x81"
definition EP_DATA_OUT :: u8 where "EP_DATA_OUT = 0x02"
definition EP_DATA_IN :: u8 where "EP_DATA_IN = 0x82"
definition EP_DATA :: nat where "EP_DATA = 2"
definition EP_NOTIFY :: nat where "EP_NOTIFY = 1"

definition DEVICE_DESCRIPTOR :: bytes where
  "DEVICE_DESCRIPTOR = [0x12, 0x01, 0x00, 0x02, 0x02, 0x00, 0x00, word_of_nat MAX_PACKET_SIZE]
     @ le_bytes 2 VID @ le_bytes 2 PID @ [0x00, 0x01, 0x01, 0x02, 0x03, 0x01]"

definition CONFIG_DESCRIPTOR :: bytes where
  "CONFIG_DESCRIPTOR =
     [0x09, 0x02, 0x43, 0x00, 0x02, 0x01, 0x00, 0x80, 0x32,
      0x09, 0x04, 0x00, 0x00, 0x01, 0x02, 0x02, 0x01, 0x00,
      0x05, 0x24, 0x00, 0x10, 0x01,
      0x05, 0x24, 0x01, 0x00, 0x01,
      0x04, 0x24, 0x02, 0x02,
      0x05, 0x24, 0x06, 0x00, 0x01,
      0x07, 0x05, EP_NOTIFY_IN, 0x03, 0x08, 0x00, 0x10,
      0x09, 0x04, 0x01, 0x00, 0x02, 0x0A, 0x00, 0x00, 0x00,
      0x07, 0x05, EP_DATA_OUT, 0x02, word_of_nat MAX_PACKET_SIZE, 0x00, 0x00,
      0x07, 0x05, EP_DATA_IN, 0x02, word_of_nat MAX_PACKET_SIZE, 0x00, 0x00]"

definition string_descriptor :: "bytes \<Rightarrow> bytes" where
  "string_descriptor txt = [word_of_nat (2 + 2 * length txt), 0x03] @ concat (map (\<lambda>c. [c, 0]) txt)"

definition STRING_LANGID :: bytes where "STRING_LANGID = [0x04, 0x03, 0x09, 0x04]"
definition STRING_MANUFACTURER :: bytes where "STRING_MANUFACTURER = string_descriptor (ascii ''cold-snap'')"
definition STRING_PRODUCT :: bytes where "STRING_PRODUCT = string_descriptor (ascii ''Frostsnap Signer'')"
definition STRING_SERIAL :: bytes where "STRING_SERIAL = string_descriptor (ascii ''0001'')"

definition RX_FIFO_WORDS :: nat where "RX_FIFO_WORDS = 128"
definition TXF0_WORDS :: nat where "TXF0_WORDS = 32"
definition TXF1_WORDS :: nat where "TXF1_WORDS = 16"
definition TXF2_WORDS :: nat where "TXF2_WORDS = 64"
definition FIFO_WORDS_TOTAL :: nat where "FIFO_WORDS_TOTAL = 320"

definition txf :: "nat \<Rightarrow> nat \<Rightarrow> u32" where
  "txf start_words size_words = push_bit 16 (word_of_nat size_words) OR word_of_nat start_words"

definition DIEPTXF0 :: u32 where "DIEPTXF0 = txf RX_FIFO_WORDS TXF0_WORDS"
definition DIEPTXF1 :: u32 where "DIEPTXF1 = txf (RX_FIFO_WORDS + TXF0_WORDS) TXF1_WORDS"
definition DIEPTXF2 :: u32 where "DIEPTXF2 = txf (RX_FIFO_WORDS + TXF0_WORDS + TXF1_WORDS) TXF2_WORDS"

datatype usb_error = CoreResetTimeout | FifoTimeout | EndpointBusy | OversizePacket nat | NotConfigured

subsection \<open>Control requests\<close>

record usb_setup =
  su_request_type :: nat
  su_request :: nat
  su_value :: nat
  su_index :: nat
  su_length :: nat

definition setup_parse :: "bytes \<Rightarrow> usb_setup" where
  "setup_parse raw = \<lparr>su_request_type = unat (raw ! 0), su_request = unat (raw ! 1), su_value = of_le (window raw 2 2),
     su_index = of_le (window raw 4 2), su_length = of_le (window raw 6 2)\<rparr>"

definition su_recipient :: "usb_setup \<Rightarrow> nat" where "su_recipient s = su_request_type s mod 32"
definition su_kind :: "usb_setup \<Rightarrow> nat" where "su_kind s = su_request_type s div 32 mod 4"
definition su_is_in :: "usb_setup \<Rightarrow> bool" where "su_is_in s \<longleftrightarrow> 128 \<le> su_request_type s mod 256"

definition RECIPIENT_DEVICE :: nat where "RECIPIENT_DEVICE = 0"
definition RECIPIENT_INTERFACE :: nat where "RECIPIENT_INTERFACE = 1"
definition RECIPIENT_ENDPOINT :: nat where "RECIPIENT_ENDPOINT = 2"
definition KIND_STANDARD :: nat where "KIND_STANDARD = 0"
definition KIND_CLASS :: nat where "KIND_CLASS = 1"

definition BAUDRATE :: nat where "BAUDRATE = 19200"

definition usb_line_coding :: "nat \<Rightarrow> bytes" where
  "usb_line_coding baud = le_bytes 4 baud @ [0x00, 0x00, 0x08]"

definition DEFAULT_LINE_CODING :: bytes where "DEFAULT_LINE_CODING = usb_line_coding BAUDRATE"

record control_state =
  ct_line_coding :: bytes
  ct_configured :: bool
  ct_line_state :: nat

definition control_new :: control_state where
  "control_new = \<lparr>ct_line_coding = DEFAULT_LINE_CODING, ct_configured = False, ct_line_state = 0\<rparr>"

datatype usb_reply = ReplyData bytes | ReplyLineCoding nat | ReplyStatus | AcceptLineCoding | SetAddress nat
  | SetConfiguration bool | SetLineState nat | ReplyStall

definition clamped :: "bytes \<Rightarrow> nat \<Rightarrow> usb_reply" where
  "clamped bs len = ReplyData (take (if len < length bs then len else length bs) bs)"

definition usb_descriptor :: "nat \<Rightarrow> bytes option" where
  "usb_descriptor value =
     (let kind = value div 256; index = value mod 256 in
      if kind = 1 then Some DEVICE_DESCRIPTOR
      else if kind = 2 \<and> index = 0 then Some CONFIG_DESCRIPTOR
      else if kind = 3 \<and> index = 0 then Some STRING_LANGID
      else if kind = 3 \<and> index = 1 then Some STRING_MANUFACTURER
      else if kind = 3 \<and> index = 2 then Some STRING_PRODUCT
      else if kind = 3 \<and> index = 3 then Some STRING_SERIAL
      else None)"

definition STATUS_ZERO :: bytes where "STATUS_ZERO = [0, 0]"
definition CONFIG_VALUE_ONE :: bytes where "CONFIG_VALUE_ONE = [1]"
definition CONFIG_VALUE_ZERO :: bytes where "CONFIG_VALUE_ZERO = [0]"

text \<open>The arms of the match, in its order.\<close>

definition control_reply :: "usb_setup \<Rightarrow> control_state \<Rightarrow> usb_reply" where
  "control_reply s st =
     (let kind = su_kind s; recipient = su_recipient s; request = su_request s in
      if kind = KIND_STANDARD \<and> recipient \<in> {RECIPIENT_DEVICE, RECIPIENT_INTERFACE, RECIPIENT_ENDPOINT} \<and> request = 0x00
      then clamped STATUS_ZERO (su_length s)
      else if kind = KIND_STANDARD \<and> recipient = RECIPIENT_ENDPOINT \<and> request = 0x01 \<and> su_value s = 0 then ReplyStatus
      else if kind = KIND_STANDARD \<and> request = 0x03 then ReplyStall
      else if kind = KIND_STANDARD \<and> recipient = RECIPIENT_DEVICE \<and> request = 0x05
      then (if 127 < su_value s \<or> su_index s \<noteq> 0 \<or> su_length s \<noteq> 0 then ReplyStall else SetAddress (su_value s))
      else if kind = KIND_STANDARD \<and> recipient = RECIPIENT_DEVICE \<and> request = 0x06
      then (case usb_descriptor (su_value s) of Some bs \<Rightarrow> clamped bs (su_length s) | None \<Rightarrow> ReplyStall)
      else if kind = KIND_STANDARD \<and> recipient = RECIPIENT_DEVICE \<and> request = 0x08
      then clamped (if ct_configured st then CONFIG_VALUE_ONE else CONFIG_VALUE_ZERO) (su_length s)
      else if kind = KIND_STANDARD \<and> recipient = RECIPIENT_DEVICE \<and> request = 0x09
      then (if su_value s = 0 then SetConfiguration False else if su_value s = 1 then SetConfiguration True else ReplyStall)
      else if kind = KIND_STANDARD \<and> recipient = RECIPIENT_INTERFACE \<and> request \<in> {0x0a, 0x0b} then ReplyStall
      else if kind = KIND_CLASS \<and> recipient = RECIPIENT_INTERFACE \<and> request = 0x20
      then (if su_length s = 7 then AcceptLineCoding else ReplyStall)
      else if kind = KIND_CLASS \<and> recipient = RECIPIENT_INTERFACE \<and> request = 0x21
      then ReplyLineCoding (if su_length s < length (ct_line_coding st) then su_length s else length (ct_line_coding st))
      else if kind = KIND_CLASS \<and> recipient = RECIPIENT_INTERFACE \<and> request = 0x22 then SetLineState (su_value s)
      else if kind = KIND_CLASS \<and> recipient = RECIPIENT_INTERFACE \<and> request = 0x23 then ReplyStatus
      else ReplyStall)"

subsection \<open>Sizes\<close>

definition fifo_words :: "nat \<Rightarrow> nat" where
  "fifo_words len = len div 4 + (if len mod 4 \<noteq> 0 then 1 else 0)"

definition xfer_size :: "nat \<Rightarrow> nat \<Rightarrow> u32 option" where
  "xfer_size len mps =
     (if mps = 0 then None
      else let packets = (if len = 0 then 1 else len div mps + (if len mod mps \<noteq> 0 then 1 else 0)) in
        if 0x3ff < packets \<or> 0x7ffff < len then None
        else Some (push_bit 19 (word_of_nat packets) OR word_of_nat len))"

definition ep0_xfer_size :: "nat \<Rightarrow> u32 option" where
  "ep0_xfer_size len =
     (let packets = (if len = 0 then 1 else len div MAX_PACKET_SIZE + (if len mod MAX_PACKET_SIZE \<noteq> 0 then 1 else 0)) in
      if 3 < packets \<or> 0x7f < len then None
      else Some (push_bit 19 (word_of_nat packets) OR word_of_nat len))"

record rx_status =
  rx_ep :: nat
  rx_len :: nat
  rx_kind :: nat

definition rx_status_of :: "u32 \<Rightarrow> rx_status" where
  "rx_status_of grxstsp = \<lparr>rx_ep = unat (grxstsp AND 0x0f), rx_len = unat (drop_bit 4 grxstsp AND 0x7ff),
     rx_kind = unat (drop_bit 17 grxstsp AND 0x0f)\<rparr>"

definition PKTSTS_OUT_DATA :: nat where "PKTSTS_OUT_DATA = 2"
definition PKTSTS_OUT_COMPLETE :: nat where "PKTSTS_OUT_COMPLETE = 3"
definition PKTSTS_SETUP_COMPLETE :: nat where "PKTSTS_SETUP_COMPLETE = 4"
definition PKTSTS_SETUP_DATA :: nat where "PKTSTS_SETUP_DATA = 6"

subsection \<open>The FIFO\<close>

record 'p otg_port =
  op_read_word :: "'p \<Rightarrow> u32 \<times> 'p"
  op_write_word :: "nat \<Rightarrow> u32 \<Rightarrow> 'p \<Rightarrow> 'p"
  op_words_free :: "nat \<Rightarrow> 'p \<Rightarrow> nat \<times> 'p"

definition USB_SPIN_LIMIT :: nat where "USB_SPIN_LIMIT = 1000000"

text \<open>The bytes of one word, into the buffer and not past its end or the packet's.\<close>

fun place_bytes :: "nat \<Rightarrow> nat \<Rightarrow> bytes \<Rightarrow> bytes \<times> nat \<Rightarrow> bytes \<times> nat" where
  "place_bytes pos len [] dc = dc"
| "place_bytes pos len (b # bs) (dest, copied) =
     place_bytes (pos + 1) len bs
       (if pos < len \<and> pos < length dest then (dest[pos := b], copied + 1) else (dest, copied))"

fun fifo_get :: "'p otg_port \<Rightarrow> nat \<Rightarrow> nat \<Rightarrow> nat \<Rightarrow> bytes \<times> nat \<Rightarrow> 'p \<Rightarrow> (bytes \<times> nat) \<times> 'p" where
  "fifo_get P len word 0 dc p = (dc, p)"
| "fifo_get P len word (Suc n) dc p =
     (case op_read_word P p of (w, p) \<Rightarrow> fifo_get P len (word + 1) n (place_bytes (word * 4) len (le_bytes 4 (unat w)) dc) p)"

text \<open>The count or the refusal, the buffer, and the port.\<close>

definition fifo_read :: "'p otg_port \<Rightarrow> nat \<Rightarrow> bytes \<Rightarrow> 'p \<Rightarrow> (usb_error + nat) \<times> bytes \<times> 'p" where
  "fifo_read P len dest p =
     (case fifo_get P len 0 (fifo_words len) (dest, 0) p of
        ((dest, copied), p) \<Rightarrow> (if length dest < len then Inl (OversizePacket len) else Inr copied, dest, p))"

definition fifo_word :: "bytes \<Rightarrow> nat \<Rightarrow> u32" where
  "fifo_word src word = word_of_nat (of_le (map (\<lambda>i. if word * 4 + i < length src then src ! (word * 4 + i) else 0) [0 ..< 4]))"

function fifo_put :: "'p otg_port \<Rightarrow> nat \<Rightarrow> u32 list \<Rightarrow> nat \<Rightarrow> 'p \<Rightarrow> (usb_error + unit) \<times> 'p" where
  "fifo_put P ep ws spins p =
     (case ws of
        [] \<Rightarrow> (Inr (), p)
      | w # rest \<Rightarrow>
         (case op_words_free P ep p of
            (free, p) \<Rightarrow>
              if free = 0
              then (if spins = 0 then (Inl FifoTimeout, p) else fifo_put P ep ws (spins - 1) p)
              else fifo_put P ep rest spins (op_write_word P ep w p)))"
  by pat_completeness auto
termination
  by (relation "measure (\<lambda>(_, _, ws, spins, _). length ws + spins)") auto

declare fifo_put.simps [simp del]

definition fifo_write :: "'p otg_port \<Rightarrow> nat \<Rightarrow> bytes \<Rightarrow> nat \<Rightarrow> 'p \<Rightarrow> (usb_error + unit) \<times> 'p" where
  "fifo_write P ep src spin_limit p = fifo_put P ep (map (fifo_word src) [0 ..< fifo_words (length src)]) spin_limit p"

subsection \<open>The core\<close>

definition OTG_FS_BASE :: nat where "OTG_FS_BASE = 0x50000000"
definition GOTGCTL :: nat where "GOTGCTL = 0x000"
definition GAHBCFG :: nat where "GAHBCFG = 0x008"
definition GUSBCFG :: nat where "GUSBCFG = 0x00c"
definition GRSTCTL :: nat where "GRSTCTL = 0x010"
definition GINTSTS :: nat where "GINTSTS = 0x014"
definition GINTMSK :: nat where "GINTMSK = 0x018"
definition GRXSTSP :: nat where "GRXSTSP = 0x020"
definition GRXFSIZ :: nat where "GRXFSIZ = 0x024"
definition OFF_DIEPTXF0 :: nat where "OFF_DIEPTXF0 = 0x028"
definition GCCFG :: nat where "GCCFG = 0x038"
definition OFF_DIEPTXF1 :: nat where "OFF_DIEPTXF1 = 0x104"
definition OTG_DEVICE :: nat where "OTG_DEVICE = 0x800"
definition IN_EP :: nat where "IN_EP = 0x900"
definition OUT_EP :: nat where "OUT_EP = 0xb00"
definition EP_STRIDE :: nat where "EP_STRIDE = 0x20"
definition PCGCCTL :: nat where "PCGCCTL = 0xe00"
definition FIFO :: nat where "FIFO = 0x1000"
definition FIFO_STRIDE :: nat where "FIFO_STRIDE = 0x1000"
definition DCFG :: nat where "DCFG = 0x00"
definition DCTL :: nat where "DCTL = 0x04"
definition DIEPMSK :: nat where "DIEPMSK = 0x10"
definition DOEPMSK :: nat where "DOEPMSK = 0x14"
definition DAINTMSK :: nat where "DAINTMSK = 0x1c"
definition EP_CTL :: nat where "EP_CTL = 0x00"
definition EP_INT :: nat where "EP_INT = 0x08"
definition EP_TSIZ :: nat where "EP_TSIZ = 0x10"
definition EP_TXFSTS :: nat where "EP_TXFSTS = 0x18"

definition fifo_window :: "nat \<Rightarrow> nat" where "fifo_window ep = OTG_FS_BASE + FIFO + (ep mod 16) * FIFO_STRIDE"
definition otg_global :: "nat \<Rightarrow> nat" where "otg_global off = OTG_FS_BASE + off"
definition otg_device :: "nat \<Rightarrow> nat" where "otg_device off = OTG_FS_BASE + OTG_DEVICE + off"
definition in_ep :: "nat \<Rightarrow> nat \<Rightarrow> nat" where "in_ep ep off = OTG_FS_BASE + IN_EP + ep * EP_STRIDE + off"
definition out_ep :: "nat \<Rightarrow> nat \<Rightarrow> nat" where "out_ep ep off = OTG_FS_BASE + OUT_EP + ep * EP_STRIDE + off"
definition dieptxf :: "nat \<Rightarrow> nat" where "dieptxf n = (if n = 0 then OFF_DIEPTXF0 else OFF_DIEPTXF1 + (n - 1) * 4)"

definition GINTSTS_RXFLVL :: u32 where "GINTSTS_RXFLVL = bitv 4"
definition GINTSTS_USBRST :: u32 where "GINTSTS_USBRST = bitv 12"
definition GINTSTS_ENUMDNE :: u32 where "GINTSTS_ENUMDNE = bitv 13"
definition DIEPCTL_MPSIZ_MASK :: u32 where "DIEPCTL_MPSIZ_MASK = 0x7ff"
definition DIEPCTL_USBAEP :: u32 where "DIEPCTL_USBAEP = bitv 15"
definition DIEPCTL_EPTYP_SHIFT :: nat where "DIEPCTL_EPTYP_SHIFT = 18"
definition DIEPCTL_STALL :: u32 where "DIEPCTL_STALL = bitv 21"
definition DIEPCTL_TXFNUM_SHIFT :: nat where "DIEPCTL_TXFNUM_SHIFT = 22"
definition DIEPCTL_CNAK :: u32 where "DIEPCTL_CNAK = bitv 26"
definition DIEPCTL_SNAK :: u32 where "DIEPCTL_SNAK = bitv 27"
definition DIEPCTL_SD0PID :: u32 where "DIEPCTL_SD0PID = bitv 28"
definition DIEPCTL_EPDIS :: u32 where "DIEPCTL_EPDIS = bitv 30"
definition DIEPCTL_EPENA :: u32 where "DIEPCTL_EPENA = bitv 31"
definition DCFG_DAD_SHIFT :: nat where "DCFG_DAD_SHIFT = 4"
definition DCFG_DAD_MASK :: u32 where "DCFG_DAD_MASK = push_bit DCFG_DAD_SHIFT 0x7f"
definition GUSBCFG_PHYSEL :: u32 where "GUSBCFG_PHYSEL = bitv 6"
definition GUSBCFG_TRDT_SHIFT :: nat where "GUSBCFG_TRDT_SHIFT = 10"
definition GUSBCFG_TRDT_MASK :: u32 where "GUSBCFG_TRDT_MASK = push_bit GUSBCFG_TRDT_SHIFT 0xf"
definition GUSBCFG_FHMOD :: u32 where "GUSBCFG_FHMOD = bitv 29"
definition GUSBCFG_FDMOD :: u32 where "GUSBCFG_FDMOD = bitv 30"
definition GCCFG_PWRDWN :: u32 where "GCCFG_PWRDWN = bitv 16"
definition GCCFG_VBDEN :: u32 where "GCCFG_VBDEN = bitv 21"
definition GOTGCTL_BVALOEN :: u32 where "GOTGCTL_BVALOEN = bitv 6"
definition GOTGCTL_BVALOVAL :: u32 where "GOTGCTL_BVALOVAL = bitv 7"
definition GAHBCFG_GINT :: u32 where "GAHBCFG_GINT = bitv 0"
definition GRSTCTL_CSRST :: u32 where "GRSTCTL_CSRST = bitv 0"
definition GRSTCTL_RXFFLSH :: u32 where "GRSTCTL_RXFFLSH = bitv 4"
definition GRSTCTL_TXFFLSH :: u32 where "GRSTCTL_TXFFLSH = bitv 5"
definition GRSTCTL_TXFNUM_SHIFT :: nat where "GRSTCTL_TXFNUM_SHIFT = 6"
definition GRSTCTL_AHBIDL :: u32 where "GRSTCTL_AHBIDL = bitv 31"
definition DCTL_SDIS :: u32 where "DCTL_SDIS = bitv 1"
definition DCTL_CGINAK :: u32 where "DCTL_CGINAK = bitv 8"
definition DCFG_DSPD_MASK :: u32 where "DCFG_DSPD_MASK = 3"
definition DCFG_DSPD_FULL :: u32 where "DCFG_DSPD_FULL = 3"
definition PCGCCTL_STPPCLK :: u32 where "PCGCCTL_STPPCLK = bitv 0"
definition PCGCCTL_GATEHCLK :: u32 where "PCGCCTL_GATEHCLK = bitv 1"
definition DOEPTSIZ_STUPCNT_3 :: u32 where "DOEPTSIZ_STUPCNT_3 = push_bit 29 3"
definition RESET_SPIN_LIMIT :: nat where "RESET_SPIN_LIMIT = 200000"
definition EP_IDLE_SPIN_LIMIT :: nat where "EP_IDLE_SPIN_LIMIT = 1000000"

text \<open>The core and the trace of the accesses to it, newest last.\<close>

record 'h otg =
  og_read :: "nat \<Rightarrow> 'h \<Rightarrow> u32 \<times> 'h"
  og_write :: "nat \<Rightarrow> u32 \<Rightarrow> 'h \<Rightarrow> 'h"

datatype usb_access = UsbRead nat u32 | UsbWrite nat u32

type_synonym 'h bench = "'h \<times> usb_access list"

definition usb_read :: "'h otg \<Rightarrow> nat \<Rightarrow> 'h bench \<Rightarrow> u32 \<times> 'h bench" where
  "usb_read C a t = (case og_read C a (fst t) of (v, h) \<Rightarrow> (v, (h, snd t @ [UsbRead a v])))"

definition usb_write :: "'h otg \<Rightarrow> nat \<Rightarrow> u32 \<Rightarrow> 'h bench \<Rightarrow> 'h bench" where
  "usb_write C a v t = (og_write C a v (fst t), snd t @ [UsbWrite a v])"

definition usb_modify :: "'h otg \<Rightarrow> nat \<Rightarrow> (u32 \<Rightarrow> u32) \<Rightarrow> 'h bench \<Rightarrow> 'h bench" where
  "usb_modify C a f t = (case usb_read C a t of (v, t) \<Rightarrow> usb_write C a (f v) t)"

text \<open>\<open>Mmio\<close>: reads pop the one receive FIFO, writes push the window of an endpoint.\<close>

definition mmio_port :: "'h otg \<Rightarrow> 'h bench otg_port" where
  "mmio_port C = \<lparr>op_read_word = usb_read C (OTG_FS_BASE + FIFO),
     op_write_word = (\<lambda>ep w. usb_write C (fifo_window ep) w),
     op_words_free = (\<lambda>ep t. case usb_read C (in_ep (ep mod 16) EP_TXFSTS) t of (raw, t) \<Rightarrow> (unat (raw AND 0xffff), t))\<rparr>"

text \<open>Polling a register until a test holds, within the spins allowed.\<close>

fun spin_until :: "'h otg \<Rightarrow> nat \<Rightarrow> (u32 \<Rightarrow> bool) \<Rightarrow> usb_error \<Rightarrow> nat \<Rightarrow> 'h bench \<Rightarrow> (usb_error + unit) \<times> 'h bench" where
  "spin_until C a ready e spins t =
     (case usb_read C a t of
        (v, t) \<Rightarrow> if ready v then (Inr (), t)
                  else (case spins of 0 \<Rightarrow> (Inl e, t) | Suc n \<Rightarrow> spin_until C a ready e n t))"

definition wait_bits :: "'h otg \<Rightarrow> nat \<Rightarrow> u32 \<Rightarrow> bool \<Rightarrow> 'h bench \<Rightarrow> (usb_error + unit) \<times> 'h bench" where
  "wait_bits C off bits want t =
     spin_until C (otg_global off) (\<lambda>v. (v AND bits \<noteq> 0) = want) CoreResetTimeout RESET_SPIN_LIMIT t"

definition wait_ep_idle :: "'h otg \<Rightarrow> nat \<Rightarrow> 'h bench \<Rightarrow> (usb_error + unit) \<times> 'h bench" where
  "wait_ep_idle C ctl t = spin_until C ctl (\<lambda>v. v AND DIEPCTL_EPENA = 0) EndpointBusy EP_IDLE_SPIN_LIMIT t"

text \<open>The operator \<open>?\<close> on results that carry the core.\<close>

definition usb_then :: "(usb_error + 'a) \<times> 'h bench \<Rightarrow> ('a \<Rightarrow> 'h bench \<Rightarrow> (usb_error + 'b) \<times> 'h bench) \<Rightarrow> (usb_error + 'b) \<times> 'h bench" where
  "usb_then m k = (case m of (Inl e, t) \<Rightarrow> (Inl e, t) | (Inr a, t) \<Rightarrow> k a t)"

definition core_reset :: "'h otg \<Rightarrow> 'h bench \<Rightarrow> (usb_error + unit) \<times> 'h bench" where
  "core_reset C t =
     usb_then (wait_bits C GRSTCTL GRSTCTL_AHBIDL True t)
       (\<lambda>_ t. wait_bits C GRSTCTL GRSTCTL_CSRST False (usb_modify C (otg_global GRSTCTL) (\<lambda>v. v OR GRSTCTL_CSRST) t))"

definition flush_tx_all :: "'h otg \<Rightarrow> 'h bench \<Rightarrow> (usb_error + unit) \<times> 'h bench" where
  "flush_tx_all C t =
     wait_bits C GRSTCTL GRSTCTL_TXFFLSH False
       (usb_write C (otg_global GRSTCTL) (GRSTCTL_TXFFLSH OR push_bit GRSTCTL_TXFNUM_SHIFT 0x10) t)"

definition flush_rx :: "'h otg \<Rightarrow> 'h bench \<Rightarrow> (usb_error + unit) \<times> 'h bench" where
  "flush_rx C t = wait_bits C GRSTCTL GRSTCTL_RXFFLSH False (usb_write C (otg_global GRSTCTL) GRSTCTL_RXFFLSH t)"

definition reset_endpoint :: "'h otg \<Rightarrow> nat \<times> nat \<times> nat \<times> nat \<Rightarrow> 'h bench \<Rightarrow> 'h bench" where
  "reset_endpoint C regs t =
     (case regs of (ep, ctl, tsiz, int_reg) \<Rightarrow>
        case usb_read C ctl t of (v, t) \<Rightarrow>
          usb_write C int_reg 0xfb7f
           (usb_write C tsiz 0
             (usb_write C ctl (if v AND DIEPCTL_EPENA = 0 then 0 else if ep = 0 then DIEPCTL_SNAK
                               else DIEPCTL_EPDIS OR DIEPCTL_SNAK) t)))"

definition reset_endpoints :: "'h otg \<Rightarrow> 'h bench \<Rightarrow> 'h bench" where
  "reset_endpoints C t =
     fold (reset_endpoint C)
       (concat (map (\<lambda>ep. [(ep, in_ep ep EP_CTL, in_ep ep EP_TSIZ, in_ep ep EP_INT),
                           (ep, out_ep ep EP_CTL, out_ep ep EP_TSIZ, out_ep ep EP_INT)]) [0 ..< 4])) t"

definition arm_ep0_out :: "'h otg \<Rightarrow> 'h bench \<Rightarrow> 'h bench" where
  "arm_ep0_out C t =
     usb_modify C (out_ep 0 EP_CTL) (\<lambda>v. v OR DIEPCTL_CNAK OR DIEPCTL_EPENA)
       (usb_write C (out_ep 0 EP_TSIZ) (DOEPTSIZ_STUPCNT_3 OR bitv 19 OR 24) t)"

definition arm_data_out :: "'h otg \<Rightarrow> 'h bench \<Rightarrow> 'h bench" where
  "arm_data_out C t =
     usb_modify C (out_ep EP_DATA EP_CTL) (\<lambda>v. v OR DIEPCTL_CNAK OR DIEPCTL_EPENA)
       (usb_write C (out_ep EP_DATA EP_TSIZ) (bitv 19 OR word_of_nat MAX_PACKET_SIZE) t)"

definition ep0_send :: "'h otg \<Rightarrow> bytes \<Rightarrow> 'h bench \<Rightarrow> (usb_error + unit) \<times> 'h bench" where
  "ep0_send C bs t =
     (case ep0_xfer_size (length bs) of
        None \<Rightarrow> (Inl (OversizePacket (length bs)), t)
      | Some tsiz \<Rightarrow>
          usb_then (wait_ep_idle C (in_ep 0 EP_CTL) t)
            (\<lambda>_ t. fifo_write (mmio_port C) 0 bs USB_SPIN_LIMIT
              (usb_modify C (in_ep 0 EP_CTL) (\<lambda>v. v OR DIEPCTL_CNAK OR DIEPCTL_EPENA)
                (usb_write C (otg_global (IN_EP + EP_TSIZ)) tsiz t))))"

definition ep0_stall :: "'h otg \<Rightarrow> 'h bench \<Rightarrow> 'h bench" where
  "ep0_stall C t =
     arm_ep0_out C
       (usb_modify C (out_ep 0 EP_CTL) (\<lambda>v. v OR DIEPCTL_STALL)
         (usb_modify C (in_ep 0 EP_CTL) (\<lambda>v. v OR DIEPCTL_STALL) t))"

definition activate_endpoints :: "'h otg \<Rightarrow> 'h bench \<Rightarrow> 'h bench" where
  "activate_endpoints C t =
     arm_data_out C
      (usb_modify C (out_ep EP_DATA EP_CTL)
        (\<lambda>v. v OR word_of_nat MAX_PACKET_SIZE OR push_bit DIEPCTL_EPTYP_SHIFT 2 OR DIEPCTL_SD0PID OR DIEPCTL_USBAEP)
       (usb_modify C (in_ep EP_DATA EP_CTL)
         (\<lambda>v. v OR word_of_nat MAX_PACKET_SIZE OR push_bit DIEPCTL_EPTYP_SHIFT 2
              OR push_bit DIEPCTL_TXFNUM_SHIFT (word_of_nat EP_DATA) OR DIEPCTL_SD0PID OR DIEPCTL_USBAEP)
        (usb_modify C (in_ep EP_NOTIFY EP_CTL)
          (\<lambda>v. v OR 8 OR push_bit DIEPCTL_EPTYP_SHIFT 3 OR push_bit DIEPCTL_TXFNUM_SHIFT (word_of_nat EP_NOTIFY)
               OR DIEPCTL_SD0PID OR DIEPCTL_USBAEP) t)))"

definition deactivate_endpoints :: "'h otg \<Rightarrow> 'h bench \<Rightarrow> 'h bench" where
  "deactivate_endpoints C t =
     fold (\<lambda>ctl. usb_modify C ctl (\<lambda>v. (v OR DIEPCTL_SNAK) AND NOT DIEPCTL_USBAEP))
       [in_ep EP_NOTIFY EP_CTL, in_ep EP_DATA EP_CTL, out_ep EP_DATA EP_CTL] t"

definition on_reset :: "'h otg \<Rightarrow> 'h bench \<Rightarrow> (usb_error + unit) \<times> 'h bench" where
  "on_reset C t =
     usb_then (flush_tx_all C t) (\<lambda>_ t.
       usb_then (flush_rx C t) (\<lambda>_ t.
         (Inr (), arm_ep0_out C (usb_modify C (otg_device DCFG) (\<lambda>v. v AND NOT DCFG_DAD_MASK) (reset_endpoints C t)))))"

declare spin_until.simps [simp del]

subsection \<open>Bring-up\<close>

definition RCC_AHB2ENR_ADDR :: nat where "RCC_AHB2ENR_ADDR = 0x4002104c"
definition RCC_APB1ENR1_ADDR :: nat where "RCC_APB1ENR1_ADDR = 0x40021058"
definition PWR_CR2 :: nat where "PWR_CR2 = 0x40007004"

definition usb_enable_clocks :: "'h otg \<Rightarrow> 'h bench \<Rightarrow> 'h bench" where
  "usb_enable_clocks C t =
     (case usb_read C RCC_APB1ENR1_ADDR t of (apb, t) \<Rightarrow>
       let t = (if apb AND bitv 28 = 0 then usb_write C RCC_APB1ENR1_ADDR (apb OR bitv 28) t else t);
           t = usb_modify C PWR_CR2 (\<lambda>cr2. cr2 OR bitv 10) t;
           t = (if apb AND bitv 28 = 0 then usb_write C RCC_APB1ENR1_ADDR apb t else t);
           t = usb_modify C RCC_AHB2ENR_ADDR (\<lambda>en. en OR bitv 12) t in
       snd (usb_read C RCC_AHB2ENR_ADDR t))"

definition configure_pins :: "'h otg \<Rightarrow> 'h bench \<Rightarrow> 'h bench" where
  "configure_pins C t =
     usb_modify C 0x48000024 (\<lambda>v. v AND NOT (push_bit 12 0xf) AND NOT (push_bit 16 0xf) OR push_bit 12 0xa OR push_bit 16 0xa)
      (usb_modify C 0x48000008 (\<lambda>v. v OR push_bit 22 0xf)
       (usb_modify C 0x48000000 (\<lambda>v. v AND NOT (push_bit 22 0xf) OR push_bit 22 0xa)
        (usb_modify C RCC_AHB2ENR_ADDR (\<lambda>en. en OR bitv 0) t)))"

text \<open>What follows the core reset, up to the FIFO flushes, and what follows them.\<close>

definition force_device_mode :: "'h otg \<Rightarrow> 'h bench \<Rightarrow> 'h bench" where
  "force_device_mode C t =
     (let t = usb_modify C (otg_global GCCFG) (\<lambda>v. v OR GCCFG_PWRDWN) t;
          t = usb_modify C (otg_global GCCFG) (\<lambda>v. v AND NOT GCCFG_VBDEN) t;
          t = usb_modify C (otg_global GOTGCTL) (\<lambda>v. v OR GOTGCTL_BVALOEN OR GOTGCTL_BVALOVAL) t;
          t = usb_modify C (otg_device DCTL) (\<lambda>v. v OR DCTL_SDIS) t;
          t = usb_modify C (otg_global GUSBCFG) (\<lambda>v. v AND NOT (GUSBCFG_FHMOD OR GUSBCFG_FDMOD OR GUSBCFG_TRDT_MASK)
                OR GUSBCFG_FDMOD OR push_bit GUSBCFG_TRDT_SHIFT 6) t;
          t = usb_write C (otg_global PCGCCTL) 0 t;
          t = usb_modify C (otg_device DCFG) (\<lambda>v. v AND NOT DCFG_DSPD_MASK OR DCFG_DSPD_FULL) t in
      fold (\<lambda>i. usb_write C (otg_global (dieptxf i)) 0) [0 ..< 15] t)"

definition connect_device :: "'h otg \<Rightarrow> 'h bench \<Rightarrow> 'h bench" where
  "connect_device C t =
     (let t = usb_write C (otg_global (OTG_DEVICE + DIEPMSK)) 0 t;
          t = usb_write C (otg_global (OTG_DEVICE + DOEPMSK)) 0 t;
          t = usb_write C (otg_global (OTG_DEVICE + DAINTMSK)) 0 t;
          t = usb_write C (otg_global GINTSTS) 0xbfffffff t;
          t = usb_write C (otg_global GINTMSK) (GINTSTS_RXFLVL OR GINTSTS_USBRST OR GINTSTS_ENUMDNE) t;
          t = usb_modify C (otg_global GAHBCFG) (\<lambda>v. v AND NOT GAHBCFG_GINT) t;
          t = usb_write C (otg_global GRXFSIZ) (word_of_nat RX_FIFO_WORDS) t;
          t = usb_write C (otg_global OFF_DIEPTXF0) DIEPTXF0 t;
          t = usb_write C (otg_global (dieptxf EP_NOTIFY)) DIEPTXF1 t;
          t = usb_write C (otg_global (dieptxf EP_DATA)) DIEPTXF2 t;
          t = reset_endpoints C t;
          t = usb_modify C (otg_device DCTL) (\<lambda>v. v OR DCTL_CGINAK) t;
          t = arm_ep0_out C t;
          t = usb_modify C (otg_global PCGCCTL) (\<lambda>v. v AND NOT (PCGCCTL_STPPCLK OR PCGCCTL_GATEHCLK)) t in
      usb_modify C (otg_device DCTL) (\<lambda>v. v AND NOT DCTL_SDIS) t)"

definition bring_up :: "'h otg \<Rightarrow> 'h bench \<Rightarrow> (usb_error + unit) \<times> 'h bench" where
  "bring_up C t =
     (let t = usb_modify C (otg_global GUSBCFG) (\<lambda>v. v OR GUSBCFG_PHYSEL) (configure_pins C (usb_enable_clocks C t)) in
      usb_then (core_reset C t) (\<lambda>_ t.
        usb_then (flush_tx_all C (force_device_mode C t)) (\<lambda>_ t.
          usb_then (flush_rx C t) (\<lambda>_ t. (Inr (), connect_device C t)))))"

subsection \<open>The serial device\<close>

record cdc =
  cd_state :: control_state
  cd_setup :: bytes

definition cdc_open :: "'h otg \<Rightarrow> 'h bench \<Rightarrow> (usb_error + cdc) \<times> 'h bench" where
  "cdc_open C t =
     usb_then (bring_up C t) (\<lambda>_ t. (Inr \<lparr>cd_state = control_new, cd_setup = replicate 8 0\<rparr>, t))"

text \<open>What a request does; the state is changed before the status stage is sent.\<close>

definition cdc_apply :: "'h otg \<Rightarrow> usb_reply \<Rightarrow> control_state \<Rightarrow> 'h bench \<Rightarrow> (usb_error + unit) \<times> control_state \<times> 'h bench" where
  "cdc_apply C reply st t =
     (let sent = (\<lambda>bs st t. case ep0_send C bs t of (res, t) \<Rightarrow> (res, st, t)) in
      case reply of
        ReplyData bs \<Rightarrow> sent bs st t
      | ReplyLineCoding n \<Rightarrow>
          if n \<le> length (ct_line_coding st) then sent (take n (ct_line_coding st)) st t else (Inr (), st, ep0_stall C t)
      | ReplyStatus \<Rightarrow> sent [] st t
      | AcceptLineCoding \<Rightarrow> (Inr (), st, t)
      | SetAddress address \<Rightarrow>
          sent [] st (usb_modify C (otg_device DCFG) (\<lambda>v. v AND NOT DCFG_DAD_MASK OR push_bit DCFG_DAD_SHIFT (word_of_nat address)) t)
      | SetConfiguration on \<Rightarrow>
          sent [] (st\<lparr>ct_configured := on\<rparr>) (if on then activate_endpoints C t else deactivate_endpoints C t)
      | SetLineState value \<Rightarrow> sent [] (st\<lparr>ct_line_state := value\<rparr>) t
      | ReplyStall \<Rightarrow> (Inr (), st, ep0_stall C t))"

text \<open>One entry of the receive FIFO. The result is the count of bytes in \<open>packet\<close>, or the fault.\<close>

definition cdc_receive ::
  "'h otg \<Rightarrow> rx_status \<Rightarrow> bytes \<Rightarrow> cdc \<Rightarrow> 'h bench \<Rightarrow> (usb_error + nat) \<times> bytes \<times> cdc \<times> 'h bench" where
  "cdc_receive C status packet c t =
     (if rx_kind status = PKTSTS_SETUP_DATA
      then (case fifo_read (mmio_port C) (rx_len status) (replicate 8 0) t of
              (Inl e, _, t) \<Rightarrow> (Inl e, packet, c, t)
            | (Inr _, setup_bytes, t) \<Rightarrow> (Inr 0, packet, c\<lparr>cd_setup := setup_bytes\<rparr>, t))
      else if rx_kind status = PKTSTS_SETUP_COMPLETE
      then (case cdc_apply C (control_reply (setup_parse (cd_setup c)) (cd_state c)) (cd_state c) t of
              (Inl e, st, t) \<Rightarrow> (Inl e, packet, c\<lparr>cd_state := st\<rparr>, t)
            | (Inr _, st, t) \<Rightarrow> (Inr 0, packet, c\<lparr>cd_state := st\<rparr>, arm_ep0_out C t))
      else if rx_kind status = PKTSTS_OUT_DATA \<and> rx_ep status = 0
      then (case fifo_read (mmio_port C) (rx_len status) (replicate 7 0) t of
              (Inl e, _, t) \<Rightarrow> (Inl e, packet, c, t)
            | (Inr n, coding, t) \<Rightarrow>
               (let c = (if n = 7 then c\<lparr>cd_state := (cd_state c)\<lparr>ct_line_coding := coding\<rparr>\<rparr> else c) in
                case ep0_send C [] t of
                  (Inl e, t) \<Rightarrow> (Inl e, packet, c, t)
                | (Inr _, t) \<Rightarrow> (Inr 0, packet, c, arm_ep0_out C t)))
      else if rx_kind status = PKTSTS_OUT_DATA \<and> rx_ep status = EP_DATA
      then (case fifo_read (mmio_port C) (rx_len status) packet t of
              (Inl e, packet, t) \<Rightarrow> (Inl e, packet, c, t)
            | (Inr n, packet, t) \<Rightarrow> (Inr n, packet, c, arm_data_out C t))
      else (case fifo_read (mmio_port C) (rx_len status) packet t of
              (_, packet, t) \<Rightarrow>
                (Inr 0, packet, c,
                 if rx_kind status = PKTSTS_OUT_COMPLETE \<and> rx_ep status = EP_DATA then arm_data_out C t else t)))"

text \<open>One event of the core.\<close>

definition cdc_poll ::
  "'h otg \<Rightarrow> bytes \<Rightarrow> cdc \<Rightarrow> 'h bench \<Rightarrow> (usb_error + nat) \<times> bytes \<times> cdc \<times> 'h bench" where
  "cdc_poll C packet c t =
     (case usb_read C (otg_global GINTSTS) t of (ints, t) \<Rightarrow>
       if ints AND GINTSTS_USBRST \<noteq> 0
       then (case on_reset C t of
               (Inl e, t) \<Rightarrow> (Inl e, packet, c, t)
             | (Inr _, t) \<Rightarrow> (Inr 0, packet, c\<lparr>cd_state := control_new\<rparr>, usb_write C (otg_global GINTSTS) GINTSTS_USBRST t))
       else if ints AND GINTSTS_ENUMDNE \<noteq> 0
       then (Inr 0, packet, c, usb_write C (otg_global GINTSTS) GINTSTS_ENUMDNE
               (usb_modify C (in_ep 0 EP_CTL) (\<lambda>v. v AND NOT DIEPCTL_MPSIZ_MASK) t))
       else if ints AND GINTSTS_RXFLVL = 0 then (Inr 0, packet, c, t)
       else (case usb_read C (otg_global GRXSTSP) t of (raw, t) \<Rightarrow> cdc_receive C (rx_status_of raw) packet c t))"

fun cdc_chunks :: "'h otg \<Rightarrow> bytes list \<Rightarrow> 'h bench \<Rightarrow> (usb_error + unit) \<times> 'h bench" where
  "cdc_chunks C [] t = (Inr (), t)"
| "cdc_chunks C (chunk # chunks) t =
     (case xfer_size (length chunk) MAX_PACKET_SIZE of
        None \<Rightarrow> (Inl (OversizePacket (length chunk)), t)
      | Some tsiz \<Rightarrow>
          usb_then (wait_ep_idle C (in_ep EP_DATA EP_CTL) t) (\<lambda>_ t.
            usb_then (fifo_write (mmio_port C) EP_DATA chunk USB_SPIN_LIMIT
                (usb_modify C (in_ep EP_DATA EP_CTL) (\<lambda>v. v OR DIEPCTL_CNAK OR DIEPCTL_EPENA)
                  (usb_write C (in_ep EP_DATA EP_TSIZ) tsiz t)))
              (\<lambda>_ t. cdc_chunks C chunks t)))"

text \<open>\<open>chunks\<close> of the standard library.\<close>

function usb_chunks :: "nat \<Rightarrow> bytes \<Rightarrow> bytes list" where
  "usb_chunks n bs = (if bs = [] \<or> n = 0 then [] else take n bs # usb_chunks n (drop n bs))"
  by pat_completeness auto
termination
  by (relation "measure (\<lambda>(_, bs). length bs)") auto

declare usb_chunks.simps [simp del]

definition cdc_write :: "'h otg \<Rightarrow> bytes \<Rightarrow> cdc \<Rightarrow> 'h bench \<Rightarrow> (usb_error + unit) \<times> 'h bench" where
  "cdc_write C bs c t =
     (if \<not> ct_configured (cd_state c) then (Inl NotConfigured, t)
      else cdc_chunks C (usb_chunks MAX_PACKET_SIZE bs) t)"

end
