(* ===== verification/UsbCorrect.thy ===== *)
theory UsbCorrect
  imports Usb
begin

text \<open>
  The serial device over any core: what a write puts on the wire, what a packet read is, that every
  answer to a control request fits the endpoint, and what can change the configuration.
\<close>

subsection \<open>Words and bytes\<close>

lemma concat_blocks:
  "concat (map (\<lambda>k. map (\<lambda>i. g (k * 4 + i)) [0 ..< 4]) [0 ..< n]) = map g [0 ..< 4 * n]"
proof (induction n)
  case (Suc n)
  have "map (\<lambda>i. g (n * 4 + i)) [0 ..< 4] = map g [4 * n ..< 4 * n + 4]"
    by (rule nth_equalityI) (simp_all add: mult.commute)
  moreover have "[0 ..< 4 * Suc n] = [0 ..< 4 * n] @ [4 * n ..< 4 * n + 4]"
    using upt_add_eq_append[of 0 "4 * n" 4] by (simp add: algebra_simps)
  ultimately show ?case using Suc by simp
qed simp

definition word_bytes :: "u32 list \<Rightarrow> bytes" where
  "word_bytes ws = concat (map (\<lambda>w. le_bytes 4 (unat w)) ws)"

lemma word_bytes_simps [simp]:
  "word_bytes [] = []" "word_bytes (w # ws) = le_bytes 4 (unat w) @ word_bytes ws"
  "word_bytes (ws @ vs) = word_bytes ws @ word_bytes vs"
  by (simp_all add: word_bytes_def)

lemma length_word_bytes [simp]: "length (word_bytes ws) = 4 * length ws"
  by (induction ws) simp_all

lemma fifo_words_cover: "len \<le> 4 * fifo_words len"
  by (auto simp: fifo_words_def)

text \<open>What is packed for the transmit FIFO, read as bytes, is the source and then zeros.\<close>

lemma packed_bytes: "take (length src) (word_bytes (map (fifo_word src) [0 ..< fifo_words (length src)])) = src"
proof -
  define g where "g i = (if i < length src then src ! i else 0)" for i
  have block: "le_bytes 4 (unat (fifo_word src k)) = map (\<lambda>i. g (k * 4 + i)) [0 ..< 4]" for k
  proof -
    let ?bs = "map (\<lambda>i. g (k * 4 + i)) [0 ..< 4]"
    have "of_le ?bs < 2 ^ 32" using of_le_bound[of ?bs] by simp
    then have "unat (word_of_nat (of_le ?bs) :: u32) = of_le ?bs" by (simp add: unat_of_nat take_bit_eq_mod)
    moreover have "fifo_word src k = word_of_nat (of_le ?bs)" by (simp add: fifo_word_def g_def)
    ultimately show ?thesis using le_bytes_of_le[of ?bs] by simp
  qed
  have "word_bytes (map (fifo_word src) [0 ..< n]) = map g [0 ..< 4 * n]" for n
    using concat_blocks[of g n] by (simp add: word_bytes_def block comp_def del: upt_Suc)
  then have "take (length src) (word_bytes (map (fifo_word src) [0 ..< fifo_words (length src)])) = map g [0 ..< length src]"
    using fifo_words_cover[of "length src"] by (simp add: take_map)
  also have "\<dots> = src" by (rule nth_equalityI) (simp_all add: g_def)
  finally show ?thesis .
qed

subsection \<open>Reading the FIFO\<close>

fun words_read :: "'p otg_port \<Rightarrow> nat \<Rightarrow> 'p \<Rightarrow> u32 list \<times> 'p" where
  "words_read P 0 p = ([], p)"
| "words_read P (Suc n) p = (case op_read_word P p of (w, p) \<Rightarrow> (case words_read P n p of (ws, p) \<Rightarrow> (w # ws, p)))"

lemma words_read_length: "words_read P n p = (ws, p') \<Longrightarrow> length ws = n"
  by (induction n arbitrary: p ws) (auto split: prod.splits)

text \<open>The bytes that reach the buffer: from \<open>pos\<close> on, not past the packet or the buffer.\<close>

definition poured :: "nat \<Rightarrow> nat \<Rightarrow> bytes \<Rightarrow> bytes \<Rightarrow> bytes" where
  "poured pos len bs dest =
     map (\<lambda>i. if pos \<le> i \<and> i < pos + length bs \<and> i < len then bs ! (i - pos) else dest ! i) [0 ..< length dest]"

lemma length_poured [simp]: "length (poured pos len bs dest) = length dest"
  by (simp add: poured_def)

lemma poured_Nil [simp]: "poured pos len [] dest = dest"
  by (auto simp: poured_def intro!: nth_equalityI)

lemma poured_step:
  "poured (Suc pos) len bs (if pos < len \<and> pos < length dest then dest[pos := b] else dest) = poured pos len (b # bs) dest"
  by (auto simp: poured_def nth_list_update nth_Cons' intro!: nth_equalityI)

lemma poured_append: "poured (pos + length bs) len cs (poured pos len bs dest) = poured pos len (bs @ cs) dest"
  by (auto simp: poured_def nth_append intro!: nth_equalityI)

definition poured_count :: "nat \<Rightarrow> nat \<Rightarrow> nat \<Rightarrow> nat \<Rightarrow> nat" where
  "poured_count pos len n cap = min (pos + n) (min len cap) - min pos (min len cap)"

lemma poured_count_add: "poured_count pos len a m + poured_count (pos + a) len b m = poured_count pos len (a + b) m"
proof -
  have "min (pos + a) c - min pos c + (min (pos + a + b) c - min (pos + a) c) = min (pos + a + b) c - min pos c" for c :: nat
    by (cases "c \<le> pos"; cases "c \<le> pos + a"; cases "c \<le> pos + a + b") (simp_all add: min_def)
  then show ?thesis unfolding poured_count_def add.assoc[symmetric] .
qed

lemma place_bytes_spec:
  "place_bytes pos len bs (dest, copied) = (poured pos len bs dest, copied + poured_count pos len (length bs) (length dest))"
proof (induction bs arbitrary: pos dest copied)
  case (Cons b bs)
  show ?case
  proof (cases "pos < len \<and> pos < length dest")
    case True
    then show ?thesis using Cons.IH[of "Suc pos" "dest[pos := b]" "copied + 1"] poured_step[of pos len bs dest b]
      by (auto simp: poured_count_def)
  next
    case False
    then show ?thesis using Cons.IH[of "Suc pos" dest copied] poured_step[of pos len bs dest b]
      by (auto simp: poured_count_def)
  qed
qed (simp add: poured_count_def)

lemma fifo_get_spec:
  "words_read P n p = (ws, p') \<Longrightarrow>
   fifo_get P len word n (dest, copied) p =
     ((poured (word * 4) len (word_bytes ws) dest, copied + poured_count (word * 4) len (4 * n) (length dest)), p')"
proof (induction n arbitrary: word dest copied p ws)
  case 0
  then show ?case by (simp add: poured_count_def)
next
  case (Suc n)
  obtain w p1 where w: "op_read_word P p = (w, p1)" by fastforce
  obtain vs where vs: "words_read P n p1 = (vs, p')" "ws = w # vs" using Suc.prems w by (auto split: prod.splits)
  have "poured_count (word * 4) len 4 m + poured_count (word * 4 + 4) len (4 * n) m = poured_count (word * 4) len (4 * Suc n) m" for m
    using poured_count_add[of "word * 4" len 4 m "4 * n"] by simp
  then show ?case
    using Suc.IH[OF vs(1), of "Suc word" "poured (word * 4) len (le_bytes 4 (unat w)) dest"
        "copied + poured_count (word * 4) len 4 (length dest)"] w vs(2)
      poured_append[of "word * 4" "le_bytes 4 (unat w)" len "word_bytes vs" dest]
    by (simp add: place_bytes_spec add.commute add.left_commute)
qed

text \<open>Every path of a read drains exactly the words of the packet.\<close>

lemma fifo_read_spec:
  assumes "words_read P (fifo_words len) p = (ws, p')"
  shows "fifo_read P len dest p =
    (if length dest < len then Inl (OversizePacket len) else Inr len,
     take (min len (length dest)) (word_bytes ws) @ drop len dest, p')"
proof -
  have n: "length ws = fifo_words len" by (rule words_read_length[OF assms])
  have cover: "len \<le> 4 * fifo_words len" by (rule fifo_words_cover)
  have "poured 0 len (word_bytes ws) dest = take (min len (length dest)) (word_bytes ws) @ drop len dest"
    using n cover by (intro nth_equalityI) (auto simp: poured_def nth_append)
  moreover have "poured_count 0 len (4 * fifo_words len) (length dest) = min len (length dest)"
    using cover by (auto simp: poured_count_def)
  ultimately have "fifo_get P len 0 (fifo_words len) (dest, 0) p =
      ((take (min len (length dest)) (word_bytes ws) @ drop len dest, min len (length dest)), p')"
    using fifo_get_spec[OF assms, of len 0 dest 0] by simp
  then show ?thesis using n cover by (auto simp: fifo_read_def min_def)
qed

subsection \<open>The trace\<close>

definition usb_writes :: "usb_access list \<Rightarrow> (nat \<times> u32) list" where
  "usb_writes es = concat (map (\<lambda>e. case e of UsbRead _ _ \<Rightarrow> [] | UsbWrite a v \<Rightarrow> [(a, v)]) es)"

lemma usb_writes_simps [simp]:
  "usb_writes [] = []" "usb_writes (UsbRead a v # es) = usb_writes es" "usb_writes (UsbWrite a v # es) = (a, v) # usb_writes es"
  "usb_writes (es @ fs) = usb_writes es @ usb_writes fs"
  by (simp_all add: usb_writes_def)

text \<open>What a step adds to the trace, as writes.\<close>

definition adds :: "(nat \<times> u32) list \<Rightarrow> 'h bench \<Rightarrow> 'h bench \<Rightarrow> bool" where
  "adds ws t t' \<longleftrightarrow> (\<exists>es. snd t' = snd t @ es \<and> usb_writes es = ws)"

lemma adds_refl [simp]: "adds [] t t"
  by (simp add: adds_def)

lemma adds_trans: "adds ws t u \<Longrightarrow> adds vs u v \<Longrightarrow> adds (ws @ vs) t v"
  by (auto simp: adds_def)

lemma adds_read: "usb_read C a t = (v, t') \<Longrightarrow> adds [] t t'"
  by (auto simp: usb_read_def adds_def split: prod.splits)

lemma adds_write: "adds [(a, v)] t (usb_write C a v t)"
  by (simp add: usb_write_def adds_def)

lemma adds_modify: "\<exists>v. adds [(a, v)] t (usb_modify C a f t)"
proof -
  obtain v u where u: "usb_read C a t = (v, u)" by (rule prod.exhaust)
  have "adds ([] @ [(a, f v)]) t (usb_modify C a f t)"
    unfolding usb_modify_def u prod.case by (rule adds_trans[OF adds_read[OF u] adds_write])
  then show ?thesis by auto
qed

lemma adds_spin: "spin_until C a ready e spins t = (res, t') \<Longrightarrow> adds [] t t'"
proof (induction spins arbitrary: t)
  case 0
  then show ?case by (auto simp: spin_until.simps[of C a ready e 0] split: prod.splits if_splits dest: adds_read)
next
  case (Suc spins)
  note step = spin_until.simps[of C a ready e "Suc spins" t]
  obtain v u where u: "usb_read C a t = (v, u)" by (rule prod.exhaust)
  show ?case
  proof (cases "ready v")
    case True
    then show ?thesis using Suc.prems adds_read[OF u] u step by simp
  next
    case False
    then have "adds [] u t'" using Suc.prems u step by (intro Suc.IH) simp
    then show ?thesis using adds_trans[OF adds_read[OF u]] by simp
  qed
qed

lemma adds_fifo_put:
  "fifo_put (mmio_port C) ep ws spins t = (Inr (), t') \<Longrightarrow> adds (map (Pair (fifo_window ep)) ws) t t'"
proof (induction "mmio_port C" ep ws spins t rule: fifo_put.induct)
  case (1 ep ws spins t)
  show ?case
  proof (cases ws)
    case Nil
    then show ?thesis using "1.prems" by (simp add: fifo_put.simps)
  next
    case (Cons w rest)
    obtain free u where u: "op_words_free (mmio_port C) ep t = (free, u)" by (rule prod.exhaust)
    have quiet: "adds [] t u" using u by (auto simp: mmio_port_def split: prod.splits dest: adds_read)
    show ?thesis
    proof (cases "free = 0")
      case True
      then have "spins \<noteq> 0" "fifo_put (mmio_port C) ep ws (spins - 1) u = (Inr (), t')"
        using "1.prems" u Cons fifo_put.simps[of "mmio_port C" ep ws spins t] by (auto split: if_splits)
      then show ?thesis using "1.hyps"(1)[OF Cons u[symmetric] True] adds_trans[OF quiet] Cons by fastforce
    next
      case False
      then have "fifo_put (mmio_port C) ep rest spins (op_write_word (mmio_port C) ep w u) = (Inr (), t')"
        using "1.prems" u Cons fifo_put.simps[of "mmio_port C" ep ws spins t] by simp
      then have "adds (map (Pair (fifo_window ep)) rest) (op_write_word (mmio_port C) ep w u) t'"
        using "1.hyps"(2)[OF Cons u[symmetric] False] by simp
      moreover have "adds [(fifo_window ep, w)] u (op_write_word (mmio_port C) ep w u)"
        by (simp add: mmio_port_def adds_write)
      ultimately show ?thesis using adds_trans[OF quiet adds_trans] Cons by fastforce
    qed
  qed
qed

subsection \<open>What goes on the wire\<close>

text \<open>
  The core's reading of the writes to the data endpoint: a transfer size starts a packet, which is as
  many bytes of the words pushed after it.
\<close>

definition tsiz_len :: "u32 \<Rightarrow> nat" where "tsiz_len v = unat (v AND 0x7ffff)"

fun wire :: "(nat \<times> u32) list \<Rightarrow> bytes list" where
  "wire [] = []"
| "wire ((a, v) # ws) =
     (if a = in_ep EP_DATA EP_TSIZ
      then take (tsiz_len v) (word_bytes (map snd (filter (\<lambda>(b, _). b = fifo_window EP_DATA)
             (takeWhile (\<lambda>(b, _). b \<noteq> in_ep EP_DATA EP_TSIZ) ws)))) # wire ws
      else wire ws)"

lemma data_regs:
  "in_ep EP_DATA EP_TSIZ = 0x50000950" "fifo_window EP_DATA = 0x50003000" "in_ep EP_DATA EP_CTL = 0x50000940"
  by (simp_all add: in_ep_def fifo_window_def EP_DATA_def EP_TSIZ_def EP_CTL_def OTG_FS_BASE_def IN_EP_def EP_STRIDE_def
      FIFO_def FIFO_STRIDE_def)

lemma tsiz_len_xfer:
  assumes "xfer_size len mps = Some v"
  shows "tsiz_len v = len"
proof -
  obtain packets :: nat where v: "v = push_bit 19 (word_of_nat packets) OR word_of_nat len" "len \<le> 0x7ffff"
    using assms unfolding xfer_size_def Let_def by (metis (no_types, lifting) leI option.distinct(1) option.inject)
  have m: "(0x7ffff :: u32) = mask 19" by (simp add: mask_eq_exp_minus_1)
  have "v AND 0x7ffff = word_of_nat len AND mask 19"
    unfolding v(1) m by (rule bit_word_eqI) (auto simp: bit_simps)
  moreover have "unat (word_of_nat len AND mask 19 :: u32) = take_bit 19 (unat (word_of_nat len :: u32))"
    by (simp only: take_bit_eq_mask[symmetric] unsigned_take_bit_eq)
  ultimately show ?thesis using v(2) by (simp add: tsiz_len_def unat_of_nat take_bit_eq_mod)
qed

lemma wire_words: "wire (map (Pair (fifo_window EP_DATA)) vs @ ws) = wire ws"
  by (induction vs) (simp_all add: data_regs)

lemma cdc_chunks_wire:
  "cdc_chunks C chunks t = (Inr (), t') \<Longrightarrow> \<exists>ws. adds ws t t' \<and> wire ws = chunks \<and>
     (ws = [] \<or> fst (hd ws) = in_ep EP_DATA EP_TSIZ)"
proof (induction chunks arbitrary: t)
  case Nil
  then show ?case by (intro exI[of _ "[]"]) simp
next
  case (Cons chunk chunks)
  obtain tsiz where tsiz: "xfer_size (length chunk) MAX_PACKET_SIZE = Some tsiz"
    using Cons.prems by (auto split: option.splits)
  obtain u1 where idle: "wait_ep_idle C (in_ep EP_DATA EP_CTL) t = (Inr (), u1)"
    using Cons.prems tsiz by (auto simp: usb_then_def split: prod.splits sum.splits)
  let ?u2 = "usb_write C (in_ep EP_DATA EP_TSIZ) tsiz u1"
  let ?u3 = "usb_modify C (in_ep EP_DATA EP_CTL) (\<lambda>v. v OR DIEPCTL_CNAK OR DIEPCTL_EPENA) ?u2"
  obtain u4 where push: "fifo_write (mmio_port C) EP_DATA chunk USB_SPIN_LIMIT ?u3 = (Inr (), u4)" and
      rest: "cdc_chunks C chunks u4 = (Inr (), t')"
    using Cons.prems tsiz idle by (auto simp: usb_then_def split: prod.splits sum.splits)
  let ?words = "map (fifo_word chunk) [0 ..< fifo_words (length chunk)]"
  obtain v where v: "adds [(in_ep EP_DATA EP_CTL, v)] ?u2 ?u3" using adds_modify by blast
  obtain ws where ws: "adds ws u4 t'" "wire ws = chunks" "ws = [] \<or> fst (hd ws) = in_ep EP_DATA EP_TSIZ"
    using Cons.IH[OF rest] by blast
  let ?ws = "(in_ep EP_DATA EP_TSIZ, tsiz) # (in_ep EP_DATA EP_CTL, v) # map (Pair (fifo_window EP_DATA)) ?words @ ws"
  have "adds ([] @ [(in_ep EP_DATA EP_TSIZ, tsiz)] @ [(in_ep EP_DATA EP_CTL, v)] @ map (Pair (fifo_window EP_DATA)) ?words @ ws) t t'"
    by (rule adds_trans[OF adds_spin[OF idle[unfolded wait_ep_idle_def]] adds_trans[OF adds_write adds_trans[OF v
        adds_trans[OF adds_fifo_put[OF push[unfolded fifo_write_def]] ws(1)]]]])
  moreover have "takeWhile (\<lambda>(b, _). b \<noteq> in_ep EP_DATA EP_TSIZ) (map (Pair (fifo_window EP_DATA)) ?words @ ws) =
      map (Pair (fifo_window EP_DATA)) ?words"
    using ws(3) by (subst takeWhile_append2) (auto simp: data_regs takeWhile_eq_Nil_iff split: prod.splits)
  then have "wire ?ws = chunk # chunks"
    using ws(2) tsiz_len_xfer[OF tsiz] packed_bytes[of chunk] wire_words[of ?words ws]
    by (simp add: data_regs comp_def)
  ultimately show ?case by (intro exI[of _ ?ws]) simp
qed

lemma usb_chunks_concat: "0 < n \<Longrightarrow> concat (usb_chunks n bs) = bs \<and> (\<forall>chunk \<in> set (usb_chunks n bs). chunk \<noteq> [] \<and> length chunk \<le> n)"
proof (induction n bs rule: usb_chunks.induct)
  case (1 n bs)
  have "usb_chunks n [] = []" by (simp add: usb_chunks.simps)
  then show ?case using 1 by (cases "bs = []") (simp_all add: usb_chunks.simps[of n bs])
qed

subsection \<open>What a packet is\<close>

lemma mmio_words:
  "words_read (mmio_port C) n t = (ws, t') \<Longrightarrow> snd t' = snd t @ map (UsbRead (OTG_FS_BASE + FIFO)) ws"
proof (induction n arbitrary: t ws)
  case (Suc n)
  obtain w u where u: "usb_read C (OTG_FS_BASE + FIFO) t = (w, u)" by (rule prod.exhaust)
  obtain vs where vs: "words_read (mmio_port C) n u = (vs, t')" "ws = w # vs"
    using Suc.prems u by (auto simp: mmio_port_def split: prod.splits)
  have "snd u = snd t @ [UsbRead (OTG_FS_BASE + FIFO) w]" using u by (auto simp: usb_read_def split: prod.splits)
  then show ?case using Suc.IH[OF vs(1)] vs(2) by simp
qed (simp add: mmio_port_def)

text \<open>Giving the data endpoint back to the core.\<close>

definition rearms :: "usb_access list \<Rightarrow> bool" where
  "rearms es \<longleftrightarrow> (\<exists>v. es = [UsbWrite (out_ep EP_DATA EP_TSIZ) (bitv 19 OR word_of_nat MAX_PACKET_SIZE),
     UsbRead (out_ep EP_DATA EP_CTL) v, UsbWrite (out_ep EP_DATA EP_CTL) (v OR DIEPCTL_CNAK OR DIEPCTL_EPENA)])"

lemma arm_data_rearms: "\<exists>es. snd (arm_data_out C t) = snd t @ es \<and> rearms es"
  by (auto simp: arm_data_out_def usb_modify_def usb_read_def usb_write_def rearms_def split: prod.splits)

lemma received_packet:
  assumes "cdc_poll C packet c t = (Inr n, packet', c', t')" "0 < n"
  shows "c' = c \<and> n \<le> length packet \<and>
    (\<exists>ints raw ws es. rx_status_of raw = \<lparr>rx_ep = EP_DATA, rx_len = n, rx_kind = PKTSTS_OUT_DATA\<rparr> \<and>
      length ws = fifo_words n \<and> packet' = take n (word_bytes ws) @ drop n packet \<and> rearms es \<and>
      snd t' = snd t @ [UsbRead (otg_global GINTSTS) ints, UsbRead (otg_global GRXSTSP) raw]
        @ map (UsbRead (OTG_FS_BASE + FIFO)) ws @ es)"
proof -
  obtain ints t1 where i: "usb_read C (otg_global GINTSTS) t = (ints, t1)" by (rule prod.exhaust)
  obtain raw t2 where r: "usb_read C (otg_global GRXSTSP) t1 = (raw, t2)" by (rule prod.exhaust)
  have tr: "snd t2 = snd t @ [UsbRead (otg_global GINTSTS) ints, UsbRead (otg_global GRXSTSP) raw]"
    using i r by (auto simp: usb_read_def split: prod.splits)
  let ?s = "rx_status_of raw"
  have received: "cdc_receive C ?s packet c t2 = (Inr n, packet', c', t')"
    using assms i r by (auto simp: cdc_poll_def split: sum.splits prod.splits if_splits)
  have data: "rx_kind ?s = PKTSTS_OUT_DATA \<and> rx_ep ?s = EP_DATA"
    using received assms(2) by (auto simp: cdc_receive_def Let_def split: prod.splits sum.splits if_splits)
  obtain ws t3 where ws: "words_read (mmio_port C) (fifo_words (rx_len ?s)) t2 = (ws, t3)" by (rule prod.exhaust)
  have "rx_len ?s = n \<and> n \<le> length packet \<and> packet' = take n (word_bytes ws) @ drop n packet \<and> c' = c \<and> t' = arm_data_out C t3"
    using received data fifo_read_spec[OF ws, of packet]
    by (auto simp: cdc_receive_def PKTSTS_OUT_DATA_def PKTSTS_SETUP_DATA_def PKTSTS_SETUP_COMPLETE_def EP_DATA_def
        split: if_splits)
  moreover obtain es where "snd (arm_data_out C t3) = snd t3 @ es" "rearms es" using arm_data_rearms by blast
  ultimately show ?thesis using tr mmio_words[OF ws] words_read_length[OF ws] data
    by (intro conjI exI[of _ ints] exI[of _ raw] exI[of _ ws] exI[of _ es]) (auto intro: rx_status.equality)
qed

subsection \<open>Control requests\<close>

lemma spin_fails: "spin_until C a ready e spins t = (Inl e', t') \<Longrightarrow> e' = e"
proof (induction spins arbitrary: t)
  case 0
  then show ?case by (auto simp: spin_until.simps[of C a ready e 0] split: prod.splits if_splits)
next
  case (Suc spins)
  then show ?case by (auto simp: spin_until.simps[of C a ready e "Suc spins"] split: prod.splits if_splits)
qed

lemma fifo_put_fails: "fifo_put P ep ws spins p = (Inl e, p') \<Longrightarrow> e = FifoTimeout"
proof (induction P ep ws spins p rule: fifo_put.induct)
  case (1 P ep ws spins p)
  show ?case
  proof (cases ws)
    case Nil
    then show ?thesis using "1.prems" by (simp add: fifo_put.simps)
  next
    case (Cons w rest)
    obtain free u where u: "op_words_free P ep p = (free, u)" by (rule prod.exhaust)
    show ?thesis using "1.prems" "1.IH"[OF Cons u[symmetric]] Cons u fifo_put.simps[of P ep ws spins p]
      by (cases "free = 0"; cases "spins = 0") auto
  qed
qed

lemma ep0_send_fits:
  assumes "ep0_send C bs t = (res, t')" "length bs \<le> 67"
  shows "res = Inr () \<or> res = Inl EndpointBusy \<or> res = Inl FifoTimeout"
proof -
  have "ep0_xfer_size (length bs) \<noteq> None" using assms(2) by (simp add: ep0_xfer_size_def MAX_PACKET_SIZE_def)
  then show ?thesis using assms(1)
    by (cases res) (auto simp: ep0_send_def usb_then_def wait_ep_idle_def fifo_write_def
        split: option.splits prod.splits sum.splits dest: spin_fails fifo_put_fails)
qed

definition served :: "bytes list" where
  "served = [DEVICE_DESCRIPTOR, CONFIG_DESCRIPTOR, STRING_LANGID, STRING_MANUFACTURER, STRING_PRODUCT, STRING_SERIAL,
     STATUS_ZERO, CONFIG_VALUE_ONE, CONFIG_VALUE_ZERO]"

lemma served_length: "bs \<in> set served \<Longrightarrow> length bs \<le> 67"
  by (auto simp: served_def DEVICE_DESCRIPTOR_def CONFIG_DESCRIPTOR_def STRING_LANGID_def STRING_MANUFACTURER_def
      STRING_PRODUCT_def STRING_SERIAL_def STATUS_ZERO_def CONFIG_VALUE_ONE_def CONFIG_VALUE_ZERO_def string_descriptor_def ascii_def)

lemma clamped_data: "clamped bs len = ReplyData (take (min len (length bs)) bs)"
  by (auto simp: clamped_def min_def)

lemma control_reply_data:
  assumes "control_reply s st = ReplyData bs"
  shows "\<exists>full \<in> set served. bs = take (min (su_length s) (length full)) full"
  using assms
  by (auto simp: control_reply_def Let_def clamped_data usb_descriptor_def served_def split: if_splits option.splits)

lemma control_apply_fits:
  assumes "cdc_apply C (control_reply s st) st t = (res, st', t')" "length (ct_line_coding st) = 7"
  shows "(res = Inr () \<or> res = Inl EndpointBusy \<or> res = Inl FifoTimeout) \<and> ct_line_coding st' = ct_line_coding st"
proof (cases "control_reply s st")
  case (ReplyData bs)
  then obtain full where "full \<in> set served" "bs = take (min (su_length s) (length full)) full"
    using control_reply_data by blast
  then have "length bs \<le> 67" using served_length[of full] by simp
  then show ?thesis using assms(1) ReplyData ep0_send_fits[of C bs t] by (auto simp: cdc_apply_def split: prod.splits)
next
  case (ReplyLineCoding n)
  then show ?thesis using assms ep0_send_fits[of C "take n (ct_line_coding st)" t]
    by (auto simp: cdc_apply_def split: prod.splits if_splits)
qed (use assms(1) ep0_send_fits[of C "[]"] in \<open>auto simp: cdc_apply_def split: prod.splits if_splits\<close>)

lemma control_configures:
  assumes "cdc_apply C (control_reply s st) st t = (res, st', t')" "ct_configured st' \<noteq> ct_configured st"
  shows "su_kind s = KIND_STANDARD \<and> su_recipient s = RECIPIENT_DEVICE \<and> su_request s = 9 \<and>
    su_value s = (if ct_configured st' then 1 else 0)"
proof -
  obtain on where on: "control_reply s st = SetConfiguration on" "ct_configured st' = on"
    using assms by (cases "control_reply s st") (auto simp: cdc_apply_def split: prod.splits if_splits)
  then show ?thesis
    by (auto simp: control_reply_def Let_def clamped_data split: if_splits option.splits)
qed

subsection \<open>What a poll keeps\<close>

lemma fifo_read_length: "fifo_read P len dest p = (res, dest', p') \<Longrightarrow> length dest' = length dest"
proof -
  assume r: "fifo_read P len dest p = (res, dest', p')"
  obtain ws q where ws: "words_read P (fifo_words len) p = (ws, q)" by (rule prod.exhaust)
  have "len \<le> 4 * length ws" using words_read_length[OF ws] fifo_words_cover by simp
  then show ?thesis using r fifo_read_spec[OF ws, of dest] by (auto simp: min_def)
qed

text \<open>A poll resets the state, receives, or leaves it.\<close>

lemma cdc_poll_cases:
  assumes "cdc_poll C packet c t = (res, packet', c', t')"
  obtains (reset) "cd_state c' = control_new" "cd_setup c' = cd_setup c" "packet' = packet"
    | (same) "c' = c" "packet' = packet"
    | (received) status u where "cdc_receive C status packet c u = (res, packet', c', t')"
  using assms unfolding cdc_poll_def by (auto split: prod.splits sum.splits if_splits)

lemma cdc_receive_cases:
  assumes "cdc_receive C status packet c t = (res, packet', c', t')"
  obtains (setup_data) setup_bytes where "c' = c\<lparr>cd_setup := setup_bytes\<rparr>" "length setup_bytes = 8" "packet' = packet"
    | (setup_complete) r u where "cdc_apply C (control_reply (setup_parse (cd_setup c)) (cd_state c)) (cd_state c) t = (r, cd_state c', u)"
        "cd_setup c' = cd_setup c" "packet' = packet"
    | (coding) coding where "c' = c\<lparr>cd_state := (cd_state c)\<lparr>ct_line_coding := coding\<rparr>\<rparr>" "length coding = 7" "packet' = packet"
    | (other) "c' = c" "length packet' = length packet"
proof -
  obtain r8 b8 t8 where f8: "fifo_read (mmio_port C) (rx_len status) (replicate 8 0) t = (r8, b8, t8)" by (rule prod_cases3)
  obtain r7 b7 t7 where f7: "fifo_read (mmio_port C) (rx_len status) (replicate 7 0) t = (r7, b7, t7)" by (rule prod_cases3)
  obtain rp bp tp where fp: "fifo_read (mmio_port C) (rx_len status) packet t = (rp, bp, tp)" by (rule prod_cases3)
  obtain ra sa ta where ap: "cdc_apply C (control_reply (setup_parse (cd_setup c)) (cd_state c)) (cd_state c) t = (ra, sa, ta)"
    by (rule prod_cases3)
  obtain rs ts where snd0: "ep0_send C [] t7 = (rs, ts)" by (rule prod.exhaust)
  have len: "length b8 = 8" "length b7 = 7" "length bp = length packet"
    using fifo_read_length[OF f8] fifo_read_length[OF f7] fifo_read_length[OF fp] by simp_all
  note def = assms[unfolded cdc_receive_def f8 f7 fp ap prod.case snd0]
  consider "rx_kind status = PKTSTS_SETUP_DATA" | "rx_kind status \<noteq> PKTSTS_SETUP_DATA" "rx_kind status = PKTSTS_SETUP_COMPLETE"
    | "rx_kind status \<noteq> PKTSTS_SETUP_DATA" "rx_kind status \<noteq> PKTSTS_SETUP_COMPLETE" "rx_kind status = PKTSTS_OUT_DATA \<and> rx_ep status = 0"
    | "rx_kind status \<noteq> PKTSTS_SETUP_DATA" "rx_kind status \<noteq> PKTSTS_SETUP_COMPLETE" "\<not> (rx_kind status = PKTSTS_OUT_DATA \<and> rx_ep status = 0)"
    by blast
  then show thesis
  proof cases
    case 1
    then show thesis using def len(1) by (cases r8) (auto intro: setup_data other)
  next
    case 2
    then show thesis using def ap by (cases ra) (auto intro: setup_complete)
  next
    case 3
    then show thesis using def len(2) snd0 by (cases r7; cases rs) (auto simp: Let_def split: if_splits intro: coding other)
  next
    case 4
    then show thesis using def len(3) by (cases rp) (auto split: if_splits intro: other)
  qed
qed

lemma poll_keeps:
  assumes "cdc_poll C packet c t = (res, packet', c', t')" "length (ct_line_coding (cd_state c)) = 7" "length (cd_setup c) = 8"
  shows "length (ct_line_coding (cd_state c')) = 7 \<and> length (cd_setup c') = 8 \<and> length packet' = length packet"
  using assms(1)
proof (cases rule: cdc_poll_cases)
  case reset
  then show ?thesis using assms(3) by (simp add: control_new_def DEFAULT_LINE_CODING_def usb_line_coding_def)
next
  case (received status u)
  then show ?thesis
  proof (cases rule: cdc_receive_cases)
    case (setup_complete r v)
    then show ?thesis using control_apply_fits[OF setup_complete(1) assms(2)] assms(2,3) by simp
  qed (use assms(2,3) in simp_all)
qed (use assms in simp)

lemma poll_configures:
  assumes "cdc_poll C packet c t = (res, packet', c', t')" "ct_configured (cd_state c') \<noteq> ct_configured (cd_state c)"
  shows "cd_state c' = control_new \<or>
    su_kind (setup_parse (cd_setup c)) = KIND_STANDARD \<and> su_recipient (setup_parse (cd_setup c)) = RECIPIENT_DEVICE \<and>
    su_request (setup_parse (cd_setup c)) = 9 \<and> su_value (setup_parse (cd_setup c)) = (if ct_configured (cd_state c') then 1 else 0)"
  using assms(1)
proof (cases rule: cdc_poll_cases)
  case (received status u)
  then show ?thesis
  proof (cases rule: cdc_receive_cases)
    case (setup_complete r v)
    then show ?thesis using control_configures[OF setup_complete(1) assms(2)] by simp
  qed (use assms(2) in simp_all)
qed (use assms(2) in simp_all)

subsection \<open>A core that is ready\<close>

text \<open>
  A core that is never in the middle of something: its resets and flushes are done when they are asked
  after, its endpoints are idle, and their FIFOs have room.
\<close>

definition core_ready :: "'h otg \<Rightarrow> bool" where
  "core_ready C \<longleftrightarrow>
     (\<forall>h. fst (og_read C (otg_global GRSTCTL) h) = GRSTCTL_AHBIDL) \<and>
     (\<forall>ep \<in> {0, EP_DATA}. \<forall>h. fst (og_read C (in_ep ep EP_CTL) h) AND DIEPCTL_EPENA = 0 \<and>
        fst (og_read C (in_ep ep EP_TXFSTS) h) AND 0xffff \<noteq> 0)"

lemma fst_usb_read [simp]: "fst (usb_read C a t) = fst (og_read C a (fst t))"
  by (simp add: usb_read_def split: prod.splits)

lemma spin_ready: "\<forall>h. ready (fst (og_read C a h)) \<Longrightarrow> fst (spin_until C a ready e n t) = Inr ()"
  using fst_usb_read[of C a t] by (cases "usb_read C a t") (auto simp: spin_until.simps[of C a ready e n])

lemma usb_then_ready: "fst m = Inr a \<Longrightarrow> usb_then m k = k a (snd m)"
  by (cases m) (simp add: usb_then_def)

lemma wait_idle_ready: "core_ready C \<Longrightarrow> ep \<in> {0, EP_DATA} \<Longrightarrow> fst (wait_ep_idle C (in_ep ep EP_CTL) t) = Inr ()"
  unfolding wait_ep_idle_def by (rule spin_ready) (auto simp: core_ready_def)

lemma wait_bits_ready:
  "core_ready C \<Longrightarrow> (GRSTCTL_AHBIDL AND bits \<noteq> 0) = want \<Longrightarrow> fst (wait_bits C GRSTCTL bits want t) = Inr ()"
  unfolding wait_bits_def by (rule spin_ready) (simp add: core_ready_def)

lemma put_ready:
  assumes "core_ready C" "ep \<in> {0, EP_DATA}"
  shows "fst (fifo_put (mmio_port C) ep ws n t) = Inr ()"
proof (induction ws arbitrary: t)
  case (Cons w ws)
  have mod: "ep mod 16 = ep" using assms(2) by (auto simp: EP_DATA_def)
  obtain raw u where u: "usb_read C (in_ep ep EP_TXFSTS) t = (raw, u)" by (rule prod.exhaust)
  have "raw AND 0xffff \<noteq> 0" using assms fst_usb_read[of C "in_ep ep EP_TXFSTS" t] u by (auto simp: core_ready_def)
  then have "unat (raw AND 0xffff) \<noteq> 0" by (simp only: unat_eq_zero not_False_eq_True)
  moreover have "op_words_free (mmio_port C) ep t = (unat (raw AND 0xffff), u)" using u mod by (simp add: mmio_port_def)
  ultimately have "fifo_put (mmio_port C) ep (w # ws) n t = fifo_put (mmio_port C) ep ws n (op_write_word (mmio_port C) ep w u)"
    by (subst fifo_put.simps) simp
  then show ?case using Cons by simp
qed (simp add: fifo_put.simps)

lemma ep0_send_ready: "core_ready C \<Longrightarrow> length bs \<le> 67 \<Longrightarrow> fst (ep0_send C bs t) = Inr ()"
proof -
  assume ready: "core_ready C" and len: "length bs \<le> 67"
  have "ep0_xfer_size (length bs) \<noteq> None" using len by (simp add: ep0_xfer_size_def MAX_PACKET_SIZE_def)
  then obtain v where "ep0_xfer_size (length bs) = Some v" by auto
  then show ?thesis using ready
    by (simp add: ep0_send_def fifo_write_def usb_then_ready[OF wait_idle_ready] put_ready)
qed

lemma chunk_size: "length chunk \<le> MAX_PACKET_SIZE \<Longrightarrow> \<exists>v. xfer_size (length chunk) MAX_PACKET_SIZE = Some v"
  by (auto simp: xfer_size_def MAX_PACKET_SIZE_def)

lemma chunks_ready:
  "core_ready C \<Longrightarrow> \<forall>chunk \<in> set chunks. length chunk \<le> MAX_PACKET_SIZE \<Longrightarrow> fst (cdc_chunks C chunks t) = Inr ()"
proof (induction chunks arbitrary: t)
  case (Cons chunk chunks)
  obtain v where v: "xfer_size (length chunk) MAX_PACKET_SIZE = Some v" using Cons.prems chunk_size by auto
  show ?case using Cons v by (simp add: fifo_write_def usb_then_ready[OF wait_idle_ready] usb_then_ready[OF put_ready])
qed simp

lemma core_flags:
  "GRSTCTL_AHBIDL \<noteq> 0" "GRSTCTL_AHBIDL AND GRSTCTL_CSRST = 0"
  "GRSTCTL_AHBIDL AND GRSTCTL_TXFFLSH = 0" "GRSTCTL_AHBIDL AND GRSTCTL_RXFFLSH = 0"
  by (simp_all add: GRSTCTL_AHBIDL_def GRSTCTL_CSRST_def GRSTCTL_TXFFLSH_def GRSTCTL_RXFFLSH_def bitv_def)

lemma open_ready: "core_ready C \<Longrightarrow> fst (cdc_open C t) = Inr \<lparr>cd_state = control_new, cd_setup = replicate 8 0\<rparr>"
  by (simp add: cdc_open_def bring_up_def core_reset_def flush_tx_all_def flush_rx_def Let_def core_flags
      usb_then_ready wait_bits_ready)

subsection \<open>Reachable states\<close>

text \<open>What opening the device and polling it can lead to.\<close>

inductive cdc_reached :: "'h otg \<Rightarrow> cdc \<Rightarrow> bool" for C where
  opened: "cdc_open C t = (Inr c, t') \<Longrightarrow> cdc_reached C c"
| polled: "cdc_reached C c \<Longrightarrow> length packet = MAX_PACKET_SIZE \<Longrightarrow> cdc_poll C packet c t = (res, packet', c', t') \<Longrightarrow>
    cdc_reached C c'"

lemma cdc_reached_sizes: "cdc_reached C c \<Longrightarrow> length (ct_line_coding (cd_state c)) = 7 \<and> length (cd_setup c) = 8"
proof (induction rule: cdc_reached.induct)
  case (opened t c t')
  then show ?case
    by (auto simp: cdc_open_def usb_then_def control_new_def DEFAULT_LINE_CODING_def usb_line_coding_def
        split: prod.splits sum.splits)
next
  case (polled c packet t res packet' c' t')
  then show ?case using poll_keeps by blast
qed

subsection \<open>Failures\<close>

lemma chunks_fail:
  "cdc_chunks C chunks t = (Inl e, t') \<Longrightarrow> \<forall>chunk \<in> set chunks. length chunk \<le> MAX_PACKET_SIZE \<Longrightarrow>
   e = EndpointBusy \<or> e = FifoTimeout"
proof (induction chunks arbitrary: t)
  case (Cons chunk chunks)
  obtain v where v: "xfer_size (length chunk) MAX_PACKET_SIZE = Some v" using Cons.prems chunk_size by auto
  show ?case using Cons.prems v Cons.IH
    by (auto simp: usb_then_def wait_ep_idle_def fifo_write_def split: prod.splits sum.splits
        dest: spin_fails fifo_put_fails)
qed simp

lemma reset_fails: "on_reset C t = (Inl e, t') \<Longrightarrow> e = CoreResetTimeout"
  by (auto simp: on_reset_def flush_tx_all_def flush_rx_def wait_bits_def usb_then_def split: prod.splits sum.splits
      dest: spin_fails)

lemma empty_reply_fails: "ep0_send C [] t = (Inl e, t') \<Longrightarrow> e \<noteq> OversizePacket n"
  using ep0_send_fits[of C "[]" t "Inl e" t'] by auto

lemma oversize_read:
  assumes "cdc_receive C status packet c t = (Inl (OversizePacket n), packet', c', t')"
    "words_read (mmio_port C) (fifo_words (rx_len status)) t = (ws, u)"
    "fst (cdc_apply C (control_reply (setup_parse (cd_setup c)) (cd_state c)) (cd_state c) t) \<noteq> Inl (OversizePacket n)"
  shows "rx_len status = n \<and> c' = c \<and> t' = u"
proof -
  obtain ra sa ta where ap: "cdc_apply C (control_reply (setup_parse (cd_setup c)) (cd_state c)) (cd_state c) t = (ra, sa, ta)"
    by (rule prod_cases3)
  obtain rs ts where send: "ep0_send C [] u = (rs, ts)" by (rule prod.exhaust)
  have quiet: "rs \<noteq> Inl (OversizePacket n)" using send empty_reply_fails by blast
  note def = assms(1)[unfolded cdc_receive_def fifo_read_spec[OF assms(2)] ap prod.case]
  consider "rx_kind status = PKTSTS_SETUP_DATA" | "rx_kind status \<noteq> PKTSTS_SETUP_DATA" "rx_kind status = PKTSTS_SETUP_COMPLETE"
    | "rx_kind status \<noteq> PKTSTS_SETUP_DATA" "rx_kind status \<noteq> PKTSTS_SETUP_COMPLETE" "rx_kind status = PKTSTS_OUT_DATA \<and> rx_ep status = 0"
    | "rx_kind status \<noteq> PKTSTS_SETUP_DATA" "rx_kind status \<noteq> PKTSTS_SETUP_COMPLETE" "\<not> (rx_kind status = PKTSTS_OUT_DATA \<and> rx_ep status = 0)"
    by blast
  then show ?thesis
  proof cases
    case 2
    then show ?thesis using def ap assms(3) by (cases ra) auto
  next
    case 3
    then show ?thesis using def quiet send by (cases rs) (auto simp: Let_def split: if_splits)
  qed (use def in \<open>auto split: if_splits\<close>)
qed

text \<open>A packet too long for its buffer is drained all the same, and nothing else happens.\<close>

lemma oversize_drains:
  assumes "cdc_poll C packet c t = (Inl (OversizePacket n), packet', c', t')" "length (ct_line_coding (cd_state c)) = 7"
  shows "c' = c \<and> (\<exists>ints raw ws. rx_len (rx_status_of raw) = n \<and> length ws = fifo_words n \<and>
      snd t' = snd t @ [UsbRead (otg_global GINTSTS) ints, UsbRead (otg_global GRXSTSP) raw] @ map (UsbRead (OTG_FS_BASE + FIFO)) ws)"
proof -
  obtain ints t1 where i: "usb_read C (otg_global GINTSTS) t = (ints, t1)" by (rule prod.exhaust)
  obtain raw t2 where r: "usb_read C (otg_global GRXSTSP) t1 = (raw, t2)" by (rule prod.exhaust)
  have tr: "snd t2 = snd t @ [UsbRead (otg_global GINTSTS) ints, UsbRead (otg_global GRXSTSP) raw]"
    using i r by (auto simp: usb_read_def split: prod.splits)
  let ?s = "rx_status_of raw"
  have received: "cdc_receive C ?s packet c t2 = (Inl (OversizePacket n), packet', c', t')"
    using assms(1) i r by (auto simp: cdc_poll_def split: sum.splits prod.splits if_splits dest: reset_fails)
  obtain ws t3 where ws: "words_read (mmio_port C) (fifo_words (rx_len ?s)) t2 = (ws, t3)" by (rule prod.exhaust)
  have applied: "fst (cdc_apply C (control_reply (setup_parse (cd_setup c)) (cd_state c)) (cd_state c) t2) \<noteq> Inl (OversizePacket n)"
    using control_apply_fits[OF _ assms(2)] by (metis prod.collapse sum.distinct(1) sum.inject(1) usb_error.distinct)
  from oversize_read[OF received ws applied] have "rx_len ?s = n \<and> c' = c \<and> t' = t3" .
  then show ?thesis using tr mmio_words[OF ws] words_read_length[OF ws]
    by (intro conjI exI[of _ ints] exI[of _ raw] exI[of _ ws]) auto
qed

subsection \<open>Data on the control endpoint\<close>

lemma adds_words_read: "words_read (mmio_port C) n t = (ws, t') \<Longrightarrow> adds [] t t'"
proof -
  have "usb_writes (map (UsbRead a) vs) = []" for a vs by (induction vs) simp_all
  then show "words_read (mmio_port C) n t = (ws, t') \<Longrightarrow> adds [] t t'" using mmio_words[of C n t ws t'] by (auto simp: adds_def)
qed

lemma adds_enable: "\<exists>v. adds [(a, v OR DIEPCTL_CNAK OR DIEPCTL_EPENA)] t (usb_modify C a (\<lambda>v. v OR DIEPCTL_CNAK OR DIEPCTL_EPENA) t)"
proof -
  obtain v u where u: "usb_read C a t = (v, u)" by (rule prod.exhaust)
  show ?thesis using adds_trans[OF adds_read[OF u] adds_write[of a "v OR DIEPCTL_CNAK OR DIEPCTL_EPENA" u C]] u
    by (auto simp: usb_modify_def)
qed

text \<open>An empty transfer on the control endpoint.\<close>

definition empty_transfer :: "u32 \<Rightarrow> (nat \<times> u32) list" where
  "empty_transfer v = [(in_ep 0 EP_TSIZ, bitv 19), (in_ep 0 EP_CTL, v OR DIEPCTL_CNAK OR DIEPCTL_EPENA)]"

definition control_rearmed :: "u32 \<Rightarrow> (nat \<times> u32) list" where
  "control_rearmed v = [(out_ep 0 EP_TSIZ, DOEPTSIZ_STUPCNT_3 OR bitv 19 OR 24), (out_ep 0 EP_CTL, v OR DIEPCTL_CNAK OR DIEPCTL_EPENA)]"

lemma adds_arm: "\<exists>v. adds (control_rearmed v) t (arm_ep0_out C t)"
proof -
  let ?w = "usb_write C (out_ep 0 EP_TSIZ) (DOEPTSIZ_STUPCNT_3 OR bitv 19 OR 24) t"
  obtain v where "adds [(out_ep 0 EP_CTL, v OR DIEPCTL_CNAK OR DIEPCTL_EPENA)] ?w
      (usb_modify C (out_ep 0 EP_CTL) (\<lambda>v. v OR DIEPCTL_CNAK OR DIEPCTL_EPENA) ?w)" using adds_enable by blast
  from adds_trans[OF adds_write this] show ?thesis by (auto simp: arm_ep0_out_def control_rearmed_def)
qed

lemma empty_reply: "core_ready C \<Longrightarrow> \<exists>v t'. ep0_send C [] t = (Inr (), t') \<and> adds (empty_transfer v) t t'"
proof -
  assume ready: "core_ready C"
  obtain u where u: "wait_ep_idle C (in_ep 0 EP_CTL) t = (Inr (), u)"
    using wait_idle_ready[OF ready, of 0 t] by (cases "wait_ep_idle C (in_ep 0 EP_CTL) t") auto
  have size: "ep0_xfer_size 0 = Some (bitv 19)" by (simp add: ep0_xfer_size_def bitv_def push_bit_eq_mult)
  have reg: "otg_global (IN_EP + EP_TSIZ) = in_ep 0 EP_TSIZ" by (simp add: otg_global_def in_ep_def)
  let ?w = "usb_write C (in_ep 0 EP_TSIZ) (bitv 19) u"
  let ?m = "usb_modify C (in_ep 0 EP_CTL) (\<lambda>v. v OR DIEPCTL_CNAK OR DIEPCTL_EPENA) ?w"
  have "ep0_send C [] t = (Inr (), ?m)"
    by (simp add: ep0_send_def size reg u usb_then_def fifo_write_def fifo_words_def fifo_put.simps)
  moreover obtain v where "adds [(in_ep 0 EP_CTL, v OR DIEPCTL_CNAK OR DIEPCTL_EPENA)] ?w ?m" using adds_enable by blast
  then have "adds ([] @ [(in_ep 0 EP_TSIZ, bitv 19)] @ [(in_ep 0 EP_CTL, v OR DIEPCTL_CNAK OR DIEPCTL_EPENA)]) t ?m"
    by (intro adds_trans[OF adds_spin[OF u[unfolded wait_ep_idle_def]] adds_trans[OF adds_write]])
  ultimately show ?thesis by (auto simp: empty_transfer_def)
qed

lemma control_data_answered:
  assumes "core_ready C" "rx_kind status = PKTSTS_OUT_DATA" "rx_ep status = 0" "rx_len status \<le> 7"
    "words_read (mmio_port C) (fifo_words (rx_len status)) t = (ws, u)"
  shows "\<exists>v v' t'. cdc_receive C status packet c t =
      (Inr 0, packet, (if rx_len status = 7 then c\<lparr>cd_state := (cd_state c)\<lparr>ct_line_coding := take 7 (word_bytes ws)\<rparr>\<rparr> else c), t') \<and>
    adds (empty_transfer v @ control_rearmed v') t t'"
proof -
  obtain v t1 where sent: "ep0_send C [] u = (Inr (), t1)" "adds (empty_transfer v) u t1" using empty_reply[OF assms(1)] by blast
  obtain v' where armed: "adds (control_rearmed v') t1 (arm_ep0_out C t1)" using adds_arm by blast
  have "adds ([] @ empty_transfer v @ control_rearmed v') t (arm_ep0_out C t1)"
    by (rule adds_trans[OF adds_words_read[OF assms(5)] adds_trans[OF sent(2) armed]])
  moreover have "cdc_receive C status packet c t =
      (Inr 0, packet, (if rx_len status = 7 then c\<lparr>cd_state := (cd_state c)\<lparr>ct_line_coding := take 7 (word_bytes ws)\<rparr>\<rparr> else c), arm_ep0_out C t1)"
    using assms(2-4) sent(1) fifo_read_spec[OF assms(5), of "replicate 7 0"]
    by (simp add: cdc_receive_def PKTSTS_OUT_DATA_def PKTSTS_SETUP_DATA_def PKTSTS_SETUP_COMPLETE_def Let_def)
  ultimately show ?thesis by auto
qed

end
