(* ===== verification/Spec2Isabelle.thy ===== *)
theory Spec2Isabelle
  imports Samples Comms Singleton KeypadMatrix RngCorrect PanicCorrect UpgradeCorrect WordEntryCorrect QuizCorrect PagesCorrect MainLoopSample UsbCorrect
begin

text \<open>
  A verification library for \<open>cold-snap\<close>: firmware that makes a Coldcard into a signing device of a
  threshold wallet. The device keeps an identity, a share of the wallet key and streams of signing
  nonces on its internal flash, talks to a coordinator over one serial link, asks its owner on a
  display of 128 by 64 pixels with a keypad, and hands a new firmware image to the bootloader.

  How the parts interact. The flash driver offers the \<open>NorFlash\<close> interface; partitions cut the
  file region into runs of sectors; an A/B slot keeps one value in two copies of a partition. Three
  stores are built on the slots: the identity is a record of its own, the share store seals the
  mutations of a finished key generation, the nonce slots hold the ratchet of each stream. The
  signer stages mutations and hands out nonces; the coordinator link carries its messages. Backup
  words, the word entry and the quiz take a share to paper and back. The glass is what the owner can
  check. Below all of it are the random generator, the keypad, the gate into the bootloader and the
  handler that resets a device that has failed.

  \<^item> \<open>Prelude\<close>: words, results, byte strings, windows and patches, shared lemmas.
  \<^item> \<open>Flash\<close>, \<open>StmFlash\<close>, \<open>StmCorrect\<close>: \<open>hal/src/flash.rs\<close> and the region constants of
    \<open>hal/src/lib.rs\<close>. The driver runs over an arbitrary hardware and its register writes and stores
    are a trace; the lemmas say which doublewords it stores and which pages it erases, and that it
    locks the controller again.
  \<^item> \<open>NorFlash\<close>: the storage interface as a record of operations with the contract
    \<open>nor_flash\<close> (a locale), and \<open>FakeFlash\<close> with its schedule of faults, which interprets it.
  \<^item> \<open>Partition\<close>, \<open>AbSlot\<close>, \<open>AbCorrect\<close>, \<open>AbFake\<close>:
    \<open>frostsnap_embedded/src/partition.rs\<close> and \<open>ab_write.rs\<close>. What a slot promises is proved from
    the contract; \<open>AbFake\<close> follows the programs of the double one by one, torn ones included.
  \<^item> \<open>Identity\<close>, \<open>Utf8\<close>, \<open>Signer\<close>, \<open>Store\<close>: \<open>hal/src/identity.rs\<close>,
    the key and restoration mutations of \<open>frostsnap_core/src/device.rs\<close>, and
    \<open>firmware/src/store.rs\<close>; record round trips, torn records, what survives a restart.
  \<^item> \<open>Nonces\<close>, \<open>NonceCorrect\<close>, \<open>NonceSlots\<close>, \<open>NoncePool\<close>:
    \<open>frostsnap_core/src/device_nonces.rs\<close> and \<open>frostsnap_embedded/src/nonce_slots.rs\<close>; a nonce is
    signed with at most once, on memory slots and on flash slots, which interpret one contract.
  \<^item> \<open>Comms\<close>, \<open>Singleton\<close>: \<open>hal/src/comms.rs\<close> and \<open>hal/src/singleton.rs\<close>; frames
    arrive however the bytes are cut, a token is taken once under every interleaving.
  \<^item> \<open>Keypad\<close>, \<open>KeypadCorrect\<close>, \<open>KeypadMatrix\<close>, \<open>Rng\<close>, \<open>RngCorrect\<close>,
    \<open>Callgate\<close>, \<open>Panic\<close>, \<open>PanicCorrect\<close>: the other drivers of \<open>hal/src\<close>.
  \<^item> \<open>Psram\<close>, \<open>PsramCorrect\<close>, \<open>Upgrade\<close>, \<open>UpgradeCorrect\<close>:
    \<open>hal/src/psram.rs\<close> and \<open>firmware/src/upgrade.rs\<close>; the staging machine refines a collector
    that keeps what arrives and judges it whole.
  \<^item> \<open>Mnemonic\<close>, \<open>MnemonicCorrect\<close>, \<open>WordList\<close>, \<open>WordEntry\<close>,
    \<open>WordEntryCorrect\<close>, \<open>Quiz\<close>, \<open>QuizCorrect\<close>: \<open>frost_backup/src\<close>,
    \<open>firmware/src/wordentry.rs\<close> and \<open>quiz.rs\<close>. The locale \<open>wordlist\<close> states what the
    machines need of the list; the 2,048 words of the source interpret it.
  \<^item> \<open>Screen\<close>, \<open>ScreenCorrect\<close>, \<open>Pages\<close>, \<open>PagesCorrect\<close>:
    \<open>hal/src/ui.rs\<close>. The frame is its 1,024 bytes and the font its table; what a page shows is what
    reads back from the cells of the frame.
  \<^item> \<open>Names\<close>, \<open>Outbox\<close>, \<open>Consent\<close>, \<open>Session\<close>, \<open>SessionCorrect\<close>,
    \<open>SessionLive\<close>: \<open>firmware/src/lib.rs\<close>, with the messages of \<open>frostsnap_comms\<close> and
    \<open>frostsnap_core\<close> it dispatches on. A session is built over a record of what it calls; the
    signer is a field of it and may do anything to its own state and the flash. Histories are sequences of the session's
    operations with what each achieved; reachable worlds are an inductive relation.
  \<^item> \<open>Ceremony\<close>, \<open>MainLoop\<close>, \<open>MainLoopCorrect\<close>, \<open>MainLoopSample\<close>:
    the remaining screens of \<open>hal/src/ui.rs\<close> and the loop of \<open>firmware/src/main.rs\<close>. One turn takes
    a packet, hands its frames to the session, draws, reads the pad once and sends; the panel is the
    list of all frames it was given, so a lemma can say what was on it.
  \<^item> \<open>Usb\<close>, \<open>UsbCorrect\<close>: \<open>hal/src/usb.rs\<close>. The serial device runs over an arbitrary core, a
    record of two functions on its state, and keeps the trace of its accesses; the lemmas read off the trace
    what goes on the wire and what a packet is. States reachable by opening and polling are an inductive predicate.
  \<^item> \<open>Samples\<close>: concrete inputs. This theory holds the properties that span components, each
    followed or preceded by the witness that applies it at such an input.

  How the code is rendered. A struct is a record, an enum a datatype, a fallible call a sum with the
  error on the left, an array or vector a list; a slice is \<open>window\<close> and an assignment to one
  \<open>patch\<close>. Machine integers are words where their width matters and natural numbers where a bound
  is proved or the source checks. A \<open>RefCell\<close> or a mutable borrow is a state passed in and returned.
  A random source is a function that gives a word and the next state of the source. Strings are
  UTF-8 bytes where the code counts bytes, and code points on the display.

  Parameters. Code outside the repository is an argument: SHA-256 and ChaCha20, the encoder and
  decoder of \<open>bincode\<close>, the curve arithmetic behind a nonce or a share, the bootloader behind the
  gate, the registers of the chip. What a property needs of one is a named hypothesis (a hash has 32
  bytes, a prefix decodes to what was encoded, a busy flag clears within the polls allowed) and its
  witness runs it with a concrete function.

  Loops and fuel. Most loops are structural recursions over the data or have a measure. A poll of a
  hardware flag carries the bound the source has (\<open>hal/src/flash.rs\<close>, \<open>rng.rs\<close>); the
  quiz redraws at most thirty-two times, as the source does, and the lemmas of \<open>QuizCorrect\<close> show
  that a draw over a list that is not constant succeeds within them; the coordinator link drains a
  buffer by its length. Reset and boot loops are bounded by the number of boots in the statement.

  What the properties say. The numbered blocks below, in the order of importance of the manifest:
  nonces are not reused and a released signature share is on record first; a saved share and the
  identity survive restarts, and how each torn write is seen; the driver's stores and erases; the
  link; tokens, the pad, entropy, the gate and the reset budget; staging of an image; backup words,
  their entry and the quiz; what the display shows before consent; the session that composes them, where consent is to the page that
  was drawn, nothing is sent before it is stored, backups are reported only after their pages or words; and the loop around it,
  where only the printed digit consents and what waits for a key was drawn; what the
  USB device sends, receives and answers. Five properties
  prove defects: an acknowledged share can be lost by a fault in the second copy, a torn write can
  be read, an unreadable nonce slot hides a stream behind it, the digit of a waiting prompt stays
  live under a refusal drawn over it, and data on the control endpoint is answered unasked.

  Not modelled.
  \<^item> \<open>frostsnap_embedded/src/nor_flash_log.rs\<close>: the program asserts that it cannot be used on this
    chip and ships no caller.
  \<^item> The handlers of \<open>frostsnap_core/src/device.rs\<close> for key generation and signing sessions: they
    are calls into \<open>schnorr_fun\<close> and \<open>secp256kfun\<close>, which the repository does not contain.
  \<^item> \<open>hal/src/heap.rs\<close> and the panel bus of \<open>display.rs\<close>: a bump of an allocator's bounds and sequences
    of register writes, with no behaviour to specify beyond themselves. Barriers, settling delays and
    the interrupt mask around the clock writes of \<open>usb.rs\<close> have no effect in the model.
  \<^item> The start-up in \<open>firmware/src/main.rs\<close> before its loop and in \<open>entry.rs\<close>: clocks, holds
    and register writes around the modelled calls. Delays have no effect in the model, and an error of
    the panel or of USB is ignored as the code ignores it.
  \<^item> Host tools, examples, measurements and tests.
\<close>

section \<open>Storage\<close>

text \<open>
  \<open>AbSlot::try_write\<close> that reports \<open>Committed\<close> is durable: over any NOR flash that honours
  its contract, for any value that fits the slot, the next read returns exactly that value.
\<close>
theorem committed_write_reads_back:
  assumes "ab_store F mem C valid" "ab_ok (length (mem s)) ab" "fits C ab v" "valid v"
    and "ab_try_write F C ab v s = (Committed, s')"
  shows "ab_read F C ab s' = Some v"
  using ab_store.committed_reads[OF assms] by blast

theorem committed_write_reads_back_witness:
  "\<exists>s'. ab_try_write fake_ops (array_codec 512) sample_pair (replicate 512 7) blank_flash = (Committed, s') \<and>
     ab_read fake_ops (array_codec 512) sample_pair s' = Some (replicate 512 7)"
proof -
  obtain s' where w: "ab_try_write fake_ops (array_codec 512) sample_pair (replicate 512 7) blank_flash = (Committed, s')"
    using sample_first_write[of "replicate 512 7"] by auto
  show ?thesis
    using committed_write_reads_back[OF fake_ab.ab_store_axioms _ _ _ w] w sample_pair_ok
    by (simp add: fits_def)
qed

text \<open>
  The generation index of a pair never goes back, whatever faults a write meets, and a
  write reported as committed moves it strictly forward.
\<close>
theorem generation_never_rewinds:
  assumes "ab_store F mem C valid" "ab_ok (length (mem s)) ab" "fits C ab v"
    and "ab_try_write F C ab v s = (out, s')" "current_slot_and_index F ab s = Some (k, i)"
  shows "\<exists>k' i'. current_slot_and_index F ab s' = Some (k', i') \<and> i \<le> i' \<and> (is_committed out \<longrightarrow> i < i')"
  by (rule ab_store.index_never_rewinds[OF assms])

theorem generation_never_rewinds_witness:
  "\<exists>s e s' k' i'. current_slot_and_index fake_ops sample_pair s = Some (0, 0) \<and>
     ab_try_write fake_ops (array_codec 512) sample_pair (replicate 512 9) s = (CommittedSingleCopy e, s') \<and>
     current_slot_and_index fake_ops sample_pair s' = Some (k', i') \<and> 0 < i'"
proof -
  obtain s s' where s: "length (cells s) = 524288" "current_slot_and_index fake_ops sample_pair s = Some (0, 0)"
    "ab_try_write fake_ops (array_codec 512) sample_pair (replicate 512 9) s = (CommittedSingleCopy KOther, s')"
    using sample_torn_second[of "replicate 512 7" "replicate 512 9"] by auto
  have "\<exists>k' i'. current_slot_and_index fake_ops sample_pair s' = Some (k', i') \<and> 0 \<le> i' \<and>
      (is_committed (CommittedSingleCopy KOther) \<longrightarrow> 0 < i')"
    by (rule generation_never_rewinds[OF fake_ab.ab_store_axioms _ _ s(3,2)])
      (simp_all add: s(1) sample_pair_ok fits_def)
  then show ?thesis using s by auto
qed

text \<open>
  A value that fits the writer's one 256-byte buffer is written atomically on a chip that
  refuses a failed program without touching it: after \<open>NotCommitted\<close> the old value is read,
  after \<open>Committed\<close> or \<open>CommittedSingleCopy\<close> the new one.
\<close>
theorem one_buffer_write_is_atomic:
  assumes "ab_store_atomic F mem C valid" "ab_ok (length (mem s)) ab"
    and "4 + length (enc C v) < 256" "valid v" "ab_try_write F C ab v s = (out, s')"
  shows "ab_read F C ab s' = (if is_committed out then Some v else ab_read F C ab s)"
  by (rule ab_store_atomic.one_buffer_atomic[OF assms])

theorem one_buffer_write_is_atomic_witness:
  "\<exists>s e s'. ab_read fake_ops (array_codec 100) sample_pair s = Some (replicate 100 7) \<and>
     ab_try_write fake_ops (array_codec 100) sample_pair (replicate 100 9) s = (NotCommitted e, s') \<and>
     ab_read fake_ops (array_codec 100) sample_pair s' = Some (replicate 100 7)"
proof -
  obtain s e s' where s: "length (cells s) = 524288"
    "ab_read fake_ops (array_codec 100) sample_pair s = Some (replicate 100 7)"
    "ab_try_write fake_ops (array_codec 100) sample_pair (replicate 100 9) s = (NotCommitted e, s')"
    using sample_refused_100 by blast
  show ?thesis
    using one_buffer_write_is_atomic[OF fake_ab.ab_store_atomic_axioms _ _ _ s(3)] s sample_pair_ok by auto
qed

text \<open>
  C11. A value longer than one buffer can be lost by a write that reports \<open>NotCommitted\<close>: when the
  33rd program of the first copy is refused, that copy already carries the next generation over
  252 bytes of the new value, and it is what every later read returns; the intact copy of the
  old value is not. (\<open>AbWriteOutcome::NotCommitted\<close> documents the previous value as still readable.)
\<close>
theorem torn_write_is_read:
  assumes "ab_ok (length (cells s)) ab" "fs_part (slot_b ab)" "refuse_erases_from s = None"
    and "current_slot_and_index fake_ops ab s = Some (0, i)" "Suc i < u32_max" "length v = 512"
    and "refuse_programs_from s = Some (programs s + 32)" "programs s + 65 \<le> u32_max"
  shows "\<exists>s'. ab_try_write fake_ops (array_codec 512) ab v s = (NotCommitted KOther, s') \<and>
    ab_read fake_ops (array_codec 512) ab s' = Some (take 252 v @ replicate 260 ff)"
  using torn_first_copy[OF assms] by (simp add: torn_512_def)

theorem torn_write_is_read_witness:
  "\<exists>s s'. ab_read fake_ops (array_codec 512) sample_pair s = Some (replicate 512 7) \<and>
     ab_try_write fake_ops (array_codec 512) sample_pair (replicate 512 9) s = (NotCommitted KOther, s') \<and>
     ab_read fake_ops (array_codec 512) sample_pair s' = Some (replicate 252 9 @ replicate 260 ff)"
proof -
  obtain s where s: "length (cells s) = 524288" "refuse_erases_from s = None"
    "programs s \<le> 16384" "ab_read fake_ops (array_codec 512) sample_pair s = Some (replicate 512 7)"
    "current_slot_and_index fake_ops sample_pair s = Some (0, 0)"
    using sample_first_write[of "replicate 512 7"] by auto
  let ?s = "refuse_programs_after (programs s + 32) s"
  have "cells ?s = cells s" by simp
  note refused = reads_cells[OF this]
  have "\<exists>s'. ab_try_write fake_ops (array_codec 512) sample_pair (replicate 512 9) ?s = (NotCommitted KOther, s') \<and>
      ab_read fake_ops (array_codec 512) sample_pair s' = Some (take 252 (replicate 512 9) @ replicate 260 ff)"
    by (rule torn_write_is_read[where i = 0]) (use s in \<open>simp_all add: refused sample_pair_ok u32_max_def\<close>)
  then show ?thesis by (rule_tac x = ?s in exI) (use s(4) in \<open>auto simp: refused\<close>)
qed

section \<open>The share store\<close>

text \<open>
  C3. A saved share survives a restart: on a healthy chip, whatever restoration mutations are
  queued around the three of a finished key generation, the save succeeds and drains the
  queue, and a later boot that loads the record and replays its mutations into a fresh signer
  holds exactly the encrypted share that was saved.
\<close>
theorem saved_share_survives_restart:
  assumes "store_open = Some ab" "FLASH_FS_LEN \<le> length (cells s)" "length (cells s) \<le> u32_max"
    and "refuse_programs_from s = None" "refuse_erases_from s = None" "programs s + 16384 \<le> u32_max"
    and "next_slot_and_index (current_slot_and_index fake_ops ab s) = Some kj"
    and "hash_ok H" "keygen_ok ph" "decodes cenc cdec (coded_of (body_of ph))"
    and "length (cenc (coded_of (body_of ph))) \<le> 367"
    and "filter (\<lambda>m. \<not> is_restoration m) staged = keygen_triple ph"
  shows "\<exists>s' b. persist_staged fake_ops H cenc ab staged s = (Inr (), [], s') \<and>
    store_load fake_ops H cdec ab s' = SShare b \<and>
    get_encrypted_share (k4_access_structure_ref ph) (si_index (es_share_image (k4_encrypted_secret_share ph)))
      (replay img_of (reload_mutations b) signer_new) = Some (k4_encrypted_secret_share ph)"
proof -
  obtain s' where "persist_staged fake_ops H cenc ab (keygen_triple ph) s = (Inr (), [], s')"
    "store_load fake_ops H cdec ab s' = SShare (body_of ph)"
    using store_healthy[OF assms(1-11)] by blast
  then show ?thesis
    using persist_ignores_restoration[of fake_ops H cenc ab staged s] assms(12)
      holds_share_get[OF reload_holds[OF assms(9), of img_of signer_new]] by auto
qed

theorem saved_share_survives_restart_witness:
  "\<exists>ab s' b. persist_staged fake_ops sample_hash sample_cenc ab
      (Restoration (UnSave \<lparr>si_index = 1, si_image = []\<rparr>) # keygen_triple sample_keygen) blank_flash = (Inr (), [], s') \<and>
    store_load fake_ops sample_hash sample_cdec ab s' = SShare b \<and>
    get_encrypted_share (k4_access_structure_ref sample_keygen) 1
      (replay (\<lambda>x. \<lparr>si_index = sb_index x, si_image = []\<rparr>) (reload_mutations b) signer_new) = Some sample_share"
proof -
  obtain ab where ab: "store_open = Some ab" "ab_ok 524288 ab" using sample_store by blast
  have "\<exists>s' b. persist_staged fake_ops sample_hash sample_cenc ab
      (Restoration (UnSave \<lparr>si_index = 1, si_image = []\<rparr>) # keygen_triple sample_keygen) blank_flash = (Inr (), [], s') \<and>
    store_load fake_ops sample_hash sample_cdec ab s' = SShare b \<and>
    get_encrypted_share (k4_access_structure_ref sample_keygen)
      (si_index (es_share_image (k4_encrypted_secret_share sample_keygen)))
      (replay (\<lambda>x. \<lparr>si_index = sb_index x, si_image = []\<rparr>) (reload_mutations b) signer_new) =
      Some (k4_encrypted_secret_share sample_keygen)"
    by (rule saved_share_survives_restart[OF ab(1) _ _ _ _ _ _ sample_hash_ok sample_keygen_ok sample_decodes])
      (simp_all add: FLASH_FS_LEN_def u32_max_def blank_current[OF ab(2)] next_slot_and_index_def sample_cenc_def)
  then show ?thesis by (auto simp: sample_keygen_def sample_share_def)
qed

text \<open>
  C10. A later save interrupted in its second copy is acknowledged and lost: from program 98 of
  the write on the chip refuses, \<open>persist_staged\<close> reports success and empties the queue, and no
  load ever again returns a share, the one saved before included.
\<close>
theorem acknowledged_share_can_be_lost:
  assumes "store_open = Some ab" "FLASH_FS_LEN \<le> length (cells s)" "length (cells s) \<le> u32_max"
    and "refuse_erases_from s = None" "refuse_programs_from s = Some (programs s + 97)"
    and "programs s + 130 \<le> u32_max"
    and "current_slot_and_index fake_ops ab s = Some (0, i)" "Suc i < u32_max"
    and "hash_ok H" "keygen_ok ph" "seal H cenc (body_of ph) = Inr rc"
    and "tag_of H (take 252 rc @ replicate 252 ff) \<noteq> replicate 8 ff"
  shows "\<exists>s'. persist_staged fake_ops H cenc ab (keygen_triple ph) s = (Inr (), [], s') \<and>
    (\<forall>b. store_load fake_ops H cdec ab s' \<noteq> SShare b)"
  by (rule store_torn_acknowledged[OF assms])

theorem acknowledged_share_can_be_lost_witness:
  "\<exists>ab s s'. persist_staged fake_ops sample_hash sample_cenc ab (keygen_triple sample_keygen) s = (Inr (), [], s') \<and>
    store_load fake_ops sample_hash sample_cdec ab s = SShare (body_of sample_keygen) \<and>
    (\<forall>b. store_load fake_ops sample_hash sample_cdec ab s' \<noteq> SShare b)"
proof -
  obtain ab where ab: "store_open = Some ab" "ab_ok 524288 ab" "fs_part (slot_a ab)" "fs_part (slot_b ab)"
    "part_size (slot_a ab) = 8192" "part_size (slot_b ab) = 8192" using sample_store by blast
  obtain rc where rc: "seal sample_hash sample_cenc (body_of sample_keygen) = Inr rc" "length rc = 512"
    using sample_seal by blast
  obtain s where s: "length (cells s) = 524288" "refuse_erases_from s = None" "programs s \<le> 16384"
    "ab_read fake_ops (array_codec 512) ab s = Some rc" "current_slot_and_index fake_ops ab s = Some (0, 0)"
    using blank_first_write[OF ab(2-4) rc(2)] ab(5,6) by (auto simp: u32_max_def)
  let ?s = "refuse_programs_after (programs s + 97) s"
  have "cells ?s = cells s" by simp
  note refused = reads_cells[OF this]
  have "\<exists>s'. persist_staged fake_ops sample_hash sample_cenc ab (keygen_triple sample_keygen) ?s = (Inr (), [], s') \<and>
      (\<forall>b. store_load fake_ops sample_hash sample_cdec ab s' \<noteq> SShare b)"
    by (rule acknowledged_share_can_be_lost[OF ab(1) _ _ _ _ _ _ _ sample_hash_ok sample_keygen_ok rc(1), where i = 0])
      (use s in \<open>simp_all add: refused FLASH_FS_LEN_def u32_max_def sample_tag\<close>)
  moreover have "store_load fake_ops sample_hash sample_cdec ab ?s = SShare (body_of sample_keygen)"
    using store_load_unseal[of fake_ops ab ?s rc] s(4)
      unseal_seal[OF sample_hash_ok body_of_ok[OF sample_keygen_ok] sample_decodes rc(1)] by (simp add: refused)
  ultimately show ?thesis by blast
qed

text \<open>
  \<open>seal\<close> and \<open>unseal\<close> are inverse: a sealed record reads back as the very share body it was
  made from, every field included.
\<close>
theorem sealed_record_round_trips:
  assumes "hash_ok H" "body_ok b" "decodes cenc cdec (coded_of b)" "seal H cenc b = Inr rc"
  shows "unseal H cdec rc = SShare b"
  by (rule unseal_seal[OF assms])

theorem sealed_record_round_trips_witness:
  "\<exists>rc. seal sample_hash sample_cenc (body_of sample_keygen) = Inr rc \<and>
     unseal sample_hash sample_cdec rc = SShare (body_of sample_keygen)"
  using sample_seal sealed_record_round_trips[OF sample_hash_ok body_of_ok[OF sample_keygen_ok] sample_decodes] by metis

text \<open>
  A record torn anywhere before its checksum is never read as a share: the prefix of a
  record that reached an erased page reads as vacant or damaged, unless the hash of the torn
  front happens to be the erased pattern.
\<close>
theorem torn_record_is_no_share:
  assumes "length rc = 512" "n \<le> 504" "tag_of H (take n rc @ replicate (504 - n) ff) \<noteq> replicate 8 ff"
  shows "unseal H cdec (take n rc @ replicate (512 - n) ff) = SVacant \<or>
    unseal H cdec (take n rc @ replicate (512 - n) ff) = SDamaged"
  by (rule unseal_torn[OF assms])

theorem torn_record_is_no_share_witness:
  "\<exists>rc. seal sample_hash sample_cenc (body_of sample_keygen) = Inr rc \<and>
     (unseal sample_hash sample_cdec (take 252 rc @ replicate 260 ff) = SVacant \<or>
      unseal sample_hash sample_cdec (take 252 rc @ replicate 260 ff) = SDamaged)"
proof -
  obtain rc where rc: "seal sample_hash sample_cenc (body_of sample_keygen) = Inr rc" "length rc = 512"
    using sample_seal by blast
  show ?thesis
    using rc torn_record_is_no_share[OF rc(2), of 252 sample_hash sample_cdec] sample_tag(1) by auto
qed

text \<open>
  What \<open>persist_staged\<close> leaves in the queue: success empties it; a fault leaves exactly the
  mutations that are not restorations, in order and not empty, and unless the fault came from
  the flash the chip has not been touched.
\<close>
theorem persist_staged_outcomes:
  assumes "persist_staged F H cenc ab staged s = (r, staged', s')"
  shows "(r = Inr () \<and> staged' = []) \<or>
    (\<exists>e. r = Inl e \<and> staged' = filter (\<lambda>m. \<not> is_restoration m) staged \<and> staged' \<noteq> [] \<and>
       ((\<exists>k. e = SFlash k) \<or> s' = s))"
  by (rule persist_outcomes[OF assms])

theorem persist_staged_outcomes_witness:
  "\<exists>r staged'. persist_staged fake_ops sample_hash sample_cenc sample_pair
      [Restoration (UnSave \<lparr>si_index = 1, si_image = []\<rparr>), Keygen (NewKey [] [] PTest)] blank_flash =
      (r, staged', blank_flash) \<and> r = Inl NotOneKeygen \<and> staged' = [Keygen (NewKey [] [] PTest)]"
proof -
  have e: "persist_staged fake_ops sample_hash sample_cenc sample_pair
      [Restoration (UnSave \<lparr>si_index = 1, si_image = []\<rparr>), Keygen (NewKey [] [] PTest)] blank_flash =
      (Inl NotOneKeygen, [Keygen (NewKey [] [] PTest)], blank_flash)"
    by (simp add: persist_staged_def)
  from persist_staged_outcomes[OF e] e show ?thesis by auto
qed

section \<open>The identity\<close>

text \<open>
  C14. An identity handed out is durable: whatever \<open>load_or_create\<close> returned, the next boot
  returns the same secret, writes nothing and draws no entropy, and the secret is a valid scalar.
\<close>
theorem identity_is_durable:
  assumes "load_or_create F H fill s r = (Inr x, s', r')"
  shows "load_or_create F H fill' s' r2 = (Inr x, s', r2) \<and> scalar_is_in_range x"
  by (rule load_or_create_durable[OF assms])

theorem identity_is_durable_witness:
  "\<exists>s'. load_or_create fake_ops sample_hash (\<lambda>n r. (replicate n 5, Suc r)) blank_flash 0 =
      (Inr (replicate 32 5), s', Suc 0) \<and>
    load_or_create fake_ops sample_hash (\<lambda>n r. (replicate n 6, Suc r)) s' 0 = (Inr (replicate 32 5), s', 0)"
proof -
  obtain s' where s': "load_or_create fake_ops sample_hash (\<lambda>n r. (replicate n 5, Suc r)) blank_flash 0 =
      (Inr (replicate 32 5), s', Suc 0)"
    using sample_identity by (rule exE)
  have "load_or_create fake_ops sample_hash (\<lambda>n r. (replicate n 6, Suc r)) s' 0 = (Inr (replicate 32 5), s', 0)"
    using identity_is_durable[OF s'] by (rule conjunct1)
  with s' show ?thesis by (intro exI conjI)
qed

text \<open>
  A first boot on a healthy chip succeeds: if the record region is vacant and the generator
  produces a valid scalar within its attempts, that scalar becomes the identity.
\<close>
theorem first_boot_creates_identity:
  assumes "FS_IDENTITY_LEN \<le> length (cells s)" "refuse_programs_from s = None" "refuse_erases_from s = None"
    and "hash_ok H" "nf_read fake_ops s FS_IDENTITY_OFFSET ID_RECORD_LEN = Inr buf" "id_classify H buf = IVacant"
    and "List.find scalar_is_in_range (id_draws fill GENERATE_ATTEMPTS r) = Some secret" "length secret = 32"
  shows "\<exists>s' r'. load_or_create fake_ops H fill s r = (Inr secret, s', r')"
proof -
  obtain r' where "id_generate fill GENERATE_ATTEMPTS r = (Some secret, r')"
    using id_generate_first[of fill GENERATE_ATTEMPTS r] assms(7) by (metis prod.collapse)
  from load_or_create_fake[OF assms(1-6) this assms(8)] show ?thesis by blast
qed

theorem first_boot_creates_identity_witness:
  "\<exists>s' r'. load_or_create fake_ops sample_hash (\<lambda>n r. (replicate n (word_of_nat r), Suc r)) blank_flash 0 =
      (Inr (replicate 32 1), s', r')"
  by (rule first_boot_creates_identity[OF _ _ _ sample_hash_ok blank_identity])
    (simp_all add: FS_IDENTITY_LEN_def sample_draws)

text \<open>
  A power cut while the record is being written costs nothing it should not: with fewer than
  all five body doublewords programmed the record reads as vacant (the identity is drawn again),
  with the body but not the commit word it reads as damaged (the device refuses), and the
  complete record reads as the secret.
\<close>
theorem torn_identity_is_classified:
  assumes "hash_ok H" "length secret = 32" "scalar_is_in_range secret" "n \<le> 5"
    and "n < 5 \<Longrightarrow> id_tag_of H (window (id_torn H secret n) 0 32) \<noteq> replicate 8 ff"
  shows "id_classify H (id_torn H secret n) = (if n < 5 then IVacant else IDamagedRec) \<and>
    id_classify H (id_encode H secret) = IValid secret"
  using id_classify_torn[OF assms(1,2) _ assms(5)] id_classify_uncommitted[OF assms(1,2)]
    id_classify_encode[OF assms(1-3)] assms(4) by (cases "n < 5") auto

theorem torn_identity_is_classified_witness:
  "id_classify sample_hash (id_torn sample_hash (replicate 32 5) 3) = IVacant \<and>
   id_classify sample_hash (id_torn sample_hash (replicate 32 5) 5) = IDamagedRec \<and>
   id_classify sample_hash (id_encode sample_hash (replicate 32 5)) = IValid (replicate 32 5)"
proof -
  note t = torn_identity_is_classified[OF sample_hash_ok _ sample_scalar]
  have "id_classify sample_hash (id_torn sample_hash (replicate 32 5) 3) = (if 3 < (5::nat) then IVacant else IDamagedRec) \<and>
      id_classify sample_hash (id_encode sample_hash (replicate 32 5)) = IValid (replicate 32 5)"
    by (rule t) (use sample_tag(2) in simp_all)
  moreover have "id_classify sample_hash (id_torn sample_hash (replicate 32 5) 5) =
      (if 5 < (5::nat) then IVacant else IDamagedRec) \<and>
      id_classify sample_hash (id_encode sample_hash (replicate 32 5)) = IValid (replicate 32 5)"
    by (rule t) simp_all
  ultimately show ?thesis by simp
qed

text \<open>
  The identity is never overwritten: a record that is valid, or committed and damaged, or
  that cannot be read, is left as it is, and no entropy is drawn.
\<close>
theorem held_identity_is_untouched:
  assumes "nf_read F s FS_IDENTITY_OFFSET ID_RECORD_LEN = read"
    and "\<And>buf. read = Inr buf \<Longrightarrow> id_classify H buf \<noteq> IVacant"
  shows "load_or_create F H fill s r =
    (case read of Inl e \<Rightarrow> Inl (IFlash (kind e))
     | Inr buf \<Rightarrow> (case id_classify H buf of IValid x \<Rightarrow> Inr x | _ \<Rightarrow> Inl IDamaged), s, r)"
proof (cases read)
  case (Inl e)
  then show ?thesis using load_or_create_read_fault[of F s e] assms(1) by simp
next
  case (Inr buf)
  then show ?thesis using load_or_create_held[of F s buf] assms by simp
qed

theorem held_identity_is_untouched_witness:
  "load_or_create fake_ops sample_hash (\<lambda>n r. (replicate n 5, Suc r)) (blank_flash\<lparr>cells := []\<rparr>) (0::nat) =
     (Inl (IFlash KOutOfBounds), blank_flash\<lparr>cells := []\<rparr>, 0)"
  using held_identity_is_untouched[of fake_ops "blank_flash\<lparr>cells := []\<rparr>" "Inl OutOfBounds" sample_hash
      "\<lambda>n r. (replicate n 5, Suc r)" "0::nat"]
  by (simp add: fake_read_def ID_RECORD_LEN_def)

section \<open>Nonces\<close>



text \<open>
  C2. A signature share leaves a slot only after the storage has shown it took the nonce's
  consumption: on success the slot reads back with the very shares under the session, and for a
  new session with its index past the last nonce used. This needs nothing of the storage.
\<close>
theorem released_shares_are_recorded:
  assumes "slot_sign S E i session_id st last_used fs batch w = Some (Inr (shares, job), w')"
    and "\<And>v. sl_read S w i = Some v \<Longrightarrow> sn_index v \<le> u32_max"
  shows "\<exists>v v'. sl_read S w i = Some v \<and> sl_read S w' i = Some v' \<and>
    sn_signing_state v' = Some \<lparr>sst_session_id = session_id, sst_signature_shares = shares\<rparr> \<and>
    (if cached v session_id then v' = v
     else sn_index v \<le> cn_index st \<and> sn_index v' = cn_index st + length fs \<and> length shares = length fs)"
  by (rule slot_sign_success[OF assms]) (auto simp: cached_def signed_slot_def)

theorem released_shares_are_recorded_witness:
  "\<exists>job w' v'. slot_sign mem_ops sample_env 0 sample_session sample_state 1 sample_sessions 30 [Some sample_slot] =
      Some (Inr ([replicate 32 8, replicate 32 8], job), w') \<and> sl_read mem_ops w' 0 = Some v' \<and>
    sn_signing_state v' = Some \<lparr>sst_session_id = sample_session,
      sst_signature_shares = [replicate 32 8, replicate 32 8]\<rparr>"
proof -
  obtain job w' where s: "slot_sign mem_ops sample_env 0 sample_session sample_state 1 sample_sessions 30
      [Some sample_slot] = Some (Inr ([replicate 32 8, replicate 32 8], job), w')"
    using sample_mem_signed by blast
  have "sn_index v \<le> u32_max" if "sl_read mem_ops [Some sample_slot] 0 = Some v" for v
    using that by (auto simp: mem_ops_def sample_slot_def)
  from released_shares_are_recorded[OF s this] s show ?thesis by blast
qed



text \<open>
  Asking again is safe: over storage that does not fail, a session already recorded is answered
  with the recorded shares, and the slot reads as before.
\<close>
theorem repeated_session_repeats:
  assumes "slot_store_reliable S good count storable" "good w" "i < count"
    and "sl_read S w i = Some v" "storable v" "sn_signing_state v = Some sst"
    and "cn_stream_id st = sn_stream_id v"
  shows "\<exists>job w'. slot_sign S E i (sst_session_id sst) st last_used fs batch w =
      Some (Inr (sst_signature_shares sst, job), w') \<and> sl_read S w' i = Some v"
  by (rule slot_store_reliable.sign_repeats[OF assms(1-6) refl assms(7)])

theorem repeated_session_repeats_witness:
  "\<exists>job w'. slot_sign mem_ops sample_env 0 sample_session sample_state 3 [] 30 [Some sample_signed] =
      Some (Inr ([replicate 32 8, replicate 32 8], job), w') \<and> sl_read mem_ops w' 0 = Some sample_signed"
  using repeated_session_repeats[OF mem.slot_store_reliable_axioms[of 1], of "[Some sample_signed]" 0 sample_signed
      "\<lparr>sst_session_id = sample_session, sst_signature_shares = [replicate 32 8, replicate 32 8]\<rparr>" sample_state
      sample_env 3 "[]" 30]
  by (simp add: mem_good_def mem_ops_def sample_signed_def sample_state_def u32_max_def)

text \<open>
  C12. The public nonces a job publishes are those the slot will sign with: for every index of the
  segment the public half of the very secret that signing at that index derives.
\<close>
theorem published_nonces_are_the_signing_nonces:
  assumes "try_nonce_task v start len = Inr job"
  shows "into_segment (run_until_finished E job) = Some
    \<lparr>ns_stream_id = sn_stream_id v,
     ns_nonces = map (\<lambda>k. ne_public E (secret_at E v (nj_skip_to job + k))) [0 ..< len],
     ns_index = nj_skip_to job\<rparr>"
  by (rule job_publishes_signing_nonces[OF assms])

theorem published_nonces_are_the_signing_nonces_witness:
  "\<exists>job. try_nonce_task sample_slot (Some 2) 2 = Inr job \<and>
     into_segment (run_until_finished sample_env job) = Some
       \<lparr>ns_stream_id = replicate 16 1, ns_nonces = [replicate 32 5, replicate 32 6], ns_index = 2\<rparr>"
proof -
  let ?job = "\<lparr>nj_stream_id = replicate 16 1, nj_seed = replicate 32 2, nj_index = 0, nj_target_index = 4,
     nj_nonces = [], nj_skip_to = 2\<rparr> :: bytes nonce_job"
  have t: "try_nonce_task sample_slot (Some 2) 2 = Inr ?job"
    by (simp add: try_nonce_task_def sample_slot_def u32_lim_def u32_sat_add_def u32_max_def)
  have n: "map (\<lambda>k. ne_public sample_env (secret_at sample_env sample_slot (2 + k))) [0 ..< 2] =
      [replicate 32 5, replicate 32 6]" by code_simp
  show ?thesis
    using published_nonces_are_the_signing_nonces[OF t, of sample_env] t n by (simp add: sample_slot_def)
qed

section \<open>The pool of nonce streams\<close>

text \<open>
  What a coordinator may make the device derive is bounded: opening any list of streams, with
  any claimed state, yields at most one job per slot of the device, and each job costs at most
  one batch of derivations.
\<close>
theorem opening_streams_is_bounded:
  assumes "open_nonce_streams S fill batch sts (P, r) = Some (jobs, Pr')"
  shows "length jobs \<le> as_count P \<and> (\<forall>job \<in> set jobs. n_derivations_remaining job \<le> batch)"
  using open_nonce_streams_bounded[OF assms] by blast

theorem opening_streams_is_bounded_witness:
  "\<exists>jobs Pr'. open_nonce_streams mem_ops (\<lambda>r. (replicate 32 r, r + 1)) 30 [sample_state, sample_state]
      (\<lparr>as_slots = [Some sample_slot], as_count = 1, as_last_used = 0\<rparr>, 4 :: u8) = Some (jobs, Pr') \<and>
    length jobs = 1 \<and> (\<forall>job \<in> set (jobs :: bytes nonce_job list). n_derivations_remaining job \<le> 30)"
proof -
  obtain jobs :: "bytes nonce_job list" and Pr' where
    o: "open_nonce_streams mem_ops (\<lambda>r. (replicate 32 r, r + 1)) 30 [sample_state, sample_state]
      (\<lparr>as_slots = [Some sample_slot], as_count = 1, as_last_used = 0\<rparr>, 4 :: u8) = Some (jobs, Pr')"
    and l: "length jobs = 1"
    using sample_opened by blast
  from opening_streams_is_bounded[OF o] o l show ?thesis by blast
qed

text \<open>
  C15. A slot that cannot be read hides the ones behind it: when the scan for a stream meets an
  unreadable slot first, the stream is created there from a fresh seed at index 0, whether or not
  a later slot still holds it.
\<close>
theorem unreadable_slot_shadows_a_held_stream:
  assumes "i < as_count P" "sl_read S (as_slots P) i = None"
    and "\<And>j. j < i \<Longrightarrow> other_stream S sid (as_slots P) j" "fill r = (seed, r')"
  shows "get_or_create S fill sid (P, r) = Some (i,
    P\<lparr>as_slots := sl_write S i \<lparr>sn_index = 0, sn_stream_id = sid, sn_seed = seed,
         sn_last_used = u32_add (as_last_used P) 1, sn_signing_state = None\<rparr> (as_slots P),
      as_last_used := u32_add (as_last_used P) 1\<rparr>, r')"
  by (rule get_or_create_shadows) (use assms in auto)

theorem unreadable_slot_shadows_a_held_stream_witness:
  "\<exists>P'. get_or_create mem_ops (\<lambda>r. (replicate 32 r, r + 1)) (replicate 16 1)
      (\<lparr>as_slots = [None, Some sample_signed], as_count = 2, as_last_used = 1\<rparr>, 4 :: u8) = Some (0, P', 5) \<and>
    sl_read mem_ops (as_slots P') 1 = Some sample_signed \<and>
    map_option sn_index (sl_read mem_ops (as_slots P') 0) = Some 0"
  using unreadable_slot_shadows_a_held_stream[of 0
      "\<lparr>as_slots = [None, Some sample_signed], as_count = 2, as_last_used = 1\<rparr>" mem_ops
      "replicate 16 1" "\<lambda>r. (replicate 32 r, r + 1)" 4 "replicate 32 4" 5]
  by (simp add: mem_ops_def)

text \<open>
  A held stream is found and kept: with every earlier slot readable, looking a stream up
  returns its slot and writes nothing.
\<close>
theorem held_stream_is_found:
  assumes "i < as_count P" "sl_read S (as_slots P) i = Some v" "sn_stream_id v = sid"
    and "\<And>j. j < i \<Longrightarrow> other_stream S sid (as_slots P) j"
  shows "get_or_create S fill sid (P, r) = Some (i, P\<lparr>as_last_used := u32_add (as_last_used P) 1\<rparr>, r)"
  by (rule get_or_create_held[OF assms])

theorem held_stream_is_found_witness:
  "get_or_create mem_ops (\<lambda>r. (replicate 32 r, r + 1)) (replicate 16 1)
     (\<lparr>as_slots = [Some sample_signed], as_count = 1, as_last_used = 1\<rparr>, 4 :: u8) =
   Some (0, \<lparr>as_slots = [Some sample_signed], as_count = 1, as_last_used = 2\<rparr>, 4)"
  using held_stream_is_found[of 0 "\<lparr>as_slots = [Some sample_signed], as_count = 1, as_last_used = 1\<rparr>" mem_ops
      sample_signed "replicate 16 1" "\<lambda>r. (replicate 32 r, r + 1)" "4 :: u8"]
  by (simp add: mem_ops_def sample_signed_def u32_add_def u32_lim_def)

section \<open>The flash driver\<close>

text \<open>
  C16. What a program stores: on any hardware, a write stores a prefix of the doublewords it was
  given, each at its own address in order and only those, all of them when it succeeds, and no
  store falls outside the written range of the data region.
\<close>
theorem program_stores_are_exact:
  assumes "stm_write hw offset bs m = (r, m')"
  shows "\<exists>k \<le> length bs div 8.
    stores (snd m') = stores (snd m) @ all_stores offset 0 (take k (chunks8 bs)) \<and>
    (r = Inr () \<longrightarrow> k = length bs div 8) \<and>
    (stores (snd m) = [] \<longrightarrow> (\<forall>(a, v) \<in> set (stores (snd m')).
       FLASH_FS_BASE + offset \<le> a \<and> a + 4 \<le> FLASH_FS_BASE + offset + length bs \<and>
       offset + length bs \<le> FLASH_FS_LEN))"
  using stm_write_stores[OF assms] stm_write_confined[OF assms] by (auto 4 3)

theorem program_stores_are_exact_witness:
  "\<exists>m'. stm_write sample_chip 64 sample_dw (\<lambda>_. ff, []) = (Inr (), m') \<and>
     stores (snd m') = [(FLASH_FS_BASE + 64, 1), (FLASH_FS_BASE + 68, 2)]"
proof -
  obtain m' where m': "stm_write sample_chip 64 sample_dw (\<lambda>_. ff, []) = (Inr (), m')"
    using sample_stm_write by blast
  obtain k where "k \<le> length sample_dw div 8"
    "stores (snd m') = stores (snd ((\<lambda>_. ff) :: nat \<Rightarrow> u8, [])) @
        all_stores 64 0 (take k (chunks8 sample_dw))"
    "k = length sample_dw div 8"
    using program_stores_are_exact[OF m'] by auto
  then have "stores (snd m') = dw_stores 64 0 sample_dw" by (simp add: sample_dw_facts)
  with m' show ?thesis by (auto simp: dw_stores_def sample_dw_def)
qed



text \<open>
  The controller is left locked: every erase or program that got past the unlock ends with a
  control-register write that sets the lock bit, error paths included.
\<close>
theorem flash_is_relocked:
  assumes "stm_write hw offset bs m = (r, m1)" "stm_erase hw from to m = (r', m2)"
  shows "(m1 = m \<or> r = Inl UnlockFailed \<or> locked_last (snd m1)) \<and>
    (m2 = m \<or> r' = Inl UnlockFailed \<or> locked_last (snd m2))"
  using stm_write_relocks[OF assms(1)] stm_erase_relocks[OF assms(2)] by blast

theorem flash_is_relocked_witness:
  "\<exists>m1 m2. stm_write sample_chip 64 sample_dw (\<lambda>_. ff, []) = (Inr (), m1) \<and>
     stm_erase sample_chip 4096 8192 (\<lambda>_. ff, []) = (Inr (), m2) \<and> locked_last (snd m1) \<and> locked_last (snd m2)"
proof -
  obtain m1 m2 where m: "stm_write sample_chip 64 sample_dw (\<lambda>_. ff, []) = (Inr (), m1)"
    "snd m1 \<noteq> []" "stm_erase sample_chip 4096 8192 (\<lambda>_. ff, []) = (Inr (), m2)" "m2 \<noteq> (\<lambda>_. ff, [])"
    using sample_stm_write sample_stm_erase by auto
  from flash_is_relocked[OF m(1,3)] m show ?thesis by auto
qed

text \<open>
  A verified write is what the chip holds: when \<open>write_verified\<close> succeeds every byte of the
  data reads back at its address, whatever the hardware did.
\<close>
theorem verified_write_holds:
  assumes "write_verified hw offset bs m = (Inr (), m')" "i < length bs"
  shows "hw_load hw (FLASH_FS_BASE + offset + i) (fst m') = bs ! i"
  by (rule write_verified_ok[OF assms])

theorem verified_write_holds_witness:
  "\<exists>m'. write_verified sample_chip 64 sample_dw (\<lambda>_. ff, []) = (Inr (), m') \<and>
     hw_load sample_chip (FLASH_FS_BASE + 68) (fst m') = 2"
proof -
  obtain m' where m': "write_verified sample_chip 64 sample_dw (\<lambda>_. ff, []) = (Inr (), m')"
    using sample_write_verified by blast
  from verified_write_holds[OF m', of 4] m' show ?thesis by (auto simp: sample_dw_def add.commute)
qed

text \<open>
  A stale error cannot wedge the driver: on a write-one-to-clear status register with any
  errors latched and a busy flag that drops within the spin limit, the operation prologue succeeds.
\<close>
theorem prologue_survives_latched_errors:
  assumes "w1c_port P latched busy" "busy p = Some n" "n \<le> spins" "\<not> bit (latched p) 16"
  shows "fst (sr_prologue P spins p) = Inr ()"
  by (rule w1c_port.prologue_clears[OF assms])

theorem prologue_survives_latched_errors_witness:
  "fst (sr_prologue sim_ops 3 ((sim_latched FLASH_SR_ERRORS)\<lparr>sp_busy_reads := Some 2\<rparr>)) = Inr () \<and>
   fst (sr_wait_done sim_ops 3 ((sim_latched FLASH_SR_ERRORS)\<lparr>sp_busy_reads := Some 2\<rparr>)) \<noteq> Inr ()"
proof -
  let ?p = "(sim_latched FLASH_SR_ERRORS)\<lparr>sp_busy_reads := Some 2\<rparr>"
  have b: "\<not> bit (sp_sr ?p) 16" by (simp add: sim_latched_def sim_idle_def) code_simp
  have "fst (sr_prologue sim_ops 3 ?p) = Inr ()"
    by (rule prologue_survives_latched_errors[OF sim.w1c_port_axioms, where n = 2])
      (use b in simp_all)
  moreover have "fst (sr_wait_done sim_ops 3 ?p) \<noteq> Inr ()" by code_simp
  ultimately show ?thesis ..
qed

section \<open>The link to the coordinator\<close>

text \<open>
  C18. However the stream of frames is cut into packets, exactly the frames that were sent arrive,
  in order, and nothing is left in the buffer: over any decoder that is stable under appended
  bytes, for frames that fit the receive buffer.
\<close>
theorem frames_arrive_however_cut:
  assumes "prefix_decoder decode" "\<forall>f \<in> set fs. framed decode fenc f \<and> length (fenc f) \<le> FRAME_LIMIT"
    and "l_linked l" "l_rx l = []" "concat ps = concat (map fenc fs)"
  shows "poll_all decode ps l = (Inr (), l, fs)"
  by (rule framed_stream[OF assms])

theorem frames_arrive_however_cut_witness:
  "poll_all sample_dec [[2, 7], [8, 1], [], [9]] (link_new\<lparr>l_linked := True\<rparr>) =
     (Inr (), link_new\<lparr>l_linked := True\<rparr>, [[7, 8], [9]])"
  by (rule frames_arrive_however_cut[OF sample_dec_prefix, where fenc = "\<lambda>f. word_of_nat (length f) # f"])
    (auto simp: framed_def sample_dec_def FRAME_LIMIT_def less_Suc_eq link_new_def)

text \<open>
  The link cannot be overrun or poisoned: whatever bytes arrive, the buffer stays within its
  bound, and a stream that cannot be parsed drops the link and the buffer, so nothing is decoded
  before the next handshake.
\<close>
theorem link_stays_bounded:
  assumes "poll decode bs l = (r, l', fs)" "link_ok l"
  shows "link_ok l' \<and> (\<forall>e. r = Inl e \<longrightarrow> e = Desync \<and> \<not> l_linked l' \<and> pending l' = 0)"
  by (rule poll_ok[OF assms])

theorem link_stays_bounded_witness:
  "\<exists>r l' fs. poll (\<lambda>_. Bad :: unit decoded) [1, 2, 3] (link_new\<lparr>l_linked := True\<rparr>) = (r, l', fs) \<and> r = Inl Desync \<and>
     \<not> l_linked l' \<and> pending l' = 0"
proof -
  obtain l' fs where p: "poll (\<lambda>_. Bad :: unit decoded) [1, 2, 3] (link_new\<lparr>l_linked := True\<rparr>) = (Inl Desync, l', fs)"
    using sample_poll_bad by blast
  have "link_ok (link_new\<lparr>l_linked := True\<rparr>)" by (simp add: link_ok_def link_new_def)
  from link_stays_bounded[OF p this] p show ?thesis by auto
qed

section \<open>Exclusive hardware\<close>

text \<open>
  C19. At most one taker of a peripheral's token wins, in every interleaving of any number of
  callers, whatever the static word holds at power-on short of the taken pattern; and once all
  have returned, exactly one has won and the word says so.
\<close>
theorem token_is_taken_once:
  assumes "guard_step\<^sup>*\<^sup>* (guard_new word0 (Suc n)) (word, pcs)" "word0 \<noteq> TAKEN"
  shows "winners pcs \<le> 1 \<and> ((\<forall>p \<in> set pcs. \<exists>r. p = Returned r) \<longrightarrow> winners pcs = 1 \<and> is_claimed word)"
  using at_most_one_winner[OF assms] exactly_one_winner[OF assms] by blast

theorem token_is_taken_once_witness:
  "\<exists>word pcs. guard_step\<^sup>*\<^sup>* (guard_new AVAILABLE 2) (word, pcs) \<and> pcs = [Load, Returned True] \<and> winners pcs = 1"
proof -
  have s1: "guard_step (AVAILABLE, [First, First]) (TAKEN, [First, First][1 := Returned True])"
    by (rule guard_step.step[where word = AVAILABLE]) simp_all
  have s2: "guard_step (TAKEN, [First, Returned True]) (TAKEN, [First, Returned True][0 := Load])"
    by (rule guard_step.step[where word = TAKEN]) (simp_all add: tags_differ[symmetric])
  have r: "guard_step\<^sup>*\<^sup>* (guard_new AVAILABLE (Suc 1)) (TAKEN, [Load, Returned True])"
    using s1 s2 by (auto simp: guard_new_def numeral_2_eq_2 intro: rtranclp.rtrancl_into_rtrancl)
  from token_is_taken_once[OF r tags_differ] r show ?thesis by (auto simp: winners_def numeral_2_eq_2)
qed

section \<open>Physical backups\<close>

text \<open>
  A backup entered on the device and saved is the one a consolidation finds: saving consumes
  the entered copy, stages the mutation, and leaves the keys alone.
\<close>
theorem entered_backup_is_saved:
  assumes "load_backup_result img_of b sg = (img, sg1)"
  shows "\<exists>sg2. save_physical_backup2 img_of img t p n sg1 = Some sg2 \<and>
    consolidation_backup img sg2 = Some b \<and>
    tmp_loaded_backups (sg_restoration sg2) img = None \<and> sg_keys sg2 = sg_keys sg"
  by (rule load_then_save[OF assms])

theorem entered_backup_is_saved_witness:
  "\<exists>sg1 sg2. load_backup_result sample_image sample_backup signer_new = (sample_image sample_backup, sg1) \<and>
     save_physical_backup2 sample_image (sample_image sample_backup) (Some 2) None None sg1 = Some sg2 \<and>
     consolidation_backup (sample_image sample_backup) sg2 = Some sample_backup"
proof -
  obtain sg1 where l: "load_backup_result sample_image sample_backup signer_new = (sample_image sample_backup, sg1)"
    by (simp add: load_backup_result_def Let_def)
  from entered_backup_is_saved[OF l, of "Some 2" None None] l show ?thesis by blast
qed

section \<open>The keypad\<close>

text \<open>
  C20. Over a pad that obeys its contract, opening succeeds, and then one debounce window with the
  contacts held as they are reports nothing pressed when no contact is closed, the key of the one
  closed contact, and a refusal when several are closed, whatever the random row order; in
  particular a key is named exactly when its contact is the only closed one, so no ghost of the
  diodeless matrix is ever named.
\<close>
theorem named_key_is_the_only_contact:
  assumes "pad_port G low contacts"
  shows "\<exists>h1. keypad_open G h = (Inr (), h1) \<and>
    (\<forall>next_u32 r. \<exists>h2 r2. read_key G next_u32 (h1, r) = (held_event (contacts h), h2, r2) \<and>
       (\<forall>k. held_event (contacts h) = Down k \<longleftrightarrow>
          (\<exists>i < KEY_COUNT. contacts h = {(i div NUM_COLS, i mod NUM_COLS)} \<and> k = DECODER ! i)))"
proof -
  obtain h1 where o: "keypad_open G h = (Inr (), h1)" "configured G h1" "contacts h1 = contacts h"
    by (rule pad_port.open_works[OF assms])
  show ?thesis
    using o pad_port.steady_window[OF assms o(2)] held_event_Down by fastforce
qed

theorem named_key_is_the_only_contact_witness:
  "\<exists>h1. keypad_open sim_gpio (sample_pad {(3, 2)}) = (Inr (), h1) \<and>
    (\<exists>h2 r2. read_key sim_gpio counter_u32 (h1, 0) = (Down 0x31, h2, r2))"
proof -
  have "held_event (sp_contacts (sample_pad {(3, 2)})) = Down (DECODER ! 11)"
    using held_single[of 11] by (simp add: sp_contacts_def sample_pad_def)
  then show ?thesis
    using named_key_is_the_only_contact[OF sim.pad_port_axioms, of "sample_pad {(3, 2)}"]
    by (fastforce simp: DECODER_def)
qed

text \<open>
  Opening the pad configures its seven pins and no others: afterwards the rows are open-drain
  outputs and the columns pulled-up inputs, every other bit of the five configuration registers
  and of the clock register is as it was, whatever the state it starts in, and all rows are driven.
\<close>
theorem opening_the_pad_is_confined:
  assumes "pad_port G low contacts" and "keypad_open G h = (Inr (), h1)"
  shows "configured G h1 \<and> (\<forall>q < NUM_ROWS. low h1 q) \<and>
    (\<forall>reg \<in> config_regs. gp_read G reg h1 AND NOT (pin_bits reg) = gp_read G reg h AND NOT (pin_bits reg)) \<and>
    gp_read G RCC_AHB2ENR h1 = gp_read G RCC_AHB2ENR h OR (RCC_AHB2ENR_GPIOBEN OR RCC_AHB2ENR_GPIODEN)"
  using pad_port.open_confined[OF assms] by (simp add: NUM_ROWS_def mask_values)

theorem opening_the_pad_is_confined_witness:
  "\<exists>h1. keypad_open sim_gpio (sample_pad {}) = (Inr (), h1) \<and> configured sim_gpio h1 \<and>
     sp_read GPIOB_MODER h1 AND NOT (pin_bits GPIOB_MODER) = 0xFFFFFFFF AND NOT (pin_bits GPIOB_MODER)"
proof -
  obtain h1 where h1: "keypad_open sim_gpio (sample_pad {}) = (Inr (), h1)"
    by (rule sim.open_works)
  from opening_the_pad_is_confined[OF sim.pad_port_axioms h1] h1 show ?thesis
    by (auto simp: config_regs_def sp_read_def sample_pad_def)
qed

text \<open>
  On any hardware, what a debounce window says of its three scans: a key is named exactly when
  each scan saw that key's bit and nothing else, the window is refused exactly when some scan saw
  two contacts or more, and nothing pressed is reported only when no scan saw a key.
\<close>
theorem window_verdict_is_complete:
  assumes "scan_once G next_u32 hr0 = (a, hr1)" and "scan_once G next_u32 hr1 = (b, hr2)"
    and "scan_once G next_u32 hr2 = (c, hr3)"
  shows "\<exists>ev. read_key G next_u32 hr0 = (ev, hr3) \<and>
    (\<forall>k. ev = Down k \<longleftrightarrow> (\<exists>i < KEY_COUNT. k = DECODER ! i \<and> a = key_bit i \<and> b = key_bit i \<and> c = key_bit i)) \<and>
    (ev = MultiKey \<longleftrightarrow> (\<exists>w \<in> {a, b, c}. 1 < count_ones w)) \<and>
    (ev = AllUp \<longleftrightarrow> (\<forall>w \<in> {a, b, c}. count_ones w \<le> 1 \<and> (\<forall>i < KEY_COUNT. \<not> bit w i)))"
proof -
  define ev where "ev = verdict (pad_window [a, b, c])"
  from verdict_cases[of a b c, folded ev_def] read_key_three[OF assms, folded ev_def]
  show ?thesis by (intro exI[of _ ev]) simp
qed

theorem window_verdict_is_complete_witness:
  "\<exists>h. configured sim_gpio h \<and> sp_contacts h = {(0, 2)} \<and>
     (\<exists>hr. read_key sim_gpio counter_u32 (h, 7) = (Down KEY_CANCEL, hr))"
proof -
  obtain h where h: "configured sim_gpio h" "sp_contacts h = {(0, 2)}"
  proof -
    obtain h' where "configured sim_gpio h'" "sp_contacts h' = sp_contacts (sample_pad {(0, 2)})"
      by (rule sim.open_works)
    then show thesis using that[of h'] by (simp add: sp_contacts_def sample_pad_def)
  qed
  obtain a hr1 where a: "scan_once sim_gpio counter_u32 (h, 7) = (a, hr1)" by (metis surj_pair)
  obtain b hr2 where b: "scan_once sim_gpio counter_u32 hr1 = (b, hr2)" by (metis surj_pair)
  obtain c hr3 where c: "scan_once sim_gpio counter_u32 hr2 = (c, hr3)" by (metis surj_pair)
  have "a = key_bit 2 \<and> b = key_bit 2 \<and> c = key_bit 2"
    using sim.steady_scans[OF h(1) a b c] h(2) matrix_key_bit[of a 0 2] by (simp add: numeral_2_eq_2)
  moreover have "DECODER ! 2 = KEY_CANCEL" "2 < KEY_COUNT"
    by (simp_all add: DECODER_def KEY_CANCEL_def KEY_COUNT_def NUM_ROWS_def NUM_COLS_def)
  moreover obtain ev where "read_key sim_gpio counter_u32 (h, 7) = (ev, hr3)"
    and "\<And>k. ev = Down k \<longleftrightarrow> (\<exists>i < KEY_COUNT. k = DECODER ! i \<and> a = key_bit i \<and> b = key_bit i \<and> c = key_bit i)"
    using window_verdict_is_complete[OF a b c] by blast
  ultimately have "read_key sim_gpio counter_u32 (h, 7) = (Down KEY_CANCEL, hr3)" by auto
  with h show ?thesis by blast
qed

section \<open>Entropy\<close>

text \<open>
  C21. A generator the device boots with is seeded by the hash of three draws that were all made and
  all passed their health check: eight words of the on-die generator, each nonzero and read straight
  after an error-free ready status, and the answers of the two secure elements; and the hashed
  transcript determines the three draws, so no draw can stand in for another.
\<close>
theorem seed_comes_from_three_healthy_draws:
  assumes "entropy_boot C E s = Inr en"
  shows "\<exists>ws s1 s2 m1 m2.
    length ws = 8 \<and> (\<forall>w \<in> set ws. clean_word (ee_trng E) w \<and> w \<noteq> 0) \<and>
    read_rng (ee_gate E) (ee_sp E) RsSe1 32 (src_machine s) = (Inr s1, m1) \<and>
    read_rng (ee_gate E) (ee_sp E) RsSe2 8 m1 = (Inr s2, m2) \<and>
    healthy_draw (words_bytes ws) 32 \<and> healthy_draw s1 32 \<and> healthy_draw s2 8 \<and>
    en_rng en = cc_from_seed C (ee_sha E (transcript [words_bytes ws, s1, s2])) \<and>
    (\<forall>ps. (\<forall>p \<in> set ps. length p < 256) \<and> transcript ps = transcript [words_bytes ws, s1, s2]
       \<longrightarrow> ps = [words_bytes ws, s1, s2])"
proof -
  from assms obtain seed s' where d: "sources_draw E s = (Inr seed, s')" and en: "en_rng en = cc_from_seed C seed"
    by (auto simp: entropy_boot_def split: prod.splits sum.splits)
  obtain ws s1 s2 m1 m2 where W: "length ws = 8"
    "\<forall>w \<in> set ws. clean_word (ee_trng E) w \<and> w \<noteq> 0"
    "read_rng (ee_gate E) (ee_sp E) RsSe1 32 (src_machine s) = (Inr s1, m1)"
    "read_rng (ee_gate E) (ee_sp E) RsSe2 8 m1 = (Inr s2, m2)"
    and H: "healthy_draw (words_bytes ws) 32" "healthy_draw s1 32" "healthy_draw s2 8"
    and seed: "seed = ee_sha E (transcript [words_bytes ws, s1, s2])"
    by (rule sources_draw_ok[OF d])
  have det: "\<forall>ps. (\<forall>p \<in> set ps. length p < 256) \<and> transcript ps = transcript [words_bytes ws, s1, s2]
       \<longrightarrow> ps = [words_bytes ws, s1, s2]"
    using transcript_determines[OF H] by blast
  show ?thesis unfolding en seed
    by (rule exI[of _ ws], rule exI[of _ s1], rule exI[of _ s2], rule exI[of _ m1], rule exI[of _ m2])
       (intro conjI W H refl det)
qed

theorem seed_comes_from_three_healthy_draws_witness:
  "\<exists>en ws s1 s2. entropy_boot sample_cipher sample_entropy_env sample_sources = Inr en \<and>
     length ws = 8 \<and> en_rng en = take 32 (transcript [words_bytes ws, s1, s2])"
proof -
  obtain en where en: "entropy_boot sample_cipher sample_entropy_env sample_sources = Inr en"
    using sample_boot by blast
  from seed_comes_from_three_healthy_draws[OF en] en show ?thesis
    by (auto simp: sample_cipher_def sample_entropy_env_def)
qed

text \<open>
  A reseed never downgrades the generator: when it fails, the stream and the count are exactly
  as they were; when it succeeds, the new stream is seeded by a hash that covers the output of the
  old one together with a fresh draw; without sources it always refuses.
\<close>
theorem reseed_never_downgrades:
  assumes "try_reseed C E en = (r, en')"
  shows "(\<forall>f. r = Inl f \<longrightarrow> en_rng en' = en_rng en \<and> en_reseeds en' = en_reseeds en \<and>
      fst (entropy_fill_bytes C n en') = fst (entropy_fill_bytes C n en)) \<and>
    (r = Inr () \<longrightarrow> en_reseeds en' = min u32_max (en_reseeds en + 1) \<and>
      (\<exists>s s' fresh. en_sources en = Some s \<and> sources_draw E s = (Inr fresh, s') \<and>
        en_rng en' = cc_from_seed C (ee_sha E (MIX_DOMAIN @ fst (entropy_fill_bytes C SEED_BYTES en) @ fresh)))) \<and>
    (\<not> can_reseed en \<longrightarrow> r = Inl (rng_fault_new SrcTrng NoSources)) \<and> can_reseed en' = can_reseed en"
  using try_reseed_cases[OF assms] assms
  by (cases r) (auto simp: entropy_fill_bytes_def can_reseed_def try_reseed_def split: prod.splits option.splits)

theorem reseed_never_downgrades_witness:
  "\<exists>en en'. entropy_boot sample_cipher sample_entropy_env sample_sources = Inr en \<and>
     try_reseed sample_cipher sample_entropy_env (en\<lparr>en_sources := None\<rparr>)
       = (Inl (rng_fault_new SrcTrng NoSources), en') \<and> en_rng en' = en_rng en"
proof -
  obtain en where en: "entropy_boot sample_cipher sample_entropy_env sample_sources = Inr en"
    using sample_boot by blast
  obtain r en' where r: "try_reseed sample_cipher sample_entropy_env (en\<lparr>en_sources := None\<rparr>) = (r, en')"
    by (metis surj_pair)
  from reseed_never_downgrades[OF r] r en show ?thesis by (auto simp: can_reseed_def)
qed

section \<open>The bootloader\<close>

text \<open>
  C22. The firmware can only enter the bootloader in ways that cost nothing: if two gates behave the
  same on the free entries (interrupts masked, a buffer inside the allowed memory of exactly the
  selector's size, and a selector and argument that neither count a PIN attempt nor write anything),
  then every operation of the module does the same with either, whatever the gates do on all others.
\<close>
theorem only_free_entries_are_reachable:
  assumes "free_alike G G'"
  shows "read_rng G sp source n m = read_rng G' sp source n m \<and>
    try_enter_dfu G m = try_enter_dfu G' m \<and>
    (\<forall>pin att. pin_attempt_new pin = Inr att \<longrightarrow> pin_setup_attempt G sp att m = pin_setup_attempt G' sp att m) \<and>
    read_counter0 G sp m = read_counter0 G' sp m \<and>
    read_mcu_key_usage G sp m = read_mcu_key_usage G' sp m"
  using wrappers_alike[OF assms] pin_attempt_size by simp

theorem only_free_entries_are_reachable_witness:
  "\<forall>m. gt_blx sample_gate 0 18 None 0 2 m \<noteq> gt_blx counting_gate 0 18 None 0 2 m \<and>
     read_counter0 sample_gate 0x20000100 m = read_counter0 counting_gate 0x20000100 m"
proof -
  have "free_alike sample_gate counting_gate"
    by (auto simp: free_alike_def counting_gate_def free_entry_def split: option.splits)
  from only_free_entries_are_reachable[OF this] show ?thesis
    by (simp add: counting_gate_def sample_gate_def)
qed

section \<open>Panics\<close>

text \<open>
  C23. Over a backup domain that keeps its registers, consecutive panics are counted exactly from
  whatever the counter word held (a word that is not one of ours counts nothing), the counter
  saturates and never wraps, and at most two of them end in a plain reset before every further one
  tries the DFU fallback first; the other counter is untouched.
\<close>
theorem plain_resets_are_bounded:
  assumes "backup_domain B G bkp reboot" and "resets_land B taken" and "decode_depth w = 0"
  shows "\<exists>acts h'. panic_boots B G taken reboot w n h = Some (acts, h') \<and> length acts = n \<and>
    (\<forall>k < n. acts ! k = (if PANIC_RESET_THRESHOLD \<le> min (counted (bkp h CtrPanic) + k + 1) COUNTER_MAX
                      then TryDfuThenReset else PanicReset)) \<and>
    length (filter (\<lambda>a. a = PanicReset) acts) \<le> 2 \<and>
    counted (bkp h' CtrPanic) = min (counted (bkp h CtrPanic) + n) COUNTER_MAX \<and>
    bkp h' CtrRngFault = bkp h CtrRngFault"
proof -
  let ?acts = "map (budget_act (counted (bkp h CtrPanic))) [0 ..< n]"
  obtain h' where h': "panic_boots B G taken reboot w n h = Some (?acts, h')"
    "counted (bkp h' CtrPanic) = min (counted (bkp h CtrPanic) + n) COUNTER_MAX"
    "bkp h' CtrRngFault = bkp h CtrRngFault"
    using backup_domain.boots_counted[OF assms] by blast
  then show ?thesis
    by (rule_tac exI[of _ ?acts], rule_tac exI[of _ h'], intro conjI budget_resets)
       (simp_all add: budget_act_def)
qed

theorem plain_resets_are_bounded_witness:
  "\<exists>h'. panic_boots sim_bus refusing_gate sc_reset sim_reboot 0xdeadbeef 3 sample_chip_garbage =
     Some ([PanicReset, PanicReset, TryDfuThenReset], h') \<and> counted (sc_bkp h' CtrPanic) = 3"
proof -
  have w: "decode_depth 0xdeadbeef = 0"
    by (simp add: decode_depth_def COUNTER_VALUE_MASK_def DEPTH_MAGIC_def)
  have c: "counted (sc_bkp sample_chip_garbage CtrPanic) = 0"
    by (simp add: sample_chip_garbage_def counted_foreign)
  from plain_resets_are_bounded[OF sim_domain.backup_domain_axioms sim_resets_land w, of 3 sample_chip_garbage]
  obtain acts h' where a: "panic_boots sim_bus refusing_gate sc_reset sim_reboot 0xdeadbeef 3 sample_chip_garbage = Some (acts, h')"
    "length acts = 3" "\<forall>k < 3. acts ! k = (if PANIC_RESET_THRESHOLD \<le> min (k + 1) COUNTER_MAX then TryDfuThenReset else PanicReset)"
    "counted (sc_bkp h' CtrPanic) = 3"
    by (auto simp: c COUNTER_MAX_def)
  have "acts = [PanicReset, PanicReset, TryDfuThenReset]"
    using a(2,3) by (intro nth_equalityI)
       (auto simp: less_Suc_eq numeral_3_eq_3 PANIC_RESET_THRESHOLD_def COUNTER_MAX_def)
  with a show ?thesis by blast
qed

text \<open>
  The handler always ends in a reset that landed, whatever the backup registers and the gate do,
  as long as the reset request takes effect after some number of stores; and a panic inside the
  handler resets at once, with no counter and no gate touched on the way.
\<close>
theorem panic_always_resets:
  assumes "resets_land B taken"
  shows "\<exists>act s' k. panic_handler B G taken s = Some (act, s') \<and> taken (mc_hw (ps_machine s')) \<and>
     decode_depth (ps_depth_word s') = min (decode_depth (ps_depth_word s) + 1) COUNTER_MAX \<and>
     (0 < decode_depth (ps_depth_word s) \<longrightarrow> act = PanicReset \<and> ps_machine s' =
        (ps_machine s)\<lparr>mc_irq_masked := True, mc_hw := (reset_once B ^^ Suc k) (mc_hw (ps_machine s))\<rparr>)"
  by (rule handler_resets[OF assms])

theorem panic_always_resets_witness:
  "\<exists>s'. panic_handler sim_bus refusing_gate sc_reset
       \<lparr>ps_depth_word = encode_depth 1, ps_machine = \<lparr>mc_irq_masked = False, mc_hw = sample_chip_garbage\<rparr>\<rparr>
     = Some (PanicReset, s') \<and> sc_reset (mc_hw (ps_machine s'))"
  using panic_always_resets[OF sim_resets_land, of refusing_gate
      "\<lparr>ps_depth_word = encode_depth 1, ps_machine = \<lparr>mc_irq_masked = False, mc_hw = sample_chip_garbage\<rparr>\<rparr>"]
  by (auto simp: decode_encode_depth COUNTER_MAX_def)

section \<open>Firmware staging\<close>

text \<open>
  C24. Over any working staging RAM that holds the largest image, the stager answers every history
  of upgrade messages and raw bytes, whatever their order and however the bytes are cut, exactly as
  the collector that keeps the bytes received and judges them when they are complete: the same
  refusals, the same ready bytes owed, the same state. The four-byte carry, the write cursor and
  the read-back add and lose nothing.
\<close>
theorem stager_refines_collector:
  assumes "psram_ram P held ok" and "ok p" and "BURN_LEN_MAX \<le> length (held p)"
  shows "fst (history (stager_step H P) es (stager_new p)) = fst (history (co_step H) es collector_new) \<and>
    sg_state (snd (history (stager_step H P) es (stager_new p))) = co_state (snd (history (co_step H) es collector_new))"
  using psram_ram.history_simulates[OF assms(1) staging_new[where cells = held and ok = ok, OF assms(2,3)], of H es]
  by (auto simp: staging_def)

theorem stager_refines_collector_witness:
  "fst (history (stager_step sample_sum FakePsram)
     [Admit EnterUpgradeMode, Admit (PrepareUpgrade 262144 []), Admit (PrepareUpgrade2 262144 []),
      Admit EnterUpgradeMode, Feed [1, 2, 3], Feed (replicate 4094 0), Feed (replicate 262144 0), Feed [1]]
     (stager_new sample_ram))
   = [Inl OutOfOrder, Inl Legacy, Inr 0, Inr 0, Inr 0, Inr 1, Inl ExtraBytes, Inl OutOfOrder]"
proof -
  let ?es = "[Admit EnterUpgradeMode, Admit (PrepareUpgrade 262144 []), Admit (PrepareUpgrade2 262144 []),
      Admit EnterUpgradeMode, Feed [1, 2, 3], Feed (replicate 4094 0), Feed (replicate 262144 0), Feed [1]]"
  have abstract: "fst (history (co_step sample_sum) ?es collector_new)
      = [Inl OutOfOrder, Inl Legacy, Inr 0, Inr 0, Inr 0, Inr 1, Inl ExtraBytes, Inl OutOfOrder]"
    by (simp add: collector_new_def co_refuse_def co_feed_def psram_defs acks_at_def
        FIRMWARE_UPGRADE_CHUNK_LEN_def)
  have "fst (history (stager_step sample_sum FakePsram) ?es (stager_new sample_ram)) =
      fst (history (co_step sample_sum) ?es collector_new)"
    by (rule conjunct1[OF stager_refines_collector[OF fake.psram_ram_axioms]]) (simp_all add: sample_ram_ok)
  then show ?thesis by (simp only: abstract)
qed

text \<open>
  C25. Whatever the coordinator sends, the listener writes nothing but the handshake reply and ready
  bytes; and if it ends with an image staged, the bytes in PSRAM declare the length that was
  announced, their signed part has the announced digest, that length is the only one the burn gate
  accepts for them, and a burn of it ends at or below the flash region that holds the identity, the
  nonces and the share.
\<close>
theorem staged_image_spares_the_share:
  assumes "psram_ram P held ok" and "ok p" and "BURN_LEN_MAX \<le> length (held p)"
    and "run H frames inner P pkts p = (fin, ws, s')"
  shows "set ws \<subseteq> {MAGIC_REPLY, [FIRMWARE_NEXT_CHUNK_READY_SIGNAL]} \<and>
    (\<forall>sz. fin = OutStaged sz \<longrightarrow> (let img = take sz (held (sg_psram s')) in
       length img = sz \<and> declared_len img = sz \<and> H (signed_part img) = sg_expected s' \<and>
       (\<forall>n m. check_burn_len img n = Inr m \<longleftrightarrow> n = sz \<and> m = sz) \<and>
       BURN_BASE + sz \<le> FLASH_FS_BASE))"
proof (intro conjI allI impI)
  have c: "set ws \<subseteq> {MAGIC_REPLY, [FIRMWARE_NEXT_CHUNK_READY_SIGNAL]}" "reached H P (stager_new p) s'"
    "fin = OutStaged sz \<longleftrightarrow> sg_state s' = Staged sz" for sz
    using listen_contained[OF assms(4)[unfolded run_def]] by (auto simp: not_staged_def stager_new_def)
  show "set ws \<subseteq> {MAGIC_REPLY, [FIRMWARE_NEXT_CHUNK_READY_SIGNAL]}" by (rule c)
  obtain es k where k: "staging held ok H s' k"
    by (rule psram_ram.reached_staging[OF assms(1) c(2) assms(2,3)])
  fix sz
  assume "fin = OutStaged sz"
  then obtain img where "take sz (held (sg_psram s')) = img" "length img = sz" "admissible (length img)"
    "declared_len img = length img" "H (signed_part img) = sg_expected s'"
    using staged_image[OF k] c(3) by blast
  then show "let img = take sz (held (sg_psram s')) in
      length img = sz \<and> declared_len img = sz \<and> H (signed_part img) = sg_expected s' \<and>
      (\<forall>n m. check_burn_len img n = Inr m \<longleftrightarrow> n = sz \<and> m = sz) \<and> BURN_BASE + sz \<le> FLASH_FS_BASE"
    using burn_gate[of img] by (simp add: Let_def)
qed

text \<open>A wire that links, announces the sample image and sends it in one read.\<close>

definition sample_dec :: "bytes \<Rightarrow> (upgrade_message, unit) wire_body receive_serial decoded" where
  "sample_dec rx = (case rx of [] \<Rightarrow> More | b # _ \<Rightarrow>
     Got (RsMessage (WUpgrade (if b = 1 then PrepareUpgrade2 FW_MIN_BODY_LEN (sample_sum (signed_part sample_firmware))
                               else EnterUpgradeMode))) 1)"

definition sample_hello :: bytes where
  "sample_hello = MAGICBYTES_RECV_UPSTREAM @ [1, 2]"

lemma sample_hello_polled:
  "poll sample_dec sample_hello link_new = (Inr (), \<lparr>l_rx = [], l_magic_progress = 0, l_linked = True\<rparr>,
     [RsMessage (WUpgrade (PrepareUpgrade2 FW_MIN_BODY_LEN (sample_sum (signed_part sample_firmware)))),
      RsMessage (WUpgrade EnterUpgradeMode)])"
  by (simp add: poll_def link_new_def sample_hello_def scan_magic_def MAGICBYTES_RECV_UPSTREAM_def Let_def
      drain_link_def drain.simps[of sample_dec] sample_dec_def FRAME_LIMIT_def)

text \<open>
  C26. From any state of a stager over a working staging RAM, an announcement of an admissible size
  followed by that many bytes, cut into reads in any way with no empty read at the end, has one of
  two ends: if the bytes declare their own length and their signed part has the announced digest,
  the listener ends with exactly those bytes staged and one ready byte written per 4,096-byte chunk,
  the last short one included; otherwise the machine is left refused, with the reason, and at least
  one ready byte is never written.
\<close>
theorem transfer_is_staged_however_cut:
  assumes "psram_ram P held ok" and "ok (sg_psram s0)" and "length (sg_carry s0) = WRITE_ALIGN"
    and "BURN_LEN_MAX \<le> length (held (sg_psram s0))"
    and "admissible (length img)" and "concat ps = img" and "last ps \<noteq> []"
  shows "\<exists>s1 s2 s3 n. admit P (PrepareUpgrade2 (length img) d) s0 = (Inr (), s1) \<and>
    admit P EnterUpgradeMode s1 = (Inr (), s2) \<and>
    (case verdict_on H d img of
       Inr _ \<Rightarrow> listen H frames inner P ps s2 l = (OutStaged (length img), replicate n [FIRMWARE_NEXT_CHUNK_READY_SIGNAL], s3) \<and>
         n = (length img + 4095) div 4096 \<and> take (length img) (held (sg_psram s3)) = img
     | Inl why \<Rightarrow> listen H frames inner P ps s2 l = (OutClosed, replicate n [FIRMWARE_NEXT_CHUNK_READY_SIGNAL], s3) \<and>
         n < (length img + 4095) div 4096 \<and> sg_state s3 = Refused why)"
proof -
  let ?c = "\<lparr>co_state = Streaming (length img) 0, co_expected = d, co_body = []\<rparr>"
  obtain s1 s2 where s: "admit P (PrepareUpgrade2 (length img) d) s0 = (Inr (), s1)"
      "admit P EnterUpgradeMode s1 = (Inr (), s2)" "staging held ok H s2 ?c"
    using psram_ram.announced_transfer[OF assms(1,2) _ assms(4,5)] assms(3) by (metis WRITE_ALIGN_def)
  have acks: "acks_at (length img) (length img) = (length img + 4095) div 4096" "acks_at (length img) 0 = 0"
    by (auto simp: acks_at_def FIRMWARE_UPGRADE_CHUNK_LEN_def)
  from psram_ram.transfer_ends[OF assms(1) s(3), of "length img" ps img frames inner l] assms(6,7)
  show ?thesis using s(1,2) by (auto simp: acks split: sum.splits)
qed

lemma sample_verdict:
  "verdict_on sample_sum (sample_sum (signed_part sample_firmware)) sample_firmware = Inr ()"
  by (simp add: verdict_on_def sample_firmware_ok)

lemma sample_ready: "(FW_MIN_BODY_LEN + 4095) div 4096 = 64"
  by (simp add: FW_MIN_BODY_LEN_def)

lemma sample_new:
  "fake_sound (sg_psram (stager_new sample_ram))" "length (sg_carry (stager_new sample_ram)) = WRITE_ALIGN"
  "BURN_LEN_MAX \<le> length (fp_cells (sg_psram (stager_new sample_ram)))"
  by (simp_all add: stager_new_def sample_ram_ok)

lemma sample_cut: "last [take 10 sample_firmware, [], drop 10 sample_firmware] \<noteq> []"
  using sample_firmware_ok(1) by (simp add: FW_MIN_BODY_LEN_def)

theorem transfer_is_staged_however_cut_witness:
  "\<exists>s1 s2 s3. admit FakePsram (PrepareUpgrade2 FW_MIN_BODY_LEN (sample_sum (signed_part sample_firmware)))
       (stager_new sample_ram) = (Inr (), s1) \<and>
     admit FakePsram EnterUpgradeMode s1 = (Inr (), s2) \<and>
     listen sample_sum sample_dec (\<lambda>_. Inl OtherFault) FakePsram
       [take 10 sample_firmware, [], drop 10 sample_firmware] s2 link_new =
       (OutStaged FW_MIN_BODY_LEN, replicate 64 [FIRMWARE_NEXT_CHUNK_READY_SIGNAL], s3)"
proof -
  have cut: "concat [take 10 sample_firmware, [], drop 10 sample_firmware] = sample_firmware" by simp
  show ?thesis
    using transfer_is_staged_however_cut[OF fake.psram_ram_axioms sample_new _ cut sample_cut,
        where d = "sample_sum (signed_part sample_firmware)" and H = sample_sum and frames = sample_dec
          and inner = "\<lambda>_. Inl OtherFault" and l = link_new]
    unfolding sample_verdict sample_firmware_ok(1) sample_ready sum.case using sample_firmware_ok(2) by blast
qed

lemma sample_run:
  "\<exists>ws s'. run sample_sum sample_dec (\<lambda>_. Inl OtherFault) FakePsram [sample_hello, sample_firmware] sample_ram =
     (OutStaged FW_MIN_BODY_LEN, ws, s')"
proof -
  let ?d = "sample_sum (signed_part sample_firmware)"
  let ?c = "\<lparr>co_state = Streaming FW_MIN_BODY_LEN 0, co_expected = ?d, co_body = []\<rparr>"
  obtain s1 s2 where s: "admit FakePsram (PrepareUpgrade2 FW_MIN_BODY_LEN ?d) (stager_new sample_ram) = (Inr (), s1)"
      "admit FakePsram EnterUpgradeMode s1 = (Inr (), s2)" "staging fp_cells fake_sound sample_sum s2 ?c"
    using fake.announced_transfer[OF sample_new(1) _ sample_new(3) sample_firmware_ok(2)] sample_new(2)
    by (metis WRITE_ALIGN_def)
  let ?l = "\<lparr>l_rx = [], l_magic_progress = 0, l_linked = True\<rparr>"
  have "last [sample_firmware] \<noteq> []" using sample_firmware_ok(1) by (auto simp: FW_MIN_BODY_LEN_def)
  then obtain s3 n where l: "listen sample_sum sample_dec (\<lambda>_. Inl OtherFault) FakePsram [sample_firmware] s2 ?l =
      (OutStaged FW_MIN_BODY_LEN, replicate n [FIRMWARE_NEXT_CHUNK_READY_SIGNAL], s3)"
    using fake.transfer_ends[OF s(3), of FW_MIN_BODY_LEN "[sample_firmware]" sample_firmware sample_dec
        "\<lambda>_. Inl OtherFault" ?l]
    by (auto simp: sample_verdict sample_firmware_ok simp del: listen.simps)
  have "\<not> is_streaming (stager_new sample_ram)" by (simp add: is_streaming_def stager_new_def)
  then have "run sample_sum sample_dec (\<lambda>_. Inl OtherFault) FakePsram [sample_hello, sample_firmware] sample_ram =
      (OutStaged FW_MIN_BODY_LEN, replicate n [FIRMWARE_NEXT_CHUNK_READY_SIGNAL], s3)"
    unfolding run_def listen.simps(2)[of _ _ _ _ sample_hello] sample_hello_polled
    by (simp add: decode_body_def s(1,2) l del: listen.simps admit.simps)
  then show ?thesis by blast
qed

theorem staged_image_spares_the_share_witness:
  "\<exists>ws s'. run sample_sum sample_dec (\<lambda>_. Inl OtherFault) FakePsram [sample_hello, sample_firmware] sample_ram =
       (OutStaged FW_MIN_BODY_LEN, ws, s') \<and>
     set ws \<subseteq> {MAGIC_REPLY, [FIRMWARE_NEXT_CHUNK_READY_SIGNAL]} \<and>
     declared_len (take FW_MIN_BODY_LEN (fp_cells (sg_psram s'))) = FW_MIN_BODY_LEN"
proof -
  obtain ws s' where r: "run sample_sum sample_dec (\<lambda>_. Inl OtherFault) FakePsram [sample_hello, sample_firmware] sample_ram =
      (OutStaged FW_MIN_BODY_LEN, ws, s')"
    using sample_run by blast
  from staged_image_spares_the_share[OF fake.psram_ram_axioms sample_ram_ok(1) _ r] r show ?thesis
    by (simp add: sample_ram_ok Let_def)
qed

text \<open>
  On working RAM the self-test of a whole word-aligned span passes and leaves the address pattern
  in the span and every other byte as it was; a span that is empty, misaligned or past the staging
  window is refused with the memory untouched; and over the double with the same capacity, one cell
  that flips a bit anywhere in the span is named by its offset.
\<close>
theorem selftest_names_the_faulty_cell:
  assumes "psram_ram P held ok" and "ok p" and "4 dvd offset" and "4 dvd len" and "0 < len"
    and "offset + len \<le> length (held p)"
  shows "(\<exists>p'. readback_selftest P offset len p = (Inr (), p') \<and>
       held p' = patch (held p) offset (pattern offset len)) \<and>
    (\<forall>off n. n = 0 \<or> \<not> 4 dvd off \<or> \<not> 4 dvd n \<or> PSRAM_STAGE_LEN < off + n \<longrightarrow>
       (\<exists>e. readback_selftest P off n p = (Inl e, p))) \<and>
    (\<forall>f c. length (fp_cells f) = length (held p) \<and> offset \<le> c \<and> c < offset + len \<longrightarrow>
       (\<exists>f'. readback_selftest FakePsram offset len (corrupt_writes_at c f) = (Inl (PsMismatch c), f')))"
proof (intro conjI allI impI)
  show "\<exists>p'. readback_selftest P offset len p = (Inr (), p') \<and> held p' = patch (held p) offset (pattern offset len)"
    using psram_ram.selftest_ok[OF assms(1-6)] by blast
next
  fix off n
  assume "n = 0 \<or> \<not> 4 dvd off \<or> \<not> 4 dvd n \<or> PSRAM_STAGE_LEN < off + n"
  then show "\<exists>e. readback_selftest P off n p = (Inl e, p)" by (rule selftest_refuses)
next
  fix f :: fake_psram and c
  assume "length (fp_cells f) = length (held p) \<and> offset \<le> c \<and> c < offset + len"
  then show "\<exists>f'. readback_selftest FakePsram offset len (corrupt_writes_at c f) = (Inl (PsMismatch c), f')"
    using faulty_selftest assms psram_ram.capacity[OF assms(1,2)] by simp
qed

theorem selftest_names_the_faulty_cell_witness:
  "\<exists>f'. readback_selftest FakePsram 64 128 (corrupt_writes_at 100 sample_ram) = (Inl (PsMismatch 100), f')"
proof -
  have "64 + 128 \<le> length (fp_cells sample_ram)" by (simp add: sample_ram_ok) (simp add: psram_defs)
  from selftest_names_the_faulty_cell[OF fake.psram_ram_axioms sample_ram_ok(1) _ _ _ this] show ?thesis
    by simp
qed

section \<open>Backups on paper\<close>

text \<open>
  Looking words up is what it says it is: the block of words for a prefix is the list filtered by
  it, the letters offered after it are, in alphabetical order, exactly those some word of the list
  has there, and a word is found at an index exactly when it is the word at that index.
\<close>
theorem lookups_are_the_filters:
  "words_with_prefix BIP39_WORDS p = filter (\<lambda>w. starts_with w p) BIP39_WORDS \<and>
   iter_valid (get_valid_next_letters BIP39_WORDS p) =
     filter (\<lambda>c. \<exists>w \<in> set BIP39_WORDS. starts_with w (p @ [c])) alphabet \<and>
   (word_to_index BIP39_WORDS p = Some i \<longleftrightarrow> i < 2048 \<and> BIP39_WORDS ! i = p)"
  by (intro conjI bip39.prefix_block bip39.next_letters bip39.index_iff)

text \<open>
  C27. Twenty-five words carry a share: the words written for any well-formed share are words of the
  list, and reading them back with the share's index gives the share, its polynomial checksum
  included.
\<close>
theorem words_of_a_share_read_back:
  assumes "share_wf b"
  shows "\<exists>ws. to_words H BIP39_WORDS b = Some ws \<and> length ws = NUM_WORDS \<and> set ws \<subseteq> set BIP39_WORDS \<and>
    from_words H BIP39_WORDS (sb_index b) ws = Inr b"
  using words_read_back[OF assms bip39.indexed] by (simp add: NUM_WORDS_def)

definition sample_backup :: share_backup where
  "sample_backup = \<lparr>sb_index = 3, sb_share = replicate 30 0 @ [1, 2], sb_poly_checksum = 0xA5\<rparr>"

lemma of_be_zeros: "of_be (replicate n 0) = 0"
  by (induction n) simp_all

lemma sample_backup_wf: "share_wf sample_backup"
  by (simp add: share_wf_def sample_backup_def order_value u32_lim_def of_be_append of_be_zeros)

theorem words_of_a_share_read_back_witness:
  "\<exists>ws. to_words id BIP39_WORDS sample_backup = Some ws \<and> from_words id BIP39_WORDS 3 ws = Inr sample_backup"
  using words_of_a_share_read_back[OF sample_backup_wf, of id] by (auto simp: sample_backup_def)

section \<open>Typing a backup in\<close>

text \<open>
  C28. The entry machine keeps its type: from a fresh machine, whatever keys are pressed, each is
  answered without a panic, and the machine it leaves is well formed -- twenty-five slots of words of
  the list, a cursor among them, an index that fits, a prefix some word of the list starts with, the
  letters that can follow it, and a page that exists.
\<close>
theorem entry_keeps_its_type:
  "\<exists>st e. entry_keys H BIP39_WORDS ks (entry_new BIP39_WORDS physical_id) = Some (st, e) \<and>
    entry_wf BIP39_WORDS e \<and> st \<noteq> StepRedraw"
  by (rule bip39.keys_wf[OF bip39.new_wf])

text \<open>
  C29. What can be entered is exactly what checks: a backup can be reached by pressing keys from a
  fresh machine if and only if some index and twenty-five words read back as it. So every backup of a
  share can be typed in, and nothing else ever comes out.
\<close>
theorem exactly_the_valid_backups_are_entered:
  "(\<exists>ks e. entry_keys H BIP39_WORDS ks (entry_new BIP39_WORDS physical_id) = Some (StepEntered b, e)) \<longleftrightarrow>
   (\<exists>ws index. length ws = BACKUP_WORDS \<and> index < u32_lim \<and> from_words H BIP39_WORDS index ws = Inr b)"
  by (rule bip39.enters_exactly)

text \<open>
  C30. Deleting always walks out: from any machine that keys can lead to, at most 237 presses of the
  delete key abort the entry.
\<close>
theorem deleting_walks_out:
  assumes "entry_keys H BIP39_WORDS ks (entry_new BIP39_WORDS physical_id) = Some (StepUnchanged, e)"
  shows "\<exists>n \<le> 237. \<exists>e'. entry_keys H BIP39_WORDS (replicate n ENTRY_DELETE_KEY) e = Some (StepAbort, e')"
  by (rule bip39.delete_out) (use assms bip39.keys_wf[OF bip39.new_wf, of H ks physical_id] in auto)

theorem deleting_walks_out_witness:
  "\<exists>n \<le> 237. \<exists>e. entry_keys id BIP39_WORDS (replicate n ENTRY_DELETE_KEY) (entry_new BIP39_WORDS []) = Some (StepAbort, e)"
  using deleting_walks_out[of id "[]" "[]" "entry_new BIP39_WORDS []"] by simp

text \<open>
  The screen and the pad agree: in the word stage of any reachable machine, the letter a key
  types is the letter the screen draws beside it, and a letter typed always continues some word of
  the list.
\<close>
theorem screen_and_pad_agree:
  assumes "entry_keys H BIP39_WORDS ks (entry_new BIP39_WORDS physical_id) = Some (StepUnchanged, e)"
    and "en_stage e = StageWord"
  shows "letter_for_key (word_entry BIP39_WORDS e) key = entry_slot e key \<and>
    (\<forall>c. entry_slot e key = Some c \<longrightarrow> (\<exists>w \<in> set BIP39_WORDS. starts_with w (en_prefix e @ [c])))"
proof -
  have "entry_wf BIP39_WORDS e" using assms(1) bip39.keys_wf[OF bip39.new_wf, of H ks physical_id] by auto
  then show ?thesis using bip39.drawn_letter[OF _ assms(2)] bip39.slot_letter by blast
qed

section \<open>Checking a backup\<close>

text \<open>
  Passing the check means having answered: if a session with a quiz drawn for a backup passes,
  then eight distinct positions, the last word's among them, were each answered with the word the
  backup has there, whatever the random source and whatever else was pressed.
\<close>
theorem passing_takes_eight_right_words:
  assumes "length ws = QUIZ_WORDS"
    and "quiz_new N BIP39_WORDS ws r = (Some q, r1)"
    and "quiz_keys N BIP39_WORDS ks q r1 = ((QuizPassed, q'), answers)"
  shows "\<exists>order. length order = QUIZ_POSITIONS \<and> distinct order \<and> LAST_POSITION \<in> set order \<and>
    (\<forall>p \<in> set order. p < QUIZ_WORDS \<and> (p, ws ! p) \<in> set answers)"
  by (rule bip39.passed_order[OF assms])

text \<open>
  The check can always be passed and only the cancel key leaves it: for a backup of words of the
  list that are not all the same word a quiz is drawn, eight keys pass it, and at every question the
  one key that aborts is the cancel key.
\<close>
theorem check_can_be_passed:
  assumes "length ws = QUIZ_WORDS" "set ws \<subseteq> set BIP39_WORDS" "u \<in> set ws" "v \<in> set ws" "u \<noteq> v"
  shows "\<exists>q r1. quiz_new N BIP39_WORDS ws r = (Some q, r1) \<and>
    (\<exists>ks. length ks = QUIZ_POSITIONS \<and> fst (fst (quiz_keys N BIP39_WORDS ks q r1)) = QuizPassed) \<and>
    (\<forall>key. fst (fst (quiz_key N BIP39_WORDS key q r1)) = QuizAbort \<longleftrightarrow> key = QUIZ_CANCEL)"
proof -
  obtain oq r1 where n: "quiz_new N BIP39_WORDS ws r = (oq, r1)" by fastforce
  then obtain q where q: "oq = Some q" "quiz_wf BIP39_WORDS q" "qz_asked q = 0"
    using bip39.new_spec[OF assms(1), of N r] assms by (auto split: option.splits)
  have "qz_asked q < QUIZ_POSITIONS" by (simp add: q(3) quiz_consts)
  then show ?thesis using n q(1,3) bip39.pass_keys[OF q(2) _ refl, of N r1] bip39.abort_key[OF q(2), of N _ r1] by auto
qed

definition sample_words :: words where
  "sample_words = ''ABILITY'' # replicate 24 ''ABANDON''"

lemma sample_words_ok:
  "length sample_words = QUIZ_WORDS" "set sample_words \<subseteq> set BIP39_WORDS" "''ABILITY'' \<in> set sample_words"
  "''ABANDON'' \<in> set sample_words" "sample_words ! 24 = ''ABANDON''"
  using first_words by (simp_all add: sample_words_def quiz_consts)

lemma sample_quiz_passes:
  "\<exists>q r1 ks q' answers. quiz_new (\<lambda>n. (word_of_nat n, Suc n)) BIP39_WORDS sample_words 0 = (Some q, r1) \<and>
    quiz_keys (\<lambda>n. (word_of_nat n, Suc n)) BIP39_WORDS ks q r1 = ((QuizPassed, q'), answers)"
proof -
  obtain oq r1 where n: "quiz_new (\<lambda>n. (word_of_nat n, Suc n)) BIP39_WORDS sample_words 0 = (oq, r1)" by fastforce
  then obtain q where q: "oq = Some q" "quiz_wf BIP39_WORDS q" "qz_asked q = 0"
    using bip39.new_spec[OF sample_words_ok(1), of "\<lambda>n. (word_of_nat n, Suc n)" 0] sample_words_ok(2,3,4)
    by (auto split: option.splits)
  have "qz_asked q < QUIZ_POSITIONS" by (simp add: q(3) quiz_consts)
  then obtain ks where "fst (fst (quiz_keys (\<lambda>n. (word_of_nat n, Suc n)) BIP39_WORDS ks q r1)) = QuizPassed"
    using bip39.pass_keys[OF q(2) _ refl, of "\<lambda>n. (word_of_nat n, Suc n)" r1] by blast
  then have "quiz_keys (\<lambda>n. (word_of_nat n, Suc n)) BIP39_WORDS ks q r1 =
      ((QuizPassed, snd (fst (quiz_keys (\<lambda>n. (word_of_nat n, Suc n)) BIP39_WORDS ks q r1))),
       snd (quiz_keys (\<lambda>n. (word_of_nat n, Suc n)) BIP39_WORDS ks q r1))"
    by (simp add: prod_eq_iff)
  then show ?thesis using n unfolding q(1) by blast
qed

theorem passing_takes_eight_right_words_witness:
  "\<exists>ks q' answers. (24, ''ABANDON'') \<in> set answers \<and>
    (\<exists>q r1. quiz_new (\<lambda>n. (word_of_nat n, Suc n)) BIP39_WORDS sample_words 0 = (Some q, r1) \<and>
      quiz_keys (\<lambda>n. (word_of_nat n, Suc n)) BIP39_WORDS ks q r1 = ((QuizPassed, q'), answers))"
proof -
  obtain q r1 ks q' answers where run:
    "quiz_new (\<lambda>n. (word_of_nat n, Suc n)) BIP39_WORDS sample_words 0 = (Some q, r1)"
    "quiz_keys (\<lambda>n. (word_of_nat n, Suc n)) BIP39_WORDS ks q r1 = ((QuizPassed, q'), answers)"
    using sample_quiz_passes by blast
  have "(24, ''ABANDON'') \<in> set answers"
    using passing_takes_eight_right_words[OF sample_words_ok(1) run] sample_words_ok(5)
    by (auto simp: LAST_POSITION_def QUIZ_WORDS_def)
  then show ?thesis using run by blast
qed

theorem check_can_be_passed_witness:
  "\<exists>q r1. quiz_new (\<lambda>n. (word_of_nat n, Suc n)) BIP39_WORDS sample_words (0 :: nat) = (Some q, r1) \<and>
    fst (fst (quiz_key (\<lambda>n. (word_of_nat n, Suc n)) BIP39_WORDS 120 q r1)) = QuizAbort"
  using check_can_be_passed[OF sample_words_ok(1,2,3,4), of "\<lambda>n. (word_of_nat n, Suc n)" "0 :: nat"]
  by (auto simp: QUIZ_CANCEL_def)

section \<open>What the glass shows\<close>

text \<open>
  C31. Whatever request the device agreed to page, every recipient has a page that shows the whole
  amount, in decimal and followed by a blank, and a page that shows the address to its last
  character; the fee has a page of its own.
\<close>

theorem signing_pages_show_everything:
  assumes "sign_pages_new recipients fee = Inr p" "\<forall>r \<in> set recipients. rc_sats r < 2 ^ 64" "fee < 2 ^ 64"
    "k < length recipients"
  shows "(case sign_render (confirming c p) (2 * k) f of (drawn, g) \<Rightarrow> drawn \<and> shows_number g 3 (rc_sats (recipients ! k))) \<and>
    (case sign_render (confirming c p) (2 * k + 1) f of (drawn, g) \<Rightarrow> drawn \<and> shows_address g 2 (rc_address (recipients ! k))) \<and>
    (case sign_render (confirming c p) (sign_len p - 2) f of (drawn, g) \<Rightarrow> drawn \<and> shows_number g 1 fee)"
proof -
  have p: "pg_recipients p = recipients" "pg_fee p = fee" "\<forall>r \<in> set recipients. check_address (rc_address r) = Inr ()"
    using assms(1) by (auto simp: sign_pages_new_ok)
  have l: "sign_len (confirming c p) = sign_len p"
    by (simp add: confirming_def sign_len_def recipient_pages_def high_fee_def sent_sats_def)
  show ?thesis
    using signing_shows(1,2)[of "confirming c p" k f] signing_shows(3)[of "confirming c p" f] assms(2-4) p l
    by (simp add: confirming_def)
qed

text \<open>
  The page that asks for the digit is the last one and no other: every page of an admitted request
  is drawn and nothing beyond, each before the last ends in its number and the paging key, and only the
  last shows the digit drawn for it, which is never a paging key.
\<close>

theorem only_the_last_page_asks:
  assumes "sign_pages_new recipients fee = Inr p" "draw_confirm N r = (c, r')"
  shows "c \<noteq> NEXT_KEY \<and> c \<noteq> BACK_KEY \<and> (fst (sign_render (confirming c p) i f) \<longleftrightarrow> i < sign_len p) \<and>
    (i < sign_len p \<longrightarrow>
      (let g = snd (sign_render (confirming c p) i f) in
       if i + 1 = sign_len p then shows_text g 0 FOOTER_ROW (str ''Press ('' @ [c] @ str '') x=no'')
       else \<exists>ds es. decimal ds = i + 1 \<and> decimal es = sign_len p \<and>
         shows_text g 0 FOOTER_ROW (str ''pg '' @ ds @ str ''/'' @ es @ str '' (9)next'')))"
proof -
  let ?p = "confirming c p"
  have p: "pg_recipients ?p = recipients" "\<forall>r \<in> set (pg_recipients ?p). check_address (rc_address r) = Inr ()"
    "length (pg_recipients ?p) \<le> MAX_RECIPIENTS" "pg_confirm ?p = Some c"
    using assms(1) by (auto simp: sign_pages_new_ok confirming_def)
  have l: "sign_len ?p = sign_len p"
    by (simp add: confirming_def sign_len_def recipient_pages_def high_fee_def sent_sats_def)
  obtain v where c0: "c = CONFIRM_CHARSET ! (unat (v :: u32) mod length CONFIRM_CHARSET)"
    using assms(2) by (auto simp: draw_confirm_def split: prod.splits)
  have c: "c \<in> set CONFIRM_CHARSET" unfolding c0 by (intro nth_mem) (simp add: CONFIRM_CHARSET_def)
  then have keys: "c \<noteq> NEXT_KEY" "c \<noteq> BACK_KEY"
    by (auto simp: CONFIRM_CHARSET_def str_def NEXT_KEY_def BACK_KEY_def)
  have drawn: "fst (sign_render ?p i f) \<longleftrightarrow> i < sign_len ?p" by (rule sign_render_draws(1)[OF p(2)])
  show ?thesis
  proof (cases "i < sign_len ?p")
    case True
    then obtain page where page: "sign_page ?p i = Some page" using sign_page_Some[of ?p i] by blast
    then obtain g where "length g = FRAME_BYTES" "sign_render ?p i f = (True, footer ?p i g)"
      using sign_render_draws(2)[OF p(2)] by blast
    then show ?thesis using footer_shows[OF _ sign_len_small[OF p(3)] True p(4) c, of g] keys drawn l
      by (cases "i + 1 = sign_len p") (simp_all add: Let_def)
  qed (use keys drawn l in simp)
qed

text \<open>
  C32. A backup the device agreed to show has eight pages, the first with the share's index, and each of
  the twenty-five words stands on its page under its number, in full and with nothing after it up to the
  cells the row's noise may reach, whatever the noise is.
\<close>

theorem backup_pages_show_every_word:
  assumes "backup_pages_new share ws = Inr p" "i < length ws"
  shows "backup_len p = 8 \<and>
    (case backup_render N p (1 + i div 4) f r of (drawn, g, r') \<Rightarrow>
      drawn \<and> shows_text g 0 (2 + i mod 4) ([48 + (i + 1) div 10, 48 + (i + 1) mod 10] @ str '': '' @ ws ! i) \<and>
      (\<forall>x. 4 + length (ws ! i) \<le> x \<and> x < 12 \<longrightarrow> frame_cell x (2 + i mod 4) g = Some (32, False)))"
proof -
  have l: "length ws = SHOWN_WORDS" "length (bk_words p) = SHOWN_WORDS" using assms(1) by (auto simp: backup_pages_new_ok)
  then show ?thesis using backup_words_show[OF assms(1), of i N f r] backup_page_words(2)[OF l(2), of i] assms(2)
    by (auto simp: word_row_shows_def)
qed

definition sample_recipient :: recipient where
  "sample_recipient = \<lparr>rc_address = str ''bc1qw508d6qejxtdg4y5r3zarvary0c5xw7kv8f3t4'', rc_sats = 123456789\<rparr>"

lemma sample_pages: "sign_pages_new [sample_recipient] 200 =
    Inr \<lparr>pg_recipients = [sample_recipient], pg_fee = 200, pg_confirm = None\<rparr>"
  by (simp add: sign_pages_new_def sample_recipient_def check_address_def is_ascii_graphic_def str_def
      MAX_RECIPIENTS_def ADDRESS_ROWS_def glass_defs)

theorem signing_pages_show_everything_witness:
  "case sign_render (confirming 49 \<lparr>pg_recipients = [sample_recipient], pg_fee = 200, pg_confirm = None\<rparr>) 0 frame_new of
     (drawn, g) \<Rightarrow> drawn \<and> shows_number g 3 123456789"
  using signing_pages_show_everything[OF sample_pages, of 0 49 frame_new] by (simp add: sample_recipient_def)

theorem only_the_last_page_asks_witness:
  "shows_text (snd (sign_render (confirming 51 \<lparr>pg_recipients = [sample_recipient], pg_fee = 200, pg_confirm = None\<rparr>) 3 frame_new))
     0 FOOTER_ROW (str ''Press ('' @ [51] @ str '') x=no'')"
proof -
  have d: "draw_confirm (\<lambda>n. (word_of_nat n, Suc n)) 2 = (51, 3)"
    by (simp add: draw_confirm_def CONFIRM_CHARSET_def str_def)
  have l: "sign_len \<lparr>pg_recipients = [sample_recipient], pg_fee = 200, pg_confirm = None\<rparr> = 4"
    by (simp add: sign_len_def recipient_pages_def high_fee_def sent_sats_def sample_recipient_def HIGH_FEE_SATS_def HIGH_FEE_PERCENT_def)
  show ?thesis using only_the_last_page_asks[OF sample_pages d, of 3 frame_new] by (simp add: l)
qed

theorem backup_pages_show_every_word_witness:
  "\<exists>g r'. backup_render (\<lambda>n. (word_of_nat n, Suc n)) \<lparr>bk_share_index = 1, bk_words = replicate 25 (str ''ABANDON'')\<rparr>
      7 frame_new (0 :: nat) = (True, g, r') \<and> shows_text g 0 2 (str ''25: ABANDON'')"
proof -
  have "backup_pages_new 1 (replicate 25 (str ''ABANDON'')) = Inr \<lparr>bk_share_index = 1, bk_words = replicate 25 (str ''ABANDON'')\<rparr>"
    by (simp add: backup_pages_new_ok SHOWN_WORDS_def check_word_def check_letters_def SHOWN_WORD_LEN_def str_def)
  from backup_pages_show_every_word[OF this, of 24 "\<lambda>n. (word_of_nat n, Suc n)" frame_new "0 :: nat"]
  show ?thesis by (auto simp: str_def split: prod.splits)
qed

section \<open>The session\<close>

text \<open>
  C4. Consent is to what was shown. Whatever digit and frame the screen was drawn with, a confirmation
  of that page does something only if the screen asked: it shows the digit in its last row, of a
  transaction it is the last of the pages, and then the request is carried out. A confirmation of
  any other page changes neither the session nor what is sent.
\<close>

theorem consent_is_what_was_shown:
  assumes "prompt_screen_at (dp_ask D) prompt c page f = (shown, g)" "c \<in> set CONFIRM_CHARSET"
    "confirm_at D prompt page S r ob = (res, S', r', ob')"
  shows "if shown = Inr (ShownPage True)
    then shows_text g 0 FOOTER_ROW (str ''Press ('' @ [c] @ str '') x=no'') \<and>
      (\<forall>ph tx. prompt = SignatureRequest ph \<longrightarrow> s1_sign_task ph = BitcoinTask tx \<longrightarrow>
        (\<exists>recipients fee pages. dp_ask D tx = Some (recipients, fee) \<and> sign_pages_new recipients fee = Inr pages \<and>
          page + 1 = sign_len pages)) \<and>
      (\<exists>r1. (res, S', r', ob') = carry_out D prompt S r1 ob)
    else S' = S \<and> ob' = ob \<and> (\<exists>e. res = Inl e)"
proof -
  obtain d r1 where d: "draw_confirm (dp_rng D) r = (d, r1)" by fastforce
  have says: "fst (prompt_screen_at (dp_ask D) prompt d page frame_new) = shown"
    using prompt_screen_says[OF drawn_digit[OF d] assms(2), of "dp_ask D" prompt page frame_new f] assms(1) by simp
  show ?thesis
  proof (cases "shown = Inr (ShownPage True)")
    case True
    then have "(res, S', r', ob') = carry_out D prompt S r1 ob" using assms(3) says d by (simp add: confirm_at_def)
    then show ?thesis using True prompt_asks[of "dp_ask D" prompt c page f g] assms(1,2) unfolding asks_with_def by auto
  next
    case False
    then show ?thesis using assms(3) says d
      by (auto simp: confirm_at_def split: sum.splits shown.splits bool.splits)
  qed
qed

text \<open>
  C7. A backup is reported as recorded only after its pages: before every report the owner agreed to
  show a backup, each of its eight pages was drawn since, and in between nothing was cancelled,
  reported or shown anew. So one consent is one report, and a page that was never drawn holds it back.
\<close>

theorem backup_is_recorded_after_every_page:
  assumes "session_runs D w (pre @ Recorded # post) w'"
    "ss_reveal (wd_session w) = None" "\<not> ss_record_pending (wd_session w)"
  shows "\<exists>ph before between. pre = before @ Revealed ph # between \<and>
    (\<forall>page < 8. PageDrawn page \<in> set between) \<and>
    (\<forall>e \<in> set between. e \<noteq> Cancelled \<and> e \<noteq> Recorded \<and> (\<forall>p. e \<noteq> Revealed p))"
proof -
  have "showing_ok [] (wd_session w)" using assms(2,3) by (simp add: showing_ok_def)
  from recorded_after_all_pages[OF assms(1) this] obtain ph a mid where
    "pre = a @ Revealed ph # mid" "\<forall>e \<in> set mid. unfinished e" "\<forall>page < 8. PageDrawn page \<in> set mid"
    by (auto simp: revealed_since_def)
  then show ?thesis by (intro exI[of _ ph] exI[of _ a] exI[of _ mid]) (simp add: unfinished_def)
qed

text \<open>
  C8. A backup is reported as checked only after its words: before every report the owner agreed to
  check that very share, and since then, with nothing cancelled or reported and no other check begun,
  eight different positions, the last among them, were answered with the word the share has there.
\<close>

theorem backup_is_checked_after_eight_words:
  assumes "session_runs D w (pre @ CheckReported ref i log # post) w'" "ss_check (wd_session w) = None" "decrypts_shares D"
  shows "\<exists>before ws between order. pre = before @ QuizBegun ref i ws # between \<and>
    (\<forall>e \<in> set between. e \<noteq> Cancelled \<and> (\<forall>a b c. e \<noteq> CheckReported a b c) \<and> (\<forall>a b c. e \<noteq> QuizBegun a b c)) \<and>
    length order = QUIZ_POSITIONS \<and> distinct order \<and> LAST_POSITION \<in> set order \<and>
    (\<forall>p \<in> set order. p < QUIZ_WORDS \<and> (p, ws ! p) \<in> answers_in (between @ [CheckReported ref i log]))"
proof -
  have "checking_ok [] (wd_session w)" using assms(2) by (rule checking_ok_none)
  from checked_after_eight_words[OF assms(1) this assms(3)] obtain a ws mid order where
    "pre = a @ QuizBegun ref i ws # mid" "\<forall>e \<in> set mid. still_checking e"
    "length order = QUIZ_POSITIONS" "distinct order" "LAST_POSITION \<in> set order"
    "\<forall>p \<in> set order. p < QUIZ_WORDS \<and> (p, ws ! p) \<in> answers_in (mid @ [CheckReported ref i log])" by blast
  then show ?thesis by (intro exI[of _ a] exI[of _ ws] exI[of _ mid] exI[of _ order]) (simp add: still_checking_def)
qed

text \<open>
  C35. Both reports can be reached by the owner alone. If the device can decrypt the share, whatever the
  state of the session and the random source, consent and nine presses record it; and unless all its
  words are the same, consent and eight right answers check it. Each sends its one message.
\<close>

theorem backups_can_be_recorded_and_checked:
  assumes "c \<in> set CONFIRM_CHARSET" "dp_decrypt D (ss_secrets (wd_session w)) ph = Inr b" "share_wf b"
    "bd_share_index ph < u32_lim" "to_words (dp_hash D) BIP39_WORDS b = Some ws" "u \<in> set ws" "v \<in> set ws" "u \<noteq> v"
    "fits_frame (dp_encode D) BackupRecorded"
    "fits_frame (dp_encode D) (BackupChecked (bd_access_structure_ref ph) (bd_share_index ph))"
    "fst (prompt_screen_at (dp_ask D) (UserRestoration (DisplayBackup key ph)) c 0 f) = Inr (ShownPage True)"
    "fst (prompt_screen_at (dp_ask D) (UserRestoration (CheckBackup key ph)) c 0 f) = Inr (ShownPage True)"
  shows "(\<exists>w'. session_runs D w (Revealed ph # map PageDrawn [0 ..< 8] @ [Quiet, Recorded]) w' \<and>
      appended (dp_encode D) [BackupRecorded] (wd_outbox w) (wd_outbox w')) \<and>
    (\<exists>es log w'. session_runs D w (QuizBegun (bd_access_structure_ref ph) (bd_share_index ph) ws # es @
        [CheckReported (bd_access_structure_ref ph) (bd_share_index ph) log]) w' \<and> length es < QUIZ_POSITIONS \<and>
      appended (dp_encode D) [BackupChecked (bd_access_structure_ref ph) (bd_share_index ph)] (wd_outbox w) (wd_outbox w'))"
  using backup_is_recorded[OF assms(11,1,2,3,4,9)] backup_is_checked[OF assms(12,1,2,3,5,6,7,8,10)] by blast

text \<open>
  C9. Nothing is said before it is kept. A run of the signer's answers first saves what the signer
  staged; if that fails nothing is sent and the failure is the answer. Otherwise the messages leave in
  order, whole frames only, one nonce segment each and the approved name with the key it came with:
  all of them if the run succeeds, and then the prompts are handed up in order, or a proper prefix.
\<close>

theorem answers_follow_the_store:
  assumes "session_run D sends S ob = (res, S', ob')"
    "persist_staged (dp_flash D) (dp_hash D) (dp_cenc D) (ss_shares S) (dp_staged D (ss_signer S)) (ss_flash S) = (stored, staged, f)"
  shows "case stored of
      Inl e \<Rightarrow> res = Inl (FaultStore e) \<and> ob' = ob \<and> ss_flash S' = f
    | Inr _ \<Rightarrow> \<exists>n \<le> length (replies D (ss_secrets S) (ss_pending_name S) sends).
        appended (dp_encode D) (take n (replies D (ss_secrets S) (ss_pending_name S) sends)) ob ob' \<and>
        (case res of
           Inr prompts \<Rightarrow> n = length (replies D (ss_secrets S) (ss_pending_name S) sends) \<and> prompts = handed_up sends
         | Inl _ \<Rightarrow> n < length (replies D (ss_secrets S) (ss_pending_name S) sends))"
proof (cases stored)
  case (Inl e)
  then show ?thesis using assms by (auto simp: session_run_def Let_def)
next
  case (Inr u)
  let ?S = "S\<lparr>ss_signer := dp_set_staged D staged (ss_signer S), ss_flash := f\<rparr>"
  have "run_sends D sends [] ?S ob = (res, S', ob')" using assms Inr by (simp add: session_run_def Let_def)
  from run_sends_replies[OF this] show ?thesis using Inr by (cases res) (auto simp: sent_prefix_def le_less)
qed


text \<open>
  C34. What the device derives from its one secret is derived apart. The bytes hashed for the key that
  encrypts a share, for a nonce seed and for the tag of a name never coincide, and two that do coincide
  have the same inputs, part by part.
\<close>

theorem derivations_are_separate:
  assumes "\<forall>p \<in> set (share_key_parts s k party coord @ share_key_parts s' k' party' coord' @
      nonce_seed_parts s stream index material @ nonce_seed_parts s' stream' index' material' @ [body]). length p < u32_lim"
    "index < u32_lim" "index' < u32_lim"
  shows "tagged_transcript SHARE_DOMAIN (share_key_parts s k party coord) \<noteq>
      tagged_transcript NONCE_DOMAIN (nonce_seed_parts s' stream' index' material') \<and>
    tagged_transcript NAME_DOMAIN [body] \<noteq> tagged_transcript SHARE_DOMAIN (share_key_parts s k party coord) \<and>
    tagged_transcript NAME_DOMAIN [body] \<noteq> tagged_transcript NONCE_DOMAIN (nonce_seed_parts s stream index material) \<and>
    (tagged_transcript SHARE_DOMAIN (share_key_parts s k party coord) =
       tagged_transcript SHARE_DOMAIN (share_key_parts s' k' party' coord') \<longleftrightarrow>
     sc_seed s = sc_seed s' \<and> ar_key_id k = ar_key_id k' \<and> ar_access_structure_id k = ar_access_structure_id k' \<and>
       party = party' \<and> coord = coord') \<and>
    (tagged_transcript NONCE_DOMAIN (nonce_seed_parts s stream index material) =
       tagged_transcript NONCE_DOMAIN (nonce_seed_parts s' stream' index' material') \<longleftrightarrow>
     sc_seed s = sc_seed s' \<and> stream = stream' \<and> index = index' \<and> material = material')"
proof -
  note same = tagged_transcript_inject
  have domains: "SHARE_DOMAIN \<noteq> NONCE_DOMAIN" "NAME_DOMAIN \<noteq> SHARE_DOMAIN" "NAME_DOMAIN \<noteq> NONCE_DOMAIN"
    by (simp_all add: SHARE_DOMAIN_def NONCE_DOMAIN_def NAME_DOMAIN_def ascii_def)
  have parts: "\<forall>p \<in> set (share_key_parts s k party coord). length p < u32_lim"
    "\<forall>p \<in> set (share_key_parts s' k' party' coord'). length p < u32_lim"
    "\<forall>p \<in> set (nonce_seed_parts s stream index material). length p < u32_lim"
    "\<forall>p \<in> set (nonce_seed_parts s' stream' index' material'). length p < u32_lim"
    "\<forall>p \<in> set [body]. length p < u32_lim" using assms(1) by auto
  have index: "be_bytes 4 index = be_bytes 4 index' \<longleftrightarrow> index = index'"
    using assms(2,3) le_bytes_inject[of index 4 index'] by (auto simp: be_bytes_def u32_lim_def)
  show ?thesis
    using same[OF _ _ _ parts(1) parts(4), of SHARE_DOMAIN NONCE_DOMAIN] same[OF _ _ _ parts(5) parts(1), of NAME_DOMAIN SHARE_DOMAIN]
      same[OF _ _ _ parts(5) parts(3), of NAME_DOMAIN NONCE_DOMAIN] same[OF _ _ _ parts(1) parts(2), of SHARE_DOMAIN SHARE_DOMAIN]
      same[OF _ _ _ parts(3) parts(4), of NONCE_DOMAIN NONCE_DOMAIN] domains index
    by (auto simp: share_key_parts_def nonce_seed_parts_def)
qed

theorem consent_is_what_was_shown_witness:
  "\<exists>g. prompt_screen_at (dp_ask sample_deps) (UserRestoration (DisplayBackup (str ''Savings'') glass_phase)) 49 0 frame_new =
      (Inr (ShownPage True), g) \<and> shows_text g 0 FOOTER_ROW (str ''Press ('' @ [49] @ str '') x=no'')"
proof -
  let ?p = "UserRestoration (DisplayBackup (str ''Savings'') glass_phase)"
  obtain shown g where p: "prompt_screen_at (dp_ask sample_deps) ?p 49 0 frame_new = (shown, g)" by fastforce
  then have "shown = Inr (ShownPage True)" using glass_consents(1) by simp
  moreover obtain res S' r' ob' where "confirm_at sample_deps ?p 0 sample_connection 0 outbox_new = (res, S', r', ob')"
    using prod_cases4 by blast
  ultimately show ?thesis using consent_is_what_was_shown[OF p glass_consents(3)] p by simp
qed

lemma sample_start: "ss_reveal (wd_session sample_world) = None" "\<not> ss_record_pending (wd_session sample_world)"
    "ss_check (wd_session sample_world) = None"
    "dp_decrypt sample_deps (ss_secrets (wd_session sample_world)) glass_phase = Inr glass_backup"
    "bd_share_index glass_phase < u32_lim" "dp_hash sample_deps = sample_hash"
  by (simp_all add: sample_world_def sample_connection_def sample_deps_def glass_phase_def u32_lim_def)

theorem backups_can_be_recorded_and_checked_witness:
  "\<exists>w'. session_runs sample_deps sample_world (Revealed glass_phase # map PageDrawn [0 ..< 8] @ [Quiet, Recorded]) w'"
proof -
  obtain ws u v where ws: "to_words sample_hash BIP39_WORDS glass_backup = Some ws" "u \<in> set ws" "v \<in> set ws" "u \<noteq> v"
    by (rule glass_words)
  from backups_can_be_recorded_and_checked[OF glass_consents(3) sample_start(4) glass_backup_wf sample_start(5) _ ws(2-4)
      sample_fits sample_fits glass_consents(1,2)] ws(1) sample_start(6) show ?thesis by auto
qed

theorem backup_is_recorded_after_every_page_witness:
  "\<exists>before between w'. session_runs sample_deps sample_world (before @ Revealed glass_phase # between @ [Recorded]) w' \<and>
     PageDrawn 7 \<in> set between"
proof -
  obtain w' where w: "session_runs sample_deps sample_world (Revealed glass_phase # map PageDrawn [0 ..< 8] @ [Quiet, Recorded]) w'"
    using backup_is_recorded[OF glass_consents(1,3) sample_start(4) glass_backup_wf sample_start(5) sample_fits] by blast
  then have "session_runs sample_deps sample_world ((Revealed glass_phase # map PageDrawn [0 ..< 8] @ [Quiet]) @ Recorded # []) w'" by simp
  from backup_is_recorded_after_every_page[OF this sample_start(1,2)] obtain ph before between where
    b: "Revealed glass_phase # map PageDrawn [0 ..< 8] @ [Quiet] = before @ Revealed ph # between" "PageDrawn 7 \<in> set between" by auto
  have "Revealed ph \<in> set (Revealed glass_phase # map PageDrawn [0 ..< 8] @ [Quiet])" unfolding b(1) by simp
  then have "ph = glass_phase" by auto
  then show ?thesis using w b by (metis append_Cons append_assoc append_Nil)
qed

theorem backup_is_checked_after_eight_words_witness:
  "\<exists>pre ws log w'. session_runs sample_deps sample_world (pre @ [CheckReported (bd_access_structure_ref glass_phase) 3 log]) w' \<and>
     (24, ws ! 24) \<in> answers_in (pre @ [CheckReported (bd_access_structure_ref glass_phase) 3 log])"
proof -
  obtain ws u v where ws: "to_words (dp_hash sample_deps) BIP39_WORDS glass_backup = Some ws" "u \<in> set ws" "v \<in> set ws" "u \<noteq> v"
    unfolding sample_start(6) by (rule glass_words)
  obtain pre log w' where w: "session_runs sample_deps sample_world (pre @ CheckReported (bd_access_structure_ref glass_phase) 3 log # []) w'"
    using backup_is_checked[OF glass_consents(2,3) sample_start(4) glass_backup_wf ws sample_fits]
    by (auto simp: glass_phase_def simp flip: append_Cons)
  from backup_is_checked_after_eight_words[OF this sample_start(3) sample_decrypts] obtain before ws' between where
    "pre = before @ QuizBegun (bd_access_structure_ref glass_phase) 3 ws' # between"
    "(24, ws' ! 24) \<in> answers_in (between @ [CheckReported (bd_access_structure_ref glass_phase) 3 log])"
    by (auto simp: LAST_POSITION_def QUIZ_WORDS_def)
  then have "(24, ws' ! 24) \<in> answers_in (pre @ [CheckReported (bd_access_structure_ref glass_phase) 3 log])"
    by (auto simp: answers_in_def)
  then show ?thesis using w by blast
qed

theorem answers_follow_the_store_witness:
  "\<exists>S' ob'. session_run sample_deps [ToUser (NonceJobs ()), ToCoordinator (OtherReply ())] sample_connection outbox_new =
      (Inr [], S', ob') \<and>
    appended (dp_encode sample_deps)
      [DevCore (NonceResponse [()]), DevCore (NonceResponse [()]), DevCore (OtherReply ())] outbox_new ob'"
proof -
  let ?sends = "[ToUser (NonceJobs ()), ToCoordinator (OtherReply ())]"
  obtain S' ob' where run: "session_run sample_deps ?sends sample_connection outbox_new = (Inr [], S', ob')"
    by (simp add: session_run_def persist_staged_def sample_deps_def sample_connection_def outbox_push_def outbox_encode_def
        encode_frame_def FRAME_LIMIT_def outbox_new_def Let_def)
  have "persist_staged (dp_flash sample_deps) (dp_hash sample_deps) (dp_cenc sample_deps) (ss_shares sample_connection)
      (dp_staged sample_deps (ss_signer sample_connection)) (ss_flash sample_connection) = (Inr (), [], blank_flash)"
    by (simp add: persist_staged_def sample_deps_def sample_connection_def)
  from answers_follow_the_store[OF run this] show ?thesis using run
    by (auto simp: sent_as_def sample_deps_def)
qed


theorem derivations_are_separate_witness:
  "tagged_transcript SHARE_DOMAIN (share_key_parts (secrets_new (replicate 32 5))
      \<lparr>ar_key_id = replicate 32 1, ar_access_structure_id = replicate 32 2\<rparr> (replicate 32 3) (replicate 33 4)) \<noteq>
    tagged_transcript NONCE_DOMAIN (nonce_seed_parts (secrets_new (replicate 32 5)) (replicate 16 1) 7 (replicate 32 2))"
  using derivations_are_separate[of "secrets_new (replicate 32 5)"
      "\<lparr>ar_key_id = replicate 32 1, ar_access_structure_id = replicate 32 2\<rparr>" "replicate 32 3" "replicate 33 4"
      "secrets_new (replicate 32 5)" "\<lparr>ar_key_id = replicate 32 1, ar_access_structure_id = replicate 32 2\<rparr>" "[]" "[]"
      "replicate 16 1" 7 "replicate 32 2" "replicate 16 1" 7 "replicate 32 2" "[]"]
  by (simp add: share_key_parts_def nonce_seed_parts_def secrets_new_def be_bytes_def u32_lim_def)

section \<open>The main loop\<close>

text \<open>
  C36. What waits was drawn. Whatever packets arrive, a prompt and a flow never wait for a key at once;
  a waiting prompt was drawn under its digit at its page, and that page asks exactly if it is
  recorded as asking; a waiting flow's own screen is the newest on the panel.
\<close>

theorem what_waits_was_drawn:
  assumes "loop_turns B packets (loop_start B S r panel pad backup) = Some L"
  shows "(lp_parked L = None \<or> lp_glass L = None) \<and>
    (\<forall>parked. lp_parked L = Some parked \<longrightarrow> (\<exists>frames. lp_panel L = Some frames \<and> prompt_drawn (bd_deps B) parked frames)) \<and>
    (\<forall>flow. lp_glass L = Some flow \<longrightarrow> (\<exists>f frames. lp_panel L = Some (f # frames) \<and> flow_drawn (bd_deps B) flow f))"
  using loop_turns_in_step[OF assms start_in_step] by (auto simp: in_step_def split: option.splits)

text \<open>
  C5. Only the printed digit consents. Serving a waiting prompt changes the session, or what is to be
  sent, only if the pad reports that one key alone is down and it is the digit of the prompt, the
  page is one that asks, and a frame with exactly this digit in its last row was on the panel.
\<close>

theorem only_the_printed_digit_consents:
  assumes "loop_turns B packets (loop_start B S r panel pad backup) = Some L"
    "hear B packet L = Some (True, handled, L1)" "lp_parked L1 = Some (prompt, confirm, page, asks)"
    "serve B L1 = Some L2" "(lp_session L2, lp_outbox L2) \<noteq> (lp_session L1, lp_outbox L1)"
  shows "asks \<and>
    (\<exists>h h' key r'. lp_pad L1 = Some h \<and>
      read_key (bd_gpio B) (dp_rng (bd_deps B)) (h, lp_rng L1) = (Down key, h', r') \<and> unat key = confirm) \<and>
    (\<exists>frames. \<exists>f \<in> set frames. lp_panel L1 = Some frames \<and>
      prompt_screen_at (dp_ask (bd_deps B)) prompt confirm page frame_new = (Inr (ShownPage True), f) \<and>
      shows_text f 0 FOOTER_ROW (str ''Press ('' @ [confirm] @ str '') x=no''))"
proof -
  have "loop_in_step (bd_deps B) L1" by (rule hear_in_step[OF assms(2) loop_turns_in_step[OF assms(1) start_in_step]])
  then obtain frames f where f: "lp_panel L1 = Some frames" "confirm \<in> set CONFIRM_CHARSET" "f \<in> set frames"
    "prompt_screen_at (dp_ask (bd_deps B)) prompt confirm page frame_new = (Inr (ShownPage asks), f)"
    using assms(3) by (auto simp: in_step_parked prompt_drawn_def)
  have "asks" and key: "\<exists>h h' key r'. lp_pad L1 = Some h \<and>
      read_key (bd_gpio B) (dp_rng (bd_deps B)) (h, lp_rng L1) = (Down key, h', r') \<and> unat key = confirm"
    using serve_prompt_needs_digit[OF assms(4,3)] assms(5) by auto
  moreover have "shows_text f 0 FOOTER_ROW (str ''Press ('' @ [confirm] @ str '') x=no'')"
    using prompt_asks[of _ prompt confirm page frame_new f] f(2,4) \<open>asks\<close> by (auto simp: asks_with_def)
  ultimately show ?thesis using f by auto
qed

text \<open>
  C6. The digit outlives its screen. If a message is refused while a prompt waits, the refusal is drawn
  over it and shows no digit, but the prompt still waits: the digit pressed in the next turn consents
  to it, and its replies leave in that turn.
\<close>

theorem digit_outlives_its_screen:
  assumes "loop_turns B packets (loop_start B S r panel pad backup) = Some L"
    "lp_parked L = Some (prompt, confirm, page, True)" "lp_pad L = Some h" "l_linked (lp_link L)" "ob_frames (lp_outbox L) = 0"
    "poll (bd_frame B) packet (lp_link L) = (Inr (), link, [SerialMessage message])"
    "decode_body (bd_inner B) message = Inr (BInner DataEraseBody)"
    "read_key (bd_gpio B) (dp_rng (bd_deps B)) (h, lp_rng L) = (AllUp, h', r')"
    "l_linked link" "poll (bd_frame B) [] link = (Inr (), link', [])"
    "read_key (bd_gpio B) (dp_rng (bd_deps B)) (h', r') = (Down key, h2, r2)" "unat key = confirm" "grants prompt = None"
    "confirm_at (bd_deps B) prompt page (lp_session L) r2 (lp_outbox L) = (Inr prompts, S', r3, ob')"
  shows "\<exists>L1 L2 frames. loop_turn B packet L = Some L1 \<and> lp_panel L1 = Some (refusal_page frame_new # frames) \<and>
    \<not> shows_text (refusal_page frame_new) 0 FOOTER_ROW (str ''Press ('' @ [confirm] @ str '') x=no'') \<and>
    loop_turn B [] L1 = Some L2 \<and> lp_session L2 = S' \<and>
    lp_written L2 = lp_written L1 @ (if 0 < ob_frames ob' then [ob_bytes ob'] else [])"
proof -
  from loop_turns_in_step[OF assms(1) start_in_step] assms(2)
  obtain frames where f: "lp_panel L = Some frames" "confirm \<in> set CONFIRM_CHARSET"
    by (auto simp: in_step_parked prompt_drawn_def)
  from erase_covers_prompt[OF assms(2) f(1) assms(3,4,6,7,8,5)]
  obtain L1 where L1: "loop_turn B packet L = Some L1" "lp_parked L1 = lp_parked L"
    "lp_panel L1 = Some (refusal_page frame_new # frames)" "lp_pad L1 = Some h'" "lp_rng L1 = r'"
    "lp_session L1 = lp_session L" "lp_outbox L1 = lp_outbox L" "lp_link L1 = link" "\<not> lp_magic_reply L1"
    by blast
  have "\<exists>L2. loop_turn B [] L1 = Some L2 \<and> lp_session L2 = S' \<and>
      lp_written L2 = lp_written L1 @ (if 0 < ob_frames ob' then [ob_bytes ob'] else [])"
    by (rule digit_confirms[of L1 prompt confirm page h' B "[]" link' key h2 r2 prompts S' r3 ob'])
       (use L1 assms(2,9-14) f(2) in auto)
  then show ?thesis using L1(1,3) refusal_asks_nothing[of confirm frame_new, unfolded asks_with_def] by blast
qed

theorem what_waits_was_drawn_witness:
  "\<exists>L frames. loop_turns glass_board [glass_magic, [1], [2]] glass_start = Some L \<and> lp_glass L = None \<and>
     lp_panel L = Some frames \<and> prompt_drawn keygen_deps glass_parked frames"
proof -
  obtain L where L: "loop_turns glass_board [glass_magic, [1], [2]] glass_start = Some L"
    "glass_rest 19 30 ROWS_ALL_LOW (Some glass_parked) L" by (rule glass_waits)
  have "bd_deps glass_board = keygen_deps" by (simp add: glass_board_def)
  with what_waits_was_drawn[OF L(1)[unfolded glass_start_def]] L show ?thesis by (auto simp: glass_rest_def)
qed

theorem only_the_printed_digit_consents_witness:
  "\<exists>L L1 L2. loop_turns glass_board [glass_magic, [1], [2]] glass_start = Some L \<and>
     hear glass_board [] L = Some (True, False, L1) \<and> serve glass_board L1 = Some L2 \<and>
     lp_outbox L1 = outbox_new \<and> lp_outbox L2 = \<lparr>ob_bytes = [0, 1], ob_frames = 1\<rparr> \<and>
     (\<exists>frames. \<exists>f \<in> set frames. lp_panel L1 = Some frames \<and> shows_text f 0 FOOTER_ROW (str ''Press ('' @ [49] @ str '') x=no''))"
proof -
  obtain L where L: "loop_turns glass_board [glass_magic, [1], [2]] glass_start = Some L"
    "glass_rest 19 30 ROWS_ALL_LOW (Some glass_parked) L" by (rule glass_waits)
  note rest = L(2)[unfolded glass_rest_def]
  have heard: "hear glass_board [] L = Some (True, False, L)"
    using rest poll_none by (simp add: hear_def)
  have key: "answer (Inr (Down 49)) (ConsentPrompt (CheckKeyGen glass_phase3) 49) True = AnsYes"
    by (simp add: answer_def NEXT_KEY_def confirm_accepts_def)
  obtain L2 where L2: "serve glass_board L = Some L2" "lp_outbox L2 = \<lparr>ob_bytes = [0, 1], ob_frames = 1\<rparr>"
    using rest late_reads(3) key glass_confirms
    by (auto simp: serve_def serve_prompt_def ask_key_def ask_def glass_board_def grants_def granted_def park_batch_same)
  from only_the_printed_digit_consents[OF L(1)[unfolded glass_start_def] heard _ L2(1), of "CheckKeyGen glass_phase3" 49 0 True]
  show ?thesis using L(1) heard L2 rest by (auto simp: outbox_new_def)
qed

theorem digit_outlives_its_screen_witness:
  "\<exists>L L1 L2 frames. loop_turns glass_board [glass_magic, [1]] glass_start = Some L \<and>
     loop_turn glass_board [2] L = Some L1 \<and> lp_panel L1 = Some (refusal_page frame_new # frames) \<and>
     loop_turn glass_board [] L1 = Some L2 \<and> lp_written L2 = lp_written L1 @ [[0, 1]]"
proof -
  obtain M where a: "loop_turn glass_board glass_magic glass_start = Some M" "glass_rest 0 0 0 None M" by (rule glass_linked)
  obtain L where b: "loop_turn glass_board [1] M = Some L" "glass_rest 10 15 ROWS_ALL_LOW (Some glass_parked) L"
    by (rule glass_asked[OF a(2)])
  note rest = b(2)[unfolded glass_rest_def]
  have run: "loop_turns glass_board [glass_magic, [1]] glass_start = Some L" by (simp add: a b)
  have board: "bd_deps glass_board = keygen_deps" "bd_gpio glass_board = late_gpio" by (simp_all add: glass_board_def)
  have body: "decode_body (bd_inner glass_board) (WEncapsV0 [2]) = Inr (BInner DataEraseBody)"
    by (simp add: decode_body_def glass_board_def)
  from digit_outlives_its_screen[OF run[unfolded glass_start_def], of "CheckKeyGen glass_phase3" 49 0 "(15, ROWS_ALL_LOW)" "[2]"
      glass_link "WEncapsV0 [2]" "(30, ROWS_ALL_LOW)" 19 glass_link 49 "(45, ROWS_ALL_LOW)" 28 "[]" sample_connection 29
      "\<lparr>ob_bytes = [0, 1], ob_frames = 1\<rparr>"]
  show ?thesis using run rest poll_one[of 2] poll_none body late_reads(2,3) glass_confirms board
    by (auto simp: outbox_new_def grants_def)
qed

section \<open>The USB device\<close>


text \<open>
  C38. Packets are received whole. In every state the device can be in, a poll that returns bytes read
  them, and nothing else, from the receive FIFO as one packet for the data endpoint, and gave the
  endpoint back; one that finds a packet too long for its buffer changes nothing but drains exactly
  that packet, so that the next entry is read from its start.
\<close>

theorem packets_are_whole:
  assumes "cdc_reached C c" "cdc_poll C packet c t = (res, packet', c', t')"
  shows "(\<forall>n. res = Inr n \<and> 0 < n \<longrightarrow> c' = c \<and> n \<le> length packet \<and>
      (\<exists>ints raw ws es. rx_status_of raw = \<lparr>rx_ep = EP_DATA, rx_len = n, rx_kind = PKTSTS_OUT_DATA\<rparr> \<and>
        length ws = fifo_words n \<and> packet' = take n (word_bytes ws) @ drop n packet \<and> rearms es \<and>
        snd t' = snd t @ [UsbRead (otg_global GINTSTS) ints, UsbRead (otg_global GRXSTSP) raw]
          @ map (UsbRead (OTG_FS_BASE + FIFO)) ws @ es)) \<and>
    (\<forall>n. res = Inl (OversizePacket n) \<longrightarrow> c' = c \<and>
      (\<exists>ints raw ws. rx_len (rx_status_of raw) = n \<and> length ws = fifo_words n \<and>
        snd t' = snd t @ [UsbRead (otg_global GINTSTS) ints, UsbRead (otg_global GRXSTSP) raw]
          @ map (UsbRead (OTG_FS_BASE + FIFO)) ws))"
  using received_packet[of C packet c t] oversize_drains[of C packet c t] assms(2) cdc_reached_sizes[OF assms(1)]
  by (intro conjI allI impI) simp_all

text \<open>
  C39. Control replies fit. In every state the device can be in, the answer to any request is at most
  as long as the host asked for and a prefix of a descriptor, a status or a configuration value, or
  of the seven bytes of line coding; carrying it out never fails as too long for the endpoint, and
  changes the configuration only if the request was to configure the device with that value.
\<close>

theorem control_replies_fit:
  assumes "cdc_reached C c" "cdc_apply C (control_reply s (cd_state c)) (cd_state c) t = (res, st, t')"
  shows "(res = Inr () \<or> res = Inl EndpointBusy \<or> res = Inl FifoTimeout) \<and>
    (\<forall>bs. control_reply s (cd_state c) = ReplyData bs \<longrightarrow>
      (\<exists>full \<in> set served. bs = take (su_length s) full)) \<and>
    (\<forall>n. control_reply s (cd_state c) = ReplyLineCoding n \<longrightarrow> n = min (su_length s) 7) \<and>
    (ct_configured st \<noteq> ct_configured (cd_state c) \<longrightarrow>
      su_kind s = KIND_STANDARD \<and> su_recipient s = RECIPIENT_DEVICE \<and> su_request s = 9 \<and>
      su_value s = (if ct_configured st then 1 else 0))"
proof -
  have seven: "length (ct_line_coding (cd_state c)) = 7" using cdc_reached_sizes[OF assms(1)] by simp
  have "\<exists>full \<in> set served. bs = take (su_length s) full" if "control_reply s (cd_state c) = ReplyData bs" for bs
  proof -
    from control_reply_data[OF that] obtain full
      where "full \<in> set served" "bs = take (min (su_length s) (length full)) full" by blast
    then show ?thesis by (intro bexI[of _ full]) (auto simp: min_def)
  qed
  moreover have "n = min (su_length s) 7" if "control_reply s (cd_state c) = ReplyLineCoding n" for n
    using that seven
    by (auto simp: control_reply_def Let_def clamped_data split: if_splits option.splits)
  ultimately show ?thesis
    using control_apply_fits[OF assms(2) seven] control_configures[OF assms(2)] by auto
qed


text \<open>
  A core that is ready and holds one packet of four bytes for the data endpoint over and over.
\<close>

definition idle_core :: "unit otg" where
  "idle_core = \<lparr>og_read = (\<lambda>a h. (if a = otg_global GRSTCTL then GRSTCTL_AHBIDL
       else if a = in_ep 0 EP_TXFSTS \<or> a = in_ep EP_DATA EP_TXFSTS then 0xff
       else if a = otg_global GINTSTS then GINTSTS_RXFLVL
       else if a = otg_global GRXSTSP then 0x40042
       else if a = OTG_FS_BASE + FIFO then 0x64636261 else 0, h)), og_write = (\<lambda>a v h. h)\<rparr>"

definition idle_cdc :: cdc where "idle_cdc = \<lparr>cd_state = control_new, cd_setup = replicate 8 0\<rparr>"

lemmas core_registers = otg_global_def in_ep_def out_ep_def OTG_FS_BASE_def FIFO_def GRSTCTL_def GINTSTS_def GRXSTSP_def
  IN_EP_def OUT_EP_def EP_STRIDE_def EP_CTL_def EP_TSIZ_def EP_TXFSTS_def EP_DATA_def

lemma idle_core_ready: "core_ready idle_core"
  by (simp add: core_ready_def idle_core_def core_registers)

lemma idle_reached: "cdc_reached idle_core idle_cdc"
proof -
  obtain t' where "cdc_open idle_core ((), []) = (Inr idle_cdc, t')"
    using open_ready[OF idle_core_ready, of "((), [])"] by (cases "cdc_open idle_core ((), [])") (auto simp: idle_cdc_def)
  then show ?thesis by (rule opened)
qed

lemma idle_reads:
  "usb_read idle_core (otg_global GINTSTS) t = (GINTSTS_RXFLVL, (), snd t @ [UsbRead (otg_global GINTSTS) GINTSTS_RXFLVL])"
  "usb_read idle_core (otg_global GRXSTSP) t = (0x40042, (), snd t @ [UsbRead (otg_global GRXSTSP) 0x40042])"
  "words_read (mmio_port idle_core) 1 t = ([0x64636261], (), snd t @ [UsbRead (OTG_FS_BASE + FIFO) 0x64636261])"
  by (simp_all add: usb_read_def idle_core_def core_registers mmio_port_def)

lemma idle_fed:
  assumes "length dest = 64"
  shows "\<exists>u. fifo_read (mmio_port idle_core) 4 dest t = (Inr 4, [0x61, 0x62, 0x63, 0x64] @ drop 4 dest, u)"
proof -
  have one: "fifo_words 4 = 1" by (simp add: fifo_words_def)
  have four: "4 = Suc (Suc (Suc (Suc 0)))" by simp
  have "word_bytes [0x64636261] = [0x61, 0x62, 0x63, 0x64]" by (simp only: word_bytes_simps four) simp
  moreover have "min 4 (length dest) = 4" "\<not> length dest < 4" using assms by simp_all
  ultimately show ?thesis
    using fifo_read_spec[of "mmio_port idle_core" 4 t, unfolded one, OF idle_reads(3), of dest] by simp
qed

lemma idle_packet:
  assumes "length dest = 64"
  shows "\<exists>packet' c' t'. cdc_poll idle_core dest idle_cdc ((), []) = (Inr 4, packet', c', t') \<and>
    take 4 packet' = [0x61, 0x62, 0x63, 0x64]"
proof -
  let ?status = "\<lparr>rx_ep = EP_DATA, rx_len = 4, rx_kind = PKTSTS_OUT_DATA\<rparr>"
  have status: "rx_status_of 0x40042 = ?status"
    by (simp add: rx_status_of_def EP_DATA_def PKTSTS_OUT_DATA_def)
  have flags: "GINTSTS_RXFLVL AND GINTSTS_USBRST = 0" "GINTSTS_RXFLVL AND GINTSTS_ENUMDNE = 0" "GINTSTS_RXFLVL \<noteq> 0"
    by (simp_all add: GINTSTS_RXFLVL_def GINTSTS_USBRST_def GINTSTS_ENUMDNE_def bitv_def)
  have "\<exists>u. cdc_poll idle_core dest idle_cdc ((), []) = cdc_receive idle_core ?status dest idle_cdc u"
    unfolding cdc_poll_def idle_reads(1) prod.case flags(1,2) and.idem idle_reads(2) status using flags(3) by auto
  then obtain u u' where "cdc_poll idle_core dest idle_cdc ((), []) = cdc_receive idle_core ?status dest idle_cdc u"
    "fifo_read (mmio_port idle_core) 4 dest u = (Inr 4, [0x61, 0x62, 0x63, 0x64] @ drop 4 dest, u')"
    using idle_fed[OF assms] by blast
  then have "cdc_poll idle_core dest idle_cdc ((), []) =
      (Inr 4, [0x61, 0x62, 0x63, 0x64] @ drop 4 dest, idle_cdc, arm_data_out idle_core u')"
    unfolding cdc_receive_def
    by (simp add: PKTSTS_OUT_DATA_def PKTSTS_SETUP_DATA_def PKTSTS_SETUP_COMPLETE_def EP_DATA_def)
  moreover have "take 4 ([0x61, 0x62, 0x63, 0x64] @ drop 4 dest) = [0x61, 0x62, 0x63, 0x64]" by simp
  ultimately show ?thesis by blast
qed

theorem packets_are_whole_witness:
  "\<exists>packet' t' ints raw ws es. cdc_poll idle_core (replicate 64 0) idle_cdc ((), []) = (Inr 4, packet', idle_cdc, t') \<and>
    take 4 packet' = [0x61, 0x62, 0x63, 0x64] \<and> rearms es \<and>
    snd t' = [UsbRead (otg_global GINTSTS) ints, UsbRead (otg_global GRXSTSP) raw] @ map (UsbRead (OTG_FS_BASE + FIFO)) ws @ es"
proof -
  define dest :: bytes where "dest = replicate 64 0"
  then have "length dest = 64" by simp
  then obtain packet' c' t' where p: "cdc_poll idle_core dest idle_cdc ((), []) = (Inr 4, packet', c', t')"
    "take 4 packet' = [0x61, 0x62, 0x63, 0x64]" using idle_packet by blast
  from packets_are_whole[OF idle_reached p(1)] have "c' = idle_cdc \<and>
      (\<exists>ints raw ws es. rearms es \<and> snd t' = [UsbRead (otg_global GINTSTS) ints, UsbRead (otg_global GRXSTSP) raw]
        @ map (UsbRead (OTG_FS_BASE + FIFO)) ws @ es)" by auto
  then show ?thesis using p unfolding dest_def by blast
qed


text \<open>The host asks for the first eight bytes of the device descriptor.\<close>

theorem control_replies_fit_witness:
  "\<exists>full \<in> set served. control_reply (setup_parse [0x80, 6, 0, 1, 0, 0, 8, 0]) control_new = ReplyData (take 8 full)"
proof -
  let ?s = "setup_parse [0x80, 6, 0, 1, 0, 0, 8, 0]"
  obtain res st t' where r: "cdc_apply idle_core (control_reply ?s (cd_state idle_cdc)) (cd_state idle_cdc) ((), []) = (res, st, t')"
    by (rule prod_cases3)
  have s: "?s = \<lparr>su_request_type = 0x80, su_request = 6, su_value = 0x100, su_index = 0, su_length = 8\<rparr>"
    by (simp add: setup_parse_def window_def)
  have "control_reply ?s (cd_state idle_cdc) = ReplyData (take 8 DEVICE_DESCRIPTOR)"
    by (simp add: s idle_cdc_def control_reply_def su_kind_def su_recipient_def KIND_STANDARD_def KIND_CLASS_def RECIPIENT_DEVICE_def
        RECIPIENT_INTERFACE_def RECIPIENT_ENDPOINT_def usb_descriptor_def clamped_def DEVICE_DESCRIPTOR_def)
  then show ?thesis using control_replies_fit[OF idle_reached r] by (simp add: s idle_cdc_def) 
qed


end
